(* ===== verification/Prelude.thy ===== *)
theory Prelude
  imports Complex_Main "HOL-Library.AList" "HOL-Library.Multiset"
begin

text \<open>
  Shared vocabulary of the development.

  \<^item> JavaScript values: a \<open>Map\<close> is an association list (insertion order is the iteration
    order; setting an existing key keeps its place), a millisecond timestamp and a
    \<open>BigInt\<close> are an \<open>int\<close>, a \<open>number\<close> that carries a money amount is an exact \<open>rat\<close>
    (rounding of doubles is not modelled), a string is a list of Latin-1 code units.
  \<^item> Errors: one datatype with the error classes the sources throw.
  \<^item> Decimal strings: \<open>String(n)\<close>, \<open>BigInt(s)\<close>, \<open>padStart\<close>, \<open>padEnd\<close>, \<open>trim\<close>,
    \<open>toLowerCase\<close>, \<open>includes\<close>, with the round trip between printing and reading.
  \<^item> Lemmas on association lists and list sums the components share, collected in
    \<open>jsmap\<close> and \<open>sums\<close>.
\<close>

section \<open>Values\<close>

type_synonym millis = int
type_synonym usdc = rat
type_synonym ('k, 'v) js_map = "('k \<times> 'v) list"

abbreviation map_get :: "('k, 'v) js_map \<Rightarrow> 'k \<Rightarrow> 'v option" where
  "map_get m k \<equiv> map_of m k"

abbreviation map_set :: "'k \<Rightarrow> 'v \<Rightarrow> ('k, 'v) js_map \<Rightarrow> ('k, 'v) js_map" where
  "map_set k v m \<equiv> AList.update k v m"

abbreviation map_delete :: "'k \<Rightarrow> ('k, 'v) js_map \<Rightarrow> ('k, 'v) js_map" where
  "map_delete k m \<equiv> AList.delete k m"

abbreviation map_values :: "('k, 'v) js_map \<Rightarrow> 'v list" where
  "map_values m \<equiv> map snd m"

abbreviation wf_map :: "('k, 'v) js_map \<Rightarrow> bool" where
  "wf_map m \<equiv> distinct (map fst m)"

section \<open>Errors\<close>

datatype error =
    Error string
  | BadRequestError string string
  | UnauthorizedError string string
  | ForbiddenError string string
  | NotFoundError string string
  | PaymentRequiredError string string
  | TooManyRequestsError string string
  | ConflictError string string
  | InternalServerError string string
  | BadGatewayError string string
  | ServiceUnavailableError string string
  | GatewayTimeoutError string string
  | CircuitBreakerOpenError string

fun statusCode :: "error \<Rightarrow> nat option" where
  "statusCode (Error _) = None"
| "statusCode (BadRequestError _ _) = Some 400"
| "statusCode (UnauthorizedError _ _) = Some 401"
| "statusCode (ForbiddenError _ _) = Some 403"
| "statusCode (NotFoundError _ _) = Some 404"
| "statusCode (PaymentRequiredError _ _) = Some 402"
| "statusCode (TooManyRequestsError _ _) = Some 429"
| "statusCode (ConflictError _ _) = Some 409"
| "statusCode (InternalServerError _ _) = Some 500"
| "statusCode (BadGatewayError _ _) = Some 502"
| "statusCode (ServiceUnavailableError _ _) = Some 503"
| "statusCode (GatewayTimeoutError _ _) = Some 504"
| "statusCode (CircuitBreakerOpenError _) = None"

fun error_message :: "error \<Rightarrow> string" where
  "error_message (Error m) = m"
| "error_message (BadRequestError m _) = m"
| "error_message (UnauthorizedError m _) = m"
| "error_message (ForbiddenError m _) = m"
| "error_message (NotFoundError m _) = m"
| "error_message (PaymentRequiredError m _) = m"
| "error_message (TooManyRequestsError m _) = m"
| "error_message (ConflictError m _) = m"
| "error_message (InternalServerError m _) = m"
| "error_message (BadGatewayError m _) = m"
| "error_message (ServiceUnavailableError m _) = m"
| "error_message (GatewayTimeoutError m _) = m"
| "error_message (CircuitBreakerOpenError m) = m"

type_synonym 'a result = "error + 'a"

section \<open>Strings\<close>

definition is_digit :: "char \<Rightarrow> bool" where
  "is_digit c \<longleftrightarrow> 48 \<le> (of_char c :: nat) \<and> (of_char c :: nat) \<le> 57"

definition digit_char :: "nat \<Rightarrow> char" where
  "digit_char d = char_of (48 + d)"

definition digit_val :: "char \<Rightarrow> nat" where
  "digit_val c = of_char c - 48"

fun show_nat :: "nat \<Rightarrow> string" where
  "show_nat n = (if n < 10 then [digit_char n] else show_nat (n div 10) @ [digit_char (n mod 10)])"

declare show_nat.simps [simp del]

text \<open>\<open>toString\<close> of an integer, with the sign of a negative one.\<close>

definition show_int :: "int \<Rightarrow> string" where
  "show_int i = (if i < 0 then CHR ''-'' # show_nat (nat (- i)) else show_nat (nat i))"

text \<open>\<open>BigInt(s)\<close> on a string of digits (the empty string reads as zero).\<close>

definition read_nat :: "string \<Rightarrow> nat" where
  "read_nat s = foldl (\<lambda>a c. 10 * a + digit_val c) 0 s"

definition padStart :: "nat \<Rightarrow> char \<Rightarrow> string \<Rightarrow> string" where
  "padStart n c s = replicate (n - length s) c @ s"

definition padEnd :: "nat \<Rightarrow> char \<Rightarrow> string \<Rightarrow> string" where
  "padEnd n c s = s @ replicate (n - length s) c"

text \<open>White space of \<open>String.prototype.trim\<close> among the Latin-1 code units.\<close>

definition is_space :: "char \<Rightarrow> bool" where
  "is_space c \<longleftrightarrow> (of_char c :: nat) \<in> {9, 10, 11, 12, 13, 32, 160}"

definition trim :: "string \<Rightarrow> string" where
  "trim s = rev (dropWhile is_space (rev (dropWhile is_space s)))"

definition strip_trailing_zeros :: "string \<Rightarrow> string" where
  "strip_trailing_zeros s = rev (dropWhile (\<lambda>c. c = CHR ''0'') (rev s))"

definition lower_char :: "char \<Rightarrow> char" where
  "lower_char c = (let n = (of_char c :: nat) in
     if (65 \<le> n \<and> n \<le> 90) \<or> (192 \<le> n \<and> n \<le> 222 \<and> n \<noteq> 215) then char_of (n + 32) else c)"

definition toLowerCase :: "string \<Rightarrow> string" where
  "toLowerCase s = map lower_char s"

definition str_includes :: "string \<Rightarrow> string \<Rightarrow> bool" where
  "str_includes s tok \<longleftrightarrow> list_ex (\<lambda>i. take (length tok) (drop i s) = tok) [0 ..< Suc (length s)]"

text \<open>\<open>BigInt\<close> division and remainder truncate towards zero.\<close>

definition big_div :: "int \<Rightarrow> int \<Rightarrow> int" where
  "big_div a b = sgn a * sgn b * (\<bar>a\<bar> div \<bar>b\<bar>)"

definition big_mod :: "int \<Rightarrow> int \<Rightarrow> int" where
  "big_mod a b = a - b * big_div a b"

text \<open>A string between single quotes, as the messages of the sources have it.\<close>

abbreviation quoted :: "string \<Rightarrow> string" where
  "quoted s \<equiv> CHR 0x27 # s @ [CHR 0x27]"

section \<open>Lemma collections\<close>

named_theorems jsmap \<open>lookup and domain laws of association lists\<close>
named_theorems sums \<open>sums over lists\<close>

lemma map_get_set [jsmap]: "map_get (map_set k v m) k' = (if k' = k then Some v else map_get m k')"
  by (simp add: update_conv')

lemma map_get_delete [jsmap]: "map_get (map_delete k m) k' = (if k' = k then None else map_get m k')"
  by (simp add: delete_conv')

lemma wf_map_set [simp]: "wf_map m \<Longrightarrow> wf_map (map_set k v m)"
  by (simp add: distinct_update)

lemma wf_map_delete [simp]: "wf_map m \<Longrightarrow> wf_map (map_delete k m)"
  by (simp add: distinct_delete)

lemma map_get_in_set: "map_get m k = Some v \<Longrightarrow> (k, v) \<in> set m"
  by (rule map_of_SomeD)

lemma wf_map_get_iff: "wf_map m \<Longrightarrow> map_get m k = Some v \<longleftrightarrow> (k, v) \<in> set m"
  by (simp add: map_of_eq_Some_iff)

lemma map_set_fresh: "k \<notin> fst ` set m \<Longrightarrow> map_set k v m = m @ [(k, v)]"
  by (induction m) auto

lemma map_get_None_iff: "map_get m k = None \<longleftrightarrow> k \<notin> fst ` set m"
  by (rule map_of_eq_None_iff)

lemma set_map_set: "wf_map m \<Longrightarrow> set (map_set k v m) = {x \<in> set m. fst x \<noteq> k} \<union> {(k, v)}"
  by (induction m) (auto simp: image_iff)

lemma find_append:
  "List.find P (xs @ ys) = (case List.find P xs of None \<Rightarrow> List.find P ys | Some x \<Rightarrow> Some x)"
  by (induction xs) auto

lemma sum_list_filter_le [sums]:
  fixes f :: "'a \<Rightarrow> 'b :: ordered_comm_monoid_add"
  assumes "\<And>x. x \<in> set xs \<Longrightarrow> 0 \<le> f x"
  shows "sum_list (map f (filter P xs)) \<le> sum_list (map f xs)"
  using assms by (induction xs) (auto intro: add_mono add_increasing)

lemma sum_list_partition [sums]:
  fixes f :: "'a \<Rightarrow> 'b :: ab_group_add"
  shows "sum_list (map f xs) = sum_list (map f (filter P xs)) + sum_list (map f (filter (Not \<circ> P) xs))"
  by (induction xs) (auto simp: algebra_simps)

lemma length_partition [sums]:
  "length xs = length (filter P xs) + length (filter (Not \<circ> P) xs)"
  by (induction xs) auto

section \<open>Printing and reading decimal numbers\<close>

lemma of_char_digit_char [simp]: "d < 10 \<Longrightarrow> (of_char (digit_char d) :: nat) = 48 + d"
  by (simp add: digit_char_def)

lemma is_digit_digit_char [simp]: "d < 10 \<Longrightarrow> is_digit (digit_char d)"
  by (simp add: is_digit_def)

lemma digit_val_digit_char [simp]: "d < 10 \<Longrightarrow> digit_val (digit_char d) = d"
  by (simp add: digit_val_def)

lemma digit_char_0: "digit_char 0 = CHR ''0''"
proof -
  have "char_of (of_char (CHR ''0'') :: nat) = CHR ''0''" by (rule char_of_char)
  then show ?thesis by (simp add: digit_char_def)
qed

lemma digit_char_eq_0_iff: "d < 10 \<Longrightarrow> digit_char d = CHR ''0'' \<longleftrightarrow> d = 0"
  by (metis digit_char_0 digit_val_digit_char zero_less_numeral)

lemma read_nat_Nil [simp]: "read_nat [] = 0"
  by (simp add: read_nat_def)

lemma read_nat_snoc [simp]: "read_nat (s @ [c]) = 10 * read_nat s + digit_val c"
  by (simp add: read_nat_def)

lemma read_nat_single [simp]: "read_nat [c] = digit_val c"
  by (simp add: read_nat_def)

lemma read_nat_append: "read_nat (s @ t) = read_nat s * 10 ^ length t + read_nat t"
proof (induction t rule: rev_induct)
  case Nil
  then show ?case by simp
next
  case (snoc c t)
  have "read_nat (s @ t @ [c]) = 10 * read_nat (s @ t) + digit_val c"
    by (metis append_assoc read_nat_snoc)
  with snoc show ?case by (simp add: algebra_simps)
qed

lemma digit_val_0 [simp]: "digit_val (CHR ''0'') = 0"
  by (simp add: digit_val_def)

lemma read_nat_replicate_0 [simp]: "read_nat (replicate n (CHR ''0'')) = 0"
proof (induction n)
  case (Suc n)
  have "replicate (Suc n) (CHR ''0'') = replicate n (CHR ''0'') @ [CHR ''0'']"
    by (simp add: replicate_append_same)
  with Suc show ?case by (simp del: replicate.simps)
qed simp

lemma read_nat_padEnd: "length s \<le> n \<Longrightarrow> read_nat (padEnd n (CHR ''0'') s) = read_nat s * 10 ^ (n - length s)"
  by (simp add: padEnd_def read_nat_append)

lemma read_nat_padStart [simp]: "read_nat (padStart n (CHR ''0'') s) = read_nat s"
  by (simp add: padStart_def read_nat_append)

lemma show_nat_nonempty [simp]: "show_nat n \<noteq> []"
  by (subst show_nat.simps) simp

lemma show_nat_digits: "list_all is_digit (show_nat n)"
proof (induction n rule: show_nat.induct)
  case (1 n)
  then show ?case by (cases "n < 10") (auto simp: show_nat.simps [of n])
qed

lemma read_show_nat [simp]: "read_nat (show_nat n) = n"
proof (induction n rule: show_nat.induct)
  case (1 n)
  show ?case
  proof (cases "n < 10")
    case True
    then show ?thesis by (simp add: show_nat.simps [of n] read_nat_def)
  next
    case False
    with 1 show ?thesis by (simp add: show_nat.simps [of n])
  qed
qed

lemma show_nat_length: "n < 10 ^ k \<Longrightarrow> 0 < k \<Longrightarrow> length (show_nat n) \<le> k"
proof (induction n arbitrary: k rule: show_nat.induct)
  case (1 n)
  show ?case
  proof (cases "n < 10")
    case True
    with 1 show ?thesis by (simp add: show_nat.simps [of n])
  next
    case False
    then obtain k' where k: "k = Suc k'" and "0 < k'"
      using "1.prems" by (cases k; cases "k - 1") auto
    with "1.prems" have "n div 10 < 10 ^ k'" by (simp add: less_mult_imp_div_less)
    with "1.IH" False k \<open>0 < k'\<close> show ?thesis by (simp add: show_nat.simps [of n])
  qed
qed

lemma is_digit_not_space: "is_digit c \<Longrightarrow> \<not> is_space c"
  by (auto simp: is_digit_def is_space_def)

lemma is_digit_not_dot: "is_digit c \<Longrightarrow> c \<noteq> CHR ''.''"
  by (auto simp: is_digit_def)

lemma strip_zeros_decomp:
  obtains k where "s = strip_trailing_zeros s @ replicate k (CHR ''0'')"
proof -
  let ?z = "\<lambda>c. c = CHR ''0''" and ?t = "takeWhile (\<lambda>c. c = CHR ''0'') (rev s)"
  have "\<forall>c \<in> set ?t. c = CHR ''0''" by (auto dest: set_takeWhileD)
  then have "replicate (length ?t) (CHR ''0'') = ?t" by (rule replicate_length_same)
  then have t: "rev ?t = replicate (length ?t) (CHR ''0'')" by (metis rev_replicate)
  have "rev (rev s) = rev (?t @ dropWhile ?z (rev s))"
    by (simp only: takeWhile_dropWhile_id)
  then have "s = strip_trailing_zeros s @ rev ?t"
    by (simp only: rev_rev_ident rev_append strip_trailing_zeros_def)
  with t have "s = strip_trailing_zeros s @ replicate (length ?t) (CHR ''0'')" by simp
  then show ?thesis by (rule that)
qed

lemma strip_zeros_pad:
  assumes "length s = n"
  shows "padEnd n (CHR ''0'') (strip_trailing_zeros s) = s"
proof -
  obtain k where k: "s = strip_trailing_zeros s @ replicate k (CHR ''0'')"
    by (rule strip_zeros_decomp)
  then have "length s = length (strip_trailing_zeros s) + k"
    by (metis length_append length_replicate)
  with assms have "k = n - length (strip_trailing_zeros s)" by simp
  with k show ?thesis by (simp add: padEnd_def)
qed

lemma strip_zeros_nonempty: "read_nat s \<noteq> 0 \<Longrightarrow> strip_trailing_zeros s \<noteq> []"
  by (metis append_Nil read_nat_replicate_0 strip_zeros_decomp)

lemma strip_zeros_all: "list_all P s \<Longrightarrow> list_all P (strip_trailing_zeros s)"
  by (metis list_all_append strip_zeros_decomp)

lemma strip_zeros_length: "length (strip_trailing_zeros s) \<le> length s"
  by (metis le_add1 length_append strip_zeros_decomp)

lemma trim_id: "s \<noteq> [] \<Longrightarrow> \<not> is_space (hd s) \<Longrightarrow> \<not> is_space (last s) \<Longrightarrow> trim s = s"
proof -
  assume a: "s \<noteq> []" "\<not> is_space (hd s)" "\<not> is_space (last s)"
  then have "dropWhile is_space s = s" by (cases s) auto
  moreover from a have "dropWhile is_space (rev s) = rev s"
    by (cases s rule: rev_cases) auto
  ultimately show ?thesis by (simp add: trim_def)
qed

lemma dropWhile_trim: "dropWhile is_space (trim s) = trim s"
proof (cases "dropWhile is_space s")
  case Nil
  then show ?thesis by (simp add: trim_def del: dropWhile_eq_Nil_conv)
next
  case (Cons c t)
  then have c: "\<not> is_space c" by (metis hd_dropWhile list.distinct(1) list.sel(1))
  then have "dropWhile is_space (rev t @ [c]) = dropWhile is_space (rev t) @ [c]"
    by (simp add: dropWhile_append3)
  then show ?thesis by (simp add: trim_def Cons c)
qed

lemma trim_trim [simp]: "trim (trim s) = trim s"
proof -
  have "rev (trim s) = dropWhile is_space (rev (dropWhile is_space s))" by (simp add: trim_def)
  then have "dropWhile is_space (rev (trim s)) = rev (trim s)" by (simp add: dropWhile_idem)
  then show ?thesis
    by (metis trim_def dropWhile_trim rev_rev_ident)
qed

section \<open>Splitting and bytes\<close>

text \<open>\<open>split\<close> at a character.\<close>

fun split_on :: "char \<Rightarrow> string \<Rightarrow> string list" where
  "split_on c [] = [[]]"
| "split_on c (x # xs) = (if x = c then [] # split_on c xs
     else (case split_on c xs of [] \<Rightarrow> [[x]] | y # ys \<Rightarrow> (x # y) # ys))"

text \<open>\<open>Buffer.from(s)\<close>: the UTF-8 bytes of a string of Latin-1 code units.\<close>

definition utf8_char :: "char \<Rightarrow> nat list" where
  "utf8_char c = (let n = (of_char c :: nat) in if n < 128 then [n] else [192 + n div 64, 128 + n mod 64])"

definition utf8 :: "string \<Rightarrow> nat list" where
  "utf8 s = concat (map utf8_char s)"

definition ascii :: "string \<Rightarrow> bool" where
  "ascii s = list_all (\<lambda>c. (of_char c :: nat) < 128) s"

lemma split_on_none: "x \<notin> set s \<Longrightarrow> split_on x s = [s]"
  by (induction s) auto

lemma split_on_two: "x \<notin> set a \<Longrightarrow> x \<notin> set b \<Longrightarrow> split_on x (a @ x # b) = [a, b]"
  by (induction a) (auto simp: split_on_none)

lemma split_on_nonempty: "split_on x s \<noteq> []"
  by (induction s) (auto split: list.splits)

lemma split_on_oneD: "split_on x s = [a] \<Longrightarrow> s = a"
  by (induction s arbitrary: a) (auto simp: split_on_nonempty split: if_splits list.splits)

lemma split_on_twoD: "split_on x s = [a, b] \<Longrightarrow> s = a @ x # b"
proof (induction s arbitrary: a)
  case (Cons y s)
  show ?case
  proof (cases "y = x")
    case True
    with Cons.prems show ?thesis by (auto dest: split_on_oneD)
  next
    case False
    with Cons.prems obtain a' where "split_on x s = [a', b]" "a = y # a'" by (auto split: list.splits)
    with Cons.IH show ?thesis by simp
  qed
qed simp

lemma utf8_char_inj:
  assumes "utf8_char c @ x = utf8_char d @ y"
  shows "c = d \<and> x = y"
proof -
  let ?c = "of_char c :: nat" and ?d = "of_char d :: nat"
  have "?c = ?d \<and> x = y"
  proof (cases "?c < 128"; cases "?d < 128")
    assume "\<not> ?c < 128" "\<not> ?d < 128"
    with assms have "?c div 64 = ?d div 64" "?c mod 64 = ?d mod 64" "x = y"
      by (auto simp: utf8_char_def Let_def)
    then show ?thesis by (metis mult_div_mod_eq)
  qed (use assms in \<open>auto simp: utf8_char_def Let_def\<close>)
  then show ?thesis by simp
qed

lemma utf8_inj: "utf8 a = utf8 b \<Longrightarrow> a = b"
proof (induction a arbitrary: b)
  case Nil
  then show ?case by (cases b) (auto simp: utf8_def utf8_char_def Let_def split: if_splits)
next
  case (Cons c a)
  then obtain d b' where b: "b = d # b'"
    by (cases b) (auto simp: utf8_def utf8_char_def Let_def split: if_splits)
  with Cons.prems utf8_char_inj [of c "utf8 a" d "utf8 b'"] Cons.IH show ?case by (auto simp: utf8_def)
qed

lemma utf8_ascii: "ascii s \<Longrightarrow> utf8 s = map of_char s"
  by (induction s) (auto simp: ascii_def utf8_def utf8_char_def Let_def)

section \<open>Texts without a separator\<close>

lemma set_padStart: "set (padStart n c s) \<subseteq> insert c (set s)"
  by (auto simp: padStart_def)

lemma bar_digit: "\<not> is_digit (CHR ''|'')"
  by (simp add: is_digit_def)

lemma show_nat_no_bar: "CHR ''|'' \<notin> set (show_nat n)"
  using show_nat_digits [of n] bar_digit by (auto simp: list_all_iff)

lemma pad_no_bar: "CHR ''|'' \<notin> set (padStart n (CHR ''0'') (show_nat k))"
  using set_padStart [of n "CHR ''0''" "show_nat k"] show_nat_no_bar by auto

lemma show_int_no_bar: "CHR ''|'' \<notin> set (show_int i)" "show_int i \<noteq> []"
  using show_nat_no_bar by (auto simp: show_int_def)

lemma append_sep:
  assumes "x \<notin> set a" "x \<notin> set b"
  shows "a @ x # c = b @ x # d \<longleftrightarrow> a = b \<and> c = d"
  using assms
proof (induction a arbitrary: b)
  case Nil
  then show ?case by (cases b) auto
next
  case (Cons y a)
  then show ?case by (cases b) auto
qed

section \<open>Sums by group\<close>

lemma sum_pick: "distinct ks \<Longrightarrow> k \<in> set ks \<Longrightarrow> sum_list (map (\<lambda>x. if k = x then c else 0) ks) = (c :: 'a :: comm_monoid_add)"
proof (induction ks)
  case (Cons x ks)
  then show ?case
  proof (cases "k = x")
    case True
    then have "map (\<lambda>y. if k = y then c else 0) ks = map (\<lambda>_. 0) ks" using Cons.prems by (intro map_cong) auto
    then have "sum_list (map (\<lambda>y. if k = y then c else 0) ks) = 0" by (simp only: sum_list_0)
    then show ?thesis using True by simp
  qed simp
qed simp

lemma sum_over_groups:
  fixes f :: "'b \<Rightarrow> 'a :: comm_monoid_add"
  assumes "distinct ks" "key ` set rows \<subseteq> set ks"
  shows "sum_list (map (\<lambda>k. sum_list (map f (filter (\<lambda>r. key r = k) rows))) ks) = sum_list (map f rows)"
  using assms(2)
proof (induction rows)
  case (Cons r rows)
  have "sum_list (map (\<lambda>k. sum_list (map f (filter (\<lambda>x. key x = k) (r # rows)))) ks) =
      sum_list (map (\<lambda>k. (if key r = k then f r else 0) + sum_list (map f (filter (\<lambda>x. key x = k) rows))) ks)"
    by (intro arg_cong [of _ _ sum_list] map_cong) auto
  also have "\<dots> = f r + sum_list (map f rows)" using Cons sum_pick [OF assms(1), of "key r" "f r"] by (simp add: sum_list_addf)
  finally show ?case by simp
qed simp

end
