(* ===== verification/Semaphore.thy ===== *)
theory Semaphore
  imports Prelude
begin

text \<open>
  The per-developer and per-key concurrency semaphores
  (\<^verbatim>\<open>utils/developerSemaphore.ts\<close>, \<^verbatim>\<open>utils/keySemaphore.ts\<close>) and the two
  middlewares that admit requests through them.

  A waiting request is the ticket under which it called \<open>withSlot\<close>; the promise
  callbacks of the queue are these tickets. The timers Node holds are the armed handles
  with the identifier their callback closes over. \<open>slot_step\<close> is the whole system around
  one semaphore: any number of \<open>withSlot\<close> calls entering, leaving (their \<open>finally\<close>
  releases the slot exactly once) and eviction timers firing, in any order.
\<close>

section \<open>State\<close>

record slot_state =
  activeCount :: int
  queue :: "nat list"
  evictionTimer :: "nat option"

record semaphore =
  states :: "(string, slot_state) js_map"
  timers :: "(nat, string) js_map"
  next_timer :: nat

definition new_semaphore :: semaphore where
  "new_semaphore = \<lparr>states = [], timers = [], next_timer = 0\<rparr>"

datatype outcome = Granted | Queued

section \<open>DeveloperSemaphore\<close>

definition getCurrentActiveSlotCounts :: "semaphore \<Rightarrow> (string, int) js_map" where
  "getCurrentActiveSlotCounts s =
     fold (\<lambda>(d, st) counts. if activeCount st > 0 then map_set d (activeCount st) counts else counts)
       (states s) []"

definition getTotalActiveSlotCount :: "semaphore \<Rightarrow> int" where
  "getTotalActiveSlotCount s = fold (\<lambda>st total. total + activeCount st) (map_values (states s)) 0"

definition getActiveSlotCount :: "string \<Rightarrow> semaphore \<Rightarrow> int" where
  "getActiveSlotCount d s = (case map_get (states s) d of None \<Rightarrow> 0 | Some st \<Rightarrow> activeCount st)"

definition isAtLimit :: "int \<Rightarrow> string \<Rightarrow> semaphore \<Rightarrow> bool" where
  "isAtLimit maxConcurrency d s \<longleftrightarrow> getActiveSlotCount d s \<ge> maxConcurrency"

definition clearEvictionTimer :: "slot_state \<Rightarrow> semaphore \<Rightarrow> slot_state \<times> semaphore" where
  "clearEvictionTimer st s = (case evictionTimer st of
       None \<Rightarrow> (st, s)
     | Some h \<Rightarrow> (st\<lparr>evictionTimer := None\<rparr>, s\<lparr>timers := map_delete h (timers s)\<rparr>))"

definition getOrCreateState :: "string \<Rightarrow> semaphore \<Rightarrow> slot_state \<times> semaphore" where
  "getOrCreateState d s = (case map_get (states s) d of
       Some st \<Rightarrow> (st, s)
     | None \<Rightarrow> (let st = \<lparr>activeCount = 0, queue = [], evictionTimer = None\<rparr>
               in (st, s\<lparr>states := map_set d st (states s)\<rparr>)))"

definition put_state :: "string \<Rightarrow> slot_state \<Rightarrow> semaphore \<Rightarrow> semaphore" where
  "put_state d st s = s\<lparr>states := map_set d st (states s)\<rparr>"

definition scheduleEviction :: "string \<Rightarrow> slot_state \<Rightarrow> semaphore \<Rightarrow> slot_state \<times> semaphore" where
  "scheduleEviction d st s = (let (st1, s1) = clearEvictionTimer st s; h = next_timer s1
     in (st1\<lparr>evictionTimer := Some h\<rparr>,
         s1\<lparr>timers := map_set h d (timers s1), next_timer := Suc h\<rparr>))"

definition evict :: "nat \<Rightarrow> semaphore \<Rightarrow> semaphore" where
  "evict h s = (case map_get (timers s) h of
       None \<Rightarrow> s
     | Some d \<Rightarrow> (let s1 = s\<lparr>timers := map_delete h (timers s)\<rparr> in
         case map_get (states s1) d of
           None \<Rightarrow> s1
         | Some current \<Rightarrow> if activeCount current = 0 \<and> queue current = []
                            then s1\<lparr>states := map_delete d (states s1)\<rparr> else s1))"

definition acquireSlot :: "int \<Rightarrow> string \<Rightarrow> nat \<Rightarrow> semaphore \<Rightarrow> outcome \<times> semaphore" where
  "acquireSlot maxConcurrency d ticket s = (let (st, s1) = getOrCreateState d s in
     if queue st = [] \<and> activeCount st < maxConcurrency
     then (let (st1, s2) = clearEvictionTimer st s1
           in (Granted, put_state d (st1\<lparr>activeCount := activeCount st1 + 1\<rparr>) s2))
     else (Queued, put_state d (st\<lparr>queue := queue st @ [ticket]\<rparr>) s1))"

definition releaseSlot :: "string \<Rightarrow> semaphore \<Rightarrow> nat option \<times> semaphore" where
  "releaseSlot d s = (case map_get (states s) d of
       None \<Rightarrow> (None, s)
     | Some st \<Rightarrow> (case queue st of
           ticket # rest \<Rightarrow>
             (let (st1, s1) = clearEvictionTimer (st\<lparr>queue := rest\<rparr>) s
              in (Some ticket, put_state d st1 s1))
         | [] \<Rightarrow>
             (let st1 = st\<lparr>activeCount := activeCount st - 1\<rparr> in
              if activeCount st1 = 0
              then (let (st2, s2) = scheduleEviction d st1 s in (None, put_state d st2 s2))
              else (None, put_state d st1 s))))"

definition clear_semaphore :: "semaphore \<Rightarrow> semaphore" where
  "clear_semaphore s =
     (fold (\<lambda>st acc. snd (clearEvictionTimer st acc)) (map_values (states s)) s)\<lparr>states := []\<rparr>"

section \<open>KeySemaphore\<close>

definition key_getActiveSlotCount :: "string \<Rightarrow> semaphore \<Rightarrow> int" where
  "key_getActiveSlotCount k s = (case map_get (states s) k of None \<Rightarrow> 0 | Some st \<Rightarrow> activeCount st)"

definition key_isAtLimit :: "int \<Rightarrow> string \<Rightarrow> semaphore \<Rightarrow> bool" where
  "key_isAtLimit maxConcurrencyPerKey k s =
     (let active = key_getActiveSlotCount k s in active \<ge> maxConcurrencyPerKey)"

definition key_clearEvictionTimer :: "slot_state \<Rightarrow> semaphore \<Rightarrow> slot_state \<times> semaphore" where
  "key_clearEvictionTimer st s = (case evictionTimer st of
       None \<Rightarrow> (st, s)
     | Some h \<Rightarrow> (st\<lparr>evictionTimer := None\<rparr>, s\<lparr>timers := map_delete h (timers s)\<rparr>))"

definition key_getOrCreateState :: "string \<Rightarrow> semaphore \<Rightarrow> slot_state \<times> semaphore" where
  "key_getOrCreateState k s = (case map_get (states s) k of
       Some st \<Rightarrow> (st, s)
     | None \<Rightarrow> (let st = \<lparr>activeCount = 0, queue = [], evictionTimer = None\<rparr>
               in (st, s\<lparr>states := map_set k st (states s)\<rparr>)))"

definition key_scheduleEviction :: "string \<Rightarrow> slot_state \<Rightarrow> semaphore \<Rightarrow> slot_state \<times> semaphore" where
  "key_scheduleEviction k st s = (let (st1, s1) = key_clearEvictionTimer st s; h = next_timer s1
     in (st1\<lparr>evictionTimer := Some h\<rparr>,
         s1\<lparr>timers := map_set h k (timers s1), next_timer := Suc h\<rparr>))"

definition key_acquireSlot :: "int \<Rightarrow> string \<Rightarrow> nat \<Rightarrow> semaphore \<Rightarrow> outcome \<times> semaphore" where
  "key_acquireSlot maxConcurrencyPerKey k ticket s = (let (st, s1) = key_getOrCreateState k s in
     if queue st = [] \<and> activeCount st < maxConcurrencyPerKey
     then (let (st1, s2) = key_clearEvictionTimer st s1
           in (Granted, put_state k (st1\<lparr>activeCount := activeCount st1 + 1\<rparr>) s2))
     else (Queued, put_state k (st\<lparr>queue := queue st @ [ticket]\<rparr>) s1))"

definition key_releaseSlot :: "string \<Rightarrow> semaphore \<Rightarrow> nat option \<times> semaphore" where
  "key_releaseSlot k s = (case map_get (states s) k of
       None \<Rightarrow> (None, s)
     | Some st \<Rightarrow> (case queue st of
           ticket # rest \<Rightarrow>
             (let (st1, s1) = key_clearEvictionTimer (st\<lparr>queue := rest\<rparr>) s
              in (Some ticket, put_state k st1 s1))
         | [] \<Rightarrow>
             (let st1 = st\<lparr>activeCount := activeCount st - 1\<rparr> in
              if activeCount st1 = 0
              then (let (st2, s2) = key_scheduleEviction k st1 s in (None, put_state k st2 s2))
              else (None, put_state k st1 s))))"

definition key_evict :: "nat \<Rightarrow> semaphore \<Rightarrow> semaphore" where
  "key_evict h s = (case map_get (timers s) h of
       None \<Rightarrow> s
     | Some k \<Rightarrow> (let s1 = s\<lparr>timers := map_delete h (timers s)\<rparr> in
         case map_get (states s1) k of
           None \<Rightarrow> s1
         | Some current \<Rightarrow> if activeCount current = 0 \<and> queue current = []
                            then s1\<lparr>states := map_delete k (states s1)\<rparr> else s1))"

definition key_getCurrentActiveSlotCounts :: "semaphore \<Rightarrow> (string, int) js_map" where
  "key_getCurrentActiveSlotCounts s =
     fold (\<lambda>(k, st) counts. if activeCount st > 0 then map_set k (activeCount st) counts else counts)
       (states s) []"

definition key_getTotalActiveSlotCount :: "semaphore \<Rightarrow> int" where
  "key_getTotalActiveSlotCount s = fold (\<lambda>st total. total + activeCount st) (map_values (states s)) 0"

definition key_clear_semaphore :: "semaphore \<Rightarrow> semaphore" where
  "key_clear_semaphore s =
     (fold (\<lambda>st acc. snd (key_clearEvictionTimer st acc)) (map_values (states s)) s)\<lparr>states := []\<rparr>"

section \<open>The concurrency middlewares\<close>

datatype admission =
    PassThrough
  | Rejected429 string
  | Acquire string

definition perDevConcurrency :: "int \<Rightarrow> string option \<Rightarrow> semaphore \<Rightarrow> admission" where
  "perDevConcurrency maxConcurrent userId s = (case userId of
       None \<Rightarrow> PassThrough
     | Some u \<Rightarrow> if u = [] then PassThrough
         else (let active = (case map_get (getCurrentActiveSlotCounts s) u of None \<Rightarrow> 0 | Some n \<Rightarrow> n) in
           if active \<ge> maxConcurrent
           then Rejected429 ''Concurrency limit reached. Please retry your request.''
           else Acquire u))"

definition perKeyConcurrency :: "int \<Rightarrow> string option \<Rightarrow> semaphore \<Rightarrow> admission" where
  "perKeyConcurrency maxConcurrent keyId s = (case keyId of
       None \<Rightarrow> PassThrough
     | Some k \<Rightarrow> if k = [] then PassThrough
         else if key_getActiveSlotCount k s \<ge> maxConcurrent
         then Rejected429 ''Concurrency limit reached for this API key. Please retry your request.''
         else Acquire k)"

section \<open>The system of withSlot calls\<close>

record 's slot_system =
  sem :: 's
  holders :: "(string \<times> nat) list"
  arrivals :: "(string \<times> nat) list"
  grants :: "(string \<times> nat) list"
  next_ticket :: nat

definition new_system :: "'s \<Rightarrow> 's slot_system" where
  "new_system s = \<lparr>sem = s, holders = [], arrivals = [], grants = [], next_ticket = 0\<rparr>"

inductive slot_step ::
  "(string \<Rightarrow> nat \<Rightarrow> 's \<Rightarrow> outcome \<times> 's) \<Rightarrow> (string \<Rightarrow> 's \<Rightarrow> nat option \<times> 's) \<Rightarrow>
   (nat \<Rightarrow> 's \<Rightarrow> 's) \<Rightarrow> 's slot_system \<Rightarrow> 's slot_system \<Rightarrow> bool"
  for acquire release fire where
  enter_granted:
    "acquire d (next_ticket y) (sem y) = (Granted, s') \<Longrightarrow>
     slot_step acquire release fire y
       (y\<lparr>sem := s', holders := (d, next_ticket y) # holders y,
          arrivals := arrivals y @ [(d, next_ticket y)],
          grants := grants y @ [(d, next_ticket y)], next_ticket := Suc (next_ticket y)\<rparr>)"
| enter_queued:
    "acquire d (next_ticket y) (sem y) = (Queued, s') \<Longrightarrow>
     slot_step acquire release fire y
       (y\<lparr>sem := s', arrivals := arrivals y @ [(d, next_ticket y)],
          next_ticket := Suc (next_ticket y)\<rparr>)"
| leave_idle:
    "(d, t) \<in> set (holders y) \<Longrightarrow> release d (sem y) = (None, s') \<Longrightarrow>
     slot_step acquire release fire y (y\<lparr>sem := s', holders := remove1 (d, t) (holders y)\<rparr>)"
| leave_handoff:
    "(d, t) \<in> set (holders y) \<Longrightarrow> release d (sem y) = (Some t', s') \<Longrightarrow>
     slot_step acquire release fire y
       (y\<lparr>sem := s', holders := (d, t') # remove1 (d, t) (holders y),
          grants := grants y @ [(d, t')]\<rparr>)"
| timer:
    "slot_step acquire release fire y (y\<lparr>sem := fire h (sem y)\<rparr>)"

inductive slot_reachable ::
  "(string \<Rightarrow> nat \<Rightarrow> 's \<Rightarrow> outcome \<times> 's) \<Rightarrow> (string \<Rightarrow> 's \<Rightarrow> nat option \<times> 's) \<Rightarrow>
   (nat \<Rightarrow> 's \<Rightarrow> 's) \<Rightarrow> 's \<Rightarrow> 's slot_system \<Rightarrow> bool"
  for acquire release fire init where
  start: "slot_reachable acquire release fire init (new_system init)"
| step: "slot_reachable acquire release fire init y \<Longrightarrow> slot_step acquire release fire y y' \<Longrightarrow>
         slot_reachable acquire release fire init y'"

abbreviation held :: "'s slot_system \<Rightarrow> string \<Rightarrow> nat list" where
  "held y d \<equiv> map snd (filter (\<lambda>x. fst x = d) (holders y))"

abbreviation of_dev :: "string \<Rightarrow> (string \<times> nat) list \<Rightarrow> nat list" where
  "of_dev d xs \<equiv> map snd (filter (\<lambda>x. fst x = d) xs)"

definition load :: "(string \<times> nat) list \<Rightarrow> string \<Rightarrow> int" where
  "load hs d = int (length (filter (\<lambda>x. fst x = d) hs))"

definition waiting :: "semaphore \<Rightarrow> string \<Rightarrow> nat list" where
  "waiting s d = (case map_get (states s) d of None \<Rightarrow> [] | Some st \<Rightarrow> queue st)"

abbreviation active :: "semaphore \<Rightarrow> string \<Rightarrow> int" where
  "active s d \<equiv> getActiveSlotCount d s"

section \<open>Counting the holders of an identifier\<close>

lemma load_pos: "(d, t) \<in> set hs \<Longrightarrow> 0 < load hs d"
  by (force simp: load_def filter_empty_conv)

lemma load_Nil [simp]: "load [] = (\<lambda>_. 0)"
  by (simp add: load_def fun_eq_iff)

lemma load_Cons [simp]: "load ((d, t) # hs) = (load hs)(d := load hs d + 1)"
  by (auto simp: load_def fun_eq_iff)

lemma load_remove [simp]:
  assumes "(d, t) \<in> set hs"
  shows "load (remove1 (d, t) hs) = (load hs)(d := load hs d - 1)"
proof -
  from load_pos [OF assms] have "0 < length (filter (\<lambda>x. fst x = d) hs)"
    by (simp add: load_def)
  with assms show ?thesis
    by (simp add: load_def fun_eq_iff filter_remove1 length_remove1 Suc_le_eq del: length_greater_0_conv)
qed

section \<open>The contract of a slot semaphore\<close>

text \<open>
  What \<open>withSlot\<close> relies on, in terms of two observations: the active count and the
  queue of waiting tickets of every identifier.
\<close>

locale slot_semaphore =
  fixes limit :: int
    and acquire :: "string \<Rightarrow> nat \<Rightarrow> 's \<Rightarrow> outcome \<times> 's"
    and release :: "string \<Rightarrow> 's \<Rightarrow> nat option \<times> 's"
    and fire :: "nat \<Rightarrow> 's \<Rightarrow> 's"
    and init :: 's
    and act :: "'s \<Rightarrow> string \<Rightarrow> int"
    and wait :: "'s \<Rightarrow> string \<Rightarrow> nat list"
    and invar :: "'s \<Rightarrow> bool"
  assumes limit_pos: "1 \<le> limit"
    and init_invar: "invar init"
    and init_act: "act init d = 0"
    and init_wait: "wait init d = []"
    and acquire_grant: "invar s \<Longrightarrow> wait s d = [] \<Longrightarrow> act s d < limit \<Longrightarrow>
      \<exists>s'. acquire d t s = (Granted, s') \<and> invar s' \<and> act s' = (act s)(d := act s d + 1) \<and> wait s' = wait s"
    and acquire_queue: "invar s \<Longrightarrow> \<not> (wait s d = [] \<and> act s d < limit) \<Longrightarrow>
      \<exists>s'. acquire d t s = (Queued, s') \<and> invar s' \<and> act s' = act s \<and>
           wait s' = (wait s)(d := wait s d @ [t])"
    and release_handoff: "invar s \<Longrightarrow> 0 < act s d \<Longrightarrow> wait s d = t # ts \<Longrightarrow>
      \<exists>s'. release d s = (Some t, s') \<and> invar s' \<and> act s' = act s \<and> wait s' = (wait s)(d := ts)"
    and release_free: "invar s \<Longrightarrow> 0 < act s d \<Longrightarrow> wait s d = [] \<Longrightarrow>
      \<exists>s'. release d s = (None, s') \<and> invar s' \<and> act s' = (act s)(d := act s d - 1) \<and> wait s' = wait s"
    and fire_silent: "invar s \<Longrightarrow> invar (fire h s) \<and> act (fire h s) = act s \<and> wait (fire h s) = wait s"
begin

definition sys_inv :: "'s slot_system \<Rightarrow> bool" where
  "sys_inv y \<longleftrightarrow> invar (sem y) \<and> act (sem y) = load (holders y) \<and> (\<forall>d. load (holders y) d \<le> limit) \<and>
     (\<forall>d. wait (sem y) d \<noteq> [] \<longrightarrow> load (holders y) d = limit) \<and>
     (\<forall>d. of_dev d (arrivals y) = of_dev d (grants y) @ wait (sem y) d)"

lemma sys_inv_new: "sys_inv (new_system init)"
  using limit_pos by (auto simp: sys_inv_def load_def new_system_def init_invar init_act init_wait)

lemma acquire_cases:
  assumes "invar s" and "acquire d t s = (r, s')"
  shows "r = Granted \<and> wait s d = [] \<and> act s d < limit \<and> invar s' \<and>
           act s' = (act s)(d := act s d + 1) \<and> wait s' = wait s \<or>
         r = Queued \<and> \<not> (wait s d = [] \<and> act s d < limit) \<and> invar s' \<and> act s' = act s \<and>
           wait s' = (wait s)(d := wait s d @ [t])"
  using acquire_grant [OF assms(1), of d t] acquire_queue [OF assms(1), of d t] assms(2) by auto

lemma release_cases:
  assumes "invar s" and "0 < act s d" and "release d s = (r, s')"
  shows "(\<exists>t ts. r = Some t \<and> wait s d = t # ts \<and> invar s' \<and> act s' = act s \<and>
            wait s' = (wait s)(d := ts)) \<or>
         r = None \<and> wait s d = [] \<and> invar s' \<and> act s' = (act s)(d := act s d - 1) \<and> wait s' = wait s"
  using release_handoff [OF assms(1,2)] release_free [OF assms(1,2)] assms(3)
  by (cases "wait s d") fastforce+

lemma holder_active: "sys_inv y \<Longrightarrow> (d, t) \<in> set (holders y) \<Longrightarrow> 0 < act (sem y) d"
  by (simp add: sys_inv_def load_pos)

lemma sys_inv_enter_granted:
  assumes inv: "sys_inv y" and acq: "acquire d (next_ticket y) (sem y) = (Granted, s')"
  shows "sys_inv (y\<lparr>sem := s', holders := (d, next_ticket y) # holders y,
     arrivals := arrivals y @ [(d, next_ticket y)],
     grants := grants y @ [(d, next_ticket y)], next_ticket := Suc (next_ticket y)\<rparr>)"
proof -
  from inv have "invar (sem y)" by (simp add: sys_inv_def)
  from acquire_cases [OF this acq] inv show ?thesis by (auto simp: sys_inv_def)
qed

lemma sys_inv_enter_queued:
  assumes inv: "sys_inv y" and acq: "acquire d (next_ticket y) (sem y) = (Queued, s')"
  shows "sys_inv (y\<lparr>sem := s', arrivals := arrivals y @ [(d, next_ticket y)],
     next_ticket := Suc (next_ticket y)\<rparr>)"
proof -
  from inv have "invar (sem y)" by (simp add: sys_inv_def)
  from acquire_cases [OF this acq]
  have *: "\<not> (wait (sem y) d = [] \<and> act (sem y) d < limit)" "invar s'" "act s' = act (sem y)"
     "wait s' = (wait (sem y))(d := wait (sem y) d @ [next_ticket y])" by auto
  from inv have "load (holders y) d \<le> limit" "wait (sem y) d \<noteq> [] \<Longrightarrow> load (holders y) d = limit"
    "act (sem y) d = load (holders y) d" by (simp_all add: sys_inv_def)
  with * have "load (holders y) d = limit" by auto
  with * inv show ?thesis by (auto simp: sys_inv_def)
qed

lemma sys_inv_leave_idle:
  assumes inv: "sys_inv y" and h: "(d, t) \<in> set (holders y)" and rel: "release d (sem y) = (None, s')"
  shows "sys_inv (y\<lparr>sem := s', holders := remove1 (d, t) (holders y)\<rparr>)"
proof -
  from inv have i: "invar (sem y)" and "load (holders y) d \<le> limit" by (simp_all add: sys_inv_def)
  then have "load (holders y) d - 1 \<le> limit" by simp
  with release_cases [OF i holder_active [OF inv h] rel] inv h show ?thesis
    by (auto simp: sys_inv_def)
qed

lemma sys_inv_leave_handoff:
  assumes inv: "sys_inv y" and h: "(d, t) \<in> set (holders y)" and rel: "release d (sem y) = (Some t', s')"
  shows "sys_inv (y\<lparr>sem := s', holders := (d, t') # remove1 (d, t) (holders y),
     grants := grants y @ [(d, t')]\<rparr>)"
proof -
  from inv have "invar (sem y)" by (simp add: sys_inv_def)
  from release_cases [OF this holder_active [OF inv h] rel] inv h show ?thesis
    by (auto simp: sys_inv_def split: if_splits)
qed

lemma sys_inv_step:
  assumes "slot_step acquire release fire y y'" and inv: "sys_inv y"
  shows "sys_inv y'"
  using assms(1)
proof (cases rule: slot_step.cases)
  case (enter_granted d s')
  with sys_inv_enter_granted [OF inv] show ?thesis by simp
next
  case (enter_queued d s')
  with sys_inv_enter_queued [OF inv] show ?thesis by simp
next
  case (leave_idle d t s')
  with sys_inv_leave_idle [OF inv] show ?thesis by simp
next
  case (leave_handoff d t t' s')
  with sys_inv_leave_handoff [OF inv] show ?thesis by simp
next
  case (timer h)
  with inv fire_silent [of "sem y" h] show ?thesis by (simp add: sys_inv_def)
qed

lemma reachable_inv: "slot_reachable acquire release fire init y \<Longrightarrow> sys_inv y"
  by (induction rule: slot_reachable.induct) (auto intro: sys_inv_new sys_inv_step)

lemma reachable_invar: "slot_reachable acquire release fire init y \<Longrightarrow> invar (sem y)"
  using reachable_inv [of y] by (simp add: sys_inv_def)

lemma bounded_holders:
  "slot_reachable acquire release fire init y \<Longrightarrow> load (holders y) d \<le> limit"
  using reachable_inv [of y] by (auto simp: sys_inv_def)

lemma fifo_order:
  "slot_reachable acquire release fire init y \<Longrightarrow>
   of_dev d (arrivals y) = of_dev d (grants y) @ wait (sem y) d"
  using reachable_inv [of y] by (auto simp: sys_inv_def)

lemma waiting_saturated:
  "slot_reachable acquire release fire init y \<Longrightarrow> wait (sem y) d \<noteq> [] \<Longrightarrow>
   load (holders y) d = limit"
  using reachable_inv [of y] by (auto simp: sys_inv_def)

lemma count_is_holders:
  "slot_reachable acquire release fire init y \<Longrightarrow> act (sem y) d = load (holders y) d"
  using reachable_inv [of y] by (auto simp: sys_inv_def)

lemma below_limit_grants:
  assumes "slot_reachable acquire release fire init y" and "act (sem y) d < limit"
  shows "\<exists>s'. acquire d t (sem y) = (Granted, s')"
proof -
  from assms have "invar (sem y)" "wait (sem y) d = []"
    using reachable_inv [of y] by (auto simp: sys_inv_def)
  with assms(2) show ?thesis using acquire_grant [of "sem y" d t] by blast
qed

end

section \<open>The implementation keeps its timers and counts consistent\<close>

text \<open>
  An entry carries an armed eviction timer exactly when it is idle, so an idle
  developer's state never stays in memory without a timer that will remove it.
\<close>

definition idle :: "slot_state \<Rightarrow> bool" where
  "idle st \<longleftrightarrow> activeCount st = 0 \<and> queue st = []"

definition entry_ok :: "(nat \<rightharpoonup> string) \<Rightarrow> string \<Rightarrow> slot_state \<Rightarrow> bool" where
  "entry_ok \<tau> d st \<longleftrightarrow> 0 \<le> activeCount st \<and> (queue st \<noteq> [] \<longrightarrow> 0 < activeCount st) \<and>
     (if idle st then \<exists>h. evictionTimer st = Some h \<and> \<tau> h = Some d else evictionTimer st = None)"

definition maps_inv :: "(string \<rightharpoonup> slot_state) \<Rightarrow> (nat \<rightharpoonup> string) \<Rightarrow> nat \<Rightarrow> bool" where
  "maps_inv \<sigma> \<tau> n \<longleftrightarrow>
     (\<forall>h d. \<tau> h = Some d \<longrightarrow> h < n \<and> (\<exists>st. \<sigma> d = Some st \<and> evictionTimer st = Some h)) \<and>
     (\<forall>d st. \<sigma> d = Some st \<longrightarrow> entry_ok \<tau> d st)"

definition sem_inv :: "semaphore \<Rightarrow> bool" where
  "sem_inv s \<longleftrightarrow> wf_map (states s) \<and> wf_map (timers s) \<and>
     maps_inv (map_get (states s)) (map_get (timers s)) (next_timer s)"

lemma maps_invI:
  assumes "\<And>h d. \<tau> h = Some d \<Longrightarrow> h < n \<and> (\<exists>st. \<sigma> d = Some st \<and> evictionTimer st = Some h)"
    and "\<And>d st. \<sigma> d = Some st \<Longrightarrow> entry_ok \<tau> d st"
  shows "maps_inv \<sigma> \<tau> n"
  using assms by (simp add: maps_inv_def)

lemma maps_inv_timer:
  assumes "maps_inv \<sigma> \<tau> n" and "\<tau> h = Some d"
  obtains st where "\<sigma> d = Some st" "evictionTimer st = Some h" "idle st" "h < n"
proof -
  from assms obtain st where st: "\<sigma> d = Some st" "evictionTimer st = Some h" "h < n"
    unfolding maps_inv_def by blast
  with assms have "entry_ok \<tau> d st" by (simp add: maps_inv_def)
  with st have "idle st" by (auto simp: entry_ok_def split: if_splits)
  with st that show ?thesis by blast
qed

lemma maps_inv_entry: "maps_inv \<sigma> \<tau> n \<Longrightarrow> \<sigma> d = Some st \<Longrightarrow> entry_ok \<tau> d st"
  by (simp add: maps_inv_def)

lemma entry_ok_timer: "entry_ok \<tau> d st \<Longrightarrow> evictionTimer st = Some h \<Longrightarrow> \<tau> h = Some d"
  by (auto simp: entry_ok_def split: if_splits)

lemma entry_ok_drop: "entry_ok \<tau> e st \<Longrightarrow> \<tau> h \<noteq> Some e \<Longrightarrow> entry_ok (\<tau>(h := None)) e st"
  by (auto simp: entry_ok_def split: if_splits)

lemma entry_ok_add: "entry_ok \<tau> e st \<Longrightarrow> \<tau> n = None \<Longrightarrow> entry_ok (\<tau>(n \<mapsto> d)) e st"
  by (auto simp: entry_ok_def split: if_splits)

lemma entry_ok_busy: "0 < activeCount st \<Longrightarrow> evictionTimer st = None \<Longrightarrow> entry_ok \<tau> d st"
  by (simp add: entry_ok_def idle_def)

lemma maps_inv_drop_timer:
  assumes inv: "maps_inv \<sigma> \<tau> n" and h: "\<tau> h = Some d" and st: "0 < activeCount st" "evictionTimer st = None"
  shows "maps_inv (\<sigma>(d \<mapsto> st)) (\<tau>(h := None)) n"
proof (rule maps_invI)
  fix h' e assume "(\<tau>(h := None)) h' = Some e"
  then have h': "\<tau> h' = Some e" "h' \<noteq> h" by (auto split: if_splits)
  from inv h obtain st0 where "\<sigma> d = Some st0" "evictionTimer st0 = Some h" by (rule maps_inv_timer)
  moreover from inv h'(1) obtain st1 where "\<sigma> e = Some st1" "evictionTimer st1 = Some h'" "h' < n"
    by (rule maps_inv_timer)
  ultimately show "h' < n \<and> (\<exists>st'. (\<sigma>(d \<mapsto> st)) e = Some st' \<and> evictionTimer st' = Some h')"
    using h'(2) by (cases "e = d") auto
next
  fix e st' assume "(\<sigma>(d \<mapsto> st)) e = Some st'"
  then show "entry_ok (\<tau>(h := None)) e st'"
    using h st entry_ok_drop [OF maps_inv_entry [OF inv]]
    by (cases "e = d") (auto intro: entry_ok_busy)
qed

lemma maps_inv_busy:
  assumes inv: "maps_inv \<sigma> \<tau> n" and none: "\<And>old. \<sigma> d = Some old \<Longrightarrow> evictionTimer old = None"
    and st: "0 < activeCount st" "evictionTimer st = None"
  shows "maps_inv (\<sigma>(d \<mapsto> st)) \<tau> n"
proof (rule maps_invI)
  fix h e assume h: "\<tau> h = Some e"
  with inv obtain st1 where "\<sigma> e = Some st1" "evictionTimer st1 = Some h" "h < n" by (rule maps_inv_timer)
  with none show "h < n \<and> (\<exists>st'. (\<sigma>(d \<mapsto> st)) e = Some st' \<and> evictionTimer st' = Some h)"
    by (cases "e = d") auto
next
  fix e st' assume "(\<sigma>(d \<mapsto> st)) e = Some st'"
  with inv st show "entry_ok \<tau> e st'"
    by (cases "e = d") (auto simp: entry_ok_def idle_def maps_inv_def)
qed

lemma maps_inv_idle:
  assumes inv: "maps_inv \<sigma> \<tau> n" and d: "\<sigma> d = Some old" "evictionTimer old = None"
    and st: "idle st" "evictionTimer st = Some n"
  shows "maps_inv (\<sigma>(d \<mapsto> st)) (\<tau>(n \<mapsto> d)) (Suc n)"
proof (rule maps_invI)
  fix h e assume h: "(\<tau>(n \<mapsto> d)) h = Some e"
  show "h < Suc n \<and> (\<exists>st'. (\<sigma>(d \<mapsto> st)) e = Some st' \<and> evictionTimer st' = Some h)"
  proof (cases "h = n")
    case True
    with h st show ?thesis by simp
  next
    case False
    with h have "\<tau> h = Some e" by simp
    with inv obtain st1 where "\<sigma> e = Some st1" "evictionTimer st1 = Some h" "h < n" by (rule maps_inv_timer)
    with d show ?thesis by (cases "e = d") auto
  qed
next
  have "\<tau> n = None" using inv by (cases "\<tau> n") (auto elim: maps_inv_timer)
  moreover have "entry_ok (\<tau>(n \<mapsto> d)) d st" using st by (simp add: entry_ok_def idle_def)
  moreover fix e st' assume "(\<sigma>(d \<mapsto> st)) e = Some st'"
  ultimately show "entry_ok (\<tau>(n \<mapsto> d)) e st'"
    using entry_ok_add [OF maps_inv_entry [OF inv]] by (cases "e = d") auto
qed

lemma maps_inv_evict:
  assumes inv: "maps_inv \<sigma> \<tau> n" and h: "\<tau> h = Some d"
  shows "maps_inv (\<sigma>(d := None)) (\<tau>(h := None)) n"
proof (rule maps_invI)
  fix h' e assume "(\<tau>(h := None)) h' = Some e"
  then have h': "\<tau> h' = Some e" "h' \<noteq> h" by (auto split: if_splits)
  from inv h obtain st0 where "\<sigma> d = Some st0" "evictionTimer st0 = Some h" by (rule maps_inv_timer)
  moreover from inv h'(1) obtain st1 where "\<sigma> e = Some st1" "evictionTimer st1 = Some h'" "h' < n"
    by (rule maps_inv_timer)
  ultimately show "h' < n \<and> (\<exists>st'. (\<sigma>(d := None)) e = Some st' \<and> evictionTimer st' = Some h')"
    using h'(2) by (cases "e = d") auto
next
  fix e st' assume "(\<sigma>(d := None)) e = Some st'"
  with h entry_ok_drop [OF maps_inv_entry [OF inv]]
  show "entry_ok (\<tau>(h := None)) e st'" by (cases "e = d") auto
qed

text \<open>Clearing the timer of an entry, on the model's data and on the maps.\<close>

definition disarm :: "nat option \<Rightarrow> (nat \<rightharpoonup> string) \<Rightarrow> (nat \<rightharpoonup> string)" where
  "disarm t \<tau> = (case t of None \<Rightarrow> \<tau> | Some h \<Rightarrow> \<tau>(h := None))"

lemma maps_inv_clear:
  assumes inv: "maps_inv \<sigma> \<tau> n" and old: "\<sigma> d = Some old"
    and st: "0 < activeCount st" "evictionTimer st = None"
  shows "maps_inv (\<sigma>(d \<mapsto> st)) (disarm (evictionTimer old) \<tau>) n"
  using maps_inv_busy [OF inv _ st, of d] maps_inv_drop_timer [OF inv _ st, of _ d]
    entry_ok_timer [OF maps_inv_entry [OF inv old]] old
  by (cases "evictionTimer old") (auto simp: disarm_def)

lemma clearEvictionTimer_eq:
  "clearEvictionTimer st s = (st\<lparr>evictionTimer := None\<rparr>,
     s\<lparr>timers := (case evictionTimer st of None \<Rightarrow> timers s | Some h \<Rightarrow> map_delete h (timers s))\<rparr>)"
  by (cases st; cases s) (auto simp: clearEvictionTimer_def split: option.split)

lemma map_get_set_fun: "map_get (map_set k v m) = (map_get m)(k \<mapsto> v)"
  by (rule update_conv')

lemma map_get_delete_fun: "map_get (map_delete k m) = (map_get m)(k := None)"
  by (rule delete_conv')

lemma disarm_timers:
  "map_get (case t of None \<Rightarrow> m | Some h \<Rightarrow> map_delete h m) = disarm t (map_get m)"
  by (cases t) (simp_all add: disarm_def delete_conv' fun_upd_def)

lemma wf_disarm [simp]: "wf_map m \<Longrightarrow> wf_map (case t of None \<Rightarrow> m | Some h \<Rightarrow> map_delete h m)"
  by (simp split: option.split)

lemmas sem_defs = getOrCreateState_def clearEvictionTimer_eq put_state_def Let_def
  getActiveSlotCount_def waiting_def map_get_set_fun map_get_delete_fun disarm_timers

lemma sem_inv_new: "sem_inv new_semaphore"
  by (simp add: sem_inv_def maps_inv_def new_semaphore_def)

lemma sem_entry:
  assumes "sem_inv s" and "map_get (states s) d = Some st"
  shows "entry_ok (map_get (timers s)) d st"
  using assms by (auto simp: sem_inv_def dest: maps_inv_entry)

lemma sem_inv_maps: "sem_inv s \<Longrightarrow> maps_inv (map_get (states s)) (map_get (timers s)) (next_timer s)"
  by (simp add: sem_inv_def)

lemma acquireSlot_grant:
  assumes inv: "sem_inv s" and w: "waiting s d = []" and a: "active s d < n"
  shows "\<exists>s'. acquireSlot n d t s = (Granted, s') \<and> sem_inv s' \<and>
    active s' = (active s)(d := active s d + 1) \<and> waiting s' = waiting s"
proof (cases "map_get (states s) d")
  case None
  have "maps_inv ((map_get (states s))(d \<mapsto> \<lparr>activeCount = 1, queue = [], evictionTimer = None\<rparr>))
      (map_get (timers s)) (next_timer s)"
    using sem_inv_maps [OF inv] None by (intro maps_inv_busy) auto
  with inv a None show ?thesis
    by (auto simp: acquireSlot_def sem_inv_def sem_defs fun_eq_iff)
next
  case (Some st)
  let ?st = "st\<lparr>evictionTimer := None, activeCount := activeCount st + 1\<rparr>"
  from sem_entry [OF inv Some] have "0 \<le> activeCount st" by (simp add: entry_ok_def)
  with maps_inv_clear [OF sem_inv_maps [OF inv] Some, of ?st]
  have "maps_inv ((map_get (states s))(d \<mapsto> ?st)) (disarm (evictionTimer st) (map_get (timers s))) (next_timer s)"
    by simp
  with inv w a Some show ?thesis
    by (auto simp: acquireSlot_def sem_inv_def sem_defs fun_eq_iff)
qed

lemma acquireSlot_queue:
  assumes inv: "sem_inv s" and full: "\<not> (waiting s d = [] \<and> active s d < n)" and n: "1 \<le> n"
  shows "\<exists>s'. acquireSlot n d t s = (Queued, s') \<and> sem_inv s' \<and>
    active s' = active s \<and> waiting s' = (waiting s)(d := waiting s d @ [t])"
proof (cases "map_get (states s) d")
  case None
  with full n show ?thesis by (simp add: sem_defs)
next
  case (Some st)
  let ?st = "st\<lparr>queue := queue st @ [t]\<rparr>"
  from sem_entry [OF inv Some] full n Some
  have "0 < activeCount st" "evictionTimer st = None"
    by (auto simp: entry_ok_def idle_def sem_defs split: if_splits)
  with maps_inv_busy [OF sem_inv_maps [OF inv], of d ?st] Some
  have "maps_inv ((map_get (states s))(d \<mapsto> ?st)) (map_get (timers s)) (next_timer s)" by simp
  with inv full Some show ?thesis
    by (auto simp: acquireSlot_def sem_inv_def sem_defs fun_eq_iff)
qed

lemma releaseSlot_handoff:
  assumes inv: "sem_inv s" and a: "0 < active s d" and w: "waiting s d = t # ts"
  shows "\<exists>s'. releaseSlot d s = (Some t, s') \<and> sem_inv s' \<and> active s' = active s \<and>
    waiting s' = (waiting s)(d := ts)"
proof -
  from w obtain st where Some: "map_get (states s) d = Some st" and q: "queue st = t # ts"
    by (auto simp: waiting_def split: option.splits)
  let ?st = "st\<lparr>queue := ts, evictionTimer := None\<rparr>"
  from a Some have "0 < activeCount ?st" by (simp add: sem_defs)
  with maps_inv_clear [OF sem_inv_maps [OF inv] Some, of ?st]
  have "maps_inv ((map_get (states s))(d \<mapsto> ?st)) (disarm (evictionTimer st) (map_get (timers s))) (next_timer s)"
    by simp
  with inv Some q show ?thesis
    by (auto simp: releaseSlot_def sem_inv_def sem_defs fun_eq_iff)
qed

lemma releaseSlot_free:
  assumes inv: "sem_inv s" and a: "0 < active s d" and w: "waiting s d = []"
  shows "\<exists>s'. releaseSlot d s = (None, s') \<and> sem_inv s' \<and>
    active s' = (active s)(d := active s d - 1) \<and> waiting s' = waiting s"
proof -
  from a obtain st where Some: "map_get (states s) d = Some st"
    by (auto simp: getActiveSlotCount_def split: option.splits)
  from a w Some have pos: "0 < activeCount st" and q: "queue st = []" by (simp_all add: sem_defs)
  from sem_entry [OF inv Some] pos have et: "evictionTimer st = None"
    by (auto simp: entry_ok_def idle_def split: if_splits)
  show ?thesis
  proof (cases "activeCount st = 1")
    case True
    let ?st = "st\<lparr>activeCount := 0, evictionTimer := Some (next_timer s)\<rparr>"
    from maps_inv_idle [OF sem_inv_maps [OF inv] Some et, of ?st] q
    have "maps_inv ((map_get (states s))(d \<mapsto> ?st)) ((map_get (timers s))(next_timer s \<mapsto> d)) (Suc (next_timer s))"
      by (simp add: idle_def)
    with inv Some q True et show ?thesis
      by (auto simp: releaseSlot_def scheduleEviction_def sem_inv_def sem_defs fun_eq_iff)
  next
    case False
    let ?st = "st\<lparr>activeCount := activeCount st - 1\<rparr>"
    from maps_inv_busy [OF sem_inv_maps [OF inv], of d ?st] Some pos et False
    have "maps_inv ((map_get (states s))(d \<mapsto> ?st)) (map_get (timers s)) (next_timer s)" by simp
    with inv Some q False show ?thesis
      by (auto simp: releaseSlot_def sem_inv_def sem_defs fun_eq_iff)
  qed
qed

lemma evict_silent:
  assumes inv: "sem_inv s"
  shows "sem_inv (evict h s) \<and> active (evict h s) = active s \<and> waiting (evict h s) = waiting s"
proof (cases "map_get (timers s) h")
  case None
  with inv show ?thesis by (simp add: evict_def)
next
  case (Some d)
  from sem_inv_maps [OF inv] Some obtain st
    where st: "map_get (states s) d = Some st" "idle st" by (rule maps_inv_timer)
  from maps_inv_evict [OF sem_inv_maps [OF inv] Some] inv Some st show ?thesis
    by (auto simp: evict_def sem_inv_def sem_defs idle_def fun_eq_iff fun_upd_def)
qed

section \<open>Both semaphores implement the contract\<close>

lemmas key_defs = key_getActiveSlotCount_def key_isAtLimit_def key_clearEvictionTimer_def
  key_getOrCreateState_def key_scheduleEviction_def key_acquireSlot_def key_releaseSlot_def
  key_evict_def key_getCurrentActiveSlotCounts_def key_getTotalActiveSlotCount_def
  key_clear_semaphore_def

lemma key_clearEvictionTimer_dev: "key_clearEvictionTimer = clearEvictionTimer"
  by (simp add: fun_eq_iff key_defs clearEvictionTimer_def)

lemma key_getOrCreateState_dev: "key_getOrCreateState = getOrCreateState"
  by (simp add: fun_eq_iff key_defs getOrCreateState_def)

lemma key_scheduleEviction_dev: "key_scheduleEviction = scheduleEviction"
  by (simp add: fun_eq_iff key_scheduleEviction_def scheduleEviction_def key_clearEvictionTimer_dev)

lemma key_acquireSlot_dev: "key_acquireSlot = acquireSlot"
  by (intro ext) (simp only: key_acquireSlot_def acquireSlot_def key_clearEvictionTimer_dev
      key_getOrCreateState_dev)

lemma key_releaseSlot_dev: "key_releaseSlot = releaseSlot"
  by (intro ext) (simp only: key_releaseSlot_def releaseSlot_def key_clearEvictionTimer_dev
      key_scheduleEviction_dev)

lemma key_evict_dev: "key_evict = evict"
  by (simp add: fun_eq_iff key_evict_def evict_def)

lemma key_getActiveSlotCount_dev: "key_getActiveSlotCount = getActiveSlotCount"
  by (simp add: fun_eq_iff key_getActiveSlotCount_def getActiveSlotCount_def)

lemmas key_dev = key_acquireSlot_dev key_releaseSlot_dev key_evict_dev key_getActiveSlotCount_dev

interpretation dev: slot_semaphore "max 1 n" "acquireSlot (max 1 n)" releaseSlot evict new_semaphore
    active waiting sem_inv for n :: int
proof unfold_locales
  show "active new_semaphore d = 0" "waiting new_semaphore d = []" for d
    by (simp_all add: new_semaphore_def getActiveSlotCount_def waiting_def)
qed (use sem_inv_new acquireSlot_grant acquireSlot_queue releaseSlot_handoff releaseSlot_free
       evict_silent in auto)

interpretation key: slot_semaphore "max 1 n" "key_acquireSlot (max 1 n)" key_releaseSlot key_evict
    new_semaphore "\<lambda>s k. key_getActiveSlotCount k s" waiting sem_inv for n :: int
  unfolding key_dev by (rule dev.slot_semaphore_axioms)

abbreviation dev_reachable :: "int \<Rightarrow> semaphore slot_system \<Rightarrow> bool" where
  "dev_reachable n \<equiv> slot_reachable (acquireSlot n) releaseSlot evict new_semaphore"

abbreviation key_reachable :: "int \<Rightarrow> semaphore slot_system \<Rightarrow> bool" where
  "key_reachable n \<equiv> slot_reachable (key_acquireSlot n) key_releaseSlot key_evict new_semaphore"

lemma dev_reachable_inv: "1 \<le> n \<Longrightarrow> dev_reachable n y \<Longrightarrow> sem_inv (sem y)"
  using dev.reachable_invar [of n y] by (simp add: max_def)

lemma counts_fold:
  "wf_map m \<Longrightarrow>
   map_get (fold (\<lambda>(d, st) counts. if activeCount st > 0 then map_set d (activeCount st) counts else counts) m acc) d =
   (case map_get m d of None \<Rightarrow> map_get acc d
    | Some st \<Rightarrow> if activeCount st > 0 then Some (activeCount st) else map_get acc d)"
proof (induction m arbitrary: acc)
  case (Cons x m)
  obtain k st where x: "x = (k, st)" by (cases x)
  with Cons.prems have "map_get m k = None" "wf_map m" by (simp_all add: map_get_None_iff)
  with Cons.IH [of "if activeCount st > 0 then map_set k (activeCount st) acc else acc"] x
  show ?case by (simp add: jsmap split: option.split)
qed simp

lemma map_get_counts:
  "wf_map (states s) \<Longrightarrow>
   map_get (getCurrentActiveSlotCounts s) d = (if active s d > 0 then Some (active s d) else None)"
  using counts_fold [of "states s" "[]" d]
  by (auto simp: getCurrentActiveSlotCounts_def getActiveSlotCount_def split: option.splits)

lemma total_sum_list: "getTotalActiveSlotCount s = sum_list (map activeCount (map_values (states s)))"
proof -
  have "fold (\<lambda>st total. total + activeCount st) xs c = c + sum_list (map activeCount xs)" for xs c
    by (induction xs arbitrary: c) auto
  from this [of "map_values (states s)" 0] show ?thesis
    by (simp add: getTotalActiveSlotCount_def del: map_map)
qed

lemma sum_list_map_load:
  assumes "distinct ds" and "fst ` set hs \<subseteq> set ds"
  shows "sum_list (map (load hs) ds) = int (length hs)"
  using assms
proof (induction hs)
  case (Cons x hs)
  obtain d t where x: "x = (d, t)" by (cases x)
  from Cons.prems x have d: "d \<in> set ds" by simp
  have "sum_list (map ((load hs)(d := load hs d + 1)) ds) = sum_list (map (load hs) ds) + 1"
    using \<open>distinct ds\<close> d by (simp add: sum_list_distinct_conv_sum_set sum.remove [of _ d])
  with Cons x show ?case by (simp only: load_Cons) simp
qed simp

lemma total_is_holders:
  assumes "1 \<le> n" and "dev_reachable n y"
  shows "getTotalActiveSlotCount (sem y) = int (length (holders y))"
proof -
  let ?m = "states (sem y)"
  from dev_reachable_inv [OF assms] have wf: "wf_map ?m" by (simp add: sem_inv_def)
  have act: "active (sem y) d = load (holders y) d" for d
    using dev.count_is_holders [of n y d] assms by (simp add: max_def)
  have "activeCount (snd x) = load (holders y) (fst x)" if "x \<in> set ?m" for x
    using that wf act [of "fst x"] map_of_is_SomeI [OF wf, of "fst x" "snd x"]
    by (simp add: getActiveSlotCount_def)
  then have "map activeCount (map_values ?m) = map (load (holders y)) (map fst ?m)" by simp
  moreover have "fst ` set (holders y) \<subseteq> set (map fst ?m)"
  proof
    fix d assume "d \<in> fst ` set (holders y)"
    then have "active (sem y) d \<noteq> 0" using act [of d] by (auto dest: load_pos)
    then show "d \<in> set (map fst ?m)"
      using map_get_None_iff [of ?m d] by (auto simp: getActiveSlotCount_def split: option.splits)
  qed
  ultimately show ?thesis
    using sum_list_map_load [OF wf, of "holders y"] by (simp only: total_sum_list)
qed

section \<open>Properties\<close>

text \<open>C19. In every reachable state of the per-developer semaphore with a limit of at least
  one, at most \<open>n\<close> \<open>withSlot\<close> bodies run for a developer, whatever the interleaving of
  arrivals, completions and eviction timers; the reported active count is exactly that
  number of running bodies, and the reported total is the number of all running bodies.\<close>

theorem dev_semaphore_bound:
  assumes "1 \<le> n" and "dev_reachable n y"
  shows "load (holders y) d \<le> n \<and> getActiveSlotCount d (sem y) = load (holders y) d \<and>
    getTotalActiveSlotCount (sem y) = int (length (holders y))"
  using dev.bounded_holders [of n y d] dev.count_is_holders [of n y d] total_is_holders assms
  by (simp add: max_def)

text \<open>Slots are handed out in arrival order and no waiting request is lost: for every
  developer the arrivals are the grants so far followed by the queue, and a request only
  waits while all \<open>n\<close> slots are held.\<close>

theorem dev_semaphore_fifo:
  assumes "1 \<le> n" and "dev_reachable n y"
  shows "of_dev d (arrivals y) = of_dev d (grants y) @ waiting (sem y) d \<and>
    (waiting (sem y) d = [] \<or> load (holders y) d = n)"
  using dev.fifo_order [of n y d] dev.waiting_saturated [of n y d] assms by (auto simp: max_def)

text \<open>A concrete run of the limit-one semaphore: one request of alice runs, a second waits.\<close>

definition one_system :: "semaphore slot_system" where
  "one_system = \<lparr>sem = \<lparr>states = [(''alice'', \<lparr>activeCount = 1, queue = [], evictionTimer = None\<rparr>)],
       timers = [], next_timer = 0\<rparr>,
     holders = [(''alice'', 0)], arrivals = [(''alice'', 0)],
     grants = [(''alice'', 0)], next_ticket = 1\<rparr>"

definition busy_system :: "semaphore slot_system" where
  "busy_system = \<lparr>sem = \<lparr>states = [(''alice'', \<lparr>activeCount = 1, queue = [1], evictionTimer = None\<rparr>)],
       timers = [], next_timer = 0\<rparr>,
     holders = [(''alice'', 0)], arrivals = [(''alice'', 0), (''alice'', 1)],
     grants = [(''alice'', 0)], next_ticket = 2\<rparr>"

definition idle_system :: "semaphore slot_system" where
  "idle_system = \<lparr>sem = \<lparr>states = [(''alice'', \<lparr>activeCount = 0, queue = [], evictionTimer = Some 0\<rparr>)],
       timers = [(0, ''alice'')], next_timer = 1\<rparr>,
     holders = [], arrivals = [(''alice'', 0)], grants = [(''alice'', 0)], next_ticket = 1\<rparr>"

lemmas sem_eval = acquireSlot_def releaseSlot_def scheduleEviction_def getOrCreateState_def
  clearEvictionTimer_def put_state_def new_semaphore_def new_system_def one_system_def busy_system_def
  idle_system_def Let_def

lemma one_reachable: "dev_reachable 1 one_system"
proof -
  have "slot_step (acquireSlot 1) releaseSlot evict (new_system new_semaphore) one_system"
    using slot_step.enter_granted [of "acquireSlot 1" "''alice''" "new_system new_semaphore"
        "sem one_system" releaseSlot evict]
    by (simp add: sem_eval)
  then show ?thesis by (rule slot_reachable.step [OF slot_reachable.start])
qed

lemma busy_reachable: "dev_reachable 1 busy_system"
proof -
  have "slot_step (acquireSlot 1) releaseSlot evict one_system busy_system"
    using slot_step.enter_queued [of "acquireSlot 1" "''alice''" one_system "sem busy_system" releaseSlot evict]
    by (simp add: sem_eval numeral_2_eq_2)
  with one_reachable show ?thesis by (rule slot_reachable.step)
qed

lemma idle_reachable: "dev_reachable 1 idle_system"
proof -
  have "slot_step (acquireSlot 1) releaseSlot evict one_system idle_system"
    using slot_step.leave_idle [of "''alice''" 0 one_system releaseSlot "sem idle_system" "acquireSlot 1" evict]
    by (simp add: sem_eval)
  with one_reachable show ?thesis by (rule slot_reachable.step)
qed

theorem dev_semaphore_bound_witness:
  "load (holders busy_system) ''alice'' \<le> 1 \<and> getActiveSlotCount ''alice'' (sem busy_system) = 1 \<and>
   getTotalActiveSlotCount (sem busy_system) = 1"
  using dev_semaphore_bound [OF _ busy_reachable, of "''alice''"]
  by (simp add: busy_system_def load_def)

theorem dev_semaphore_fifo_witness:
  "of_dev ''alice'' (arrivals busy_system) = [0] @ waiting (sem busy_system) ''alice''"
  using dev_semaphore_fifo [OF _ busy_reachable, of "''alice''"]
  by (simp add: busy_system_def waiting_def)

text \<open>The middleware never blocks behind a queue: when it admits a request of a
  developer (it lets the request acquire because the count is below its own limit, which
  does not exceed the semaphore's), the slot is granted at once. The same holds for the
  per-key middleware.\<close>

theorem admitted_never_queues:
  assumes "m \<le> n" and "dev_reachable n y" and "perDevConcurrency m (Some u) (sem y) = Acquire d"
    and "key_reachable n y'" and "perKeyConcurrency m (Some k) (sem y') = Acquire e"
    and "1 \<le> n"
  shows "d = u \<and> fst (acquireSlot n d t (sem y)) = Granted \<and>
         e = k \<and> fst (key_acquireSlot n e t' (sem y')) = Granted"
proof -
  from dev_reachable_inv [OF assms(6,2)] have wf: "wf_map (states (sem y))" by (simp add: sem_inv_def)
  with assms have d: "d = u" "active (sem y) d < n"
    by (auto simp: perDevConcurrency_def Let_def map_get_counts split: if_splits)
  have e: "e = k" "key_getActiveSlotCount e (sem y') < n"
    using assms by (auto simp: perKeyConcurrency_def split: if_splits)
  from dev.below_limit_grants [of n y d t] key.below_limit_grants [of n y' e t'] d e assms
  show ?thesis by (auto simp: max_def)
qed

theorem admitted_never_queues_witness:
  "fst (acquireSlot 1 ''bob'' 7 (sem busy_system)) = Granted"
  using admitted_never_queues [OF _ busy_reachable, of 1 "''bob''" "''bob''" busy_system "''bob''" "''bob''" 7 7]
    busy_reachable
  by (simp add: key_dev perDevConcurrency_def perKeyConcurrency_def getCurrentActiveSlotCounts_def
      getActiveSlotCount_def busy_system_def)

text \<open>Idle state never leaks: in every reachable state an entry with no running and no
  waiting request has an armed eviction timer, and when that timer fires the entry is
  gone, while no observable count or queue changes.\<close>

theorem idle_entry_evicted:
  assumes "1 \<le> n" and "dev_reachable n y"
    and "map_get (states (sem y)) d = Some st" and "activeCount st = 0" and "queue st = []"
  shows "\<exists>h. map_get (timers (sem y)) h = Some d \<and> map_get (states (evict h (sem y))) d = None \<and>
     (\<forall>e. getActiveSlotCount e (evict h (sem y)) = getActiveSlotCount e (sem y)) \<and>
     waiting (evict h (sem y)) = waiting (sem y)"
proof -
  from assms have inv: "sem_inv (sem y)" by (simp add: dev_reachable_inv)
  from sem_entry [OF inv assms(3)] assms(4,5) obtain h
    where h: "map_get (timers (sem y)) h = Some d" by (auto simp: entry_ok_def idle_def)
  with assms(3-5) have "map_get (states (evict h (sem y))) d = None"
    by (simp add: evict_def Let_def jsmap)
  with h evict_silent [OF inv, of h] show ?thesis by (metis)
qed

theorem idle_entry_evicted_witness:
  "\<exists>h. map_get (timers (sem idle_system)) h = Some ''alice'' \<and>
     map_get (states (evict h (sem idle_system))) ''alice'' = None"
  using idle_entry_evicted [OF _ idle_reachable, of "''alice''"] by (fastforce simp: idle_system_def)

text \<open>The per-key semaphore is the per-developer semaphore with another key: every
  operation of \<open>KeySemaphore\<close> is the operation of \<open>DeveloperSemaphore\<close>.\<close>

theorem key_semaphore_mirrors:
  "key_acquireSlot = acquireSlot \<and> key_releaseSlot = releaseSlot \<and> key_evict = evict \<and>
   key_isAtLimit = isAtLimit \<and> key_getActiveSlotCount = getActiveSlotCount \<and>
   key_getCurrentActiveSlotCounts = getCurrentActiveSlotCounts \<and>
   key_getTotalActiveSlotCount = getTotalActiveSlotCount \<and> key_clear_semaphore = clear_semaphore"
  by (simp add: key_dev fun_eq_iff key_isAtLimit_def isAtLimit_def key_getCurrentActiveSlotCounts_def
      getCurrentActiveSlotCounts_def key_getTotalActiveSlotCount_def getTotalActiveSlotCount_def
      key_clear_semaphore_def clear_semaphore_def key_clearEvictionTimer_dev)

end
