(* ===== verification/CircuitBreaker.thy ===== *)
theory CircuitBreaker
  imports Prelude
begin

text \<open>
  The circuit breaker of \<^verbatim>\<open>lib/circuitBreaker.ts\<close>: configuration, the two stores, the
  breaker with its set of half-open trials, and the registry.

  A call of \<open>execute\<close> is split where the source awaits the operation: \<open>admit\<close> is the code
  before \<open>await operation()\<close>, \<open>settle\<close> the code after it, on the metrics snapshot the call
  holds in its local variable. Several calls overlap by interleaving their \<open>admit\<close> and
  \<open>settle\<close> parts. The operation is a function on an arbitrary world that returns or throws,
  so that not being called is visible as an unchanged world. Store accesses do not fail.
  The message of a rejection is represented by its reason and the number it prints.
\<close>

section \<open>Configuration and metrics\<close>

datatype js_number = Fin rat | PosInf | NegInf | NaN

datatype CircuitBreakerState = CLOSED | OPEN | HALF_OPEN

datatype rejection = CooldownRemaining rat | TrialInProgress

record 'e CircuitBreakerConfig =
  failureThreshold :: "js_number option"
  cooldownMs :: "js_number option"
  successThreshold :: "js_number option"
  onOpenError :: "(rejection \<Rightarrow> 'e) option"

record CircuitBreakerMetrics =
  cb_state :: CircuitBreakerState
  consecutiveFailures :: int
  consecutiveSuccesses :: int
  totalFailures :: int
  totalSuccesses :: int
  lastFailureTime :: "millis option"
  lastStateChange :: millis

fun js_le_zero :: "js_number \<Rightarrow> bool" where
  "js_le_zero (Fin x) = (x \<le> 0)"
| "js_le_zero NegInf = True"
| "js_le_zero PosInf = False"
| "js_le_zero NaN = False"

fun isInteger :: "js_number \<Rightarrow> bool" where
  "isInteger (Fin x) = (of_int \<lfloor>x\<rfloor> = x)"
| "isInteger _ = False"

fun isFinite :: "js_number \<Rightarrow> bool" where
  "isFinite (Fin x) = True"
| "isFinite _ = False"

definition validateConfig :: "'e CircuitBreakerConfig \<Rightarrow> unit result" where
  "validateConfig c =
    (if \<exists>n \<in> set_option (failureThreshold c). js_le_zero n \<or> \<not> isInteger n
     then Inl (BadRequestError ''failureThreshold must be a positive integer'' ''BAD_REQUEST'')
     else if \<exists>n \<in> set_option (cooldownMs c). js_le_zero n \<or> \<not> isFinite n
     then Inl (BadRequestError ''cooldownMs must be a positive number'' ''BAD_REQUEST'')
     else if \<exists>n \<in> set_option (successThreshold c). js_le_zero n \<or> \<not> isInteger n
     then Inl (BadRequestError ''successThreshold must be a positive integer'' ''BAD_REQUEST'')
     else Inr ())"

text \<open>The configuration a breaker keeps, after the defaults are filled in.\<close>

record 'e breaker_config =
  failure_threshold :: int
  cooldown :: rat
  success_threshold :: int
  on_open_error :: "(rejection \<Rightarrow> 'e) option"
  load_time :: millis

fun js_int :: "js_number \<Rightarrow> int" where
  "js_int (Fin x) = \<lfloor>x\<rfloor>"
| "js_int _ = 0"

fun js_rat :: "js_number \<Rightarrow> rat" where
  "js_rat (Fin x) = x"
| "js_rat _ = 0"

definition merge_config :: "millis \<Rightarrow> 'e CircuitBreakerConfig \<Rightarrow> 'e breaker_config" where
  "merge_config loaded c = \<lparr>
     failure_threshold = (case failureThreshold c of None \<Rightarrow> 5 | Some n \<Rightarrow> js_int n),
     cooldown = (case cooldownMs c of None \<Rightarrow> 30000 | Some n \<Rightarrow> js_rat n),
     success_threshold = (case successThreshold c of None \<Rightarrow> 1 | Some n \<Rightarrow> js_int n),
     on_open_error = onOpenError c, load_time = loaded\<rparr>"

definition default_metrics :: "millis \<Rightarrow> CircuitBreakerMetrics" where
  "default_metrics loaded = \<lparr>cb_state = CLOSED, consecutiveFailures = 0, consecutiveSuccesses = 0,
     totalFailures = 0, totalSuccesses = 0, lastFailureTime = None, lastStateChange = loaded\<rparr>"

fun stateToNumber :: "CircuitBreakerState \<Rightarrow> nat" where
  "stateToNumber CLOSED = 0"
| "stateToNumber OPEN = 1"
| "stateToNumber HALF_OPEN = 2"

section \<open>Stores\<close>

type_synonym memory_store = "(string, CircuitBreakerMetrics) js_map"

definition memory_get :: "memory_store \<Rightarrow> string \<Rightarrow> CircuitBreakerMetrics option" where
  "memory_get s k = map_get s k"

definition memory_set :: "string \<Rightarrow> CircuitBreakerMetrics \<Rightarrow> memory_store \<Rightarrow> memory_store" where
  "memory_set k m s = map_set k m s"

definition memory_reset :: "memory_store \<Rightarrow> memory_store" where
  "memory_reset s = []"

text \<open>The table \<open>gateway_circuit_breakers\<close>: the primary key is \<open>breaker_key\<close>.\<close>

record breaker_row =
  breaker_key :: string
  row_state :: string
  consecutive_failures :: int
  consecutive_successes :: int
  total_failures :: int
  total_successes :: int
  last_failure_time :: "millis option"
  last_state_change :: millis

fun state_text :: "CircuitBreakerState \<Rightarrow> string" where
  "state_text CLOSED = ''CLOSED''"
| "state_text OPEN = ''OPEN''"
| "state_text HALF_OPEN = ''HALF_OPEN''"

definition as_state :: "string \<Rightarrow> CircuitBreakerState" where
  "as_state t = (if t = ''OPEN'' then OPEN else if t = ''HALF_OPEN'' then HALF_OPEN else CLOSED)"

definition pg_get :: "breaker_row list \<Rightarrow> string \<Rightarrow> CircuitBreakerMetrics option" where
  "pg_get rows k = (case filter (\<lambda>r. breaker_key r = k) rows of
       [] \<Rightarrow> None
     | row # _ \<Rightarrow> Some \<lparr>cb_state = as_state (row_state row),
         consecutiveFailures = consecutive_failures row,
         consecutiveSuccesses = consecutive_successes row,
         totalFailures = total_failures row, totalSuccesses = total_successes row,
         lastFailureTime = last_failure_time row, lastStateChange = last_state_change row\<rparr>)"

definition pg_set :: "string \<Rightarrow> CircuitBreakerMetrics \<Rightarrow> breaker_row list \<Rightarrow> breaker_row list" where
  "pg_set k m rows = (let row = \<lparr>breaker_key = k, row_state = state_text (cb_state m),
         consecutive_failures = consecutiveFailures m,
         consecutive_successes = consecutiveSuccesses m,
         total_failures = totalFailures m, total_successes = totalSuccesses m,
         last_failure_time = lastFailureTime m, last_state_change = lastStateChange m\<rparr> in
     if \<exists>r \<in> set rows. breaker_key r = k
     then map (\<lambda>r. if breaker_key r = k then row else r) rows
     else rows @ [row])"

section \<open>The breaker\<close>

record 's breaker =
  cb_store :: 's
  activeTrials :: "string set"
  transitions :: "(string \<times> CircuitBreakerState \<times> CircuitBreakerState) list"
  gauge :: "(string, nat) js_map"

definition new_breaker :: "'s \<Rightarrow> 's breaker" where
  "new_breaker s = \<lparr>cb_store = s, activeTrials = {}, transitions = [], gauge = []\<rparr>"

definition transitionTo :: "CircuitBreakerMetrics \<Rightarrow> CircuitBreakerState \<Rightarrow> millis \<Rightarrow> string \<Rightarrow>
    's breaker \<Rightarrow> CircuitBreakerMetrics \<times> 's breaker" where
  "transitionTo m newState now key b =
    (let oldState = cb_state m;
         m1 = m\<lparr>cb_state := newState, lastStateChange := now\<rparr>;
         b1 = b\<lparr>transitions := transitions b @ [(key, oldState, newState)],
                gauge := map_set key (stateToNumber newState) (gauge b)\<rparr>
     in (if newState = CLOSED then m1\<lparr>consecutiveFailures := 0\<rparr> else m1, b1))"

definition onSuccess :: "'e breaker_config \<Rightarrow> CircuitBreakerMetrics \<Rightarrow> millis \<Rightarrow> string \<Rightarrow>
    's breaker \<Rightarrow> CircuitBreakerMetrics \<times> 's breaker" where
  "onSuccess cfg m now key b =
    (let n = m\<lparr>totalSuccesses := totalSuccesses m + 1, consecutiveFailures := 0,
               consecutiveSuccesses := consecutiveSuccesses m + 1\<rparr> in
     if cb_state n = HALF_OPEN \<and> consecutiveSuccesses n \<ge> success_threshold cfg
     then transitionTo (n\<lparr>consecutiveSuccesses := 0\<rparr>) CLOSED now key b
     else (n, b))"

definition onFailure :: "'e breaker_config \<Rightarrow> CircuitBreakerMetrics \<Rightarrow> millis \<Rightarrow> string \<Rightarrow>
    's breaker \<Rightarrow> CircuitBreakerMetrics \<times> 's breaker" where
  "onFailure cfg m now key b =
    (let n = m\<lparr>totalFailures := totalFailures m + 1, consecutiveSuccesses := 0,
               consecutiveFailures := consecutiveFailures m + 1, lastFailureTime := Some now\<rparr> in
     if cb_state n = HALF_OPEN then transitionTo n OPEN now key b
     else if cb_state n = CLOSED \<and> consecutiveFailures n \<ge> failure_threshold cfg
     then transitionTo n OPEN now key b
     else (n, b))"

definition getMetrics :: "('s \<Rightarrow> string \<Rightarrow> CircuitBreakerMetrics option) \<Rightarrow> 'e breaker_config \<Rightarrow>
    string \<Rightarrow> 's breaker \<Rightarrow> CircuitBreakerMetrics" where
  "getMetrics sget cfg key b =
     (case sget (cb_store b) key of Some m \<Rightarrow> m | None \<Rightarrow> default_metrics (load_time cfg))"

definition getState :: "('s \<Rightarrow> string \<Rightarrow> CircuitBreakerMetrics option) \<Rightarrow> 'e breaker_config \<Rightarrow>
    string \<Rightarrow> 's breaker \<Rightarrow> CircuitBreakerState" where
  "getState sget cfg key b = cb_state (getMetrics sget cfg key b)"

definition timeSinceFailure :: "CircuitBreakerMetrics \<Rightarrow> millis \<Rightarrow> millis" where
  "timeSinceFailure m now = now - (case lastFailureTime m of None \<Rightarrow> 0 | Some t \<Rightarrow> t)"

definition put :: "(string \<Rightarrow> CircuitBreakerMetrics \<Rightarrow> 's \<Rightarrow> 's) \<Rightarrow> string \<Rightarrow> CircuitBreakerMetrics \<Rightarrow>
    's breaker \<Rightarrow> 's breaker" where
  "put sset key m b = b\<lparr>cb_store := sset key m (cb_store b)\<rparr>"

definition admit :: "('s \<Rightarrow> string \<Rightarrow> CircuitBreakerMetrics option) \<Rightarrow>
    (string \<Rightarrow> CircuitBreakerMetrics \<Rightarrow> 's \<Rightarrow> 's) \<Rightarrow> 'e breaker_config \<Rightarrow> millis \<Rightarrow> string \<Rightarrow>
    's breaker \<Rightarrow> (rejection + CircuitBreakerMetrics) \<times> 's breaker" where
  "admit sget sset cfg now key b =
    (let m = getMetrics sget cfg key b in
     if cb_state m = OPEN \<and> of_int (timeSinceFailure m now) < cooldown cfg
     then (Inl (CooldownRemaining (cooldown cfg - of_int (timeSinceFailure m now))), b)
     else
      (let (m1, b1) = (if cb_state m = OPEN
             then (let (m', b') = transitionTo m HALF_OPEN now key b in (m', put sset key m' b'))
             else (m, b)) in
       if cb_state m1 = HALF_OPEN
       then if key \<in> activeTrials b1 then (Inl TrialInProgress, b1)
            else (Inr m1, b1\<lparr>activeTrials := insert key (activeTrials b1)\<rparr>)
       else (Inr m1, b1)))"

definition settle :: "(string \<Rightarrow> CircuitBreakerMetrics \<Rightarrow> 's \<Rightarrow> 's) \<Rightarrow> 'e breaker_config \<Rightarrow>
    millis \<Rightarrow> string \<Rightarrow> CircuitBreakerMetrics \<Rightarrow> bool \<Rightarrow> 's breaker \<Rightarrow> 's breaker" where
  "settle sset cfg now key m ok b =
    (let (m1, b1) = (if ok then onSuccess cfg m now key b else onFailure cfg m now key b);
         b2 = put sset key m1 b1 in
     if cb_state m1 = HALF_OPEN then b2\<lparr>activeTrials := activeTrials b2 - {key}\<rparr> else b2)"

datatype 'e call_error = CircuitOpen rejection | Custom 'e | Thrown 'e

definition open_error :: "'e breaker_config \<Rightarrow> rejection \<Rightarrow> 'e call_error" where
  "open_error cfg r = (case on_open_error cfg of None \<Rightarrow> CircuitOpen r | Some f \<Rightarrow> Custom (f r))"

definition execute :: "('s \<Rightarrow> string \<Rightarrow> CircuitBreakerMetrics option) \<Rightarrow>
    (string \<Rightarrow> CircuitBreakerMetrics \<Rightarrow> 's \<Rightarrow> 's) \<Rightarrow> 'e breaker_config \<Rightarrow> millis \<Rightarrow> string \<Rightarrow>
    ('w \<Rightarrow> ('e + 'a) \<times> 'w) \<Rightarrow> 's breaker \<Rightarrow> 'w \<Rightarrow> ('e call_error + 'a) \<times> 's breaker \<times> 'w" where
  "execute sget sset cfg now key operation b w =
    (case admit sget sset cfg now key b of
       (Inl r, b1) \<Rightarrow> (Inl (open_error cfg r), b1, w)
     | (Inr m, b1) \<Rightarrow> (case operation w of
           (Inr v, w1) \<Rightarrow> (Inr v, settle sset cfg now key m True b1, w1)
         | (Inl e, w1) \<Rightarrow> (Inl (Thrown e), settle sset cfg now key m False b1, w1)))"

definition wouldBlock :: "('s \<Rightarrow> string \<Rightarrow> CircuitBreakerMetrics option) \<Rightarrow> 'e breaker_config \<Rightarrow>
    millis \<Rightarrow> string \<Rightarrow> 's breaker \<Rightarrow> bool" where
  "wouldBlock sget cfg now key b =
    (let m = getMetrics sget cfg key b in
     if cb_state m \<noteq> OPEN then False else of_int (timeSinceFailure m now) < cooldown cfg)"

definition reset_breaker :: "(string \<Rightarrow> CircuitBreakerMetrics \<Rightarrow> 's \<Rightarrow> 's) \<Rightarrow>
    'e breaker_config \<Rightarrow> millis \<Rightarrow> string \<Rightarrow> 's breaker \<Rightarrow> 's breaker" where
  "reset_breaker sset cfg now key b =
    (let b1 = put sset key ((default_metrics (load_time cfg))\<lparr>lastStateChange := now\<rparr>) b in
     b1\<lparr>activeTrials := activeTrials b1 - {key},
        gauge := map_set key (stateToNumber CLOSED) (gauge b1)\<rparr>)"

definition trip :: "('s \<Rightarrow> string \<Rightarrow> CircuitBreakerMetrics option) \<Rightarrow>
    (string \<Rightarrow> CircuitBreakerMetrics \<Rightarrow> 's \<Rightarrow> 's) \<Rightarrow> 'e breaker_config \<Rightarrow> millis \<Rightarrow> string \<Rightarrow>
    's breaker \<Rightarrow> 's breaker" where
  "trip sget sset cfg now key b =
    (let m = getMetrics sget cfg key b; oldState = cb_state m in
     if oldState = OPEN then b
     else (let b1 = put sset key (m\<lparr>cb_state := OPEN, consecutiveSuccesses := 0,
                      lastStateChange := now, lastFailureTime := Some now\<rparr>) b in
       b1\<lparr>activeTrials := activeTrials b1 - {key},
          transitions := transitions b1 @ [(key, oldState, OPEN)],
          gauge := map_set key (stateToNumber OPEN) (gauge b1)\<rparr>))"

section \<open>The registry\<close>

record 'e registered =
  reg_config :: "'e breaker_config"
  reg_breaker :: "memory_store breaker"

type_synonym 'e registry = "(string, 'e registered) js_map"

text \<open>A new breaker validates its configuration, so creating one may throw.\<close>

definition getOrCreate :: "millis \<Rightarrow> string \<Rightarrow> 'e CircuitBreakerConfig \<Rightarrow> 'e registry \<Rightarrow>
    ('e registered \<times> 'e registry) result" where
  "getOrCreate loaded slug config reg = (case map_get reg slug of
       Some r \<Rightarrow> Inr (r, reg)
     | None \<Rightarrow> (case validateConfig config of
           Inl e \<Rightarrow> Inl e
         | Inr _ \<Rightarrow> (let r = \<lparr>reg_config = merge_config loaded config, reg_breaker = new_breaker []\<rparr>
                     in Inr (r, map_set slug r reg))))"

definition registry_getState :: "string \<Rightarrow> 'e registry \<Rightarrow> CircuitBreakerState" where
  "registry_getState slug reg = (case map_get reg slug of
       None \<Rightarrow> CLOSED
     | Some r \<Rightarrow> getState memory_get (reg_config r) slug (reg_breaker r))"

definition registry_list ::
    "'e registry \<Rightarrow> (string \<times> CircuitBreakerState \<times> CircuitBreakerMetrics) list" where
  "registry_list reg = map (\<lambda>(slug, r).
     let m = getMetrics memory_get (reg_config r) slug (reg_breaker r) in (slug, cb_state m, m)) reg"

definition withCircuitBreaker :: "millis \<Rightarrow> millis \<Rightarrow> string \<Rightarrow> 'e CircuitBreakerConfig \<Rightarrow>
    ('w \<Rightarrow> ('e + 'a) \<times> 'w) \<Rightarrow> 'e registry \<Rightarrow> 'w \<Rightarrow>
    (error + 'e call_error + 'a) \<times> 'e registry \<times> 'w" where
  "withCircuitBreaker loaded now slug config operation reg w =
    (case getOrCreate loaded slug config reg of
       Inl e \<Rightarrow> (Inl e, reg, w)
     | Inr (r, reg1) \<Rightarrow>
        (case execute memory_get memory_set (reg_config r) now slug operation (reg_breaker r) w of
           (v, b, w1) \<Rightarrow> (Inr v, map_set slug (r\<lparr>reg_breaker := b\<rparr>) reg1, w1)))"

section \<open>Sequences of calls\<close>

text \<open>Calls one after the other, and calls that overlap: all are admitted before the first
  of them fails.\<close>

primrec run_calls :: "('s \<Rightarrow> string \<Rightarrow> CircuitBreakerMetrics option) \<Rightarrow>
    (string \<Rightarrow> CircuitBreakerMetrics \<Rightarrow> 's \<Rightarrow> 's) \<Rightarrow> 'e breaker_config \<Rightarrow> string \<Rightarrow>
    (millis \<times> ('w \<Rightarrow> ('e + 'a) \<times> 'w)) list \<Rightarrow> 's breaker \<Rightarrow> 'w \<Rightarrow>
    ('e call_error + 'a) list \<times> 's breaker \<times> 'w" where
  "run_calls sget sset cfg key [] b w = ([], b, w)"
| "run_calls sget sset cfg key (c # cs) b w =
    (case execute sget sset cfg (fst c) key (snd c) b w of (r, b1, w1) \<Rightarrow>
      (case run_calls sget sset cfg key cs b1 w1 of (rs, b2, w2) \<Rightarrow> (r # rs, b2, w2)))"

primrec admit_all :: "('s \<Rightarrow> string \<Rightarrow> CircuitBreakerMetrics option) \<Rightarrow>
    (string \<Rightarrow> CircuitBreakerMetrics \<Rightarrow> 's \<Rightarrow> 's) \<Rightarrow> 'e breaker_config \<Rightarrow> string \<Rightarrow>
    millis list \<Rightarrow> 's breaker \<Rightarrow> (millis \<times> CircuitBreakerMetrics) list \<times> 's breaker" where
  "admit_all sget sset cfg key [] b = ([], b)"
| "admit_all sget sset cfg key (now # nows) b = (case admit sget sset cfg now key b of
      (Inl _, b1) \<Rightarrow> admit_all sget sset cfg key nows b1
    | (Inr m, b1) \<Rightarrow> (case admit_all sget sset cfg key nows b1 of (ps, b2) \<Rightarrow> ((now, m) # ps, b2)))"

definition overlapping_failures :: "('s \<Rightarrow> string \<Rightarrow> CircuitBreakerMetrics option) \<Rightarrow>
    (string \<Rightarrow> CircuitBreakerMetrics \<Rightarrow> 's \<Rightarrow> 's) \<Rightarrow> 'e breaker_config \<Rightarrow> string \<Rightarrow>
    millis list \<Rightarrow> 's breaker \<Rightarrow> 's breaker" where
  "overlapping_failures sget sset cfg key nows b =
    (case admit_all sget sset cfg key nows b of (ps, b1) \<Rightarrow>
       fold (\<lambda>(now, m). settle sset cfg now key m False) ps b1)"

definition outcome_op :: "'e \<Rightarrow> bool \<Rightarrow> 'w \<Rightarrow> ('e + unit) \<times> 'w" where
  "outcome_op e ok w = (if ok then Inr () else Inl e, w)"

definition after_calls :: "('s \<Rightarrow> string \<Rightarrow> CircuitBreakerMetrics option) \<Rightarrow>
    (string \<Rightarrow> CircuitBreakerMetrics \<Rightarrow> 's \<Rightarrow> 's) \<Rightarrow> 'e breaker_config \<Rightarrow> string \<Rightarrow> 'e \<Rightarrow>
    (millis \<times> bool) list \<Rightarrow> 's breaker \<Rightarrow> 's breaker" where
  "after_calls sget sset cfg key e cs b = fst (snd (run_calls sget sset cfg key
      (map (\<lambda>(now, ok). (now, outcome_op e ok)) cs) b ()))"

definition trailing_failures :: "(millis \<times> bool) list \<Rightarrow> nat" where
  "trailing_failures cs = length (takeWhile (\<lambda>c. \<not> snd c) (rev cs))"

lemma trailing_failures_snoc [simp]:
  "trailing_failures (cs @ [c]) = (if snd c then 0 else Suc (trailing_failures cs))"
  by (simp add: trailing_failures_def)

lemma trailing_failures_Nil [simp]: "trailing_failures [] = 0"
  by (simp add: trailing_failures_def)

lemma run_calls_append:
  "run_calls sget sset cfg key (cs @ ds) b w =
    (case run_calls sget sset cfg key cs b w of (rs, b1, w1) \<Rightarrow>
      (case run_calls sget sset cfg key ds b1 w1 of (rs', b2, w2) \<Rightarrow> (rs @ rs', b2, w2)))"
  by (induction cs arbitrary: b w) (auto split: prod.split)

section \<open>The contract of a store\<close>

named_theorems breaker_simps \<open>the parts of the breaker, for the proofs of this theory\<close>

locale breaker_store =
  fixes sget :: "'s \<Rightarrow> string \<Rightarrow> CircuitBreakerMetrics option"
    and sset :: "string \<Rightarrow> CircuitBreakerMetrics \<Rightarrow> 's \<Rightarrow> 's"
  assumes get_set: "sget (sset k m s) k' = (if k' = k then Some m else sget s k')"
begin

lemma metrics_put: "getMetrics sget cfg k' (put sset k m b) = (if k' = k then m else getMetrics sget cfg k' b)"
  by (simp add: getMetrics_def put_def get_set)

lemma metrics_cong: "cb_store b = cb_store b' \<Longrightarrow> getMetrics sget cfg k b = getMetrics sget cfg k b'"
  by (simp add: getMetrics_def)

lemma transition_store [simp]: "cb_store (snd (transitionTo m st now k b)) = cb_store b"
  by (simp add: transitionTo_def Let_def)

lemma transition_trials [simp]: "activeTrials (snd (transitionTo m st now k b)) = activeTrials b"
  by (simp add: transitionTo_def Let_def)

lemma transition_state [simp]: "cb_state (fst (transitionTo m st now k b)) = st"
  by (simp add: transitionTo_def Let_def)

lemma outcome_store [simp]:
  "cb_store (snd (onSuccess cfg m now k b)) = cb_store b"
  "cb_store (snd (onFailure cfg m now k b)) = cb_store b"
  "activeTrials (snd (onSuccess cfg m now k b)) = activeTrials b"
  "activeTrials (snd (onFailure cfg m now k b)) = activeTrials b"
  by (simp_all add: onSuccess_def onFailure_def Let_def)

text \<open>What a finished call leaves in the store, and whether it clears its trial mark.\<close>

lemma settle_metrics:
  "getMetrics sget cfg k' (settle sset cfg now k m ok b) =
    (if k' = k then fst (if ok then onSuccess cfg m now k b else onFailure cfg m now k b)
     else getMetrics sget cfg k' b)"
  by (simp add: settle_def Let_def split_beta getMetrics_def put_def get_set)

lemma settle_trials:
  "activeTrials (settle sset cfg now k m ok b) =
    (if cb_state (fst (if ok then onSuccess cfg m now k b else onFailure cfg m now k b)) = HALF_OPEN
     then activeTrials b - {k} else activeTrials b)"
  by (simp add: settle_def Let_def split_beta put_def)

lemma admit_closed:
  "getState sget cfg k b = CLOSED \<Longrightarrow> admit sget sset cfg now k b = (Inr (getMetrics sget cfg k b), b)"
  by (simp add: admit_def getState_def Let_def)

lemma admit_trial:
  assumes "getState sget cfg k b = OPEN" and "\<not> wouldBlock sget cfg now k b" and "k \<notin> activeTrials b"
  obtains m b1 where "admit sget sset cfg now k b = (Inr m, b1)" "cb_state m = HALF_OPEN"
    "k \<in> activeTrials b1" "getMetrics sget cfg k b1 = m"
  using assms
  by (auto simp: admit_def getState_def wouldBlock_def Let_def split_beta metrics_put
      transitionTo_def put_def getMetrics_def get_set)

lemma wouldBlock_execute:
  "wouldBlock sget cfg now k b \<longleftrightarrow>
    (\<exists>t. admit sget sset cfg now k b = (Inl (CooldownRemaining t), b))"
  by (auto simp: admit_def wouldBlock_def Let_def split_beta split: if_splits)

lemma closed_call:
  assumes "getState sget cfg k b = CLOSED"
  shows "getMetrics sget cfg k (fst (snd (execute sget sset cfg now k (outcome_op e ok) b w))) =
    fst (if ok then onSuccess cfg (getMetrics sget cfg k b) now k b
         else onFailure cfg (getMetrics sget cfg k b) now k b)"
  by (simp add: execute_def admit_closed [OF assms] outcome_op_def settle_metrics)

lemma after_calls_snoc:
  "after_calls sget sset cfg k e (cs @ [c]) b =
    fst (snd (execute sget sset cfg (fst c) k (outcome_op e (snd c)) (after_calls sget sset cfg k e cs b) ()))"
  by (cases c) (simp add: after_calls_def run_calls_append split_beta)

lemma opens_at_streak:
  assumes "getMetrics sget cfg k b = m0" "cb_state m0 = CLOSED" "consecutiveFailures m0 = 0"
    and "\<And>i. i \<le> length cs \<Longrightarrow> int (trailing_failures (take i cs)) < failure_threshold cfg"
  shows "getState sget cfg k (after_calls sget sset cfg k e cs b) = CLOSED \<and>
    consecutiveFailures (getMetrics sget cfg k (after_calls sget sset cfg k e cs b)) = int (trailing_failures cs)"
  using assms(4)
proof (induction cs rule: rev_induct)
  case Nil
  with assms show ?case by (simp add: after_calls_def getState_def)
next
  case (snoc c cs)
  have "int (trailing_failures (take i cs)) < failure_threshold cfg" if "i \<le> length cs" for i
    using snoc.prems [of i] that by simp
  note ih = snoc.IH [OF this, simplified]
  from snoc.prems [of "Suc (length cs)"]
  have "int (trailing_failures (cs @ [c])) < failure_threshold cfg" by simp
  with ih closed_call [of cfg k "after_calls sget sset cfg k e cs b" "fst c" e "snd c" "()"]
  show ?case
    by (cases "snd c") (simp_all add: getState_def after_calls_snoc onSuccess_def onFailure_def Let_def)
qed

text \<open>A key that is marked as having a running trial while the stored state is not closed.\<close>

lemma locked_admit:
  assumes "k \<in> activeTrials b" and "getState sget cfg k b \<noteq> CLOSED"
  shows "\<exists>r b1. admit sget sset cfg now k b = (Inl r, b1) \<and> k \<in> activeTrials b1 \<and>
    getState sget cfg k b1 \<noteq> CLOSED"
proof (cases "cb_state (getMetrics sget cfg k b)")
  case OPEN
  let ?m = "getMetrics sget cfg k b"
  have "getState sget cfg k (put sset k (fst (transitionTo ?m HALF_OPEN now k b))
      (snd (transitionTo ?m HALF_OPEN now k b))) = HALF_OPEN"
    by (simp add: getState_def metrics_put)
  with OPEN assms show ?thesis by (simp add: admit_def Let_def split_beta put_def)
qed (use assms in \<open>simp_all add: admit_def getState_def Let_def\<close>)

lemma locked_execute:
  assumes "k \<in> activeTrials b" and "getState sget cfg k b \<noteq> CLOSED"
  obtains r b1 where "execute sget sset cfg now k operation b w = (Inl (open_error cfg r), b1, w)"
    "k \<in> activeTrials b1" "getState sget cfg k b1 \<noteq> CLOSED"
  using locked_admit [OF assms, of now] by (auto simp: execute_def)

lemma locked_forever:
  assumes "k \<in> activeTrials b" and "getState sget cfg k b \<noteq> CLOSED"
  shows "\<exists>rs b1. run_calls sget sset cfg k cs b w = (map (\<lambda>r. Inl (open_error cfg r)) rs, b1, w) \<and>
    length rs = length cs"
  using assms
proof (induction cs arbitrary: b)
  case (Cons c cs)
  obtain r b1 where r: "execute sget sset cfg (fst c) k (snd c) b w = (Inl (open_error cfg r), b1, w)"
    "k \<in> activeTrials b1" "getState sget cfg k b1 \<noteq> CLOSED"
    by (rule locked_execute [OF Cons.prems])
  from Cons.IH [OF r(2,3)] obtain rs b2
    where "run_calls sget sset cfg k cs b1 w = (map (\<lambda>r. Inl (open_error cfg r)) rs, b2, w)"
      "length rs = length cs" by blast
  with r(1) show ?case by (intro exI [of _ "r # rs"] exI [of _ b2]) simp
qed simp

lemma failed_trial_locks:
  assumes "getState sget cfg k b = OPEN" and "\<not> wouldBlock sget cfg now k b" and "k \<notin> activeTrials b"
    and "operation w = (Inl e, w1)"
  shows "\<exists>b1. execute sget sset cfg now k operation b w = (Inl (Thrown e), b1, w1) \<and>
    k \<in> activeTrials b1 \<and> getState sget cfg k b1 = OPEN"
proof -
  obtain m b1 where m: "admit sget sset cfg now k b = (Inr m, b1)" "cb_state m = HALF_OPEN"
    "k \<in> activeTrials b1" by (rule admit_trial [OF assms(1-3)])
  then have "cb_state (fst (onFailure cfg m now k b1)) = OPEN"
    by (simp add: onFailure_def Let_def)
  with m assms(4) show ?thesis
    by (simp add: execute_def getState_def settle_metrics settle_trials)
qed

lemma admit_all_closed:
  assumes "getState sget cfg k b = CLOSED"
  shows "admit_all sget sset cfg k nows b = (map (\<lambda>now. (now, getMetrics sget cfg k b)) nows, b)"
  by (induction nows) (simp_all add: admit_closed [OF assms])

lemma overlapping_lost:
  assumes "getState sget cfg k b = CLOSED" and "nows \<noteq> []"
    and "consecutiveFailures (getMetrics sget cfg k b) + 1 < failure_threshold cfg"
  shows "getState sget cfg k (overlapping_failures sget sset cfg k nows b) = CLOSED \<and>
    consecutiveFailures (getMetrics sget cfg k (overlapping_failures sget sset cfg k nows b)) =
    consecutiveFailures (getMetrics sget cfg k b) + 1"
proof -
  let ?m = "getMetrics sget cfg k b"
  obtain ns n where "nows = ns @ [n]" using assms(2) by (cases nows rule: rev_cases) auto
  then have "getMetrics sget cfg k (overlapping_failures sget sset cfg k nows b) =
      fst (onFailure cfg ?m n k (fold (\<lambda>(now, m). settle sset cfg now k m False)
        (map (\<lambda>now. (now, ?m)) ns) b))"
    by (simp add: overlapping_failures_def admit_all_closed [OF assms(1)] settle_metrics)
  with assms show ?thesis by (simp add: getState_def onFailure_def Let_def)
qed

lemma reset_closes:
  "getState sget cfg k (reset_breaker sset cfg now k b) = CLOSED \<and>
   k \<notin> activeTrials (reset_breaker sset cfg now k b)"
  by (simp add: reset_breaker_def Let_def getState_def getMetrics_def put_def get_set default_metrics_def)

lemma trip_blocks:
  assumes "getState sget cfg k b \<noteq> OPEN" and "of_int (later - now) < cooldown cfg"
  shows "wouldBlock sget cfg later k (trip sget sset cfg now k b)"
  using assms
  by (simp add: wouldBlock_def trip_def Let_def getState_def getMetrics_def put_def get_set timeSinceFailure_def)

lemma other_key_untouched:
  assumes "k' \<noteq> k"
  shows "getMetrics sget cfg' k' (fst (snd (execute sget sset cfg now k operation b w))) =
    getMetrics sget cfg' k' b"
  using assms
  by (auto simp: execute_def admit_def Let_def split_beta settle_def onSuccess_def onFailure_def
      transitionTo_def put_def getMetrics_def get_set split: sum.split if_splits prod.splits)

end

text \<open>Breakers over two stores that answer every lookup alike.\<close>

definition similar :: "('s \<Rightarrow> string \<Rightarrow> CircuitBreakerMetrics option) \<Rightarrow>
    ('t \<Rightarrow> string \<Rightarrow> CircuitBreakerMetrics option) \<Rightarrow> 's breaker \<Rightarrow> 't breaker \<Rightarrow> bool" where
  "similar g h x y \<longleftrightarrow> g (cb_store x) = h (cb_store y) \<and> activeTrials x = activeTrials y \<and>
     transitions x = transitions y \<and> gauge x = gauge y"

text \<open>Two stores that answer every lookup alike stay alike under every call.\<close>

locale breaker_store_pair = a: breaker_store sget1 sset1 + b: breaker_store sget2 sset2
  for sget1 :: "'s \<Rightarrow> string \<Rightarrow> CircuitBreakerMetrics option" and sset1
    and sget2 :: "'t \<Rightarrow> string \<Rightarrow> CircuitBreakerMetrics option" and sset2
begin

lemma similar_put: "similar sget1 sget2 x y \<Longrightarrow> similar sget1 sget2 (put sset1 k m x) (put sset2 k m y)"
  by (simp add: similar_def put_def fun_eq_iff a.get_set b.get_set)

lemma similar_trials:
  "similar sget1 sget2 x y \<Longrightarrow> similar sget1 sget2 (x\<lparr>activeTrials := f (activeTrials x)\<rparr>) (y\<lparr>activeTrials := f (activeTrials y)\<rparr>)"
  by (simp add: similar_def)

lemma similar_metrics: "similar sget1 sget2 x y \<Longrightarrow> getMetrics sget1 cfg k x = getMetrics sget2 cfg k y"
  by (simp add: similar_def getMetrics_def)

lemma similar_transition:
  assumes "similar sget1 sget2 x y"
  shows "fst (transitionTo m st now k x) = fst (transitionTo m st now k y) \<and>
    similar sget1 sget2 (snd (transitionTo m st now k x)) (snd (transitionTo m st now k y))"
  using assms by (simp add: transitionTo_def Let_def similar_def)

lemma similar_outcomes:
  assumes "similar sget1 sget2 x y"
  shows "fst (onSuccess cfg m now k x) = fst (onSuccess cfg m now k y) \<and>
    similar sget1 sget2 (snd (onSuccess cfg m now k x)) (snd (onSuccess cfg m now k y)) \<and>
    fst (onFailure cfg m now k x) = fst (onFailure cfg m now k y) \<and>
    similar sget1 sget2 (snd (onFailure cfg m now k x)) (snd (onFailure cfg m now k y))"
  using assms similar_transition [OF assms] by (simp add: onSuccess_def onFailure_def Let_def)

lemma similar_settle:
  assumes "similar sget1 sget2 x y"
  shows "similar sget1 sget2 (settle sset1 cfg now k m ok x) (settle sset2 cfg now k m ok y)"
  using similar_outcomes [OF assms, of cfg m now k]
  by (cases ok) (auto simp: settle_def Let_def split_beta intro: similar_put
      similar_trials [of _ _ "\<lambda>ts. ts - {k}"])

lemma similar_admit:
  assumes s: "similar sget1 sget2 x y"
  shows "fst (admit sget1 sset1 cfg now k x) = fst (admit sget2 sset2 cfg now k y) \<and>
    similar sget1 sget2 (snd (admit sget1 sset1 cfg now k x)) (snd (admit sget2 sset2 cfg now k y))"
proof -
  let ?m = "getMetrics sget2 cfg k y"
  from similar_transition [OF s, of ?m HALF_OPEN now k]
  have t: "fst (transitionTo ?m HALF_OPEN now k x) = fst (transitionTo ?m HALF_OPEN now k y)"
    "similar sget1 sget2 (put sset1 k (fst (transitionTo ?m HALF_OPEN now k y)) (snd (transitionTo ?m HALF_OPEN now k x)))
       (put sset2 k (fst (transitionTo ?m HALF_OPEN now k y)) (snd (transitionTo ?m HALF_OPEN now k y)))"
    by (simp_all add: similar_put)
  have eq: "activeTrials u = activeTrials v" if "similar sget1 sget2 u v" for u v
    using that by (simp add: similar_def)
  show ?thesis
    using s t eq [OF s] eq [OF t(2)] similar_trials [OF s, of "insert k"] similar_trials [OF t(2), of "insert k"]
    by (simp add: admit_def Let_def split_beta similar_metrics [OF s])
qed

lemma similar_execute:
  assumes "similar sget1 sget2 x y"
  shows "fst (execute sget1 sset1 cfg now k operation x w) = fst (execute sget2 sset2 cfg now k operation y w) \<and>
    snd (snd (execute sget1 sset1 cfg now k operation x w)) = snd (snd (execute sget2 sset2 cfg now k operation y w)) \<and>
    similar sget1 sget2 (fst (snd (execute sget1 sset1 cfg now k operation x w)))
      (fst (snd (execute sget2 sset2 cfg now k operation y w)))"
  using similar_admit [OF assms, of cfg now k]
  by (auto simp: execute_def split_beta similar_settle split: sum.split)

end

section \<open>Both stores satisfy the contract\<close>

interpretation mem: breaker_store memory_get memory_set
  by unfold_locales (simp add: memory_get_def memory_set_def jsmap)

lemma as_state_text [simp]: "as_state (state_text st) = st"
  by (cases st) (simp_all add: as_state_def)

lemma filter_upsert:
  "filter (\<lambda>r. breaker_key r = k') (map (\<lambda>r. if breaker_key r = k then row else r) rows) =
   (if k' = k then map (\<lambda>_. row) (filter (\<lambda>r. breaker_key r = k) rows)
    else filter (\<lambda>r. breaker_key r = k') rows)" if "breaker_key row = k"
  using that by (induction rows) auto

interpretation pg: breaker_store pg_get pg_set
proof unfold_locales
  fix k m k' and rows :: "breaker_row list"
  show "pg_get (pg_set k m rows) k' = (if k' = k then Some m else pg_get rows k')"
  proof (cases "\<exists>r \<in> set rows. breaker_key r = k")
    case True
    then have "filter (\<lambda>r. breaker_key r = k) rows \<noteq> []" by (auto simp: filter_empty_conv)
    then obtain r rs where "filter (\<lambda>r. breaker_key r = k) rows = r # rs"
      by (cases "filter (\<lambda>r. breaker_key r = k) rows") auto
    with True show ?thesis by (simp add: pg_get_def pg_set_def Let_def filter_upsert)
  next
    case False
    then have "filter (\<lambda>r. breaker_key r = k) rows = []" by (auto simp: filter_empty_conv)
    with False show ?thesis by (auto simp: pg_get_def pg_set_def Let_def)
  qed
qed

interpretation mem_pg: breaker_store_pair memory_get memory_set pg_get pg_set
  by unfold_locales

section \<open>Properties\<close>

definition demo_config :: "string breaker_config" where
  "demo_config = \<lparr>failure_threshold = 2, cooldown = 100, success_threshold = 1,
     on_open_error = None, load_time = 0\<rparr>"

definition demo_breaker :: "memory_store breaker" where
  "demo_breaker = after_calls memory_get memory_set demo_config ''api'' ''down'' [(10, False), (20, False)]
     (new_breaker [])"

lemmas breaker_eval = after_calls_def execute_def admit_def settle_def onSuccess_def onFailure_def
  transitionTo_def put_def getMetrics_def getState_def outcome_op_def memory_get_def memory_set_def
  default_metrics_def wouldBlock_def timeSinceFailure_def new_breaker_def Let_def

lemma demo_breaker_open:
  "getState memory_get demo_config ''api'' demo_breaker = OPEN \<and>
   \<not> wouldBlock memory_get demo_config 200 ''api'' demo_breaker \<and> ''api'' \<notin> activeTrials demo_breaker"
  by (simp add: demo_breaker_def demo_config_def breaker_eval)

text \<open>A closed breaker opens exactly on the failure that completes a run of
  \<open>failureThreshold\<close> consecutive failures: after any sequence of calls that has no such
  run the breaker is still closed and its counter is the length of the last run of
  failures, and the next failing call opens it exactly when that run reaches the threshold.\<close>

theorem breaker_opens_exactly_at_threshold:
  assumes "\<And>i. i \<le> length cs \<Longrightarrow> int (trailing_failures (take i cs)) < failure_threshold cfg"
  shows "getState memory_get cfg k (after_calls memory_get memory_set cfg k e cs (new_breaker [])) = CLOSED \<and>
    consecutiveFailures (getMetrics memory_get cfg k
      (after_calls memory_get memory_set cfg k e cs (new_breaker []))) = int (trailing_failures cs) \<and>
    (getState memory_get cfg k (after_calls memory_get memory_set cfg k e (cs @ [(now, False)]) (new_breaker [])) =
      (if int (trailing_failures cs) + 1 \<ge> failure_threshold cfg then OPEN else CLOSED))"
proof -
  let ?b = "after_calls memory_get memory_set cfg k e cs (new_breaker [])"
  have "getMetrics memory_get cfg k (new_breaker []) = default_metrics (load_time cfg)"
    by (simp add: getMetrics_def new_breaker_def memory_get_def)
  from mem.opens_at_streak [OF this _ _ assms, of e]
  have b: "getState memory_get cfg k ?b = CLOSED"
    "consecutiveFailures (getMetrics memory_get cfg k ?b) = int (trailing_failures cs)"
    by (simp_all add: default_metrics_def)
  with mem.closed_call [OF b(1), of now e False "()"] show ?thesis
    by (auto simp: mem.after_calls_snoc getState_def onFailure_def Let_def)
qed

theorem breaker_opens_exactly_at_threshold_witness:
  "getState memory_get demo_config ''api'' (after_calls memory_get memory_set demo_config ''api'' ''down''
     ([(1, False), (2, True), (3, False)] @ [(4, False)]) (new_breaker [])) = OPEN"
proof -
  have "int (trailing_failures (take i [(1, False), (2, True), (3, False)])) < failure_threshold demo_config"
    if "i \<le> length [(1::int, False), (2, True), (3, False)]" for i
  proof -
    from that have "i \<in> {0, 1, 2, 3}" by auto
    then show ?thesis by (auto simp: trailing_failures_def demo_config_def)
  qed
  from breaker_opens_exactly_at_threshold [OF this, of "''api''" "''down''" 4]
  show ?thesis by (simp add: trailing_failures_def demo_config_def)
qed

text \<open>\<open>wouldBlock\<close> agrees with \<open>execute\<close>: it holds exactly when \<open>execute\<close> at that time
  rejects the call because of the cooldown, and then the operation is not called and the
  breaker does not change. After a manual trip every call within the cooldown is blocked;
  after a manual reset the breaker is closed and calls the operation.\<close>

theorem wouldBlock_iff_rejected:
  "(wouldBlock memory_get cfg now k b \<longleftrightarrow>
     (\<exists>t. execute memory_get memory_set cfg now k operation b w =
       (Inl (open_error cfg (CooldownRemaining t)), b, w) \<and> fst (admit memory_get memory_set cfg now k b) =
       Inl (CooldownRemaining t))) \<and>
   (getState memory_get cfg k b = OPEN \<or> cooldown cfg \<le> of_int (now - tripped) \<or>
     wouldBlock memory_get cfg now k (trip memory_get memory_set cfg tripped k b)) \<and>
   (let b' = reset_breaker memory_set cfg now k b in
     getState memory_get cfg k b' = CLOSED \<and>
     admit memory_get memory_set cfg now k b' = (Inr (getMetrics memory_get cfg k b'), b'))"
  using mem.wouldBlock_execute [of cfg now k b] mem.trip_blocks [of cfg k b now tripped]
    mem.reset_closes [of cfg k now b] mem.admit_closed [of cfg k "reset_breaker memory_set cfg now k b" now]
  by (cases "admit memory_get memory_set cfg now k b") (auto simp: execute_def Let_def not_less [symmetric])

text \<open>A half-open trial that fails leaves its key in \<open>activeTrials\<close>, because the
  \<open>finally\<close> clause looks at the state after the transition: the breaker is open again, and
  from then on every sequence of calls, at any times and with any operations, is rejected
  without calling an operation. Only a manual reset or trip ends this.\<close>

theorem failed_trial_blocks_forever:
  fixes operation :: "'w \<Rightarrow> ('e + 'a) \<times> 'w"
  assumes "getState memory_get cfg k b = OPEN" and "\<not> wouldBlock memory_get cfg now k b"
    and "k \<notin> activeTrials b" and "operation w = (Inl e, w1)"
  shows "\<exists>b1. execute memory_get memory_set cfg now k operation b w = (Inl (Thrown e), b1, w1) \<and>
    (\<forall>(calls :: (millis \<times> ('w \<Rightarrow> ('e + 'a) \<times> 'w)) list) w2.
       \<exists>rs b2. run_calls memory_get memory_set cfg k calls b1 w2 =
       (map (\<lambda>r. Inl (open_error cfg r)) rs, b2, w2) \<and> length rs = length calls)"
proof -
  from mem.failed_trial_locks [OF assms(1-3), of operation w e w1, OF assms(4)] obtain b1
    where "execute memory_get memory_set cfg now k operation b w = (Inl (Thrown e), b1, w1)"
      and l: "k \<in> activeTrials b1" "getState memory_get cfg k b1 \<noteq> CLOSED" by auto
  with mem.locked_forever [OF l] show ?thesis by blast
qed

theorem failed_trial_blocks_forever_witness:
  "\<exists>b1. execute memory_get memory_set demo_config 200 ''api'' (outcome_op ''down'' False) demo_breaker () =
      (Inl (Thrown ''down''), b1, ()) \<and>
    (\<forall>(calls :: (millis \<times> (unit \<Rightarrow> (string + unit) \<times> unit)) list) w2.
       \<exists>rs b2. run_calls memory_get memory_set demo_config ''api'' calls b1 w2 =
       (map (\<lambda>r. Inl (open_error demo_config r)) rs, b2, w2) \<and> length rs = length calls)"
  using failed_trial_blocks_forever [of demo_config "''api''" demo_breaker 200
      "outcome_op ''down'' False" "()" "''down''" "()"] demo_breaker_open
  by (simp add: outcome_op_def)

text \<open>Failures of overlapping calls are lost: each call writes back the snapshot it read
  before its operation ran, so any number of calls that are admitted together and then all
  fail advance the failure counter of a closed breaker by one only, and it stays closed.\<close>

theorem overlapping_failures_count_once:
  assumes "getState memory_get cfg k b = CLOSED" and "nows \<noteq> []"
    and "consecutiveFailures (getMetrics memory_get cfg k b) + 1 < failure_threshold cfg"
  shows "let b' = overlapping_failures memory_get memory_set cfg k nows b in
    getState memory_get cfg k b' = CLOSED \<and>
    consecutiveFailures (getMetrics memory_get cfg k b') = consecutiveFailures (getMetrics memory_get cfg k b) + 1"
  using mem.overlapping_lost [OF assms] by (simp add: Let_def)

theorem overlapping_failures_count_once_witness:
  "getState memory_get demo_config ''api''
     (overlapping_failures memory_get memory_set demo_config ''api'' (replicate 50 0) (new_breaker [])) = CLOSED"
  using overlapping_failures_count_once [of demo_config "''api''" "new_breaker []" "replicate 50 0"]
  by (simp add: getState_def getMetrics_def new_breaker_def memory_get_def default_metrics_def
      demo_config_def Let_def)

text \<open>The Postgres store refines the in-memory store: two breakers whose stores answer
  lookups alike return the same result, call the operation alike and stay alike after
  every \<open>execute\<close>.\<close>

theorem postgres_breaker_refines_memory:
  assumes "similar memory_get pg_get b b'"
  shows "\<exists>r c c' w'. execute memory_get memory_set cfg now k operation b w = (r, c, w') \<and>
    execute pg_get pg_set cfg now k operation b' w = (r, c', w') \<and> similar memory_get pg_get c c'"
  using mem_pg.similar_execute [OF assms, of cfg now k operation w] by (metis prod.collapse)

theorem postgres_breaker_refines_memory_witness:
  "\<exists>c c'. execute memory_get memory_set demo_config 7 ''api'' (outcome_op ''down'' False) (new_breaker []) () =
      (Inl (Thrown ''down''), c, ()) \<and>
    execute pg_get pg_set demo_config 7 ''api'' (outcome_op ''down'' False) (new_breaker []) () =
      (Inl (Thrown ''down''), c', ()) \<and> similar memory_get pg_get c c'"
proof -
  have "similar memory_get pg_get (new_breaker []) (new_breaker [])"
    by (simp add: similar_def new_breaker_def memory_get_def pg_get_def fun_eq_iff)
  from postgres_breaker_refines_memory [OF this, of demo_config 7 "''api''" "outcome_op ''down'' False" "()"]
  show ?thesis by (auto simp: execute_def outcome_op_def split: sum.splits prod.splits)
    (auto simp: breaker_eval demo_config_def)
qed

text \<open>Breakers of different slugs are isolated: a call through the registry for one slug
  changes the reported state of no other slug.\<close>

theorem registry_isolated:
  "slug' = slug \<or> registry_getState slug'
     (fst (snd (withCircuitBreaker loaded now slug config operation reg w))) = registry_getState slug' reg"
  by (auto simp: withCircuitBreaker_def getOrCreate_def registry_getState_def jsmap Let_def
      split: option.split sum.split prod.split)

end
