(* ===== verification/RateLimiter.thy ===== *)
theory RateLimiter
  imports Prelude
begin

text \<open>
  The request rate limiters: the store-backed fixed-window limiter of the gateway
  (\<^verbatim>\<open>services/rateLimiter.ts\<close>, in-memory and Postgres stores), and the limiters of
  \<^verbatim>\<open>middleware/rateLimit.ts\<close>: a fixed-window one, a refilling token bucket, and the
  middlewares that answer 429.

  The clock is an argument. A Postgres row keeps \<open>tokens\<close> as a number and
  \<open>last_refill_ms\<close> as the decimal string the driver returns for a \<open>BIGINT\<close>; the row lock
  makes one check atomic. The user id and the client address of a request are inputs.
\<close>

section \<open>The fixed-window computation\<close>

record TokenBucket =
  tokens :: int
  lastRefill :: millis

record RateLimitResult =
  allowed :: bool
  retryAfterMs :: "millis option"

record check_options =
  maxRequests :: int
  check_now :: millis
  windowMs :: millis

abbreviation allow :: RateLimitResult where
  "allow \<equiv> \<lparr>allowed = True, retryAfterMs = None\<rparr>"

abbreviation deny :: "millis \<Rightarrow> RateLimitResult" where
  "deny ms \<equiv> \<lparr>allowed = False, retryAfterMs = Some ms\<rparr>"

definition computeRateLimitResult :: "TokenBucket option \<Rightarrow> int \<Rightarrow> millis \<Rightarrow> millis \<Rightarrow>
    TokenBucket \<times> RateLimitResult" where
  "computeRateLimitResult bucket max_requests window_ms now =
    (let current = (case bucket of Some b \<Rightarrow> b | None \<Rightarrow> \<lparr>tokens = max_requests, lastRefill = now\<rparr>);
         elapsed = now - lastRefill current;
         current = (if elapsed \<ge> window_ms
                    then current\<lparr>tokens := max_requests, lastRefill := now\<rparr> else current) in
     if tokens current \<le> 0
     then (current, deny (max (window_ms - (now - lastRefill current)) 0))
     else (current\<lparr>tokens := tokens current - 1\<rparr>, allow))"

definition computeTokenBucketResult :: "TokenBucket option \<Rightarrow> int \<Rightarrow> millis \<Rightarrow> millis \<Rightarrow>
    TokenBucket \<times> RateLimitResult" where
  "computeTokenBucketResult existingBucket max_requests window_ms now = (case existingBucket of
       None \<Rightarrow> (\<lparr>tokens = max_requests - 1, lastRefill = now\<rparr>, allow)
     | Some b \<Rightarrow> (let elapsedMs = now - lastRefill b in
         if elapsedMs \<ge> window_ms then (\<lparr>tokens = max_requests - 1, lastRefill = now\<rparr>, allow)
         else if tokens b > 0 then (\<lparr>tokens = tokens b - 1, lastRefill = lastRefill b\<rparr>, allow)
         else (b, deny (window_ms - elapsedMs))))"

section \<open>Stores\<close>

type_synonym bucket_store = "(string, TokenBucket) js_map"

definition memory_check :: "string \<Rightarrow> check_options \<Rightarrow> bucket_store \<Rightarrow>
    RateLimitResult result \<times> bucket_store" where
  "memory_check bucketKey options buckets =
    (case computeRateLimitResult (map_get buckets bucketKey) (maxRequests options) (windowMs options)
        (check_now options) of (bucket, r) \<Rightarrow> (Inr r, map_set bucketKey bucket buckets))"

definition exhaust :: "string \<Rightarrow> millis \<Rightarrow> bucket_store \<Rightarrow> bucket_store" where
  "exhaust bucketKey now buckets = map_set bucketKey \<lparr>tokens = 0, lastRefill = now\<rparr> buckets"

definition reset_buckets :: "bucket_store \<Rightarrow> bucket_store" where
  "reset_buckets buckets = []"

datatype stored = StoredNumber int | StoredString string

fun normalizeTokenBucketValue :: "stored \<Rightarrow> string \<Rightarrow> int result" where
  "normalizeTokenBucketValue (StoredNumber n) label =
    (if n < 0 then Inl (Error (label @ '' must be stored as a non-negative integer.'')) else Inr n)"
| "normalizeTokenBucketValue (StoredString s) label =
    (if trim s = [] \<or> \<not> list_all is_digit (trim s)
     then Inl (Error (label @ '' must be stored as a non-negative integer.''))
     else Inr (int (read_nat (trim s))))"

record TokenBucketRow =
  bucket_key :: string
  row_tokens :: stored
  last_refill_ms :: stored

text \<open>The constraints \<open>CHECK (tokens >= 0)\<close> and \<open>CHECK (last_refill_ms >= 0)\<close> of the table make
  a statement that writes other values fail.\<close>

definition violates_check :: "int \<Rightarrow> millis \<Rightarrow> bool" where
  "violates_check toks refill \<longleftrightarrow> toks < 0 \<or> refill < 0"

definition insert_bucket :: "string \<Rightarrow> int \<Rightarrow> millis \<Rightarrow> TokenBucketRow list \<Rightarrow> TokenBucketRow list result" where
  "insert_bucket k toks refill rows =
    (if violates_check toks refill then Inl (Error ''violates check constraint'')
     else if \<exists>r \<in> set rows. bucket_key r = k then Inr rows
     else Inr (rows @ [\<lparr>bucket_key = k, row_tokens = StoredNumber toks,
                 last_refill_ms = StoredString (show_int refill)\<rparr>]))"

definition update_bucket :: "string \<Rightarrow> TokenBucket \<Rightarrow> TokenBucketRow list \<Rightarrow> TokenBucketRow list result" where
  "update_bucket k b rows =
    (if violates_check (tokens b) (lastRefill b) then Inl (Error ''violates check constraint'')
     else Inr (map (\<lambda>r. if bucket_key r = k
       then \<lparr>bucket_key = k, row_tokens = StoredNumber (tokens b),
             last_refill_ms = StoredString (show_int (lastRefill b))\<rparr> else r) rows))"

definition read_bucket :: "TokenBucketRow \<Rightarrow> TokenBucket result" where
  "read_bucket row = (case normalizeTokenBucketValue (row_tokens row) ''tokens'' of
       Inl e \<Rightarrow> Inl e
     | Inr t \<Rightarrow> (case normalizeTokenBucketValue (last_refill_ms row) ''last_refill_ms'' of
           Inl e \<Rightarrow> Inl e
         | Inr l \<Rightarrow> Inr \<lparr>tokens = t, lastRefill = l\<rparr>))"

definition postgres_check :: "string \<Rightarrow> check_options \<Rightarrow> TokenBucketRow list \<Rightarrow>
    RateLimitResult result \<times> TokenBucketRow list" where
  "postgres_check bucketKey options rows =
    (case insert_bucket bucketKey (maxRequests options) (check_now options) rows of
       Inl e \<Rightarrow> (Inl e, rows)
     | Inr rows1 \<Rightarrow>
        (case filter (\<lambda>r. bucket_key r = bucketKey) rows1 of
           [] \<Rightarrow> (Inl (Error (''Rate limiter bucket \"'' @ bucketKey @ ''\" was not found after initialization.'')), rows)
         | row # _ \<Rightarrow>
            (case read_bucket row of
               Inl e \<Rightarrow> (Inl e, rows)
             | Inr bucket \<Rightarrow>
                (case computeRateLimitResult (Some bucket) (maxRequests options) (windowMs options)
                    (check_now options) of (nextBucket, r) \<Rightarrow>
                  (case update_bucket bucketKey nextBucket rows1 of
                     Inl e \<Rightarrow> (Inl e, rows)
                   | Inr rows2 \<Rightarrow> (Inr r, rows2))))))"

section \<open>StoreBackedRateLimiter\<close>

record TierPolicy =
  policy_max :: int
  policy_window :: millis

definition DEFAULT_TIER_POLICIES :: "(string, TierPolicy) js_map" where
  "DEFAULT_TIER_POLICIES =
    [(''free'', \<lparr>policy_max = 100, policy_window = 60000\<rparr>),
     (''pro'', \<lparr>policy_max = 500, policy_window = 60000\<rparr>),
     (''enterprise'', \<lparr>policy_max = 5000, policy_window = 60000\<rparr>)]"

definition normalizePositiveInteger :: "int \<Rightarrow> string \<Rightarrow> int result" where
  "normalizePositiveInteger n label =
    (if n \<le> 0 then Inl (Error (label @ '' must be a positive integer.'')) else Inr n)"

definition buildLimiterOptions :: "int \<Rightarrow> millis \<Rightarrow> check_options result" where
  "buildLimiterOptions m w = (case normalizePositiveInteger m ''maxRequests'' of
       Inl e \<Rightarrow> Inl e
     | Inr m' \<Rightarrow> (case normalizePositiveInteger w ''windowMs'' of
           Inl e \<Rightarrow> Inl e
         | Inr w' \<Rightarrow> Inr \<lparr>maxRequests = m', check_now = 0, windowMs = w'\<rparr>))"

record store_backed =
  base_max :: int
  base_window :: millis
  tierPolicies :: "(string, TierPolicy) js_map"

definition new_store_backed :: "int \<Rightarrow> millis \<Rightarrow> (string, TierPolicy) js_map \<Rightarrow> store_backed result" where
  "new_store_backed m w tiers = (case buildLimiterOptions m w of
       Inl e \<Rightarrow> Inl e
     | Inr base \<Rightarrow> Inr \<lparr>base_max = maxRequests base, base_window = windowMs base,
         tierPolicies = fold (\<lambda>(t, p) acc. map_set t p acc) tiers DEFAULT_TIER_POLICIES\<rparr>)"

text \<open>\<open>tier in this.tierPolicies\<close> also holds for the names every object inherits; for these the
  looked-up policy has no numbers, which is the outcome \<open>None\<close>.\<close>

definition inherited_names :: "string list" where
  "inherited_names = [''constructor'', ''toString'', ''toLocaleString'', ''valueOf'', ''hasOwnProperty'',
     ''isPrototypeOf'', ''propertyIsEnumerable'', ''__proto__'', ''__defineGetter__'',
     ''__defineSetter__'', ''__lookupGetter__'', ''__lookupSetter__'']"

definition resolvePolicy :: "string option \<Rightarrow> store_backed \<Rightarrow> TierPolicy option" where
  "resolvePolicy tier l =
    (let base = Some \<lparr>policy_max = base_max l, policy_window = base_window l\<rparr> in
     case tier of None \<Rightarrow> base
     | Some t \<Rightarrow> if t = [] then base
         else (case map_get (tierPolicies l) t of
             Some p \<Rightarrow> Some p
           | None \<Rightarrow> if t \<in> set inherited_names then None else base))"

definition limiter_check :: "(string \<Rightarrow> check_options \<Rightarrow> 's \<Rightarrow> RateLimitResult result \<times> 's) \<Rightarrow>
    store_backed \<Rightarrow> millis \<Rightarrow> string \<Rightarrow> string option \<Rightarrow> 's \<Rightarrow> (RateLimitResult result \<times> 's) option" where
  "limiter_check store_check l now apiKey tier s = (case resolvePolicy tier l of
       None \<Rightarrow> None
     | Some p \<Rightarrow> Some (store_check apiKey
         \<lparr>maxRequests = policy_max p, check_now = now, windowMs = policy_window p\<rparr> s))"

section \<open>Configuration\<close>

definition is_table_char :: "char \<Rightarrow> bool" where
  "is_table_char c \<longleftrightarrow> is_digit c \<or> c = CHR ''_'' \<or>
     (97 \<le> (of_char c :: nat) \<and> (of_char c :: nat) \<le> 122) \<or> (65 \<le> (of_char c :: nat) \<and> (of_char c :: nat) \<le> 90)"

definition assertSafeTableName :: "string \<Rightarrow> string result" where
  "assertSafeTableName t = (case t of
       [] \<Rightarrow> Inl (Error ''Rate limiter tableName must contain only letters, numbers, and underscores.'')
     | c # cs \<Rightarrow> if is_table_char c \<and> \<not> is_digit c \<and> list_all is_table_char cs then Inr t
         else Inl (Error ''Rate limiter tableName must contain only letters, numbers, and underscores.''))"

datatype store_kind = MemoryStore | PostgresStore string

record RateLimiterConfig =
  cfg_store :: store_kind
  cfg_max :: "int option"
  cfg_window :: "millis option"
  cfg_tiers :: "(string, TierPolicy) js_map"

record AppRateLimiterConfig =
  app_max :: int
  app_window :: millis
  app_store :: string
  postgresTable :: string

definition resolveRateLimiterConfig :: "AppRateLimiterConfig \<Rightarrow> RateLimiterConfig" where
  "resolveRateLimiterConfig c =
    (if app_store c = ''postgres''
     then \<lparr>cfg_store = PostgresStore (postgresTable c), cfg_max = Some (app_max c),
           cfg_window = Some (app_window c), cfg_tiers = []\<rparr>
     else \<lparr>cfg_store = MemoryStore, cfg_max = Some (app_max c),
           cfg_window = Some (app_window c), cfg_tiers = []\<rparr>)"

definition createConfiguredRateLimiter :: "RateLimiterConfig \<Rightarrow> bool \<Rightarrow> (store_kind \<times> store_backed) result" where
  "createConfiguredRateLimiter c has_pool =
    (let m = (case cfg_max c of None \<Rightarrow> 100 | Some m \<Rightarrow> m);
         w = (case cfg_window c of None \<Rightarrow> 60000 | Some w \<Rightarrow> w) in
     case cfg_store c of
       PostgresStore table \<Rightarrow>
         if \<not> has_pool
         then Inl (Error ''A PostgreSQL pool is required when RATE_LIMIT_STORE is set to \"postgres\".'')
         else (case assertSafeTableName table of
             Inl e \<Rightarrow> Inl e
           | Inr t \<Rightarrow> (case new_store_backed m w (cfg_tiers c) of
                 Inl e \<Rightarrow> Inl e | Inr l \<Rightarrow> Inr (PostgresStore t, l)))
     | MemoryStore \<Rightarrow> (case new_store_backed m w (cfg_tiers c) of
           Inl e \<Rightarrow> Inl e | Inr l \<Rightarrow> Inr (MemoryStore, l)))"

section \<open>Limiters of the middleware\<close>

definition window_check :: "millis \<Rightarrow> int \<Rightarrow> string \<Rightarrow> millis \<Rightarrow> bucket_store \<Rightarrow>
    RateLimitResult \<times> bucket_store" where
  "window_check window_ms max_requests key now buckets =
    (case computeTokenBucketResult (map_get buckets key) max_requests window_ms now of
       (bucket, r) \<Rightarrow> (r, map_set key bucket buckets))"

record TokenBucketState =
  level :: rat
  refilledAt :: millis

definition token_check :: "rat \<Rightarrow> rat \<Rightarrow> string \<Rightarrow> millis \<Rightarrow> (string, TokenBucketState) js_map \<Rightarrow>
    RateLimitResult \<times> (string, TokenBucketState) js_map" where
  "token_check capacity refillRate key now buckets = (case map_get buckets key of
       None \<Rightarrow> (allow, map_set key \<lparr>level = capacity - 1, refilledAt = now\<rparr> buckets)
     | Some bucket \<Rightarrow>
        (let elapsedMs = now - refilledAt bucket;
             bucket = (if elapsedMs > 0
               then bucket\<lparr>level := min capacity (level bucket + of_int elapsedMs / 1000 * refillRate),
                           refilledAt := now\<rparr>
               else bucket) in
         if level bucket \<ge> 1
         then (allow, map_set key (bucket\<lparr>level := level bucket - 1\<rparr>) buckets)
         else (deny \<lceil>1000 / refillRate * (1 - level bucket)\<rceil>, map_set key bucket buckets)))"

record limited_request =
  req_userId :: "string option"
  req_apiKeyUser :: "string option"
  req_clientIp :: string

definition truthy :: "string option \<Rightarrow> string option" where
  "truthy v = (case v of None \<Rightarrow> None | Some s \<Rightarrow> if s = [] then None else Some s)"

definition getRateLimitKey :: "limited_request \<Rightarrow> string" where
  "getRateLimitKey req = (case truthy (req_userId req) of
       Some u \<Rightarrow> ''user:'' @ u
     | None \<Rightarrow> ''ip:'' @ req_clientIp req)"

definition proxy_key :: "limited_request \<Rightarrow> string" where
  "proxy_key req = (case truthy (req_apiKeyUser req) of
       Some u \<Rightarrow> ''user:'' @ u
     | None \<Rightarrow> (case truthy (req_userId req) of
           Some u \<Rightarrow> ''user:'' @ u
         | None \<Rightarrow> ''ip:'' @ req_clientIp req))"

datatype middleware_outcome =
    Next
  | Send429 int millis
  | NextError int error

definition retryAfterSeconds :: "millis \<Rightarrow> int" where
  "retryAfterSeconds ms = max 1 \<lceil>of_int ms / (1000 :: rat)\<rceil>"

definition delegate_429 :: "millis \<Rightarrow> RateLimitResult \<Rightarrow> middleware_outcome" where
  "delegate_429 fallback r =
    (if \<not> allowed r
     then (let ms = (case retryAfterMs r of None \<Rightarrow> fallback | Some ms \<Rightarrow> ms)
           in NextError (retryAfterSeconds ms) (TooManyRequestsError ''Too Many Requests'' ''TOO_MANY_REQUESTS''))
     else Next)"

definition rateLimitMiddleware :: "millis \<Rightarrow> int \<Rightarrow> limited_request \<Rightarrow> millis \<Rightarrow> bucket_store \<Rightarrow>
    middleware_outcome \<times> bucket_store" where
  "rateLimitMiddleware window_ms max_requests req now buckets =
    (case window_check window_ms max_requests (getRateLimitKey req) now buckets of
       (r, buckets') \<Rightarrow> (delegate_429 window_ms r, buckets'))"

definition billingRateLimitMiddleware :: "millis \<Rightarrow> int \<Rightarrow> limited_request \<Rightarrow> millis \<Rightarrow> bucket_store \<Rightarrow>
    middleware_outcome \<times> bucket_store" where
  "billingRateLimitMiddleware window_ms max_requests req now buckets =
    (case window_check window_ms max_requests (getRateLimitKey req) now buckets of
       (r, buckets') \<Rightarrow> (delegate_429 window_ms r, buckets'))"

definition tokenBucketRateLimitMiddleware :: "rat \<Rightarrow> rat \<Rightarrow> limited_request \<Rightarrow> millis \<Rightarrow>
    (string, TokenBucketState) js_map \<Rightarrow> middleware_outcome \<times> (string, TokenBucketState) js_map" where
  "tokenBucketRateLimitMiddleware capacity refillRate req now buckets =
    (case token_check capacity refillRate (getRateLimitKey req) now buckets of (r, buckets') \<Rightarrow>
      (if \<not> allowed r
       then (let ms = (case retryAfterMs r of None \<Rightarrow> 1000 | Some ms \<Rightarrow> ms)
             in Send429 (retryAfterSeconds ms) ms)
       else Next, buckets'))"

definition creditsRateLimitMiddleware :: "(rat \<times> rat) option \<Rightarrow> limited_request \<Rightarrow> millis \<Rightarrow>
    (string, TokenBucketState) js_map \<Rightarrow> middleware_outcome \<times> (string, TokenBucketState) js_map" where
  "creditsRateLimitMiddleware options = (case options of
       None \<Rightarrow> tokenBucketRateLimitMiddleware 10 1
     | Some (c, r) \<Rightarrow> tokenBucketRateLimitMiddleware c r)"

definition quotaRateLimitMiddleware :: "(rat \<times> rat) option \<Rightarrow> limited_request \<Rightarrow> millis \<Rightarrow>
    (string, TokenBucketState) js_map \<Rightarrow> middleware_outcome \<times> (string, TokenBucketState) js_map" where
  "quotaRateLimitMiddleware options req now buckets =
    (let (capacity, refillRate) = (case options of None \<Rightarrow> (60, 1) | Some o' \<Rightarrow> o') in
     case token_check capacity refillRate (getRateLimitKey req) now buckets of
       (r, buckets') \<Rightarrow> (delegate_429 1000 r, buckets'))"

definition proxyRateLimitMiddleware :: "(rat \<times> rat) option \<Rightarrow> limited_request \<Rightarrow> millis \<Rightarrow>
    (string, TokenBucketState) js_map \<Rightarrow> middleware_outcome \<times> (string, TokenBucketState) js_map" where
  "proxyRateLimitMiddleware options req now buckets =
    (let (capacity, refillRate) = (case options of None \<Rightarrow> (100, 10) | Some o' \<Rightarrow> o') in
     case token_check capacity refillRate (proxy_key req) now buckets of
       (r, buckets') \<Rightarrow> (delegate_429 1000 r, buckets'))"

section \<open>Runs of one window computation\<close>

primrec window_results :: "int \<Rightarrow> millis \<Rightarrow> TokenBucket option \<Rightarrow> millis list \<Rightarrow> RateLimitResult list" where
  "window_results m w b [] = []"
| "window_results m w b (t # ts) = (case computeRateLimitResult b m w t of
      (b', r) \<Rightarrow> r # window_results m w (Some b') ts)"

definition bucket_ok :: "int \<Rightarrow> TokenBucket option \<Rightarrow> bool" where
  "bucket_ok m b = (case b of None \<Rightarrow> True | Some b \<Rightarrow> 0 \<le> tokens b \<and> tokens b \<le> m)"

abbreviation allowed_count :: "RateLimitResult list \<Rightarrow> nat" where
  "allowed_count rs \<equiv> length (filter allowed rs)"

lemmas compute_defs = computeRateLimitResult_def Let_def

lemma compute_bucket_ok: "0 < m \<Longrightarrow> bucket_ok m b \<Longrightarrow> bucket_ok m (Some (fst (computeRateLimitResult b m w t)))"
  by (auto simp: bucket_ok_def compute_defs split: option.splits)

lemma compute_within:
  assumes "t - l < w"
  shows "computeRateLimitResult (Some \<lparr>tokens = n, lastRefill = l\<rparr>) m w t =
    (if n \<le> 0 then (\<lparr>tokens = n, lastRefill = l\<rparr>, deny (l + w - t))
     else (\<lparr>tokens = n - 1, lastRefill = l\<rparr>, allow))"
  using assms by (simp add: compute_defs)

lemma compute_refill:
  assumes "0 < m" "0 < w" "w \<le> t - l"
  shows "computeRateLimitResult (Some \<lparr>tokens = n, lastRefill = l\<rparr>) m w t =
    (\<lparr>tokens = m - 1, lastRefill = t\<rparr>, allow)"
  using assms by (simp add: compute_defs)

lemma compute_fresh:
  "0 < m \<Longrightarrow> 0 < w \<Longrightarrow> computeRateLimitResult None m w t = (\<lparr>tokens = m - 1, lastRefill = t\<rparr>, allow)"
  by (simp add: compute_defs)

lemma window_results_within:
  assumes "\<forall>t \<in> set ts. t - l < w" and "0 \<le> n"
  shows "window_results m w (Some \<lparr>tokens = n, lastRefill = l\<rparr>) ts =
    replicate (min (nat n) (length ts)) allow @ map (\<lambda>t. deny (l + w - t)) (drop (nat n) ts)"
  using assms
proof (induction ts arbitrary: n)
  case (Cons t ts)
  show ?case
  proof (cases "n = 0")
    case True
    with Cons show ?thesis by (simp add: compute_within)
  next
    case False
    with Cons.prems(2) obtain k where n: "n = int (Suc k)" by (metis Suc_pred zero_less_nat_eq int_nat_eq of_nat_0 order_le_less nat_0_le)
    have "window_results m w (Some \<lparr>tokens = int k, lastRefill = l\<rparr>) ts =
        replicate (min k (length ts)) allow @ map (\<lambda>t. deny (l + w - t)) (drop k ts)"
      using Cons.IH [of "int k"] Cons.prems(1) by simp
    with Cons.prems n show ?thesis by (simp add: compute_within nat_add_distrib)
  qed
qed simp

lemma window_results_fresh:
  assumes "0 < m" "0 < w" and "\<forall>t \<in> set ts. t - t0 < w"
  shows "window_results m w None (t0 # ts) =
    replicate (min (nat m) (Suc (length ts))) allow @ map (\<lambda>t. deny (t0 + w - t)) (drop (nat m) (t0 # ts))"
proof -
  obtain k where k: "nat m = Suc k" using assms(1) by (cases "nat m") auto
  then have "m - 1 = int k" by linarith
  with k window_results_within [of ts t0 w "int k" m] assms show ?thesis
    by (simp add: compute_fresh)
qed

lemma allowed_within:
  assumes "\<forall>t \<in> set ts. t - l < w" and "0 \<le> n"
  shows "int (allowed_count (window_results m w (Some \<lparr>tokens = n, lastRefill = l\<rparr>) ts)) \<le> n"
proof -
  have "filter allowed (map (\<lambda>t. deny (l + w - t)) us) = []" for us by (simp add: filter_empty_conv)
  with window_results_within [OF assms] assms(2) show ?thesis by simp
qed

text \<open>Within any stretch shorter than a window at most one refill happens, so at most the
  tokens left over from before and one full allowance are granted.\<close>

lemma allowed_sliding:
  assumes "0 < m" "0 < w" and "\<forall>t \<in> set ts. a \<le> t \<and> t < a + w" and "bucket_ok m (Some b)"
  shows "int (allowed_count (window_results m w (Some b) ts)) \<le> tokens b + m"
  using assms(3,4)
proof (induction ts arbitrary: b)
  case Nil
  with assms(1) show ?case by (simp add: bucket_ok_def)
next
  case (Cons t ts)
  obtain n l where b: "b = \<lparr>tokens = n, lastRefill = l\<rparr>" by (cases b)
  from Cons.prems b have n: "0 \<le> n" "n \<le> m" by (simp_all add: bucket_ok_def)
  show ?case
  proof (cases "t - l < w")
    case True
    have "bucket_ok m (Some \<lparr>tokens = n - 1, lastRefill = l\<rparr>)" if "0 < n"
      using n that by (simp add: bucket_ok_def)
    with Cons.IH [of "\<lparr>tokens = n - 1, lastRefill = l\<rparr>"] Cons.IH [of b] Cons.prems True b n
    show ?thesis by (cases "n = 0") (simp_all add: compute_within)
  next
    case False
    from Cons.prems(1) have "\<forall>u \<in> set ts. u - t < w" by auto
    from allowed_within [OF this, of "m - 1" m] assms(1,2) b n False
    show ?thesis by (simp add: compute_refill not_less)
  qed
qed

lemma allowed_sliding_any:
  assumes "0 < m" "0 < w" and "\<forall>t \<in> set ts. a \<le> t \<and> t < a + w" and "bucket_ok m b"
  shows "int (allowed_count (window_results m w b ts)) \<le> 2 * m"
proof (cases b)
  case (Some b')
  with allowed_sliding [OF assms(1-3), of b'] assms(4) show ?thesis by (simp add: bucket_ok_def)
next
  case None
  show ?thesis
  proof (cases ts)
    case (Cons t us)
    have "int (allowed_count (window_results m w (Some \<lparr>tokens = m - 1, lastRefill = t\<rparr>) us)) \<le> (m - 1) + m"
      using allowed_sliding [of m w us a "\<lparr>tokens = m - 1, lastRefill = t\<rparr>"] assms Cons
      by (simp add: bucket_ok_def)
    with None Cons assms(1,2) show ?thesis by (simp add: compute_fresh)
  qed (use assms(1) in simp)
qed

section \<open>The contract of a window store\<close>

primrec run_checks :: "(string \<Rightarrow> check_options \<Rightarrow> 's \<Rightarrow> RateLimitResult result \<times> 's) \<Rightarrow> string \<Rightarrow> int \<Rightarrow>
    millis \<Rightarrow> millis list \<Rightarrow> 's \<Rightarrow> RateLimitResult result list \<times> 's" where
  "run_checks check k m w [] s = ([], s)"
| "run_checks check k m w (t # ts) s =
    (case check k \<lparr>maxRequests = m, check_now = t, windowMs = w\<rparr> s of (r, s1) \<Rightarrow>
      (case run_checks check k m w ts s1 of (rs, s2) \<Rightarrow> (r # rs, s2)))"

definition valid_options :: "check_options \<Rightarrow> bool" where
  "valid_options o' \<longleftrightarrow> 0 < maxRequests o' \<and> 0 < windowMs o' \<and> 0 \<le> check_now o'"

abbreviation next_bucket :: "TokenBucket option \<Rightarrow> check_options \<Rightarrow> TokenBucket \<times> RateLimitResult" where
  "next_bucket b opts \<equiv> computeRateLimitResult b (maxRequests opts) (windowMs opts) (check_now opts)"

locale window_store =
  fixes check :: "string \<Rightarrow> check_options \<Rightarrow> 's \<Rightarrow> RateLimitResult result \<times> 's"
    and bucket :: "'s \<Rightarrow> string \<Rightarrow> TokenBucket option"
    and invar :: "'s \<Rightarrow> bool"
  assumes check_law: "invar s \<Longrightarrow> valid_options opts \<Longrightarrow>
    \<exists>s'. check k opts s = (Inr (snd (next_bucket (bucket s k) opts)), s') \<and> invar s' \<and>
      bucket s' = (bucket s)(k \<mapsto> fst (next_bucket (bucket s k) opts))"
begin

lemma run_law:
  assumes "invar s" and "0 < m" and "0 < w" and "\<forall>t \<in> set ts. 0 \<le> t"
  shows "\<exists>s'. run_checks check k m w ts s = (map Inr (window_results m w (bucket s k) ts), s') \<and> invar s' \<and>
    (\<forall>k'. k' \<noteq> k \<longrightarrow> bucket s' k' = bucket s k') \<and> (bucket_ok m (bucket s k) \<longrightarrow> bucket_ok m (bucket s' k))"
  using assms(1,4)
proof (induction ts arbitrary: s)
  case (Cons t ts)
  let ?o = "\<lparr>maxRequests = m, check_now = t, windowMs = w\<rparr>"
  from check_law [OF Cons.prems(1), of ?o k] Cons.prems assms(2,3) obtain s1
    where s1: "check k ?o s = (Inr (snd (next_bucket (bucket s k) ?o)), s1)" "invar s1"
      "bucket s1 = (bucket s)(k \<mapsto> fst (next_bucket (bucket s k) ?o))"
    by (auto simp: valid_options_def)
  from Cons.IH [OF s1(2)] Cons.prems(2) obtain s2
    where "run_checks check k m w ts s1 = (map Inr (window_results m w (bucket s1 k) ts), s2)" "invar s2"
      "\<forall>k'. k' \<noteq> k \<longrightarrow> bucket s2 k' = bucket s1 k'" "bucket_ok m (bucket s1 k) \<longrightarrow> bucket_ok m (bucket s2 k)"
    by auto
  with s1 compute_bucket_ok [OF assms(2), of "bucket s k" w t] show ?case by (auto simp: split_beta)
qed simp

lemma first_window:
  assumes "invar s" and "bucket s k = None" and "0 < m" and "0 < w"
    and "\<forall>t \<in> set (t0 # ts). 0 \<le> t \<and> t - t0 < w"
  shows "fst (run_checks check k m w (t0 # ts) s) =
    map Inr (replicate (min (nat m) (Suc (length ts))) allow @ map (\<lambda>t. deny (t0 + w - t)) (drop (nat m) (t0 # ts)))"
  using run_law [of s m w "t0 # ts" k] window_results_fresh [of m w ts t0] assms
  by (auto simp del: window_results.simps run_checks.simps)

lemma sliding_window:
  assumes "invar s" and "bucket s k = None" and "0 < m" and "0 < w"
    and "\<forall>t \<in> set before. 0 \<le> t" and "\<forall>t \<in> set ts. 0 \<le> t \<and> a \<le> t \<and> t < a + w"
  shows "int (length (filter (\<lambda>r. \<exists>x. r = Inr x \<and> allowed x)
    (fst (run_checks check k m w ts (snd (run_checks check k m w before s)))))) \<le> 2 * m"
proof -
  from run_law [OF assms(1,3,4,5), of k] assms(2) obtain s1
    where s1: "snd (run_checks check k m w before s) = s1" "invar s1" "bucket_ok m (bucket s1 k)"
    by (auto simp: bucket_ok_def)
  from assms(6) have "int (allowed_count (window_results m w (bucket s1 k) ts)) \<le> 2 * m"
    by (intro allowed_sliding_any [OF assms(3,4) _ s1(3), of ts a]) auto
  with s1(1) run_law [OF s1(2) assms(3,4), of ts k] assms(6)
  show ?thesis by (auto simp: filter_map o_def)
qed

end

section \<open>The three stores implement the contract\<close>

definition pg_bucket :: "TokenBucketRow list \<Rightarrow> string \<Rightarrow> TokenBucket option" where
  "pg_bucket rows k = (case filter (\<lambda>r. bucket_key r = k) rows of
       [] \<Rightarrow> None
     | r # _ \<Rightarrow> (case read_bucket r of Inl _ \<Rightarrow> None | Inr b \<Rightarrow> Some b))"

definition rows_ok :: "TokenBucketRow list \<Rightarrow> bool" where
  "rows_ok rows \<longleftrightarrow> (\<forall>r \<in> set rows. \<exists>b. read_bucket r = Inr b)"

definition mw_check :: "string \<Rightarrow> check_options \<Rightarrow> bucket_store \<Rightarrow> RateLimitResult result \<times> bucket_store" where
  "mw_check k opts s = (case window_check (windowMs opts) (maxRequests opts) k (check_now opts) s of
     (r, s') \<Rightarrow> (Inr r, s'))"

interpretation mem: window_store memory_check map_of "\<lambda>_. True"
  by unfold_locales (simp add: memory_check_def split_beta update_conv')

lemma token_result_eq:
  assumes "0 < m" and "0 < w"
  shows "computeTokenBucketResult b m w t = computeRateLimitResult b m w t"
proof (cases b)
  case None
  with assms show ?thesis by (simp add: computeTokenBucketResult_def compute_fresh)
next
  case (Some b')
  obtain n l where "b' = \<lparr>tokens = n, lastRefill = l\<rparr>" by (cases b')
  with Some assms show ?thesis
    by (cases "t - l < w") (auto simp: computeTokenBucketResult_def compute_within compute_refill Let_def)
qed

interpretation mw: window_store mw_check map_of "\<lambda>_. True"
  by unfold_locales
    (simp add: mw_check_def window_check_def split_beta token_result_eq valid_options_def update_conv')

lemma trim_digits: "list_all is_digit s \<Longrightarrow> trim s = s"
proof (cases "s = []")
  case False
  assume "list_all is_digit s"
  with False show ?thesis by (intro trim_id) (auto simp: list_all_iff is_digit_not_space)
qed (simp add: trim_def)

lemma read_stored_row:
  assumes "0 \<le> n" and "0 \<le> l"
  shows "read_bucket \<lparr>bucket_key = k, row_tokens = StoredNumber n, last_refill_ms = StoredString (show_int l)\<rparr> =
    Inr \<lparr>tokens = n, lastRefill = l\<rparr>"
  using assms by (simp add: read_bucket_def show_int_def trim_digits [OF show_nat_digits] show_nat_digits)

lemma read_bucket_nonneg:
  assumes "read_bucket r = Inr b"
  shows "0 \<le> tokens b \<and> 0 \<le> lastRefill b"
  using assms
  by (cases "row_tokens r"; cases "last_refill_ms r") (auto simp: read_bucket_def split: if_splits)

lemma compute_nonneg:
  assumes "0 \<le> tokens b" "0 \<le> lastRefill b" "valid_options opts"
  shows "0 \<le> tokens (fst (next_bucket (Some b) opts)) \<and> 0 \<le> lastRefill (fst (next_bucket (Some b) opts))"
  using assms by (auto simp: compute_defs valid_options_def)

lemma filter_bucket_update:
  "bucket_key row = k \<Longrightarrow> filter (\<lambda>r. bucket_key r = k') (map (\<lambda>r. if bucket_key r = k then row else r) rows) =
   (if k' = k then map (\<lambda>_. row) (filter (\<lambda>r. bucket_key r = k) rows) else filter (\<lambda>r. bucket_key r = k') rows)"
  by (induction rows) auto

lemma update_bucket_law:
  assumes "rows_ok rows" and "filter (\<lambda>r. bucket_key r = k) rows = r # rs" and "0 \<le> tokens b" and "0 \<le> lastRefill b"
  shows "\<exists>rows'. update_bucket k b rows = Inr rows' \<and> rows_ok rows' \<and> pg_bucket rows' = (pg_bucket rows)(k \<mapsto> b)"
proof -
  let ?row = "\<lparr>bucket_key = k, row_tokens = StoredNumber (tokens b),
    last_refill_ms = StoredString (show_int (lastRefill b))\<rparr>"
  let ?rows = "map (\<lambda>r. if bucket_key r = k then ?row else r) rows"
  note rd = read_stored_row [OF assms(3,4), of k]
  have "rows_ok ?rows" using assms(1) rd by (auto simp: rows_ok_def)
  moreover have "pg_bucket ?rows = (pg_bucket rows)(k \<mapsto> b)"
    using assms(2) rd by (simp add: fun_eq_iff pg_bucket_def filter_bucket_update)
  ultimately show ?thesis using assms(3,4) by (simp add: update_bucket_def violates_check_def)
qed

lemma insert_bucket_law:
  assumes "rows_ok rows" and "valid_options opts"
  obtains rows1 r rs b where "insert_bucket k (maxRequests opts) (check_now opts) rows = Inr rows1" "rows_ok rows1"
    "filter (\<lambda>r. bucket_key r = k) rows1 = r # rs" "read_bucket r = Inr b"
    "next_bucket (Some b) opts = next_bucket (pg_bucket rows k) opts"
    "\<forall>k'. k' \<noteq> k \<longrightarrow> pg_bucket rows1 k' = pg_bucket rows k'"
proof (cases "filter (\<lambda>r. bucket_key r = k) rows")
  case (Cons r rs)
  then have m: "\<exists>r \<in> set rows. bucket_key r = k" and "r \<in> set rows"
    by (auto simp: filter_eq_Cons_iff)
  with assms(1) obtain b where b: "read_bucket r = Inr b" by (auto simp: rows_ok_def)
  show ?thesis
    by (rule that [of rows r rs b])
      (use Cons m b assms in \<open>auto simp: insert_bucket_def violates_check_def valid_options_def pg_bucket_def\<close>)
next
  case Nil
  let ?row = "\<lparr>bucket_key = k, row_tokens = StoredNumber (maxRequests opts),
    last_refill_ms = StoredString (show_int (check_now opts))\<rparr>"
  let ?b = "\<lparr>tokens = maxRequests opts, lastRefill = check_now opts\<rparr>"
  have rd: "read_bucket ?row = Inr ?b"
    using assms(2) by (intro read_stored_row) (simp_all add: valid_options_def)
  from Nil have nk: "\<not> (\<exists>r \<in> set rows. bucket_key r = k)" by (auto simp: filter_empty_conv)
  show ?thesis
    by (rule that [of "rows @ [?row]" ?row "[]" ?b])
      (use Nil nk rd assms in \<open>auto simp: insert_bucket_def violates_check_def valid_options_def rows_ok_def
        pg_bucket_def compute_defs\<close>)
qed

interpretation pg: window_store postgres_check pg_bucket rows_ok
proof unfold_locales
  fix rows opts k assume ok: "rows_ok rows" and v: "valid_options opts"
  obtain rows1 r rs b where ins: "insert_bucket k (maxRequests opts) (check_now opts) rows = Inr rows1"
    "rows_ok rows1" "filter (\<lambda>r. bucket_key r = k) rows1 = r # rs" "read_bucket r = Inr b"
    "next_bucket (Some b) opts = next_bucket (pg_bucket rows k) opts"
    "\<forall>k'. k' \<noteq> k \<longrightarrow> pg_bucket rows1 k' = pg_bucket rows k'"
    by (rule insert_bucket_law [OF ok v, of k])
  from read_bucket_nonneg [OF ins(4)] compute_nonneg [OF _ _ v, of b] ins(5)
  have "0 \<le> tokens (fst (next_bucket (pg_bucket rows k) opts))"
    "0 \<le> lastRefill (fst (next_bucket (pg_bucket rows k) opts))" by auto
  from update_bucket_law [OF ins(2,3) this] obtain rows2
    where "update_bucket k (fst (next_bucket (pg_bucket rows k) opts)) rows1 = Inr rows2" "rows_ok rows2"
      "pg_bucket rows2 = (pg_bucket rows1)(k \<mapsto> fst (next_bucket (pg_bucket rows k) opts))" by blast
  with ins show "\<exists>s'. postgres_check k opts rows = (Inr (snd (next_bucket (pg_bucket rows k) opts)), s') \<and>
      rows_ok s' \<and> pg_bucket s' = (pg_bucket rows)(k \<mapsto> fst (next_bucket (pg_bucket rows k) opts))"
    by (auto simp: postgres_check_def split_beta fun_eq_iff)
qed

section \<open>The refilling token bucket\<close>

definition bucket_level :: "rat \<Rightarrow> string \<Rightarrow> (string, TokenBucketState) js_map \<Rightarrow> rat" where
  "bucket_level capacity k s = (case map_get s k of None \<Rightarrow> capacity | Some b \<Rightarrow> level b)"

definition token_inv :: "rat \<Rightarrow> string \<Rightarrow> (string, TokenBucketState) js_map \<Rightarrow> bool" where
  "token_inv capacity k s \<longleftrightarrow> 0 \<le> bucket_level capacity k s \<and> bucket_level capacity k s \<le> capacity"

primrec run_tokens :: "rat \<Rightarrow> rat \<Rightarrow> string \<Rightarrow> millis list \<Rightarrow> (string, TokenBucketState) js_map \<Rightarrow>
    RateLimitResult list \<times> (string, TokenBucketState) js_map" where
  "run_tokens c r k [] s = ([], s)"
| "run_tokens c r k (t # ts) s = (case token_check c r k t s of (x, s1) \<Rightarrow>
    (case run_tokens c r k ts s1 of (xs, s2) \<Rightarrow> (x # xs, s2)))"

lemma token_check_inv:
  assumes "1 \<le> c" and "0 < r" and "token_inv c k s"
  shows "token_inv c k (snd (token_check c r k t s))"
proof (cases "map_get s k")
  case (Some b)
  have "0 \<le> min c (level b + of_int (t - refilledAt b) / 1000 * r)" if "refilledAt b < t"
    using assms Some that by (simp add: token_inv_def bucket_level_def)
  with assms Some show ?thesis
    by (auto simp: token_check_def token_inv_def bucket_level_def jsmap Let_def)
qed (use assms in \<open>simp add: token_check_def token_inv_def bucket_level_def jsmap\<close>)

text \<open>Each grant spends one token; between checks at most the elapsed time is refilled.\<close>

lemma token_check_budget:
  assumes "0 < r" and "map_get s k = Some b" and "refilledAt b \<le> u" and "t \<le> u"
  shows "\<exists>b'. map_get (snd (token_check c r k t s)) k = Some b' \<and> refilledAt b' \<le> u \<and>
    (if allowed (fst (token_check c r k t s)) then 1 else 0) + level b' + of_int (u - refilledAt b') / 1000 * r \<le>
    level b + of_int (u - refilledAt b) / 1000 * r"
proof (cases "refilledAt b < t")
  case True
  have "min c (level b + of_int (t - refilledAt b) / 1000 * r) + of_int (u - t) / 1000 * r \<le>
      level b + of_int (u - refilledAt b) / 1000 * r"
    by (simp add: field_simps min_def)
  with True assms show ?thesis by (simp add: token_check_def jsmap Let_def)
next
  case False
  with assms show ?thesis by (simp add: token_check_def jsmap Let_def)
qed

lemma run_tokens_budget:
  assumes "0 < r" and "map_get s k = Some b" and "refilledAt b \<le> u" and "\<forall>t \<in> set ts. t \<le> u"
    and "token_inv c k s" and "1 \<le> c"
  shows "of_nat (allowed_count (fst (run_tokens c r k ts s))) \<le> level b + of_int (u - refilledAt b) / 1000 * r"
  using assms(2-5)
proof (induction ts arbitrary: s b)
  case Nil
  with assms(1) show ?case by (simp add: token_inv_def bucket_level_def)
next
  case (Cons t ts)
  let ?c = "token_check c r k t s"
  from token_check_budget [OF assms(1) Cons.prems(1,2), of t c] Cons.prems(3) obtain b'
    where b': "map_get (snd ?c) k = Some b'" "refilledAt b' \<le> u"
      "(if allowed (fst ?c) then 1 else 0) + level b' + of_int (u - refilledAt b') / 1000 * r \<le>
       level b + of_int (u - refilledAt b) / 1000 * r" by auto
  from Cons.IH [OF b'(1,2)] Cons.prems(3,4) token_check_inv [OF assms(6,1)]
  have "of_nat (allowed_count (fst (run_tokens c r k ts (snd ?c)))) \<le> level b' + of_int (u - refilledAt b') / 1000 * r"
    by auto
  with b'(3) show ?case by (cases "allowed (fst ?c)") (simp_all add: split_beta)
qed

lemma run_tokens_inv: "1 \<le> c \<Longrightarrow> 0 < r \<Longrightarrow> token_inv c k s \<Longrightarrow> token_inv c k (snd (run_tokens c r k ts s))"
  by (induction ts arbitrary: s) (auto simp: split_beta token_check_inv)

lemma retry_seconds: "1 \<le> retryAfterSeconds ms \<and> ms \<le> 1000 * retryAfterSeconds ms"
proof -
  have "of_int ms / (1000 :: rat) \<le> of_int \<lceil>of_int ms / (1000 :: rat)\<rceil>" by (rule le_of_int_ceiling)
  then have "ms \<le> 1000 * \<lceil>of_int ms / (1000 :: rat)\<rceil>" by (simp add: field_simps) linarith
  then show ?thesis by (simp add: retryAfterSeconds_def max_def)
qed

section \<open>Properties\<close>

text \<open>C20. Fixed window: for a key without a bucket, whatever the positive policy, the first
  \<open>maxRequests\<close> requests that arrive within one window of the first one are allowed and
  every further one is denied with the exact time left until the window ends; the in-memory
  store, the Postgres store and the middleware limiter all answer so.\<close>

theorem fixed_window_exact:
  assumes "0 < m" and "0 < w" and "\<forall>t \<in> set (t0 # ts). 0 \<le> t \<and> t - t0 < w"
    and "map_get buckets k = None" and "rows_ok rows" and "pg_bucket rows k = None"
  shows "let answers = map Inr (replicate (min (nat m) (Suc (length ts))) allow @
       map (\<lambda>t. deny (t0 + w - t)) (drop (nat m) (t0 # ts))) in
    fst (run_checks memory_check k m w (t0 # ts) buckets) = answers \<and>
    fst (run_checks postgres_check k m w (t0 # ts) rows) = answers \<and>
    fst (run_checks mw_check k m w (t0 # ts) buckets) = answers"
  using mem.first_window [OF _ assms(4,1,2,3)] pg.first_window [OF assms(5,6,1,2,3)]
    mw.first_window [OF _ assms(4,1,2,3)]
  by (simp only: Let_def)

theorem fixed_window_exact_witness:
  "fst (run_checks postgres_check ''k'' 2 60000 [1000, 2000, 3000] []) =
     [Inr allow, Inr allow, Inr (deny 58000)]"
  using fixed_window_exact [of 2 60000 1000 "[2000, 3000]" "[]" "''k''" "[]"]
  by (simp add: rows_ok_def pg_bucket_def Let_def numeral_2_eq_2 del: run_checks.simps)

text \<open>C21. Sliding bound: after any history of requests, the requests of one key in any stretch
  of time shorter than a window are allowed at most \<open>2 * maxRequests\<close> times, with the
  in-memory and with the Postgres store.\<close>

theorem sliding_window_bound:
  assumes "0 < m" and "0 < w" and "\<forall>t \<in> set before. 0 \<le> t"
    and "\<forall>t \<in> set ts. 0 \<le> t \<and> a \<le> t \<and> t < a + w"
  shows "int (length (filter (\<lambda>r. \<exists>x. r = Inr x \<and> allowed x)
      (fst (run_checks memory_check k m w ts (snd (run_checks memory_check k m w before [])))))) \<le> 2 * m \<and>
    int (length (filter (\<lambda>r. \<exists>x. r = Inr x \<and> allowed x)
      (fst (run_checks postgres_check k m w ts (snd (run_checks postgres_check k m w before [])))))) \<le> 2 * m"
  using mem.sliding_window [OF _ _ assms, of "[]" k] pg.sliding_window [OF _ _ assms, of "[]" k]
  by (simp add: rows_ok_def pg_bucket_def)

theorem sliding_window_bound_witness:
  "int (length (filter (\<lambda>r. \<exists>x. r = Inr x \<and> allowed x)
     (fst (run_checks memory_check ''k'' 1 10 [9, 10, 11] (snd (run_checks memory_check ''k'' 1 10 [0] [])))))) \<le> 2"
  using sliding_window_bound [of 1 10 "[0]" "[9, 10, 11]" 9 "''k''"] by (simp del: run_checks.simps)

text \<open>The Postgres check refines the in-memory check: on a readable table it never fails,
  it answers what the in-memory store answers on the buckets the table stands for, and the
  table then stands for the buckets of the in-memory store after the call.\<close>

theorem postgres_check_refines_memory:
  assumes "rows_ok rows" and "map_of buckets = pg_bucket rows" and "valid_options opts"
  shows "\<exists>r buckets' rows'. memory_check k opts buckets = (Inr r, buckets') \<and>
    postgres_check k opts rows = (Inr r, rows') \<and> rows_ok rows' \<and> map_of buckets' = pg_bucket rows'"
  using pg.check_law [OF assms(1,3), of k] mem.check_law [OF TrueI assms(3), of k buckets] assms(2) by auto

theorem postgres_check_refines_memory_witness:
  "\<exists>r buckets' rows'. memory_check ''k'' \<lparr>maxRequests = 1, check_now = 5, windowMs = 10\<rparr> [] = (Inr r, buckets') \<and>
    postgres_check ''k'' \<lparr>maxRequests = 1, check_now = 5, windowMs = 10\<rparr> [] = (Inr r, rows') \<and>
    rows_ok rows' \<and> map_of buckets' = pg_bucket rows'"
  using postgres_check_refines_memory [of "[]" "[]" "\<lparr>maxRequests = 1, check_now = 5, windowMs = 10\<rparr>" "''k''"]
  by (simp add: rows_ok_def pg_bucket_def fun_eq_iff valid_options_def)

text \<open>Token bucket: with a capacity of at least one and a positive refill rate, the level
  of a key always stays between zero and the capacity, and in a run of requests that starts
  with a fresh key at \<open>t0\<close> and ends by \<open>u\<close> at most \<open>capacity + rate * (u - t0) / 1000\<close>
  requests are allowed.\<close>

theorem token_bucket_budget:
  assumes "1 \<le> c" and "0 < r" and "map_get s k = None" and "t0 \<le> u" and "\<forall>t \<in> set ts. t \<le> u"
  shows "of_nat (allowed_count (fst (run_tokens c r k (t0 # ts) s))) \<le> c + of_int (u - t0) / 1000 * r \<and>
    token_inv c k (snd (run_tokens c r k (t0 # ts) s))"
proof -
  let ?s = "map_set k \<lparr>level = c - 1, refilledAt = t0\<rparr> s"
  have inv: "token_inv c k ?s" "token_inv c k s"
    using assms by (simp_all add: token_inv_def bucket_level_def jsmap)
  have "of_nat (allowed_count (fst (run_tokens c r k ts ?s))) \<le> (c - 1) + of_int (u - t0) / 1000 * r"
    using run_tokens_budget [OF assms(2) _ _ assms(5) inv(1) assms(1), of "\<lparr>level = c - 1, refilledAt = t0\<rparr>"]
      assms(4) by (simp add: jsmap)
  then show ?thesis using assms(3) run_tokens_inv [OF assms(1,2) inv(1), of ts]
    by (simp add: split_beta token_check_def)
qed

theorem token_bucket_budget_witness:
  "of_nat (allowed_count (fst (run_tokens 10 1 ''u'' [0, 500, 1000] []))) \<le> (11 :: rat)"
  using token_bucket_budget [of 10 1 "[]" "''u''" 0 1000 "[500, 1000]"] by (simp del: run_tokens.simps)

text \<open>The wait a limiter announces is exact: when the token bucket denies a request with
  \<open>retryAfterMs = ms\<close>, then \<open>ms\<close> is positive, a next request after \<open>ms\<close> milliseconds or more is
  allowed, and one after fewer milliseconds is denied. The \<open>Retry-After\<close> header in seconds
  is at least one and never shorter than \<open>ms\<close>.\<close>

theorem token_retry_after_exact:
  assumes "1 \<le> c" and "0 < r" and "map_get s k = Some b0" and "refilledAt b0 \<le> now"
    and "token_check c r k now s = (deny ms, s')" and "0 \<le> d"
  shows "0 < ms \<and> allowed (fst (token_check c r k (now + d) s')) = (ms \<le> d) \<and>
    1 \<le> retryAfterSeconds ms \<and> ms \<le> 1000 * retryAfterSeconds ms"
proof -
  from assms(3-5) obtain b where b: "map_get s' k = Some b" "level b < 1" "refilledAt b = now"
    and ms: "ms = \<lceil>1000 / r * (1 - level b)\<rceil>"
    by (auto simp: token_check_def jsmap Let_def split: if_splits)
  have "0 < ms" using b ms assms(2) by simp
  have "allowed (fst (token_check c r k (now + d) s')) = (0 < d \<and> 1 \<le> level b + of_int d / 1000 * r)"
    using b assms(1,6) by (auto simp: token_check_def Let_def)
  also have "\<dots> = (0 < d \<and> 1000 / r * (1 - level b) \<le> of_int d)"
    using assms(2) by (auto simp: field_simps)
  also have "\<dots> = (ms \<le> d)" using ms \<open>0 < ms\<close> by (auto simp: ceiling_le_iff)
  finally have "allowed (fst (token_check c r k (now + d) s')) = (ms \<le> d)" .
  with \<open>0 < ms\<close> retry_seconds show ?thesis by blast
qed

theorem token_retry_after_exact_witness:
  "\<not> allowed (fst (token_check 1 2 ''u'' 499 [(''u'', \<lparr>level = 0, refilledAt = 0\<rparr>)])) \<and>
   allowed (fst (token_check 1 2 ''u'' 500 [(''u'', \<lparr>level = 0, refilledAt = 0\<rparr>)]))"
  using token_retry_after_exact [of 1 2 "[(''u'', \<lparr>level = 0, refilledAt = 0\<rparr>)]" "''u''"
      "\<lparr>level = 0, refilledAt = 0\<rparr>" 0 500 "[(''u'', \<lparr>level = 0, refilledAt = 0\<rparr>)]" 499]
    token_retry_after_exact [of 1 2 "[(''u'', \<lparr>level = 0, refilledAt = 0\<rparr>)]" "''u''"
      "\<lparr>level = 0, refilledAt = 0\<rparr>" 0 500 "[(''u'', \<lparr>level = 0, refilledAt = 0\<rparr>)]" 500]
  by (simp add: token_check_def)

end
