(* ===== verification/Usdc.thy ===== *)
theory Usdc
  imports Prelude
begin

text \<open>
  Decimal USDC amounts: the strict parser and printer of \<^verbatim>\<open>services/billing.ts\<close>
  (\<open>parseUsdcToContractUnits\<close>, \<open>formatContractUnitsToUsdc\<close>) and those of
  \<^verbatim>\<open>repositories/creditsRepository.ts\<close> (\<open>toUsdcUnits\<close>, \<open>fromUsdcUnits\<close>). An amount is a
  number of units of \<open>10\<^sup>-\<^sup>7\<close> USDC, a \<open>BigInt\<close>.
\<close>

section \<open>Definitions\<close>

abbreviation SCALE :: int where
  "SCALE \<equiv> 10000000"

text \<open>\<open>s.split('.')\<close>, first two pieces.\<close>

definition split_dot :: "string \<Rightarrow> string \<times> string option" where
  "split_dot s = (takeWhile (\<lambda>c. c \<noteq> CHR ''.'') s,
     case dropWhile (\<lambda>c. c \<noteq> CHR ''.'') s of [] \<Rightarrow> None
     | _ # rest \<Rightarrow> Some rest)"

text \<open>The pattern \<^verbatim>\<open>/^\d+(\.\d{1,7})?$/\<close>.\<close>

definition amount_pattern :: "string \<Rightarrow> bool" where
  "amount_pattern s = (case split_dot s of (w, f) \<Rightarrow> w \<noteq> [] \<and> list_all is_digit w \<and>
     (case f of None \<Rightarrow> True | Some f \<Rightarrow> 1 \<le> length f \<and> length f \<le> 7 \<and> list_all is_digit f))"

definition parseUsdcToContractUnits :: "string \<Rightarrow> int result" where
  "parseUsdcToContractUnits amountUsdc = (let trimmed = trim amountUsdc in
     if \<not> amount_pattern trimmed
     then Inl (Error ''amountUsdc must be a positive decimal with at most 7 fractional digits'')
     else (let (wholePart, f) = split_dot trimmed;
               fractionalPart = (case f of None \<Rightarrow> [] | Some f \<Rightarrow> f);
               whole = int (read_nat wholePart);
               fraction = int (read_nat (take 7 (fractionalPart @ ''0000000'')));
               result = whole * SCALE + fraction in
           if result \<le> 0 then Inl (Error ''amountUsdc must be greater than zero'')
           else Inr result))"

definition formatContractUnitsToUsdc :: "int \<Rightarrow> string" where
  "formatContractUnitsToUsdc amount = (let whole = big_div amount SCALE; fraction = big_mod amount SCALE in
     if fraction = 0 then show_int whole
     else show_int whole @ ''.'' @ strip_trailing_zeros (padStart 7 (CHR ''0'') (show_int fraction)))"

definition toUsdcUnits :: "string \<Rightarrow> int result" where
  "toUsdcUnits amount =
    (if \<not> amount_pattern amount
     then Inl (Error ''amountUsdc must be a non-negative decimal with at most 7 decimal places'')
     else (let (whole, f) = split_dot amount; fraction = (case f of None \<Rightarrow> [] | Some f \<Rightarrow> f) in
           Inr (int (read_nat whole) * SCALE + int (read_nat (padEnd 7 (CHR ''0'') fraction)))))"

definition fromUsdcUnits :: "int \<Rightarrow> string" where
  "fromUsdcUnits units = (let whole = big_div units SCALE;
       fraction = strip_trailing_zeros (padStart 7 (CHR ''0'') (show_int (big_mod units SCALE))) in
     if length fraction = 0 then show_int whole @ ''.00''
     else show_int whole @ ''.'' @ padEnd 2 (CHR ''0'') fraction)"

section \<open>Splitting printed amounts\<close>

lemma split_dot_digits: "list_all is_digit w \<Longrightarrow> split_dot w = (w, None)"
proof -
  assume "list_all is_digit w"
  then have "\<forall>c \<in> set w. c \<noteq> CHR ''.''" by (auto simp: list_all_iff dest: is_digit_not_dot)
  then have "takeWhile (\<lambda>c. c \<noteq> CHR ''.'') w = w" "dropWhile (\<lambda>c. c \<noteq> CHR ''.'') w = []"
    by (simp_all only: takeWhile_eq_all_conv dropWhile_eq_Nil_conv)
  then show ?thesis by (simp only: split_dot_def list.case)
qed

lemma split_dot_append: "list_all is_digit w \<Longrightarrow> split_dot (w @ CHR ''.'' # f) = (w, Some f)"
proof -
  assume "list_all is_digit w"
  then have "\<forall>c \<in> set w. c \<noteq> CHR ''.''" by (auto simp: list_all_iff dest: is_digit_not_dot)
  then show ?thesis by (simp add: split_dot_def takeWhile_append dropWhile_append)
qed

lemma take_pad: "length f \<le> 7 \<Longrightarrow> take 7 (f @ ''0000000'') = padEnd 7 (CHR ''0'') f"
proof -
  assume a: "length f \<le> 7"
  have "''0000000'' = replicate 7 (CHR ''0'')" by (simp add: numeral_eq_Suc)
  then have "take 7 (f @ ''0000000'') = f @ take (7 - length f) (replicate 7 (CHR ''0''))"
    using a by (simp add: take_append)
  then show ?thesis using a by (simp add: padEnd_def min_def)
qed

lemma amount_pattern_value:
  assumes "amount_pattern s"
  obtains v where "toUsdcUnits s = Inr v" "0 \<le> v"
    "\<forall>t. trim t = s \<longrightarrow> parseUsdcToContractUnits t =
       (if v \<le> 0 then Inl (Error ''amountUsdc must be greater than zero'') else Inr v)"
proof -
  obtain w f where s: "split_dot s = (w, f)" by (cases "split_dot s")
  let ?f = "case f of None \<Rightarrow> [] | Some f \<Rightarrow> f"
  from assms s have "length ?f \<le> 7" by (auto simp: amount_pattern_def split: option.splits)
  from take_pad [OF this] show ?thesis
    using assms s
    by (intro that [of "int (read_nat w) * SCALE + int (read_nat (padEnd 7 (CHR ''0'') ?f))"])
      (simp_all add: toUsdcUnits_def parseUsdcToContractUnits_def Let_def)
qed

section \<open>Round trips\<close>

lemma zeros_digits: "list_all is_digit (replicate n (CHR ''0''))"
  by (induction n) (simp_all add: is_digit_def)

lemma big_div_nonneg: "0 \<le> a \<Longrightarrow> big_div a SCALE = a div SCALE"
  by (cases "a = 0") (simp_all add: big_div_def)

lemma big_mod_nonneg: "0 \<le> a \<Longrightarrow> big_mod a SCALE = a mod SCALE"
  by (simp add: big_mod_def big_div_nonneg minus_mult_div_eq_mod)

lemma show_int_digits: "0 \<le> i \<Longrightarrow> list_all is_digit (show_int i) \<and> show_int i \<noteq> [] \<and> read_nat (show_int i) = nat i"
  by (simp add: show_int_def show_nat_digits)

text \<open>The seven digits of a fraction, and what stripping and padding zeros does to them.\<close>

lemma fraction_digits:
  assumes "0 \<le> r" and "r < SCALE"
  defines "ds \<equiv> padStart 7 (CHR ''0'') (show_int r)"
  shows "length ds = 7" "list_all is_digit ds" "read_nat ds = nat r"
proof -
  have "nat r < 10 ^ 7" using assms by simp
  then have "length (show_nat (nat r)) \<le> 7" by (rule show_nat_length) simp
  then show "length ds = 7" using assms by (simp add: padStart_def show_int_def)
  show "list_all is_digit ds" "read_nat ds = nat r"
    using assms(1) show_int_digits [of r] by (simp_all add: ds_def padStart_def read_nat_append zeros_digits)
qed

lemma padded_fraction:
  assumes "0 \<le> r" and "r < SCALE" and "2 \<le> n \<or> n = 0" and "n \<le> 7"
  defines "f \<equiv> padEnd n (CHR ''0'') (strip_trailing_zeros (padStart 7 (CHR ''0'') (show_int r)))"
  shows "list_all is_digit f" "length f \<le> 7" "read_nat (padEnd 7 (CHR ''0'') f) = nat r"
proof -
  let ?ds = "padStart 7 (CHR ''0'') (show_int r)"
  note ds = fraction_digits [OF assms(1,2)]
  from strip_zeros_all [OF ds(2)] show "list_all is_digit f" by (simp add: f_def padEnd_def zeros_digits)
  have l: "length (strip_trailing_zeros ?ds) \<le> 7" using strip_zeros_length [of ?ds] ds(1) by simp
  then show "length f \<le> 7" using assms(4) by (simp add: f_def padEnd_def)
  have "padEnd 7 (CHR ''0'') f = padEnd 7 (CHR ''0'') (strip_trailing_zeros ?ds)"
    using assms(4) l by (simp add: f_def padEnd_def replicate_add [symmetric])
  then show "read_nat (padEnd 7 (CHR ''0'') f) = nat r"
    using strip_zeros_pad [OF ds(1)] ds(3) by simp
qed

lemma parse_parts:
  assumes "list_all is_digit w" "w \<noteq> []" "list_all is_digit f" "f \<noteq> []" "length f \<le> 7"
  shows "toUsdcUnits (w @ ''.'' @ f) = Inr (int (read_nat w) * SCALE + int (read_nat (padEnd 7 (CHR ''0'') f)))"
    "amount_pattern (w @ ''.'' @ f)" "trim (w @ ''.'' @ f) = w @ ''.'' @ f"
proof -
  show p: "amount_pattern (w @ ''.'' @ f)"
    using assms by (simp add: amount_pattern_def split_dot_append Suc_le_eq)
  with assms show "toUsdcUnits (w @ ''.'' @ f) = Inr (int (read_nat w) * SCALE + int (read_nat (padEnd 7 (CHR ''0'') f)))"
    by (simp add: toUsdcUnits_def split_dot_append)
  from assms have "is_digit (hd w)" "is_digit (last f)" by (simp_all add: list_all_iff)
  with assms show "trim (w @ ''.'' @ f) = w @ ''.'' @ f"
    by (intro trim_id) (auto simp: is_digit_not_space)
qed

lemma fromUsdcUnits_parts:
  assumes "0 \<le> u"
  obtains f where "fromUsdcUnits u = show_int (u div SCALE) @ ''.'' @ f" "list_all is_digit f" "f \<noteq> []"
    "length f \<le> 7" "read_nat (padEnd 7 (CHR ''0'') f) = nat (u mod SCALE)"
proof -
  let ?f = "strip_trailing_zeros (padStart 7 (CHR ''0'') (show_int (u mod SCALE)))"
  have r: "0 \<le> u mod SCALE" "u mod SCALE < SCALE" by simp_all
  note pf = padded_fraction [OF r, of 2, simplified]
  have "fromUsdcUnits u = show_int (u div SCALE) @ ''.'' @ padEnd 2 (CHR ''0'') ?f"
    using assms by (auto simp: fromUsdcUnits_def big_div_nonneg big_mod_nonneg Let_def padEnd_def numeral_2_eq_2)
  moreover have "padEnd 2 (CHR ''0'') ?f \<noteq> []" by (auto simp: padEnd_def)
  ultimately show ?thesis using that pf by blast
qed

lemma toUsdcUnits_fromUsdcUnits:
  assumes "0 \<le> u"
  shows "toUsdcUnits (fromUsdcUnits u) = Inr u"
proof -
  obtain f where f: "fromUsdcUnits u = show_int (u div SCALE) @ ''.'' @ f" "list_all is_digit f" "f \<noteq> []"
    "length f \<le> 7" "read_nat (padEnd 7 (CHR ''0'') f) = nat (u mod SCALE)"
    by (rule fromUsdcUnits_parts [OF assms])
  have "0 \<le> u div SCALE" using assms by simp
  with parse_parts(1) [of "show_int (u div SCALE)" f] f show_int_digits [of "u div SCALE"]
  show ?thesis by simp
qed

lemma parse_format:
  assumes "0 < a"
  shows "parseUsdcToContractUnits (formatContractUnitsToUsdc a) = Inr a"
proof -
  let ?w = "show_int (a div SCALE)"
  have w: "list_all is_digit ?w" "?w \<noteq> []" "read_nat ?w = nat (a div SCALE)"
    using show_int_digits [of "a div SCALE"] assms by simp_all
  show ?thesis
  proof (cases "a mod SCALE = 0")
    case True
    have "is_digit (hd ?w)" "is_digit (last ?w)" using w by (simp_all add: list_all_iff)
    then have "trim ?w = ?w" using w by (intro trim_id) (auto simp: is_digit_not_space)
    moreover have "0 < a div SCALE * SCALE" using True assms by (simp add: mod_eq_0_iff_dvd)
    ultimately show ?thesis
      using w assms True mod_mult_div_eq [of a SCALE] take_pad [of "[]"]
      by (simp add: formatContractUnitsToUsdc_def big_div_nonneg big_mod_nonneg parseUsdcToContractUnits_def
          amount_pattern_def split_dot_digits Let_def padEnd_def)
  next
    case False
    let ?f = "strip_trailing_zeros (padStart 7 (CHR ''0'') (show_int (a mod SCALE)))"
    have r: "0 \<le> a mod SCALE" "a mod SCALE < SCALE" by simp_all
    note pf = padded_fraction [OF r, of 0, simplified padEnd_def, simplified]
    have "read_nat (padStart 7 (CHR ''0'') (show_int (a mod SCALE))) \<noteq> 0"
      using fraction_digits(3) [OF r] False r(1) by simp
    then have "?f \<noteq> []" by (rule strip_zeros_nonempty)
    with parse_parts [OF w(1,2) pf(1) _ pf(2)] pf(3) w(3) assms
    have "toUsdcUnits (?w @ ''.'' @ ?f) = Inr a" "amount_pattern (?w @ ''.'' @ ?f)" "trim (?w @ ''.'' @ ?f) = ?w @ ''.'' @ ?f"
      by (simp_all add: padEnd_def)
    then show ?thesis
      using assms False
      by (auto simp: formatContractUnitsToUsdc_def big_div_nonneg big_mod_nonneg Let_def elim: amount_pattern_value)
  qed
qed

section \<open>The contract of a money codec\<close>

locale money_codec =
  fixes print :: "int \<Rightarrow> string" and parse :: "string \<Rightarrow> int result" and legal :: "int \<Rightarrow> bool"
  assumes parse_print: "legal a \<Longrightarrow> parse (print a) = Inr a"
begin

lemma print_inj: "legal a \<Longrightarrow> legal b \<Longrightarrow> print a = print b \<longleftrightarrow> a = b"
  by (metis parse_print sum.inject(2))

lemma parse_add_print:
  "legal a \<Longrightarrow> legal b \<Longrightarrow> legal (a + b) \<Longrightarrow>
   parse (print (a + b)) = Inr (projr (parse (print a)) + projr (parse (print b)))"
  by (simp add: parse_print)

end

interpretation contract: money_codec formatContractUnitsToUsdc parseUsdcToContractUnits "\<lambda>a. 0 < a"
  by unfold_locales (rule parse_format)

interpretation credit: money_codec fromUsdcUnits toUsdcUnits "\<lambda>a. 0 \<le> a"
  by unfold_locales (rule toUsdcUnits_fromUsdcUnits)

section \<open>Properties\<close>

text \<open>C23. Amounts survive printing and parsing without loss: every positive number of contract
  units printed by the billing service is parsed back to itself, every non-negative number
  of units printed by the credits repository is parsed back to itself, and two amounts are
  printed alike only when they are equal.\<close>

theorem usdc_roundtrip:
  assumes "0 < a" and "0 \<le> u" and "0 \<le> v"
  shows "parseUsdcToContractUnits (formatContractUnitsToUsdc a) = Inr a \<and>
    toUsdcUnits (fromUsdcUnits u) = Inr u \<and> (fromUsdcUnits u = fromUsdcUnits v \<longleftrightarrow> u = v)"
  using contract.parse_print [OF assms(1)] credit.parse_print [OF assms(2)] credit.print_inj [OF assms(2,3)]
  by simp

theorem usdc_roundtrip_witness:
  "parseUsdcToContractUnits (formatContractUnitsToUsdc 12500000) = Inr 12500000"
  using usdc_roundtrip [of 12500000 0 0] by simp

text \<open>The two parsers accept the same decimals: on a string without surrounding white
  space the billing parser succeeds exactly when the credits parser yields a positive
  number, and then both yield the same number of units.\<close>

theorem usdc_parsers_agree:
  assumes "trim s = s"
  shows "parseUsdcToContractUnits s = Inr v \<longleftrightarrow> toUsdcUnits s = Inr v \<and> 0 < v"
proof (cases "amount_pattern s")
  case True
  obtain u where "toUsdcUnits s = Inr u" "0 \<le> u"
    "\<forall>t. trim t = s \<longrightarrow> parseUsdcToContractUnits t =
       (if u \<le> 0 then Inl (Error ''amountUsdc must be greater than zero'') else Inr u)"
    by (rule amount_pattern_value [OF True])
  with assms show ?thesis by auto
next
  case False
  with assms show ?thesis by (simp add: parseUsdcToContractUnits_def toUsdcUnits_def)
qed

theorem usdc_parsers_agree_witness:
  "parseUsdcToContractUnits ''1.5'' = Inr 15000000 \<longleftrightarrow> toUsdcUnits ''1.5'' = Inr 15000000 \<and> 0 < (15000000 :: int)"
  by (rule usdc_parsers_agree) code_simp

end
