(* ===== verification/Credits.thy ===== *)
theory Credits
  imports Usdc
begin

text \<open>
  The prepaid credits repository (\<^verbatim>\<open>repositories/creditsRepository.ts\<close>): the SQLite table
  \<open>credits\<close> as a list of rows with an auto-increment id and a unique \<open>user_id\<close>, and the four
  operations. The two read paths of \<open>findByUserId\<close> (the covering index, the ORM fallback)
  select the same row. Times are seconds; statements that return their row do return it.
\<close>

section \<open>State and operations\<close>

record Credit =
  credit_id :: nat
  user_id :: string
  balance_usdc :: string
  created_at :: int
  updated_at :: int

record credits_table =
  credit_rows :: "Credit list"
  next_credit_id :: nat

definition empty_credits :: credits_table where
  "empty_credits = \<lparr>credit_rows = [], next_credit_id = 1\<rparr>"

definition findByUserId :: "string \<Rightarrow> credits_table \<Rightarrow> Credit option" where
  "findByUserId userId t = List.find (\<lambda>c. user_id c = userId) (credit_rows t)"

definition insert_credit :: "string \<Rightarrow> string \<Rightarrow> int \<Rightarrow> credits_table \<Rightarrow> Credit result \<times> credits_table" where
  "insert_credit userId balance now t =
    (if \<exists>c \<in> set (credit_rows t). user_id c = userId
     then (Inl (Error ''UNIQUE constraint failed: credits.user_id''), t)
     else (let c = \<lparr>credit_id = next_credit_id t, user_id = userId, balance_usdc = balance,
                    created_at = now, updated_at = now\<rparr>
           in (Inr c, t\<lparr>credit_rows := credit_rows t @ [c], next_credit_id := Suc (next_credit_id t)\<rparr>)))"

definition update_credit :: "Credit \<Rightarrow> string \<Rightarrow> int \<Rightarrow> credits_table \<Rightarrow> Credit result \<times> credits_table" where
  "update_credit existing balance now t =
    (let c = existing\<lparr>balance_usdc := balance, updated_at := now\<rparr> in
     (Inr c, t\<lparr>credit_rows := map (\<lambda>r. if credit_id r = credit_id existing then c else r) (credit_rows t)\<rparr>))"

definition getOrCreateByUserId :: "string \<Rightarrow> int \<Rightarrow> credits_table \<Rightarrow> Credit result \<times> credits_table" where
  "getOrCreateByUserId userId now t = (case findByUserId userId t of
       Some c \<Rightarrow> (Inr c, t)
     | None \<Rightarrow> insert_credit userId ''0.00'' now t)"

definition updateBalance :: "string \<Rightarrow> string \<Rightarrow> int \<Rightarrow> credits_table \<Rightarrow> Credit result \<times> credits_table" where
  "updateBalance userId newBalance now t = (case findByUserId userId t of
       None \<Rightarrow> (Inl (Error (''Credits record not found for user '' @ userId)), t)
     | Some c \<Rightarrow> update_credit c newBalance now t)"

definition grant :: "string \<Rightarrow> string \<Rightarrow> int \<Rightarrow> credits_table \<Rightarrow> Credit result \<times> credits_table" where
  "grant userId amountUsdc now t = (case toUsdcUnits amountUsdc of
       Inl e \<Rightarrow> (Inl e, t)
     | Inr amount \<Rightarrow>
        if amount \<le> 0 then (Inl (Error ''amountUsdc must be greater than zero''), t)
        else (case findByUserId userId t of
            None \<Rightarrow> insert_credit userId (fromUsdcUnits amount) now t
          | Some existing \<Rightarrow> (case toUsdcUnits (balance_usdc existing) of
                Inl e \<Rightarrow> (Inl e, t)
              | Inr balance \<Rightarrow> update_credit existing (fromUsdcUnits (balance + amount)) now t)))"

section \<open>Invariant and balances\<close>

definition balance_of :: "string \<Rightarrow> credits_table \<Rightarrow> int" where
  "balance_of u t = (case findByUserId u t of None \<Rightarrow> 0
     | Some c \<Rightarrow> (case toUsdcUnits (balance_usdc c) of Inl _ \<Rightarrow> 0 | Inr v \<Rightarrow> v))"

definition credits_inv :: "credits_table \<Rightarrow> bool" where
  "credits_inv t \<longleftrightarrow> distinct (map user_id (credit_rows t)) \<and> distinct (map credit_id (credit_rows t)) \<and>
     (\<forall>c \<in> set (credit_rows t). credit_id c < next_credit_id t \<and> amount_pattern (balance_usdc c))"

text \<open>Requests of an administrator, handled one after the other.\<close>

primrec grant_all :: "(string \<times> string \<times> int) list \<Rightarrow> credits_table \<Rightarrow> credits_table" where
  "grant_all [] t = t"
| "grant_all (g # gs) t = grant_all gs (snd (grant (fst g) (fst (snd g)) (snd (snd g)) t))"

definition granted_to :: "string \<Rightarrow> (string \<times> string \<times> int) list \<Rightarrow> int" where
  "granted_to u gs = sum_list (map (\<lambda>(v, a, _). if v = u then
      (case toUsdcUnits a of Inl _ \<Rightarrow> 0 | Inr n \<Rightarrow> n) else 0) gs)"

lemma credit_missing: "findByUserId u t = None \<longleftrightarrow> (\<forall>c \<in> set (credit_rows t). user_id c \<noteq> u)"
  by (auto simp: findByUserId_def find_None_iff)

lemma find_Some: "findByUserId u t = Some c \<Longrightarrow> c \<in> set (credit_rows t) \<and> user_id c = u"
  by (auto simp: findByUserId_def find_Some_iff)

lemma toUsdcUnits_pattern: "amount_pattern s \<Longrightarrow> \<exists>v. toUsdcUnits s = Inr v \<and> 0 \<le> v"
  by (erule amount_pattern_value) blast

lemma toUsdcUnits_Inr: "toUsdcUnits s = Inr v \<Longrightarrow> amount_pattern s \<and> 0 \<le> v"
  using toUsdcUnits_pattern [of s] by (cases "amount_pattern s") (auto simp: toUsdcUnits_def)

lemma pattern_fromUsdcUnits: "0 \<le> u \<Longrightarrow> amount_pattern (fromUsdcUnits u)"
  using toUsdcUnits_Inr [OF toUsdcUnits_fromUsdcUnits] by blast

text \<open>Updating the row of one user, seen through lookups.\<close>

lemma find_update:
  assumes "credits_inv t" and "findByUserId u t = Some c"
  shows "findByUserId v (snd (update_credit c b now t)) =
    (if v = u then Some (c\<lparr>balance_usdc := b, updated_at := now\<rparr>) else findByUserId v t)"
proof -
  have c: "c \<in> set (credit_rows t)" "user_id c = u" using find_Some [OF assms(2)] by auto
  have id: "credit_id r = credit_id c \<longleftrightarrow> r = c" if "r \<in> set (credit_rows t)" for r
    using assms(1) c(1) that by (auto simp: credits_inv_def distinct_map inj_on_def)
  let ?f = "\<lambda>r. if credit_id r = credit_id c then c\<lparr>balance_usdc := b, updated_at := now\<rparr> else r"
  have "List.find (\<lambda>r. user_id r = v) (map ?f rs) =
      map_option ?f (List.find (\<lambda>r. user_id r = v) rs)" if "set rs \<subseteq> set (credit_rows t)" for rs
    using that c(2) id by (induction rs) auto
  from this [of "credit_rows t"]
  have "findByUserId v (snd (update_credit c b now t)) = map_option ?f (findByUserId v t)"
    by (simp add: findByUserId_def update_credit_def Let_def)
  moreover have "credit_id r \<noteq> credit_id c" if "findByUserId v t = Some r" "v \<noteq> u" for r
    using find_Some [OF that(1)] that(2) id c(2) by auto
  ultimately show ?thesis using assms(2) by (cases "findByUserId v t") auto
qed

lemma find_insert:
  assumes "findByUserId u t = None"
  shows "findByUserId v (snd (insert_credit u b now t)) =
    (if v = u then Some \<lparr>credit_id = next_credit_id t, user_id = u, balance_usdc = b, created_at = now,
       updated_at = now\<rparr> else findByUserId v t)"
proof -
  from assms have "\<not> (\<exists>c \<in> set (credit_rows t). user_id c = u)" by (simp add: credit_missing)
  with assms show ?thesis
    by (auto simp: insert_credit_def Let_def findByUserId_def find_append split: option.split)
qed

lemma update_inv:
  assumes "credits_inv t" and "c \<in> set (credit_rows t)" and "amount_pattern b"
  shows "credits_inv (snd (update_credit c b now t))"
proof -
  have id: "credit_id r = credit_id c \<longleftrightarrow> r = c" if "r \<in> set (credit_rows t)" for r
    using assms(1,2) that by (auto simp: credits_inv_def distinct_map inj_on_def)
  let ?f = "\<lambda>r. if credit_id r = credit_id c then c\<lparr>balance_usdc := b, updated_at := now\<rparr> else r"
  have "map user_id (map ?f (credit_rows t)) = map user_id (credit_rows t)"
    "map credit_id (map ?f (credit_rows t)) = map credit_id (credit_rows t)"
    using id by (auto intro!: map_cong)
  with assms show ?thesis by (auto simp: credits_inv_def update_credit_def Let_def simp del: map_map)
qed

lemma insert_inv:
  assumes "credits_inv t" and "findByUserId u t = None" and "amount_pattern b"
  shows "credits_inv (snd (insert_credit u b now t))"
  using assms by (auto simp: credits_inv_def insert_credit_def Let_def credit_missing image_iff less_SucI)

lemma empty_inv [simp]: "credits_inv empty_credits"
  by (simp add: credits_inv_def empty_credits_def)

section \<open>Effect of the operations\<close>

lemma grant_effect:
  assumes inv: "credits_inv t" and a: "toUsdcUnits a = Inr n" "0 < n"
  shows "\<exists>c. fst (grant u a now t) = Inr c \<and> user_id c = u \<and> credits_inv (snd (grant u a now t)) \<and>
    (\<forall>v. balance_of v (snd (grant u a now t)) = balance_of v t + (if v = u then n else 0))"
proof (cases "findByUserId u t")
  case None
  note p = pattern_fromUsdcUnits [of n] and r = toUsdcUnits_fromUsdcUnits [of n]
  from None have "\<not> (\<exists>c \<in> set (credit_rows t). user_id c = u)" by (auto simp: credit_missing)
  then have "\<exists>c. fst (insert_credit u (fromUsdcUnits n) now t) = Inr c \<and> user_id c = u"
    by (simp add: insert_credit_def Let_def)
  with None a insert_inv [OF inv None] p r show ?thesis
    by (simp add: grant_def balance_of_def find_insert)
next
  case (Some c)
  then have c: "c \<in> set (credit_rows t)" "user_id c = u" by (auto dest: find_Some)
  with inv obtain v where v: "toUsdcUnits (balance_usdc c) = Inr v" "0 \<le> v"
    using toUsdcUnits_pattern by (auto simp: credits_inv_def)
  with Some c a update_inv [OF inv c(1)] pattern_fromUsdcUnits [of "v + n"] toUsdcUnits_fromUsdcUnits [of "v + n"]
    find_update [OF inv Some]
  show ?thesis by (simp add: grant_def balance_of_def) (simp add: update_credit_def Let_def)
qed

lemma grant_rejects:
  assumes "\<forall>n. toUsdcUnits a = Inr n \<longrightarrow> n \<le> 0"
  shows "\<exists>e. grant u a now t = (Inl e, t)"
  using assms by (cases "toUsdcUnits a") (auto simp: grant_def)

lemma grant_all_balance:
  assumes "credits_inv t"
  shows "credits_inv (grant_all gs t) \<and> balance_of u (grant_all gs t) = balance_of u t + granted_to u gs"
  using assms
proof (induction gs arbitrary: t)
  case (Cons g gs)
  obtain v a now where g: "g = (v, a, now)" by (cases g)
  show ?case
  proof (cases "\<exists>n. toUsdcUnits a = Inr n \<and> 0 < n")
    case True
    then obtain n where n: "toUsdcUnits a = Inr n" "0 < n" by blast
    from grant_effect [OF Cons.prems n, of v now] have
      "credits_inv (snd (grant v a now t))"
      "balance_of u (snd (grant v a now t)) = balance_of u t + (if u = v then n else 0)" by auto
    with Cons.IH n g show ?thesis by (auto simp: granted_to_def)
  next
    case False
    then have z: "\<forall>n. toUsdcUnits a = Inr n \<longrightarrow> n \<le> 0" by (meson not_le_imp_less)
    with grant_rejects [OF z, of v now t] obtain e where "grant v a now t = (Inl e, t)" by blast
    moreover have "(case toUsdcUnits a of Inl _ \<Rightarrow> 0 | Inr n \<Rightarrow> n) = 0"
      using z toUsdcUnits_Inr [of a] by (fastforce split: sum.split)
    ultimately show ?thesis using Cons g by (simp add: granted_to_def)
  qed
qed (simp add: granted_to_def)

section \<open>The contract of a ledger\<close>

text \<open>What callers of the repository rely on: a credit of \<open>n\<close> units changes the balance of its
  owner by \<open>n\<close> and no other balance.\<close>

locale credit_ledger =
  fixes credit_units :: "string \<Rightarrow> int \<Rightarrow> 's \<Rightarrow> 's" and balance :: "string \<Rightarrow> 's \<Rightarrow> int" and invar :: "'s \<Rightarrow> bool"
  assumes credit_inv: "invar s \<Longrightarrow> 0 < n \<Longrightarrow> invar (credit_units u n s)"
    and credit_balance: "invar s \<Longrightarrow> 0 < n \<Longrightarrow> balance v (credit_units u n s) = balance v s + (if v = u then n else 0)"
begin

lemma credits_commute:
  "invar s \<Longrightarrow> 0 < n \<Longrightarrow> 0 < m \<Longrightarrow>
   balance w (credit_units u n (credit_units v m s)) = balance w (credit_units v m (credit_units u n s))"
  by (simp add: credit_inv credit_balance)

end

definition grant_units :: "int \<Rightarrow> string \<Rightarrow> int \<Rightarrow> credits_table \<Rightarrow> credits_table" where
  "grant_units now u n t = snd (grant u (fromUsdcUnits n) now t)"

interpretation ledger: credit_ledger "grant_units now" balance_of credits_inv for now
proof unfold_locales
  fix t u v and n :: int assume t: "credits_inv t" "0 < n"
  then have "toUsdcUnits (fromUsdcUnits n) = Inr n" by (simp add: toUsdcUnits_fromUsdcUnits)
  from grant_effect [OF t(1) this t(2), of u now] show "credits_inv (grant_units now u n t)"
    "balance_of v (grant_units now u n t) = balance_of v t + (if v = u then n else 0)"
    by (auto simp: grant_units_def)
qed

section \<open>Properties\<close>

text \<open>C22. Credits are conserved exactly: after any sequence of grants on an empty table, the
  balance of every user is the sum, in units of \<open>10\<^sup>-\<^sup>7\<close> USDC, of the amounts granted to
  that user by the well-formed requests, and the table keeps its invariant (one row per user,
  distinct ids, every balance a legal decimal).\<close>

theorem credits_conserved:
  "balance_of u (grant_all gs empty_credits) = granted_to u gs \<and> credits_inv (grant_all gs empty_credits)"
  using grant_all_balance [OF empty_inv, of gs u] by (simp add: balance_of_def findByUserId_def empty_credits_def)

text \<open>A grant that is malformed or not positive is an error that leaves the table unchanged,
  and every well-formed positive grant succeeds on a table in its invariant, for a new and
  for an existing user, and commutes with any other grant as far as balances are concerned.\<close>

theorem grant_total:
  assumes "credits_inv t" and "0 < m" and "0 < n"
  shows "(if \<exists>k > 0. toUsdcUnits a = Inr k then \<exists>c. fst (grant u a now t) = Inr c \<and> user_id c = u
          else \<exists>e. grant u a now t = (Inl e, t)) \<and>
    balance_of w (grant_units now u n (grant_units now v m t)) =
    balance_of w (grant_units now v m (grant_units now u n t))"
proof -
  have "\<forall>n. toUsdcUnits a = Inr n \<longrightarrow> n \<le> 0" if "\<not> (\<exists>k > 0. toUsdcUnits a = Inr k)"
    using that by (auto simp: not_less [symmetric])
  with grant_effect [OF assms(1), of a _ u now] grant_rejects [of a u now t]
    ledger.credits_commute [OF assms(1,3,2), of w now u v]
  show ?thesis by auto
qed

theorem grant_total_witness:
  "(\<exists>e. grant ''u'' ''-1'' 0 empty_credits = (Inl e, empty_credits)) \<and>
   (\<exists>c. fst (grant ''u'' ''2'' 0 empty_credits) = Inr c \<and> user_id c = ''u'')"
proof -
  have "toUsdcUnits ''2'' = Inr 20000000"
    by (simp add: toUsdcUnits_def split_dot_def amount_pattern_def is_digit_def padEnd_def digit_val_def)
  moreover have "\<not> (\<exists>k > 0. toUsdcUnits ''-1'' = Inr k)"
    by (simp add: toUsdcUnits_def split_dot_def amount_pattern_def is_digit_def)
  ultimately show ?thesis
    using grant_total [OF empty_inv, of 1 1 "''-1''" "''u''" 0] grant_total [OF empty_inv, of 1 1 "''2''" "''u''" 0]
    by (auto split: if_splits)
qed

end
