(* ===== verification/Billing.thy ===== *)
theory Billing
  imports Usdc "HOL-Library.Char_ord" "HOL-Library.List_Lexorder"
begin

text \<open>
  The billing service of \<^verbatim>\<open>services/billing.ts\<close>: idempotent deductions in three phases
  (commit a pending usage event, deduct on the Soroban ledger, store the transaction hash),
  single and bulk, and the route that runs a batch of single deductions.

  The Soroban client is a pair of parameters over a chain state: \<open>getBalance\<close> (the decimal
  string it returns is represented by the integer it denotes) and \<open>deductBalance\<close>. What other
  processes and the database do to one call is its environment: the rows others commit
  before phase 1 and between its \<open>SELECT\<close> and its \<open>INSERT\<close>, a failure of the transaction, a
  failure of the update in phase 3. The ledger does not change between the balance check of a call and its
  deduction. The optional \<open>simulationDetails\<close> of an error are left out.
\<close>

section \<open>Data\<close>

record BillingDeductRequest =
  requestId :: string
  userId :: string
  apiId :: string
  endpointId :: string
  apiKeyId :: string
  amountUsdc :: string
  idempotencyKey :: "string option"

record usage_event =
  event_id :: nat
  ue_user :: string
  ue_api :: string
  ue_endpoint :: string
  ue_key :: string
  ue_amount :: string
  ue_request :: string
  stellar_tx_hash :: "string option"

record billing_db =
  usage_events :: "usage_event list"
  next_event_id :: nat

record BillingDeductResult =
  success :: bool
  usageEventId :: string
  stellarTxHash :: "string option"
  alreadyProcessed :: bool
  deductionApplied :: bool
  reconciliationRequired :: bool
  error_text :: "string option"

record BulkEntryResult =
  entry_requestId :: string
  entry_eventId :: string
  entry_txHash :: "string option"
  entry_processed :: bool
  entry_applied :: bool
  entry_reconcile :: bool

record BulkDeductResult =
  bulk_success :: bool
  bulk_results :: "BulkEntryResult list"
  entryCount :: nat
  deductedCount :: nat
  totalDeductedAmountUsdc :: string
  bulk_txHash :: "string option"
  bulk_error :: "string option"

record 'c soroban =
  getBalance :: "string \<Rightarrow> 'c \<Rightarrow> int result"
  deductBalance :: "string \<Rightarrow> string \<Rightarrow> string \<Rightarrow> 'c \<Rightarrow> string result \<times> 'c"

record billing_env =
  before_phase1 :: "BillingDeductRequest list"
  inside_phase1 :: "BillingDeductRequest list"
  phase1_fault :: "error option"
  phase3_fault :: bool

record 'c billing_state =
  db :: billing_db
  chain :: 'c

section \<open>Helpers\<close>

abbreviation normalizeErrorMessage :: "error \<Rightarrow> string" where
  "normalizeErrorMessage \<equiv> error_message"

definition transient_tokens :: "string list" where
  "transient_tokens = [''timeout'', ''timed out'', ''socket hang up'', ''temporarily unavailable'',
     ''temporary outage'', ''econnreset'', ''econnrefused'', ''503'', ''429'', ''rate limit'',
     ''network error'', ''transport error'']"

definition isTransientSorobanError :: "error \<Rightarrow> bool" where
  "isTransientSorobanError e =
     list_ex (str_includes (toLowerCase (normalizeErrorMessage e))) transient_tokens"

fun join :: "string \<Rightarrow> string list \<Rightarrow> string" where
  "join sep [] = []"
| "join sep [x] = x"
| "join sep (x # y # xs) = x @ sep @ join sep (y # xs)"

definition buildBulkDeductIdempotencyKey :: "(string \<Rightarrow> string) \<Rightarrow> string list \<Rightarrow> string" where
  "buildBulkDeductIdempotencyKey sha256 requestIds = sha256 (join '':'' (sort requestIds))"

definition js_bool :: "string option \<Rightarrow> bool" where
  "js_bool h = (case h of None \<Rightarrow> False | Some s \<Rightarrow> s \<noteq> [])"

fun executeDeductWithRetry :: "'c soroban \<Rightarrow> millis list \<Rightarrow> string \<Rightarrow> string \<Rightarrow> string \<Rightarrow> 'c \<Rightarrow>
    string result \<times> 'c" where
  "executeDeductWithRetry client delays user amount key c =
    (case deductBalance client user amount key c of
       (Inr tx, c1) \<Rightarrow> (Inr tx, c1)
     | (Inl e, c1) \<Rightarrow>
        if \<not> isTransientSorobanError e then (Inl e, c1)
        else (case delays of [] \<Rightarrow> (Inl e, c1)
              | _ # rest \<Rightarrow> executeDeductWithRetry client rest user amount key c1))"

declare executeDeductWithRetry.simps [simp del]

section \<open>The usage_events table\<close>

definition find_event :: "string \<Rightarrow> billing_db \<Rightarrow> usage_event option" where
  "find_event rid d = List.find (\<lambda>e. ue_request e = rid) (usage_events d)"

definition pending_event :: "nat \<Rightarrow> BillingDeductRequest \<Rightarrow> usage_event" where
  "pending_event i r = \<lparr>event_id = i, ue_user = userId r, ue_api = apiId r, ue_endpoint = endpointId r,
     ue_key = apiKeyId r, ue_amount = amountUsdc r, ue_request = requestId r, stellar_tx_hash = None\<rparr>"

datatype db_error = UniqueViolation | DbError error

definition db_message :: "db_error \<Rightarrow> string" where
  "db_message e = (case e of
       UniqueViolation \<Rightarrow> ''duplicate key value violates unique constraint''
     | DbError e \<Rightarrow> normalizeErrorMessage e)"

definition insert_event :: "BillingDeductRequest \<Rightarrow> billing_db \<Rightarrow> db_error + (nat \<times> billing_db)" where
  "insert_event r d = (if find_event (requestId r) d \<noteq> None then Inl UniqueViolation
     else Inr (next_event_id d, d\<lparr>usage_events := usage_events d @ [pending_event (next_event_id d) r],
                                  next_event_id := Suc (next_event_id d)\<rparr>))"

definition set_hash :: "nat list \<Rightarrow> string \<Rightarrow> billing_db \<Rightarrow> billing_db" where
  "set_hash ids tx d = d\<lparr>usage_events := map (\<lambda>e. if event_id e \<in> set ids
     then e\<lparr>stellar_tx_hash := Some tx\<rparr> else e) (usage_events d)\<rparr>"

text \<open>Rows that other processes commit meanwhile (a duplicate of theirs is refused).\<close>

definition commit_others :: "BillingDeductRequest list \<Rightarrow> billing_db \<Rightarrow> billing_db" where
  "commit_others rs d = fold (\<lambda>r d. case insert_event r d of Inl _ \<Rightarrow> d | Inr (_, d') \<Rightarrow> d') rs d"

section \<open>Single deductions\<close>

record Phase1Result =
  alreadyExists :: bool
  p1_event :: nat
  p1_txHash :: "string option"

text \<open>The transaction of phase 1; on an error the database is as other processes left it.\<close>

definition runPhase1 :: "billing_env \<Rightarrow> BillingDeductRequest \<Rightarrow> billing_db \<Rightarrow>
    (db_error + Phase1Result) \<times> billing_db" where
  "runPhase1 env r d =
    (case find_event (requestId r) d of
       Some e \<Rightarrow> (Inr \<lparr>alreadyExists = True, p1_event = event_id e, p1_txHash = stellar_tx_hash e\<rparr>, d)
     | None \<Rightarrow>
        (let d1 = commit_others (inside_phase1 env) d in
         case phase1_fault env of
           Some e \<Rightarrow> (Inl (DbError e), d1)
         | None \<Rightarrow> (case insert_event r d1 of
               Inl e \<Rightarrow> (Inl e, d1)
             | Inr (i, d2) \<Rightarrow> (Inr \<lparr>alreadyExists = False, p1_event = i, p1_txHash = None\<rparr>, d2))))"

definition runPhase3 :: "billing_env \<Rightarrow> nat \<Rightarrow> string \<Rightarrow> billing_db \<Rightarrow> billing_db" where
  "runPhase3 env i tx d = (if phase3_fault env then d else set_hash [i] tx d)"

definition deduct_failure :: "string \<Rightarrow> bool \<Rightarrow> string \<Rightarrow> BillingDeductResult" where
  "deduct_failure eventId reconcile msg = \<lparr>success = False, usageEventId = eventId, stellarTxHash = None,
     alreadyProcessed = False, deductionApplied = False, reconciliationRequired = reconcile,
     error_text = Some msg\<rparr>"

definition existing_result :: "nat \<Rightarrow> string option \<Rightarrow> BillingDeductResult" where
  "existing_result i h = \<lparr>success = True, usageEventId = show_nat i, stellarTxHash = h,
     alreadyProcessed = True, deductionApplied = js_bool h, reconciliationRequired = (h = None),
     error_text = None\<rparr>"

definition getByRequestId :: "string \<Rightarrow> billing_db \<Rightarrow> BillingDeductResult option" where
  "getByRequestId rid d = (case find_event rid d of None \<Rightarrow> None
     | Some e \<Rightarrow> Some (existing_result (event_id e) (stellar_tx_hash e)))"

definition deductInternal :: "'c soroban \<Rightarrow> millis list \<Rightarrow> billing_env \<Rightarrow> BillingDeductRequest \<Rightarrow>
    'c billing_state \<Rightarrow> BillingDeductResult \<times> 'c billing_state" where
  "deductInternal client delays env r s = (case parseUsdcToContractUnits (amountUsdc r) of
       Inl e \<Rightarrow> (deduct_failure [] False (normalizeErrorMessage e), s)
     | Inr amount \<Rightarrow>
    (case getByRequestId (requestId r) (db s) of
       Some existing \<Rightarrow> (existing\<lparr>alreadyProcessed := True\<rparr>, s)
     | None \<Rightarrow>
    (case getBalance client (userId r) (chain s) of
       Inl e \<Rightarrow> (deduct_failure [] False (''Balance check failed: '' @ normalizeErrorMessage e), s)
     | Inr available \<Rightarrow>
     if available < amount
     then (deduct_failure [] False (''Insufficient balance: required '' @ show_int amount @
             '' units, available '' @ show_int available), s)
     else
    (case runPhase1 env r (commit_others (before_phase1 env) (db s)) of
       (Inl err, d1) \<Rightarrow>
         (case (err, find_event (requestId r) d1) of
            (UniqueViolation, Some e) \<Rightarrow> (existing_result (event_id e) (stellar_tx_hash e), s\<lparr>db := d1\<rparr>)
          | _ \<Rightarrow> (deduct_failure [] False (db_message err), s\<lparr>db := d1\<rparr>))
     | (Inr phase1, d1) \<Rightarrow>
         if alreadyExists phase1 then (existing_result (p1_event phase1) (p1_txHash phase1), s\<lparr>db := d1\<rparr>)
         else
        (case executeDeductWithRetry client delays (userId r) (show_int amount)
            (case idempotencyKey r of None \<Rightarrow> requestId r | Some k \<Rightarrow> k) (chain s) of
           (Inl e, c1) \<Rightarrow>
             (deduct_failure (show_nat (p1_event phase1)) True (normalizeErrorMessage e), s\<lparr>db := d1, chain := c1\<rparr>)
         | (Inr tx, c1) \<Rightarrow>
             (\<lparr>success = True, usageEventId = show_nat (p1_event phase1), stellarTxHash = Some tx,
               alreadyProcessed = False, deductionApplied = True, reconciliationRequired = False,
               error_text = None\<rparr>,
              s\<lparr>db := runPhase3 env (p1_event phase1) tx d1, chain := c1\<rparr>))))))"

text \<open>\<open>deduct\<close> runs \<open>deductInternal\<close> in the only slot of its user.\<close>

definition deduct :: "'c soroban \<Rightarrow> millis list \<Rightarrow> billing_env \<Rightarrow> BillingDeductRequest \<Rightarrow>
    'c billing_state \<Rightarrow> BillingDeductResult \<times> 'c billing_state" where
  "deduct client delays env r s = deductInternal client delays env r s"

section \<open>Bulk deductions\<close>

fun parse_amounts :: "BillingDeductRequest list \<Rightarrow> int \<Rightarrow> (string, int) js_map \<Rightarrow>
    (int \<times> (string, int) js_map) result" where
  "parse_amounts [] acc m = Inr (acc, m)"
| "parse_amounts (r # rs) acc m = (case parseUsdcToContractUnits (amountUsdc r) of
       Inl e \<Rightarrow> Inl e
     | Inr a \<Rightarrow> parse_amounts rs (acc + a) (map_set (requestId r) a m))"

definition getUsageEventsByRequestIds :: "string list \<Rightarrow> billing_db \<Rightarrow> (string, usage_event) js_map" where
  "getUsageEventsByRequestIds rids d = (if rids = [] then []
     else fold (\<lambda>e m. map_set (ue_request e) e m) (filter (\<lambda>e. ue_request e \<in> set rids) (usage_events d)) [])"

definition amount_of :: "(string, int) js_map \<Rightarrow> string \<Rightarrow> int" where
  "amount_of m rid = (case map_get m rid of None \<Rightarrow> 0 | Some a \<Rightarrow> a)"

text \<open>The insert loop of the bulk transaction.\<close>

fun insert_all :: "BillingDeductRequest list \<Rightarrow> (string, usage_event) js_map \<Rightarrow> (string \<times> nat) list \<Rightarrow>
    billing_db \<Rightarrow> db_error + ((string, usage_event) js_map \<times> (string \<times> nat) list \<times> billing_db)" where
  "insert_all [] rows inserted d = Inr (rows, inserted, d)"
| "insert_all (r # rs) rows inserted d =
    (if map_get rows (requestId r) \<noteq> None then insert_all rs rows inserted d
     else (case insert_event r d of
         Inl e \<Rightarrow> Inl e
       | Inr (i, d1) \<Rightarrow> insert_all rs (map_set (requestId r) (pending_event i r) rows)
           (inserted @ [(requestId r, i)]) d1))"

definition runPhase1Bulk :: "billing_env \<Rightarrow> BillingDeductRequest list \<Rightarrow> billing_db \<Rightarrow>
    (db_error + ((string, usage_event) js_map \<times> (string \<times> nat) list)) \<times> billing_db" where
  "runPhase1Bulk env rs d =
    (let rows = getUsageEventsByRequestIds (map requestId rs) d;
         d1 = commit_others (inside_phase1 env) d in
     case phase1_fault env of
       Some e \<Rightarrow> (Inl (DbError e), d1)
     | None \<Rightarrow> (case insert_all rs rows [] d1 of
           Inl e \<Rightarrow> (Inl e, d1)
         | Inr (rows', inserted, d2) \<Rightarrow> (Inr (rows', inserted), d2)))"

definition runPhase3Bulk :: "billing_env \<Rightarrow> nat list \<Rightarrow> string \<Rightarrow> billing_db \<Rightarrow> billing_db" where
  "runPhase3Bulk env ids tx d = (if ids = [] then d else if phase3_fault env then d else set_hash ids tx d)"

definition bulk_failure :: "nat \<Rightarrow> string \<Rightarrow> string \<Rightarrow> BulkDeductResult" where
  "bulk_failure n amount msg = \<lparr>bulk_success = False, bulk_results = [], entryCount = n, deductedCount = 0,
     totalDeductedAmountUsdc = amount, bulk_txHash = None, bulk_error = Some msg\<rparr>"

text \<open>The entry for a request whose row already existed; \<open>None\<close> is the lookup that throws.\<close>

definition existing_entry :: "(string, usage_event) js_map \<Rightarrow> BillingDeductRequest \<Rightarrow> BulkEntryResult option" where
  "existing_entry rows r = (case map_get rows (requestId r) of None \<Rightarrow> None
     | Some e \<Rightarrow> Some \<lparr>entry_requestId = requestId r, entry_eventId = show_nat (event_id e),
         entry_txHash = stellar_tx_hash e, entry_processed = True,
         entry_applied = js_bool (stellar_tx_hash e), entry_reconcile = (stellar_tx_hash e = None)\<rparr>)"

definition failed_entry :: "(string, usage_event) js_map \<Rightarrow> string list \<Rightarrow> BillingDeductRequest \<Rightarrow>
    BulkEntryResult option" where
  "failed_entry rows inserted r = (case map_get rows (requestId r) of None \<Rightarrow> None
     | Some e \<Rightarrow> (let wasInserted = (requestId r \<in> set inserted) in
         Some \<lparr>entry_requestId = requestId r, entry_eventId = show_nat (event_id e),
           entry_txHash = stellar_tx_hash e, entry_processed = (\<not> wasInserted),
           entry_applied = (\<not> wasInserted \<and> js_bool (stellar_tx_hash e)),
           entry_reconcile = (wasInserted \<or> stellar_tx_hash e = None)\<rparr>))"

definition charged_entry :: "(string, usage_event) js_map \<Rightarrow> string list \<Rightarrow> string \<Rightarrow> BillingDeductRequest \<Rightarrow>
    BulkEntryResult option" where
  "charged_entry rows inserted tx r = (case map_get rows (requestId r) of None \<Rightarrow> None
     | Some e \<Rightarrow> (let wasInserted = (requestId r \<in> set inserted) in
         Some \<lparr>entry_requestId = requestId r, entry_eventId = show_nat (event_id e),
           entry_txHash = (if wasInserted then Some tx else stellar_tx_hash e),
           entry_processed = (\<not> wasInserted),
           entry_applied = (wasInserted \<or> js_bool (stellar_tx_hash e)),
           entry_reconcile = (\<not> wasInserted \<and> stellar_tx_hash e = None)\<rparr>))"

fun all_some :: "'a option list \<Rightarrow> 'a list option" where
  "all_some [] = Some []"
| "all_some (None # xs) = None"
| "all_some (Some x # xs) = (case all_some xs of None \<Rightarrow> None | Some ys \<Rightarrow> Some (x # ys))"

definition bulk_answer :: "bool \<Rightarrow> BulkEntryResult option list \<Rightarrow> nat \<Rightarrow> string \<Rightarrow> string option \<Rightarrow>
    string option \<Rightarrow> BulkDeductResult result" where
  "bulk_answer ok entries n amount tx err = (case all_some entries of
       None \<Rightarrow> Inl (Error ''Cannot read properties of undefined'')
     | Some es \<Rightarrow> Inr \<lparr>bulk_success = ok, bulk_results = es, entryCount = length es, deductedCount = n,
         totalDeductedAmountUsdc = amount, bulk_txHash = tx, bulk_error = err\<rparr>)"

definition deductBulkInternal :: "(string \<Rightarrow> string) \<Rightarrow> 'c soroban \<Rightarrow> millis list \<Rightarrow> billing_env \<Rightarrow>
    BillingDeductRequest list \<Rightarrow> string option \<Rightarrow> 'c billing_state \<Rightarrow>
    BulkDeductResult result \<times> 'c billing_state" where
  "deductBulkInternal sha256 client delays env rs key s =
   (case parse_amounts rs 0 [] of
      Inl e \<Rightarrow> (Inr (bulk_failure (length rs) ''0'' (normalizeErrorMessage e)), s)
    | Inr (totalRequested, amounts) \<Rightarrow>
   (let existingRows = getUsageEventsByRequestIds (map requestId rs) (db s);
        totalNew = sum_list (map (\<lambda>r. amount_of amounts (requestId r))
          (filter (\<lambda>r. map_get existingRows (requestId r) = None) rs));
        precheck = (if totalNew > 0 then
            (case getBalance client (userId (hd rs)) (chain s) of
               Inl e \<Rightarrow> Some (bulk_failure (length rs) ''0'' (''Balance check failed: '' @ normalizeErrorMessage e))
             | Inr available \<Rightarrow> if available < totalNew
                 then Some (bulk_failure (length rs) (formatContractUnitsToUsdc totalRequested)
                   (''Insufficient balance: required '' @ show_int totalNew @ '' units, available '' @ show_int available))
                 else None)
          else None) in
    case precheck of Some failure \<Rightarrow> (Inr failure, s)
    | None \<Rightarrow>
   (case runPhase1Bulk env rs (commit_others (before_phase1 env) (db s)) of
      (Inl UniqueViolation, d1) \<Rightarrow>
        (bulk_answer True (map (existing_entry (getUsageEventsByRequestIds (map requestId rs) d1)) rs)
           0 ''0'' None None, s\<lparr>db := d1\<rparr>)
    | (Inl (DbError e), d1) \<Rightarrow> (Inr (bulk_failure (length rs) ''0'' (normalizeErrorMessage e)), s\<lparr>db := d1\<rparr>)
    | (Inr (rows, inserted), d1) \<Rightarrow>
       (let insertedIds = map fst inserted; totalInserted = sum_list (map (amount_of amounts) insertedIds) in
        if inserted = [] then (bulk_answer True (map (existing_entry rows) rs) 0 ''0'' None None, s\<lparr>db := d1\<rparr>)
        else (case executeDeductWithRetry client delays (userId (hd rs)) (show_int totalInserted)
            (case key of None \<Rightarrow> buildBulkDeductIdempotencyKey sha256 (remdups insertedIds) | Some k \<Rightarrow> k) (chain s) of
          (Inl e, c1) \<Rightarrow>
            (bulk_answer False (map (failed_entry rows insertedIds) rs) 0 ''0'' None
               (Some (normalizeErrorMessage e)), s\<lparr>db := d1, chain := c1\<rparr>)
        | (Inr tx, c1) \<Rightarrow>
            (bulk_answer True (map (charged_entry rows insertedIds tx) rs) (length inserted)
               (formatContractUnitsToUsdc totalInserted) (Some tx) None,
             s\<lparr>db := runPhase3Bulk env (map snd inserted) tx d1, chain := c1\<rparr>))))))"

definition deductBulk :: "(string \<Rightarrow> string) \<Rightarrow> 'c soroban \<Rightarrow> millis list \<Rightarrow> billing_env \<Rightarrow>
    BillingDeductRequest list \<Rightarrow> string option \<Rightarrow> 'c billing_state \<Rightarrow>
    BulkDeductResult result \<times> 'c billing_state" where
  "deductBulk sha256 client delays env rs key s = (case rs of
       [] \<Rightarrow> (Inr (bulk_failure 0 ''0'' ''At least one billing deduction entry is required''), s)
     | first # _ \<Rightarrow>
        if \<exists>r \<in> set rs. userId r \<noteq> userId first
        then (Inr (bulk_failure (length rs) ''0'' ''Bulk billing deductions must target a single user''), s)
        else deductBulkInternal sha256 client delays env rs key s)"

section \<open>The bulk route\<close>

record BulkDeductItemResult =
  item_requestId :: string
  item_success :: bool
  item_eventId :: "string option"
  item_txHash :: "string option"
  item_processed :: "bool option"
  item_error :: "string option"

definition item_result :: "BillingDeductRequest \<Rightarrow> BillingDeductResult \<Rightarrow> BulkDeductItemResult" where
  "item_result r res =
    (if success res
     then \<lparr>item_requestId = requestId r, item_success = True, item_eventId = Some (usageEventId res),
           item_txHash = stellarTxHash res, item_processed = Some (alreadyProcessed res), item_error = None\<rparr>
     else \<lparr>item_requestId = requestId r, item_success = False, item_eventId = None, item_txHash = None,
           item_processed = None,
           item_error = Some (case error_text res of None \<Rightarrow> ''Deduction failed'' | Some m \<Rightarrow> m)\<rparr>)"

primrec bulk_route :: "'c soroban \<Rightarrow> millis list \<Rightarrow> (BillingDeductRequest \<times> billing_env) list \<Rightarrow>
    'c billing_state \<Rightarrow> BulkDeductItemResult list \<times> 'c billing_state" where
  "bulk_route client delays [] s = ([], s)"
| "bulk_route client delays (x # xs) s =
    (case deduct client delays (snd x) (fst x) s of (res, s1) \<Rightarrow>
      (case bulk_route client delays xs s1 of (rest, s2) \<Rightarrow> (item_result (fst x) res # rest, s2)))"

section \<open>Lookups in the table\<close>

lemma find_event_insert:
  assumes "insert_event r d = Inr (i, d')"
  shows "find_event rid d' = (if rid = requestId r then Some (pending_event i r) else find_event rid d)"
    "find_event (requestId r) d = None" "i = next_event_id d"
  using assms
  by (auto simp: insert_event_def find_event_def find_append pending_event_def split: if_splits option.split)

lemma insert_event_fresh: "find_event (requestId r) d = None \<Longrightarrow> \<exists>d'. insert_event r d = Inr (next_event_id d, d')"
  by (simp add: insert_event_def)

lemma find_event_commit_others:
  "find_event rid d = Some e \<Longrightarrow> find_event rid (commit_others rs d) = Some e"
proof (induction rs arbitrary: d)
  case (Cons r rs)
  have "find_event rid (case insert_event r d of Inl _ \<Rightarrow> d | Inr (_, d') \<Rightarrow> d') = Some e"
    using Cons.prems find_event_insert [of r d] by (auto split: sum.split)
  with Cons.IH show ?case by (simp add: commit_others_def)
qed (simp add: commit_others_def)

lemma find_event_set_hash:
  "find_event rid (set_hash ids tx d) = map_option (\<lambda>e. if event_id e \<in> set ids
     then e\<lparr>stellar_tx_hash := Some tx\<rparr> else e) (find_event rid d)"
proof -
  let ?f = "\<lambda>e. if event_id e \<in> set ids then e\<lparr>stellar_tx_hash := Some tx\<rparr> else e"
  have "List.find (\<lambda>e. ue_request e = rid) (map ?f es) = map_option ?f (List.find (\<lambda>e. ue_request e = rid) es)" for es
    by (induction es) auto
  then show ?thesis by (simp add: find_event_def set_hash_def)
qed

section \<open>Retries\<close>

text \<open>The client with a counter of the calls it received.\<close>

definition counted :: "'c soroban \<Rightarrow> ('c \<times> nat) soroban" where
  "counted client = \<lparr>getBalance = \<lambda>u c. getBalance client u (fst c),
     deductBalance = \<lambda>u a k c. (case deductBalance client u a k (fst c) of (r, c1) \<Rightarrow> (r, (c1, Suc (snd c))))\<rparr>"

lemma retry_counted:
  "\<exists>m. executeDeductWithRetry (counted client) delays u a k (c, n) =
     (fst (executeDeductWithRetry client delays u a k c), (snd (executeDeductWithRetry client delays u a k c), m)) \<and>
   n < m \<and> m \<le> n + length delays + 1 \<and>
   (m < n + length delays + 1 \<longrightarrow>
     (case fst (executeDeductWithRetry client delays u a k c) of Inr _ \<Rightarrow> True | Inl e \<Rightarrow> \<not> isTransientSorobanError e))"
proof (induction delays arbitrary: c n)
  case Nil
  show ?case
    by (cases "deductBalance client u a k c"; cases "fst (deductBalance client u a k c)")
      (auto simp: counted_def executeDeductWithRetry.simps [of _ "[]"])
next
  case (Cons t ts)
  obtain r c1 where r: "deductBalance client u a k c = (r, c1)" by (cases "deductBalance client u a k c")
  have rc: "deductBalance (counted client) u a k (c, n) = (r, (c1, Suc n))" using r by (simp add: counted_def)
  show ?case
  proof (cases "\<exists>e. r = Inl e \<and> isTransientSorobanError e")
    case True
    with r rc Cons.IH [of c1 "Suc n"] show ?thesis by (auto simp: executeDeductWithRetry.simps [of _ "t # ts"])
  next
    case False
    with r rc show ?thesis by (cases r) (auto simp: executeDeductWithRetry.simps [of _ "t # ts"])
  qed
qed

section \<open>The ledger behind the client\<close>

text \<open>
  What the service relies on: a reported balance is the balance, and a deduction under an
  idempotency key takes effect at most once. It may take effect although the call reports an
  error; it does take effect when the call reports a transaction hash.
\<close>

definition idempotent_ledger :: "('c \<Rightarrow> string \<Rightarrow> int) \<Rightarrow> ('c \<Rightarrow> string set) \<Rightarrow> 'c soroban \<Rightarrow> bool" where
  "idempotent_ledger bal applied client \<longleftrightarrow>
    (\<forall>u c b. getBalance client u c = Inr b \<longrightarrow> b = bal c u) \<and>
    (\<forall>u a k c. case deductBalance client u (show_int a) k c of (r, c') \<Rightarrow>
       if k \<in> applied c then bal c' = bal c \<and> applied c' = applied c
       else (isl r \<and> bal c' = bal c \<and> applied c' = applied c) \<or>
            (bal c' = (bal c)(u := bal c u - a) \<and> applied c' = insert k (applied c)))"

definition charged :: "('c \<Rightarrow> string \<Rightarrow> int) \<Rightarrow> string \<Rightarrow> int \<Rightarrow> 'c \<Rightarrow> 'c \<Rightarrow> bool" where
  "charged bal u a c c' \<longleftrightarrow> bal c' = (bal c)(u := bal c u - a)"

lemma ledger_deduct:
  assumes "idempotent_ledger bal applied client" and "deductBalance client u (show_int a) k c = (r, c')"
  shows "if k \<in> applied c then bal c' = bal c \<and> applied c' = applied c
     else (isl r \<and> bal c' = bal c \<and> applied c' = applied c) \<or>
          (charged bal u a c c' \<and> applied c' = insert k (applied c))"
proof -
  from assms(1) have "case deductBalance client u (show_int a) k c of (r, c') \<Rightarrow>
       if k \<in> applied c then bal c' = bal c \<and> applied c' = applied c
       else (isl r \<and> bal c' = bal c \<and> applied c' = applied c) \<or>
            (bal c' = (bal c)(u := bal c u - a) \<and> applied c' = insert k (applied c))"
    by (simp add: idempotent_ledger_def)
  with assms(2) show ?thesis by (simp add: charged_def)
qed

lemma ledger_retry:
  assumes l: "idempotent_ledger bal applied client"
  shows "executeDeductWithRetry client delays u (show_int a) k c = (r, c') \<Longrightarrow>
    if k \<in> applied c then bal c' = bal c \<and> applied c' = applied c
    else (isl r \<and> bal c' = bal c \<and> applied c' = applied c) \<or>
         (charged bal u a c c' \<and> applied c' = insert k (applied c))"
proof (induction delays arbitrary: c)
  case Nil
  from Nil obtain r1 where "deductBalance client u (show_int a) k c = (r1, c')" "r1 = r"
    by (auto simp: executeDeductWithRetry.simps [of _ "[]"] split: prod.splits sum.splits if_splits)
  with ledger_deduct [OF l] show ?case by blast
next
  case (Cons t ts)
  obtain r1 c1 where d: "deductBalance client u (show_int a) k c = (r1, c1)"
    by (cases "deductBalance client u (show_int a) k c")
  note ld = ledger_deduct [OF l d]
  show ?case
  proof (cases "\<exists>e. r1 = Inl e \<and> isTransientSorobanError e")
    case True
    with d Cons.prems have "executeDeductWithRetry client ts u (show_int a) k c1 = (r, c')"
      by (auto simp: executeDeductWithRetry.simps [of _ "t # ts"])
    from Cons.IH [OF this] ld show ?thesis by (auto simp: charged_def split: if_splits)
  next
    case False
    with d Cons.prems have "r = r1 \<and> c' = c1"
      by (cases r1) (auto simp: executeDeductWithRetry.simps [of _ "t # ts"])
    with ld show ?thesis by simp
  qed
qed

section \<open>Single deductions\<close>

lemma deduct_existing:
  assumes "find_event (requestId r) (db s) = Some e"
  shows "deduct client delays env r s = (case parseUsdcToContractUnits (amountUsdc r) of
      Inl err \<Rightarrow> (deduct_failure [] False (normalizeErrorMessage err), s)
    | Inr _ \<Rightarrow> (existing_result (event_id e) (stellar_tx_hash e), s))"
  using assms
  by (simp add: deduct_def deductInternal_def getByRequestId_def existing_result_def split: sum.split)

text \<open>The possible outcomes of one call, by the branch it takes.\<close>

lemma deduct_cases:
  obtains (invalid) err where "parseUsdcToContractUnits (amountUsdc r) = Inl err"
      "deduct client delays env r s = (deduct_failure [] False (normalizeErrorMessage err), s)"
  | (refused) m where "deduct client delays env r s = (deduct_failure [] False m, s)"
      "find_event (requestId r) (db s) = None"
  | (no_row) m d1 where "deduct client delays env r s = (deduct_failure [] False m, s\<lparr>db := d1\<rparr>)"
  | (found) e d1 a where "deduct client delays env r s = (existing_result (event_id e) (stellar_tx_hash e), s\<lparr>db := d1\<rparr>)"
      "find_event (requestId r) d1 = Some e" "parseUsdcToContractUnits (amountUsdc r) = Inr a"
  | (soroban_failed) a available d0 d1 i err c1 where "parseUsdcToContractUnits (amountUsdc r) = Inr a"
      "getBalance client (userId r) (chain s) = Inr available" "a \<le> available"
      "insert_event r d0 = Inr (i, d1)"
      "executeDeductWithRetry client delays (userId r) (show_int a)
         (case idempotencyKey r of None \<Rightarrow> requestId r | Some k \<Rightarrow> k) (chain s) = (Inl err, c1)"
      "deduct client delays env r s =
         (deduct_failure (show_nat i) True (normalizeErrorMessage err), s\<lparr>db := d1, chain := c1\<rparr>)"
  | (settled) a available d0 d1 i tx c1 where "parseUsdcToContractUnits (amountUsdc r) = Inr a"
      "getBalance client (userId r) (chain s) = Inr available" "a \<le> available"
      "insert_event r d0 = Inr (i, d1)"
      "executeDeductWithRetry client delays (userId r) (show_int a)
         (case idempotencyKey r of None \<Rightarrow> requestId r | Some k \<Rightarrow> k) (chain s) = (Inr tx, c1)"
      "deduct client delays env r s =
         (\<lparr>success = True, usageEventId = show_nat i, stellarTxHash = Some tx, alreadyProcessed = False,
           deductionApplied = True, reconciliationRequired = False, error_text = None\<rparr>,
          s\<lparr>db := runPhase3 env i tx d1, chain := c1\<rparr>)"
proof (cases "parseUsdcToContractUnits (amountUsdc r)")
  case (Inl err)
  then show ?thesis by (intro invalid) (simp_all add: deduct_def deductInternal_def)
next
  case (Inr a)
  let ?d0 = "commit_others (before_phase1 env) (db s)"
  let ?d1 = "commit_others (inside_phase1 env) ?d0"
  let ?k = "case idempotencyKey r of None \<Rightarrow> requestId r | Some k \<Rightarrow> k"
  note un = deduct_def deductInternal_def getByRequestId_def runPhase1_def Let_def
  show ?thesis
  proof (cases "find_event (requestId r) (db s)")
    case (Some e)
    with Inr show ?thesis by (intro found [of e "db s" a]) (simp_all add: deduct_existing)
  next
    case None
    show ?thesis
    proof (cases "\<exists>b. getBalance client (userId r) (chain s) = Inr b \<and> a \<le> b")
      case False
      with None Inr show ?thesis
        by (cases "getBalance client (userId r) (chain s)") (auto simp: un intro: refused)
    next
      case True
      then obtain b where b: "getBalance client (userId r) (chain s) = Inr b" "a \<le> b" by blast
      note pre = Inr None b
      show ?thesis
      proof (cases "find_event (requestId r) ?d0")
        case (Some e)
        with pre show ?thesis by (intro found [of e ?d0 a]) (simp_all add: un)
      next
        case None2: None
        show ?thesis
        proof (cases "phase1_fault env")
          case (Some f)
          with pre None2 show ?thesis by (intro no_row [of "db_message (DbError f)" ?d1]) (simp add: un)
        next
          case None3: None
          show ?thesis
          proof (cases "insert_event r ?d1")
            case (Inl x)
            then obtain e where "x = UniqueViolation" "find_event (requestId r) ?d1 = Some e"
              by (auto simp: insert_event_def split: if_splits)
            with pre None2 None3 Inl show ?thesis by (intro found [of e ?d1 a]) (simp_all add: un)
          next
            case (Inr y)
            obtain i d2 where y: "insert_event r ?d1 = Inr (i, d2)" using Inr by (cases y) auto
            obtain x c1 where x: "executeDeductWithRetry client delays (userId r) (show_int a) ?k (chain s) = (x, c1)"
              by (cases "executeDeductWithRetry client delays (userId r) (show_int a) ?k (chain s)")
            note facts = pre None2 None3 y x
            show ?thesis
            proof (cases x)
              case (Inl err)
              with facts show ?thesis by (intro soroban_failed [of a b ?d1 i d2 err c1]) (simp_all add: un)
            next
              case (Inr tx)
              with facts show ?thesis by (intro settled [of a b ?d1 i d2 tx c1]) (simp_all add: un)
            qed
          qed
        qed
      qed
    qed
  qed
qed

lemma runPhase3_find:
  "find_event rid d = Some e \<Longrightarrow> \<exists>e'. find_event rid (runPhase3 env i tx d) = Some e' \<and> event_id e' = event_id e"
  by (simp add: runPhase3_def find_event_set_hash)

text \<open>A call that reports a usage event leaves the row of that event in the table.\<close>

lemma deduct_leaves_row:
  assumes "deduct client delays env r s = (res, s1)" and "usageEventId res \<noteq> []"
  shows "\<exists>e a. find_event (requestId r) (db s1) = Some e \<and> show_nat (event_id e) = usageEventId res \<and>
    parseUsdcToContractUnits (amountUsdc r) = Inr a"
  using assms
proof (cases rule: deduct_cases [of r client delays env s])
  case (soroban_failed a available d0 d1 i err c1)
  with assms find_event_insert(1) [OF soroban_failed(4), of "requestId r"] show ?thesis
    by (auto simp: deduct_failure_def pending_event_def)
next
  case (settled a available d0 d1 i tx c1)
  from find_event_insert(1) [OF settled(4), of "requestId r"]
  have "find_event (requestId r) d1 = Some (pending_event i r)" by simp
  from runPhase3_find [OF this, of env i tx] settled assms show ?thesis
    by (auto simp: pending_event_def)
qed (auto simp: deduct_failure_def existing_result_def)

lemma existing_row_no_effect:
  assumes "find_event (requestId r) (db s) = Some e" and "parseUsdcToContractUnits (amountUsdc r) = Inr a"
  shows "deduct client delays env r s = (existing_result (event_id e) (stellar_tx_hash e), s)"
  using assms by (simp add: deduct_existing)

section \<open>Bulk deductions\<close>

definition new_requests :: "BillingDeductRequest list \<Rightarrow> billing_db \<Rightarrow> BillingDeductRequest list" where
  "new_requests rs d = filter (\<lambda>r. find_event (requestId r) d = None) rs"

definition units_of :: "BillingDeductRequest \<Rightarrow> int" where
  "units_of r = (case parseUsdcToContractUnits (amountUsdc r) of Inl _ \<Rightarrow> 0 | Inr a \<Rightarrow> a)"

definition quiet :: billing_env where
  "quiet = \<lparr>before_phase1 = [], inside_phase1 = [], phase1_fault = None, phase3_fault = False\<rparr>"

lemma fold_map_set_None:
  "map_get (fold (\<lambda>e m. map_set (f e) e m) es m) k = None \<longleftrightarrow> map_get m k = None \<and> (\<forall>e \<in> set es. f e \<noteq> k)"
  by (induction es arbitrary: m) (auto simp: jsmap)

lemma events_by_ids_None:
  assumes "rid \<in> set rids"
  shows "map_get (getUsageEventsByRequestIds rids d) rid = None \<longleftrightarrow> find_event rid d = None"
  using assms
  by (auto simp: getUsageEventsByRequestIds_def fold_map_set_None find_event_def find_None_iff)

lemma parse_amounts_lookup:
  assumes "parse_amounts rs acc m = Inr (t, m')" and "distinct (map requestId rs)"
  shows "map_get m' k = (case List.find (\<lambda>r. requestId r = k) rs of None \<Rightarrow> map_get m k | Some r \<Rightarrow> Some (units_of r))"
  using assms
proof (induction rs arbitrary: acc m)
  case (Cons r rs)
  from Cons.prems obtain a where a: "parseUsdcToContractUnits (amountUsdc r) = Inr a"
    "parse_amounts rs (acc + a) (map_set (requestId r) a m) = Inr (t, m')"
    by (auto split: sum.splits)
  have u: "units_of r = a" using a(1) by (simp add: units_of_def)
  show ?case
  proof (cases "requestId r = k")
    case True
    with Cons.prems(2) have "List.find (\<lambda>r. requestId r = k) rs = None"
      by (fastforce simp: find_None_iff image_iff)
    with Cons.IH [OF a(2)] Cons.prems(2) True u show ?thesis by (simp add: jsmap)
  next
    case False
    with Cons.IH [OF a(2)] Cons.prems(2) show ?thesis by (simp add: jsmap split: option.split)
  qed
qed simp

lemma find_self: "distinct (map f rs) \<Longrightarrow> r \<in> set rs \<Longrightarrow> List.find (\<lambda>x. f x = f r) rs = Some r"
  by (induction rs) auto

lemma amount_of_units:
  assumes "parse_amounts rs acc [] = Inr (t, m)" and "distinct (map requestId rs)" and "r \<in> set rs"
  shows "amount_of m (requestId r) = units_of r"
  using parse_amounts_lookup [OF assms(1,2), of "requestId r"] find_self [OF assms(2,3)]
  by (simp add: amount_of_def)

lemma insert_all_distinct:
  assumes "distinct (map requestId rs)"
    and "\<forall>r \<in> set rs. map_get rows (requestId r) = None \<longleftrightarrow> find_event (requestId r) d = None"
  shows "\<exists>rows' ins d'. insert_all rs rows acc d = Inr (rows', acc @ ins, d') \<and>
    map fst ins = map requestId (new_requests rs d) \<and>
    (\<forall>r \<in> set (new_requests rs d). \<exists>e. find_event (requestId r) d' = Some e \<and> ue_amount e = amountUsdc r \<and>
       event_id e \<in> snd ` set ins) \<and>
    (\<forall>rid e. find_event rid d = Some e \<longrightarrow> find_event rid d' = Some e) \<and>
    (\<forall>r \<in> set rs. map_get rows' (requestId r) \<noteq> None) \<and>
    (\<forall>k. map_get rows k \<noteq> None \<longrightarrow> map_get rows' k \<noteq> None)"
  using assms
proof (induction rs arbitrary: rows acc d)
  case Nil
  show ?case by (simp add: new_requests_def)
next
  case (Cons r rs)
  show ?case
  proof (cases "find_event (requestId r) d = None")
    case False
    then have n: "new_requests (r # rs) d = new_requests rs d" by (simp add: new_requests_def)
    from Cons.IH [of rows d acc] Cons.prems False show ?thesis unfolding n by auto
  next
    case True
    then obtain d1 where d1: "insert_event r d = Inr (next_event_id d, d1)" using insert_event_fresh by blast
    let ?i = "next_event_id d" and ?rows = "map_set (requestId r) (pending_event (next_event_id d) r) rows"
    note f = find_event_insert(1) [OF d1]
    have n: "new_requests (r # rs) d = r # new_requests rs d1" "new_requests rs d1 = new_requests rs d"
      using True Cons.prems(1) f by (fastforce simp: new_requests_def image_iff intro!: filter_cong)+
    have "\<forall>r' \<in> set rs. map_get ?rows (requestId r') = None \<longleftrightarrow> find_event (requestId r') d1 = None"
      using Cons.prems f by (auto simp: jsmap)
    from Cons.IH [OF _ this, of "acc @ [(requestId r, ?i)]"] Cons.prems(1) obtain rows' ins d'
      where ih: "insert_all rs ?rows (acc @ [(requestId r, ?i)]) d1 = Inr (rows', (acc @ [(requestId r, ?i)]) @ ins, d')"
        "map fst ins = map requestId (new_requests rs d1)"
        "\<forall>r \<in> set (new_requests rs d1). \<exists>e. find_event (requestId r) d' = Some e \<and> ue_amount e = amountUsdc r \<and>
           event_id e \<in> snd ` set ins"
        "\<forall>rid e. find_event rid d1 = Some e \<longrightarrow> find_event rid d' = Some e"
        "\<forall>r \<in> set rs. map_get rows' (requestId r) \<noteq> None"
        "\<forall>k. map_get ?rows k \<noteq> None \<longrightarrow> map_get rows' k \<noteq> None"
      by auto
    have own: "find_event (requestId r) d' = Some (pending_event ?i r)" using ih(4) f by simp
    have old: "find_event rid d' = Some e" if "find_event rid d = Some e" for rid e
      using ih(4) f that True by (metis option.distinct(1))
    have "insert_all (r # rs) rows acc d = Inr (rows', acc @ ((requestId r, ?i) # ins), d')"
      using Cons.prems(2) True d1 ih(1) by simp
    moreover have "\<exists>e. find_event (requestId r) d' = Some e \<and> ue_amount e = amountUsdc r \<and>
        event_id e \<in> snd ` set ((requestId r, ?i) # ins)"
      using own by (simp add: pending_event_def)
    moreover have "\<forall>k. map_get rows k \<noteq> None \<longrightarrow> map_get rows' k \<noteq> None" "map_get rows' (requestId r) \<noteq> None"
      using ih(6) by (auto simp: jsmap)
    moreover have "\<forall>r' \<in> set (new_requests rs d1). \<exists>e. find_event (requestId r') d' = Some e \<and>
        ue_amount e = amountUsdc r' \<and> event_id e \<in> snd ` set ((requestId r, ?i) # ins)"
      using ih(3) by fastforce
    ultimately show ?thesis
      using ih(2,5) old n
      by (intro exI [of _ rows'] exI [of _ "(requestId r, ?i) # ins"] exI [of _ d'])
        (simp del: insert_all.simps)
  qed
qed

lemma all_some_map: "\<forall>x \<in> set xs. f x \<noteq> None \<Longrightarrow> all_some (map f xs) = Some (map (the \<circ> f) xs)"
  by (induction xs) auto

lemma commit_none [simp]: "commit_others [] d = d"
  by (simp add: commit_others_def)

text \<open>The whole bulk call with nobody else at work, once it passed its checks.\<close>

lemma runPhase1Bulk_quiet:
  assumes "distinct (map requestId rs)"
  obtains rows ins d1 where "runPhase1Bulk quiet rs d = (Inr (rows, ins), d1)"
    "map fst ins = map requestId (new_requests rs d)"
    "\<forall>r \<in> set (new_requests rs d). \<exists>e. find_event (requestId r) d1 = Some e \<and> ue_amount e = amountUsdc r \<and>
       event_id e \<in> snd ` set ins"
    "\<forall>r \<in> set rs. map_get rows (requestId r) \<noteq> None"
proof -
  let ?rows = "getUsageEventsByRequestIds (map requestId rs) d"
  have "\<forall>r \<in> set rs. map_get ?rows (requestId r) = None \<longleftrightarrow> find_event (requestId r) d = None"
    by (simp add: events_by_ids_None)
  from insert_all_distinct [OF assms this, of "[]"] obtain rows' ins d'
    where i: "insert_all rs ?rows [] d = Inr (rows', ins, d')"
      "map fst ins = map requestId (new_requests rs d)"
      "\<forall>r \<in> set (new_requests rs d). \<exists>e. find_event (requestId r) d' = Some e \<and> ue_amount e = amountUsdc r \<and>
       event_id e \<in> snd ` set ins"
      "\<forall>r \<in> set rs. map_get rows' (requestId r) \<noteq> None" by auto
  show ?thesis
    by (rule that [of rows' ins d']) (use i in \<open>simp_all add: runPhase1Bulk_def quiet_def\<close>)
qed

lemma bulk_sums:
  assumes "parse_amounts rs 0 [] = Inr (t, m)" and "distinct (map requestId rs)"
  shows "sum_list (map (amount_of m) (map requestId (new_requests rs d))) = sum_list (map units_of (new_requests rs d))"
    "sum_list (map (\<lambda>r. amount_of m (requestId r))
       (filter (\<lambda>r. map_get (getUsageEventsByRequestIds (map requestId rs) d) (requestId r) = None) rs)) =
     sum_list (map units_of (new_requests rs d))"
proof -
  have "filter (\<lambda>r. map_get (getUsageEventsByRequestIds (map requestId rs) d) (requestId r) = None) rs =
      new_requests rs d"
    unfolding new_requests_def by (rule filter_cong) (simp_all add: events_by_ids_None)
  moreover have "map (\<lambda>r. amount_of m (requestId r)) (new_requests rs d) = map units_of (new_requests rs d)"
    using amount_of_units [OF assms] by (auto simp: new_requests_def)
  ultimately show "sum_list (map (amount_of m) (map requestId (new_requests rs d))) = sum_list (map units_of (new_requests rs d))"
    "sum_list (map (\<lambda>r. amount_of m (requestId r))
       (filter (\<lambda>r. map_get (getUsageEventsByRequestIds (map requestId rs) d) (requestId r) = None) rs)) =
     sum_list (map units_of (new_requests rs d))"
    by (simp_all only: map_map o_def)
qed

lemma bulk_answer_ok:
  "\<forall>r \<in> set rs. f r \<noteq> None \<Longrightarrow> \<exists>es. bulk_answer ok (map f rs) n amount tx err =
    Inr \<lparr>bulk_success = ok, bulk_results = es, entryCount = length rs, deductedCount = n,
      totalDeductedAmountUsdc = amount, bulk_txHash = tx, bulk_error = err\<rparr>"
  by (simp add: bulk_answer_def all_some_map)

lemma entries_some:
  assumes "\<forall>r \<in> set rs. map_get rows (requestId r) \<noteq> None"
  shows "\<forall>r \<in> set rs. existing_entry rows r \<noteq> None" "\<forall>r \<in> set rs. failed_entry rows ids r \<noteq> None"
    "\<forall>r \<in> set rs. charged_entry rows ids tx r \<noteq> None"
  using assms by (auto simp: existing_entry_def failed_entry_def charged_entry_def Let_def split: option.splits)

lemma set_hash_bulk:
  assumes "\<forall>r \<in> set rs. \<exists>e. find_event (requestId r) d = Some e \<and> ue_amount e = amountUsdc r \<and> event_id e \<in> set ids"
  shows "\<forall>r \<in> set rs. \<exists>e. find_event (requestId r) (set_hash ids tx d) = Some e \<and> ue_amount e = amountUsdc r \<and>
    stellar_tx_hash e = Some tx"
  using assms by (fastforce simp: find_event_set_hash)

lemma parse_amounts_ok:
  "parse_amounts rs acc m = Inr (t, m') \<Longrightarrow> r \<in> set rs \<Longrightarrow> \<exists>a. parseUsdcToContractUnits (amountUsdc r) = Inr a"
  by (induction rs arbitrary: acc m) (auto split: sum.splits)

lemma parse_pos: "parseUsdcToContractUnits x = Inr a \<Longrightarrow> 0 < a"
  by (auto simp: parseUsdcToContractUnits_def Let_def split: prod.splits option.splits if_splits)

lemma new_units_pos:
  assumes "parse_amounts rs acc m = Inr (t, m')" and "new_requests rs d \<noteq> []"
  shows "0 < sum_list (map units_of (new_requests rs d))"
proof -
  have pos: "0 < units_of r" if "r \<in> set (new_requests rs d)" for r
    using parse_amounts_ok [OF assms(1), of r] that parse_pos
    by (fastforce simp: units_of_def new_requests_def)
  obtain r rest where n: "new_requests rs d = r # rest" using assms(2) by (cases "new_requests rs d") auto
  have "0 \<le> sum_list (map units_of rest)"
    using pos n by (intro sum_list_nonneg) (auto intro: less_imp_le)
  with pos [of r] n show ?thesis by simp
qed

text \<open>A successful bulk call with nobody else at work took exactly one of two paths.\<close>

lemma bulk_success_cases:
  assumes "distinct (map requestId rs)" and "deductBulk sha256 client delays quiet rs (Some k) s = (Inr res, s1)"
    and "bulk_success res"
  obtains (nothing_new) "new_requests rs (db s) = []" "deductedCount res = 0" "totalDeductedAmountUsdc res = ''0''"
      "chain s1 = chain s"
  | (charged_new) b tx c1 where "new_requests rs (db s) \<noteq> []"
      "getBalance client (userId (hd rs)) (chain s) = Inr b"
      "sum_list (map units_of (new_requests rs (db s))) \<le> b"
      "executeDeductWithRetry client delays (userId (hd rs))
         (show_int (sum_list (map units_of (new_requests rs (db s))))) k (chain s) = (Inr tx, c1)"
      "deductedCount res = length (new_requests rs (db s))"
      "totalDeductedAmountUsdc res = formatContractUnitsToUsdc (sum_list (map units_of (new_requests rs (db s))))"
      "chain s1 = c1"
      "\<forall>r \<in> set (new_requests rs (db s)). \<exists>e. find_event (requestId r) (db s1) = Some e \<and>
         ue_amount e = amountUsdc r \<and> stellar_tx_hash e = Some tx"
proof -
  let ?new = "new_requests rs (db s)" and ?u = "userId (hd rs)"
  let ?tot = "sum_list (map units_of ?new)"
  have int: "deductBulkInternal sha256 client delays quiet rs (Some k) s = (Inr res, s1)"
    using assms(2,3) by (auto simp: deductBulk_def bulk_failure_def split: list.splits if_splits)
  then obtain t m where pa: "parse_amounts rs 0 [] = Inr (t, m)"
    using assms(3) by (auto simp: deductBulkInternal_def bulk_failure_def split: sum.splits)
  obtain rows ins d1 where p1: "runPhase1Bulk quiet rs (db s) = (Inr (rows, ins), d1)"
    "map fst ins = map requestId ?new"
    "\<forall>r \<in> set ?new. \<exists>e. find_event (requestId r) d1 = Some e \<and> ue_amount e = amountUsdc r \<and> event_id e \<in> snd ` set ins"
    "\<forall>r \<in> set rs. map_get rows (requestId r) \<noteq> None"
    by (rule runPhase1Bulk_quiet [OF assms(1)])
  have q: "before_phase1 quiet = []" "phase3_fault quiet = False" by (simp_all add: quiet_def)
  note sums = bulk_sums [OF pa assms(1), of "db s"] and es = entries_some [OF p1(4)]
  have ln: "length ins = length ?new" using p1(2) by (metis length_map)
  note un = deductBulkInternal_def pa p1(1,2) q sums sums(1) [unfolded map_map] Let_def
  show ?thesis
  proof (cases "?new = []")
    case True
    with ln have "ins = []" by simp
    with int True obtain es where "res = \<lparr>bulk_success = True, bulk_results = es, entryCount = length rs,
        deductedCount = 0, totalDeductedAmountUsdc = ''0'', bulk_txHash = None, bulk_error = None\<rparr>" "chain s1 = chain s"
      using bulk_answer_ok [OF es(1), of True 0 "''0''" None None] by (auto simp: un)
    with True show ?thesis by (intro nothing_new) simp_all
  next
    case False
    with ln have ne: "ins \<noteq> []" "map snd ins \<noteq> []" by auto
    have pos: "0 < ?tot" by (rule new_units_pos [OF pa False])
    from int pos assms(3) obtain b where b: "getBalance client ?u (chain s) = Inr b" "?tot \<le> b"
      by (cases "getBalance client ?u (chain s)") (auto simp: un bulk_failure_def split: if_splits)
    obtain x c1 where x: "executeDeductWithRetry client delays ?u (show_int ?tot) k (chain s) = (x, c1)"
      by (cases "executeDeductWithRetry client delays ?u (show_int ?tot) k (chain s)")
    show ?thesis
    proof (cases x)
      case (Inl e)
      with int pos b x ne bulk_answer_ok [OF es(2) [of "map requestId ?new"], of False 0 "''0''" None "Some (normalizeErrorMessage e)"]
        assms(3)
      have False by (auto simp: un)
      then show ?thesis ..
    next
      case (Inr tx)
      have s1: "s1 = s\<lparr>db := set_hash (map snd ins) tx d1, chain := c1\<rparr>"
        and r: "deductedCount res = length ?new" "totalDeductedAmountUsdc res = formatContractUnitsToUsdc ?tot"
        using int pos b x ne Inr ln
          bulk_answer_ok [OF es(3) [of "map requestId ?new" tx], of True "length ins" "formatContractUnitsToUsdc ?tot" "Some tx" None]
        by (auto simp: un runPhase3Bulk_def)
      have "\<forall>r \<in> set ?new. \<exists>e. find_event (requestId r) (db s1) = Some e \<and> ue_amount e = amountUsdc r \<and>
          stellar_tx_hash e = Some tx"
        using set_hash_bulk [of ?new d1 "map snd ins" tx] p1(3) by (simp add: s1)
      with False b x Inr s1 r show ?thesis by (intro charged_new [of b tx c1]) simp_all
    qed
  qed
qed

section \<open>Properties\<close>

text \<open>What happens between two calls: single and bulk deductions of any request (in any environment, through any client), rows and transaction
  hashes that other processes commit, and anything on the ledger.\<close>

datatype 'c billing_op =
    SingleCall "'c soroban" "millis list" billing_env BillingDeductRequest
  | BulkCall "string \<Rightarrow> string" "'c soroban" "millis list" billing_env "BillingDeductRequest list" "string option"
  | OtherRows "BillingDeductRequest list"
  | OtherHash "nat list" string
  | LedgerChange 'c

fun billing_step :: "'c billing_op \<Rightarrow> 'c billing_state \<Rightarrow> 'c billing_state" where
  "billing_step (SingleCall client delays env r) s = snd (deduct client delays env r s)"
| "billing_step (BulkCall sha client delays env rs key) s = snd (deductBulk sha client delays env rs key s)"
| "billing_step (OtherRows rs) s = s\<lparr>db := commit_others rs (db s)\<rparr>"
| "billing_step (OtherHash ids tx) s = s\<lparr>db := set_hash ids tx (db s)\<rparr>"
| "billing_step (LedgerChange c) s = s\<lparr>chain := c\<rparr>"

definition has_row :: "string \<Rightarrow> nat \<Rightarrow> billing_db \<Rightarrow> bool" where
  "has_row rid i d \<longleftrightarrow> (\<exists>e. find_event rid d = Some e \<and> event_id e = i)"

lemma row_insert: "has_row rid i d \<Longrightarrow> insert_event r d = Inr (j, d') \<Longrightarrow> has_row rid i d'"
  using find_event_insert(1,2) [of r d j d'] by (auto simp: has_row_def)

lemma row_others: "has_row rid i d \<Longrightarrow> has_row rid i (commit_others rs d)"
  by (auto simp: has_row_def dest: find_event_commit_others)

lemma row_hash: "has_row rid i d \<Longrightarrow> has_row rid i (set_hash ids tx d)"
  unfolding has_row_def find_event_set_hash by (erule exE) (simp split: if_split)

lemma row_insert_all: "has_row rid i d \<Longrightarrow> insert_all rs rows ins d = Inr (rows', ins', d') \<Longrightarrow> has_row rid i d'"
  by (induction rs arbitrary: rows ins d) (auto split: if_splits sum.splits dest: row_insert)

lemma row_phase1: "has_row rid i d \<Longrightarrow> has_row rid i (snd (runPhase1 env r d))"
  by (auto simp: runPhase1_def Let_def split: option.split sum.split intro: row_others row_insert)

lemma row_phase1_bulk: "has_row rid i d \<Longrightarrow> has_row rid i (snd (runPhase1Bulk env rs d))"
  by (auto simp: runPhase1Bulk_def Let_def split: option.split sum.split intro: row_others row_insert_all)

lemma row_deduct:
  assumes "has_row rid i (db s)"
  shows "has_row rid i (db (snd (deduct client delays env r s)))"
  using row_phase1 [OF row_others [OF assms], of env r "before_phase1 env"] assms
  by (auto simp: deduct_def deductInternal_def runPhase3_def row_hash split: sum.split option.split prod.split db_error.split)

lemma row_deduct_bulk:
  assumes "has_row rid i (db s)"
  shows "has_row rid i (db (snd (deductBulk sha client delays env rs key s)))"
  using row_phase1_bulk [OF row_others [OF assms], of env rs "before_phase1 env"] assms
  by (auto simp: deductBulk_def deductBulkInternal_def runPhase3Bulk_def Let_def row_hash split: list.split sum.split option.split prod.split db_error.split)

lemma row_kept: "has_row rid i (db s) \<Longrightarrow> has_row rid i (db (fold billing_step ops s))"
proof (induction ops arbitrary: s)
  case (Cons op ops)
  have "has_row rid i (db (billing_step op s))"
    using Cons.prems by (cases op) (simp_all add: row_deduct row_deduct_bulk row_others row_hash)
  then show ?case using Cons.IH by simp
qed simp

text \<open>C1. Deductions are idempotent: once a call has reported a usage event for a request id (whatever happened on the ledger, in the database or through other
  processes), repeating the request later, in any environment and after any number of other single and bulk deductions, commits of other
  processes and changes of the ledger, reports the same event as already processed, does not touch the ledger and changes
  nothing in the database.\<close>

theorem deduct_idempotent:
  assumes "deduct client delays env r s = (res, s1)" and "usageEventId res \<noteq> []"
  shows "let later = fold billing_step ops s1 in \<exists>res'. deduct client' delays' env' r later = (res', later) \<and> success res' \<and> alreadyProcessed res' \<and>
    usageEventId res' = usageEventId res"
proof -
  obtain e a where e: "find_event (requestId r) (db s1) = Some e" "show_nat (event_id e) = usageEventId res" "parseUsdcToContractUnits (amountUsdc r) = Inr a"
    using deduct_leaves_row [OF assms] by blast
  then have "has_row (requestId r) (event_id e) (db s1)" by (simp add: has_row_def)
  then obtain e' where "find_event (requestId r) (db (fold billing_step ops s1)) = Some e'" "event_id e' = event_id e"
    using row_kept by (metis has_row_def)
  from existing_row_no_effect [OF this(1) e(3), of client' delays' env'] this(2) e(2) show ?thesis
    by (simp add: Let_def existing_result_def)
qed

text \<open>A ledger with balances and the set of used idempotency keys, for concrete runs.\<close>

definition read_int :: "string \<Rightarrow> int" where
  "read_int s = (case s of [] \<Rightarrow> 0 | c # cs \<Rightarrow> if c = CHR ''-'' then - int (read_nat cs) else int (read_nat s))"

definition demo_client :: "((string \<Rightarrow> int) \<times> string set) soroban" where
  "demo_client = \<lparr>getBalance = \<lambda>u c. Inr (fst c u),
     deductBalance = \<lambda>u a k c. if k \<in> snd c then (Inr ''tx'', c)
       else (Inr ''tx'', ((fst c)(u := fst c u - read_int a), insert k (snd c)))\<rparr>"

definition demo_request :: "string \<Rightarrow> string \<Rightarrow> BillingDeductRequest" where
  "demo_request rid a = \<lparr>requestId = rid, userId = ''u'', apiId = ''a'', endpointId = ''e'', apiKeyId = ''k'',
     amountUsdc = a, idempotencyKey = None\<rparr>"

definition demo_state :: "((string \<Rightarrow> int) \<times> string set) billing_state" where
  "demo_state = \<lparr>db = \<lparr>usage_events = [], next_event_id = 7\<rparr>, chain = ((\<lambda>_. 50000000), {})\<rparr>"

lemma read_show_int: "read_int (show_int i) = i"
proof (cases "i < 0")
  case False
  obtain c cs where s: "show_nat (nat i) = c # cs" by (cases "show_nat (nat i)") auto
  have "is_digit c" using show_nat_digits [of "nat i"] s by simp
  then have "c \<noteq> CHR ''-''" by (auto simp: is_digit_def)
  with False s read_show_nat [of "nat i"] show ?thesis by (simp add: read_int_def show_int_def)
qed (simp add: read_int_def show_int_def)

lemma demo_ledger: "idempotent_ledger fst snd demo_client"
  by (simp add: idempotent_ledger_def demo_client_def read_show_int)

lemma parse_digit:
  assumes "is_digit c" and "0 < digit_val c"
  shows "parseUsdcToContractUnits [c] = Inr (int (digit_val c) * SCALE)"
proof -
  from assms(1) have "split_dot [c] = ([c], None)" "trim [c] = [c]"
    by (auto simp: split_dot_def trim_def is_digit_not_space dest: is_digit_not_dot)
  with assms take_pad [of "[]"] show ?thesis
    by (simp add: parseUsdcToContractUnits_def amount_pattern_def Let_def padEnd_def)
qed

lemma parse_two: "parseUsdcToContractUnits ''2'' = Inr 20000000"
  and parse_one: "parseUsdcToContractUnits ''1'' = Inr 10000000"
  using parse_digit [of "CHR ''2''"] parse_digit [of "CHR ''1''"] by (simp_all add: is_digit_def digit_val_def)

lemma demo_deduct:
  "\<exists>s1. deduct demo_client [] quiet (demo_request ''r1'' ''2'') demo_state =
    (\<lparr>success = True, usageEventId = show_nat 7, stellarTxHash = Some ''tx'', alreadyProcessed = False,
      deductionApplied = True, reconciliationRequired = False, error_text = None\<rparr>, s1)"
  by (simp add: deduct_def deductInternal_def parse_two demo_request_def demo_state_def demo_client_def
      getByRequestId_def find_event_def quiet_def runPhase1_def insert_event_def Let_def
      executeDeductWithRetry.simps)

theorem deduct_idempotent_witness:
  "\<exists>s1 res'. snd (deduct demo_client [] quiet (demo_request ''r1'' ''2'') demo_state) = s1 \<and>
    deduct demo_client [] quiet (demo_request ''r1'' ''2'') (billing_step (OtherRows [demo_request ''r2'' ''1'']) s1) =
      (res', billing_step (OtherRows [demo_request ''r2'' ''1'']) s1) \<and> alreadyProcessed res'"
proof -
  obtain s1 where s1: "deduct demo_client [] quiet (demo_request ''r1'' ''2'') demo_state =
    (\<lparr>success = True, usageEventId = show_nat 7, stellarTxHash = Some ''tx'', alreadyProcessed = False,
      deductionApplied = True, reconciliationRequired = False, error_text = None\<rparr>, s1)"
    using demo_deduct by blast
  from deduct_idempotent [OF s1, of "[OtherRows [demo_request ''r2'' ''1'']]" demo_client "[]" quiet] s1 show ?thesis
    by (auto simp: Let_def simp del: billing_step.simps)
qed

text \<open>C2. A user is charged at most once and never overdrawn: on a ledger that honours
  idempotency keys, a call under an unused key either leaves every balance as it was or takes
  exactly the parsed amount from the user's balance, in which case the balance was sufficient.
  It does take it when it reports a new success; and whenever the user was charged without
  being told so, the result demands reconciliation and names the committed usage event.\<close>

theorem deduct_charges_at_most_once:
  assumes "idempotent_ledger bal applied client"
    and "(case idempotencyKey r of None \<Rightarrow> requestId r | Some k \<Rightarrow> k) \<notin> applied (chain s)"
    and "deduct client delays env r s = (res, s1)" and "parseUsdcToContractUnits (amountUsdc r) = Inr a"
  shows "(bal (chain s1) = bal (chain s) \<or>
      (charged bal (userId r) a (chain s) (chain s1) \<and> 0 \<le> bal (chain s1) (userId r) \<and>
       (success res \<or> reconciliationRequired res) \<and> usageEventId res \<noteq> [])) \<and>
    (success res \<longrightarrow> alreadyProcessed res \<or> charged bal (userId r) a (chain s) (chain s1))"
proof -
  have bal: "b = bal (chain s) (userId r)" if "getBalance client (userId r) (chain s) = Inr b" for b
    using assms(1) that by (simp add: idempotent_ledger_def)
  show ?thesis
    using assms(3,4)
  proof (cases rule: deduct_cases [of r client delays env s])
    case (soroban_failed a' available d0 d1 i err c1)
    from soroban_failed(6) assms(3) have r: "res = deduct_failure (show_nat i) True (normalizeErrorMessage err)"
      "chain s1 = c1" by (simp_all add: prod_eq_iff)
    from ledger_retry [OF assms(1) soroban_failed(5)] assms(2)
    have "bal c1 = bal (chain s) \<or> charged bal (userId r) a' (chain s) c1" by presburger
    moreover have "a' = a" using soroban_failed(1) assms(4) by simp
    ultimately show ?thesis using r bal [OF soroban_failed(2)] soroban_failed(3)
      by (auto simp: deduct_failure_def charged_def)
  next
    case (settled a' available d0 d1 i tx c1)
    from settled(6) assms(3) have r: "success res" "usageEventId res = show_nat i" "chain s1 = c1" by auto
    from ledger_retry [OF assms(1) settled(5)] assms(2)
    have "charged bal (userId r) a' (chain s) c1" by (metis sum.disc(2))
    moreover have "a' = a" using settled(1) assms(4) by simp
    ultimately show ?thesis using r bal [OF settled(2)] settled(3) by (auto simp: charged_def)
  qed (auto simp: deduct_failure_def existing_result_def)
qed

theorem deduct_charges_at_most_once_witness:
  "\<exists>s1 res. deduct demo_client [] quiet (demo_request ''r1'' ''2'') demo_state = (res, s1) \<and>
    charged fst ''u'' 20000000 (chain demo_state) (chain s1)"
proof -
  obtain s1 where s1: "deduct demo_client [] quiet (demo_request ''r1'' ''2'') demo_state =
    (\<lparr>success = True, usageEventId = show_nat 7, stellarTxHash = Some ''tx'', alreadyProcessed = False,
      deductionApplied = True, reconciliationRequired = False, error_text = None\<rparr>, s1)"
    using demo_deduct by blast
  from deduct_charges_at_most_once [OF demo_ledger _ s1, of 20000000] s1 show ?thesis
    by (auto simp: demo_request_def demo_state_def parse_two)
qed

text \<open>C26. Retries are bounded: one deduction calls the ledger at least once and at most
  \<open>retryDelaysMs.length + 1\<close> times, with the same result as the uncounted client; it stops
  early only after a success or an error that is not transient.\<close>

theorem retry_attempts_bounded:
  "\<exists>m. executeDeductWithRetry (counted client) delays u a k (c, 0) =
     (fst (executeDeductWithRetry client delays u a k c), (snd (executeDeductWithRetry client delays u a k c), m)) \<and>
   1 \<le> m \<and> m \<le> length delays + 1 \<and>
   (m = length delays + 1 \<or>
     (case fst (executeDeductWithRetry client delays u a k c) of Inr _ \<Rightarrow> True | Inl e \<Rightarrow> isTransientSorobanError e = False))"
  using retry_counted [of client delays u a k c 0] by (fastforce split: sum.splits)

text \<open>A bulk deduction charges exactly the new requests: when a bulk call whose request ids
  are distinct succeeds with nobody else at work, on a ledger that honours idempotency keys
  and under an unused key, the user's balance falls by exactly the sum of the amounts of the
  requests that had no usage event, that sum was covered by the balance, and every one of
  these requests has a row with its own amount and the hash of the one transaction. The
  reported count and total are those of these requests.\<close>

theorem bulk_charges_new_requests:
  assumes "idempotent_ledger bal applied client" and "k \<notin> applied (chain s)" and "distinct (map requestId rs)"
    and "deductBulk sha256 client delays quiet rs (Some k) s = (Inr res, s1)" and "bulk_success res"
  shows "let new = new_requests rs (db s); units = sum_list (map units_of new); u = userId (hd rs) in
    charged bal u units (chain s) (chain s1) \<and> (new = [] \<or> units \<le> bal (chain s) u) \<and>
    deductedCount res = length new \<and>
    totalDeductedAmountUsdc res = (if new = [] then ''0'' else formatContractUnitsToUsdc units) \<and>
    (\<exists>tx. \<forall>r \<in> set new. \<exists>e. find_event (requestId r) (db s1) = Some e \<and> ue_amount e = amountUsdc r \<and>
       stellar_tx_hash e = Some tx)"
  using assms(3,4,5)
proof (cases rule: bulk_success_cases)
  case nothing_new
  then show ?thesis by (simp add: charged_def)
next
  case (charged_new b tx c1)
  from ledger_retry [OF assms(1) charged_new(4)] assms(2)
  have "charged bal (userId (hd rs)) (sum_list (map units_of (new_requests rs (db s)))) (chain s) c1"
    by (metis sum.disc(2))
  moreover have "b = bal (chain s) (userId (hd rs))"
    using assms(1) charged_new(2) by (simp add: idempotent_ledger_def)
  ultimately show ?thesis using charged_new by (auto simp: Let_def)
qed

lemma demo_bulk:
  "\<exists>res s1. deductBulk id demo_client [] quiet [demo_request ''r1'' ''2'', demo_request ''r2'' ''2''] (Some ''b'') demo_state =
    (Inr res, s1) \<and> bulk_success res"
  by (simp add: deductBulk_def deductBulkInternal_def parse_two demo_request_def demo_state_def demo_client_def
      getUsageEventsByRequestIds_def quiet_def runPhase1Bulk_def insert_event_def find_event_def Let_def
      executeDeductWithRetry.simps amount_of_def pending_event_def bulk_answer_def charged_entry_def jsmap)

theorem bulk_charges_new_requests_witness:
  "\<exists>res s1. deductBulk id demo_client [] quiet [demo_request ''r1'' ''2'', demo_request ''r2'' ''2''] (Some ''b'') demo_state =
    (Inr res, s1) \<and> charged fst ''u'' 40000000 (chain demo_state) (chain s1) \<and> deductedCount res = 2"
proof -
  let ?rs = "[demo_request ''r1'' ''2'', demo_request ''r2'' ''2'']"
  obtain res s1 where r: "deductBulk id demo_client [] quiet ?rs (Some ''b'') demo_state = (Inr res, s1)" "bulk_success res"
    using demo_bulk by blast
  have "new_requests ?rs (db demo_state) = ?rs" "units_of (demo_request x ''2'') = 20000000"
    "distinct (map requestId ?rs)" "userId (hd ?rs) = ''u''" for x
    by (simp_all add: new_requests_def find_event_def demo_state_def units_of_def demo_request_def parse_two)
  with bulk_charges_new_requests [OF demo_ledger _ _ r] r show ?thesis
    by (auto simp: Let_def demo_state_def)
qed

text \<open>When one bulk call carries the same new request id twice with different amounts, the
  usage event that is committed keeps the amount of the first entry while the ledger is
  charged, and the response reports, the amount of the last one.\<close>

theorem bulk_duplicate_ids_diverge:
  assumes "requestId r2 = requestId r1" and "userId r2 = userId r1" and "find_event (requestId r1) (db s) = None"
    and "parseUsdcToContractUnits (amountUsdc r1) = Inr a1" and "parseUsdcToContractUnits (amountUsdc r2) = Inr a2"
    and "getBalance client (userId r1) (chain s) = Inr b" and "2 * a2 \<le> b"
    and "executeDeductWithRetry client delays (userId r1) (show_int a2) k (chain s) = (Inr tx, c1)"
  shows "\<exists>res s1 e. deductBulk sha256 client delays quiet [r1, r2] (Some k) s = (Inr res, s1) \<and>
    bulk_success res \<and> totalDeductedAmountUsdc res = formatContractUnitsToUsdc a2 \<and> chain s1 = c1 \<and>
    find_event (requestId r1) (db s1) = Some e \<and> ue_amount e = amountUsdc r1 \<and> stellar_tx_hash e = Some tx"
proof -
  let ?rows = "getUsageEventsByRequestIds [requestId r1, requestId r1] (db s)"
  have q: "before_phase1 quiet = []" "phase3_fault quiet = False" by (simp_all add: quiet_def)
  have n: "map_get ?rows (requestId r1) = None"
    using assms(3) events_by_ids_None [of "requestId r1" "[requestId r1, requestId r1]" "db s"] by simp
  have pa: "parse_amounts [r1, r2] 0 [] = Inr (a1 + a2, [(requestId r1, a2)])"
    using assms(1,4,5) by simp
  obtain d1 where d1: "insert_event r1 (db s) = Inr (next_event_id (db s), d1)"
    using insert_event_fresh [OF assms(3)] by blast
  let ?i = "next_event_id (db s)" and ?rows' = "map_set (requestId r1) (pending_event (next_event_id (db s)) r1) ?rows"
  have p1: "runPhase1Bulk quiet [r1, r2] (db s) = (Inr (?rows', [(requestId r1, ?i)]), d1)"
    using n d1 assms(1) by (simp add: runPhase1Bulk_def quiet_def jsmap Let_def)
  have "find_event (requestId r1) (set_hash [?i] tx d1) = Some ((pending_event ?i r1)\<lparr>stellar_tx_hash := Some tx\<rparr>)"
    using find_event_insert(1) [OF d1, of "requestId r1"] by (simp add: find_event_set_hash pending_event_def)
  moreover have "0 < a2" by (rule parse_pos [OF assms(5)])
  ultimately show ?thesis
    using assms(1,2,6-8) n
    by (simp add: deductBulk_def deductBulkInternal_def pa p1 q Let_def amount_of_def
        bulk_answer_def charged_entry_def jsmap runPhase3Bulk_def pending_event_def del: parse_amounts.simps)
qed

theorem bulk_duplicate_ids_diverge_witness:
  "\<exists>res s1 e. deductBulk id demo_client [] quiet [demo_request ''r'' ''2'', demo_request ''r'' ''1''] (Some ''b'') demo_state =
      (Inr res, s1) \<and> totalDeductedAmountUsdc res = formatContractUnitsToUsdc 10000000 \<and>
    find_event ''r'' (db s1) = Some e \<and> ue_amount e = ''2''"
proof -
  obtain c1 where "executeDeductWithRetry demo_client [] ''u'' (show_int 10000000) ''b'' (chain demo_state) = (Inr ''tx'', c1)"
    by (simp add: executeDeductWithRetry.simps demo_client_def demo_state_def)
  from bulk_duplicate_ids_diverge [of "demo_request ''r'' ''1''" "demo_request ''r'' ''2''" demo_state 20000000 10000000
      demo_client 50000000 "[]" "''b''" "''tx''" c1 id] this
  show ?thesis
    by (auto simp: demo_request_def parse_two parse_one demo_state_def find_event_def demo_client_def)
qed

end
