(* ===== verification/TtlCache.thy ===== *)
theory TtlCache
  imports Prelude
begin

text \<open>
  The time-to-live caches: \<open>ListingsCache\<close> (\<^verbatim>\<open>lib/listingsCache.ts\<close>) with its key builder,
  \<open>QuotasCache\<close> (\<^verbatim>\<open>services/quotasCacheWarm.ts\<close>) and \<open>RefundsCache\<close>
  (\<^verbatim>\<open>services/refundsCacheWarm.ts\<close>), and their warm-up functions. The locale \<open>ttl_cache\<close> is
  the contract their clients use: a lookup returns what was last stored, for the time to
  live and until the cache is cleared.

  In a warm-up the query either answers before the timer (with a value or an error) or the
  timer fires first, which is \<open>None\<close>.
\<close>

section \<open>The caches\<close>

record 'a cache_entry =
  entry_value :: 'a
  expiresAt :: millis

type_synonym 'a cache = "(string, 'a cache_entry) js_map"

definition listings_get :: "millis \<Rightarrow> string \<Rightarrow> 'a cache \<Rightarrow> 'a option \<times> 'a cache" where
  "listings_get now key s = (case map_get s key of
       None \<Rightarrow> (None, s)
     | Some e \<Rightarrow> if now > expiresAt e then (None, map_delete key s) else (Some (entry_value e), s))"

definition listings_set :: "millis \<Rightarrow> millis \<Rightarrow> string \<Rightarrow> 'a \<Rightarrow> 'a cache \<Rightarrow> 'a cache" where
  "listings_set ttl now key v s = map_set key \<lparr>entry_value = v, expiresAt = now + ttl\<rparr> s"

definition listings_delete :: "string \<Rightarrow> 'a cache \<Rightarrow> 'a cache" where
  "listings_delete key s = map_delete key s"

definition listings_invalidateAll :: "'a cache \<Rightarrow> 'a cache" where
  "listings_invalidateAll s = []"

definition listings_size :: "'a cache \<Rightarrow> nat" where
  "listings_size s = length s"

definition quotas_get :: "millis \<Rightarrow> string \<Rightarrow> 'a cache \<Rightarrow> 'a option \<times> 'a cache" where
  "quotas_get now key s = (case map_get s key of
       None \<Rightarrow> (None, s)
     | Some e \<Rightarrow> if now > expiresAt e then (None, map_delete key s) else (Some (entry_value e), s))"

definition quotas_set :: "millis \<Rightarrow> millis \<Rightarrow> string \<Rightarrow> 'a \<Rightarrow> 'a cache \<Rightarrow> 'a cache" where
  "quotas_set ttl now key v s = map_set key \<lparr>entry_value = v, expiresAt = now + ttl\<rparr> s"

definition quotas_invalidateAll :: "'a cache \<Rightarrow> 'a cache" where
  "quotas_invalidateAll s = []"

definition refunds_get :: "millis \<Rightarrow> string \<Rightarrow> 'a cache \<Rightarrow> 'a option \<times> 'a cache" where
  "refunds_get now key s = (case map_get s key of
       None \<Rightarrow> (None, s)
     | Some e \<Rightarrow> if now > expiresAt e then (None, map_delete key s) else (Some (entry_value e), s))"

definition refunds_set :: "millis \<Rightarrow> millis \<Rightarrow> string \<Rightarrow> 'a \<Rightarrow> 'a cache \<Rightarrow> 'a cache" where
  "refunds_set ttl now key v s = map_set key \<lparr>entry_value = v, expiresAt = now + ttl\<rparr> s"

definition refunds_invalidateAll :: "'a cache \<Rightarrow> 'a cache" where
  "refunds_invalidateAll s = []"

section \<open>Warm-up\<close>

record WarmupResult =
  warm_success :: bool
  durationMs :: millis
  entriesLoaded :: nat
  warm_reason :: "string option"

definition warm_race :: "string \<Rightarrow> millis \<Rightarrow> 'a result option \<Rightarrow> 'a result" where
  "warm_race what timeoutMs answer = (case answer of
       None \<Rightarrow> Inl (Error (what @ '' timed out after '' @ show_int timeoutMs @ ''ms''))
     | Some r \<Rightarrow> r)"

definition warm_skipped :: "millis \<Rightarrow> error \<Rightarrow> WarmupResult" where
  "warm_skipped duration e = \<lparr>warm_success = False, durationMs = duration, entriesLoaded = 0,
     warm_reason = Some (error_message e)\<rparr>"

definition warm_done :: "millis \<Rightarrow> WarmupResult" where
  "warm_done duration = \<lparr>warm_success = True, durationMs = duration, entriesLoaded = 1, warm_reason = None\<rparr>"

section \<open>Cache keys of listings\<close>

record ListingsCacheKeyParams =
  key_limit :: int
  key_offset :: int
  key_category :: "string option"
  key_search :: "string option"
  key_cursor :: "string option"
  key_status :: "string option"

definition hex_char :: "nat \<Rightarrow> char" where
  "hex_char d = (if d < 10 then char_of (48 + d) else char_of (87 + d))"

text \<open>How \<open>JSON.stringify\<close> writes one character of a string.\<close>

definition json_escape :: "char \<Rightarrow> string" where
  "json_escape c =
    (if c = CHR 0x22 then [CHR 0x5C, CHR 0x22]
     else if c = CHR 0x5C then [CHR 0x5C, CHR 0x5C]
     else if c = CHR 0x08 then [CHR 0x5C, CHR ''b'']
     else if c = CHR 0x09 then [CHR 0x5C, CHR ''t'']
     else if c = CHR 0x0A then [CHR 0x5C, CHR ''n'']
     else if c = CHR 0x0C then [CHR 0x5C, CHR ''f'']
     else if c = CHR 0x0D then [CHR 0x5C, CHR ''r'']
     else if (of_char c :: nat) < 32
     then [CHR 0x5C, CHR ''u'', CHR ''0'', CHR ''0'', hex_char (of_char c div 16), hex_char (of_char c mod 16)]
     else [c])"

definition json_string :: "string \<Rightarrow> string" where
  "json_string s = CHR 0x22 # concat (map json_escape s) @ [CHR 0x22]"

definition json_opt :: "string option \<Rightarrow> string" where
  "json_opt v = (case v of None \<Rightarrow> ''null'' | Some s \<Rightarrow> json_string s)"

definition json_field :: "string \<Rightarrow> string \<Rightarrow> string" where
  "json_field name v = json_string name @ '':'' @ v"

definition cursor_set :: "ListingsCacheKeyParams \<Rightarrow> bool" where
  "cursor_set p = (case key_cursor p of None \<Rightarrow> False | Some c \<Rightarrow> c \<noteq> [])"

definition buildCacheKey :: "ListingsCacheKeyParams \<Rightarrow> string" where
  "buildCacheKey p = ''{'' @ json_field ''limit'' (show_int (key_limit p)) @ '','' @
     json_field ''offset'' (if cursor_set p then ''null'' else show_int (key_offset p)) @ '','' @
     json_field ''category'' (json_opt (key_category p)) @ '','' @
     json_field ''search'' (json_opt (key_search p)) @ '','' @
     json_field ''cursor'' (json_opt (key_cursor p)) @ '','' @
     json_field ''status'' (json_opt (key_status p)) @ ''}''"

definition warmupListingsCache :: "millis \<Rightarrow> millis \<Rightarrow> millis \<Rightarrow> millis \<Rightarrow>
    (ListingsCacheKeyParams \<Rightarrow> 'a result option) \<Rightarrow> 'a cache \<Rightarrow> WarmupResult \<times> 'a cache" where
  "warmupListingsCache ttl timeoutMs started now listPublic s =
    (let params = \<lparr>key_limit = 20, key_offset = 0, key_category = None, key_search = None,
           key_cursor = None, key_status = None\<rparr> in
     case warm_race ''Warmup'' timeoutMs (listPublic params) of
       Inr v \<Rightarrow> (warm_done (now - started), listings_set ttl now (buildCacheKey params) v s)
     | Inl e \<Rightarrow> (warm_skipped (now - started) e, s))"

section \<open>The contract of a cache\<close>

locale ttl_cache =
  fixes get :: "millis \<Rightarrow> string \<Rightarrow> 's \<Rightarrow> 'a option \<times> 's"
    and set :: "millis \<Rightarrow> string \<Rightarrow> 'a \<Rightarrow> 's \<Rightarrow> 's"
    and clear :: "'s \<Rightarrow> 's" and ttl :: millis
  assumes get_set: "fst (get t k' (set t0 k v s)) =
      (if k' = k then if t \<le> t0 + ttl then Some v else None else fst (get t k' s))"
    and get_get: "fst (get t k' (snd (get t0 k s))) \<in> {None, fst (get t k' s)}"
    and get_clear: "fst (get t k (clear s)) = None"
begin

text \<open>A cache is coherent with a source when every hit is what the source holds.\<close>

definition coherent :: "(string \<Rightarrow> 'a) \<Rightarrow> 's \<Rightarrow> bool" where
  "coherent source s \<longleftrightarrow> (\<forall>t k v. fst (get t k s) = Some v \<longrightarrow> v = source k)"

definition read_through :: "(string \<Rightarrow> 'a) \<Rightarrow> millis \<Rightarrow> string \<Rightarrow> 's \<Rightarrow> 'a \<times> 's" where
  "read_through source t k s = (case get t k s of
       (Some v, s1) \<Rightarrow> (v, s1)
     | (None, s1) \<Rightarrow> (source k, set t k (source k) s1))"

lemma coherent_clear: "coherent source (clear s)"
  by (simp add: coherent_def get_clear)

lemma coherent_get: "coherent source s \<Longrightarrow> coherent source (snd (get t k s))"
  using get_get unfolding coherent_def by (metis insert_iff option.distinct(1) singletonD)

lemma coherent_set: "coherent source s \<Longrightarrow> coherent source (set t k (source k) s)"
  by (auto simp: coherent_def get_set split: if_splits)

lemma read_through_coherent:
  assumes "coherent source s"
  shows "fst (read_through source t k s) = source k \<and> coherent source (snd (read_through source t k s))"
proof (cases "get t k s")
  case (Pair h s1)
  with coherent_get [OF assms, of t k] assms coherent_set show ?thesis
    by (cases h) (auto simp: read_through_def coherent_def dest: arg_cong [of _ _ fst])
qed

lemma stale_hit:
  assumes "t \<le> t0 + ttl"
  shows "fst (read_through source t k (set t0 k v s)) = v"
proof -
  from assms have "fst (get t k (set t0 k v s)) = Some v" by (simp add: get_set)
  then show ?thesis by (cases "get t k (set t0 k v s)") (auto simp: read_through_def)
qed

end

lemmas cache_defs = listings_get_def listings_set_def listings_invalidateAll_def quotas_get_def quotas_set_def
  quotas_invalidateAll_def refunds_get_def refunds_set_def refunds_invalidateAll_def

interpretation listings: ttl_cache listings_get "listings_set ttl" listings_invalidateAll ttl for ttl
  by unfold_locales (auto simp: cache_defs jsmap split: option.split)

interpretation quotas: ttl_cache quotas_get "quotas_set ttl" quotas_invalidateAll ttl for ttl
  by unfold_locales (auto simp: cache_defs jsmap split: option.split)

interpretation refunds: ttl_cache refunds_get "refunds_set ttl" refunds_invalidateAll ttl for ttl
  by unfold_locales (auto simp: cache_defs jsmap split: option.split)

section \<open>Reading a key back\<close>

definition hex_val :: "char \<Rightarrow> nat" where
  "hex_val c = (if (of_char c :: nat) < 58 then of_char c - 48 else of_char c - 87)"

fun decode_char :: "string \<Rightarrow> (char \<times> string) option" where
  "decode_char (b # q # x) =
    (if b \<noteq> CHR 0x5C then Some (b, q # x)
     else if q = CHR ''b'' then Some (CHR 0x08, x)
     else if q = CHR ''t'' then Some (CHR 0x09, x)
     else if q = CHR ''n'' then Some (CHR 0x0A, x)
     else if q = CHR ''f'' then Some (CHR 0x0C, x)
     else if q = CHR ''r'' then Some (CHR 0x0D, x)
     else if q = CHR ''u'' then (case x of _ # _ # h # l # y \<Rightarrow> Some (char_of (16 * hex_val h + hex_val l), y) | _ \<Rightarrow> None)
     else Some (q, x))"
| "decode_char [b] = Some (b, [])"
| "decode_char [] = None"

lemma hex_val_char [simp]: "d < 16 \<Longrightarrow> hex_val (hex_char d) = d"
  by (auto simp: hex_val_def hex_char_def)

lemma decode_plain: "c \<noteq> CHR 0x5C \<Longrightarrow> decode_char (c # x) = Some (c, x)"
  by (cases x) simp_all

lemma decode_escape: "decode_char (json_escape c @ x) = Some (c, x)"
proof (cases "(of_char c :: nat) < 32")
  case True
  then have "hex_val (hex_char (of_char c div 16)) = of_char c div 16" "hex_val (hex_char (of_char c mod 16)) = of_char c mod 16"
    by simp_all
  with True show ?thesis by (simp add: json_escape_def)
next
  case False
  then show ?thesis by (simp add: json_escape_def decode_plain)
qed

lemma escape_not_quote: "json_escape c @ x \<noteq> CHR 0x22 # y"
  by (auto simp: json_escape_def)

lemma escapes_prefix:
  "concat (map json_escape s) @ CHR 0x22 # x = concat (map json_escape t) @ CHR 0x22 # y \<Longrightarrow> s = t \<and> x = y"
proof (induction s arbitrary: t)
  case Nil
  show ?case
  proof (cases t)
    case (Cons d t')
    with Nil have "json_escape d @ (concat (map json_escape t') @ CHR 0x22 # y) = CHR 0x22 # x" by simp
    then show ?thesis using escape_not_quote by blast
  qed (use Nil in simp)
next
  case (Cons c s)
  then have p: "json_escape c @ (concat (map json_escape s) @ CHR 0x22 # x) =
    concat (map json_escape t) @ CHR 0x22 # y" by simp
  show ?case
  proof (cases t)
    case Nil
    with p have "json_escape c @ (concat (map json_escape s) @ CHR 0x22 # x) = CHR 0x22 # y" by simp
    then show ?thesis using escape_not_quote by blast
  next
    case t: (Cons d t')
    from p t have "json_escape c @ (concat (map json_escape s) @ CHR 0x22 # x) =
        json_escape d @ (concat (map json_escape t') @ CHR 0x22 # y)" by simp
    from arg_cong [OF this, of decode_char] have "c = d"
      "concat (map json_escape s) @ CHR 0x22 # x = concat (map json_escape t') @ CHR 0x22 # y"
      by (simp_all add: decode_escape)
    with Cons.IH [of t'] t show ?thesis by simp
  qed
qed

lemma json_string_prefix: "json_string s @ x = json_string t @ y \<longleftrightarrow> s = t \<and> x = y"
  using escapes_prefix [of s x t y] by (auto simp: json_string_def)

lemma json_opt_prefix: "json_opt v @ x = json_opt w @ y \<longleftrightarrow> v = w \<and> x = y"
proof (cases v; cases w)
  fix s t assume "v = Some s" "w = Some t"
  then show ?thesis by (simp add: json_opt_def json_string_prefix)
qed (auto simp: json_opt_def json_string_def)

lemma json_field_prefix: "json_field n v @ x = json_field n w @ y \<longleftrightarrow> v @ x = w @ y"
  by (simp add: json_field_def)

lemma show_int_chars: "c \<in> set (show_int i) \<Longrightarrow> is_digit c \<or> c = CHR ''-''"
  using show_nat_digits by (auto simp: show_int_def list_all_iff split: if_splits)

lemma show_int_inj: "show_int i = show_int j \<Longrightarrow> i = j"
proof -
  have hd: "hd (show_nat n) \<noteq> CHR ''-''" for n
  proof -
    have "is_digit (hd (show_nat n))" using show_nat_digits [of n] by (simp add: list_all_iff)
    then show ?thesis by (auto simp: is_digit_def)
  qed
  have inj: "show_nat a = show_nat b \<Longrightarrow> a = b" for a b by (metis read_show_nat)
  assume e: "show_int i = show_int j"
  show "i = j"
  proof (cases "i < 0"; cases "j < 0")
    assume "i < 0" "j < 0"
    with e inj [of "nat (- i)" "nat (- j)"] show ?thesis by (simp add: show_int_def)
  next
    assume "i < 0" "\<not> j < 0"
    with e hd [of "nat j"] show ?thesis by (auto simp: show_int_def dest!: arg_cong [of _ _ hd])
  next
    assume "\<not> i < 0" "j < 0"
    with e hd [of "nat i"] show ?thesis by (auto simp: show_int_def dest!: arg_cong [of _ _ hd])
  next
    assume "\<not> i < 0" "\<not> j < 0"
    with e inj [of "nat i" "nat j"] show ?thesis by (simp add: show_int_def)
  qed
qed

lemma show_int_comma: "CHR '','' \<notin> set (show_int i)"
  using show_int_chars [of "CHR '',''" i] by (auto simp: is_digit_def)

lemma show_int_not_null: "show_int i \<noteq> ''null''"
  using show_int_chars [of "CHR ''n''" i] by (auto simp: is_digit_def)

text \<open>The parameters up to the offset a cursor makes irrelevant.\<close>

definition same_listing :: "ListingsCacheKeyParams \<Rightarrow> ListingsCacheKeyParams \<Rightarrow> bool" where
  "same_listing p q \<longleftrightarrow> key_limit p = key_limit q \<and> key_category p = key_category q \<and>
     key_search p = key_search q \<and> key_cursor p = key_cursor q \<and> key_status p = key_status q \<and>
     (cursor_set p \<or> key_offset p = key_offset q)"

lemma offset_text:
  "(if b then ''null'' else show_int i) = (if b' then ''null'' else show_int j) \<longleftrightarrow> b = b' \<and> (b \<or> i = j)"
  using show_int_not_null [of i] show_int_not_null [of j] show_int_inj [of i j]
  by (cases b; cases b') auto

lemma offset_comma: "CHR '','' \<notin> set (if b then ''null'' else show_int i)"
  using show_int_comma [of i] by auto

lemma key_decomposed:
  "buildCacheKey p = buildCacheKey q \<longleftrightarrow>
    show_int (key_limit p) = show_int (key_limit q) \<and>
    (if cursor_set p then ''null'' else show_int (key_offset p)) =
      (if cursor_set q then ''null'' else show_int (key_offset q)) \<and>
    key_category p = key_category q \<and> key_search p = key_search q \<and> key_cursor p = key_cursor q \<and>
    key_status p = key_status q"
proof -
  let ?o = "\<lambda>p. if cursor_set p then ''null'' else show_int (key_offset p)"
  let ?r4 = "\<lambda>p. json_opt (key_status p) @ ''}''"
  let ?r3 = "\<lambda>p. json_opt (key_cursor p) @ CHR '','' # json_string ''status'' @ CHR '':'' # ?r4 p"
  let ?r2 = "\<lambda>p. json_opt (key_search p) @ CHR '','' # json_string ''cursor'' @ CHR '':'' # ?r3 p"
  let ?r1 = "\<lambda>p. json_opt (key_category p) @ CHR '','' # json_string ''search'' @ CHR '':'' # ?r2 p"
  have k: "buildCacheKey p = CHR ''{'' # json_string ''limit'' @ CHR '':'' # show_int (key_limit p) @ CHR '','' #
      json_string ''offset'' @ CHR '':'' # ?o p @ CHR '','' # json_string ''category'' @ CHR '':'' # ?r1 p" for p
    unfolding buildCacheKey_def json_field_def by (simp only: append_assoc append_Cons append_Nil)
  show ?thesis
    unfolding k list.inject json_string_prefix append_sep [OF show_int_comma show_int_comma]
      append_sep [OF offset_comma offset_comma] json_opt_prefix simp_thms by blast
qed

section \<open>Properties\<close>

text \<open>Cache keys of listings are injective: two sets of query parameters get the same key
  exactly when they ask for the same listing, that is, agree on limit, category, search,
  cursor and status, and on the offset unless a cursor is present. Quotes, backslashes and
  control characters in the parameters cannot make two keys collide.\<close>

theorem cache_key_injective:
  "buildCacheKey p = buildCacheKey q \<longleftrightarrow> same_listing p q"
  unfolding key_decomposed offset_text same_listing_def
  using show_int_inj [of "key_limit p" "key_limit q"] by (auto simp: cursor_set_def)

text \<open>The listings cache never serves stale data past its time to live: a lookup returns
  the value last stored under that key exactly until the time to live is over, storing one key
  leaves the others alone, and after \<open>invalidateAll\<close> every lookup misses.\<close>

theorem listings_cache_ttl:
  "fst (listings_get t k' (listings_set ttl t0 k v s)) =
     (if k' = k then if t \<le> t0 + ttl then Some v else None else fst (listings_get t k' s)) \<and>
   fst (listings_get t k' (snd (listings_get t1 k s))) \<in> {None, fst (listings_get t k' s)} \<and>
   fst (listings_get t k (listings_invalidateAll s)) = None"
  by (intro conjI listings.get_set listings.get_get listings.get_clear)

end
