(* ===== verification/Dispute.thy ===== *)
theory Dispute
  imports TtlCache
begin

text \<open>
  Billing disputes (\<^verbatim>\<open>services/disputeService.ts\<close>): the in-memory repository, the service
  with its audit trail, and the warm-up of the refunds cache that lists refunded disputes
  (\<^verbatim>\<open>services/refundsCacheWarm.ts\<close>).

  The state is the map of disputes, the list of audit events, the id counter and the refunds
  cache. Ids are built from the clock and a counter that only grows. \<open>dispute_step\<close> is any
  sequence of service calls, successful or not.
\<close>

section \<open>Data\<close>

datatype DisputeStatus = DISPUTE_OPEN | REFUNDED | UPHELD

datatype resolution = RefundIt | UpholdIt

record Dispute =
  dispute_id :: string
  usage_event_id :: string
  opened_by :: string
  reason :: string
  status :: DisputeStatus
  created_at :: millis
  resolved_at :: "millis option"
  resolved_by :: "string option"

datatype event_details = OpenedDetails string string | ResolvedDetails resolution "string option"

record DisputeEvent =
  ev_id :: string
  ev_dispute :: string
  ev_actor :: string
  ev_action :: string
  ev_details :: event_details
  ev_created_at :: millis

record dispute_state =
  disputes :: "(string, Dispute) js_map"
  events :: "DisputeEvent list"
  counter :: nat
  refunds_cache :: "Dispute list cache"

definition empty_disputes :: dispute_state where
  "empty_disputes = \<lparr>disputes = [], events = [], counter = 0, refunds_cache = []\<rparr>"

section \<open>InMemoryDisputeRepository\<close>

definition nextId :: "string \<Rightarrow> millis \<Rightarrow> nat \<Rightarrow> string" where
  "nextId prefix now n = prefix @ ''_'' @ show_int now @ ''_'' @ show_nat (Suc n)"

fun status_text :: "DisputeStatus \<Rightarrow> string" where
  "status_text DISPUTE_OPEN = ''OPEN''"
| "status_text REFUNDED = ''REFUNDED''"
| "status_text UPHELD = ''UPHELD''"

fun resolution_status :: "resolution \<Rightarrow> DisputeStatus" where
  "resolution_status RefundIt = REFUNDED"
| "resolution_status UpholdIt = UPHELD"

definition findByUsageEventId :: "string \<Rightarrow> dispute_state \<Rightarrow> Dispute option" where
  "findByUsageEventId ue s = List.find (\<lambda>d. usage_event_id d = ue) (map_values (disputes s))"

definition findById :: "string \<Rightarrow> dispute_state \<Rightarrow> Dispute option" where
  "findById i s = map_get (disputes s) i"

definition findByUser :: "string \<Rightarrow> dispute_state \<Rightarrow> Dispute list" where
  "findByUser u s = filter (\<lambda>d. opened_by d = u) (map_values (disputes s))"

definition listAll :: "dispute_state \<Rightarrow> Dispute list" where
  "listAll s = map_values (disputes s)"

definition create_dispute :: "string \<Rightarrow> string \<Rightarrow> string \<Rightarrow> millis \<Rightarrow> dispute_state \<Rightarrow>
    Dispute result \<times> dispute_state" where
  "create_dispute ue why openedBy now s = (case findByUsageEventId ue s of
       Some _ \<Rightarrow> (Inl (ConflictError (''A dispute already exists for usage_event_id '' @ quoted ue) ''CONFLICT''), s)
     | None \<Rightarrow> (let d = \<lparr>dispute_id = nextId ''disp'' now (counter s), usage_event_id = ue, opened_by = openedBy,
                   reason = why, status = DISPUTE_OPEN, created_at = now, resolved_at = None, resolved_by = None\<rparr>
                in (Inr d, s\<lparr>disputes := map_set (dispute_id d) d (disputes s), counter := Suc (counter s)\<rparr>)))"

definition resolve_dispute :: "string \<Rightarrow> resolution \<Rightarrow> string \<Rightarrow> millis \<Rightarrow> dispute_state \<Rightarrow>
    Dispute result \<times> dispute_state" where
  "resolve_dispute i r by_whom now s = (case map_get (disputes s) i of
       None \<Rightarrow> (Inl (NotFoundError (''Dispute '' @ quoted i @ '' not found'') ''NOT_FOUND''), s)
     | Some d \<Rightarrow> if status d \<noteq> DISPUTE_OPEN
         then (Inl (ConflictError (''Dispute '' @ quoted i @ '' is already '' @ status_text (status d)) ''CONFLICT''), s)
         else (let d' = d\<lparr>status := resolution_status r, resolved_at := Some now, resolved_by := Some by_whom\<rparr>
               in (Inr d', s\<lparr>disputes := map_set i d' (disputes s)\<rparr>)))"

definition appendEvent :: "string \<Rightarrow> string \<Rightarrow> string \<Rightarrow> event_details \<Rightarrow> millis \<Rightarrow> dispute_state \<Rightarrow> dispute_state" where
  "appendEvent d actor action details now s =
     s\<lparr>events := events s @ [\<lparr>ev_id = nextId ''devt'' now (counter s), ev_dispute = d, ev_actor = actor,
          ev_action = action, ev_details = details, ev_created_at = now\<rparr>],
       counter := Suc (counter s)\<rparr>"

definition getEvents :: "string \<Rightarrow> dispute_state \<Rightarrow> DisputeEvent list" where
  "getEvents d s = filter (\<lambda>e. ev_dispute e = d) (events s)"

section \<open>DisputeService\<close>

definition openDispute :: "string \<Rightarrow> string \<Rightarrow> string \<Rightarrow> millis \<Rightarrow> dispute_state \<Rightarrow>
    Dispute result \<times> dispute_state" where
  "openDispute ue why openedBy now s = (case create_dispute ue why openedBy now s of
       (Inl e, s1) \<Rightarrow> (Inl e, s1)
     | (Inr d, s1) \<Rightarrow> (Inr d, appendEvent (dispute_id d) openedBy ''OPENED'' (OpenedDetails ue why) now s1))"

definition resolveDispute :: "string \<Rightarrow> resolution \<Rightarrow> string option \<Rightarrow> string \<Rightarrow> millis \<Rightarrow> dispute_state \<Rightarrow>
    Dispute result \<times> dispute_state" where
  "resolveDispute i r notes adminActor now s = (case resolve_dispute i r adminActor now s of
       (Inl e, s1) \<Rightarrow> (Inl e, s1)
     | (Inr d, s1) \<Rightarrow>
        (let s2 = appendEvent (dispute_id d) adminActor ''RESOLVED'' (ResolvedDetails r notes) now s1 in
         (Inr d, if r = RefundIt then s2\<lparr>refunds_cache := refunds_invalidateAll (refunds_cache s2)\<rparr> else s2)))"

definition getDisputeForDeveloper :: "string \<Rightarrow> string \<Rightarrow> dispute_state \<Rightarrow> Dispute result" where
  "getDisputeForDeveloper i userId s = (case findById i s of
       None \<Rightarrow> Inl (NotFoundError (''Dispute '' @ quoted i @ '' not found'') ''NOT_FOUND'')
     | Some d \<Rightarrow> if opened_by d \<noteq> userId
         then Inl (ForbiddenError ''You do not have access to this dispute'' ''FORBIDDEN'') else Inr d)"

definition warmupRefundsCache :: "millis \<Rightarrow> millis \<Rightarrow> millis \<Rightarrow> millis \<Rightarrow> bool \<Rightarrow> dispute_state \<Rightarrow>
    WarmupResult \<times> dispute_state" where
  "warmupRefundsCache ttl timeoutMs started now in_time s =
    (case warm_race ''Refunds warmup'' timeoutMs
        (if in_time then Some (Inr (filter (\<lambda>d. status d = REFUNDED) (listAll s))) else None) of
       Inr v \<Rightarrow> (warm_done (now - started), s\<lparr>refunds_cache := refunds_set ttl now ''all'' v (refunds_cache s)\<rparr>)
     | Inl e \<Rightarrow> (warm_skipped (now - started) e, s))"

inductive dispute_step :: "dispute_state \<Rightarrow> dispute_state \<Rightarrow> bool" where
  "dispute_step s (snd (openDispute ue why u now s))"
| "dispute_step s (snd (resolveDispute i r notes a now s))"
| "dispute_step s (snd (warmupRefundsCache ttl tm st now b s))"
| "dispute_step s (s\<lparr>refunds_cache := snd (refunds_get now k (refunds_cache s))\<rparr>)"

inductive dispute_reachable :: "dispute_state \<Rightarrow> bool" where
  "dispute_reachable empty_disputes"
| "dispute_reachable s \<Longrightarrow> dispute_step s s' \<Longrightarrow> dispute_reachable s'"

section \<open>Invariant\<close>

lemma nextId_inj: "nextId p t n = nextId p t' m \<Longrightarrow> n = m"
proof -
  have dig: "\<forall>c \<in> set (rev (show_nat n)). c \<noteq> CHR ''_''" for n
    using show_nat_digits [of n] by (auto simp: list_all_iff is_digit_def)
  have tw: "takeWhile (\<lambda>c. c \<noteq> CHR ''_'') (rev (nextId p t n)) = rev (show_nat (Suc n))" for t n
    using dig [of "Suc n"] by (simp add: nextId_def takeWhile_append)
  assume "nextId p t n = nextId p t' m"
  with tw [of t n] tw [of t' m] have "show_nat (Suc n) = show_nat (Suc m)" by simp
  then show "n = m" by (metis Suc_inject read_show_nat)
qed

definition issued :: "nat \<Rightarrow> string \<Rightarrow> bool" where
  "issued c i \<longleftrightarrow> (\<exists>t n. n < c \<and> i = nextId ''disp'' t n)"

lemma issued_mono: "issued c i \<Longrightarrow> c \<le> c' \<Longrightarrow> issued c' i"
  by (auto simp: issued_def intro: less_le_trans)

lemma not_issued: "\<not> issued c (nextId ''disp'' t c)"
  by (auto simp: issued_def dest: nextId_inj)

lemma issued_next: "n < c \<Longrightarrow> issued c (nextId ''disp'' t n)"
  by (auto simp: issued_def)

definition trail_ok :: "DisputeEvent list \<Rightarrow> Dispute \<Rightarrow> bool" where
  "trail_ok es d \<longleftrightarrow> map ev_action (filter (\<lambda>e. ev_dispute e = dispute_id d) es) =
     (if status d = DISPUTE_OPEN then [''OPENED''] else [''OPENED'', ''RESOLVED''])"

definition dispute_ok :: "dispute_state \<Rightarrow> string \<Rightarrow> Dispute \<Rightarrow> bool" where
  "dispute_ok s i d \<longleftrightarrow> dispute_id d = i \<and> issued (counter s) i \<and>
     (status d = DISPUTE_OPEN \<longleftrightarrow> resolved_at d = None) \<and> trail_ok (events s) d"

definition refunded :: "dispute_state \<Rightarrow> Dispute list" where
  "refunded s = filter (\<lambda>d. status d = REFUNDED) (listAll s)"

definition cache_ok :: "dispute_state \<Rightarrow> bool" where
  "cache_ok s \<longleftrightarrow> (\<forall>t v. fst (refunds_get t ''all'' (refunds_cache s)) = Some v \<longrightarrow> v = refunded s)"

definition dispute_inv :: "dispute_state \<Rightarrow> bool" where
  "dispute_inv s \<longleftrightarrow> wf_map (disputes s) \<and> distinct (map usage_event_id (listAll s)) \<and>
     (\<forall>i d. map_get (disputes s) i = Some d \<longrightarrow> dispute_ok s i d) \<and>
     (\<forall>e \<in> set (events s). issued (counter s) (ev_dispute e)) \<and> cache_ok s"

lemma fresh_id:
  assumes "dispute_inv s"
  shows "nextId ''disp'' now (counter s) \<notin> fst ` set (disputes s)"
    "\<forall>e \<in> set (events s). ev_dispute e \<noteq> nextId ''disp'' now (counter s)"
proof -
  show "nextId ''disp'' now (counter s) \<notin> fst ` set (disputes s)"
  proof
    assume "nextId ''disp'' now (counter s) \<in> fst ` set (disputes s)"
    then obtain d where "map_get (disputes s) (nextId ''disp'' now (counter s)) = Some d"
      by (metis map_get_None_iff not_None_eq)
    with assms have "issued (counter s) (nextId ''disp'' now (counter s))"
      by (simp add: dispute_inv_def dispute_ok_def)
    then show False by (simp add: not_issued)
  qed
  show "\<forall>e \<in> set (events s). ev_dispute e \<noteq> nextId ''disp'' now (counter s)"
    using assms not_issued by (fastforce simp: dispute_inv_def)
qed

lemma cache_ok_mono:
  assumes "cache_ok s" and "refunded s' = refunded s" and "refunds_cache s' = refunds_cache s"
  shows "cache_ok s'"
  using assms by (simp add: cache_ok_def)

lemma open_cases:
  obtains (conflict) e where "openDispute ue why u now s = (Inl e, s)" "findByUsageEventId ue s \<noteq> None"
  | (opened) d where "openDispute ue why u now s = (Inr d, snd (openDispute ue why u now s))"
      "findByUsageEventId ue s = None" "dispute_id d = nextId ''disp'' now (counter s)" "usage_event_id d = ue"
      "status d = DISPUTE_OPEN" "resolved_at d = None"
      "disputes (snd (openDispute ue why u now s)) = map_set (dispute_id d) d (disputes s)"
      "map ev_action (events (snd (openDispute ue why u now s))) = map ev_action (events s) @ [''OPENED'']"
      "map ev_dispute (events (snd (openDispute ue why u now s))) = map ev_dispute (events s) @ [dispute_id d]"
      "\<exists>e. events (snd (openDispute ue why u now s)) = events s @ [e]"
      "counter (snd (openDispute ue why u now s)) = Suc (Suc (counter s))"
      "refunds_cache (snd (openDispute ue why u now s)) = refunds_cache s"
  by (cases "findByUsageEventId ue s")
    (auto simp: openDispute_def create_dispute_def appendEvent_def Let_def)

lemma trail_append_other: "ev_dispute e \<noteq> dispute_id d \<Longrightarrow> trail_ok (es @ [e]) d = trail_ok es d"
  by (simp add: trail_ok_def)

lemma open_inv:
  assumes inv: "dispute_inv s"
  shows "dispute_inv (snd (openDispute ue why u now s))"
proof (cases rule: open_cases [of ue why u now s])
  case (conflict e)
  with inv show ?thesis by simp
next
  case (opened d)
  let ?s = "snd (openDispute ue why u now s)"
  obtain e where e: "events ?s = events s @ [e]" "ev_action e = ''OPENED''" "ev_dispute e = dispute_id d"
    using opened(8-10) by auto
  note fr = fresh_id [OF inv, of now, folded opened(3)]
  have set: "disputes ?s = disputes s @ [(dispute_id d, d)]" using fr(1) opened(7) by (simp add: map_set_fresh)
  have old: "dispute_ok ?s i x" if "map_get (disputes s) i = Some x" for i x
  proof -
    from inv that have ok: "dispute_ok s i x" by (simp add: dispute_inv_def)
    then have "ev_dispute e \<noteq> dispute_id x"
      using fr(1) e(3) map_of_SomeD [OF that] by (force simp: dispute_ok_def)
    with ok e opened(11) show ?thesis by (auto simp: dispute_ok_def trail_append_other intro: issued_mono)
  qed
  have "filter (\<lambda>x. ev_dispute x = dispute_id d) (events s) = []" using fr(2) by (auto simp: filter_empty_conv)
  with e opened have new: "dispute_ok ?s (dispute_id d) d"
    by (simp add: dispute_ok_def trail_ok_def issued_next)
  have "usage_event_id d \<notin> usage_event_id ` set (listAll s)"
    using opened(2,4) by (auto simp: findByUsageEventId_def listAll_def find_None_iff)
  moreover have "listAll ?s = listAll s @ [d]" "refunded ?s = refunded s"
    using set opened(5) by (simp_all add: listAll_def refunded_def)
  moreover have "cache_ok ?s" using inv opened(12) calculation(3) by (auto simp: dispute_inv_def intro: cache_ok_mono)
  moreover have "map_get (disputes ?s) i = Some x \<Longrightarrow> dispute_ok ?s i x" for i x
    using opened(7) old new by (auto simp: jsmap split: if_splits)
  moreover have "\<forall>x \<in> set (events ?s). issued (counter ?s) (ev_dispute x)"
    using inv e opened(3,11) by (auto simp: dispute_inv_def issued_next intro: issued_mono)
  ultimately show ?thesis using inv fr(1) set by (simp add: dispute_inv_def)
qed

lemma resolve_cases:
  obtains (missing) e where "resolveDispute i r memo a now s = (Inl e, s)" "map_get (disputes s) i = None"
  | (closed) e d where "resolveDispute i r memo a now s = (Inl e, s)" "map_get (disputes s) i = Some d"
      "status d \<noteq> DISPUTE_OPEN"
  | (resolved) d e where "map_get (disputes s) i = Some d" "status d = DISPUTE_OPEN"
      "resolveDispute i r memo a now s =
        (Inr (d\<lparr>status := resolution_status r, resolved_at := Some now, resolved_by := Some a\<rparr>),
         s\<lparr>disputes := map_set i (d\<lparr>status := resolution_status r, resolved_at := Some now, resolved_by := Some a\<rparr>) (disputes s),
           events := events s @ [e], counter := Suc (counter s),
           refunds_cache := (if r = RefundIt then [] else refunds_cache s)\<rparr>)"
      "ev_action e = ''RESOLVED''" "ev_dispute e = dispute_id d"
proof (cases "map_get (disputes s) i")
  case None
  then show ?thesis by (intro missing) (simp_all add: resolveDispute_def resolve_dispute_def)
next
  case (Some d)
  let ?e = "\<lparr>ev_id = nextId ''devt'' now (counter s), ev_dispute = dispute_id d, ev_actor = a,
    ev_action = ''RESOLVED'', ev_details = ResolvedDetails r memo, ev_created_at = now\<rparr>"
  show ?thesis
  proof (cases "status d = DISPUTE_OPEN")
    case True
    with Some show ?thesis
      by (intro resolved [of d ?e])
        (simp_all add: resolveDispute_def resolve_dispute_def appendEvent_def refunds_invalidateAll_def Let_def)
  next
    case False
    with Some show ?thesis
      by (intro closed [of _ d]) (simp_all add: resolveDispute_def resolve_dispute_def)
  qed
qed

lemma map_values_set:
  "wf_map m \<Longrightarrow> map_get m i = Some d \<Longrightarrow> f d' = f d \<Longrightarrow> map f (map_values (map_set i d' m)) = map f (map_values m)"
  by (induction m) (auto split: if_splits)

lemma filter_map_set:
  "wf_map m \<Longrightarrow> map_get m i = Some d \<Longrightarrow> \<not> P d \<Longrightarrow> \<not> P d' \<Longrightarrow>
   filter P (map_values (map_set i d' m)) = filter P (map_values m)"
proof (induction m)
  case (Cons x m)
  then show ?case by (cases x) (auto simp: update_nonempty split: if_splits dest: map_of_SomeD)
qed simp

lemma resolve_inv:
  assumes inv: "dispute_inv s"
  shows "dispute_inv (snd (resolveDispute i r memo a now s))"
proof (cases rule: resolve_cases [where i = i and r = r and memo = memo and a = a and now = now and s = s])
  case (resolved d e)
  let ?s = "snd (resolveDispute i r memo a now s)"
  let ?d = "d\<lparr>status := resolution_status r, resolved_at := Some now, resolved_by := Some a\<rparr>"
  have wf: "wf_map (disputes s)" using inv by (simp add: dispute_inv_def)
  have st: "disputes ?s = map_set i ?d (disputes s)" "events ?s = events s @ [e]" "counter ?s = Suc (counter s)"
    "refunds_cache ?s = (if r = RefundIt then [] else refunds_cache s)" using resolved(3) by simp_all
  have d: "dispute_ok s i d" using inv resolved(1) by (simp add: dispute_inv_def)
  have ok: "dispute_ok ?s j x" if "map_get (disputes ?s) j = Some x" for j x
  proof (cases "j = i")
    case True
    with that st have "x = ?d" by (simp add: jsmap)
    with d True resolved(2,4,5) st show ?thesis
      by (cases r) (auto simp: dispute_ok_def trail_ok_def intro: issued_mono)
  next
    case False
    with that st have x: "dispute_ok s j x" using inv by (simp add: dispute_inv_def jsmap)
    with d False resolved(5) st show ?thesis
      by (auto simp: dispute_ok_def trail_append_other intro: issued_mono)
  qed
  have "map usage_event_id (listAll ?s) = map usage_event_id (listAll s)"
    unfolding listAll_def st using map_values_set [OF wf resolved(1), of usage_event_id ?d] by simp
  moreover have "refunded ?s = refunded s" if "r = UpholdIt"
    unfolding refunded_def listAll_def st using that filter_map_set [OF wf resolved(1), of "\<lambda>d. status d = REFUNDED" ?d] resolved(2)
    by simp
  then have "cache_ok ?s"
    using inv st(4) by (cases r) (auto simp: dispute_inv_def cache_ok_def refunds_get_def)
  moreover have "\<forall>x \<in> set (events ?s). issued (counter ?s) (ev_dispute x)"
    using inv st resolved(5) d by (auto simp: dispute_inv_def dispute_ok_def intro: issued_mono)
  ultimately show ?thesis using inv ok st(1) wf by (simp add: dispute_inv_def)
qed (use inv in simp_all)

lemma inv_cache_update:
  assumes "dispute_inv s" and "cache_ok (s\<lparr>refunds_cache := c\<rparr>)"
  shows "dispute_inv (s\<lparr>refunds_cache := c\<rparr>)"
  using assms by (simp add: dispute_inv_def dispute_ok_def listAll_def)

lemma warm_inv:
  assumes "dispute_inv s"
  shows "dispute_inv (snd (warmupRefundsCache ttl tm st now b s))"
proof -
  have "cache_ok (s\<lparr>refunds_cache := refunds_set ttl now ''all'' (refunded s) (refunds_cache s)\<rparr>)"
    by (simp add: cache_ok_def refunds.get_set) (simp add: refunded_def listAll_def)
  from inv_cache_update [OF assms this] assms show ?thesis
    by (simp add: warmupRefundsCache_def warm_race_def refunded_def)
qed

lemma read_cache_inv:
  assumes "dispute_inv s"
  shows "dispute_inv (s\<lparr>refunds_cache := snd (refunds_get now k (refunds_cache s))\<rparr>)"
proof (rule inv_cache_update [OF assms])
  let ?s = "s\<lparr>refunds_cache := snd (refunds_get now k (refunds_cache s))\<rparr>"
  have "v = refunded ?s" if "fst (refunds_get t ''all'' (refunds_cache ?s)) = Some v" for t v
  proof -
    have "fst (refunds_get t ''all'' (refunds_cache s)) = Some v"
      using refunds.get_get [of t "''all''" now k "refunds_cache s"] that by simp
    with assms show ?thesis by (simp add: dispute_inv_def cache_ok_def refunded_def listAll_def)
  qed
  then show "cache_ok ?s" by (simp add: cache_ok_def)
qed

lemma step_inv: "dispute_step s s' \<Longrightarrow> dispute_inv s \<Longrightarrow> dispute_inv s'"
  by (induction rule: dispute_step.induct) (simp_all add: open_inv resolve_inv warm_inv read_cache_inv)

lemma dispute_reachable_inv: "dispute_reachable s \<Longrightarrow> dispute_inv s"
proof (induction rule: dispute_reachable.induct)
  case 1
  show ?case by (simp add: dispute_inv_def empty_disputes_def listAll_def cache_ok_def refunds_get_def)
qed (rule step_inv)

lemma step_resolved:
  assumes "dispute_step s s'" and "dispute_inv s" and "findById i s = Some d"
  shows "findById i s' = Some d \<or>
    (status d = DISPUTE_OPEN \<and> (\<exists>d'. findById i s' = Some d' \<and> status d' \<in> {REFUNDED, UPHELD} \<and>
       usage_event_id d' = usage_event_id d \<and> opened_by d' = opened_by d \<and> resolved_by d' \<noteq> None))"
  using assms(1)
proof cases
  case (1 ue why u now)
  show ?thesis
  proof (cases rule: open_cases [of ue why u now s])
    case (opened x)
    have "i \<noteq> dispute_id x"
      using fresh_id(1) [OF assms(2), of now] opened(3) assms(3) map_get_in_set [of "disputes s" i d]
      by (force simp: findById_def)
    with opened(7) 1 assms(3) show ?thesis by (simp add: findById_def jsmap)
  qed (use 1 assms(3) in simp)
next
  case (2 j r memo a now)
  show ?thesis
  proof (cases rule: resolve_cases [where i = j and r = r and memo = memo and a = a and now = now and s = s])
    case (resolved x e)
    show ?thesis
    proof (cases "i = j")
      case True
      with resolved 2 assms(3) show ?thesis by (cases r) (simp_all add: findById_def jsmap)
    next
      case False
      with resolved(3) 2 assms(3) show ?thesis by (simp add: findById_def jsmap)
    qed
  qed (use 2 assms(3) in simp_all)
next
  case (3 ttl tm st now b)
  with assms(3) show ?thesis
    by (cases b) (simp_all add: warmupRefundsCache_def warm_race_def findById_def)
next
  case (4 now k)
  with assms(3) show ?thesis by (simp add: findById_def)
qed

inductive dispute_steps :: "dispute_state \<Rightarrow> dispute_state \<Rightarrow> bool" where
  "dispute_steps s s"
| "dispute_step s s' \<Longrightarrow> dispute_steps s' s'' \<Longrightarrow> dispute_steps s s''"

lemma resolved_stays:
  "dispute_steps s s' \<Longrightarrow> dispute_inv s \<Longrightarrow> findById i s = Some d \<Longrightarrow> status d \<noteq> DISPUTE_OPEN \<Longrightarrow> findById i s' = Some d"
proof (induction rule: dispute_steps.induct)
  case (2 s s' s'')
  then show ?case using step_resolved [OF 2(1)] step_inv [OF 2(1)] by blast
qed

section \<open>Properties\<close>

definition demo_id :: string where
  "demo_id = nextId ''disp'' 5 0"

definition demo_refunded :: dispute_state where
  "demo_refunded = snd (warmupRefundsCache 30000 5000 9 9 True (snd (resolveDispute demo_id RefundIt None ''admin'' 9
     (snd (openDispute ''ue1'' ''double charge'' ''dev'' 5 empty_disputes)))))"

lemma demo_reachable: "dispute_reachable demo_refunded"
proof -
  note go = dispute_reachable.intros(2) and init = dispute_reachable.intros(1)
  show ?thesis unfolding demo_refunded_def
    by (rule go [OF go [OF go [OF init dispute_step.intros(1)] dispute_step.intros(2)] dispute_step.intros(3)])
qed

definition demo_dispute :: Dispute where
  "demo_dispute = \<lparr>dispute_id = demo_id, usage_event_id = ''ue1'', opened_by = ''dev'', reason = ''double charge'',
     status = REFUNDED, created_at = 5, resolved_at = Some 9, resolved_by = Some ''admin''\<rparr>"

lemmas dispute_eval = openDispute_def create_dispute_def resolveDispute_def resolve_dispute_def appendEvent_def
  warmupRefundsCache_def warm_race_def refunds_set_def refunds_get_def refunds_invalidateAll_def
  findByUsageEventId_def findById_def listAll_def empty_disputes_def Let_def

lemma demo_status: "findById demo_id demo_refunded = Some demo_dispute" "status demo_dispute = REFUNDED"
  "fst (refunds_get 10 ''all'' (refunds_cache demo_refunded)) = Some [demo_dispute]"
  by (simp_all add: demo_refunded_def demo_dispute_def demo_id_def dispute_eval)

text \<open>C24. A resolution is final: in every run of the service, once a dispute is refunded or
  upheld, no sequence of further calls changes any field of it, and every further attempt to
  resolve it is refused and changes nothing.\<close>

theorem dispute_resolution_final:
  assumes "dispute_reachable s" and "dispute_steps s s'" and "findById i s = Some d" and "status d \<noteq> DISPUTE_OPEN"
  shows "findById i s' = Some d \<and> (\<exists>e. statusCode e = Some 409 \<and> resolveDispute i r memo a now s' = (Inl e, s'))"
  using resolved_stays [OF assms(2) dispute_reachable_inv [OF assms(1)] assms(3,4)] assms(4)
  by (auto simp: findById_def resolveDispute_def resolve_dispute_def)

theorem dispute_resolution_final_witness:
  "\<exists>e. statusCode e = Some 409 \<and> resolveDispute demo_id UpholdIt None ''admin'' 20 demo_refunded = (Inl e, demo_refunded)"
  using dispute_resolution_final [OF demo_reachable dispute_steps.intros(1) demo_status(1)] by (simp add: demo_status(2))

text \<open>The audit trail is complete and disputes are unique: in every reachable state no two
  disputes are about the same usage event, and the audit events of a dispute are exactly one
  \<open>OPENED\<close>, followed by exactly one \<open>RESOLVED\<close> when it is no longer open.\<close>

theorem dispute_audit_complete:
  assumes "dispute_reachable s" and "findById i s = Some d"
  shows "map ev_action (getEvents i s) = (if status d = DISPUTE_OPEN then [''OPENED''] else [''OPENED'', ''RESOLVED'']) \<and>
    distinct (map usage_event_id (listAll s)) \<and> (status d = DISPUTE_OPEN \<longleftrightarrow> resolved_at d = None)"
proof -
  note inv = dispute_reachable_inv [OF assms(1)]
  with assms(2) have "dispute_ok s i d" "distinct (map usage_event_id (listAll s))"
    by (simp_all add: dispute_inv_def findById_def)
  then show ?thesis
    by (cases "status d = DISPUTE_OPEN") (auto simp: dispute_ok_def trail_ok_def getEvents_def)
qed

theorem dispute_audit_complete_witness:
  "map ev_action (getEvents demo_id demo_refunded) = [''OPENED'', ''RESOLVED'']"
  using dispute_audit_complete [OF demo_reachable demo_status(1)] by (simp add: demo_status(2))

text \<open>The refunds cache is never stale: in every reachable state a hit on its entry is exactly
  the current list of refunded disputes, whatever calls were made since it was warmed up.\<close>

theorem refunds_cache_coherent:
  assumes "dispute_reachable s" and "fst (refunds_get now ''all'' (refunds_cache s)) = Some v"
  shows "v = filter (\<lambda>d. status d = REFUNDED) (listAll s)"
  using dispute_reachable_inv [OF assms(1)] assms(2) by (simp add: dispute_inv_def cache_ok_def refunded_def)

theorem refunds_cache_coherent_witness:
  "filter (\<lambda>d. status d = REFUNDED) (listAll demo_refunded) = [demo_dispute]"
  using refunds_cache_coherent [OF demo_reachable demo_status(3)] by simp

end
