(* ===== verification/Quota.thy ===== *)
theory Quota
  imports TtlCache
begin

text \<open>
  Quota upgrade requests (\<^verbatim>\<open>services/quotaService.ts\<close>): the in-memory store, the service
  functions with the list cache of \<^verbatim>\<open>services/quotasCacheWarm.ts\<close>, single and bulk decisions,
  and the merge of plan overrides into the developer row.

  Persisting the overrides is a parameter \<open>persist\<close> on the developer table that may fail; the
  default one is \<open>updateDeveloperPlanOverrides\<close>. The id of a new request (a UUID) and the clock
  are arguments. Audit log entries are kept in the state.
\<close>

section \<open>Data\<close>

datatype QuotaRequestStatus = Pending | Approved | Rejected

fun quota_text :: "QuotaRequestStatus \<Rightarrow> string" where
  "quota_text Pending = ''pending''"
| "quota_text Approved = ''approved''"
| "quota_text Rejected = ''rejected''"

record quota_overrides =
  monthlyCallLimit :: "int option"
  rateLimitMaxRequests :: "int option"

record QuotaRequest =
  quota_id :: string
  developerId :: string
  requestedTier :: string
  quota_reason :: string
  requestedOverrides :: "quota_overrides option"
  quota_status :: QuotaRequestStatus
  adminNotes :: "string option"
  quota_createdAt :: millis
  resolvedAt :: "millis option"
  resolvedBy :: "string option"

record CreateQuotaRequestInput =
  in_developer :: string
  in_tier :: string
  in_reason :: string
  in_overrides :: "quota_overrides option"

datatype json = JString string | JNumber int

type_synonym json_object = "(string, json) js_map"

record 'p quota_state =
  requests :: "(string, QuotaRequest) js_map"
  quotas_cache :: "QuotaRequest list cache"
  developers :: 'p
  audit :: "(string \<times> string \<times> string) list"

section \<open>InMemoryQuotaRequestStore\<close>

definition store_create :: "string \<Rightarrow> CreateQuotaRequestInput \<Rightarrow> millis \<Rightarrow> 'p quota_state \<Rightarrow>
    QuotaRequest \<times> 'p quota_state" where
  "store_create i input now s =
    (let r = \<lparr>quota_id = i, developerId = in_developer input, requestedTier = in_tier input,
           quota_reason = in_reason input, requestedOverrides = in_overrides input, quota_status = Pending,
           adminNotes = None, quota_createdAt = now, resolvedAt = None, resolvedBy = None\<rparr>
     in (r, s\<lparr>requests := map_set i r (requests s)\<rparr>))"

definition store_findById :: "string \<Rightarrow> 'p quota_state \<Rightarrow> QuotaRequest option" where
  "store_findById i s = map_get (requests s) i"

definition store_list :: "QuotaRequestStatus option \<Rightarrow> 'p quota_state \<Rightarrow> QuotaRequest list" where
  "store_list filt s = (let all = map_values (requests s) in
     case filt of None \<Rightarrow> all | Some st \<Rightarrow> filter (\<lambda>r. quota_status r = st) all)"

definition store_update :: "string \<Rightarrow> (QuotaRequest \<Rightarrow> QuotaRequest) \<Rightarrow> 'p quota_state \<Rightarrow>
    QuotaRequest option \<times> 'p quota_state" where
  "store_update i changes s = (case map_get (requests s) i of
       None \<Rightarrow> (None, s)
     | Some r \<Rightarrow> (let u = changes r in (Some u, s\<lparr>requests := map_set i u (requests s)\<rparr>)))"

section \<open>Service functions\<close>

abbreviation invalidate :: "'p quota_state \<Rightarrow> 'p quota_state" where
  "invalidate s \<equiv> s\<lparr>quotas_cache := quotas_invalidateAll (quotas_cache s)\<rparr>"

abbreviation log_audit :: "string \<Rightarrow> string \<Rightarrow> string \<Rightarrow> 'p quota_state \<Rightarrow> 'p quota_state" where
  "log_audit action actor i s \<equiv> s\<lparr>audit := audit s @ [(action, actor, i)]\<rparr>"

definition createQuotaRequest :: "string \<Rightarrow> CreateQuotaRequestInput \<Rightarrow> millis \<Rightarrow> 'p quota_state \<Rightarrow>
    QuotaRequest \<times> 'p quota_state" where
  "createQuotaRequest i input now s = (case store_create i input now s of
     (r, s1) \<Rightarrow> (r, invalidate (log_audit ''QUOTA_REQUEST_CREATED'' (in_developer input) i s1)))"

definition getQuotaRequest :: "string \<Rightarrow> 'p quota_state \<Rightarrow> QuotaRequest result" where
  "getQuotaRequest i s = (case store_findById i s of
       None \<Rightarrow> Inl (NotFoundError ''Quota request not found'' ''QUOTA_REQUEST_NOT_FOUND'')
     | Some r \<Rightarrow> Inr r)"

definition cache_key :: "QuotaRequestStatus option \<Rightarrow> string" where
  "cache_key filt = (case filt of None \<Rightarrow> ''all'' | Some st \<Rightarrow> quota_text st)"

definition listQuotaRequests :: "millis \<Rightarrow> millis \<Rightarrow> QuotaRequestStatus option \<Rightarrow> 'p quota_state \<Rightarrow>
    QuotaRequest list \<times> 'p quota_state" where
  "listQuotaRequests ttl now filt s = (case quotas_get now (cache_key filt) (quotas_cache s) of
       (Some cached, c) \<Rightarrow> (cached, s\<lparr>quotas_cache := c\<rparr>)
     | (None, c) \<Rightarrow> (let r = store_list filt s in
         (r, s\<lparr>quotas_cache := quotas_set ttl now (cache_key filt) r c\<rparr>)))"

definition plan_changes :: "QuotaRequest \<Rightarrow> json_object" where
  "plan_changes r = (''plan_tier'', JString (requestedTier r)) #
    (case requestedOverrides r of None \<Rightarrow> []
     | Some ov \<Rightarrow>
        (case monthlyCallLimit ov of Some n \<Rightarrow> if n \<noteq> 0 then [(''monthly_call_limit'', JNumber n)] else [] | None \<Rightarrow> []) @
        (case rateLimitMaxRequests ov of Some n \<Rightarrow> if n \<noteq> 0 then [(''rate_limit_max_requests'', JNumber n)] else [] | None \<Rightarrow> []))"

definition resolution :: "QuotaRequestStatus \<Rightarrow> string option \<Rightarrow> millis \<Rightarrow> string \<Rightarrow> QuotaRequest \<Rightarrow> QuotaRequest" where
  "resolution st memo now actor r =
     r\<lparr>quota_status := st, adminNotes := memo, resolvedAt := Some now, resolvedBy := Some actor\<rparr>"

type_synonym 'p persister = "string \<Rightarrow> json_object \<Rightarrow> 'p \<Rightarrow> error option \<times> 'p"

definition not_pending :: "QuotaRequest \<Rightarrow> error" where
  "not_pending r = ConflictError (''Quota request is already '' @ quota_text (quota_status r)) ''QUOTA_REQUEST_ALREADY_RESOLVED''"

definition approveQuotaRequest :: "'p persister \<Rightarrow> string \<Rightarrow> string \<Rightarrow> string option \<Rightarrow> millis \<Rightarrow>
    'p quota_state \<Rightarrow> QuotaRequest result \<times> 'p quota_state" where
  "approveQuotaRequest persist i actor memo now s = (case store_findById i s of
       None \<Rightarrow> (Inl (NotFoundError ''Quota request not found'' ''QUOTA_REQUEST_NOT_FOUND''), s)
     | Some r \<Rightarrow>
        if quota_status r \<noteq> Pending then (Inl (not_pending r), s)
        else (case store_update i (resolution Approved memo now actor) s of (updated, s1) \<Rightarrow>
          (case persist (developerId r) (plan_changes r) (developers s1) of
             (Some e, p) \<Rightarrow> (Inl e, s1\<lparr>developers := p\<rparr>)
           | (None, p) \<Rightarrow> (Inr (the updated),
               invalidate (log_audit ''QUOTA_REQUEST_APPROVED'' actor i (s1\<lparr>developers := p\<rparr>))))))"

definition rejectQuotaRequest :: "string \<Rightarrow> string \<Rightarrow> string option \<Rightarrow> millis \<Rightarrow>
    'p quota_state \<Rightarrow> QuotaRequest result \<times> 'p quota_state" where
  "rejectQuotaRequest i actor memo now s = (case store_findById i s of
       None \<Rightarrow> (Inl (NotFoundError ''Quota request not found'' ''QUOTA_REQUEST_NOT_FOUND''), s)
     | Some r \<Rightarrow>
        if quota_status r \<noteq> Pending then (Inl (not_pending r), s)
        else (case store_update i (resolution Rejected memo now actor) s of (updated, s1) \<Rightarrow>
          (Inr (the updated), invalidate (log_audit ''QUOTA_REQUEST_REJECTED'' actor i s1))))"

section \<open>Bulk decisions\<close>

datatype bulk_action = Approve | Reject

record BulkOperation =
  op_request :: string
  op_action :: bulk_action
  op_notes :: "string option"

record BulkOperationError =
  err_request :: string
  err_message :: string
  err_code :: string

record BulkOperationResult =
  res_request :: string
  res_developer :: string
  res_tier :: string
  res_status :: QuotaRequestStatus

datatype bulk_failure = ValidationFailed "BulkOperationError list" | PersistFailed error

fun precheck :: "BulkOperation list \<Rightarrow> 'p quota_state \<Rightarrow>
    BulkOperationError list \<times> (BulkOperation \<times> QuotaRequest) list" where
  "precheck [] s = ([], [])"
| "precheck (op # ops) s = (case precheck ops s of (errs, oks) \<Rightarrow>
    (case store_findById (op_request op) s of
       None \<Rightarrow> (\<lparr>err_request = op_request op, err_message = ''Quota request not found'',
                 err_code = ''QUOTA_REQUEST_NOT_FOUND''\<rparr> # errs, oks)
     | Some r \<Rightarrow> if quota_status r \<noteq> Pending
         then (\<lparr>err_request = op_request op, err_message = ''Quota request is already '' @ quota_text (quota_status r),
                err_code = ''QUOTA_REQUEST_ALREADY_RESOLVED''\<rparr> # errs, oks)
         else (errs, (op, r) # oks)))"

fun apply_ops :: "'p persister \<Rightarrow> string \<Rightarrow> millis \<Rightarrow> (BulkOperation \<times> QuotaRequest) list \<Rightarrow> 'p quota_state \<Rightarrow>
    (error + BulkOperationResult list) \<times> 'p quota_state" where
  "apply_ops persist actor now [] s = (Inr [], s)"
| "apply_ops persist actor now ((op, r) # rest) s =
    (let i = op_request op;
         (failed, s1) = (case op_action op of
           Approve \<Rightarrow> (let s' = snd (store_update i (resolution Approved (op_notes op) now actor) s) in
             case persist (developerId r) (plan_changes r) (developers s') of
               (Some e, p) \<Rightarrow> (Some e, s'\<lparr>developers := p\<rparr>)
             | (None, p) \<Rightarrow> (None, log_audit ''QUOTA_REQUEST_APPROVED'' actor i (s'\<lparr>developers := p\<rparr>)))
         | Reject \<Rightarrow> (None, log_audit ''QUOTA_REQUEST_REJECTED'' actor i
             (snd (store_update i (resolution Rejected (op_notes op) now actor) s)))) in
     case failed of Some e \<Rightarrow> (Inl e, s1)
     | None \<Rightarrow> (case apply_ops persist actor now rest s1 of
         (Inl e, s2) \<Rightarrow> (Inl e, s2)
       | (Inr rs, s2) \<Rightarrow> (Inr (\<lparr>res_request = i, res_developer = developerId r, res_tier = requestedTier r,
           res_status = (case store_findById i s1 of None \<Rightarrow> Pending | Some u \<Rightarrow> quota_status u)\<rparr> # rs), s2)))"

definition bulkUpdateQuotaRequests :: "'p persister \<Rightarrow> BulkOperation list \<Rightarrow> string \<Rightarrow> millis \<Rightarrow>
    'p quota_state \<Rightarrow> (bulk_failure + BulkOperationResult list) \<times> 'p quota_state" where
  "bulkUpdateQuotaRequests persist ops actor now s = (case precheck ops s of (errs, oks) \<Rightarrow>
     if errs \<noteq> [] then (Inl (ValidationFailed errs), s)
     else (case apply_ops persist actor now oks s of
         (Inl e, s1) \<Rightarrow> (Inl (PersistFailed e), s1)
       | (Inr rs, s1) \<Rightarrow> (Inr rs, s1)))"

section \<open>Plan overrides of developers\<close>

type_synonym developer_table = "(string, json_object option) js_map"

definition updateDeveloperPlanOverrides :: "json \<Rightarrow> developer_table persister" where
  "updateDeveloperPlanOverrides stamp uid changes t = (None, case map_get t uid of
       None \<Rightarrow> t
     | Some current \<Rightarrow>
        (let merged = fold (\<lambda>(k, v) o'. map_set k v o') (changes @ [(''updated_at'', stamp)])
             (case current of None \<Rightarrow> [] | Some o' \<Rightarrow> o')
         in map_set uid (Some merged) t))"

definition warmupQuotasCache :: "millis \<Rightarrow> millis \<Rightarrow> millis \<Rightarrow> millis \<Rightarrow> bool \<Rightarrow> 'p quota_state \<Rightarrow>
    WarmupResult \<times> 'p quota_state" where
  "warmupQuotasCache ttl timeoutMs started now in_time s =
    (case listQuotaRequests ttl now None s of (all, s1) \<Rightarrow>
      (case warm_race ''Quotas warmup'' timeoutMs (if in_time then Some (Inr all) else None) of
         Inr v \<Rightarrow> (warm_done (now - started), s1\<lparr>quotas_cache := quotas_set ttl now ''all'' v (quotas_cache s1)\<rparr>)
       | Inl e \<Rightarrow> (warm_skipped (now - started) e, s1)))"

section \<open>What a list call should return\<close>

definition listing :: "'p quota_state \<Rightarrow> string \<Rightarrow> QuotaRequest list" where
  "listing s k = (if k = ''all'' then map_values (requests s)
     else filter (\<lambda>r. quota_text (quota_status r) = k) (map_values (requests s)))"

lemma quota_text_inj: "quota_text a = quota_text b \<longleftrightarrow> a = b"
  by (cases a; cases b) simp_all

lemma quota_text_not_all: "quota_text a \<noteq> ''all''"
  by (cases a) simp_all

lemma store_list_listing: "store_list filt s = listing s (cache_key filt)"
  by (cases filt) (simp_all add: store_list_def listing_def cache_key_def quota_text_inj quota_text_not_all)

definition cache_coherent :: "'p quota_state \<Rightarrow> bool" where
  "cache_coherent s \<longleftrightarrow> (\<forall>t k v. fst (quotas_get t k (quotas_cache s)) = Some v \<longrightarrow> v = listing s k)"

lemma listing_frame [simp]: "listing (s\<lparr>quotas_cache := c\<rparr>) = listing s"
  by (simp add: fun_eq_iff listing_def)

lemma list_read_through:
  "listQuotaRequests ttl now filt s =
    (fst (quotas.read_through ttl (listing s) now (cache_key filt) (quotas_cache s)),
     s\<lparr>quotas_cache := snd (quotas.read_through ttl (listing s) now (cache_key filt) (quotas_cache s))\<rparr>)"
  by (auto simp: listQuotaRequests_def quotas.read_through_def store_list_listing Let_def split: prod.split option.split)

lemma coherent_iff: "cache_coherent s \<longleftrightarrow> quotas.coherent (listing s) (quotas_cache s)"
  by (simp add: cache_coherent_def quotas.coherent_def)

lemma list_coherent:
  assumes "cache_coherent s"
  shows "fst (listQuotaRequests ttl now filt s) = store_list filt s \<and> cache_coherent (snd (listQuotaRequests ttl now filt s))"
proof -
  from quotas.read_through_coherent [OF assms [unfolded coherent_iff], of ttl now "cache_key filt"]
  show ?thesis by (simp add: list_read_through coherent_iff store_list_listing)
qed

lemma empty_coherent: "quotas_cache s = [] \<Longrightarrow> cache_coherent s"
  by (simp add: cache_coherent_def quotas_get_def)

lemmas invalidated_coherent = empty_coherent quotas_invalidateAll_def

section \<open>Runs of the service\<close>

definition never_fails :: "'p persister \<Rightarrow> bool" where
  "never_fails persist \<longleftrightarrow> (\<forall>u c p. fst (persist u c p) = None)"

inductive quota_step :: "'p persister \<Rightarrow> millis \<Rightarrow> 'p quota_state \<Rightarrow> 'p quota_state \<Rightarrow> bool"
  for persist ttl where
  "quota_step persist ttl s (snd (createQuotaRequest i input now s))"
| "quota_step persist ttl s (snd (approveQuotaRequest persist i actor memo now s))"
| "quota_step persist ttl s (snd (rejectQuotaRequest i actor memo now s))"
| "quota_step persist ttl s (snd (listQuotaRequests ttl now filt s))"
| "quota_step persist ttl s (snd (warmupQuotasCache ttl tm st now b s))"

inductive quota_reachable :: "'p persister \<Rightarrow> millis \<Rightarrow> 'p quota_state \<Rightarrow> bool" for persist ttl where
  "quota_reachable persist ttl \<lparr>requests = [], quotas_cache = [], developers = p, audit = []\<rparr>"
| "quota_reachable persist ttl s \<Longrightarrow> quota_step persist ttl s s' \<Longrightarrow> quota_reachable persist ttl s'"

lemma approve_coherent:
  assumes "never_fails persist" and "cache_coherent s"
  shows "cache_coherent (snd (approveQuotaRequest persist i actor memo now s))"
  using assms
  by (auto simp: approveQuotaRequest_def never_fails_def invalidated_coherent split: option.split prod.split)
    (metis fst_conv option.distinct(1))

lemma reject_coherent:
  assumes "cache_coherent s"
  shows "cache_coherent (snd (rejectQuotaRequest i actor memo now s))"
  using assms by (auto simp: rejectQuotaRequest_def invalidated_coherent split: option.split prod.split)

lemma warm_coherent:
  assumes "cache_coherent s"
  shows "cache_coherent (snd (warmupQuotasCache ttl tm st now b s))"
proof -
  obtain all s1 where l: "listQuotaRequests ttl now None s = (all, s1)" by (cases "listQuotaRequests ttl now None s")
  with list_coherent [OF assms, of ttl now None] have c: "all = store_list None s" "cache_coherent s1" by auto
  have "listing s1 ''all'' = all"
    using l c(1) by (auto simp: list_read_through store_list_listing cache_key_def)
  with quotas.coherent_set [OF c(2) [unfolded coherent_iff], of ttl now "''all''"]
  have "cache_coherent (s1\<lparr>quotas_cache := quotas_set ttl now ''all'' all (quotas_cache s1)\<rparr>)"
    by (simp add: coherent_iff)
  with c l show ?thesis by (simp add: warmupQuotasCache_def warm_race_def)
qed

lemma step_coherent:
  assumes "never_fails persist"
  shows "quota_step persist ttl s s' \<Longrightarrow> cache_coherent s \<Longrightarrow> cache_coherent s'"
proof (induction rule: quota_step.induct)
  case (1 s i input now)
  show ?case by (simp add: createQuotaRequest_def split_beta invalidated_coherent)
qed (use assms in \<open>simp_all add: approve_coherent reject_coherent list_coherent warm_coherent\<close>)

lemma reachable_coherent:
  assumes "never_fails persist"
  shows "quota_reachable persist ttl s \<Longrightarrow> cache_coherent s"
proof (induction rule: quota_reachable.induct)
  case (1 p)
  show ?case by (simp add: cache_coherent_def quotas_get_def)
qed (rule step_coherent [OF assms])

section \<open>Bulk decisions\<close>

definition pending_in :: "'p quota_state \<Rightarrow> string \<Rightarrow> bool" where
  "pending_in s i \<longleftrightarrow> (\<exists>r. store_findById i s = Some r \<and> quota_status r = Pending)"

lemma precheck_errors: "fst (precheck ops s) = [] \<longleftrightarrow> (\<forall>op \<in> set ops. pending_in s (op_request op))"
  by (induction ops) (auto simp: pending_in_def split_beta split: option.split)

lemma precheck_oks:
  "\<forall>op \<in> set ops. pending_in s (op_request op) \<Longrightarrow>
   snd (precheck ops s) = map (\<lambda>op. (op, the (store_findById (op_request op) s))) ops"
  by (induction ops) (auto simp: pending_in_def split_beta split: option.split)

fun decided :: "bulk_action \<Rightarrow> QuotaRequestStatus" where
  "decided Approve = Approved"
| "decided Reject = Rejected"

lemma store_update_find:
  "store_findById j (snd (store_update i f s)) = (if j = i then map_option f (store_findById i s) else store_findById j s)"
  by (auto simp: store_update_def store_findById_def jsmap Let_def split: option.split)

lemma store_update_frame [simp]:
  "quotas_cache (snd (store_update i f s)) = quotas_cache s" "developers (snd (store_update i f s)) = developers s"
  by (simp_all add: store_update_def Let_def split: option.split)

lemma find_frame [simp]:
  "store_findById i (s\<lparr>developers := p\<rparr>) = store_findById i s" "store_findById i (s\<lparr>audit := l\<rparr>) = store_findById i s"
  "store_findById i (s\<lparr>developers := p, audit := l\<rparr>) = store_findById i s"
  by (simp_all add: store_findById_def)

text \<open>The effect of one operation of the bulk loop.\<close>

lemma apply_one:
  assumes "never_fails persist"
  obtains s1 where "apply_ops persist actor now ((op, r) # rest) s = (case apply_ops persist actor now rest s1 of
      (Inl e, s2) \<Rightarrow> (Inl e, s2)
    | (Inr rs, s2) \<Rightarrow> (Inr (\<lparr>res_request = op_request op, res_developer = developerId r, res_tier = requestedTier r,
        res_status = (case store_findById (op_request op) s1 of None \<Rightarrow> Pending | Some u \<Rightarrow> quota_status u)\<rparr> # rs), s2))"
    "quotas_cache s1 = quotas_cache s"
    "\<forall>j. store_findById j s1 = (if j = op_request op
       then map_option (resolution (decided (op_action op)) (op_notes op) now actor) (store_findById j s) else store_findById j s)"
    "developers s1 = (if op_action op = Approve then snd (persist (developerId r) (plan_changes r) (developers s)) else developers s)"
proof (cases "op_action op")
  case Approve
  obtain p where p: "persist (developerId r) (plan_changes r) (developers s) = (None, p)"
    using assms by (metis never_fails_def prod.collapse)
  show ?thesis
    by (rule that [of "log_audit ''QUOTA_REQUEST_APPROVED'' actor (op_request op)
        ((snd (store_update (op_request op) (resolution Approved (op_notes op) now actor) s))\<lparr>developers := p\<rparr>)"])
      (use Approve p in \<open>simp_all add: store_update_find Let_def split: prod.split sum.split\<close>)
next
  case Reject
  show ?thesis
    by (rule that [of "log_audit ''QUOTA_REQUEST_REJECTED'' actor (op_request op)
        (snd (store_update (op_request op) (resolution Rejected (op_notes op) now actor) s))"])
      (use Reject in \<open>simp_all add: store_update_find Let_def split: prod.split sum.split\<close>)
qed

lemma apply_ops_effect:
  assumes "never_fails persist"
  shows "\<forall>x \<in> set xs. store_findById (op_request (fst x)) s \<noteq> None \<Longrightarrow>
    \<exists>rs s1. apply_ops persist actor now xs s = (Inr rs, s1) \<and> length rs = length xs \<and> quotas_cache s1 = quotas_cache s \<and>
      (\<forall>j. (store_findById j s1 = None \<longleftrightarrow> store_findById j s = None)) \<and>
      (\<forall>j. j \<notin> (\<lambda>x. op_request (fst x)) ` set xs \<longrightarrow> store_findById j s1 = store_findById j s) \<and>
      (\<forall>x \<in> set xs. \<exists>u. store_findById (op_request (fst x)) s1 = Some u \<and> quota_status u \<noteq> Pending) \<and>
      (distinct (map (\<lambda>x. op_request (fst x)) xs) \<longrightarrow> (\<forall>x \<in> set xs. \<exists>u.
         store_findById (op_request (fst x)) s1 = Some u \<and> quota_status u = decided (op_action (fst x))))"
proof (induction xs arbitrary: s)
  case (Cons x xs)
  obtain op r where x: "x = (op, r)" by (cases x)
  obtain s1 where s1: "apply_ops persist actor now ((op, r) # xs) s = (case apply_ops persist actor now xs s1 of
      (Inl e, s2) \<Rightarrow> (Inl e, s2)
    | (Inr rs, s2) \<Rightarrow> (Inr (\<lparr>res_request = op_request op, res_developer = developerId r, res_tier = requestedTier r,
        res_status = (case store_findById (op_request op) s1 of None \<Rightarrow> Pending | Some u \<Rightarrow> quota_status u)\<rparr> # rs), s2))"
    "quotas_cache s1 = quotas_cache s"
    "\<forall>j. store_findById j s1 = (if j = op_request op
       then map_option (resolution (decided (op_action op)) (op_notes op) now actor) (store_findById j s) else store_findById j s)"
    by (rule apply_one [OF assms])
  have "\<forall>x \<in> set xs. store_findById (op_request (fst x)) s1 \<noteq> None" using Cons.prems s1(3) by auto
  from Cons.IH [OF this] obtain rs s2 where ih: "apply_ops persist actor now xs s1 = (Inr rs, s2)" "length rs = length xs"
    "quotas_cache s2 = quotas_cache s1" "\<forall>j. (store_findById j s2 = None \<longleftrightarrow> store_findById j s1 = None)"
    "\<forall>j. j \<notin> (\<lambda>x. op_request (fst x)) ` set xs \<longrightarrow> store_findById j s2 = store_findById j s1"
    "\<forall>x \<in> set xs. \<exists>u. store_findById (op_request (fst x)) s2 = Some u \<and> quota_status u \<noteq> Pending"
    "distinct (map (\<lambda>x. op_request (fst x)) xs) \<longrightarrow> (\<forall>x \<in> set xs. \<exists>u.
         store_findById (op_request (fst x)) s2 = Some u \<and> quota_status u = decided (op_action (fst x)))"
    by blast
  obtain u where u: "store_findById (op_request op) s1 = Some u" "quota_status u = decided (op_action op)"
    using Cons.prems x s1(3) by (auto simp: resolution_def)
  have dn: "decided a \<noteq> Pending" for a by (cases a) simp_all
  have own: "\<exists>u. store_findById (op_request op) s2 = Some u \<and> quota_status u \<noteq> Pending"
    using ih(5,6) u dn by (cases "op_request op \<in> (\<lambda>x. op_request (fst x)) ` set xs") auto
  have own_d: "\<exists>u. store_findById (op_request op) s2 = Some u \<and> quota_status u = decided (op_action op)"
    if "op_request op \<notin> (\<lambda>x. op_request (fst x)) ` set xs" using ih(5) u that by auto
  have frame: "store_findById j s2 = store_findById j s"
    if "j \<noteq> op_request op" "j \<notin> (\<lambda>x. op_request (fst x)) ` set xs" for j using ih(5) s1(3) that by simp
  let ?res = "\<lparr>res_request = op_request op, res_developer = developerId r, res_tier = requestedTier r,
    res_status = quota_status u\<rparr> # rs"
  have eq: "apply_ops persist actor now (x # xs) s = (Inr ?res, s2)"
    unfolding x s1(1) by (simp add: ih(1) u(1))
  have none: "\<forall>j. store_findById j s2 = None \<longleftrightarrow> store_findById j s = None" using ih(4) s1(3) by simp
  have "\<forall>j. j \<notin> (\<lambda>x. op_request (fst x)) ` set (x # xs) \<longrightarrow> store_findById j s2 = store_findById j s"
    using frame x by simp
  moreover have "\<forall>y \<in> set (x # xs). \<exists>u. store_findById (op_request (fst y)) s2 = Some u \<and> quota_status u \<noteq> Pending"
    using own ih(6) x by auto
  moreover have "distinct (map (\<lambda>x. op_request (fst x)) (x # xs)) \<longrightarrow> (\<forall>y \<in> set (x # xs). \<exists>u.
      store_findById (op_request (fst y)) s2 = Some u \<and> quota_status u = decided (op_action (fst y)))"
    using own_d ih(7) x by auto
  ultimately show ?case using eq none ih(2,3) s1(2) by (intro exI [of _ ?res] exI [of _ s2]) simp
qed simp

section \<open>Properties\<close>

text \<open>Listing quota requests is never stale under single operations: after any sequence of
  submissions, single approvals and rejections, listings and warm-ups (with overrides that are
  persisted without failure), a listing returns exactly the requests of the store with the
  asked status, in store order, whether it is served from the cache or not.\<close>

theorem quota_list_current:
  assumes "never_fails persist" and "quota_reachable persist ttl s"
  shows "fst (listQuotaRequests ttl now filt s) = store_list filt s"
  using list_coherent [OF reachable_coherent [OF assms]] by blast

definition demo_input :: CreateQuotaRequestInput where
  "demo_input = \<lparr>in_developer = ''dev'', in_tier = ''pro'', in_reason = ''growth'', in_overrides = None\<rparr>"

definition demo_persist :: "developer_table persister" where
  "demo_persist = updateDeveloperPlanOverrides (JString ''now'')"

definition demo_quota :: "developer_table quota_state" where
  "demo_quota = snd (createQuotaRequest ''q1'' demo_input 5
     \<lparr>requests = [], quotas_cache = [], developers = [(''dev'', None)], audit = []\<rparr>)"

lemma demo_never_fails: "never_fails demo_persist"
  by (simp add: never_fails_def demo_persist_def updateDeveloperPlanOverrides_def)

lemma demo_quota_reachable: "quota_reachable demo_persist 30000 demo_quota"
  unfolding demo_quota_def
  by (rule quota_reachable.intros(2) [OF quota_reachable.intros(1) quota_step.intros(1)])

theorem quota_list_current_witness:
  "fst (listQuotaRequests 30000 6 (Some Pending) demo_quota) = store_list (Some Pending) demo_quota"
  by (rule quota_list_current [OF demo_never_fails demo_quota_reachable])

text \<open>Bulk decisions are all or nothing at validation: if any operation names a request that
  does not exist or is not pending, the call fails with an error for each such operation and
  nothing changes; otherwise (overrides persisted without failure) every named request is
  decided, exactly as asked when no request is named twice, and no other request changes.\<close>

theorem bulk_update_all_or_nothing:
  assumes "never_fails persist"
  shows "if \<exists>op \<in> set ops. \<not> pending_in s (op_request op)
    then \<exists>errs. errs \<noteq> [] \<and> bulkUpdateQuotaRequests persist ops actor now s = (Inl (ValidationFailed errs), s)
    else \<exists>rs s1. bulkUpdateQuotaRequests persist ops actor now s = (Inr rs, s1) \<and> length rs = length ops \<and>
      (\<forall>j. j \<notin> op_request ` set ops \<longrightarrow> store_findById j s1 = store_findById j s) \<and>
      (distinct (map op_request ops) \<longrightarrow> (\<forall>op \<in> set ops. \<exists>u.
         store_findById (op_request op) s1 = Some u \<and> quota_status u = decided (op_action op)))"
proof (cases "\<exists>op \<in> set ops. \<not> pending_in s (op_request op)")
  case True
  then have "fst (precheck ops s) \<noteq> []" by (auto simp: precheck_errors)
  with True show ?thesis by (auto simp: bulkUpdateQuotaRequests_def split_beta)
next
  case False
  let ?xs = "map (\<lambda>op. (op, the (store_findById (op_request op) s))) ops"
  from False have ok: "fst (precheck ops s) = []" "snd (precheck ops s) = ?xs"
    using precheck_errors precheck_oks by auto
  have "\<forall>x \<in> set ?xs. store_findById (op_request (fst x)) s \<noteq> None" using False by (auto simp: pending_in_def)
  from apply_ops_effect [OF assms this, of actor now] ok False show ?thesis
    by (auto simp: bulkUpdateQuotaRequests_def split_beta o_def image_image)
qed

theorem bulk_update_all_or_nothing_witness:
  "\<exists>errs. errs \<noteq> [] \<and> bulkUpdateQuotaRequests demo_persist
     [\<lparr>op_request = ''q1'', op_action = Approve, op_notes = None\<rparr>, \<lparr>op_request = ''q2'', op_action = Approve, op_notes = None\<rparr>]
     ''admin'' 9 demo_quota = (Inl (ValidationFailed errs), demo_quota)"
  using bulk_update_all_or_nothing [OF demo_never_fails, of
      "[\<lparr>op_request = ''q1'', op_action = Approve, op_notes = None\<rparr>, \<lparr>op_request = ''q2'', op_action = Approve, op_notes = None\<rparr>]"
      demo_quota "''admin''" 9]
  by (simp add: pending_in_def store_findById_def demo_quota_def createQuotaRequest_def store_create_def Let_def
      split: if_splits)

text \<open>A bulk decision leaves the list cache stale: it does not invalidate the cache, so after
  a listing of pending requests, a successful bulk decision and a second listing within the
  time to live, the second listing still shows as pending every request that was just decided.\<close>

theorem bulk_update_leaves_stale_list:
  assumes "never_fails persist" and "quota_reachable persist ttl s"
    and "listQuotaRequests ttl t0 (Some Pending) s = (before, s0)"
    and "bulkUpdateQuotaRequests persist ops actor now s0 = (Inr rs, s1)" and "op \<in> set ops" and "t0 \<le> t" and "t \<le> t0 + ttl"
    and "fst (quotas_get t0 ''pending'' (quotas_cache s)) = None"
  shows "fst (listQuotaRequests ttl t (Some Pending) s1) = before \<and>
    (\<exists>r \<in> set before. store_findById (op_request op) s0 = Some r) \<and>
    (\<exists>u. store_findById (op_request op) s1 = Some u \<and> quota_status u \<noteq> Pending)"
proof -
  note coh = list_coherent [OF reachable_coherent [OF assms(1,2)], of ttl t0 "Some Pending"]
  have s0: "s0 = s\<lparr>quotas_cache := quotas_set ttl t0 ''pending'' before (snd (quotas_get t0 ''pending'' (quotas_cache s)))\<rparr>"
    using assms(3,8) by (cases "quotas_get t0 ''pending'' (quotas_cache s)")
      (auto simp: listQuotaRequests_def cache_key_def Let_def)
  have ok: "\<forall>op \<in> set ops. pending_in s0 (op_request op)"
    using assms(4) precheck_errors [of ops s0] by (auto simp: bulkUpdateQuotaRequests_def split: prod.splits if_splits)
  let ?xs = "map (\<lambda>op. (op, the (store_findById (op_request op) s0))) ops"
  have "\<forall>x \<in> set ?xs. store_findById (op_request (fst x)) s0 \<noteq> None" using ok by (auto simp: pending_in_def)
  from apply_ops_effect [OF assms(1) this, of actor now] ok precheck_oks [OF ok] precheck_errors [of ops s0] assms(4,5)
  have s1: "quotas_cache s1 = quotas_cache s0" "\<exists>u. store_findById (op_request op) s1 = Some u \<and> quota_status u \<noteq> Pending"
    by (auto simp: bulkUpdateQuotaRequests_def split_beta)
  have "fst (listQuotaRequests ttl t (Some Pending) s1) = before"
    using quotas.stale_hit [OF assms(7)] s1(1) s0 by (simp add: list_read_through cache_key_def)
  moreover obtain r where r: "store_findById (op_request op) s0 = Some r" "quota_status r = Pending"
    using ok assms(5) by (auto simp: pending_in_def)
  have "r \<in> set (store_list (Some Pending) s)"
    using r s0 by (auto simp: store_list_def store_findById_def dest: map_of_SomeD intro: rev_image_eqI)
  with coh assms(3) r s1(2) calculation show ?thesis by auto
qed

definition demo_op :: "bulk_action \<Rightarrow> BulkOperation" where
  "demo_op a = \<lparr>op_request = ''q1'', op_action = a, op_notes = None\<rparr>"

lemmas quota_eval = demo_quota_def createQuotaRequest_def store_create_def demo_input_def demo_op_def
  listQuotaRequests_def quotas_get_def quotas_set_def cache_key_def store_list_def quotas_invalidateAll_def
  bulkUpdateQuotaRequests_def store_findById_def store_update_def demo_persist_def updateDeveloperPlanOverrides_def
  resolution_def Let_def

theorem bulk_update_leaves_stale_list_witness:
  "\<exists>before s0 rs s1. listQuotaRequests 30000 6 (Some Pending) demo_quota = (before, s0) \<and>
     bulkUpdateQuotaRequests demo_persist [demo_op Approve] ''admin'' 9 s0 = (Inr rs, s1) \<and>
     fst (listQuotaRequests 30000 10 (Some Pending) s1) = before \<and> before \<noteq> []"
proof -
  obtain before s0 where l: "listQuotaRequests 30000 6 (Some Pending) demo_quota = (before, s0)"
    by (cases "listQuotaRequests 30000 6 (Some Pending) demo_quota")
  obtain rs s1 where b: "bulkUpdateQuotaRequests demo_persist [demo_op Approve] ''admin'' 9 s0 = (Inr rs, s1)"
    using l by (auto simp: quota_eval)
  have "fst (quotas_get 6 ''pending'' (quotas_cache demo_quota)) = None" by (simp add: quota_eval)
  from bulk_update_leaves_stale_list [OF demo_never_fails demo_quota_reachable l b, of "demo_op Approve" 10] this
  have "fst (listQuotaRequests 30000 10 (Some Pending) s1) = before" "before \<noteq> []" by auto
  with l b show ?thesis by blast
qed

text \<open>Naming a pending request twice in one bulk call, first to approve it and then to reject
  it, passes validation: the call succeeds, the request ends up rejected, and the plan overrides
  of the approval have been persisted for the developer all the same.\<close>

theorem bulk_update_duplicate_decisions:
  assumes "never_fails persist" and "store_findById i s = Some r" and "quota_status r = Pending"
  shows "\<exists>rs s1 u. bulkUpdateQuotaRequests persist
      [\<lparr>op_request = i, op_action = Approve, op_notes = m1\<rparr>, \<lparr>op_request = i, op_action = Reject, op_notes = m2\<rparr>] actor now s = (Inr rs, s1) \<and>
    store_findById i s1 = Some u \<and> quota_status u = Rejected \<and>
    developers s1 = snd (persist (developerId r) (plan_changes r) (developers s))"
proof -
  let ?a = "\<lparr>op_request = i, op_action = Approve, op_notes = m1\<rparr>" and ?b = "\<lparr>op_request = i, op_action = Reject, op_notes = m2\<rparr>"
  have ok: "\<forall>op \<in> set [?a, ?b]. pending_in s (op_request op)" using assms(2,3) by (simp add: pending_in_def)
  have pc: "precheck [?a, ?b] s = ([], [(?a, r), (?b, r)])" using assms(2,3) by simp
  obtain p where p: "persist (developerId r) (plan_changes r) (developers s) = (None, p)"
    using assms(1) by (metis never_fails_def prod.collapse)
  show ?thesis
    unfolding bulkUpdateQuotaRequests_def pc using assms(2) p
    by (simp add: Let_def store_update_find) (simp add: resolution_def)
qed

theorem bulk_update_duplicate_decisions_witness:
  "\<exists>rs s1 u. bulkUpdateQuotaRequests demo_persist [demo_op Approve, demo_op Reject] ''admin'' 9 demo_quota = (Inr rs, s1) \<and>
    store_findById ''q1'' s1 = Some u \<and> quota_status u = Rejected \<and>
    map_get (developers s1) ''dev'' = Some (Some [(''plan_tier'', JString ''pro''), (''updated_at'', JString ''now'')])"
proof -
  have "store_findById ''q1'' demo_quota = Some \<lparr>quota_id = ''q1'', developerId = ''dev'', requestedTier = ''pro'',
      quota_reason = ''growth'', requestedOverrides = None, quota_status = Pending, adminNotes = None,
      quota_createdAt = 5, resolvedAt = None, resolvedBy = None\<rparr>" by (simp add: quota_eval)
  from bulk_update_duplicate_decisions [OF demo_never_fails this, of None None "''admin''" 9]
  show ?thesis by (auto simp: demo_op_def demo_quota_def createQuotaRequest_def store_create_def Let_def
      demo_persist_def updateDeveloperPlanOverrides_def plan_changes_def)
qed

end
