(* ===== verification/UsageStore.thy ===== *)
theory UsageStore
  imports Prelude
begin

text \<open>
  The usage event stores of \<^verbatim>\<open>services/usageStore.ts\<close>: the in-memory store and the Postgres
  store over the tables \<open>usage_events\<close>, \<open>revenue_ledger\<close>, \<open>apis\<close> and \<open>settlements\<close>. Amounts are
  exact rationals, time stamps are milliseconds, database ids are numbers that are printed in
  the events handed out. Transactions run without faults here; the ledger insert selects from
  \<open>apis\<close>, so an unknown API adds no ledger row.
\<close>

section \<open>InMemoryUsageStore\<close>

record UsageEvent =
  event_id :: string
  requestId :: string
  apiKey :: string
  apiKeyId :: string
  apiId :: string
  endpointId :: string
  userId :: string
  amountUsdc :: usdc
  event_status :: int
  timestamp :: millis
  settlementId :: "string option"

record usage_store =
  events :: "UsageEvent list"
  requestIds :: "string set"

record UsageAggregateSnapshot =
  snap_developer :: string
  totalEvents :: nat
  settledEvents :: nat
  unsettledEvents :: nat
  totalAmountUsdc :: usdc
  settledAmountUsdc :: usdc
  unsettledAmountUsdc :: usdc
  apiCount :: nat
  endpointCount :: nat
  firstEventAt :: "millis option"
  lastEventAt :: "millis option"
  statusCodes :: "(string, nat) js_map"

definition empty_usage :: usage_store where
  "empty_usage = \<lparr>events = [], requestIds = {}\<rparr>"

definition sumAmounts :: "UsageEvent list \<Rightarrow> usdc" where
  "sumAmounts es = fold (\<lambda>e acc. acc + amountUsdc e) es 0"

definition is_settled :: "UsageEvent \<Rightarrow> bool" where
  "is_settled e = (case settlementId e of None \<Rightarrow> False | Some s \<Rightarrow> s \<noteq> [])"

definition record_event :: "UsageEvent \<Rightarrow> usage_store \<Rightarrow> bool \<times> usage_store" where
  "record_event e s = (if requestId e \<in> requestIds s then (False, s)
     else (True, s\<lparr>requestIds := insert (requestId e) (requestIds s), events := events s @ [e]\<rparr>))"

definition hasEvent :: "string \<Rightarrow> usage_store \<Rightarrow> bool" where
  "hasEvent rid s = (rid \<in> requestIds s)"

definition getEvents :: "string option \<Rightarrow> usage_store \<Rightarrow> UsageEvent list" where
  "getEvents k s = (case k of None \<Rightarrow> events s
     | Some key \<Rightarrow> if key = [] then events s else filter (\<lambda>e. apiKey e = key) (events s))"

definition count_code :: "UsageEvent \<Rightarrow> (string, nat) js_map \<Rightarrow> (string, nat) js_map" where
  "count_code e m = (let code = show_int (event_status e) in
     map_set code ((case map_get m code of None \<Rightarrow> 0 | Some n \<Rightarrow> n) + 1) m)"

definition count_codes :: "UsageEvent list \<Rightarrow> (string, nat) js_map" where
  "count_codes es = fold count_code es []"

definition getDeveloperUsageSnapshot :: "string \<Rightarrow> usage_store \<Rightarrow> UsageAggregateSnapshot option" where
  "getDeveloperUsageSnapshot d s =
    (let es = filter (\<lambda>e. userId e = d) (events s) in
     if length es = 0 then None
     else (let settled = filter is_settled es; unsettled = filter (\<lambda>e. \<not> is_settled e) es;
               stamps = sort (map timestamp es) in
       Some \<lparr>snap_developer = d, totalEvents = length es, settledEvents = length settled,
         unsettledEvents = length unsettled, totalAmountUsdc = sumAmounts es,
         settledAmountUsdc = sumAmounts settled, unsettledAmountUsdc = sumAmounts unsettled,
         apiCount = card (set (map apiId es)), endpointCount = card (set (map endpointId es)),
         firstEventAt = Some (hd stamps), lastEventAt = Some (last stamps), statusCodes = count_codes es\<rparr>))"

definition resetDeveloperUsage :: "string \<Rightarrow> usage_store \<Rightarrow> UsageAggregateSnapshot option \<times> usage_store" where
  "resetDeveloperUsage d s = (case getDeveloperUsageSnapshot d s of
       None \<Rightarrow> (None, s)
     | Some snap \<Rightarrow> (let retained = filter (\<lambda>e. userId e \<noteq> d) (events s) in
         (Some snap, \<lparr>events = retained, requestIds = set (map requestId retained)\<rparr>)))"

definition getUnsettledEvents :: "usage_store \<Rightarrow> UsageEvent list" where
  "getUnsettledEvents s = filter (\<lambda>e. \<not> is_settled e \<and> amountUsdc e > 0) (events s)"

definition markAsSettled :: "string list \<Rightarrow> string \<Rightarrow> usage_store \<Rightarrow> usage_store" where
  "markAsSettled ids sid s = s\<lparr>events := map (\<lambda>e. if event_id e \<in> set ids
     then e\<lparr>settlementId := Some sid\<rparr> else e) (events s)\<rparr>"

definition clear_usage :: "usage_store \<Rightarrow> usage_store" where
  "clear_usage s = \<lparr>events = [], requestIds = {}\<rparr>"

section \<open>PostgresUsageStore\<close>

record UsageEventRow =
  ue_id :: nat
  ue_request :: string
  ue_api_key :: "string option"
  ue_api_key_id :: string
  ue_api :: string
  ue_endpoint :: string
  ue_user :: string
  ue_developer :: "string option"
  ue_amount :: usdc
  ue_status :: int
  ue_created :: millis

record ledger_row =
  rl_api :: string
  rl_developer :: string
  rl_amount :: usdc
  rl_event :: nat
  rl_created :: millis
  rl_settlement :: "nat option"

record usage_tables =
  ue_rows :: "UsageEventRow list"
  rl_rows :: "ledger_row list"
  apis :: "(string, string) js_map"
  settlement_ids :: "(string, nat) js_map"
  next_ue :: nat

definition pg_hasEvent :: "string \<Rightarrow> usage_tables \<Rightarrow> bool" where
  "pg_hasEvent rid t = (\<exists>r \<in> set (ue_rows t). ue_request r = rid)"

text \<open>The transaction of \<open>record\<close>: the insert is skipped when the pair of request id and developer exists; rows without a developer never
  collide.\<close>

definition pg_insert :: "UsageEvent \<Rightarrow> usage_tables \<Rightarrow> bool \<times> usage_tables" where
  "pg_insert e t =
    (let developer = map_get (apis t) (apiId e) in
     if developer \<noteq> None \<and> (\<exists>r \<in> set (ue_rows t). ue_request r = requestId e \<and> ue_developer r = developer)
     then (False, t)
     else (let i = next_ue t;
               row = \<lparr>ue_id = i, ue_request = requestId e, ue_api_key = Some (apiKey e), ue_api_key_id = apiKeyId e,
                 ue_api = apiId e, ue_endpoint = endpointId e, ue_user = userId e, ue_developer = developer,
                 ue_amount = amountUsdc e, ue_status = event_status e, ue_created = timestamp e\<rparr>;
               ledger = (case developer of None \<Rightarrow> []
                 | Some d \<Rightarrow> if \<exists>l \<in> set (rl_rows t). rl_event l = i then []
                     else [\<lparr>rl_api = apiId e, rl_developer = d, rl_amount = amountUsdc e, rl_event = i,
                            rl_created = timestamp e, rl_settlement = None\<rparr>]) in
       (True, t\<lparr>ue_rows := ue_rows t @ [row], rl_rows := rl_rows t @ ledger, next_ue := Suc i\<rparr>)))"

text \<open>\<open>record\<close> with nothing between its look-up and its transaction; the proxy runs the two as separate steps.\<close>

definition pg_record :: "UsageEvent \<Rightarrow> usage_tables \<Rightarrow> bool \<times> usage_tables" where
  "pg_record e t = (if pg_hasEvent (requestId e) t then (False, t) else pg_insert e t)"

text \<open>\<open>usageEventSelect\<close>: the join of events, ledger and settlements, in the requested order.\<close>

definition joined :: "usage_tables \<Rightarrow> (UsageEventRow \<times> ledger_row) list" where
  "joined t = concat (map (\<lambda>u. map (\<lambda>l. (u, l)) (filter (\<lambda>l. rl_event l = ue_id u) (rl_rows t))) (ue_rows t))"

definition external_id :: "usage_tables \<Rightarrow> nat option \<Rightarrow> string option" where
  "external_id t i = (case i of None \<Rightarrow> None
     | Some n \<Rightarrow> map_option fst (List.find (\<lambda>x. snd x = n) (settlement_ids t)))"

definition mapUsageEventRow :: "usage_tables \<Rightarrow> UsageEventRow \<times> ledger_row \<Rightarrow> UsageEvent" where
  "mapUsageEventRow t x = (case x of (u, l) \<Rightarrow>
     \<lparr>event_id = show_nat (ue_id u), requestId = ue_request u,
      apiKey = (case ue_api_key u of None \<Rightarrow> ue_api_key_id u | Some k \<Rightarrow> k), apiKeyId = ue_api_key_id u,
      apiId = ue_api u, endpointId = ue_endpoint u, userId = rl_developer l, amountUsdc = ue_amount u,
      event_status = ue_status u, timestamp = ue_created u, settlementId = external_id t (rl_settlement l)\<rparr>)"

definition by_time :: "(UsageEventRow \<times> ledger_row) list \<Rightarrow> (UsageEventRow \<times> ledger_row) list" where
  "by_time xs = sort_key (\<lambda>x. ue_created (fst x)) (sort_key (\<lambda>x. ue_id (fst x)) xs)"

definition pg_getEvents :: "string option \<Rightarrow> usage_tables \<Rightarrow> UsageEvent list" where
  "pg_getEvents k t = map (mapUsageEventRow t) (by_time (filter (\<lambda>x. case k of None \<Rightarrow> True
     | Some key \<Rightarrow> key = [] \<or> ue_api_key (fst x) = Some key \<or> ue_api_key_id (fst x) = key) (joined t)))"

definition pg_getUnsettledEvents :: "usage_tables \<Rightarrow> UsageEvent list" where
  "pg_getUnsettledEvents t = map (mapUsageEventRow t)
     (by_time (filter (\<lambda>x. rl_settlement (snd x) = None \<and> ue_amount (fst x) > 0) (joined t)))"

definition pg_getDeveloperUsageSnapshot :: "string \<Rightarrow> usage_tables \<Rightarrow> UsageAggregateSnapshot option" where
  "pg_getDeveloperUsageSnapshot d t =
    (let xs = filter (\<lambda>x. rl_developer (snd x) = d) (joined t);
         settled = filter (\<lambda>x. rl_settlement (snd x) \<noteq> None) xs;
         unsettled = filter (\<lambda>x. rl_settlement (snd x) = None) xs;
         amount = (\<lambda>ys. sum_list (map (\<lambda>x. ue_amount (fst x)) ys));
         codes = map (\<lambda>x. ue_status (fst x)) xs in
     if length xs = 0 then None
     else Some \<lparr>snap_developer = d, totalEvents = length xs, settledEvents = length settled,
       unsettledEvents = length unsettled, totalAmountUsdc = amount xs, settledAmountUsdc = amount settled,
       unsettledAmountUsdc = amount unsettled, apiCount = card (set (map (\<lambda>x. ue_api (fst x)) xs)),
       endpointCount = card (set (map (\<lambda>x. ue_endpoint (fst x)) xs)),
       firstEventAt = Some (Min (set (map (\<lambda>x. ue_created (fst x)) xs))),
       lastEventAt = Some (Max (set (map (\<lambda>x. ue_created (fst x)) xs))),
       statusCodes = map (\<lambda>c. (show_int c, count_list codes c)) (sort (remdups codes))\<rparr>)"

definition pg_resetDeveloperUsage :: "string \<Rightarrow> usage_tables \<Rightarrow> UsageAggregateSnapshot option \<times> usage_tables" where
  "pg_resetDeveloperUsage d t = (case pg_getDeveloperUsageSnapshot d t of
       None \<Rightarrow> (None, t)
     | Some snap \<Rightarrow>
        (let ids = map rl_event (filter (\<lambda>l. rl_developer l = d) (rl_rows t));
             ledger = filter (\<lambda>l. rl_developer l \<noteq> d) (rl_rows t);
             rows = (if ids = [] then ue_rows t
               else filter (\<lambda>u. \<not> (ue_id u \<in> set ids \<and> \<not> (\<exists>l \<in> set ledger. rl_event l = ue_id u))) (ue_rows t)) in
         (Some snap, t\<lparr>rl_rows := ledger, ue_rows := rows\<rparr>)))"

definition pg_markAsSettled :: "string list \<Rightarrow> string \<Rightarrow> usage_tables \<Rightarrow> usage_tables" where
  "pg_markAsSettled ids sid t =
    (if ids = [] then t
     else (case map_get (settlement_ids t) sid of
         None \<Rightarrow> t
       | Some n \<Rightarrow> t\<lparr>rl_rows := map (\<lambda>l. if rl_event l \<in> set (map read_nat ids)
           then l\<lparr>rl_settlement := Some n\<rparr> else l) (rl_rows t)\<rparr>))"

section \<open>Lemmas on the in-memory store\<close>

lemma sumAmounts_sum_list: "sumAmounts es = sum_list (map amountUsdc es)"
proof -
  have "fold (\<lambda>e acc. acc + amountUsdc e) es a = a + sum_list (map amountUsdc es)" for a
    by (induction es arbitrary: a) (simp_all add: algebra_simps)
  then show ?thesis by (simp add: sumAmounts_def)
qed

lemma sumAmounts_partition:
  "sumAmounts es = sumAmounts (filter P es) + sumAmounts (filter (\<lambda>e. \<not> P e) es)"
  unfolding sumAmounts_sum_list by (induction es) (simp_all add: algebra_simps)

definition usage_inv :: "usage_store \<Rightarrow> bool" where
  "usage_inv s \<longleftrightarrow> distinct (map requestId (events s)) \<and> requestIds s = set (map requestId (events s))"

inductive usage_reachable :: "usage_store \<Rightarrow> bool" where
  "usage_reachable empty_usage"
| "usage_reachable s \<Longrightarrow> usage_reachable (snd (record_event e s))"
| "usage_reachable s \<Longrightarrow> usage_reachable (markAsSettled ids sid s)"
| "usage_reachable s \<Longrightarrow> usage_reachable (snd (resetDeveloperUsage d s))"
| "usage_reachable s \<Longrightarrow> usage_reachable (clear_usage s)"

lemma mark_requests: "map requestId (events (markAsSettled ids sid s)) = map requestId (events s)"
  by (simp add: markAsSettled_def)

lemma mark_ids [simp]: "requestIds (markAsSettled ids sid s) = requestIds s"
  by (simp add: markAsSettled_def)

lemma usage_reachable_inv: "usage_reachable s \<Longrightarrow> usage_inv s"
proof (induction rule: usage_reachable.induct)
  case (2 s e)
  then show ?case by (auto simp: usage_inv_def record_event_def)
next
  case (3 s ids sid)
  then show ?case by (simp only: usage_inv_def mark_requests mark_ids)
next
  case (4 s d)
  then show ?case
    by (auto simp: usage_inv_def resetDeveloperUsage_def Let_def distinct_map_filter split: option.split)
qed (simp_all add: usage_inv_def empty_usage_def clear_usage_def)

lemma count_codes_value:
  "map_get (count_codes es) c = (let n = count_list (map (\<lambda>e. show_int (event_status e)) es) c in
     if n = 0 then None else Some n)"
proof -
  have step: "map_get (count_code e m) c = (if show_int (event_status e) = c
      then Some ((case map_get m c of None \<Rightarrow> 0 | Some k \<Rightarrow> k) + 1) else map_get m c)" for e m
    by (auto simp: count_code_def Let_def jsmap)
  have "map_get (fold count_code es m) c = (let n = count_list (map (\<lambda>e. show_int (event_status e)) es) c in
      if n = 0 then map_get m c else Some ((case map_get m c of None \<Rightarrow> 0 | Some k \<Rightarrow> k) + n))" for m
    by (induction es arbitrary: m) (auto simp: step Let_def split: option.split)
  from this [of "[]"] show ?thesis by (simp add: count_codes_def Let_def)
qed

section \<open>Properties\<close>

text \<open>Recording is idempotent: in every reachable state of the in-memory store at most one
  event exists per request id; recording succeeds exactly when the request id is new, then adds
  that one event at the end, and otherwise changes nothing.\<close>

theorem record_once:
  assumes "usage_reachable s"
  shows "distinct (map requestId (events s)) \<and>
    record_event e s = (if requestId e \<in> requestId ` set (events s) then (False, s)
      else (True, \<lparr>events = events s @ [e], requestIds = insert (requestId e) (requestIds s)\<rparr>)) \<and>
    record_event e (snd (record_event e s)) = (False, snd (record_event e s))"
  using usage_reachable_inv [OF assms] by (cases s) (auto simp: usage_inv_def record_event_def)

definition demo_event :: "string \<Rightarrow> UsageEvent" where
  "demo_event rid = \<lparr>event_id = ''1'', requestId = rid, apiKey = ''k'', apiKeyId = ''k1'', apiId = ''api'',
     endpointId = ''e'', userId = ''caller'', amountUsdc = 1 / 2, event_status = 200, timestamp = 7, settlementId = None\<rparr>"

theorem record_once_witness:
  "fst (record_event (demo_event ''r'') (snd (record_event (demo_event ''r'') empty_usage))) = False"
  using record_once [OF usage_reachable.intros(1), of "demo_event ''r''"] by (metis fst_conv)

text \<open>A usage snapshot is consistent: it exists exactly when the developer has events; its
  settled and unsettled parts add up to the totals, for counts and for amounts; its status code
  table counts every event of each code; and resetting a developer returns that snapshot and
  removes exactly that developer's events.\<close>

theorem snapshot_consistent:
  "case getDeveloperUsageSnapshot d s of
     None \<Rightarrow> filter (\<lambda>e. userId e = d) (events s) = [] \<and> resetDeveloperUsage d s = (None, s)
   | Some snap \<Rightarrow> totalEvents snap = settledEvents snap + unsettledEvents snap \<and>
       totalAmountUsdc snap = settledAmountUsdc snap + unsettledAmountUsdc snap \<and>
       totalAmountUsdc snap = sum_list (map amountUsdc (filter (\<lambda>e. userId e = d) (events s))) \<and>
       map_get (statusCodes snap) (show_int c) = (let n = count_list (map (\<lambda>e. show_int (event_status e))
         (filter (\<lambda>e. userId e = d) (events s))) (show_int c) in if n = 0 then None else Some n) \<and>
       fst (resetDeveloperUsage d s) = Some snap \<and>
       events (snd (resetDeveloperUsage d s)) = filter (\<lambda>e. userId e \<noteq> d) (events s) \<and>
       getDeveloperUsageSnapshot d (snd (resetDeveloperUsage d s)) = None"
proof (cases "filter (\<lambda>e. userId e = d) (events s) = []")
  case True
  then show ?thesis by (simp add: getDeveloperUsageSnapshot_def resetDeveloperUsage_def)
next
  case False
  let ?es = "filter (\<lambda>e. userId e = d) (events s)"
  have "length ?es = length (filter is_settled ?es) + length (filter (\<lambda>e. \<not> is_settled e) ?es)"
    by (rule sum_length_filter_compl [symmetric])
  moreover have "filter (\<lambda>e. userId e = d) (filter (\<lambda>e. userId e \<noteq> d) (events s)) = []"
    by (simp add: filter_empty_conv)
  ultimately show ?thesis
    using False sumAmounts_partition [of ?es is_settled]
    by (simp add: getDeveloperUsageSnapshot_def resetDeveloperUsage_def Let_def count_codes_value
        sumAmounts_sum_list [of ?es, symmetric])
qed

text \<open>The two stores disagree on whose usage an event is: recording an event of a caller for an
  API that belongs to another developer gives the caller a snapshot in the in-memory store and no
  one else, while the Postgres store gives it to the owner of the API and not to the caller.\<close>

theorem stores_attribute_usage_differently:
  assumes "map_get (apis t) (apiId e) = Some owner" and "owner \<noteq> userId e" and "ue_rows t = []" and "rl_rows t = []"
    and "record_event e empty_usage = (True, s1)" and "pg_record e t = (True, t1)"
  shows "getDeveloperUsageSnapshot (userId e) s1 \<noteq> None \<and> getDeveloperUsageSnapshot owner s1 = None \<and>
    pg_getDeveloperUsageSnapshot (userId e) t1 = None \<and> pg_getDeveloperUsageSnapshot owner t1 \<noteq> None"
  using assms
  by (auto simp: record_event_def empty_usage_def pg_record_def pg_insert_def pg_hasEvent_def getDeveloperUsageSnapshot_def
      pg_getDeveloperUsageSnapshot_def joined_def Let_def)

definition demo_tables :: usage_tables where
  "demo_tables = \<lparr>ue_rows = [], rl_rows = [], apis = [(''api'', ''owner'')], settlement_ids = [], next_ue = 1\<rparr>"

theorem stores_attribute_usage_differently_witness:
  "getDeveloperUsageSnapshot ''caller'' (snd (record_event (demo_event ''r'') empty_usage)) \<noteq> None \<and>
   pg_getDeveloperUsageSnapshot ''caller'' (snd (pg_record (demo_event ''r'') demo_tables)) = None"
proof -
  have a: "record_event (demo_event ''r'') empty_usage = (True, snd (record_event (demo_event ''r'') empty_usage))"
    by (simp add: record_event_def empty_usage_def)
  have b: "pg_record (demo_event ''r'') demo_tables = (True, snd (pg_record (demo_event ''r'') demo_tables))"
    by (simp add: pg_record_def pg_insert_def pg_hasEvent_def demo_tables_def demo_event_def Let_def)
  show ?thesis
    using stores_attribute_usage_differently [OF _ _ _ _ a b, of "''owner''"] by (simp add: demo_tables_def demo_event_def)
qed

end
