(* ===== verification/Settlement.thy ===== *)
theory Settlement
  imports UsageStore
begin

text \<open>
  Developer payouts: the settlement stores (\<^verbatim>\<open>services/settlementStore.ts\<close>), retries
  (\<^verbatim>\<open>lib/retry.ts\<close>), and the batch and reconciliation passes of
  \<^verbatim>\<open>services/revenueSettlementService.ts\<close>.

  The settlement client, the Horizon server and the API registry are parameters. A fault of a
  store call is part of the environment of a pass, per developer or per settlement. The two
  passes are generic in the settlement store; its contract is the locale \<open>settlement_store\<close>,
  which the in-memory and the Postgres store implement. Passes of one kind are serialised by
  the service, so a pass is one function of the state.
\<close>

section \<open>Settlements and their stores\<close>

datatype settlement_status = StPending | StRetryable | StCompleted | StFailed

record Settlement =
  stl_id :: string
  stl_developer :: string
  stl_amount :: usdc
  stl_status :: settlement_status
  stl_tx :: "string option"
  stl_created :: millis
  stl_completed :: "millis option"
  stl_retry_after :: "millis option"
  stl_retries :: nat

text \<open>The optional argument \<open>txHash\<close> of \<open>updateStatus\<close>: absent, or a value that may be null.\<close>

type_synonym tx_update = "string option option"

definition update_first :: "string \<Rightarrow> (Settlement \<Rightarrow> Settlement) \<Rightarrow> Settlement list \<Rightarrow> Settlement list" where
  "update_first i f ss = (case dropWhile (\<lambda>s. stl_id s \<noteq> i) ss of [] \<Rightarrow> ss
     | x # rest \<Rightarrow> takeWhile (\<lambda>s. stl_id s \<noteq> i) ss @ f x # rest)"

definition mem_create :: "Settlement \<Rightarrow> Settlement list \<Rightarrow> Settlement list" where
  "mem_create s ss = ss @ [s]"

definition with_status :: "settlement_status \<Rightarrow> tx_update \<Rightarrow> millis \<Rightarrow> Settlement \<Rightarrow> Settlement" where
  "with_status st tx now s = s\<lparr>stl_status := st,
     stl_tx := (case tx of None \<Rightarrow> stl_tx s | Some h \<Rightarrow> h),
     stl_completed := (if st = StCompleted then Some now else None)\<rparr>"

definition with_retry :: "millis \<Rightarrow> Settlement \<Rightarrow> Settlement" where
  "with_retry after s = s\<lparr>stl_status := StRetryable, stl_retry_after := Some after, stl_retries := stl_retries s + 1\<rparr>"

definition mem_updateStatus :: "string \<Rightarrow> settlement_status \<Rightarrow> tx_update \<Rightarrow> millis \<Rightarrow> Settlement list \<Rightarrow> Settlement list" where
  "mem_updateStatus i st tx now ss = update_first i (with_status st tx now) ss"

definition mem_scheduleRetry :: "string \<Rightarrow> millis \<Rightarrow> Settlement list \<Rightarrow> Settlement list" where
  "mem_scheduleRetry i after ss = update_first i (with_retry after) ss"

definition mem_setCompletedAt :: "string \<Rightarrow> millis \<Rightarrow> Settlement list \<Rightarrow> Settlement list" where
  "mem_setCompletedAt i t ss = update_first i (\<lambda>s. s\<lparr>stl_completed := Some t\<rparr>) ss"

definition mem_getDeveloperSettlements :: "string \<Rightarrow> Settlement list \<Rightarrow> Settlement list" where
  "mem_getDeveloperSettlements d ss = sort_key (\<lambda>s. - stl_created s) (filter (\<lambda>s. stl_developer s = d) ss)"

definition is_due :: "millis \<Rightarrow> Settlement \<Rightarrow> bool" where
  "is_due now s \<longleftrightarrow> stl_status s = StPending \<or>
     (stl_status s = StRetryable \<and> (case stl_retry_after s of None \<Rightarrow> True | Some t \<Rightarrow> t \<le> now))"

definition mem_getPendingSettlements :: "millis \<Rightarrow> Settlement list \<Rightarrow> Settlement list" where
  "mem_getPendingSettlements now ss = sort_key stl_created (filter (is_due now) ss)"

record SettlementStoreRow =
  row_id :: nat
  external_id :: string
  developer_id :: string
  amount_usdc :: usdc
  row_status :: settlement_status
  stellar_tx_hash :: "string option"
  row_created :: millis
  row_completed :: "millis option"
  retry_after :: "millis option"
  retry_count :: "nat option"

definition mapSettlementRow :: "SettlementStoreRow \<Rightarrow> Settlement" where
  "mapSettlementRow r = \<lparr>stl_id = external_id r, stl_developer = developer_id r, stl_amount = amount_usdc r,
     stl_status = row_status r, stl_tx = stellar_tx_hash r, stl_created = row_created r,
     stl_completed = None, stl_retry_after = retry_after r,
     stl_retries = (case retry_count r of None \<Rightarrow> 0 | Some n \<Rightarrow> n)\<rparr>"

definition pg_create :: "Settlement \<Rightarrow> SettlementStoreRow list \<Rightarrow> SettlementStoreRow list" where
  "pg_create s rows = rows @ [\<lparr>row_id = Suc (length rows), external_id = stl_id s, developer_id = stl_developer s,
     amount_usdc = stl_amount s, row_status = stl_status s, stellar_tx_hash = stl_tx s, row_created = stl_created s,
     row_completed = (if stl_status s = StCompleted then Some (stl_created s) else None),
     retry_after = None, retry_count = None\<rparr>]"

definition update_rows :: "string \<Rightarrow> (SettlementStoreRow \<Rightarrow> SettlementStoreRow) \<Rightarrow> SettlementStoreRow list \<Rightarrow> SettlementStoreRow list" where
  "update_rows i f rows = map (\<lambda>r. if external_id r = i then f r else r) rows"

definition pg_updateStatus :: "string \<Rightarrow> settlement_status \<Rightarrow> tx_update \<Rightarrow> millis \<Rightarrow> SettlementStoreRow list \<Rightarrow> SettlementStoreRow list" where
  "pg_updateStatus i st tx now rows = update_rows i (\<lambda>r. r\<lparr>row_status := st,
     stellar_tx_hash := (case tx of None \<Rightarrow> stellar_tx_hash r | Some h \<Rightarrow> h),
     row_completed := (if st = StCompleted then Some now else None)\<rparr>) rows"

definition pg_scheduleRetry :: "string \<Rightarrow> millis \<Rightarrow> SettlementStoreRow list \<Rightarrow> SettlementStoreRow list" where
  "pg_scheduleRetry i after rows = update_rows i (\<lambda>r. r\<lparr>row_status := StRetryable, retry_after := Some after,
     retry_count := Some ((case retry_count r of None \<Rightarrow> 0 | Some n \<Rightarrow> n) + 1)\<rparr>) rows"

definition pg_getDeveloperSettlements :: "string \<Rightarrow> SettlementStoreRow list \<Rightarrow> Settlement list" where
  "pg_getDeveloperSettlements d rows = map mapSettlementRow
     (sort_key (\<lambda>r. - row_created r) (sort_key (\<lambda>r. - int (row_id r)) (filter (\<lambda>r. developer_id r = d) rows)))"

definition pg_getPendingSettlements :: "millis \<Rightarrow> SettlementStoreRow list \<Rightarrow> Settlement list" where
  "pg_getPendingSettlements now rows = map mapSettlementRow (sort_key row_created (sort_key row_id
     (filter (\<lambda>r. row_status r = StPending \<or> (row_status r = StRetryable \<and>
        (case retry_after r of None \<Rightarrow> True | Some t \<Rightarrow> t \<le> now))) rows)))"

definition verifyLedger :: "SettlementStoreRow list \<Rightarrow> SettlementStoreRow list" where
  "verifyLedger rows = sort_key row_created
     (filter (\<lambda>r. row_status r = StCompleted \<and> stellar_tx_hash r = None) rows)"

section \<open>Retries\<close>

datatype fetch_error = TransientError string | AbortError | TypeError string | OtherError string

definition transient_fragments :: "string list" where
  "transient_fragments = [''econnrefused'', ''econnreset'', ''etimedout'', ''enotfound'', ''fetch failed'',
     ''failed to fetch'', ''socket hang up'', ''und_err_connect_timeout'', ''und_err_socket'']"

fun isTransientNetworkError :: "fetch_error \<Rightarrow> bool" where
  "isTransientNetworkError (TransientError _) = True"
| "isTransientNetworkError AbortError = False"
| "isTransientNetworkError (TypeError m) = list_ex (str_includes (toLowerCase m)) transient_fragments"
| "isTransientNetworkError (OtherError _) = False"

text \<open>\<open>f n\<close> is the outcome of attempt \<open>n\<close>; the result also tells how many attempts were made.\<close>

function withRetry :: "int \<Rightarrow> ('e \<Rightarrow> bool) \<Rightarrow> (nat \<Rightarrow> 'e + 'a) \<Rightarrow> nat \<Rightarrow> ('e + 'a) \<times> nat" where
  "withRetry maxAttempts shouldRetry f attempt = (case f attempt of
       Inr v \<Rightarrow> (Inr v, attempt + 1)
     | Inl e \<Rightarrow> if int attempt \<ge> maxAttempts - 1 \<or> \<not> shouldRetry e then (Inl e, attempt + 1)
         else withRetry maxAttempts shouldRetry f (attempt + 1))"
  by auto
termination
  by (relation "measure (\<lambda>(m, _, _, n). nat (m - int n))") auto

declare withRetry.simps [simp del]

definition retry_delay :: "rat \<Rightarrow> rat \<Rightarrow> rat \<Rightarrow> nat \<Rightarrow> int" where
  "retry_delay baseDelayMs maxDelayMs factor attempt =
     \<lfloor>min (baseDelayMs * 2 ^ attempt) maxDelayMs * factor + 1 / 2\<rfloor>"

lemma withRetry_attempts:
  "snd (withRetry m p f n) \<le> max (n + 1) (nat m) \<and>
   (\<forall>e. fst (withRetry m p f n) = Inl e \<longrightarrow> f (snd (withRetry m p f n) - 1) = Inl e \<and>
      (p e \<longrightarrow> m \<le> int (snd (withRetry m p f n)))) \<and>
   (\<forall>v. fst (withRetry m p f n) = Inr v \<longrightarrow> f (snd (withRetry m p f n) - 1) = Inr v)"
proof (induction m p f n rule: withRetry.induct)
  case (1 m p f n)
  show ?case
  proof (cases "f n")
    case (Inl e)
    with 1 show ?thesis by (cases "int n \<ge> m - 1 \<or> \<not> p e") (auto simp: withRetry.simps [of m p f n])
  qed (simp add: withRetry.simps [of m p f n])
qed

section \<open>Horizon\<close>

record HorizonTransactionResponse =
  successful :: "bool option"
  result_code :: "string option"

datatype http_outcome = HttpResponse nat HorizonTransactionResponse | FetchFailed fetch_error

definition retriable_http_statuses :: "nat list" where
  "retriable_http_statuses = [429, 500, 502, 503, 504]"

definition horizon_attempt :: "http_outcome \<Rightarrow> fetch_error + HorizonTransactionResponse option" where
  "horizon_attempt o' = (case o' of
       FetchFailed e \<Rightarrow> Inl e
     | HttpResponse st body \<Rightarrow>
        if st = 404 then Inr None
        else if \<not> (200 \<le> st \<and> st \<le> 299)
        then if st \<in> set retriable_http_statuses
             then Inl (TransientError (''Horizon returned '' @ show_nat st))
             else Inl (OtherError (''Horizon returned '' @ show_nat st))
        else Inr (Some body))"

definition fetchHorizonTransactionStatus :: "(string \<Rightarrow> nat \<Rightarrow> http_outcome) \<Rightarrow> int \<Rightarrow> string \<Rightarrow>
    fetch_error + HorizonTransactionResponse option" where
  "fetchHorizonTransactionStatus horizon maxRetries txHash =
     fst (withRetry (maxRetries + 1) isTransientNetworkError (\<lambda>n. horizon_attempt (horizon txHash n)) 0)"

section \<open>The batch pass\<close>

record 's settlement_ops =
  op_create :: "Settlement \<Rightarrow> 's \<Rightarrow> 's"
  op_update :: "string \<Rightarrow> settlement_status \<Rightarrow> tx_update \<Rightarrow> millis \<Rightarrow> 's \<Rightarrow> 's"
  op_retry :: "string \<Rightarrow> millis \<Rightarrow> 's \<Rightarrow> 's"
  op_pending :: "millis \<Rightarrow> 's \<Rightarrow> Settlement list"

definition mem_ops :: "Settlement list settlement_ops" where
  "mem_ops = \<lparr>op_create = mem_create, op_update = mem_updateStatus, op_retry = mem_scheduleRetry,
     op_pending = mem_getPendingSettlements\<rparr>"

definition pg_ops :: "SettlementStoreRow list settlement_ops" where
  "pg_ops = \<lparr>op_create = pg_create, op_update = pg_updateStatus, op_retry = pg_scheduleRetry,
     op_pending = pg_getPendingSettlements\<rparr>"

record DistributeResult =
  dist_success :: bool
  dist_txHash :: "string option"

record group_env =
  uuid :: string
  create_fails :: bool
  update_fails :: bool
  mark_fails :: bool
  emit_fails :: bool
  record_fails :: bool

record ('s, 'c) payout_world =
  usage :: usage_store
  settlements :: 's
  ledger :: 'c
  emitted :: "(string \<times> string \<times> usdc \<times> string) list"

record batch_result =
  processed :: nat
  settledAmount :: usdc
  batch_errors :: nat

definition add_to_group :: "(string \<Rightarrow> string option) \<Rightarrow> nat \<Rightarrow> UsageEvent \<Rightarrow>
    (string, UsageEvent list) js_map \<Rightarrow> (string, UsageEvent list) js_map" where
  "add_to_group resolve maxEvents e m =
    (if amountUsdc e \<le> 0 then m
     else (case resolve (apiId e) of
         None \<Rightarrow> m
       | Some d \<Rightarrow> (let group = (case map_get m d of None \<Rightarrow> [] | Some g \<Rightarrow> g) in
           if length group < maxEvents then map_set d (group @ [e]) m else m)))"

definition group_events :: "(string \<Rightarrow> string option) \<Rightarrow> nat \<Rightarrow> UsageEvent list \<Rightarrow> (string, UsageEvent list) js_map" where
  "group_events resolve maxEvents es = fold (add_to_group resolve maxEvents) es []"

definition recordFailedSettlement :: "'s settlement_ops \<Rightarrow> bool \<Rightarrow> string \<Rightarrow> bool \<Rightarrow> millis \<Rightarrow> 's \<Rightarrow> 's" where
  "recordFailedSettlement ops faulty sid clearTxHash now s =
    (if faulty then s else op_update ops sid StFailed (if clearTxHash then Some None else None) now s)"

definition settlement_of :: "string \<Rightarrow> string \<Rightarrow> usdc \<Rightarrow> millis \<Rightarrow> Settlement" where
  "settlement_of sid d amount now = \<lparr>stl_id = sid, stl_developer = d, stl_amount = amount, stl_status = StPending,
     stl_tx = None, stl_created = now, stl_completed = None, stl_retry_after = None, stl_retries = 0\<rparr>"

definition process_group :: "'s settlement_ops \<Rightarrow> (string \<Rightarrow> usdc \<Rightarrow> 'c \<Rightarrow> DistributeResult result \<times> 'c) \<Rightarrow>
    usdc \<Rightarrow> (string \<Rightarrow> group_env) \<Rightarrow> millis \<Rightarrow> string \<times> UsageEvent list \<Rightarrow>
    ('s, 'c) payout_world \<times> batch_result \<Rightarrow> ('s, 'c) payout_world \<times> batch_result" where
  "process_group ops distribute minPayout env now g wr = (case g of (d, es) \<Rightarrow> (case wr of (w, r) \<Rightarrow>
    (let totalAmount = sumAmounts es; v = env d; sid = ''stl_'' @ uuid v; ids = map event_id es in
     if totalAmount < minPayout then (w, r)
     else if create_fails v then (w, r\<lparr>batch_errors := batch_errors r + 1\<rparr>)
     else
      (let s1 = op_create ops (settlement_of sid d totalAmount now) (settlements w);
           (answer, c1) = distribute d totalAmount (ledger w);
           w1 = w\<lparr>settlements := s1, ledger := c1\<rparr> in
       case (case answer of Inl _ \<Rightarrow> None | Inr a \<Rightarrow> if dist_success a then dist_txHash a else None) of
         None \<Rightarrow> (w1\<lparr>settlements := recordFailedSettlement ops (record_fails v) sid False now s1\<rparr>,
                  r\<lparr>batch_errors := batch_errors r + 1\<rparr>)
       | Some tx \<Rightarrow>
          if tx = [] then (w1\<lparr>settlements := recordFailedSettlement ops (record_fails v) sid False now s1\<rparr>,
                  r\<lparr>batch_errors := batch_errors r + 1\<rparr>)
          else
          (let s2 = (if update_fails v then s1 else op_update ops sid StPending (Some (Some tx)) now s1);
               u2 = (if update_fails v \<or> mark_fails v then usage w1 else markAsSettled ids sid (usage w1)) in
           if update_fails v \<or> mark_fails v \<or> emit_fails v
           then (w1\<lparr>settlements := recordFailedSettlement ops (record_fails v) sid True now s2, usage := u2\<rparr>,
                 r\<lparr>batch_errors := batch_errors r + 1\<rparr>)
           else (w1\<lparr>settlements := s2, usage := u2, emitted := emitted w1 @ [(sid, d, totalAmount, tx)]\<rparr>,
                 r\<lparr>processed := processed r + length es, settledAmount := settledAmount r + totalAmount\<rparr>))))))"

definition runBatchOnce :: "'s settlement_ops \<Rightarrow> (string \<Rightarrow> usdc \<Rightarrow> 'c \<Rightarrow> DistributeResult result \<times> 'c) \<Rightarrow>
    (string \<Rightarrow> string option) \<Rightarrow> usdc \<Rightarrow> nat \<Rightarrow> (string \<Rightarrow> group_env) \<Rightarrow> millis \<Rightarrow> ('s, 'c) payout_world \<Rightarrow>
    ('s, 'c) payout_world \<times> batch_result" where
  "runBatchOnce ops distribute resolve minPayout maxEvents env now w =
    (let unsettled = getUnsettledEvents (usage w); zero = \<lparr>processed = 0, settledAmount = 0, batch_errors = 0\<rparr> in
     if unsettled = [] then (w, zero)
     else fold (process_group ops distribute minPayout env now) (group_events resolve maxEvents unsettled) (w, zero))"

section \<open>The reconciliation pass\<close>

record ReconcileResult =
  checked :: nat
  completed :: nat
  failed :: nat
  retried :: nat
  rec_errors :: nat

datatype verdict = Complete | Fail | RetryLater | Leave

definition judge :: "nat \<Rightarrow> fetch_error + HorizonTransactionResponse option \<Rightarrow> Settlement \<Rightarrow> verdict" where
  "judge maxTooEarly response s = (case response of
       Inl _ \<Rightarrow> Leave
     | Inr None \<Rightarrow> Fail
     | Inr (Some b) \<Rightarrow> (case successful b of
           Some True \<Rightarrow> Complete
         | Some False \<Rightarrow> if result_code b = Some ''tx_failed_too_early''
             then if stl_retries s \<ge> maxTooEarly then Fail else RetryLater
             else Fail
         | None \<Rightarrow> Leave))"

definition reconcile_one :: "'s settlement_ops \<Rightarrow> (string \<Rightarrow> nat \<Rightarrow> http_outcome) \<Rightarrow> int \<Rightarrow> nat \<Rightarrow> millis \<Rightarrow>
    (string \<Rightarrow> bool) \<Rightarrow> millis \<Rightarrow> Settlement \<Rightarrow> 's \<times> ReconcileResult \<Rightarrow> 's \<times> ReconcileResult" where
  "reconcile_one ops horizon maxRetries maxTooEarly backoff write_fails now s sr = (case sr of (st, r) \<Rightarrow>
    (let r1 = r\<lparr>checked := checked r + 1\<rparr>;
         v = judge maxTooEarly (fetchHorizonTransactionStatus horizon maxRetries
               (case stl_tx s of None \<Rightarrow> ''null'' | Some h \<Rightarrow> h)) s in
     if v = Leave \<or> write_fails (stl_id s) then (st, r1\<lparr>rec_errors := rec_errors r1 + 1\<rparr>)
     else (case v of
         Complete \<Rightarrow> (op_update ops (stl_id s) StCompleted None now st, r1\<lparr>completed := completed r1 + 1\<rparr>)
       | Fail \<Rightarrow> (op_update ops (stl_id s) StFailed None now st, r1\<lparr>failed := failed r1 + 1\<rparr>)
       | RetryLater \<Rightarrow> (op_retry ops (stl_id s) (now + backoff) st, r1\<lparr>retried := retried r1 + 1\<rparr>)
       | Leave \<Rightarrow> (st, r1))))"

definition reconcilePendingSettlementsOnce :: "'s settlement_ops \<Rightarrow> bool \<Rightarrow> (string \<Rightarrow> nat \<Rightarrow> http_outcome) \<Rightarrow>
    int \<Rightarrow> nat \<Rightarrow> millis \<Rightarrow> (string \<Rightarrow> bool) \<Rightarrow> millis \<Rightarrow> ('s, 'c) payout_world \<Rightarrow>
    ('s, 'c) payout_world \<times> ReconcileResult" where
  "reconcilePendingSettlementsOnce ops configured horizon maxRetries maxTooEarly backoff write_fails now w =
    (let zero = \<lparr>checked = 0, completed = 0, failed = 0, retried = 0, rec_errors = 0\<rparr> in
     if \<not> configured then (w, zero)
     else (case fold (reconcile_one ops horizon maxRetries maxTooEarly backoff write_fails now)
             (op_pending ops now (settlements w)) (settlements w, zero) of
         (st, r) \<Rightarrow> (w\<lparr>settlements := st\<rparr>, r)))"

section \<open>The contract of a settlement store\<close>

text \<open>What the passes observe of a stored settlement: everything but the completion time, which
  the Postgres store does not hand out.\<close>

definition core :: "Settlement \<Rightarrow> Settlement" where
  "core s = s\<lparr>stl_completed := None\<rparr>"

definition core_status :: "settlement_status \<Rightarrow> tx_update \<Rightarrow> Settlement \<Rightarrow> Settlement" where
  "core_status st tx s = s\<lparr>stl_status := st, stl_tx := (case tx of None \<Rightarrow> stl_tx s | Some h \<Rightarrow> h)\<rparr>"

lemma core_simps [simp]: "stl_id (core s) = stl_id s" "stl_status (core s) = stl_status s" "stl_tx (core s) = stl_tx s"
  "stl_retries (core s) = stl_retries s" "core (with_retry a s) = with_retry a (core s)" "is_due n (core s) = is_due n s"
  "core (with_status st tx now s) = core_status st tx (core s)" "judge m v (core s) = judge m v s"
  "stl_id (with_status st tx now s) = stl_id s" "stl_id (with_retry a s) = stl_id s" "stl_id (core_status st tx s) = stl_id s"
  by (simp_all add: core_def with_retry_def is_due_def with_status_def core_status_def judge_def
      split: option.split)

definition apply_verdict :: "verdict \<Rightarrow> millis \<Rightarrow> Settlement \<Rightarrow> Settlement" where
  "apply_verdict v after x = (case v of Complete \<Rightarrow> core_status StCompleted None x | Fail \<Rightarrow> core_status StFailed None x
     | RetryLater \<Rightarrow> with_retry after x | Leave \<Rightarrow> x)"

definition verdict_on :: "(string \<Rightarrow> nat \<Rightarrow> http_outcome) \<Rightarrow> int \<Rightarrow> nat \<Rightarrow> Settlement \<Rightarrow> verdict" where
  "verdict_on horizon maxRetries maxTooEarly x = judge maxTooEarly (fetchHorizonTransactionStatus horizon maxRetries
     (case stl_tx x of None \<Rightarrow> ''null'' | Some h \<Rightarrow> h)) x"

definition outcome :: "(string \<Rightarrow> nat \<Rightarrow> http_outcome) \<Rightarrow> int \<Rightarrow> nat \<Rightarrow> millis \<Rightarrow> (string \<Rightarrow> bool) \<Rightarrow> millis \<Rightarrow>
    Settlement \<Rightarrow> Settlement" where
  "outcome horizon maxRetries maxTooEarly backoff write_fails now x =
    (if write_fails (stl_id x) then x else apply_verdict (verdict_on horizon maxRetries maxTooEarly x) (now + backoff) x)"

text \<open>
  What the answers of Horizon decide, over the answers themselves: attempt \<open>n\<close> is made when all attempts before it
  failed for the moment and the retries allow it.
\<close>

definition temporary :: "http_outcome \<Rightarrow> bool" where
  "temporary out = (case out of HttpResponse st _ \<Rightarrow> st \<in> {429, 500, 502, 503, 504} | FetchFailed e \<Rightarrow> isTransientNetworkError e)"

definition attempted :: "(nat \<Rightarrow> http_outcome) \<Rightarrow> int \<Rightarrow> nat \<Rightarrow> bool" where
  "attempted f maxRetries n \<longleftrightarrow> (n = 0 \<or> int n \<le> maxRetries) \<and> (\<forall>k < n. temporary (f k))"

definition settled_as :: "(string \<Rightarrow> nat \<Rightarrow> http_outcome) \<Rightarrow> int \<Rightarrow> nat \<Rightarrow> millis \<Rightarrow> Settlement \<Rightarrow> Settlement \<Rightarrow> bool" where
  "settled_as horizon maxRetries maxTooEarly retryAt x x' \<longleftrightarrow>
    (let f = horizon (case stl_tx x of None \<Rightarrow> ''null'' | Some h \<Rightarrow> h) in
     (\<forall>n st b. attempted f maxRetries n \<and> f n = HttpResponse st b \<longrightarrow>
       (st = 404 \<longrightarrow> x' = x\<lparr>stl_status := StFailed\<rparr>) \<and>
       (200 \<le> st \<and> st \<le> 299 \<longrightarrow>
         (successful b = Some True \<longrightarrow> x' = x\<lparr>stl_status := StCompleted\<rparr>) \<and>
         (successful b = Some False \<longrightarrow>
           x' = (if result_code b = Some ''tx_failed_too_early'' \<and> stl_retries x < maxTooEarly
                 then x\<lparr>stl_status := StRetryable, stl_retry_after := Some retryAt, stl_retries := stl_retries x + 1\<rparr>
                 else x\<lparr>stl_status := StFailed\<rparr>)) \<and>
         (successful b = None \<longrightarrow> x' = x))) \<and>
     ((\<forall>n st b. attempted f maxRetries n \<and> f n = HttpResponse st b \<longrightarrow> st \<noteq> 404 \<and> \<not> (200 \<le> st \<and> st \<le> 299)) \<longrightarrow> x' = x))"

lemma withRetry_decided:
  "\<exists>n \<ge> start. (n = start \<or> int n \<le> m) \<and> (\<forall>k. start \<le> k \<and> k < n \<longrightarrow> (\<exists>e. f k = Inl e \<and> p e)) \<and>
     fst (withRetry (m + 1) p f start) = f n \<and> (\<forall>e. f n = Inl e \<longrightarrow> p e \<longrightarrow> m \<le> int n)"
proof (induction "m + 1" p f start rule: withRetry.induct)
  case (1 p f start)
  show ?case
  proof (cases "\<exists>e. f start = Inl e \<and> p e \<and> int start < m")
    case True
    then obtain e where e: "f start = Inl e" "p e" "int start < m" by blast
    then have w: "withRetry (m + 1) p f start = withRetry (m + 1) p f (start + 1)" by (simp add: withRetry.simps [of _ p f start])
    from 1 [OF e(1)] e obtain n where n: "n \<ge> start + 1" "n = start + 1 \<or> int n \<le> m"
      "\<forall>k. start + 1 \<le> k \<and> k < n \<longrightarrow> (\<exists>e. f k = Inl e \<and> p e)" "fst (withRetry (m + 1) p f (start + 1)) = f n"
      "\<forall>e. f n = Inl e \<longrightarrow> p e \<longrightarrow> m \<le> int n" by auto
    have "\<exists>e. f k = Inl e \<and> p e" if "start \<le> k" "k < n" for k using n(3) e that by (cases "k = start") auto
    with n e w show ?thesis by (intro exI [of _ n]) auto
  next
    case False
    then have "fst (withRetry (m + 1) p f start) = f start" by (auto simp: withRetry.simps [of _ p f start] split: sum.split)
    with False show ?thesis by (intro exI [of _ start]) auto
  qed
qed

lemma temporary_attempt: "temporary out \<longleftrightarrow> (\<exists>e. horizon_attempt out = Inl e \<and> isTransientNetworkError e)"
  by (auto simp: temporary_def horizon_attempt_def retriable_http_statuses_def split: http_outcome.split)

lemma decided_attempt:
  obtains n where "attempted f m n" "fst (withRetry (m + 1) isTransientNetworkError (\<lambda>n. horizon_attempt (f n)) 0) = horizon_attempt (f n)"
    "\<And>k. attempted f m k \<Longrightarrow> \<not> temporary (f k) \<Longrightarrow> k = n"
proof -
  from withRetry_decided [of 0 m "\<lambda>n. horizon_attempt (f n)" isTransientNetworkError] obtain n where n: "n = 0 \<or> int n \<le> m"
    "\<forall>k < n. temporary (f k)" "fst (withRetry (m + 1) isTransientNetworkError (\<lambda>n. horizon_attempt (f n)) 0) = horizon_attempt (f n)"
    "temporary (f n) \<longrightarrow> m \<le> int n" by (auto simp: temporary_attempt)
  show thesis
  proof (rule that [of n])
    show "attempted f m n" using n(1,2) by (simp add: attempted_def)
    show "k = n" if "attempted f m k" "\<not> temporary (f k)" for k
      using that n by (cases k n rule: linorder_cases) (auto simp: attempted_def)
  qed (rule n(3))
qed

lemma verdict_settles: "settled_as horizon maxRetries maxTooEarly retryAt x (apply_verdict (verdict_on horizon maxRetries maxTooEarly x) retryAt x)"
proof -
  let ?f = "horizon (case stl_tx x of None \<Rightarrow> ''null'' | Some h \<Rightarrow> h)"
  obtain n where n: "attempted ?f maxRetries n"
    "fst (withRetry (maxRetries + 1) isTransientNetworkError (\<lambda>n. horizon_attempt (?f n)) 0) = horizon_attempt (?f n)"
    "\<And>k. attempted ?f maxRetries k \<Longrightarrow> \<not> temporary (?f k) \<Longrightarrow> k = n" by (rule decided_attempt [of ?f maxRetries]) (blast intro: that)
  have v: "verdict_on horizon maxRetries maxTooEarly x = judge maxTooEarly (horizon_attempt (?f n)) x"
    using n(2) by (simp add: verdict_on_def fetchHorizonTransactionStatus_def)
  let ?x = "apply_verdict (verdict_on horizon maxRetries maxTooEarly x) retryAt x"
  have uniq: "k = n" if "attempted ?f maxRetries k" "?f k = HttpResponse st b" "st = 404 \<or> 200 \<le> st \<and> st \<le> 299" for k st b
    using n(3) [of k] that by (auto simp: temporary_def)
  have undecided: "apply_verdict (verdict_on horizon maxRetries maxTooEarly x) retryAt x = x"
    if "\<forall>st b. ?f n = HttpResponse st b \<longrightarrow> st \<noteq> 404 \<and> \<not> (200 \<le> st \<and> st \<le> 299)"
    using that by (auto simp: v judge_def apply_verdict_def horizon_attempt_def split: http_outcome.split)
  show ?thesis unfolding settled_as_def Let_def
  proof (rule conjI; intro allI impI)
    fix k st b
    assume a: "attempted ?f maxRetries k \<and> ?f k = HttpResponse st b"
    show "(st = 404 \<longrightarrow> ?x = x\<lparr>stl_status := StFailed\<rparr>) \<and> (200 \<le> st \<and> st \<le> 299 \<longrightarrow>
         (successful b = Some True \<longrightarrow> ?x = x\<lparr>stl_status := StCompleted\<rparr>) \<and>
         (successful b = Some False \<longrightarrow>
           ?x = (if result_code b = Some ''tx_failed_too_early'' \<and> stl_retries x < maxTooEarly
                 then x\<lparr>stl_status := StRetryable, stl_retry_after := Some retryAt, stl_retries := stl_retries x + 1\<rparr>
                 else x\<lparr>stl_status := StFailed\<rparr>)) \<and>
         (successful b = None \<longrightarrow> ?x = x))"
    proof (cases "st = 404 \<or> 200 \<le> st \<and> st \<le> 299")
      case True
      with a uniq have "?f n = HttpResponse st b" by blast
      with True show ?thesis unfolding v by (auto simp: judge_def apply_verdict_def horizon_attempt_def core_status_def with_retry_def)
    qed auto
  next
    assume "\<forall>k st b. attempted ?f maxRetries k \<and> ?f k = HttpResponse st b \<longrightarrow> st \<noteq> 404 \<and> \<not> (200 \<le> st \<and> st \<le> 299)"
    with n(1) show "?x = x" by (intro undecided) blast
  qed
qed

definition zero_reconcile :: ReconcileResult where
  "zero_reconcile = \<lparr>checked = 0, completed = 0, failed = 0, retried = 0, rec_errors = 0\<rparr>"

lemma reconcile_settlements:
  "settlements (fst (reconcilePendingSettlementsOnce ops True horizon mr me b wrf now w)) =
     fst (fold (reconcile_one ops horizon mr me b wrf now) (op_pending ops now (settlements w)) (settlements w, zero_reconcile))"
  by (simp add: reconcilePendingSettlementsOnce_def Let_def zero_reconcile_def split: prod.split)

lemma reconcile_frame:
  "usage (fst (reconcilePendingSettlementsOnce ops cfg horizon mr me b wrf now w)) = usage w"
  "ledger (fst (reconcilePendingSettlementsOnce ops cfg horizon mr me b wrf now w)) = ledger w"
  by (simp_all add: reconcilePendingSettlementsOnce_def Let_def split: prod.split)

locale settlement_store =
  fixes ops :: "'s settlement_ops"
    and view :: "'s \<Rightarrow> string \<Rightarrow> Settlement option"
    and ok :: "'s \<Rightarrow> bool"
  assumes create_ok: "ok s \<Longrightarrow> view s (stl_id x) = None \<Longrightarrow> ok (op_create ops x s)"
    and create_view: "ok s \<Longrightarrow> stl_retry_after x = None \<Longrightarrow> stl_retries x = 0 \<Longrightarrow> view s (stl_id x) = None \<Longrightarrow>
      view (op_create ops x s) = (view s)(stl_id x \<mapsto> core x)"
    and update_ok: "ok s \<Longrightarrow> ok (op_update ops i st tx now s)"
    and update_view: "ok s \<Longrightarrow> view (op_update ops i st tx now s) = (view s)(i := map_option (core_status st tx) (view s i))"
    and retry_ok: "ok s \<Longrightarrow> ok (op_retry ops i after s)"
    and retry_view: "ok s \<Longrightarrow> view (op_retry ops i after s) = (view s)(i := map_option (with_retry after) (view s i))"
    and pending_distinct: "ok s \<Longrightarrow> distinct (map stl_id (op_pending ops now s))"
    and pending_view: "ok s \<Longrightarrow> core ` set (op_pending ops now s) = {x. view s (stl_id x) = Some x \<and> is_due now x}"
    and view_id: "ok s \<Longrightarrow> view s i = Some x \<Longrightarrow> stl_id x = i"
begin

lemma reconcile_one_view:
  assumes "ok st"
  shows "ok (fst (reconcile_one ops horizon mr me b wrf now s (st, r))) \<and>
    view (fst (reconcile_one ops horizon mr me b wrf now s (st, r))) =
      (view st)(stl_id s := map_option (\<lambda>x. if wrf (stl_id s) then x
         else apply_verdict (verdict_on horizon mr me s) (now + b) x) (view st (stl_id s)))"
proof -
  let ?v = "judge me (fetchHorizonTransactionStatus horizon mr (case stl_tx s of None \<Rightarrow> ''null'' | Some h \<Rightarrow> h)) s"
  have same: "(view st)(i := map_option (\<lambda>x. x) (view st i)) = view st" for i
    by (simp add: option.map_ident)
  show ?thesis
    using assms
    by (cases "wrf (stl_id s)"; cases ?v)
      (simp_all add: reconcile_one_def Let_def verdict_on_def apply_verdict_def update_ok update_view retry_ok
        retry_view same)
qed

lemma reconcile_fold_view:
  assumes "ok st" and "distinct (map stl_id ps)" and "\<forall>p \<in> set ps. view st (stl_id p) = Some (core p)"
  shows "ok (fst (fold (reconcile_one ops horizon mr me b wrf now) ps (st, r))) \<and>
    view (fst (fold (reconcile_one ops horizon mr me b wrf now) ps (st, r))) i =
      (if i \<in> stl_id ` set ps then map_option (outcome horizon mr me b wrf now) (view st i) else view st i)"
  using assms
proof (induction ps arbitrary: st r)
  case (Cons p ps)
  obtain st' r' where q: "reconcile_one ops horizon mr me b wrf now p (st, r) = (st', r')" by fastforce
  have ok': "ok st'" and v: "view st' = (view st)(stl_id p := map_option (\<lambda>x. if wrf (stl_id p) then x
         else apply_verdict (verdict_on horizon mr me p) (now + b) x) (view st (stl_id p)))"
    using reconcile_one_view [OF Cons.prems(1), of horizon mr me b wrf now p r] by (simp_all add: q)
  have "view st' (stl_id p) = Some (outcome horizon mr me b wrf now (core p))"
    using Cons.prems(3) by (simp add: v outcome_def verdict_on_def)
  moreover have "\<forall>x \<in> set ps. view st' (stl_id x) = Some (core x)"
  proof
    fix x assume "x \<in> set ps"
    moreover from this have "stl_id x \<noteq> stl_id p" using Cons.prems(2) by (metis distinct.simps(2) image_eqI list.map(2) set_map)
    ultimately show "view st' (stl_id x) = Some (core x)" using Cons.prems(3) by (simp add: v)
  qed
  ultimately show ?case
    using Cons.IH [OF ok', of r'] Cons.prems by (auto simp: q v)
qed simp

lemma reconcile_view:
  assumes "ok st" and "st = settlements w"
  shows "view (settlements (fst (reconcilePendingSettlementsOnce ops True horizon mr me b wrf now w))) i =
    map_option (\<lambda>x. if is_due now x then outcome horizon mr me b wrf now x else x) (view st i)"
proof -
  let ?ps = "op_pending ops now st"
  have p: "\<forall>p \<in> set ?ps. view st (stl_id p) = Some (core p)"
    using pending_view [OF assms(1), of now] by (metis (mono_tags, lifting) core_simps(1) image_eqI mem_Collect_eq)
  have "i \<in> stl_id ` set ?ps \<longleftrightarrow> (\<exists>x. view st i = Some x \<and> is_due now x)"
  proof
    assume "i \<in> stl_id ` set ?ps"
    then obtain q where "q \<in> set ?ps" "stl_id q = i" by auto
    then have "core q \<in> {x. view st (stl_id x) = Some x \<and> is_due now x}"
      using pending_view [OF assms(1), of now] by blast
    with \<open>stl_id q = i\<close> show "\<exists>x. view st i = Some x \<and> is_due now x" by auto
  next
    assume "\<exists>x. view st i = Some x \<and> is_due now x"
    then obtain x where x: "view st i = Some x" "is_due now x" by blast
    then have "x \<in> core ` set ?ps"
      using pending_view [OF assms(1), of now] view_id [OF assms(1)] by auto
    then show "i \<in> stl_id ` set ?ps" using view_id [OF assms(1) x(1)] by auto
  qed
  then show ?thesis
    using reconcile_fold_view [OF assms(1) pending_distinct [OF assms(1)] p, of horizon mr me b wrf now _ i] assms(2)
    by (cases "view st i") (auto simp: reconcile_settlements)
qed

end

section \<open>The two stores keep the contract\<close>

definition mem_view :: "Settlement list \<Rightarrow> string \<Rightarrow> Settlement option" where
  "mem_view ss i = map_option core (List.find (\<lambda>s. stl_id s = i) ss)"

definition mem_ok :: "Settlement list \<Rightarrow> bool" where
  "mem_ok ss \<longleftrightarrow> distinct (map stl_id ss)"

definition pg_view :: "SettlementStoreRow list \<Rightarrow> string \<Rightarrow> Settlement option" where
  "pg_view rows i = map_option mapSettlementRow (List.find (\<lambda>r. SettlementStoreRow.external_id r = i) rows)"

definition pg_ok :: "SettlementStoreRow list \<Rightarrow> bool" where
  "pg_ok rows \<longleftrightarrow> distinct (map SettlementStoreRow.external_id rows)"

lemma update_first_Nil [simp]: "update_first i f [] = []"
  by (simp add: update_first_def)

lemma update_first_Cons [simp]:
  "update_first i f (x # xs) = (if stl_id x = i then f x # xs else x # update_first i f xs)"
  by (cases "dropWhile (\<lambda>s. stl_id s \<noteq> i) xs") (simp_all add: update_first_def del: dropWhile_eq_Nil_conv)

lemma update_first_ids: "\<forall>s. stl_id (f s) = stl_id s \<Longrightarrow> map stl_id (update_first i f ss) = map stl_id ss"
  by (induction ss) auto

lemma update_first_find: "\<forall>s. stl_id (f s) = stl_id s \<Longrightarrow>
    List.find (\<lambda>s. stl_id s = j) (update_first i f ss) =
      (if j = i then map_option f (List.find (\<lambda>s. stl_id s = i) ss) else List.find (\<lambda>s. stl_id s = j) ss)"
  by (induction ss) auto

lemma update_rows_find: "\<forall>r. SettlementStoreRow.external_id (f r) = SettlementStoreRow.external_id r \<Longrightarrow>
    List.find (\<lambda>r. SettlementStoreRow.external_id r = j) (update_rows i f rows) =
      (if j = i then map_option f (List.find (\<lambda>r. SettlementStoreRow.external_id r = i) rows)
       else List.find (\<lambda>r. SettlementStoreRow.external_id r = j) rows)"
  by (induction rows) (auto simp: update_rows_def)

lemma update_rows_ids: "\<forall>r. SettlementStoreRow.external_id (f r) = SettlementStoreRow.external_id r \<Longrightarrow>
    map SettlementStoreRow.external_id (update_rows i f rows) = map SettlementStoreRow.external_id rows"
  by (auto simp: update_rows_def)

lemma distinct_map_sort_key: "distinct (map k (sort_key f xs)) \<longleftrightarrow> distinct (map k xs)"
  by (metis mset_map mset_sort mset_eq_imp_distinct_iff)

lemma find_distinct_iff:
  "distinct (map k xs) \<Longrightarrow> List.find (\<lambda>x. k x = i) xs = Some y \<longleftrightarrow> y \<in> set xs \<and> k y = i"
  by (induction xs) (auto simp: image_iff)

lemma find_key_None: "List.find (\<lambda>x. k x = i) xs = None \<longleftrightarrow> i \<notin> k ` set xs"
  by (auto simp: find_None_iff)

interpretation mem_store: settlement_store mem_ops mem_view mem_ok
proof
  fix s :: "Settlement list" and x :: Settlement
  assume ok: "mem_ok s"
  show "mem_view s (stl_id x) = None \<Longrightarrow> mem_ok (op_create mem_ops x s)"
    using ok by (simp add: mem_ok_def mem_view_def mem_ops_def mem_create_def find_key_None)
  show "mem_view s (stl_id x) = None \<Longrightarrow> mem_view (op_create mem_ops x s) = (mem_view s)(stl_id x \<mapsto> core x)"
    by (auto simp: mem_view_def mem_ops_def mem_create_def find_append fun_eq_iff split: option.split)
  fix i st tx now after
  show "mem_ok (op_update mem_ops i st tx now s)" "mem_ok (op_retry mem_ops i after s)"
    using ok by (simp_all add: mem_ok_def mem_ops_def mem_updateStatus_def mem_scheduleRetry_def update_first_ids)
  show "mem_view (op_update mem_ops i st tx now s) = (mem_view s)(i := map_option (core_status st tx) (mem_view s i))"
    by (auto simp: mem_view_def mem_ops_def mem_updateStatus_def update_first_find option.map_comp comp_def fun_eq_iff)
  show "mem_view (op_retry mem_ops i after s) = (mem_view s)(i := map_option (with_retry after) (mem_view s i))"
    by (auto simp: mem_view_def mem_ops_def mem_scheduleRetry_def update_first_find option.map_comp comp_def fun_eq_iff)
  show "distinct (map stl_id (op_pending mem_ops now s))"
    using ok by (simp add: mem_ok_def mem_ops_def mem_getPendingSettlements_def distinct_map_sort_key distinct_map_filter)
  show "core ` set (op_pending mem_ops now s) = {x. mem_view s (stl_id x) = Some x \<and> is_due now x}"
    using ok by (auto simp: mem_ok_def mem_ops_def mem_view_def mem_getPendingSettlements_def find_distinct_iff)
  show "mem_view s i = Some x \<Longrightarrow> stl_id x = i"
    using ok by (auto simp: mem_view_def mem_ok_def find_distinct_iff)
qed

lemma mapRow_simps [simp]: "stl_id (mapSettlementRow r) = SettlementStoreRow.external_id r"
  "core (mapSettlementRow r) = mapSettlementRow r"
  by (simp_all add: mapSettlementRow_def core_def)

lemma row_due: "is_due now (mapSettlementRow r) \<longleftrightarrow> row_status r = StPending \<or> (row_status r = StRetryable \<and>
    (case retry_after r of None \<Rightarrow> True | Some t \<Rightarrow> t \<le> now))"
  by (simp add: is_due_def mapSettlementRow_def)

interpretation pg_store: settlement_store pg_ops pg_view pg_ok
proof
  fix s :: "SettlementStoreRow list" and x :: Settlement
  assume ok: "pg_ok s"
  show "pg_view s (stl_id x) = None \<Longrightarrow> pg_ok (op_create pg_ops x s)"
    using ok by (simp add: pg_ok_def pg_view_def pg_ops_def pg_create_def find_key_None)
  show "pg_view s (stl_id x) = None \<Longrightarrow> stl_retry_after x = None \<Longrightarrow> stl_retries x = 0 \<Longrightarrow>
      pg_view (op_create pg_ops x s) = (pg_view s)(stl_id x \<mapsto> core x)"
    by (auto simp: pg_view_def pg_ops_def pg_create_def find_append fun_eq_iff mapSettlementRow_def core_def
        split: option.split)
  fix i st tx now after
  show "pg_ok (op_update pg_ops i st tx now s)" "pg_ok (op_retry pg_ops i after s)"
    using ok by (simp_all add: pg_ok_def pg_ops_def pg_updateStatus_def pg_scheduleRetry_def update_rows_ids)
  show "pg_view (op_update pg_ops i st tx now s) = (pg_view s)(i := map_option (core_status st tx) (pg_view s i))"
    by (cases tx) (auto simp: pg_view_def pg_ops_def pg_updateStatus_def update_rows_find option.map_comp comp_def
        mapSettlementRow_def core_status_def fun_eq_iff)
  show "pg_view (op_retry pg_ops i after s) = (pg_view s)(i := map_option (with_retry after) (pg_view s i))"
    by (auto simp: pg_view_def pg_ops_def pg_scheduleRetry_def update_rows_find option.map_comp comp_def
        mapSettlementRow_def with_retry_def fun_eq_iff)
  show "distinct (map stl_id (op_pending pg_ops now s))"
    using ok by (simp add: pg_ok_def pg_ops_def pg_getPendingSettlements_def distinct_map_sort_key distinct_map_filter comp_def)
  show "core ` set (op_pending pg_ops now s) = {x. pg_view s (stl_id x) = Some x \<and> is_due now x}"
    using ok by (auto simp: pg_ok_def pg_ops_def pg_view_def pg_getPendingSettlements_def find_distinct_iff
        row_due [symmetric] image_image)
  show "pg_view s i = Some x \<Longrightarrow> stl_id x = i"
    using ok by (auto simp: pg_view_def pg_ok_def find_distinct_iff)
qed

section \<open>Payouts and settled events\<close>

text \<open>The amount of the settled events of a developer's APIs, and what a developer is paid by the
  settlement client: \<open>paid\<close> reads it off the client's ledger and an honest client adds the amount
  exactly when it reports success with a transaction hash.\<close>

definition settled_amount :: "(string \<Rightarrow> string option) \<Rightarrow> string \<Rightarrow> usage_store \<Rightarrow> usdc" where
  "settled_amount resolve d u =
     sum_list (map amountUsdc (filter (\<lambda>e. is_settled e \<and> resolve (apiId e) = Some d) (events u)))"

definition paid_out :: "DistributeResult result \<Rightarrow> bool" where
  "paid_out answer = (case answer of Inl _ \<Rightarrow> False
     | Inr a \<Rightarrow> dist_success a \<and> (case dist_txHash a of None \<Rightarrow> False | Some h \<Rightarrow> h \<noteq> []))"

definition honest_client :: "('c \<Rightarrow> string \<Rightarrow> usdc) \<Rightarrow> (string \<Rightarrow> usdc \<Rightarrow> 'c \<Rightarrow> DistributeResult result \<times> 'c) \<Rightarrow> bool" where
  "honest_client paid distribute \<longleftrightarrow> (\<forall>d a c d'. paid (snd (distribute d a c)) d' =
     paid c d' + (if d' = d \<and> paid_out (fst (distribute d a c)) then a else 0))"

definition group_ok :: "(string \<Rightarrow> string option) \<Rightarrow> usage_store \<Rightarrow> string \<times> UsageEvent list \<Rightarrow> bool" where
  "group_ok resolve u g \<longleftrightarrow> distinct (snd g) \<and> (\<forall>e \<in> set (snd g). e \<in> set (events u) \<and> \<not> is_settled e \<and>
     resolve (apiId e) = Some (fst g))"

definition skipped :: "usdc \<Rightarrow> (string \<Rightarrow> group_env) \<Rightarrow> string \<Rightarrow> UsageEvent list \<Rightarrow> bool" where
  "skipped minPayout env d es \<longleftrightarrow> sumAmounts es < minPayout \<or> create_fails (env d)"

lemma process_group_ledger:
  "ledger (fst (process_group ops distribute minP env now (d, es) (w, r))) =
     (if skipped minP env d es then ledger w else snd (distribute d (sumAmounts es) (ledger w)))"
  by (auto simp: process_group_def Let_def skipped_def split: prod.split option.split)

lemma process_group_usage:
  "usage (fst (process_group ops distribute minP env now (d, es) (w, r))) =
     (if \<not> skipped minP env d es \<and> paid_out (fst (distribute d (sumAmounts es) (ledger w))) \<and>
         \<not> update_fails (env d) \<and> \<not> mark_fails (env d)
      then markAsSettled (map event_id es) (''stl_'' @ uuid (env d)) (usage w) else usage w)"
  by (auto simp: process_group_def Let_def skipped_def paid_out_def split: prod.split option.split sum.split)

lemma mark_settled_amount:
  assumes ids: "distinct (map event_id (events u))" and g: "group_ok resolve u (d, es)" and "sid \<noteq> []"
  shows "settled_amount resolve d' (markAsSettled (map event_id es) sid u) =
    settled_amount resolve d' u + (if d' = d then sumAmounts es else 0)"
proof -
  have mem: "e \<in> set es \<longleftrightarrow> event_id e \<in> event_id ` set es" if "e \<in> set (events u)" for e
    using ids g that by (auto simp: group_ok_def distinct_map inj_on_def)
  have "mset (filter (\<lambda>e. e \<in> set es) (events u)) = mset es"
    by (rule iffD1 [OF set_eq_iff_mset_eq_distinct]) (use ids g in \<open>auto simp: group_ok_def distinct_map\<close>)
  then have es: "sum_list (map amountUsdc (filter (\<lambda>e. e \<in> set es) (events u))) = sumAmounts es"
    by (metis mset_map sum_mset_sum_list sumAmounts_sum_list)
  have "sum_list (map amountUsdc (filter (\<lambda>e. is_settled e \<and> resolve (apiId e) = Some d')
      (map (\<lambda>e. if event_id e \<in> event_id ` set es then e\<lparr>settlementId := Some sid\<rparr> else e) xs))) =
    sum_list (map amountUsdc (filter (\<lambda>e. is_settled e \<and> resolve (apiId e) = Some d') xs)) +
    (if d' = d then sum_list (map amountUsdc (filter (\<lambda>e. e \<in> set es) xs)) else 0)" if "set xs \<subseteq> set (events u)" for xs
    using that
  proof (induction xs)
    case (Cons x xs)
    then have "x \<in> set (events u)" by simp
    note m = mem [OF this]
    note ih = Cons.IH [OF order_trans [OF set_subset_Cons Cons.prems]]
    have set_sid: "is_settled (x\<lparr>settlementId := Some sid\<rparr>)" using \<open>sid \<noteq> []\<close> by (simp add: is_settled_def)
    show ?case
    proof (cases "x \<in> set es")
      case True
      with g have "\<not> is_settled x" "resolve (apiId x) = Some d" by (auto simp: group_ok_def)
      moreover have "event_id x \<in> event_id ` set es" using True by blast
      moreover note ih
      ultimately show ?thesis using True set_sid by (cases "d' = d") simp_all
    next
      case False
      moreover have "event_id x \<notin> event_id ` set es" using m False by blast
      moreover note ih
      ultimately show ?thesis by (cases "d' = d") simp_all
    qed
  qed simp
  from this [of "events u"] es show ?thesis
    by (simp add: settled_amount_def markAsSettled_def)
qed

lemma mark_group_ok:
  assumes "distinct (map event_id (events u))" and "group_ok resolve u (d, es)" and "group_ok resolve u g" and "fst g \<noteq> d"
  shows "group_ok resolve (markAsSettled (map event_id es) sid u) g"
proof -
  have "e \<in> set (events (markAsSettled (map event_id es) sid u))" if "e \<in> set (snd g)" for e
  proof -
    from that assms(3) have e: "e \<in> set (events u)" "resolve (apiId e) = Some (fst g)" by (auto simp: group_ok_def)
    have "event_id e \<notin> event_id ` set es"
    proof
      assume "event_id e \<in> event_id ` set es"
      then obtain x where x: "x \<in> set es" "event_id e = event_id x" by blast
      then have "x \<in> set (events u)" "resolve (apiId x) = Some d" using assms(2) by (auto simp: group_ok_def)
      moreover from this x(2) e(1) assms(1) have "e = x" by (auto simp: distinct_map dest: inj_onD)
      ultimately show False using e(2) assms(4) by simp
    qed
    then show ?thesis using e(1) by (force simp: markAsSettled_def)
  qed
  then show ?thesis using assms(3) by (simp add: group_ok_def)
qed

lemma mark_event_ids [simp]: "map event_id (events (markAsSettled ids sid u)) = map event_id (events u)"
  by (simp add: markAsSettled_def)

lemma batch_fold_conserves:
  assumes "honest_client paid distribute" and "\<forall>d. \<not> update_fails (env d) \<and> \<not> mark_fails (env d)"
    and "distinct (map event_id (events (usage w)))" and "distinct (map fst gs)"
    and "\<forall>g \<in> set gs. group_ok resolve (usage w) g"
  shows "paid (ledger (fst (fold (process_group ops distribute minP env now) gs (w, r)))) d -
      settled_amount resolve d (usage (fst (fold (process_group ops distribute minP env now) gs (w, r)))) =
    paid (ledger w) d - settled_amount resolve d (usage w)"
  using assms(3-5)
proof (induction gs arbitrary: w r)
  case (Cons g gs)
  obtain k es where g: "g = (k, es)" by fastforce
  obtain w' r' where q: "process_group ops distribute minP env now g (w, r) = (w', r')" by fastforce
  have pay: "paid (snd (distribute k a c)) d = paid c d + (if d = k \<and> paid_out (fst (distribute k a c)) then a else 0)" for a c
    using assms(1) unfolding honest_client_def by blast
  have ok: "group_ok resolve (usage w) (k, es)" using Cons.prems(3) g by simp
  have "ledger w' = (if skipped minP env k es then ledger w else snd (distribute k (sumAmounts es) (ledger w)))"
    and u: "usage w' = (if \<not> skipped minP env k es \<and> paid_out (fst (distribute k (sumAmounts es) (ledger w)))
      then markAsSettled (map event_id es) (''stl_'' @ uuid (env k)) (usage w) else usage w)"
    using process_group_ledger [of ops distribute minP env now k es w r]
      process_group_usage [of ops distribute minP env now k es w r] assms(2) by (simp_all add: q [unfolded g])
  then have step: "paid (ledger w') d - settled_amount resolve d (usage w') =
      paid (ledger w) d - settled_amount resolve d (usage w)"
    by (simp add: pay mark_settled_amount [OF Cons.prems(1) ok])
  have "\<forall>x \<in> set gs. group_ok resolve (usage w') x"
    using mark_group_ok [OF Cons.prems(1) ok] Cons.prems(2,3) by (auto simp: u g image_iff)
  moreover have "distinct (map event_id (events (usage w')))" using Cons.prems(1) by (simp add: u)
  ultimately show ?case using Cons.IH [of w' r'] step Cons.prems(2) by (simp add: q)
qed simp

definition groups_inv :: "(string \<Rightarrow> string option) \<Rightarrow> UsageEvent set \<Rightarrow> (string, UsageEvent list) js_map \<Rightarrow> bool" where
  "groups_inv resolve S m \<longleftrightarrow> wf_map m \<and> (\<forall>d g. map_get m d = Some g \<longrightarrow>
     distinct g \<and> set g \<subseteq> S \<and> (\<forall>e \<in> set g. resolve (apiId e) = Some d))"

lemma add_to_group_inv:
  assumes "groups_inv resolve S m" and "e \<notin> S"
  shows "groups_inv resolve (insert e S) (add_to_group resolve n e m)"
proof -
  have *: "(d, g) \<in> set m \<Longrightarrow> distinct g \<and> set g \<subseteq> insert e S \<and> e \<notin> set g \<and> (\<forall>e \<in> set g. resolve (apiId e) = Some d)"
    for d g using assms unfolding groups_inv_def by (metis map_of_is_SomeI subsetD subset_insertI2)
  show ?thesis
    using assms(1) *
    by (auto simp: groups_inv_def add_to_group_def Let_def set_map_set split: option.splits if_splits)
qed

lemma group_events_inv:
  "distinct es \<Longrightarrow> groups_inv resolve (set es) (group_events resolve n es)"
proof (induction es rule: rev_induct)
  case Nil
  then show ?case by (simp add: group_events_def groups_inv_def)
next
  case (snoc e es)
  then show ?case using add_to_group_inv [of resolve "set es" _ e n] by (simp add: group_events_def)
qed

lemma unsettled_distinct: "distinct (map event_id (events u)) \<Longrightarrow> distinct (getUnsettledEvents u)"
  by (simp add: getUnsettledEvents_def distinct_map)

lemma groups_of_batch_ok:
  assumes "distinct (map event_id (events u))" and "g \<in> set (group_events resolve n (getUnsettledEvents u))"
  shows "group_ok resolve u g"
proof -
  note d = unsettled_distinct [OF assms(1)]
  obtain k es where g: "g = (k, es)" by fastforce
  from group_events_inv [OF d, of resolve n] assms(2) g
  have "distinct es \<and> set es \<subseteq> set (getUnsettledEvents u) \<and> (\<forall>e \<in> set es. resolve (apiId e) = Some k)"
    by (auto simp: groups_inv_def)
  then show ?thesis by (auto simp: group_ok_def g getUnsettledEvents_def)
qed

lemma group_keys_distinct:
  assumes "distinct (map event_id (events u))"
  shows "distinct (map fst (group_events resolve n (getUnsettledEvents u)))"
  using group_events_inv [OF unsettled_distinct [OF assms], of resolve n] unfolding groups_inv_def by (rule conjunct1)

lemma runBatchOnce_fold:
  "fst (runBatchOnce ops distribute resolve minP n env now w) =
    fst (fold (process_group ops distribute minP env now) (group_events resolve n (getUnsettledEvents (usage w)))
      (w, \<lparr>processed = 0, settledAmount = 0, batch_errors = 0\<rparr>))"
  by (simp add: runBatchOnce_def Let_def group_events_def)

text \<open>What a batch is about to pay a developer: the total of its group, if it reaches the minimum.\<close>

definition due_amount :: "(string \<Rightarrow> string option) \<Rightarrow> usdc \<Rightarrow> nat \<Rightarrow> usage_store \<Rightarrow> string \<Rightarrow> usdc" where
  "due_amount resolve minPayout maxEvents u d =
    (case map_get (group_events resolve maxEvents (getUnsettledEvents u)) d of None \<Rightarrow> 0
     | Some es \<Rightarrow> if sumAmounts es < minPayout then 0 else sumAmounts es)"

lemma batch_fold_pays:
  assumes "honest_client paid distribute" and "\<forall>d a c. paid_out (fst (distribute d a c))"
    and "\<forall>d. \<not> create_fails (env d)" and "distinct (map fst gs)"
  shows "paid (ledger (fst (fold (process_group ops distribute minP env now) gs (w, r)))) d = paid (ledger w) d +
    (case map_of gs d of None \<Rightarrow> 0 | Some es \<Rightarrow> if sumAmounts es < minP then 0 else sumAmounts es)"
  using assms(4)
proof (induction gs arbitrary: w r)
  case (Cons g gs)
  obtain k es where g: "g = (k, es)" by fastforce
  obtain w' r' where q: "process_group ops distribute minP env now g (w, r) = (w', r')" by fastforce
  have pay: "paid (snd (distribute k a c)) d = paid c d + (if d = k then a else 0)" for a c d
    using assms(1,2) unfolding honest_client_def by simp
  have "paid (ledger w') d = paid (ledger w) d + (if d = k \<and> \<not> sumAmounts es < minP then sumAmounts es else 0)"
    using process_group_ledger [of ops distribute minP env now k es w r] assms(3)
    by (cases "d = k") (simp_all add: q [unfolded g] skipped_def pay)
  moreover have "d = k \<Longrightarrow> map_of gs d = None" using Cons.prems g by (auto simp: map_of_eq_None_iff)
  ultimately show ?case
    using Cons.IH [of w' r'] Cons.prems by (cases "d = k") (simp_all add: g q [unfolded g])
qed simp

lemma batch_fold_unmarked:
  assumes "\<forall>d. update_fails (env d) \<or> mark_fails (env d)"
  shows "usage (fst (fold (process_group ops distribute minP env now) gs (w, r))) = usage w"
proof (induction gs arbitrary: w r)
  case (Cons g gs)
  obtain k es where g: "g = (k, es)" by fastforce
  obtain w' r' where q: "process_group ops distribute minP env now g (w, r) = (w', r')" by fastforce
  have "usage w' = usage w"
    using process_group_usage [of ops distribute minP env now k es w r] assms by (auto simp: q [unfolded g])
  then show ?case using Cons.IH [of w' r'] by (simp add: q)
qed simp

lemma batch_fold_events:
  "map (\<lambda>e. e\<lparr>settlementId := None\<rparr>) (events (usage (fst (fold (process_group ops distribute minP env now) gs wr)))) =
    map (\<lambda>e. e\<lparr>settlementId := None\<rparr>) (events (usage (fst wr)))"
proof (induction gs arbitrary: wr)
  case (Cons g gs)
  obtain k es where g: "g = (k, es)" by fastforce
  obtain w r where wr: "wr = (w, r)" by fastforce
  have "map (\<lambda>e. e\<lparr>settlementId := None\<rparr>) (events (usage (fst (process_group ops distribute minP env now g wr)))) =
      map (\<lambda>e. e\<lparr>settlementId := None\<rparr>) (events (usage w))"
    unfolding g wr process_group_usage by (simp add: markAsSettled_def)
  with Cons.IH [of "process_group ops distribute minP env now g wr"] show ?case by (simp add: wr)
qed simp

lemma batch_conserves:
  assumes "honest_client paid distribute" and "\<forall>d. \<not> update_fails (env d) \<and> \<not> mark_fails (env d)"
    and "distinct (map event_id (events (usage w)))"
    and "runBatchOnce ops distribute resolve minPayout maxEvents env now w = (w', r)"
  shows "paid (ledger w') d - settled_amount resolve d (usage w') = paid (ledger w) d - settled_amount resolve d (usage w)"
proof -
  let ?gs = "group_events resolve maxEvents (getUnsettledEvents (usage w))"
  have w': "w' = fst (fold (process_group ops distribute minPayout env now) ?gs
      (w, \<lparr>processed = 0, settledAmount = 0, batch_errors = 0\<rparr>))"
    using runBatchOnce_fold [of ops distribute resolve minPayout maxEvents env now w] assms(4) by simp
  have "\<forall>g \<in> set ?gs. group_ok resolve (usage w) g" using groups_of_batch_ok [OF assms(3)] by blast
  from batch_fold_conserves [OF assms(1-3) group_keys_distinct [OF assms(3)] this] show ?thesis
    by (simp add: w')
qed

lemma batch_pays_due:
  assumes "honest_client paid distribute" and "\<forall>d a c. paid_out (fst (distribute d a c))"
    and "\<forall>d. \<not> create_fails (env d)" and "distinct (map event_id (events (usage w)))"
    and "runBatchOnce ops distribute resolve minPayout maxEvents env now w = (w', r)"
  shows "paid (ledger w') d = paid (ledger w) d + due_amount resolve minPayout maxEvents (usage w) d"
  using batch_fold_pays [OF assms(1-3) group_keys_distinct [OF assms(4)]] assms(5)
    runBatchOnce_fold [of ops distribute resolve minPayout maxEvents env now w]
  by (simp add: due_amount_def)

section \<open>Properties\<close>

text \<open>C3. A batch pays what it settles: for a client that pays exactly when it reports success
  with a transaction hash, if recording the hash and marking the events do not fail, then for
  every developer the amount paid grows by exactly the amount of that developer's events the
  batch settles, whatever else fails (creating settlements, the client, the notification), and
  the batch adds, drops and reprices no event.\<close>

theorem batch_pays_what_it_settles:
  assumes "honest_client paid distribute" and "\<forall>d. \<not> update_fails (env d) \<and> \<not> mark_fails (env d)"
    and "distinct (map event_id (events (usage w)))"
    and "runBatchOnce ops distribute resolve minPayout maxEvents env now w = (w', r)"
  shows "paid (ledger w') d - paid (ledger w) d = settled_amount resolve d (usage w') - settled_amount resolve d (usage w) \<and>
    map (\<lambda>e. e\<lparr>settlementId := None\<rparr>) (events (usage w')) = map (\<lambda>e. e\<lparr>settlementId := None\<rparr>) (events (usage w))"
proof -
  have "w' = fst (runBatchOnce ops distribute resolve minPayout maxEvents env now w)" using assms(4) by simp
  then have "map (\<lambda>e. e\<lparr>settlementId := None\<rparr>) (events (usage w')) = map (\<lambda>e. e\<lparr>settlementId := None\<rparr>) (events (usage w))"
    by (simp only: runBatchOnce_fold batch_fold_events fst_conv)
  moreover have "paid (ledger w') d - settled_amount resolve d (usage w') =
      paid (ledger w) d - settled_amount resolve d (usage w)" by (rule batch_conserves [OF assms])
  ultimately show ?thesis by (simp add: algebra_simps)
qed

definition unit_env :: "string \<Rightarrow> group_env" where
  "unit_env d = \<lparr>uuid = d, create_fails = False, update_fails = False, mark_fails = False, emit_fails = False, record_fails = False\<rparr>"

definition paying_client :: "string \<Rightarrow> usdc \<Rightarrow> (string \<Rightarrow> usdc) \<Rightarrow> DistributeResult result \<times> (string \<Rightarrow> usdc)" where
  "paying_client d a c = (Inr \<lparr>dist_success = True, dist_txHash = Some ''0xabc''\<rparr>, c(d := c d + a))"

definition demo_world :: "(Settlement list, string \<Rightarrow> usdc) payout_world" where
  "demo_world = \<lparr>usage = \<lparr>events = [demo_event ''r''], requestIds = {''r''}\<rparr>, settlements = [], ledger = (\<lambda>_. 0), emitted = []\<rparr>"

definition demo_resolve :: "string \<Rightarrow> string option" where
  "demo_resolve a = (if a = ''api'' then Some ''owner'' else None)"

lemma paying_client_honest: "honest_client (\<lambda>c d. c d) paying_client"
  by (simp add: honest_client_def paying_client_def paid_out_def)

lemmas demo_settlement = unit_env_def paying_client_def demo_world_def demo_resolve_def demo_event_def mem_ops_def
  getUnsettledEvents_def group_events_def add_to_group_def is_settled_def sumAmounts_def
  markAsSettled_def settled_amount_def Let_def

theorem batch_pays_what_it_settles_witness:
  "settled_amount demo_resolve ''owner'' (usage (fst (runBatchOnce mem_ops paying_client demo_resolve 0 10 unit_env 5 demo_world))) =
    ledger (fst (runBatchOnce mem_ops paying_client demo_resolve 0 10 unit_env 5 demo_world)) ''owner''"
proof -
  have a: "\<forall>d. \<not> update_fails (unit_env d) \<and> \<not> mark_fails (unit_env d)" by (simp add: unit_env_def)
  have b: "distinct (map event_id (events (usage demo_world)))" by (simp add: demo_world_def)
  have "settled_amount demo_resolve ''owner'' (usage demo_world) = 0" "ledger demo_world ''owner'' = 0"
    by (simp_all add: demo_settlement)
  with batch_pays_what_it_settles [OF paying_client_honest a b prod.collapse [symmetric],
      of mem_ops demo_resolve 0 10 5 "''owner''"] show ?thesis by simp
qed

text \<open>A failure after the payout pays twice: when the client pays but the transaction hash or
  the settled events cannot be recorded, the batch leaves every event unsettled, and the next
  batch, which then succeeds, pays every developer the same amount a second time, while the events
  are settled once.\<close>

theorem failed_finalization_pays_twice:
  assumes "honest_client paid distribute" and "\<forall>d a c. paid_out (fst (distribute d a c))"
    and "\<forall>d. \<not> create_fails (env1 d) \<and> (update_fails (env1 d) \<or> mark_fails (env1 d))"
    and "\<forall>d. \<not> create_fails (env2 d) \<and> \<not> update_fails (env2 d) \<and> \<not> mark_fails (env2 d)"
    and "distinct (map event_id (events (usage w)))"
    and "runBatchOnce ops distribute resolve minPayout maxEvents env1 t1 w = (w1, r1)"
    and "runBatchOnce ops distribute resolve minPayout maxEvents env2 t2 w1 = (w2, r2)"
  shows "usage w1 = usage w \<and>
    paid (ledger w2) d = paid (ledger w) d + 2 * due_amount resolve minPayout maxEvents (usage w) d \<and>
    settled_amount resolve d (usage w2) =
      settled_amount resolve d (usage w) + due_amount resolve minPayout maxEvents (usage w) d"
proof -
  have u: "usage w1 = usage w"
    using runBatchOnce_fold [of ops distribute resolve minPayout maxEvents env1 t1 w] assms(3,6)
    by (simp add: batch_fold_unmarked)
  have c: "\<forall>d. \<not> create_fails (env1 d)" "\<forall>d. \<not> create_fails (env2 d)"
    and m: "\<forall>d. \<not> update_fails (env2 d) \<and> \<not> mark_fails (env2 d)" using assms(3,4) by auto
  have d1: "distinct (map event_id (events (usage w1)))" using assms(5) u by simp
  have p1: "paid (ledger w1) d = paid (ledger w) d + due_amount resolve minPayout maxEvents (usage w) d"
    using batch_pays_due [OF assms(1,2) c(1) assms(5,6)] by simp
  have p2: "paid (ledger w2) d = paid (ledger w1) d + due_amount resolve minPayout maxEvents (usage w) d"
    using batch_pays_due [OF assms(1,2) c(2) d1 assms(7)] u by simp
  have "paid (ledger w2) d - settled_amount resolve d (usage w2) = paid (ledger w1) d - settled_amount resolve d (usage w1)"
    using batch_conserves [OF assms(1) m d1 assms(7)] .
  with p1 p2 u show ?thesis by simp
qed

theorem failed_finalization_pays_twice_witness:
  "ledger (fst (runBatchOnce mem_ops paying_client demo_resolve 0 10 unit_env 9
      (fst (runBatchOnce mem_ops paying_client demo_resolve 0 10 (\<lambda>d. (unit_env d)\<lparr>mark_fails := True\<rparr>) 5 demo_world)))) ''owner''
    = 2 * (1 / 2)"
proof -
  let ?e = "\<lambda>d. (unit_env d)\<lparr>mark_fails := True\<rparr>"
  have a: "\<forall>d a c. paid_out (fst (paying_client d a c))" by (simp add: paying_client_def paid_out_def)
  have b: "\<forall>d. \<not> create_fails (?e d) \<and> (update_fails (?e d) \<or> mark_fails (?e d))" by (simp add: unit_env_def)
  have c: "\<forall>d. \<not> create_fails (unit_env d) \<and> \<not> update_fails (unit_env d) \<and> \<not> mark_fails (unit_env d)" by (simp add: unit_env_def)
  have d: "distinct (map event_id (events (usage demo_world)))" by (simp add: demo_world_def)
  have "due_amount demo_resolve 0 10 (usage demo_world) ''owner'' = 1 / 2" "ledger demo_world ''owner'' = 0"
    by (simp_all add: due_amount_def demo_settlement)
  with failed_finalization_pays_twice [OF paying_client_honest a b c d prod.collapse [symmetric] prod.collapse [symmetric],
      of mem_ops demo_resolve 0 10 5 9 "''owner''"] show ?thesis by simp
qed

text \<open>C25. Reconciliation applies what Horizon says, in the in-memory and in the Postgres store alike.
  Horizon is asked again, up to the configured number of retries, while it answers 429, 500, 502, 503
  or 504 or the network fails for the moment. A settlement that is due (pending, or waiting for a
  retry whose time has come) and whose write does not fail becomes completed when the deciding answer
  says the transaction was successful; failed when it is 404, or says the transaction failed, unless it
  failed as too early and retries are left, in which case it is rescheduled with one more retry
  counted; without a deciding answer, or with one that does not say, it stays as it is. A settlement that
  is not due (so every completed or failed one) never changes. The usage events and the payouts are
  not touched: the events of a settlement that turns out to have failed stay settled.\<close>

theorem reconcile_applies_verdicts:
  assumes "mem_ok (settlements w)" and "pg_ok (settlements v)"
  shows "let due = (\<lambda>x. (stl_status x = StPending \<or>
               stl_status x = StRetryable \<and> (stl_retry_after x = None \<or> the (stl_retry_after x) \<le> now)) \<and> \<not> write_fails (stl_id x));
             reconciled = (\<lambda>x x'. if due x then settled_as horizon maxRetries maxTooEarly (now + backoff) x x' else x' = x);
             w' = fst (reconcilePendingSettlementsOnce mem_ops True horizon maxRetries maxTooEarly backoff write_fails now w);
             v' = fst (reconcilePendingSettlementsOnce pg_ops True horizon maxRetries maxTooEarly backoff write_fails now v) in
    rel_option reconciled (mem_view (settlements w) i) (mem_view (settlements w') i) \<and> usage w' = usage w \<and> ledger w' = ledger w \<and>
    rel_option reconciled (pg_view (settlements v) i) (pg_view (settlements v') i) \<and> usage v' = usage v \<and> ledger v' = ledger v"
proof -
  have due: "is_due now x \<longleftrightarrow> stl_status x = StPending \<or>
      stl_status x = StRetryable \<and> (stl_retry_after x = None \<or> the (stl_retry_after x) \<le> now)" for x
    by (auto simp: is_due_def split: option.split)
  have rel: "rel_option R y (map_option h y)" if "\<And>x. R x (h x)" for R :: "Settlement \<Rightarrow> Settlement \<Rightarrow> bool" and h y
    using that by (cases y) auto
  show ?thesis
    by (simp add: Let_def mem_store.reconcile_view [OF assms(1) refl] pg_store.reconcile_view [OF assms(2) refl] reconcile_frame)
      (intro conjI rel; auto simp: due outcome_def verdict_settles)
qed

definition missing_horizon :: "string \<Rightarrow> nat \<Rightarrow> http_outcome" where
  "missing_horizon h n = HttpResponse 404 \<lparr>successful = None, result_code = None\<rparr>"

theorem reconcile_applies_verdicts_witness:
  "map_option stl_status (mem_view (settlements (fst (reconcilePendingSettlementsOnce mem_ops True missing_horizon 2 5 30000 (\<lambda>_. False) 9
      (demo_world\<lparr>settlements := [settlement_of ''s'' ''owner'' 1 5]\<rparr>)))) ''s'') = Some StFailed"
proof -
  have "mem_ok (settlements (demo_world\<lparr>settlements := [settlement_of ''s'' ''owner'' 1 5]\<rparr>))"
    "pg_ok (settlements \<lparr>usage = empty_usage, settlements = [], ledger = (), emitted = []\<rparr>)"
    by (simp_all add: mem_ok_def pg_ok_def)
  note verdicts = reconcile_applies_verdicts [OF this, of 9 "\<lambda>_. False" missing_horizon 2 5 30000 "''s''", unfolded Let_def, THEN conjunct1]
  have "attempted (missing_horizon h) 2 0" for h by (simp add: attempted_def)
  then have "settled_as missing_horizon 2 5 y x x' \<Longrightarrow> x' = x\<lparr>stl_status := StFailed\<rparr>" for y x x'
    by (simp add: settled_as_def missing_horizon_def Let_def) blast
  then have "settled_as missing_horizon 2 5 y x x' \<Longrightarrow> stl_status x' = StFailed" for y x x' by fastforce
  moreover have "mem_view [settlement_of ''s'' ''owner'' 1 5] ''s'' = Some (settlement_of ''s'' ''owner'' 1 5)"
    "stl_status (settlement_of ''s'' ''owner'' 1 5) = StPending"
    by (simp_all add: mem_view_def settlement_of_def core_def)
  ultimately show ?thesis using verdicts
    by (auto simp: option_rel_Some1)
qed

end
