(* ===== verification/Paging.thy ===== *)
theory Paging
  imports Prelude "HOL-Library.Char_ord" "HOL-Library.List_Lexorder"
begin

text \<open>
  Cursor pagination shared by the listings of the program (the cursors of
  \<^verbatim>\<open>lib/cursorPagination.ts\<close>): sorting newest first, the contract of one page, and the walk of a
  client that follows the returned cursors. A cursor is represented by the pair it encodes.
\<close>

section \<open>Sorting with a comparison function\<close>

text \<open>\<open>Array.prototype.sort\<close> with a comparison function is stable.\<close>

fun insert_by :: "('a \<Rightarrow> 'a \<Rightarrow> int) \<Rightarrow> 'a \<Rightarrow> 'a list \<Rightarrow> 'a list" where
  "insert_by cmp x [] = [x]"
| "insert_by cmp x (y # ys) = (if cmp x y \<le> 0 then x # y # ys else y # insert_by cmp x ys)"

definition sort_by :: "('a \<Rightarrow> 'a \<Rightarrow> int) \<Rightarrow> 'a list \<Rightarrow> 'a list" where
  "sort_by cmp xs = foldr (insert_by cmp) xs []"

definition newest_first :: "(string \<Rightarrow> string \<Rightarrow> int) \<Rightarrow> ('a \<Rightarrow> millis) \<Rightarrow> ('a \<Rightarrow> string) \<Rightarrow> 'a \<Rightarrow> 'a \<Rightarrow> int" where
  "newest_first localeCompare time ident a b =
    (if time b \<noteq> time a then time b - time a else localeCompare (ident b) (ident a))"

type_synonym cursor = "millis \<times> string"

text \<open>\<open>localeCompare\<close> orders the given identifiers like their code units, as it does for lower-case
  hexadecimal digits.\<close>

definition locale_ok :: "(string \<Rightarrow> string \<Rightarrow> int) \<Rightarrow> string set \<Rightarrow> bool" where
  "locale_ok lc ids \<longleftrightarrow> (\<forall>a \<in> ids. \<forall>b \<in> ids. (lc a b \<le> 0) = (a \<le> b))"

lemma mset_insert_by [simp]: "mset (insert_by cmp x xs) = add_mset x (mset xs)"
  by (induction xs) auto

lemma mset_sort_by [simp]: "mset (sort_by cmp xs) = mset xs"
  by (induction xs) (auto simp: sort_by_def)

lemma set_sort_by [simp]: "set (sort_by cmp xs) = set xs"
  using mset_sort_by by (metis set_mset_mset)

lemma distinct_sort_by: "distinct (map f (sort_by cmp xs)) \<longleftrightarrow> distinct (map f xs)"
  by (metis mset_map mset_sort_by mset_eq_imp_distinct_iff)

definition before :: "('a \<Rightarrow> cursor) \<Rightarrow> 'a \<Rightarrow> 'a \<Rightarrow> bool" where
  "before cur a b \<longleftrightarrow> fst (cur b) < fst (cur a) \<or> (fst (cur b) = fst (cur a) \<and> snd (cur b) < snd (cur a))"

lemma newest_first_le:
  assumes "locale_ok lc ids" and "ident a \<in> ids" and "ident b \<in> ids" and "ident a \<noteq> ident b"
  shows "newest_first lc time ident a b \<le> 0 \<longleftrightarrow> before (\<lambda>x. (time x, ident x)) a b"
  using assms by (auto simp: newest_first_def before_def locale_ok_def)

lemma before_trans: "before cur a b \<Longrightarrow> before cur b c \<Longrightarrow> before cur a c"
  by (auto simp: before_def)

lemma not_before: "\<not> before cur a b \<Longrightarrow> cur a \<noteq> cur b \<Longrightarrow> before cur b a"
  by (auto simp: before_def prod_eq_iff)

lemma insert_by_before:
  assumes "locale_ok lc (ident ` set (x # xs))" and "distinct (map ident (x # xs))"
    and "sorted_wrt (before (\<lambda>x. (time x, ident x))) xs"
  shows "sorted_wrt (before (\<lambda>x. (time x, ident x))) (insert_by (newest_first lc time ident) x xs)"
  using assms
proof (induction xs)
  case (Cons y ys)
  let ?cur = "\<lambda>x. (time x, ident x)"
  have xy: "newest_first lc time ident x y \<le> 0 \<longleftrightarrow> before ?cur x y"
    using Cons.prems by (intro newest_first_le [OF Cons.prems(1)]) auto
  have ne: "?cur x \<noteq> ?cur y" using Cons.prems(2) by auto
  have set_ins: "set (insert_by cmp x ys) = insert x (set ys)" for cmp
    by (metis mset_insert_by set_mset_add_mset_insert set_mset_mset)
  show ?case
  proof (cases "before ?cur x y")
    case True
    with Cons.prems(3) xy before_trans [of ?cur x y] show ?thesis by auto
  next
    case False
    then have "before ?cur y x" using not_before [of ?cur x y] ne by simp
    moreover have "locale_ok lc (ident ` set (x # ys))" using Cons.prems(1) by (auto simp: locale_ok_def)
    ultimately show ?thesis using Cons False xy set_ins by auto
  qed
qed simp

lemma sort_by_before:
  assumes "locale_ok lc (ident ` set xs)" and "distinct (map ident xs)"
  shows "sorted_wrt (before (\<lambda>x. (time x, ident x))) (sort_by (newest_first lc time ident) xs)"
  using assms
proof (induction xs)
  case (Cons x xs)
  let ?s = "sort_by (newest_first lc time ident) xs"
  have "locale_ok lc (ident ` set xs)" using Cons.prems(1) by (auto simp: locale_ok_def)
  then have s: "sorted_wrt (before (\<lambda>x. (time x, ident x))) ?s" using Cons by simp
  have e: "sort_by (newest_first lc time ident) (x # xs) = insert_by (newest_first lc time ident) x ?s"
    by (simp add: sort_by_def)
  have d: "distinct (map ident (x # ?s))"
    using Cons.prems(2) distinct_sort_by [of ident "newest_first lc time ident" xs] by simp
  show ?case
    unfolding e by (rule insert_by_before [OF _ d s]) (use Cons.prems(1) in simp)
qed (simp add: sort_by_def)

lemma filter_before_suffix:
  assumes "sorted_wrt (before cur) (xs @ y # zs)"
  shows "filter (before cur y) (xs @ y # zs) = zs"
proof -
  have "\<not> before cur y x" if "x \<in> set xs" for x
  proof -
    have "before cur x y" using assms that by (simp add: sorted_wrt_append)
    then show ?thesis by (auto simp: before_def)
  qed
  moreover have "before cur y z" if "z \<in> set zs" for z
    using assms that by (simp add: sorted_wrt_append)
  moreover have "\<not> before cur y y" by (auto simp: before_def)
  ultimately show ?thesis by (simp add: filter_empty_conv filter_id_conv)
qed

lemma sorted_wrt_determined:
  assumes "\<forall>a b. R a b \<longrightarrow> \<not> R b a" and "sorted_wrt R xs" and "sorted_wrt R ys" and "mset xs = mset ys"
  shows "xs = ys"
  using assms(2-4)
proof (induction xs arbitrary: ys)
  case (Cons x xs)
  then obtain y ys' where ys: "ys = y # ys'" by (cases ys) auto
  have "x = y"
  proof (rule ccontr)
    assume "x \<noteq> y"
    then have "x \<in> set ys'" "y \<in> set xs"
      using Cons.prems(3) mset_eq_setD [OF Cons.prems(3)] by (auto simp: ys)
    with Cons.prems(1,2) ys assms(1) show False by auto
  qed
  with Cons ys show ?case by auto
qed simp

section \<open>Sorting by a total order\<close>

lemma insert_by_sorted:
  assumes "transp R" and "\<forall>a \<in> set (x # xs). \<forall>b \<in> set (x # xs). a \<noteq> b \<longrightarrow> (cmp a b \<le> 0 \<longleftrightarrow> R a b) \<and> (R a b \<or> R b a)"
    and "distinct (x # xs)" and "sorted_wrt R xs"
  shows "sorted_wrt R (insert_by cmp x xs)"
  using assms(2-4)
proof (induction xs)
  case (Cons y ys)
  have set_ins: "set (insert_by cmp x ys) = insert x (set ys)"
    by (metis mset_insert_by set_mset_add_mset_insert set_mset_mset)
  from Cons.prems have xy: "x \<noteq> y" "cmp x y \<le> 0 \<longleftrightarrow> R x y" "R x y \<or> R y x" by auto
  show ?case
  proof (cases "R x y")
    case True
    with Cons.prems(3) xy show ?thesis using transpD [OF assms(1)] by auto
  next
    case False
    with Cons xy set_ins show ?thesis by auto
  qed
qed simp

lemma sort_by_sorted:
  assumes "transp R" and "\<forall>a \<in> set xs. \<forall>b \<in> set xs. a \<noteq> b \<longrightarrow> (cmp a b \<le> 0 \<longleftrightarrow> R a b) \<and> (R a b \<or> R b a)" and "distinct xs"
  shows "sorted_wrt R (sort_by cmp xs)"
  using assms(2,3)
proof (induction xs)
  case (Cons x xs)
  have e: "sort_by cmp (x # xs) = insert_by cmp x (sort_by cmp xs)" by (simp add: sort_by_def)
  show ?case unfolding e
    using Cons distinct_sort_by [of id cmp xs] by (intro insert_by_sorted [OF assms(1)]) auto
qed (simp add: sort_by_def)

lemma sort_by_perm:
  assumes "transp R" and "asymp R" and "mset xs = mset ys" and "distinct xs"
    and "\<forall>a \<in> set xs. \<forall>b \<in> set xs. a \<noteq> b \<longrightarrow> (cmp a b \<le> 0 \<longleftrightarrow> R a b) \<and> (cmp' a b \<le> 0 \<longleftrightarrow> R a b) \<and> (R a b \<or> R b a)"
  shows "sort_by cmp xs = sort_by cmp' ys"
proof (rule sorted_wrt_determined [of R])
  have "set ys = set xs" "distinct ys" using assms(3,4) by (metis mset_eq_setD, metis mset_eq_imp_distinct_iff)
  then show "sorted_wrt R (sort_by cmp xs)" "sorted_wrt R (sort_by cmp' ys)"
    using assms(4,5) by (auto intro!: sort_by_sorted [OF assms(1)])
  show "\<forall>a b. R a b \<longrightarrow> \<not> R b a" using assms(2) by (simp add: asympD)
qed (use assms(3) in simp)

lemma sort_by_filter:
  assumes "transp R" "asymp R" "distinct xs"
    and "\<forall>a \<in> set xs. \<forall>b \<in> set xs. a \<noteq> b \<longrightarrow> (cmp a b \<le> 0 \<longleftrightarrow> R a b) \<and> (R a b \<or> R b a)"
  shows "sort_by cmp (filter P xs) = filter P (sort_by cmp xs)"
proof (rule sorted_wrt_determined [of R])
  show "\<forall>a b. R a b \<longrightarrow> \<not> R b a" using assms(2) by (simp add: asympD)
  show "sorted_wrt R (sort_by cmp (filter P xs))" using assms by (intro sort_by_sorted [OF assms(1)]) auto
  show "sorted_wrt R (filter P (sort_by cmp xs))" using assms by (intro sorted_wrt_filter sort_by_sorted)
qed simp

lemma filter_suffix:
  assumes "asymp R" "sorted_wrt R (xs @ y # zs)"
  shows "filter (R y) (xs @ y # zs) = zs"
  using assms(2) asympD [OF assms(1)] by (auto simp: sorted_wrt_append filter_empty_conv filter_id_conv)

section \<open>Pages\<close>

definition page :: "nat \<Rightarrow> ('a \<Rightarrow> 'c) \<Rightarrow> 'a list \<Rightarrow> 'a list \<times> 'c option" where
  "page limit cur zs = (take limit zs, if length zs > limit then Some (cur (last (take limit zs))) else None)"

fun walk_pages :: "('c option \<Rightarrow> 'a list \<times> 'c option) \<Rightarrow> nat \<Rightarrow> 'c option \<Rightarrow> 'a list" where
  "walk_pages fetch 0 c = []"
| "walk_pages fetch (Suc n) c = (case fetch c of (xs, next) \<Rightarrow>
     xs @ (case next of None \<Rightarrow> [] | Some c' \<Rightarrow> walk_pages fetch n (Some c')))"

lemma walk_pages_map:
  "walk_pages (\<lambda>c. case fetch c of (xs, next) \<Rightarrow> (map f xs, next)) n c = map f (walk_pages fetch n c)"
  by (induction n arbitrary: c) (auto split: prod.splits option.splits)

text \<open>The contract of a paginated listing: the first page starts at the top, and the page of a
  cursor starts right after the entry the cursor names.\<close>

locale cursor_pages =
  fixes fetch :: "'c option \<Rightarrow> 'a list \<times> 'c option"
    and listing :: "'a list"
    and cur :: "'a \<Rightarrow> 'c"
    and limit :: nat
    and ok :: bool
  assumes start: "ok \<Longrightarrow> fetch None = page limit cur listing"
    and resume: "ok \<Longrightarrow> listing = xs @ y # zs \<Longrightarrow> fetch (Some (cur y)) = page limit cur zs"
    and limit_pos: "ok \<Longrightarrow> 0 < limit"
begin

lemma walk_from:
  assumes ok and "listing = pre @ zs" and "fetch c = page limit cur zs" and "length zs < n"
  shows "walk_pages fetch n c = zs"
  using assms(2-4)
proof (induction n arbitrary: pre zs c)
  case (Suc n)
  show ?case
  proof (cases "length zs > limit")
    case True
    let ?xs = "take limit zs"
    have ne: "?xs \<noteq> []" using True limit_pos [OF assms(1)] by auto
    have "zs = butlast ?xs @ last ?xs # drop limit zs"
      by (metis append_butlast_last_id append_eq_Cons_conv append_take_drop_id append.assoc append_Cons append_Nil ne)
    then have l: "listing = (pre @ butlast ?xs) @ last ?xs # drop limit zs" using Suc.prems(1) by simp
    have "walk_pages fetch n (Some (cur (last ?xs))) = drop limit zs"
    proof (rule Suc.IH)
      show "listing = (pre @ ?xs) @ drop limit zs" using Suc.prems(1) by simp
      show "fetch (Some (cur (last ?xs))) = page limit cur (drop limit zs)" by (rule resume [OF assms(1) l])
      show "length (drop limit zs) < n" using Suc.prems(3) True limit_pos [OF assms(1)] by simp
    qed
    with True Suc.prems(2) show ?thesis by (simp add: page_def)
  next
    case False
    with Suc.prems(2) show ?thesis by (simp add: page_def)
  qed
qed simp

lemma walk_all: "ok \<Longrightarrow> length listing < n \<Longrightarrow> walk_pages fetch n None = listing"
  using walk_from [of "[]" listing None n] start by simp

end

end
