(* ===== verification/ApiKeys.thy ===== *)
theory ApiKeys
  imports Paging "HOL-Library.Sublist"
begin

text \<open>
  API keys: the repository \<^verbatim>\<open>repositories/apiKeyRepository.ts\<close>, the in-memory revocation list
  \<^verbatim>\<open>services/tokenRevocation.ts\<close>, the gateway authentication middleware
  \<^verbatim>\<open>middleware/gatewayApiKeyAuth.ts\<close> with its map-backed and database-backed key sources, and
  the delete route of \<^verbatim>\<open>routes/apiKeyRoutes.ts\<close>.

  SHA-256, bcrypt, random bytes and the collation of \<open>localeCompare\<close> are parameters; what a
  theorem needs of them is a hypothesis that states their documented behaviour. A cursor is
  represented by the pair it encodes; a cursor that does not decode is \<open>None\<close>, which the code
  treats like an absent one.
\<close>

section \<open>Byte strings\<close>

definition timingSafeStringEqual :: "string \<Rightarrow> string \<Rightarrow> bool" where
  "timingSafeStringEqual a b = (if length (utf8 a) \<noteq> length (utf8 b) then False else utf8 a = utf8 b)"

text \<open>The repository compares lengths in code units; \<open>timingSafeEqual\<close> throws on buffers of
  different lengths.\<close>

definition constantTimeCompare :: "string \<Rightarrow> string \<Rightarrow> bool result" where
  "constantTimeCompare a b = (if length a \<noteq> length b then Inr False
     else if length (utf8 a) \<noteq> length (utf8 b) then Inl (Error ''Input buffers must have the same byte length'')
     else Inr (utf8 a = utf8 b))"

section \<open>The key repository\<close>

record ApiKeyRecord =
  ak_id :: string
  ak_apiId :: string
  ak_userId :: string
  ak_prefix :: string
  ak_keyHash :: string
  ak_sha256Hash :: string
  ak_scopes :: "string list"
  ak_rateLimitPerMinute :: "int option"
  ak_createdAt :: millis
  ak_revoked :: bool
  ak_lastUsedAt :: "millis option"
  ak_revokedAt :: "millis option"

record ApiKeyCreateResult =
  created_id :: string
  created_key :: string
  created_prefix :: string
  created_at :: millis

record key_params =
  p_apiId :: string
  p_userId :: string
  p_scopes :: "string list"
  p_rateLimitPerMinute :: "int option"

text \<open>The library functions: \<open>sha256\<close> is the hex digest, \<open>hashSync\<close> takes the salt bcrypt draws,
  \<open>compareSync\<close> is \<open>None\<close> when it throws.\<close>

record crypto =
  sha256Hex :: "string \<Rightarrow> string"
  sha256Base64 :: "string \<Rightarrow> string"
  legacyBase64 :: "string \<Rightarrow> string"
  hashSync :: "string \<Rightarrow> string \<Rightarrow> string"
  compareSync :: "string \<Rightarrow> string \<Rightarrow> bool option"

definition generatePlainKey :: "string \<Rightarrow> string" where
  "generatePlainKey hex = ''ck_live_'' @ hex"

definition verifyHash :: "crypto \<Rightarrow> string \<Rightarrow> string \<Rightarrow> bool" where
  "verifyHash c v h = (case compareSync c v h of None \<Rightarrow> False | Some b \<Rightarrow> b)"

definition create_key :: "crypto \<Rightarrow> string \<Rightarrow> string \<Rightarrow> string \<Rightarrow> millis \<Rightarrow> key_params \<Rightarrow> ApiKeyRecord list \<Rightarrow>
    ApiKeyCreateResult \<times> ApiKeyRecord list" where
  "create_key c rnd_key rnd_id salt now p ks =
    (let key = generatePlainKey rnd_key; prefix = take 16 key in
     (\<lparr>created_id = rnd_id, created_key = key, created_prefix = prefix, created_at = now\<rparr>,
      ks @ [\<lparr>ak_id = rnd_id, ak_apiId = p_apiId p, ak_userId = p_userId p, ak_prefix = prefix,
        ak_keyHash = hashSync c salt key, ak_sha256Hash = sha256Hex c key, ak_scopes = p_scopes p,
        ak_rateLimitPerMinute = p_rateLimitPerMinute p, ak_createdAt = now, ak_revoked = False,
        ak_lastUsedAt = None, ak_revokedAt = None\<rparr>]))"

definition list_keys :: "string \<Rightarrow> string option \<Rightarrow> ApiKeyRecord list \<Rightarrow> ApiKeyRecord list" where
  "list_keys userId apiId ks = filter (\<lambda>k. ak_userId k = userId \<and> (case apiId of None \<Rightarrow> True | Some a \<Rightarrow> ak_apiId k = a)) ks"

definition after_cursor :: "cursor \<Rightarrow> ApiKeyRecord \<Rightarrow> bool" where
  "after_cursor c k = (case c of (t, i) \<Rightarrow>
     if ak_createdAt k < t then True else if ak_createdAt k = t then ak_id k < i else False)"

definition listWithCursor :: "(string \<Rightarrow> string \<Rightarrow> int) \<Rightarrow> string \<Rightarrow> nat \<Rightarrow> cursor option \<Rightarrow> ApiKeyRecord list \<Rightarrow>
    ApiKeyRecord list \<times> cursor option \<times> bool" where
  "listWithCursor localeCompare userId limit cursor ks =
    (let sorted = sort_by (newest_first localeCompare ak_createdAt ak_id) (filter (\<lambda>k. ak_userId k = userId) ks);
         rest = (case cursor of None \<Rightarrow> sorted
           | Some c \<Rightarrow> filter (after_cursor c) sorted);
         hasMore = (length rest > limit);
         results = (if hasMore then take limit rest else rest);
         next = (if hasMore \<and> length results > 0 then Some (ak_createdAt (last results), ak_id (last results)) else None) in
     (results, next, hasMore))"

datatype revoke_result = RevokeSuccess | RevokeNotFound | RevokeForbidden

fun update_key :: "string \<Rightarrow> (ApiKeyRecord \<Rightarrow> ApiKeyRecord) \<Rightarrow> ApiKeyRecord list \<Rightarrow> ApiKeyRecord list" where
  "update_key i f [] = []"
| "update_key i f (k # ks) = (if ak_id k = i then f k # ks else k # update_key i f ks)"

definition find_key :: "string \<Rightarrow> ApiKeyRecord list \<Rightarrow> ApiKeyRecord option" where
  "find_key i ks = List.find (\<lambda>k. ak_id k = i) ks"

definition revoke_key :: "string \<Rightarrow> string \<Rightarrow> millis \<Rightarrow> ApiKeyRecord list \<Rightarrow> revoke_result \<times> ApiKeyRecord list" where
  "revoke_key i userId now ks = (case find_key i ks of
       None \<Rightarrow> (RevokeNotFound, ks)
     | Some k \<Rightarrow> if ak_userId k \<noteq> userId then (RevokeForbidden, ks)
         else (RevokeSuccess, update_key i (\<lambda>k. k\<lparr>ak_revoked := True, ak_revokedAt := Some now\<rparr>) ks))"

definition getSha256Hash :: "string \<Rightarrow> ApiKeyRecord list \<Rightarrow> string option" where
  "getSha256Hash i ks = map_option ak_sha256Hash (find_key i ks)"

fun filter_result :: "('a \<Rightarrow> bool result) \<Rightarrow> 'a list \<Rightarrow> 'a list result" where
  "filter_result p [] = Inr []"
| "filter_result p (x # xs) = (case p x of Inl e \<Rightarrow> Inl e
     | Inr b \<Rightarrow> (case filter_result p xs of Inl e \<Rightarrow> Inl e | Inr ys \<Rightarrow> Inr (if b then x # ys else ys)))"

definition redact :: "ApiKeyRecord \<Rightarrow> ApiKeyRecord" where
  "redact k = k\<lparr>ak_keyHash := ''[REDACTED]''\<rparr>"

definition verify_key :: "crypto \<Rightarrow> string \<Rightarrow> ApiKeyRecord list \<Rightarrow> ApiKeyRecord option result" where
  "verify_key c key ks =
    (case filter_result (\<lambda>k. constantTimeCompare (ak_prefix k) (take 16 key)) ks of
       Inl e \<Rightarrow> Inl e
     | Inr candidates \<Rightarrow>
        if candidates = [] then Inr None
        else (case List.find (\<lambda>k. verifyHash c key (ak_keyHash k)) candidates of
            None \<Rightarrow> Inr None
          | Some k \<Rightarrow> if ak_revoked k then Inr None else Inr (Some (redact k))))"

datatype rotate_error = RotateNotFound | RotateForbidden | RotateRevoked

definition rotate_key :: "crypto \<Rightarrow> string \<Rightarrow> string \<Rightarrow> string \<Rightarrow> string \<Rightarrow> ApiKeyRecord list \<Rightarrow>
    (rotate_error + string \<times> string) \<times> ApiKeyRecord list" where
  "rotate_key c rnd_key salt i userId ks = (case find_key i ks of
       None \<Rightarrow> (Inl RotateNotFound, ks)
     | Some k \<Rightarrow>
        if ak_userId k \<noteq> userId then (Inl RotateForbidden, ks)
        else if ak_revoked k then (Inl RotateRevoked, ks)
        else (let newKey = generatePlainKey rnd_key; newPrefix = take 16 newKey in
          (Inr (newKey, newPrefix),
           update_key i (\<lambda>k. k\<lparr>ak_keyHash := hashSync c salt newKey, ak_prefix := newPrefix\<rparr>) ks)))"

section \<open>The revocation list\<close>

record RevocationEntry =
  re_revokedAt :: millis
  re_expiresAt :: millis

type_synonym revocations = "(string, RevocationEntry) js_map"

definition revoke_token :: "millis \<Rightarrow> string \<Rightarrow> millis option \<Rightarrow> millis \<Rightarrow> revocations \<Rightarrow> revocations" where
  "revoke_token defaultTtl h expiresAt now m =
     map_set h \<lparr>re_revokedAt = now, re_expiresAt =
       (case expiresAt of None \<Rightarrow> now + defaultTtl | Some t \<Rightarrow> if t > 0 then t else now + defaultTtl)\<rparr> m"

definition isRevoked :: "string \<Rightarrow> millis \<Rightarrow> revocations \<Rightarrow> bool \<times> revocations" where
  "isRevoked h now m = (case map_get m h of
       None \<Rightarrow> (False, m)
     | Some e \<Rightarrow> if re_expiresAt e < now then (False, map_delete h m) else (True, m))"

definition reinstate :: "string \<Rightarrow> revocations \<Rightarrow> revocations" where
  "reinstate h m = map_delete h m"

definition revokeAll :: "millis \<Rightarrow> string list \<Rightarrow> millis \<Rightarrow> revocations \<Rightarrow> nat \<times> revocations" where
  "revokeAll defaultTtl hs now m = fold (\<lambda>h (n, m). (n + 1, revoke_token defaultTtl h None now m)) hs (0, m)"

definition cleanupExpired :: "millis \<Rightarrow> revocations \<Rightarrow> revocations" where
  "cleanupExpired now m = filter (\<lambda>x. \<not> re_expiresAt (snd x) < now) m"

definition getRevokedCount :: "millis \<Rightarrow> revocations \<Rightarrow> nat \<times> revocations" where
  "getRevokedCount now m = (let m1 = cleanupExpired now m in (length m1, m1))"

text \<open>\<open>DELETE /keys/:id\<close> for an authenticated user.\<close>

definition delete_key_route :: "millis \<Rightarrow> string \<Rightarrow> string \<Rightarrow> millis \<Rightarrow> ApiKeyRecord list \<times> revocations \<Rightarrow>
    unit result \<times> ApiKeyRecord list \<times> revocations" where
  "delete_key_route ttl i userId now s = (case s of (ks, m) \<Rightarrow>
    (let hash = getSha256Hash i ks in
     case revoke_key i userId now ks of
       (RevokeNotFound, ks1) \<Rightarrow> (Inl (NotFoundError ''API key not found'' ''API_KEY_NOT_FOUND''), ks1, m)
     | (RevokeForbidden, ks1) \<Rightarrow> (Inl (ForbiddenError ''Forbidden: API key does not belong to authenticated developer''
           ''API_KEY_FORBIDDEN''), ks1, m)
     | (RevokeSuccess, ks1) \<Rightarrow> (Inr (), ks1,
         (case hash of None \<Rightarrow> m | Some h \<Rightarrow> if h = [] then m else revoke_token ttl h None now m))))"

section \<open>Gateway authentication\<close>

record GatewayApiKeyRecord =
  gk_id :: string
  gk_userId :: string
  gk_apiId :: string
  gk_prefix :: string
  gk_keyHash :: string
  gk_revoked :: bool
  gk_scopes :: "string list option"
  gk_rateLimitPerMinute :: "int option"
  gk_tier :: "string option"
  gk_expiresAt :: "millis option"

text \<open>A vault that is \<open>undefined\<close> is \<open>None\<close>, a null vault is \<open>Some None\<close>.\<close>

record ('u, 'v) GatewayAuthCandidate =
  apiKeyRecord :: GatewayApiKeyRecord
  cand_user :: "'u option"
  cand_vault :: "'v option option"

definition bearer_token :: "string \<Rightarrow> string option" where
  "bearer_token a = (if toLowerCase (take 6 a) = ''bearer'' \<and> length a > 6 \<and> is_space (a ! 6) \<and> trim (drop 7 a) \<noteq> []
     then Some (trim (drop 7 a)) else None)"

definition extractApiKey :: "(string \<Rightarrow> string option) \<Rightarrow> string + string" where
  "extractApiKey header = (case header ''x-api-key'' of
       Some k \<Rightarrow> if trim k \<noteq> [] then Inr (trim k) else
         (case header ''authorization'' of None \<Rightarrow> Inl ''Unauthorized: missing API key''
          | Some a \<Rightarrow> if a = [] then Inl ''Unauthorized: missing API key'' else
              (case bearer_token a of Some t \<Rightarrow> Inr t | None \<Rightarrow> Inl ''Unauthorized: malformed Authorization header''))
     | None \<Rightarrow>
         (case header ''authorization'' of None \<Rightarrow> Inl ''Unauthorized: missing API key''
          | Some a \<Rightarrow> if a = [] then Inl ''Unauthorized: missing API key'' else
              (case bearer_token a of Some t \<Rightarrow> Inr t | None \<Rightarrow> Inl ''Unauthorized: malformed Authorization header'')))"

definition matchesStoredHash :: "crypto \<Rightarrow> string \<Rightarrow> string \<Rightarrow> bool" where
  "matchesStoredHash c key storedHash =
    (let candidates = [sha256Hex c key, sha256Base64 c key] @
       (if length storedHash \<noteq> 64 then [legacyBase64 c key] else []) in
     list_ex (\<lambda>x. timingSafeStringEqual x storedHash) candidates)"

record ('u, 'v, 'a, 'e) auth_context =
  apiKeyValue :: string
  auth_record :: GatewayApiKeyRecord
  auth_user :: 'u
  auth_vault :: "'v option"
  auth_api :: 'a
  auth_endpoint :: 'e
  apiKeyTier :: "string option"

definition scope_ok :: "string option \<Rightarrow> GatewayApiKeyRecord \<Rightarrow> bool" where
  "scope_ok required r = (case required of None \<Rightarrow> True
     | Some q \<Rightarrow> q = [] \<or>
        (let keyScopes = (case gk_scopes r of None \<Rightarrow> [] | Some xs \<Rightarrow> xs);
             effective = (if keyScopes = [] then [''read''] else keyScopes) in
         ''*'' \<in> set effective \<or> q \<in> set effective))"

definition gatewayApiKeyAuth :: "crypto \<Rightarrow> ('a \<times> 'e) option \<Rightarrow> ('a \<Rightarrow> string) \<Rightarrow>
    (string \<Rightarrow> ('u, 'v) GatewayAuthCandidate list) \<Rightarrow> string option \<Rightarrow> millis \<Rightarrow> (string \<Rightarrow> string option) \<Rightarrow>
    ('u, 'v, 'a, 'e) auth_context result" where
  "gatewayApiKeyAuth c context getApiId getCandidates required now header =
    (case extractApiKey header of
       Inl msg \<Rightarrow> Inl (UnauthorizedError msg ''UNAUTHORIZED'')
     | Inr key \<Rightarrow> (case context of
         None \<Rightarrow> Inl (NotFoundError ''Not Found: unknown API'' ''NOT_FOUND'')
       | Some (api, endpoint) \<Rightarrow>
          (let candidates = getCandidates (take 16 key) in
           if candidates = [] then Inl (UnauthorizedError ''Unauthorized: API key not found'' ''UNAUTHORIZED'')
           else (case List.find (\<lambda>d. matchesStoredHash c key (gk_keyHash (apiKeyRecord d))) candidates of
               None \<Rightarrow> Inl (UnauthorizedError ''Unauthorized: invalid API key'' ''UNAUTHORIZED'')
             | Some d \<Rightarrow> (let r = apiKeyRecord d in
                 if gk_revoked r then Inl (ForbiddenError ''Unauthorized: API key has been revoked'' ''FORBIDDEN'')
                 else if (case gk_expiresAt r of None \<Rightarrow> False | Some t \<Rightarrow> t < now)
                 then Inl (UnauthorizedError ''Unauthorized: API key has expired'' ''UNAUTHORIZED'')
                 else (case (cand_user d, cand_vault d) of
                     (Some u, Some v) \<Rightarrow>
                       if gk_apiId r \<noteq> getApiId api
                       then Inl (UnauthorizedError ''Unauthorized: API key does not grant access to this API'' ''UNAUTHORIZED'')
                       else if \<not> scope_ok required r
                       then Inl (ForbiddenError ''Forbidden: API key lacks required scope'' ''FORBIDDEN'')
                       else Inr \<lparr>apiKeyValue = key, auth_record = r, auth_user = u, auth_vault = v,
                              auth_api = api, auth_endpoint = endpoint, apiKeyTier = gk_tier r\<rparr>
                   | _ \<Rightarrow> Inl (UnauthorizedError ''Unauthorized: API key context is incomplete'' ''UNAUTHORIZED'')))))))"

record InMemoryGatewayApiKey =
  mk_key :: string
  mk_developerId :: string
  mk_apiId :: string
  mk_revoked :: "bool option"
  mk_scopes :: "string list option"
  mk_tier :: "string option"

definition map_candidate :: "crypto \<Rightarrow> string \<times> InMemoryGatewayApiKey \<Rightarrow> (string, unit) GatewayAuthCandidate" where
  "map_candidate c x = (case x of (rawKey, r) \<Rightarrow>
     \<lparr>apiKeyRecord = \<lparr>gk_id = mk_key r, gk_userId = mk_developerId r, gk_apiId = mk_apiId r,
        gk_prefix = take 16 rawKey, gk_keyHash = sha256Hex c rawKey,
        gk_revoked = (case mk_revoked r of None \<Rightarrow> False | Some b \<Rightarrow> b), gk_scopes = mk_scopes r,
        gk_rateLimitPerMinute = None, gk_tier = mk_tier r, gk_expiresAt = None\<rparr>,
      cand_user = Some (mk_developerId r), cand_vault = Some None\<rparr>)"

definition map_candidates :: "crypto \<Rightarrow> (string, InMemoryGatewayApiKey) js_map \<Rightarrow> string \<Rightarrow>
    (string, unit) GatewayAuthCandidate list" where
  "map_candidates c keys prefix' = map (map_candidate c) (filter (\<lambda>x. prefix prefix' (fst x)) keys)"

record api_key_row =
  kr_id :: nat
  kr_user :: nat
  kr_api :: nat
  kr_prefix :: string
  kr_hash :: string
  kr_revoked :: "bool option"
  kr_scopes :: "string list option"
  kr_rate :: "int option"
  kr_tier :: "string option"

record 'v vault_row =
  vr_id :: nat
  vr_user :: nat
  vr_network :: string
  vr_data :: 'v

record ('u, 'v) auth_tables =
  api_keys :: "api_key_row list"
  users :: "(nat, 'u) js_map"
  vaults :: "'v vault_row list"

definition vault_of :: "string option \<Rightarrow> nat \<Rightarrow> 'v vault_row list \<Rightarrow> 'v option" where
  "vault_of network u vs =
    (case sort_key vr_id (filter (\<lambda>v. vr_user v = u \<and> (case network of None \<Rightarrow> True | Some n \<Rightarrow> vr_network v = n)) vs) of
       [] \<Rightarrow> None | v # _ \<Rightarrow> Some (vr_data v))"

definition db_candidate :: "string option \<Rightarrow> 'v vault_row list \<Rightarrow> api_key_row \<Rightarrow> 'u \<Rightarrow> ('u, 'v) GatewayAuthCandidate" where
  "db_candidate network vs k u =
    \<lparr>apiKeyRecord = \<lparr>gk_id = show_nat (kr_id k), gk_userId = show_nat (kr_user k), gk_apiId = show_nat (kr_api k),
       gk_prefix = kr_prefix k, gk_keyHash = kr_hash k,
       gk_revoked = (case kr_revoked k of None \<Rightarrow> False | Some b \<Rightarrow> b),
       gk_scopes = Some (case kr_scopes k of None \<Rightarrow> [] | Some xs \<Rightarrow> xs),
       gk_rateLimitPerMinute = kr_rate k, gk_tier = kr_tier k, gk_expiresAt = None\<rparr>,
     cand_user = Some u, cand_vault = Some (vault_of network (kr_user k) vs)\<rparr>"

definition db_candidates :: "string option \<Rightarrow> ('u, 'v) auth_tables \<Rightarrow> string \<Rightarrow> ('u, 'v) GatewayAuthCandidate list" where
  "db_candidates network t prefix' =
    concat (map (\<lambda>k. case map_get (users t) (kr_user k) of None \<Rightarrow> []
      | Some u \<Rightarrow> [db_candidate network (vaults t) k u]) (filter (\<lambda>k. kr_prefix k = prefix') (api_keys t)))"

section \<open>Byte strings: lemmas\<close>

lemma timingSafeStringEqual_iff [simp]: "timingSafeStringEqual a b \<longleftrightarrow> a = b"
  by (auto simp: timingSafeStringEqual_def dest: utf8_inj)

lemma compare_ascii: "ascii a \<Longrightarrow> ascii b \<Longrightarrow> constantTimeCompare a b = Inr (a = b)"
  by (simp add: constantTimeCompare_def) (metis length_map utf8_ascii utf8_inj)

lemma ascii_take: "ascii s \<Longrightarrow> ascii (take n s)"
  by (auto simp: ascii_def list_all_iff dest: in_set_takeD)

lemma filter_result_ok: "\<forall>x \<in> set xs. p x = Inr (q x) \<Longrightarrow> filter_result p xs = Inr (filter q xs)"
  by (induction xs) auto

section \<open>Key sources\<close>

text \<open>What the middleware relies on when it asks for the keys of a prefix: candidates are stored
  keys, every stored key of the prefix is among them, and the context of a candidate is complete.\<close>

locale key_source =
  fixes candidates :: "string \<Rightarrow> ('u, 'v) GatewayAuthCandidate list"
    and stored :: "('u, 'v) GatewayAuthCandidate set"
  assumes sound: "d \<in> set (candidates p) \<Longrightarrow> d \<in> stored"
    and complete: "d \<in> stored \<Longrightarrow> gk_prefix (apiKeyRecord d) = p \<Longrightarrow> d \<in> set (candidates p)"
    and context_complete: "d \<in> stored \<Longrightarrow> cand_user d \<noteq> None \<and> cand_vault d \<noteq> None"
    and no_expiry: "d \<in> stored \<Longrightarrow> gk_expiresAt (apiKeyRecord d) = None"
begin

lemma accepted:
  assumes "gatewayApiKeyAuth c ctx getApiId candidates required now header = Inr a"
  shows "\<exists>d \<in> stored. auth_record a = apiKeyRecord d \<and> matchesStoredHash c (apiKeyValue a) (gk_keyHash (auth_record a)) \<and>
    \<not> gk_revoked (auth_record a) \<and> gk_apiId (auth_record a) = getApiId (auth_api a) \<and> scope_ok required (auth_record a) \<and>
    extractApiKey header = Inr (apiKeyValue a) \<and> ctx = Some (auth_api a, auth_endpoint a)"
  using assms
  by (auto simp: gatewayApiKeyAuth_def Let_def find_Some_iff
      split: sum.splits option.splits prod.splits if_splits intro!: bexI [of _ "_ ! _"] sound [OF nth_mem])

lemma rejected_when_revoked:
  assumes "extractApiKey header = Inr key" and "\<forall>d \<in> stored. matchesStoredHash c key (gk_keyHash (apiKeyRecord d)) \<longrightarrow> gk_revoked (apiKeyRecord d)"
  shows "\<exists>e. gatewayApiKeyAuth c ctx getApiId candidates required now header = Inl e"
proof (cases "gatewayApiKeyAuth c ctx getApiId candidates required now header")
  case (Inr a)
  from accepted [OF this] assms show ?thesis by auto
qed simp

end

interpretation map_source: key_source "map_candidates c keys" "map_candidate c ` set keys"
proof
  fix d :: "(string, unit) GatewayAuthCandidate" and p
  show "d \<in> set (map_candidates c keys p) \<Longrightarrow> d \<in> map_candidate c ` set keys"
    by (auto simp: map_candidates_def)
  show "d \<in> map_candidate c ` set keys \<Longrightarrow> gk_prefix (apiKeyRecord d) = p \<Longrightarrow> d \<in> set (map_candidates c keys p)"
    by (auto simp: map_candidates_def map_candidate_def take_is_prefix intro!: image_eqI)
qed (auto simp: map_candidate_def)

definition db_stored :: "string option \<Rightarrow> ('u, 'v) auth_tables \<Rightarrow> ('u, 'v) GatewayAuthCandidate set" where
  "db_stored network t = {db_candidate network (vaults t) k u | k u. k \<in> set (api_keys t) \<and> map_get (users t) (kr_user k) = Some u}"

lemma db_candidates_set: "set (db_candidates network t p) = {db_candidate network (vaults t) k u | k u.
    k \<in> set (api_keys t) \<and> map_get (users t) (kr_user k) = Some u \<and> kr_prefix k = p}"
  by (force simp: db_candidates_def split: option.splits)

lemma db_candidate_simps [simp]: "gk_prefix (apiKeyRecord (db_candidate network vs k u)) = kr_prefix k"
  "gk_expiresAt (apiKeyRecord (db_candidate network vs k u)) = None"
  "cand_user (db_candidate network vs k u) = Some u"
  "cand_vault (db_candidate network vs k u) = Some (vault_of network (kr_user k) vs)"
  by (simp_all add: db_candidate_def)

interpretation db_source: key_source "db_candidates network t" "db_stored network t"
proof
  fix d and p
  show "d \<in> db_stored network t \<Longrightarrow> gk_prefix (apiKeyRecord d) = p \<Longrightarrow> d \<in> set (db_candidates network t p)"
    unfolding db_candidates_set db_stored_def by (clarsimp) blast
qed (auto simp: db_candidates_set db_stored_def)

text \<open>What is known of SHA-256: the presented key collides with no stored key, and the lengths of
  the two encodings.\<close>

definition sha256_ok :: "crypto \<Rightarrow> string set \<Rightarrow> string \<Rightarrow> bool" where
  "sha256_ok c stored key \<longleftrightarrow> (\<forall>raw \<in> stored. sha256Hex c raw = sha256Hex c key \<longrightarrow> raw = key) \<and>
     (\<forall>k. length (sha256Hex c k) = 64) \<and> (\<forall>k. length (sha256Base64 c k) = 44)"

lemma matches_hex: "sha256_ok c stored key \<Longrightarrow> raw \<in> stored \<Longrightarrow> matchesStoredHash c key (sha256Hex c raw) \<longleftrightarrow> raw = key"
proof -
  assume ok: "sha256_ok c stored key" and raw: "raw \<in> stored"
  then have "length (sha256Base64 c key) \<noteq> length (sha256Hex c raw)" by (simp add: sha256_ok_def)
  then have "sha256Base64 c key \<noteq> sha256Hex c raw" by metis
  with ok raw show ?thesis by (auto simp: matchesStoredHash_def sha256_ok_def)
qed

lemma find_map_key:
  assumes "wf_map keys" and "prefix p key"
  shows "List.find (\<lambda>x. fst x = key) (filter (\<lambda>x. prefix p (fst x)) keys) = map_option (Pair key) (map_get keys key)"
  using assms by (induction keys) (auto simp: map_of_eq_None_iff [symmetric])

lemma find_map: "List.find P (map f xs) = map_option f (List.find (P \<circ> f) xs)"
  by (induction xs) auto

section \<open>Runs of the key repository\<close>

text \<open>\<open>key_run c ks plain\<close>: the keys \<open>ks\<close> are reachable and \<open>plain i\<close> is the current secret of key
  \<open>i\<close>. Ids and random bytes are drawn fresh: 24 random bytes are 48 hex digits.\<close>

definition fresh_secret :: "ApiKeyRecord list \<Rightarrow> (string \<Rightarrow> string) \<Rightarrow> string \<Rightarrow> bool" where
  "fresh_secret ks plain hex \<longleftrightarrow> ascii hex \<and> length hex = 48 \<and> (\<forall>k \<in> set ks. plain (ak_id k) \<noteq> generatePlainKey hex)"

inductive key_run :: "crypto \<Rightarrow> ApiKeyRecord list \<Rightarrow> (string \<Rightarrow> string) \<Rightarrow> bool" for c where
  run_empty: "key_run c [] plain"
| run_create: "key_run c ks plain \<Longrightarrow> fresh_secret ks plain hex \<Longrightarrow> i \<notin> ak_id ` set ks \<Longrightarrow>
    key_run c (snd (create_key c hex i salt now p ks)) (plain(i := generatePlainKey hex))"
| run_revoke: "key_run c ks plain \<Longrightarrow> key_run c (snd (revoke_key i u now ks)) plain"
| run_rotate: "key_run c ks plain \<Longrightarrow> fresh_secret ks plain hex \<Longrightarrow> rotate_key c hex salt i u ks = (Inr r, ks') \<Longrightarrow>
    key_run c ks' (plain(i := generatePlainKey hex))"

text \<open>What is known of bcrypt, which reads at most 72 bytes.\<close>

definition bcrypt_ok :: "crypto \<Rightarrow> bool" where
  "bcrypt_ok c \<longleftrightarrow> (\<forall>salt v w. length (utf8 v) \<le> 72 \<and> length (utf8 w) \<le> 72 \<longrightarrow>
     compareSync c v (hashSync c salt w) = Some (v = w))"

definition secret_ok :: "crypto \<Rightarrow> (string \<Rightarrow> string) \<Rightarrow> ApiKeyRecord \<Rightarrow> bool" where
  "secret_ok c plain k \<longleftrightarrow> ascii (plain (ak_id k)) \<and> length (plain (ak_id k)) = 56 \<and>
     ak_prefix k = take 16 (plain (ak_id k)) \<and> (\<exists>salt. ak_keyHash k = hashSync c salt (plain (ak_id k)))"

definition keys_inv :: "crypto \<Rightarrow> (string \<Rightarrow> string) \<Rightarrow> ApiKeyRecord list \<Rightarrow> bool" where
  "keys_inv c plain ks \<longleftrightarrow> distinct (map ak_id ks) \<and> inj_on plain (ak_id ` set ks) \<and> (\<forall>k \<in> set ks. secret_ok c plain k)"

lemma update_key_ids: "\<forall>k. ak_id (f k) = ak_id k \<Longrightarrow> map ak_id (update_key i f ks) = map ak_id ks"
  by (induction ks) auto

lemma update_key_set: "distinct (map ak_id ks) \<Longrightarrow>
    set (update_key i f ks) = {if ak_id k = i then f k else k | k. k \<in> set ks}"
  by (induction ks) (auto simp: image_iff, metis+)

lemma plain_fresh_ascii: "fresh_secret ks plain hex \<Longrightarrow> ascii (generatePlainKey hex) \<and> length (generatePlainKey hex) = 56"
  by (auto simp: fresh_secret_def generatePlainKey_def ascii_def)

lemma keys_inv_create:
  assumes "keys_inv c plain ks" and "fresh_secret ks plain hex" and "i \<notin> ak_id ` set ks"
  shows "keys_inv c (plain(i := generatePlainKey hex)) (snd (create_key c hex i salt now p ks))"
proof -
  have "ak_id k \<noteq> i" if "k \<in> set ks" for k using assms(3) that by auto
  with assms plain_fresh_ascii [OF assms(2)] show ?thesis
    by (auto simp: keys_inv_def create_key_def Let_def secret_ok_def inj_on_def fresh_secret_def)
qed

lemma keys_inv_revoke: "keys_inv c plain ks \<Longrightarrow> keys_inv c plain (snd (revoke_key i u now ks))"
proof -
  assume inv: "keys_inv c plain ks"
  let ?f = "\<lambda>k. k\<lparr>ak_revoked := True, ak_revokedAt := Some now\<rparr>"
  have "map ak_id (update_key i ?f ks) = map ak_id ks" by (simp add: update_key_ids)
  moreover from this have "ak_id ` set (update_key i ?f ks) = ak_id ` set ks" by (metis set_map)
  moreover have "\<forall>k \<in> set (update_key i ?f ks). secret_ok c plain k"
  proof -
    have "secret_ok c plain (?f k) = secret_ok c plain k" for k by (simp add: secret_ok_def)
    with inv show ?thesis by (auto simp only: keys_inv_def update_key_set mem_Collect_eq split: if_split)
  qed
  ultimately have "keys_inv c plain (update_key i ?f ks)" using inv by (simp add: keys_inv_def)
  with inv show ?thesis by (simp add: revoke_key_def split: option.split)
qed

lemma keys_inv_rotate:
  assumes inv: "keys_inv c plain ks" and "fresh_secret ks plain hex" and "rotate_key c hex salt i u ks = (Inr r, ks')"
  shows "keys_inv c (plain(i := generatePlainKey hex)) ks'"
proof -
  let ?f = "\<lambda>k. k\<lparr>ak_keyHash := hashSync c salt (generatePlainKey hex), ak_prefix := take 16 (generatePlainKey hex)\<rparr>"
  have ks': "ks' = update_key i ?f ks"
    using assms(3) by (auto simp: rotate_key_def Let_def split: option.splits if_splits)
  have "map ak_id ks' = map ak_id ks" by (simp add: ks' update_key_ids)
  moreover from this have "ak_id ` set ks' = ak_id ` set ks" by (metis set_map)
  moreover have "inj_on (plain(i := generatePlainKey hex)) (ak_id ` set ks)"
    using inv assms(2) by (fastforce simp: keys_inv_def inj_on_def fresh_secret_def)
  moreover have "secret_ok c (plain(i := generatePlainKey hex)) k" if "k \<in> set ks'" for k
    using that inv plain_fresh_ascii [OF assms(2)] by (auto simp: ks' keys_inv_def update_key_set secret_ok_def)
  ultimately show ?thesis using inv by (simp add: keys_inv_def)
qed

lemma key_run_inv: "key_run c ks plain \<Longrightarrow> keys_inv c plain ks"
proof (induction rule: key_run.induct)
  case run_empty
  show ?case by (simp add: keys_inv_def)
qed (blast intro: keys_inv_create keys_inv_revoke keys_inv_rotate)+

lemma verify_inv:
  assumes "keys_inv c plain ks" and "bcrypt_ok c" and "ascii key" and "length key \<le> 72"
  shows "verify_key c key ks =
    Inr (case List.find (\<lambda>k. plain (ak_id k) = key) ks of None \<Rightarrow> None
         | Some k \<Rightarrow> if ak_revoked k then None else Some (redact k))"
proof -
  let ?p = "take 16 key"
  have len: "length (utf8 s) = length s" if "ascii s" for s using utf8_ascii [OF that] by simp
  have "\<forall>k \<in> set ks. constantTimeCompare (ak_prefix k) ?p = Inr (ak_prefix k = ?p)"
    using assms(1,3) by (auto simp: keys_inv_def secret_ok_def intro!: compare_ascii ascii_take)
  then have f: "filter_result (\<lambda>k. constantTimeCompare (ak_prefix k) ?p) ks = Inr (filter (\<lambda>k. ak_prefix k = ?p) ks)"
    by (rule filter_result_ok)
  have v: "verifyHash c key (ak_keyHash k) = (plain (ak_id k) = key)" if "k \<in> set ks" for k
  proof -
    from that assms(1) obtain salt where "ak_keyHash k = hashSync c salt (plain (ak_id k))"
      "ascii (plain (ak_id k))" "length (plain (ak_id k)) = 56"
      by (auto simp: keys_inv_def secret_ok_def)
    with assms(2-4) show ?thesis by (auto simp: verifyHash_def bcrypt_ok_def len)
  qed
  have "List.find (\<lambda>k. verifyHash c key (ak_keyHash k)) (filter (\<lambda>k. ak_prefix k = ?p) xs) =
      List.find (\<lambda>k. plain (ak_id k) = key) xs" if "set xs \<subseteq> set ks" for xs
    using that assms(1)
  proof (induction xs)
    case (Cons x xs)
    then have "ak_prefix x = take 16 (plain (ak_id x))" by (auto simp: keys_inv_def secret_ok_def)
    with Cons v [of x] show ?case by auto
  qed simp
  from this [of ks] have e: "List.find (\<lambda>k. verifyHash c key (ak_keyHash k)) (filter (\<lambda>k. ak_prefix k = ?p) ks) =
      List.find (\<lambda>k. plain (ak_id k) = key) ks" by simp
  show ?thesis
    by (simp only: verify_key_def f e sum.case)
      (use e in \<open>auto split: option.split\<close>)
qed

section \<open>Properties\<close>

text \<open>C6. A secret opens exactly the key it currently belongs to: in every reachable state of the
  key repository, verifying an ASCII secret of at most 72 bytes returns, with its hash redacted,
  the one key whose current secret it is, if that key is not revoked, and nothing otherwise. So a
  created key verifies, a rotated key verifies with its new secret only, a revoked key never does.\<close>

theorem verify_exact:
  assumes "key_run c ks plain" and "bcrypt_ok c" and "ascii key" and "length key \<le> 72"
  shows "verify_key c key ks =
      Inr (case List.find (\<lambda>k. plain (ak_id k) = key) ks of None \<Rightarrow> None
           | Some k \<Rightarrow> if ak_revoked k then None else Some (redact k)) \<and>
    (\<forall>k \<in> set ks. \<forall>k' \<in> set ks. plain (ak_id k) = key \<and> plain (ak_id k') = key \<longrightarrow> k = k')"
proof -
  note inv = key_run_inv [OF assms(1)]
  have "\<forall>k \<in> set ks. \<forall>k' \<in> set ks. plain (ak_id k) = key \<and> plain (ak_id k') = key \<longrightarrow> k = k'"
    using inv by (auto simp: keys_inv_def inj_on_def distinct_map)
  with verify_inv [OF inv assms(2-4)] show ?thesis by simp
qed

definition demo_crypto :: crypto where
  "demo_crypto = \<lparr>sha256Hex = (\<lambda>k. k), sha256Base64 = (\<lambda>k. k), legacyBase64 = (\<lambda>k. k),
     hashSync = (\<lambda>salt v. v), compareSync = (\<lambda>v h. Some (v = h))\<rparr>"

definition demo_hex :: string where
  "demo_hex = replicate 48 (CHR ''a'')"

definition demo_params :: key_params where
  "demo_params = \<lparr>p_apiId = ''api'', p_userId = ''u'', p_scopes = [], p_rateLimitPerMinute = None\<rparr>"

theorem verify_exact_witness:
  "verify_key demo_crypto (generatePlainKey demo_hex) (snd (create_key demo_crypto demo_hex ''k1'' ''s'' 7 demo_params [])) =
    Inr (Some (redact (hd (snd (create_key demo_crypto demo_hex ''k1'' ''s'' 7 demo_params [])))))"
proof -
  have hex: "ascii demo_hex" "length demo_hex = 48" by (simp_all add: demo_hex_def ascii_def list_all_iff)
  have run: "key_run demo_crypto (snd (create_key demo_crypto demo_hex ''k1'' ''s'' 7 demo_params []))
      ((\<lambda>_. [])(''k1'' := generatePlainKey demo_hex))"
    by (rule run_create [OF run_empty]) (simp_all add: fresh_secret_def hex)
  have "bcrypt_ok demo_crypto" by (auto simp: bcrypt_ok_def demo_crypto_def)
  moreover have "ascii (generatePlainKey demo_hex)" "length (generatePlainKey demo_hex) \<le> 72"
    using hex by (simp_all add: generatePlainKey_def ascii_def)
  ultimately show ?thesis
    using verify_exact [OF run] by (auto simp: create_key_def Let_def)
qed

text \<open>The map-backed gateway authentication is exact: for a request that carries a key and names
  a known API, the answer is decided by the entry of that very key: none is unauthorized, a revoked
  one is forbidden, one for another API is unauthorized, one without the required scope is
  forbidden, and every other one is accepted with the entry's developer, scopes and tier.\<close>

theorem gateway_auth_exact:
  assumes "sha256_ok c (fst ` set keys) key" and "wf_map keys" and "extractApiKey header = Inr key"
  shows "gatewayApiKeyAuth c (Some (api, endpoint)) getApiId (map_candidates c keys) required now header =
    (case map_get keys key of
       None \<Rightarrow> Inl (UnauthorizedError (if \<exists>x \<in> set keys. prefix (take 16 key) (fst x)
           then ''Unauthorized: invalid API key'' else ''Unauthorized: API key not found'') ''UNAUTHORIZED'')
     | Some r \<Rightarrow> (let g = apiKeyRecord (map_candidate c (key, r)) in
         if mk_revoked r = Some True then Inl (ForbiddenError ''Unauthorized: API key has been revoked'' ''FORBIDDEN'')
         else if mk_apiId r \<noteq> getApiId api
         then Inl (UnauthorizedError ''Unauthorized: API key does not grant access to this API'' ''UNAUTHORIZED'')
         else if \<not> scope_ok required g then Inl (ForbiddenError ''Forbidden: API key lacks required scope'' ''FORBIDDEN'')
         else Inr \<lparr>apiKeyValue = key, auth_record = g, auth_user = mk_developerId r, auth_vault = None,
                auth_api = api, auth_endpoint = endpoint, apiKeyTier = mk_tier r\<rparr>))"
proof -
  let ?fs = "filter (\<lambda>x. prefix (take 16 key) (fst x)) keys"
  have m: "((\<lambda>d. matchesStoredHash c key (gk_keyHash (apiKeyRecord d))) \<circ> map_candidate c) x = (fst x = key)" if "x \<in> set ?fs" for x
  proof -
    obtain raw r where x: "x = (raw, r)" by fastforce
    with that have "raw \<in> fst ` set keys" by force
    from matches_hex [OF assms(1) this] x show ?thesis by (simp add: map_candidate_def)
  qed
  have g: "List.find ((\<lambda>d. matchesStoredHash c key (gk_keyHash (apiKeyRecord d))) \<circ> map_candidate c) ?fs =
      List.find (\<lambda>x. fst x = key) ?fs" by (rule find_cong [OF refl m])
  have f: "List.find (\<lambda>d. matchesStoredHash c key (gk_keyHash (apiKeyRecord d))) (map_candidates c keys (take 16 key)) =
      map_option (\<lambda>r. map_candidate c (key, r)) (map_get keys key)"
    by (simp only: map_candidates_def find_map g find_map_key [OF assms(2) take_is_prefix] option.map_comp)
      (simp add: comp_def)
  have e: "map_candidates c keys (take 16 key) = [] \<longleftrightarrow> \<not> (\<exists>x \<in> set keys. prefix (take 16 key) (fst x))"
    by (auto simp: map_candidates_def filter_empty_conv)
  show ?thesis
  proof (cases "map_get keys key")
    case None
    then show ?thesis using f e by (auto simp: gatewayApiKeyAuth_def assms(3) Let_def)
  next
    case (Some r)
    then have "(key, r) \<in> set keys" by (rule map_get_in_set)
    then have "map_candidates c keys (take 16 key) \<noteq> []" using e take_is_prefix by fastforce
    with Some f show ?thesis
      by (auto simp: gatewayApiKeyAuth_def assms(3) Let_def map_candidate_def split: option.split)
  qed
qed

definition fixed_crypto :: crypto where
  "fixed_crypto = \<lparr>sha256Hex = (\<lambda>k. take 64 (k @ replicate 64 (CHR ''0''))),
     sha256Base64 = (\<lambda>k. replicate 44 (CHR ''A'')), legacyBase64 = (\<lambda>k. k),
     hashSync = (\<lambda>salt v. v), compareSync = (\<lambda>v h. Some (v = h))\<rparr>"

definition demo_key :: InMemoryGatewayApiKey where
  "demo_key = \<lparr>mk_key = ''k1'', mk_developerId = ''dev'', mk_apiId = ''api'', mk_revoked = None, mk_scopes = None, mk_tier = None\<rparr>"

theorem gateway_auth_exact_witness:
  "\<exists>a. gatewayApiKeyAuth fixed_crypto (Some (''api'', ())) id (map_candidates fixed_crypto [(''secret'', demo_key)]) None 5
      ((\<lambda>_. None)(''x-api-key'' := Some ''secret'')) = Inr a \<and> auth_user a = ''dev''"
proof -
  have "sha256_ok fixed_crypto (fst ` set [(''secret'', demo_key)]) ''secret''"
    by (auto simp: sha256_ok_def fixed_crypto_def)
  moreover have "extractApiKey ((\<lambda>_. None)(''x-api-key'' := Some ''secret'')) = Inr ''secret''"
    by (simp add: extractApiKey_def trim_def is_space_def)
  ultimately show ?thesis
    using gateway_auth_exact [of fixed_crypto "[(''secret'', demo_key)]" "''secret''"
      "(\<lambda>_. None)(''x-api-key'' := Some ''secret'')" "''api''" "()" id None 5]
    by (simp add: demo_key_def scope_ok_def Let_def)
qed

text \<open>Deleting a rotated key does not block its secret: rotation keeps the SHA-256 hash of the
  first secret, so the delete route puts that stale hash on the revocation list; the hash of the
  secret in use is not on it unless it was before.\<close>

theorem rotated_key_escapes_revocation:
  assumes "find_key i ks = Some k" and "ak_userId k = u" and "\<not> ak_revoked k" and "ak_sha256Hash k \<noteq> []"
    and "ak_sha256Hash k \<noteq> sha256Hex c (generatePlainKey hex)" and "0 \<le> ttl"
  shows "let ks1 = snd (rotate_key c hex salt i u ks); s2 = delete_key_route ttl i u now (ks1, m); m2 = snd (snd s2) in
    fst (rotate_key c hex salt i u ks) = Inr (generatePlainKey hex, take 16 (generatePlainKey hex)) \<and>
    fst s2 = Inr () \<and> fst (isRevoked (ak_sha256Hash k) now m2) \<and>
    fst (isRevoked (sha256Hex c (generatePlainKey hex)) now m2) = fst (isRevoked (sha256Hex c (generatePlainKey hex)) now m)"
proof -
  let ?f = "\<lambda>k. k\<lparr>ak_keyHash := hashSync c salt (generatePlainKey hex), ak_prefix := take 16 (generatePlainKey hex)\<rparr>"
  have rot: "rotate_key c hex salt i u ks = (Inr (generatePlainKey hex, take 16 (generatePlainKey hex)), update_key i ?f ks)"
    using assms(1-3) by (simp add: rotate_key_def Let_def)
  have "find_key i (update_key i f ks) = map_option f (find_key i ks)" if "\<forall>k. ak_id (f k) = ak_id k" for f
    using that by (induction ks) (auto simp: find_key_def)
  then have "find_key i (update_key i ?f ks) = Some (?f k)" by (simp add: assms(1))
  then have "fst (delete_key_route ttl i u now (update_key i ?f ks, m)) = Inr () \<and>
      snd (snd (delete_key_route ttl i u now (update_key i ?f ks, m))) = revoke_token ttl (ak_sha256Hash k) None now m"
    using assms(2,4) by (auto simp: delete_key_route_def revoke_key_def getSha256Hash_def Let_def)
  then show ?thesis
    using assms(5,6) by (simp add: rot Let_def isRevoked_def revoke_token_def jsmap split: option.split)
qed

theorem rotated_key_escapes_revocation_witness:
  "let ks = snd (create_key demo_crypto ''x'' ''k1'' ''s'' 7 demo_params []);
       ks1 = snd (rotate_key demo_crypto ''y'' ''s'' ''k1'' ''u'' ks);
       m2 = snd (snd (delete_key_route 3600000 ''k1'' ''u'' 9 (ks1, []))) in
   fst (isRevoked (generatePlainKey ''x'') 9 m2) \<and> \<not> fst (isRevoked (generatePlainKey ''y'') 9 m2)"
proof -
  let ?ks = "snd (create_key demo_crypto ''x'' ''k1'' ''s'' 7 demo_params [])"
  have f: "find_key ''k1'' ?ks = Some (hd ?ks)" "ak_userId (hd ?ks) = ''u''" "\<not> ak_revoked (hd ?ks)"
    and h: "ak_sha256Hash (hd ?ks) = generatePlainKey ''x''" "sha256Hex demo_crypto = (\<lambda>k. k)"
    by (simp_all add: find_key_def create_key_def Let_def demo_params_def demo_crypto_def)
  have "fst (isRevoked (generatePlainKey ''y'') 9 []) = False" by (simp add: isRevoked_def)
  then show ?thesis
    using rotated_key_escapes_revocation [OF f, of demo_crypto "''y''" 3600000 "''s''" 9 "[]"]
    by (simp add: h Let_def generatePlainKey_def)
qed

definition user_listing :: "(string \<Rightarrow> string \<Rightarrow> int) \<Rightarrow> string \<Rightarrow> ApiKeyRecord list \<Rightarrow> ApiKeyRecord list" where
  "user_listing lc u ks = sort_by (newest_first lc ak_createdAt ak_id) (filter (\<lambda>k. ak_userId k = u) ks)"

definition key_cursor :: "ApiKeyRecord \<Rightarrow> cursor" where
  "key_cursor k = (ak_createdAt k, ak_id k)"

definition key_page :: "(string \<Rightarrow> string \<Rightarrow> int) \<Rightarrow> string \<Rightarrow> nat \<Rightarrow> ApiKeyRecord list \<Rightarrow> cursor option \<Rightarrow>
    ApiKeyRecord list \<times> cursor option" where
  "key_page lc u limit ks c = (case listWithCursor lc u limit c ks of (xs, next, _) \<Rightarrow> (xs, next))"

lemma key_page_eq: "0 < limit \<Longrightarrow> key_page lc u limit ks c = page limit key_cursor
    (case c of None \<Rightarrow> user_listing lc u ks | Some d \<Rightarrow> filter (after_cursor d) (user_listing lc u ks))"
  by (cases c) (auto simp: key_page_def listWithCursor_def user_listing_def page_def key_cursor_def Let_def)

lemma after_cursor_before: "after_cursor (key_cursor y) = before key_cursor y"
  by (auto simp: before_def key_cursor_def after_cursor_def fun_eq_iff)

interpretation key_pages: cursor_pages "key_page lc u limit ks" "user_listing lc u ks" key_cursor limit
  "0 < limit \<and> distinct (map ak_id ks) \<and> locale_ok lc (ak_id ` set ks)"
proof
  assume ok: "0 < limit \<and> distinct (map ak_id ks) \<and> locale_ok lc (ak_id ` set ks)"
  then show "key_page lc u limit ks None = page limit key_cursor (user_listing lc u ks)" "0 < limit"
    by (simp_all add: key_page_eq)
  fix xs y zs
  assume l: "user_listing lc u ks = xs @ y # zs"
  have "locale_ok lc (ak_id ` set (filter (\<lambda>k. ak_userId k = u) ks))" "distinct (map ak_id (filter (\<lambda>k. ak_userId k = u) ks))"
    using ok by (auto simp: locale_ok_def distinct_map_filter)
  then have "sorted_wrt (before key_cursor) (user_listing lc u ks)"
    using sort_by_before unfolding user_listing_def key_cursor_def by blast
  then have "filter (before key_cursor y) (user_listing lc u ks) = zs"
    using filter_before_suffix l by metis
  then show "key_page lc u limit ks (Some (key_cursor y)) = page limit key_cursor zs"
    using ok by (simp add: key_page_eq after_cursor_before)
qed

text \<open>Listing API keys page by page is complete: with key ids that are distinct and ordered by
  \<open>localeCompare\<close> as by their code units, a client that follows the returned cursors, whatever the
  positive page size, sees every key of the user exactly once, newest first.\<close>

theorem key_listing_complete:
  assumes "0 < limit" and "distinct (map ak_id ks)" and "locale_ok lc (ak_id ` set ks)"
  shows "walk_pages (key_page lc u limit ks) (Suc (length ks)) None = user_listing lc u ks \<and>
    mset (user_listing lc u ks) = mset (filter (\<lambda>k. ak_userId k = u) ks) \<and>
    sorted_wrt (before key_cursor) (user_listing lc u ks)"
proof -
  have "length (user_listing lc u ks) = length (filter (\<lambda>k. ak_userId k = u) ks)"
    unfolding user_listing_def by (metis mset_sort_by size_mset)
  then have "length (user_listing lc u ks) < Suc (length ks)"
    using length_filter_le [of "\<lambda>k. ak_userId k = u" ks] by linarith
  then have "walk_pages (key_page lc u limit ks) (Suc (length ks)) None = user_listing lc u ks"
    using key_pages.walk_all [of limit ks lc u] assms by blast
  moreover have "sorted_wrt (before key_cursor) (user_listing lc u ks)"
    unfolding user_listing_def key_cursor_def
    by (rule sort_by_before) (use assms in \<open>auto simp: locale_ok_def distinct_map_filter\<close>)
  ultimately show ?thesis by (simp add: user_listing_def)
qed

definition unit_collation :: "string \<Rightarrow> string \<Rightarrow> int" where
  "unit_collation a b = (if a < b then -1 else if a = b then 0 else 1)"

theorem key_listing_complete_witness:
  "let ks = snd (create_key demo_crypto ''y'' ''k2'' ''s'' 9 demo_params (snd (create_key demo_crypto ''x'' ''k1'' ''s'' 7 demo_params [])))
   in map ak_id (walk_pages (key_page unit_collation ''u'' 1 ks) 3 None) = [''k2'', ''k1'']"
proof -
  let ?ks = "snd (create_key demo_crypto ''y'' ''k2'' ''s'' 9 demo_params (snd (create_key demo_crypto ''x'' ''k1'' ''s'' 7 demo_params [])))"
  have "distinct (map ak_id ?ks)" "locale_ok unit_collation (ak_id ` set ?ks)" "length ?ks = 2"
    by (auto simp: create_key_def Let_def locale_ok_def unit_collation_def)
  moreover have "map ak_id (user_listing unit_collation ''u'' ?ks) = [''k2'', ''k1'']"
    by (simp add: user_listing_def create_key_def Let_def demo_params_def sort_by_def newest_first_def)
  ultimately show ?thesis
    using key_listing_complete [of 1 ?ks unit_collation "''u''"] by (simp add: numeral_3_eq_3 numeral_2_eq_2)
qed

end
