(* ===== verification/Registry.thy ===== *)
theory Registry
  imports Paging "HOL-Library.Sublist"
begin

text \<open>
  The API registry (\<^verbatim>\<open>data/apiRegistry.ts\<close>) and the checks on upstream targets
  (\<^verbatim>\<open>lib/upstreamTarget.ts\<close>). The runtime's URL parser, \<open>isIP\<close>, the range check of the
  \<^verbatim>\<open>ip-range-check\<close> package and DNS are parameters, collected in the record \<open>net\<close>.
\<close>

section \<open>Upstream targets\<close>

record url =
  protocol :: string
  hostname :: string
  username :: string
  password :: string
  search :: string
  hash :: string
  pathname :: string

record net =
  parseURL :: "string \<Rightarrow> url option"
  printURL :: "url \<Rightarrow> string"
  isIP :: "string \<Rightarrow> nat"
  ipRangeCheck :: "string \<Rightarrow> string list \<Rightarrow> bool"
  dns_lookup :: "string \<Rightarrow> string list option"

definition BLOCKED_IP_RANGES :: "string list" where
  "BLOCKED_IP_RANGES = [''10.0.0.0/8'', ''127.0.0.0/8'', ''169.254.0.0/16'', ''172.16.0.0/12'', ''192.168.0.0/16'',
     ''100.64.0.0/10'', ''198.18.0.0/15'', ''224.0.0.0/4'', ''240.0.0.0/4'', ''::1/128'', ''fc00::/7'', ''fe80::/10'']"

definition DEFAULT_UPSTREAM_HOST_ALLOWLIST :: "string list" where
  "DEFAULT_UPSTREAM_HOST_ALLOWLIST = [''*'', ''localhost'', ''127.0.0.1'', ''::1'']"

definition normalizeHost :: "string \<Rightarrow> string" where
  "normalizeHost host = (let trimmed = toLowerCase (trim host) in
     if prefix ''['' trimmed \<and> suffix '']'' trimmed then butlast (tl trimmed) else trimmed)"

definition normalizeAllowEntry :: "string \<Rightarrow> string" where
  "normalizeAllowEntry entry = (let h = normalizeHost entry in if suffix ''.'' h then butlast h else h)"

text \<open>\<open>[...new Set(xs)]\<close> keeps the first occurrence of every element.\<close>

definition unique :: "'a list \<Rightarrow> 'a list" where
  "unique xs = rev (remdups (rev xs))"

definition parseUpstreamHostAllowlist :: "string option \<Rightarrow> string list" where
  "parseUpstreamHostAllowlist raw =
    (let entries = filter (\<lambda>e. e \<noteq> []) (map normalizeAllowEntry (split_on (CHR '','') (case raw of None \<Rightarrow> [] | Some r \<Rightarrow> r))) in
     if entries = [] then DEFAULT_UPSTREAM_HOST_ALLOWLIST else unique entries)"

definition getAllowedHosts :: "string list option \<Rightarrow> string list" where
  "getAllowedHosts allowedHosts = (case allowedHosts of None \<Rightarrow> DEFAULT_UPSTREAM_HOST_ALLOWLIST
     | Some hs \<Rightarrow> if hs = [] then DEFAULT_UPSTREAM_HOST_ALLOWLIST else map normalizeAllowEntry hs)"

definition matchesAllowEntry :: "string \<Rightarrow> string \<Rightarrow> bool" where
  "matchesAllowEntry host entry =
    (if entry = ''*'' then True
     else if prefix ''*.'' entry then host = drop 2 entry \<or> suffix (CHR ''.'' # drop 2 entry) host
     else host = entry)"

definition isExplicitlyAllowed :: "string \<Rightarrow> string list \<Rightarrow> bool" where
  "isExplicitlyAllowed host allowlist = list_ex (\<lambda>e. e \<noteq> ''*'' \<and> matchesAllowEntry host e) allowlist"

definition isAllowedHost :: "string \<Rightarrow> string list \<Rightarrow> bool" where
  "isAllowedHost host allowlist = list_ex (matchesAllowEntry host) allowlist"

definition isBlockedIpAddress :: "net \<Rightarrow> string \<Rightarrow> bool" where
  "isBlockedIpAddress n host \<longleftrightarrow> isIP n host \<noteq> 0 \<and> ipRangeCheck n host BLOCKED_IP_RANGES"

definition double_quoted :: "string \<Rightarrow> string" where
  "double_quoted s = CHR 0x22 # s @ [CHR 0x22]"

definition parseAndValidateBaseUrl :: "net \<Rightarrow> string \<Rightarrow> string list option \<Rightarrow> (string \<times> string \<times> string list) result" where
  "parseAndValidateBaseUrl n rawUrl options = (let trimmedUrl = trim rawUrl in
    (case parseURL n trimmedUrl of
       None \<Rightarrow> Inl (Error ''base_url must be a valid absolute URL.'')
     | Some u \<Rightarrow>
        if protocol u \<noteq> ''http:'' \<and> protocol u \<noteq> ''https:'' then Inl (Error ''base_url must use http or https.'')
        else if hostname u = [] then Inl (Error ''base_url must include a hostname.'')
        else if username u \<noteq> [] \<or> password u \<noteq> [] then Inl (Error ''base_url must not include embedded credentials.'')
        else if search u \<noteq> [] \<or> hash u \<noteq> [] then Inl (Error ''base_url must not include query strings or fragments.'')
        else (let allowlist = getAllowedHosts options; host = normalizeHost (hostname u) in
          if \<not> isAllowedHost host allowlist
          then Inl (Error (''base_url host '' @ double_quoted host @ '' is not in the configured upstream allowlist.''))
          else if isBlockedIpAddress n host \<and> \<not> isExplicitlyAllowed host allowlist
          then Inl (Error (''base_url host '' @ double_quoted host @ '' resolves to a private or loopback IP range and is not allowed.''))
          else Inr (trimmedUrl, host, allowlist))))"

definition validateUpstreamBaseUrl :: "net \<Rightarrow> string \<Rightarrow> string list option \<Rightarrow> string result" where
  "validateUpstreamBaseUrl n rawUrl options = (case parseAndValidateBaseUrl n rawUrl options of
       Inl e \<Rightarrow> Inl e | Inr (canonicalUrl, _, _) \<Rightarrow> Inr canonicalUrl)"

definition validateResolvedUpstreamTarget :: "net \<Rightarrow> string \<Rightarrow> string list option \<Rightarrow> string result" where
  "validateResolvedUpstreamTarget n rawUrl options = (case parseAndValidateBaseUrl n rawUrl options of
       Inl e \<Rightarrow> Inl e
     | Inr (canonicalUrl, host, allowlist) \<Rightarrow>
        if isIP n host \<noteq> 0 then Inr canonicalUrl
        else (case dns_lookup n host of
            None \<Rightarrow> Inl (Error (''base_url host '' @ double_quoted host @ '' could not be resolved.''))
          | Some addresses \<Rightarrow>
             if addresses = [] then Inl (Error (''base_url host '' @ double_quoted host @ '' did not resolve to an address.''))
             else if list_ex (\<lambda>a. isBlockedIpAddress n a \<and> \<not> isExplicitlyAllowed host allowlist) addresses
             then Inl (Error (''base_url host '' @ double_quoted host @ '' resolves to a private or loopback IP range and is not allowed.''))
             else Inr canonicalUrl))"

definition buildUpstreamTargetUrl :: "net \<Rightarrow> string \<Rightarrow> string \<Rightarrow> string result" where
  "buildUpstreamTargetUrl n baseUrl path = (case parseURL n baseUrl of
       None \<Rightarrow> Inl (Error ''Invalid URL'')
     | Some u \<Rightarrow> (let normalizedPath = dropWhile (\<lambda>c. c = CHR ''/'') path in
         if normalizedPath = [] then Inr (printURL n u)
         else (let basePath = (if suffix ''/'' (pathname u) then pathname u else pathname u @ ''/'') in
           Inr (printURL n (u\<lparr>pathname := basePath @ normalizedPath\<rparr>)))))"

section \<open>The registry\<close>

record EndpointPricing =
  endpointId :: string
  path :: string
  priceUsdc :: usdc

record ApiRegistryEntry =
  api_id :: string
  slug :: string
  base_url :: string
  api_developerId :: string
  endpoints :: "EndpointPricing list"
  api_created_at :: "millis option"

record api_registry =
  byId :: "(string, ApiRegistryEntry) js_map"
  bySlug :: "(string, ApiRegistryEntry) js_map"

definition empty_registry :: api_registry where
  "empty_registry = \<lparr>byId = [], bySlug = []\<rparr>"

definition register :: "net \<Rightarrow> ApiRegistryEntry \<Rightarrow> api_registry \<Rightarrow> api_registry result" where
  "register n entry r = (case validateUpstreamBaseUrl n (base_url entry) None of
       Inl e \<Rightarrow> Inl e
     | Inr u \<Rightarrow> (let e = entry\<lparr>base_url := u\<rparr> in
         Inr (r\<lparr>byId := map_set (api_id e) e (byId r), bySlug := map_set (slug e) e (bySlug r)\<rparr>)))"

fun register_all :: "net \<Rightarrow> ApiRegistryEntry list \<Rightarrow> api_registry \<Rightarrow> api_registry result" where
  "register_all n [] r = Inr r"
| "register_all n (e # es) r = (case register n e r of Inl err \<Rightarrow> Inl err | Inr r1 \<Rightarrow> register_all n es r1)"

definition resolve_api :: "string \<Rightarrow> api_registry \<Rightarrow> ApiRegistryEntry option" where
  "resolve_api slugOrId r = (case map_get (byId r) slugOrId of Some e \<Rightarrow> Some e | None \<Rightarrow> map_get (bySlug r) slugOrId)"

definition entry_time :: "ApiRegistryEntry \<Rightarrow> millis" where
  "entry_time e = (case api_created_at e of None \<Rightarrow> 0 | Some t \<Rightarrow> t)"

fun findIndex :: "('a \<Rightarrow> bool) \<Rightarrow> 'a list \<Rightarrow> nat option" where
  "findIndex p [] = None"
| "findIndex p (x # xs) = (if p x then Some 0 else map_option Suc (findIndex p xs))"

text \<open>The page size is a number, which need not be an integer: \<open>slice\<close> truncates its arguments.\<close>

definition list_apis :: "(string \<Rightarrow> string \<Rightarrow> int) \<Rightarrow> rat \<Rightarrow> api_registry \<Rightarrow> cursor option \<Rightarrow>
    ApiRegistryEntry list \<times> cursor option" where
  "list_apis localeCompare limit r cursor =
    (let sorted = sort_by (newest_first localeCompare entry_time api_id) (map_values (byId r));
         startIndex = (case cursor of None \<Rightarrow> 0
           | Some (t, i) \<Rightarrow> (case findIndex (\<lambda>e. entry_time e = t \<and> api_id e = i) sorted of None \<Rightarrow> 0 | Some k \<Rightarrow> k + 1));
         entries = take (nat \<lfloor>limit\<rfloor>) (drop startIndex sorted);
         next = (if of_nat (length entries) = limit \<and> of_nat startIndex + limit < of_nat (length sorted)
                 then Some (entry_time (last entries), api_id (last entries)) else None) in
     (entries, next))"

definition with_slash :: "string \<Rightarrow> string" where
  "with_slash p = (if prefix ''/'' p then p else CHR ''/'' # p)"

definition resolveEndpointPrice :: "EndpointPricing list \<Rightarrow> string \<Rightarrow> EndpointPricing" where
  "resolveEndpointPrice eps p =
    (let normalised = with_slash p;
         sorted = sort_key (\<lambda>e. - int (length (path e))) (filter (\<lambda>e. path e \<noteq> ''*'') eps) in
     case List.find (\<lambda>e. prefix (with_slash (path e)) normalised) sorted of
       Some e \<Rightarrow> e
     | None \<Rightarrow> (case List.find (\<lambda>e. path e = ''*'') eps of
           Some e \<Rightarrow> e
         | None \<Rightarrow> \<lparr>endpointId = ''default'', path = ''*'', priceUsdc = 0\<rparr>))"

text \<open>The listing route of the gateway: the page size of the query, at most 100, 20 by default.\<close>

definition gateway_list_limit :: "rat option \<Rightarrow> rat" where
  "gateway_list_limit raw = (case raw of None \<Rightarrow> 20 | Some l \<Rightarrow> if l > 0 then min l 100 else 20)"

section \<open>Invariant and lookup\<close>

inductive registry_reachable :: "net \<Rightarrow> api_registry \<Rightarrow> bool" for n where
  reg_empty: "registry_reachable n empty_registry"
| reg_add: "registry_reachable n r \<Longrightarrow> register n e r = Inr r' \<Longrightarrow> registry_reachable n r'"

definition registry_inv :: "net \<Rightarrow> api_registry \<Rightarrow> bool" where
  "registry_inv n r \<longleftrightarrow> wf_map (byId r) \<and> wf_map (bySlug r) \<and>
     (\<forall>i e. map_get (byId r) i = Some e \<longrightarrow> api_id e = i \<and> validateUpstreamBaseUrl n (base_url e) None = Inr (base_url e)) \<and>
     (\<forall>s e. map_get (bySlug r) s = Some e \<longrightarrow> slug e = s \<and> validateUpstreamBaseUrl n (base_url e) None = Inr (base_url e))"

lemma parse_trim: "parseAndValidateBaseUrl n (trim u) opts = parseAndValidateBaseUrl n u opts"
  by (simp only: parseAndValidateBaseUrl_def trim_trim)

lemma parse_iff: "parseAndValidateBaseUrl n u opts = Inr (c, h, a) \<longleftrightarrow> c = trim u \<and> a = getAllowedHosts opts \<and>
    isAllowedHost h (getAllowedHosts opts) \<and> (isBlockedIpAddress n h \<longrightarrow> isExplicitlyAllowed h (getAllowedHosts opts)) \<and>
    (\<exists>p. parseURL n (trim u) = Some p \<and> h = normalizeHost (hostname p) \<and> protocol p \<in> {''http:'', ''https:''} \<and>
      hostname p \<noteq> [] \<and> username p = [] \<and> password p = [] \<and> search p = [] \<and> hash p = [])"
  unfolding parseAndValidateBaseUrl_def Let_def by (cases "parseURL n (trim u)") auto

lemma parse_Inr: "parseAndValidateBaseUrl n u opts = Inr (c, h, a) \<Longrightarrow> c = trim u \<and> a = getAllowedHosts opts \<and>
    isAllowedHost h a \<and> (isBlockedIpAddress n h \<longrightarrow> isExplicitlyAllowed h a) \<and>
    (\<exists>p. parseURL n (trim u) = Some p \<and> h = normalizeHost (hostname p) \<and> protocol p \<in> {''http:'', ''https:''} \<and>
      hostname p \<noteq> [] \<and> username p = [] \<and> password p = [] \<and> search p = [] \<and> hash p = [])"
  unfolding parse_iff by blast

lemma validate_canonical:
  assumes "validateUpstreamBaseUrl n u opts = Inr v"
  shows "v = trim u \<and> validateUpstreamBaseUrl n v opts = Inr v"
proof -
  obtain h a where p: "parseAndValidateBaseUrl n u opts = Inr (v, h, a)"
    using assms by (auto simp: validateUpstreamBaseUrl_def split: sum.splits)
  from parse_Inr [OF p] have "v = trim u" by simp
  with p parse_trim [of n u opts] show ?thesis by (simp add: validateUpstreamBaseUrl_def)
qed

lemma register_inv:
  assumes inv: "registry_inv n r" and "register n e r = Inr r'"
  shows "registry_inv n r'"
proof -
  obtain v where v: "validateUpstreamBaseUrl n (base_url e) None = Inr v"
    and r': "r' = r\<lparr>byId := map_set (api_id e) (e\<lparr>base_url := v\<rparr>) (byId r),
      bySlug := map_set (slug e) (e\<lparr>base_url := v\<rparr>) (bySlug r)\<rparr>"
    using assms(2) by (auto simp: register_def Let_def split: sum.splits)
  have "validateUpstreamBaseUrl n v None = Inr v" using validate_canonical [OF v] by (rule conjunct2)
  with inv show ?thesis
    by (auto simp: registry_inv_def r' jsmap simp del: map_of_eq_Some_iff split: if_splits)
qed

lemma registry_reachable_inv: "registry_reachable n r \<Longrightarrow> registry_inv n r"
proof (induction rule: registry_reachable.induct)
  case reg_empty
  show ?case by (simp add: registry_inv_def empty_registry_def)
qed (rule register_inv)

section \<open>Listing\<close>

definition api_listing :: "(string \<Rightarrow> string \<Rightarrow> int) \<Rightarrow> api_registry \<Rightarrow> ApiRegistryEntry list" where
  "api_listing lc r = sort_by (newest_first lc entry_time api_id) (map_values (byId r))"

definition entry_cursor :: "ApiRegistryEntry \<Rightarrow> cursor" where
  "entry_cursor e = (entry_time e, api_id e)"

lemma listing_ids_distinct: "registry_inv n r \<Longrightarrow> distinct (map api_id (map_values (byId r)))"
proof -
  assume inv: "registry_inv n r"
  then have "map api_id (map_values (byId r)) = map fst (byId r)"
    by (auto simp: registry_inv_def)
  then show ?thesis using inv unfolding registry_inv_def by metis
qed

lemma findIndex_at:
  assumes "p y" and "\<forall>x \<in> set xs. \<not> p x"
  shows "findIndex p (xs @ y # zs) = Some (length xs)"
  using assms by (induction xs) auto

lemma list_apis_page:
  assumes "0 < limit" and "(case c of None \<Rightarrow> 0 | Some (t, i) \<Rightarrow>
      (case findIndex (\<lambda>e. entry_time e = t \<and> api_id e = i) (api_listing lc r) of None \<Rightarrow> 0 | Some k \<Rightarrow> k + 1)) = k"
  shows "list_apis lc (of_nat limit) r c = page limit entry_cursor (drop k (api_listing lc r))"
proof -
  let ?l = "api_listing lc r"
  have "of_nat k + (of_nat limit :: rat) < of_nat (length ?l) \<longleftrightarrow> k + limit < length ?l"
    by (metis of_nat_add of_nat_less_iff)
  then have a: "(of_nat (length (take limit (drop k ?l))) = (of_nat limit :: rat) \<and> of_nat k + (of_nat limit :: rat) < of_nat (length ?l))
      \<longleftrightarrow> limit < length (drop k ?l)"
    by auto
  show ?thesis
    unfolding list_apis_def Let_def api_listing_def [symmetric] assms(2) page_def entry_cursor_def
    by (simp only: floor_of_nat nat_int a)
qed

interpretation api_pages: cursor_pages "list_apis lc (of_nat limit) r" "api_listing lc r" entry_cursor limit
  "0 < limit \<and> registry_inv n r \<and> locale_ok lc (api_id ` set (map_values (byId r)))"
  for n
proof
  assume ok: "0 < limit \<and> registry_inv n r \<and> locale_ok lc (api_id ` set (map_values (byId r)))"
  then show "list_apis lc (of_nat limit) r None = page limit entry_cursor (api_listing lc r)" "0 < limit"
    using list_apis_page [where limit = limit and c = None and lc = lc and r = r and k = 0] by simp_all
  fix xs y zs
  assume l: "api_listing lc r = xs @ y # zs"
  have "distinct (map api_id (api_listing lc r))"
    unfolding api_listing_def distinct_sort_by by (rule listing_ids_distinct) (use ok in blast)
  then have "\<forall>x \<in> set xs. \<not> (entry_time x = entry_time y \<and> api_id x = api_id y)"
    using l by (auto simp: image_iff)
  then have "findIndex (\<lambda>e. entry_time e = entry_time y \<and> api_id e = api_id y) (api_listing lc r) = Some (length xs)"
    unfolding l by (intro findIndex_at) auto
  then show "list_apis lc (of_nat limit) r (Some (entry_cursor y)) = page limit entry_cursor zs"
    using list_apis_page [where limit = limit and c = "Some (entry_cursor y)" and lc = lc and r = r and k = "Suc (length xs)"] ok l
    by (simp add: entry_cursor_def)
qed

text \<open>A page size that is not an integer ends the listing after its first page.\<close>

lemma fractional_limit_stops: "of_int \<lfloor>limit\<rfloor> \<noteq> limit \<Longrightarrow> snd (list_apis lc limit r c) = None"
proof -
  assume "of_int \<lfloor>limit\<rfloor> \<noteq> limit"
  then have "of_nat m \<noteq> limit" for m by (metis floor_of_int of_int_of_nat_eq)
  then show ?thesis by (auto simp: list_apis_def Let_def)
qed

section \<open>Endpoint prices\<close>

lemma find_sorted_max:
  fixes f :: "'a \<Rightarrow> int"
  assumes "sorted (map f xs)" and "List.find P xs = Some e" and "y \<in> set xs" and "P y"
  shows "f e \<le> f y"
  using assms by (induction xs) (auto split: if_splits)

lemma find_SomeD: "List.find P xs = Some e \<Longrightarrow> e \<in> set xs \<and> P e"
  by (auto simp: find_Some_iff)

lemma find_NoneD: "List.find P xs = None \<Longrightarrow> x \<in> set xs \<Longrightarrow> \<not> P x"
  by (auto simp: find_None_iff)

definition price_match :: "EndpointPricing \<Rightarrow> string \<Rightarrow> bool" where
  "price_match e p \<longleftrightarrow> path e \<noteq> ''*'' \<and> prefix (with_slash (path e)) (with_slash p)"

section \<open>Properties\<close>

text \<open>A price is that of the longest matching endpoint: if some endpoint's path is a prefix of the
  request path, the price is taken from a matching endpoint and no matching one has a longer path;
  otherwise from the first wildcard endpoint; and without one the call is free.\<close>

theorem endpoint_price_longest:
  "(\<forall>e \<in> set eps. price_match e p \<longrightarrow>
      resolveEndpointPrice eps p \<in> set eps \<and> price_match (resolveEndpointPrice eps p) p \<and>
      length (path e) \<le> length (path (resolveEndpointPrice eps p))) \<and>
   ((\<forall>e \<in> set eps. \<not> price_match e p) \<longrightarrow>
      resolveEndpointPrice eps p = (case List.find (\<lambda>e. path e = ''*'') eps of Some e \<Rightarrow> e
        | None \<Rightarrow> \<lparr>endpointId = ''default'', path = ''*'', priceUsdc = 0\<rparr>))"
proof -
  let ?s = "sort_key (\<lambda>e. - int (length (path e))) (filter (\<lambda>e. path e \<noteq> ''*'') eps)"
  let ?P = "\<lambda>e. prefix (with_slash (path e)) (with_slash p)"
  have sorted: "sorted (map (\<lambda>e. - int (length (path e))) ?s)" by simp
  show ?thesis
  proof (cases "List.find ?P ?s")
    case None
    then have "\<forall>e \<in> set eps. \<not> price_match e p" using find_NoneD [OF None] by (auto simp: price_match_def)
    with None show ?thesis by (auto simp: resolveEndpointPrice_def Let_def)
  next
    case (Some e)
    have "length (path y) \<le> length (path e)" if "y \<in> set eps" "price_match y p" for y
      using find_sorted_max [OF sorted Some, of y] that by (auto simp: price_match_def)
    with find_SomeD [OF Some] Some show ?thesis by (auto simp: resolveEndpointPrice_def Let_def price_match_def)
  qed
qed

definition demo_eps :: "EndpointPricing list" where
  "demo_eps = [\<lparr>endpointId = ''cur'', path = ''/current'', priceUsdc = 1 / 100\<rparr>, \<lparr>endpointId = ''any'', path = ''*'', priceUsdc = 1 / 200\<rparr>]"

theorem endpoint_price_longest_witness:
  "resolveEndpointPrice demo_eps ''other'' = demo_eps ! 1 \<and> endpointId (resolveEndpointPrice demo_eps ''current/x'') = ''cur''"
proof -
  have "\<forall>e \<in> set demo_eps. \<not> price_match e ''other''" by (simp add: demo_eps_def price_match_def with_slash_def)
  then have "resolveEndpointPrice demo_eps ''other'' = demo_eps ! 1"
    using endpoint_price_longest [of demo_eps "''other''"] by (simp add: demo_eps_def)
  moreover have "price_match (demo_eps ! 0) ''current/x''" "\<not> price_match (demo_eps ! 1) ''current/x''"
    by (simp_all add: demo_eps_def price_match_def with_slash_def)
  then have "resolveEndpointPrice demo_eps ''current/x'' = demo_eps ! 0"
    using endpoint_price_longest [of demo_eps "''current/x''"] by (auto simp: demo_eps_def)
  then have "endpointId (resolveEndpointPrice demo_eps ''current/x'') = ''cur''" by (simp add: demo_eps_def)
  ultimately show ?thesis by simp
qed

text \<open>The registry only holds vetted targets and lists them completely: in every reachable
  registry, resolving an id or a slug gives an entry of that id or slug whose base URL passes the
  upstream checks; and a client that pages through the listing with a positive integer page size
  sees every registered API exactly once.\<close>

theorem registry_sound:
  assumes "registry_reachable n r" and "0 < limit" and "locale_ok lc (api_id ` set (map_values (byId r)))"
  shows "(\<forall>e. resolve_api s r = Some e \<longrightarrow> (api_id e = s \<or> slug e = s) \<and>
      validateUpstreamBaseUrl n (base_url e) None = Inr (base_url e)) \<and>
    walk_pages (list_apis lc (of_nat limit) r) (Suc (length (byId r))) None = api_listing lc r \<and>
    mset (api_listing lc r) = mset (map_values (byId r))"
proof -
  note inv = registry_reachable_inv [OF assms(1)]
  have "length (api_listing lc r) = length (byId r)"
    unfolding api_listing_def by (metis length_map mset_sort_by size_mset)
  then have "walk_pages (list_apis lc (of_nat limit) r) (Suc (length (byId r))) None = api_listing lc r"
    using api_pages.walk_all [of limit n r lc] inv assms(2,3) by (metis lessI)
  moreover have "\<forall>e. resolve_api s r = Some e \<longrightarrow> (api_id e = s \<or> slug e = s) \<and>
      validateUpstreamBaseUrl n (base_url e) None = Inr (base_url e)"
    using inv by (auto simp: resolve_api_def registry_inv_def simp del: map_of_eq_Some_iff split: option.splits)
  ultimately show ?thesis by (simp add: api_listing_def)
qed

definition demo_net :: net where
  "demo_net = \<lparr>parseURL = (\<lambda>u. Some \<lparr>protocol = ''http:'', hostname = ''api.example.com'', username = [], password = [],
       search = [], hash = [], pathname = ''/''\<rparr>),
     printURL = (\<lambda>u. ''http://api.example.com'' @ pathname u), isIP = (\<lambda>h. if h = ''10.0.0.7'' then 4 else 0),
     ipRangeCheck = (\<lambda>a rs. a = ''10.0.0.7''), dns_lookup = (\<lambda>h. Some [''10.0.0.7''])\<rparr>"

definition demo_entry :: ApiRegistryEntry where
  "demo_entry = \<lparr>api_id = ''a1'', slug = ''weather'', base_url = ''http://api.example.com/'', api_developerId = ''dev'',
     endpoints = demo_eps, api_created_at = None\<rparr>"

definition demo_registry :: api_registry where
  "demo_registry = \<lparr>byId = [(''a1'', demo_entry)], bySlug = [(''weather'', demo_entry)]\<rparr>"

lemmas demo_net_eval = demo_net_def parseAndValidateBaseUrl_def normalizeHost_def trim_def is_space_def
  isAllowedHost_def getAllowedHosts_def DEFAULT_UPSTREAM_HOST_ALLOWLIST_def matchesAllowEntry_def
  isBlockedIpAddress_def isExplicitlyAllowed_def toLowerCase_def lower_char_def Let_def

lemma demo_base_url: "validateUpstreamBaseUrl demo_net ''http://api.example.com/'' None = Inr ''http://api.example.com/''"
  by (simp add: validateUpstreamBaseUrl_def demo_net_eval)

lemma demo_registry_reachable: "registry_reachable demo_net demo_registry"
  by (rule reg_add [OF reg_empty, of _ demo_entry])
    (simp add: register_def demo_entry_def demo_base_url empty_registry_def demo_registry_def Let_def)

theorem registry_sound_witness:
  "walk_pages (list_apis (\<lambda>_ _. 0) 1 demo_registry) 2 None = [demo_entry] \<and>
   validateUpstreamBaseUrl demo_net (base_url demo_entry) None = Inr (base_url demo_entry)"
proof -
  have "locale_ok (\<lambda>_ _. 0) (api_id ` set (map_values (byId demo_registry)))"
    by (simp add: locale_ok_def demo_registry_def)
  from registry_sound [OF demo_registry_reachable _ this, of 1 "''weather''"] show ?thesis
    by (simp add: demo_registry_def resolve_api_def demo_entry_def api_listing_def sort_by_def numeral_2_eq_2)
qed

lemma resolved_iff:
  "validateResolvedUpstreamTarget n u opts = Inr v \<longleftrightarrow> (\<exists>h. parseAndValidateBaseUrl n u opts = Inr (v, h, getAllowedHosts opts) \<and>
    (isIP n h \<noteq> 0 \<or> (\<exists>as. dns_lookup n h = Some as \<and> as \<noteq> [] \<and>
      (\<forall>x \<in> set as. isBlockedIpAddress n x \<longrightarrow> isExplicitlyAllowed h (getAllowedHosts opts)))))"
proof (cases "parseAndValidateBaseUrl n u opts")
  case (Inr r)
  moreover obtain c h where "r = (c, h, getAllowedHosts opts)" using Inr parse_Inr by (metis prod_cases3)
  ultimately show ?thesis
    by (auto simp: validateResolvedUpstreamTarget_def list_ex_iff split: option.splits if_splits)
qed (simp add: validateResolvedUpstreamTarget_def)

lemma allowed_host_iff: "isAllowedHost host es \<longleftrightarrow> ''*'' \<in> set es \<or> isExplicitlyAllowed host es"
proof -
  have "matchesAllowEntry host ''*''" by (simp add: matchesAllowEntry_def)
  then show ?thesis unfolding isAllowedHost_def isExplicitlyAllowed_def list_ex_iff by metis
qed

text \<open>C27. The check of an upstream target is exact: a URL is accepted, as its trimmed text, exactly when
  it is an http or https URL with a host and without credentials, query or fragment, its host matches
  an entry of the allow list (the catch-all \<open>*\<close>, the host itself, or \<open>*.\<close> and a domain it is or is below;
  without a list \<open>*\<close>, \<open>localhost\<close>, \<open>127.0.0.1\<close> and \<open>::1\<close>), and, unless an entry other than the catch-all
  matches, neither the host nor, when it is a name, any of the addresses it resolves to at the time of
  the check is an address in one of the twelve private, loopback, link-local, shared, benchmarking,
  multicast or reserved ranges; a name that does not resolve is refused. (The later fetch
  resolves the name again.)\<close>

theorem upstream_target_safe:
  "validateResolvedUpstreamTarget n u opts = Inr v \<longleftrightarrow>
    v = trim u \<and> (\<exists>p. parseURL n v = Some p \<and> protocol p \<in> {''http:'', ''https:''} \<and> hostname p \<noteq> [] \<and>
      username p = [] \<and> password p = [] \<and> search p = [] \<and> hash p = [] \<and>
      (let host = normalizeHost (hostname p);
           entries = (if opts = None \<or> opts = Some [] then [''*'', ''localhost'', ''127.0.0.1'', ''::1''] else map normalizeAllowEntry (the opts));
           named = (\<exists>e \<in> set entries. e \<noteq> ''*'' \<and> (if prefix ''*.'' e then host = drop 2 e \<or> (\<exists>s. host = s @ ''.'' @ drop 2 e) else host = e));
           private = (\<lambda>a. isIP n a \<noteq> 0 \<and> ipRangeCheck n a [''10.0.0.0/8'', ''127.0.0.0/8'', ''169.254.0.0/16'', ''172.16.0.0/12'',
             ''192.168.0.0/16'', ''100.64.0.0/10'', ''198.18.0.0/15'', ''224.0.0.0/4'', ''240.0.0.0/4'', ''::1/128'', ''fc00::/7'', ''fe80::/10'']) in
       (''*'' \<in> set entries \<or> named) \<and> (private host \<longrightarrow> named) \<and>
       (isIP n host \<noteq> 0 \<or> (\<exists>as. dns_lookup n host = Some as \<and> as \<noteq> [] \<and> (\<forall>a \<in> set as. private a \<longrightarrow> named)))))"
proof -
  let ?entries = "if opts = None \<or> opts = Some [] then [''*'', ''localhost'', ''127.0.0.1'', ''::1''] else map normalizeAllowEntry (the opts)"
  let ?named = "\<lambda>host. \<exists>e \<in> set ?entries. e \<noteq> ''*'' \<and> (if prefix ''*.'' e then host = drop 2 e \<or> (\<exists>s. host = s @ ''.'' @ drop 2 e) else host = e)"
  have hosts: "getAllowedHosts opts = ?entries" by (auto simp: getAllowedHosts_def DEFAULT_UPSTREAM_HOST_ALLOWLIST_def split: option.split)
  have explicit: "isExplicitlyAllowed host ?entries \<longleftrightarrow> ?named host" for host
    unfolding isExplicitlyAllowed_def matchesAllowEntry_def list_ex_iff by (intro bex_cong) (auto simp: suffix_def)
  have allowed: "isAllowedHost host ?entries \<longleftrightarrow> ''*'' \<in> set ?entries \<or> ?named host" for host
    unfolding explicit [symmetric] by (rule allowed_host_iff)
  note priv = isBlockedIpAddress_def [unfolded BLOCKED_IP_RANGES_def]
  have parsed: "parseAndValidateBaseUrl n u opts = Inr (c, h, a) \<longleftrightarrow> c = trim u \<and> a = ?entries \<and>
      (''*'' \<in> set ?entries \<or> ?named h) \<and> (isBlockedIpAddress n h \<longrightarrow> ?named h) \<and>
      (\<exists>p. parseURL n (trim u) = Some p \<and> h = normalizeHost (hostname p) \<and> protocol p \<in> {''http:'', ''https:''} \<and>
        hostname p \<noteq> [] \<and> username p = [] \<and> password p = [] \<and> search p = [] \<and> hash p = [])" for c h a
    unfolding parse_iff hosts allowed explicit ..
  show ?thesis unfolding resolved_iff parsed hosts explicit Let_def priv by blast
qed

theorem upstream_target_safe_witness:
  "validateResolvedUpstreamTarget (demo_net\<lparr>dns_lookup := (\<lambda>h. Some [''93.184.216.34''])\<rparr>) ''http://api.example.com/'' None =
     Inr ''http://api.example.com/'' \<and>
   (\<forall>v. validateResolvedUpstreamTarget demo_net ''http://api.example.com/'' None \<noteq> Inr v)"
proof -
  let ?u = "''http://api.example.com/''"
  have "trim ?u = ?u" "normalizeHost ''api.example.com'' = ''api.example.com''" by (simp_all add: demo_net_eval)
  then show ?thesis
    using upstream_target_safe [of "demo_net\<lparr>dns_lookup := (\<lambda>h. Some [''93.184.216.34''])\<rparr>" ?u None ?u]
      upstream_target_safe [of demo_net ?u None] by (simp add: demo_net_def Let_def)
qed

end
