(* ===== verification/Headers.thy ===== *)
theory Headers
  imports Registry
begin

text \<open>
  Header handling of the proxies: the hop-by-hop headers of \<^verbatim>\<open>lib/hopByHop.ts\<close> and the request
  ids of \<^verbatim>\<open>middleware/requestId.ts\<close>. A header object is an association list from names to values; a
  value that is \<open>undefined\<close> is \<open>None\<close>.
\<close>

section \<open>Hop-by-hop headers\<close>

datatype header_value = One string | Many "string list"

type_synonym header_map = "(string, header_value option) js_map"

definition STATIC_HOP_BY_HOP :: "string list" where
  "STATIC_HOP_BY_HOP = [''connection'', ''keep-alive'', ''proxy-authenticate'', ''proxy-authorization'',
     ''proxy-connection'', ''te'', ''trailer'', ''transfer-encoding'', ''upgrade'']"

definition PROTECTED_HEADERS :: "string list" where
  "PROTECTED_HEADERS = [''host'', ''content-length'']"

definition connection_names :: "string \<Rightarrow> string list" where
  "connection_names value = filter (\<lambda>name. name \<noteq> [] \<and> name \<notin> set PROTECTED_HEADERS)
     (map (\<lambda>token. toLowerCase (trim token)) (split_on (CHR '','') value))"

definition buildHopByHopSet :: "header_value option \<Rightarrow> string set" where
  "buildHopByHopSet connectionHeaderValue = (case connectionHeaderValue of
       None \<Rightarrow> set STATIC_HOP_BY_HOP
     | Some (One v) \<Rightarrow> if v = [] then set STATIC_HOP_BY_HOP
         else set STATIC_HOP_BY_HOP \<union> set (connection_names v)
     | Some (Many vs) \<Rightarrow> set STATIC_HOP_BY_HOP \<union> set (concat (map connection_names vs)))"

definition header_strings :: "header_value option \<Rightarrow> string list" where
  "header_strings v = (case v of None \<Rightarrow> [] | Some (One s) \<Rightarrow> [s] | Some (Many ss) \<Rightarrow> ss)"

definition stripHopByHopHeaders :: "header_map \<Rightarrow> header_map" where
  "stripHopByHopHeaders headers =
    (let connectionValues = concat (map (\<lambda>(key, v). if toLowerCase key = ''connection'' then header_strings v else []) headers);
         stripSet = buildHopByHopSet (if length connectionValues > 0 then Some (Many connectionValues) else None) in
     filter (\<lambda>(key, v). toLowerCase key \<notin> stripSet) headers)"

section \<open>Request ids\<close>

definition is_control :: "char \<Rightarrow> bool" where
  "is_control c \<longleftrightarrow> (of_char c :: nat) \<le> 31 \<or> (of_char c :: nat) = 127"

definition REQUEST_ID_MAX_LENGTH :: nat where
  "REQUEST_ID_MAX_LENGTH = 128"

definition sanitizeRequestId :: "string option \<Rightarrow> string option" where
  "sanitizeRequestId raw = (case raw of None \<Rightarrow> None
     | Some r \<Rightarrow> if r = [] then None
         else (let sanitized = trim (filter (\<lambda>c. \<not> is_control c) r) in
           if length sanitized = 0 \<or> length sanitized > REQUEST_ID_MAX_LENGTH then None else Some sanitized))"

text \<open>The request id and the correlation id of a request, from its two headers and a fresh UUID.\<close>

definition requestIdMiddleware :: "string option \<Rightarrow> string option \<Rightarrow> string \<Rightarrow> string \<times> string" where
  "requestIdMiddleware request_header correlation_header uuid =
    (let requestId = (case sanitizeRequestId request_header of None \<Rightarrow> uuid | Some r \<Rightarrow> r) in
     (requestId, (case sanitizeRequestId correlation_header of None \<Rightarrow> requestId | Some c \<Rightarrow> c)))"

section \<open>Lemmas\<close>

text \<open>The names the connection headers of a message list.\<close>

definition listed :: "header_map \<Rightarrow> string set" where
  "listed headers = {n. \<exists>key v s. (key, v) \<in> set headers \<and> toLowerCase key = ''connection'' \<and>
     s \<in> set (header_strings v) \<and> n \<in> set (connection_names s)}"

lemma strip_filter: "stripHopByHopHeaders headers =
    filter (\<lambda>x. toLowerCase (fst x) \<notin> set STATIC_HOP_BY_HOP \<union> listed headers) headers"
proof -
  let ?vs = "concat (map (\<lambda>(key, v). if toLowerCase key = ''connection'' then header_strings v else []) headers)"
  have "set (concat (map connection_names ?vs)) = listed headers"
    by (fastforce simp: listed_def split: if_splits)
  then have "buildHopByHopSet (if length ?vs > 0 then Some (Many ?vs) else None) = set STATIC_HOP_BY_HOP \<union> listed headers"
    by (cases "?vs = []") (simp_all add: buildHopByHopSet_def)
  then show ?thesis unfolding stripHopByHopHeaders_def Let_def by (simp only: case_prod_unfold)
qed

lemma protected_not_listed: "n \<in> set PROTECTED_HEADERS \<Longrightarrow> n \<notin> listed headers"
  by (auto simp: listed_def connection_names_def)

lemma protected_not_static: "n \<in> set PROTECTED_HEADERS \<Longrightarrow> n \<notin> set STATIC_HOP_BY_HOP"
  by (auto simp: PROTECTED_HEADERS_def STATIC_HOP_BY_HOP_def)

lemma stripped_lists_nothing: "listed (stripHopByHopHeaders headers) = {}"
  by (auto simp: strip_filter listed_def STATIC_HOP_BY_HOP_def)

lemma sanitized_ok: "sanitizeRequestId raw = Some r \<Longrightarrow>
    r \<noteq> [] \<and> length r \<le> 128 \<and> list_all (\<lambda>c. \<not> is_control c) r \<and> trim r = r"
proof -
  assume "sanitizeRequestId raw = Some r"
  then obtain s where "r = trim (filter (\<lambda>c. \<not> is_control c) s)" "r \<noteq> []" "length r \<le> 128"
    by (auto simp: sanitizeRequestId_def REQUEST_ID_MAX_LENGTH_def Let_def split: option.splits if_splits)
  moreover from this have "set r \<subseteq> {c. \<not> is_control c}"
    by (auto simp: trim_def dest!: set_dropWhileD)
  ultimately show ?thesis by (auto simp: list_all_iff)
qed

section \<open>Properties\<close>

text \<open>Stripping hop-by-hop headers is exact and idempotent: a header survives, in its place and
  with its value, exactly when its lower-cased name is not one of the static hop-by-hop names and
  is listed by no connection header of the message; the framing headers \<open>Host\<close> and
  \<open>Content-Length\<close> always survive, whatever a connection header lists; stripping again changes
  nothing.\<close>

theorem hop_by_hop_exact:
  "stripHopByHopHeaders headers =
      filter (\<lambda>x. toLowerCase (fst x) \<notin> set STATIC_HOP_BY_HOP \<union> listed headers) headers \<and>
    filter (\<lambda>x. toLowerCase (fst x) \<in> set PROTECTED_HEADERS) (stripHopByHopHeaders headers) =
      filter (\<lambda>x. toLowerCase (fst x) \<in> set PROTECTED_HEADERS) headers \<and>
    stripHopByHopHeaders (stripHopByHopHeaders headers) = stripHopByHopHeaders headers"
proof -
  have "toLowerCase (fst x) \<notin> set STATIC_HOP_BY_HOP \<union> listed headers \<and> toLowerCase (fst x) \<in> set PROTECTED_HEADERS \<longleftrightarrow>
      toLowerCase (fst x) \<in> set PROTECTED_HEADERS" for x :: "string \<times> header_value option"
    using protected_not_listed protected_not_static by blast
  then have "filter (\<lambda>x. toLowerCase (fst x) \<in> set PROTECTED_HEADERS) (stripHopByHopHeaders headers) =
      filter (\<lambda>x. toLowerCase (fst x) \<in> set PROTECTED_HEADERS) headers"
    by (simp only: strip_filter filter_filter)
  moreover have "stripHopByHopHeaders (stripHopByHopHeaders headers) = stripHopByHopHeaders headers"
    unfolding strip_filter [of "stripHopByHopHeaders headers"] stripped_lists_nothing
    by (auto simp: strip_filter intro!: filter_cong)
  ultimately show ?thesis using strip_filter by blast
qed

end
