(* ===== verification/Proxy.thy ===== *)
theory Proxy
  imports CircuitBreaker RateLimiter UsageStore ApiKeys Headers
begin

text \<open>
  The metered proxy \<open>ALL /v1/call/:apiSlugOrId/*\<close>: the per-user token bucket of
  \<^verbatim>\<open>middleware/gatewayRateLimit.ts\<close>, the in-memory billing service of
  \<^verbatim>\<open>services/billingService.ts\<close> and the router of \<^verbatim>\<open>routes/proxyRoutes.ts\<close>.

  The router gets its billing service, rate limiter, usage store and breaker store as
  dependencies; they are fields of \<open>proxy_deps\<close>, and the accounting lemmas are proved once over
  the contracts \<open>billing_service\<close> and \<open>usage_recorder\<close>, which the in-memory billing and both usage
  stores meet. \<open>fetch\<close> acts on an arbitrary world, so that not calling upstream is visible.

  The work after a delivered response is asynchronous: a response waits for its \<open>finish\<close> or
  \<open>close\<close> event, \<open>finish\<close> schedules a job, a job records the usage and then starts the charge.
  These are separate steps that interleave freely with each other and with new requests.
\<close>

section \<open>The per-user limit\<close>

record GatewayBucket =
  gw_tokens :: rat
  lastRefillAt :: millis

type_synonym gateway_buckets = "(string, GatewayBucket) js_map"

definition refill_rate :: "millis \<Rightarrow> int \<Rightarrow> rat" where
  "refill_rate window_ms max_requests = of_int max_requests / of_int window_ms"

definition gateway_check :: "millis \<Rightarrow> int \<Rightarrow> string \<Rightarrow> millis \<Rightarrow> gateway_buckets \<Rightarrow> RateLimitResult \<times> gateway_buckets" where
  "gateway_check window_ms max_requests key now buckets = (case map_get buckets key of
       None \<Rightarrow> (allow, map_set key \<lparr>gw_tokens = of_int max_requests - 1, lastRefillAt = now\<rparr> buckets)
     | Some bucket \<Rightarrow>
        (let elapsedMs = now - lastRefillAt bucket;
             tokensToAdd = of_int elapsedMs * refill_rate window_ms max_requests;
             t = min (of_int max_requests) (gw_tokens bucket + tokensToAdd) in
         if t \<ge> 1 then (allow, map_set key \<lparr>gw_tokens = t - 1, lastRefillAt = now\<rparr> buckets)
         else (deny (max \<lceil>(1 - t) / refill_rate window_ms max_requests\<rceil> 1000),
               map_set key \<lparr>gw_tokens = t, lastRefillAt = now\<rparr> buckets)))"

definition getTokens :: "millis \<Rightarrow> int \<Rightarrow> string \<Rightarrow> millis \<Rightarrow> gateway_buckets \<Rightarrow> rat" where
  "getTokens window_ms max_requests key now buckets = (case map_get buckets key of
       None \<Rightarrow> of_int max_requests
     | Some bucket \<Rightarrow> min (of_int max_requests)
         (gw_tokens bucket + of_int (now - lastRefillAt bucket) * refill_rate window_ms max_requests))"

definition reset_gateway_buckets :: "gateway_buckets \<Rightarrow> gateway_buckets" where
  "reset_gateway_buckets buckets = []"

definition getGatewayRateLimitKey :: "string option \<Rightarrow> string option" where
  "getGatewayRateLimitKey user = (case user of None \<Rightarrow> None | Some u \<Rightarrow> if u = [] then None else Some (''user:'' @ u))"

text \<open>The middleware passes (\<open>None\<close>) or answers 429 with the seconds of \<open>Retry-After\<close> and the
  milliseconds of the body.\<close>

definition gatewayRateLimit :: "millis \<Rightarrow> int \<Rightarrow> string option \<Rightarrow> millis \<Rightarrow> gateway_buckets \<Rightarrow>
    (int \<times> millis) option \<times> gateway_buckets" where
  "gatewayRateLimit window_ms max_requests user now buckets = (case getGatewayRateLimitKey user of
       None \<Rightarrow> (None, buckets)
     | Some key \<Rightarrow> (case gateway_check window_ms max_requests key now buckets of (r, buckets1) \<Rightarrow>
         if allowed r then (None, buckets1)
         else (let ms = (case retryAfterMs r of None \<Rightarrow> window_ms | Some ms \<Rightarrow> ms) in
           (Some (max 1 \<lceil>of_int ms / 1000 :: rat\<rceil>, ms), buckets1))))"

section \<open>MockSorobanBilling\<close>

record BillingResult =
  success :: bool
  balance :: usdc

record UsageChargeResult =
  charge_success :: bool
  charge_balance :: usdc
  alreadyProcessed :: bool
  reconciliationRequired :: bool
  charge_error :: "string option"

record mock_billing =
  balances :: "(string, usdc) js_map"
  processedUsageCharges :: "(string, UsageChargeResult) js_map"
  nextUsageChargeFailure :: "(string \<times> bool) option"

definition new_mock_billing :: "(string, usdc) js_map \<Rightarrow> mock_billing" where
  "new_mock_billing initial = \<lparr>balances = initial, processedUsageCharges = [], nextUsageChargeFailure = None\<rparr>"

definition checkBalance :: "string \<Rightarrow> mock_billing \<Rightarrow> usdc" where
  "checkBalance developerId b = (case map_get (balances b) developerId of None \<Rightarrow> 0 | Some x \<Rightarrow> x)"

definition deductCredit :: "string \<Rightarrow> usdc \<Rightarrow> mock_billing \<Rightarrow> BillingResult \<times> mock_billing" where
  "deductCredit developerId amount b =
    (if amount \<le> 0 then (\<lparr>success = False, balance = checkBalance developerId b\<rparr>, b)
     else (let current = checkBalance developerId b in
       if current < amount then (\<lparr>success = False, balance = current\<rparr>, b)
       else (let newBalance = current - amount in
         (\<lparr>success = True, balance = newBalance\<rparr>, b\<lparr>balances := map_set developerId newBalance (balances b)\<rparr>))))"

definition chargeUsage :: "string \<Rightarrow> string \<Rightarrow> usdc \<Rightarrow> mock_billing \<Rightarrow> UsageChargeResult \<times> mock_billing" where
  "chargeUsage rid developerId amount b = (case map_get (processedUsageCharges b) rid of
       Some existing \<Rightarrow> (existing\<lparr>alreadyProcessed := True\<rparr>, b)
     | None \<Rightarrow> (case nextUsageChargeFailure b of
         Some (err, reconcile) \<Rightarrow>
           (\<lparr>charge_success = False, charge_balance = checkBalance developerId b, alreadyProcessed = False,
             reconciliationRequired = reconcile, charge_error = Some err\<rparr>, b\<lparr>nextUsageChargeFailure := None\<rparr>)
       | None \<Rightarrow> (case deductCredit developerId amount b of (d, b1) \<Rightarrow>
           (let result = \<lparr>charge_success = success d, charge_balance = balance d, alreadyProcessed = False,
                  reconciliationRequired = False, charge_error = None\<rparr> in
            (result, if charge_success result
               then b1\<lparr>processedUsageCharges := map_set rid result (processedUsageCharges b1)\<rparr> else b1)))))"

definition setBalance :: "string \<Rightarrow> usdc \<Rightarrow> mock_billing \<Rightarrow> mock_billing" where
  "setBalance developerId amount b = b\<lparr>balances := map_set developerId amount (balances b)\<rparr>"

definition failNextUsageCharge :: "string \<Rightarrow> bool \<Rightarrow> mock_billing \<Rightarrow> mock_billing" where
  "failNextUsageCharge err reconcile b = b\<lparr>nextUsageChargeFailure := Some (err, reconcile)\<rparr>"

definition clear_billing :: "mock_billing \<Rightarrow> mock_billing" where
  "clear_billing b = b\<lparr>processedUsageCharges := [], nextUsageChargeFailure := None\<rparr>"

section \<open>The proxy router\<close>

datatype fetch_error = TimeoutError | ConnectTimeout | OtherFetchError

record upstream_response =
  up_status :: int
  up_headers :: "(string, string) js_map"
  up_body :: "(fetch_error + string) option"

record http_request =
  rq_id :: string
  rq_method :: string
  rq_headers :: header_map
  rq_api :: string
  rq_wildcard :: "string option"
  rq_body :: string

record proxy_config =
  timeoutMs :: millis
  stripHeaders :: "string list"
  recordableStatuses :: "int \<Rightarrow> bool"
  allowedHosts :: "string list"

record partial_config =
  opt_timeoutMs :: "millis option"
  opt_stripHeaders :: "string list option"
  opt_recordableStatuses :: "(int \<Rightarrow> bool) option"
  opt_allowedHosts :: "string list option"

definition DEFAULT_STRIP_HEADERS :: "string list" where
  "DEFAULT_STRIP_HEADERS = [''connection'', ''keep-alive'', ''proxy-authenticate'', ''proxy-authorization'',
     ''proxy-connection'', ''te'', ''trailer'', ''transfer-encoding'', ''upgrade'', ''host'', ''x-api-key'',
     ''authorization'', ''cookie'', ''x-forwarded-for'', ''x-real-ip'']"

definition resolveConfig :: "partial_config \<Rightarrow> proxy_config" where
  "resolveConfig p =
    \<lparr>timeoutMs = (case opt_timeoutMs p of None \<Rightarrow> 30000 | Some t \<Rightarrow> t),
     stripHeaders = (case opt_stripHeaders p of None \<Rightarrow> DEFAULT_STRIP_HEADERS | Some hs \<Rightarrow> hs),
     recordableStatuses = (case opt_recordableStatuses p of None \<Rightarrow> (\<lambda>code. 200 \<le> code \<and> code < 300) | Some f \<Rightarrow> f),
     allowedHosts = (case opt_allowedHosts p of None \<Rightarrow> DEFAULT_UPSTREAM_HOST_ALLOWLIST | Some hs \<Rightarrow> hs)\<rparr>"

text \<open>What the authentication middleware attached to the request.\<close>

record proxy_context =
  cx_api :: ApiRegistryEntry
  cx_endpoint :: EndpointPricing
  cx_key :: string
  cx_record :: GatewayApiKeyRecord
  cx_tier :: "string option"

record ('r, 'b, 'u, 's, 'w) proxy_deps =
  rate_check :: "string \<Rightarrow> string option \<Rightarrow> millis \<Rightarrow> 'r \<Rightarrow> RateLimitResult result \<times> 'r"
  deduct_credit :: "string \<Rightarrow> usdc \<Rightarrow> 'b \<Rightarrow> BillingResult \<times> 'b"
  check_balance :: "string \<Rightarrow> 'b \<Rightarrow> usdc"
  lookup_usage :: "string \<Rightarrow> 'u \<Rightarrow> bool"
  insert_usage :: "UsageEvent \<Rightarrow> 'u \<Rightarrow> bool \<times> 'u"
  breaker_get :: "'s \<Rightarrow> string \<Rightarrow> CircuitBreakerMetrics option"
  breaker_set :: "string \<Rightarrow> CircuitBreakerMetrics \<Rightarrow> 's \<Rightarrow> 's"
  breaker_cfg :: "fetch_error breaker_config"
  fetch :: "string \<Rightarrow> string \<Rightarrow> (string, string) js_map \<Rightarrow> string option \<Rightarrow> millis \<Rightarrow> 'w \<Rightarrow>
    (fetch_error + upstream_response) \<times> 'w"
  dep_net :: net
  dep_crypto :: crypto
  dep_registry :: api_registry
  dep_window :: millis
  dep_max :: int

text \<open>The state of the router and its dependencies: \<open>px_waiting\<close> are the responses whose \<open>finish\<close> or
  \<open>close\<close> event is still to come, \<open>px_jobs\<close> the scheduled recordings, \<open>px_recording\<close> the
  recordings between their look-up of the request id and their insert, \<open>px_charges\<close> the deductions a
  recording has started, \<open>px_emitted\<close> the events handed to the usage broadcaster, \<open>px_aborts\<close> the
  counter of premature aborts.\<close>

record ('r, 'b, 'u, 's) proxy_state =
  px_limits :: gateway_buckets
  px_rates :: 'r
  px_breaker :: "'s breaker"
  px_billing :: 'b
  px_usage :: 'u
  px_waiting :: "UsageEvent list"
  px_jobs :: "UsageEvent list"
  px_recording :: "UsageEvent list"
  px_charges :: "UsageEvent list"
  px_emitted :: "UsageEvent list"
  px_aborts :: nat

text \<open>An answer: an error handed to the error handler with the headers set so far, the 429 of the
  per-user limit, a full response, or a response whose body broke off with an error.\<close>

datatype reply =
    Failed error "(string \<times> string) list"
  | Limited int millis
  | Served int "(string \<times> string) list" string
  | Broken error int "(string \<times> string) list"

definition forward_step :: "string set \<Rightarrow> string \<times> header_value option \<Rightarrow> (string, string) js_map \<Rightarrow> (string, string) js_map" where
  "forward_step S h acc = (case snd h of
       Some (One s) \<Rightarrow> if toLowerCase (fst h) \<notin> S then map_set (fst h) s acc else acc
     | _ \<Rightarrow> acc)"

definition forward_headers :: "proxy_config \<Rightarrow> string \<Rightarrow> header_map \<Rightarrow> (string, string) js_map" where
  "forward_headers config rid headers =
    (let connectionValue = (case map_get headers ''connection'' of Some (Some (One v)) \<Rightarrow> Some (One v) | _ \<Rightarrow> None);
         stripSet = buildHopByHopSet connectionValue \<union> toLowerCase ` set (stripHeaders config);
         forwarded = fold (forward_step stripSet) headers [] in
     map_set ''x-request-id'' rid forwarded)"

definition response_headers :: "string \<Rightarrow> (string, string) js_map \<Rightarrow> (string, string) js_map" where
  "response_headers rid headers =
    (let stripSet = buildHopByHopSet (map_option One (map_get headers ''connection'')) in
     map_set ''x-request-id'' rid
       (fold (\<lambda>(key, v) acc. if toLowerCase key \<notin> stripSet then map_set key v acc else acc) headers []))"

definition retry_after :: "RateLimitResult \<Rightarrow> (string \<times> string) list" where
  "retry_after r = [(''Retry-After'', show_int \<lceil>of_int (case retryAfterMs r of None \<Rightarrow> 1000 | Some ms \<Rightarrow> ms) / 1000 :: rat\<rceil>)]"

definition upstream_error :: "fetch_error \<Rightarrow> error" where
  "upstream_error e = (case e of
       TimeoutError \<Rightarrow> GatewayTimeoutError ''Upstream service timed out'' ''GATEWAY_TIMEOUT''
     | ConnectTimeout \<Rightarrow> GatewayTimeoutError ''Upstream service timed out'' ''GATEWAY_TIMEOUT''
     | OtherFetchError \<Rightarrow> BadGatewayError ''Bad Gateway: upstream unreachable'' ''BAD_GATEWAY'')"

definition call_failed :: "fetch_error call_error \<Rightarrow> error" where
  "call_failed e = (case e of
       CircuitOpen _ \<Rightarrow> BadGatewayError ''Bad Gateway: upstream unavailable'' ''BAD_GATEWAY''
     | Custom f \<Rightarrow> upstream_error f
     | Thrown f \<Rightarrow> upstream_error f)"

definition request_body :: "http_request \<Rightarrow> string option" where
  "request_body rq = (if rq_method rq \<in> {''GET'', ''HEAD''} then None else Some (rq_body rq))"

text \<open>The usage event of a request, with the id and the time stamp still to be filled in.\<close>

definition usage_of :: "http_request \<Rightarrow> proxy_context \<Rightarrow> int \<Rightarrow> UsageEvent" where
  "usage_of rq cx status =
    \<lparr>event_id = [], requestId = rq_id rq, apiKey = cx_key cx, apiKeyId = gk_id (cx_record cx),
     apiId = api_id (cx_api cx), UsageEvent.endpointId = EndpointPricing.endpointId (cx_endpoint cx),
     userId = gk_userId (cx_record cx), amountUsdc = priceUsdc (cx_endpoint cx),
     event_status = status, timestamp = 0, settlementId = None\<rparr>"

definition handleProxy :: "('r, 'b, 'u, 's, 'w) proxy_deps \<Rightarrow> proxy_config \<Rightarrow> http_request \<Rightarrow> millis \<Rightarrow>
    proxy_context option \<Rightarrow> ('r, 'b, 'u, 's) proxy_state \<Rightarrow> 'w \<Rightarrow> reply \<times> ('r, 'b, 'u, 's) proxy_state \<times> 'w" where
  "handleProxy d config rq now context st w = (case context of
     None \<Rightarrow> (Failed (InternalServerError ''Gateway authentication context missing'' ''GATEWAY_AUTH_CONTEXT_MISSING'') [], st, w)
   | Some cx \<Rightarrow>
      (case rate_check d (cx_key cx) (cx_tier cx) now (px_rates st) of (checked, rates) \<Rightarrow>
      (let st = st\<lparr>px_rates := rates\<rparr> in
       case checked of
         Inl e \<Rightarrow> (Failed e [], st, w)
       | Inr rateResult \<Rightarrow>
          if \<not> allowed rateResult
          then (Failed (TooManyRequestsError ''Too Many Requests'' ''TOO_MANY_REQUESTS'') (retry_after rateResult), st, w)
          else if check_balance d (gk_userId (cx_record cx)) (px_billing st) \<le> 0
          then (Failed (PaymentRequiredError ''Payment Required: insufficient balance'' ''PAYMENT_REQUIRED'') [], st, w)
          else
           (case buildUpstreamTargetUrl (dep_net d) (base_url (cx_api cx)) (case rq_wildcard rq of None \<Rightarrow> [] | Some p \<Rightarrow> p) of
              Inl e \<Rightarrow> (Failed e [], st, w)
            | Inr upstreamTarget \<Rightarrow>
               (case validateResolvedUpstreamTarget (dep_net d) upstreamTarget (Some (allowedHosts config)) of
                  Inl e \<Rightarrow> (Failed (BadGatewayError (error_message e) ''UPSTREAM_TARGET_BLOCKED'') [], st, w)
                | Inr safeUpstreamTarget \<Rightarrow>
                   (case execute (breaker_get d) (breaker_set d) (breaker_cfg d) now (api_id (cx_api cx))
                       (fetch d safeUpstreamTarget (rq_method rq) (forward_headers config (rq_id rq) (rq_headers rq))
                         (request_body rq) (timeoutMs config))
                       (px_breaker st) w of (called, breaker, w1) \<Rightarrow>
                    (let st = st\<lparr>px_breaker := breaker\<rparr> in
                     case called of
                       Inl e \<Rightarrow> (Failed (call_failed e) [], st, w1)
                     | Inr res \<Rightarrow>
                        (let headers = response_headers (rq_id rq) (up_headers res) in
                         case up_body res of
                           Some (Inl e) \<Rightarrow> (Broken (upstream_error e) (up_status res) headers, st, w1)
                         | body \<Rightarrow>
                            (Served (up_status res) headers (case body of Some (Inr text) \<Rightarrow> text | _ \<Rightarrow> []),
                             (if recordableStatuses config (up_status res)
                              then st\<lparr>px_waiting := px_waiting st @ [usage_of rq cx (up_status res)]\<rparr> else st), w1)))))))))"

definition header_text :: "header_map \<Rightarrow> string \<Rightarrow> string option" where
  "header_text headers n = (case map_get headers n of Some (Some (One s)) \<Rightarrow> Some s | _ \<Rightarrow> None)"

definition proxy_auth :: "('r, 'b, 'u, 's, 'w) proxy_deps \<Rightarrow> (string \<Rightarrow> ('x, 'v) GatewayAuthCandidate list) \<Rightarrow>
    http_request \<Rightarrow> millis \<Rightarrow> proxy_context result" where
  "proxy_auth d candidates rq now =
    (let context = (case resolve_api (rq_api rq) (dep_registry d) of
           None \<Rightarrow> None
         | Some api \<Rightarrow> Some (api, resolveEndpointPrice (endpoints api) (case rq_wildcard rq of None \<Rightarrow> [] | Some p \<Rightarrow> p))) in
     case gatewayApiKeyAuth (dep_crypto d) context api_id candidates None now (header_text (rq_headers rq)) of
       Inl e \<Rightarrow> Inl e
     | Inr a \<Rightarrow> Inr \<lparr>cx_api = auth_api a, cx_endpoint = auth_endpoint a, cx_key = apiKeyValue a,
         cx_record = auth_record a, cx_tier = apiKeyTier a\<rparr>)"

text \<open>The route: authentication, the per-user limit, the handler.\<close>

definition proxy_request :: "('r, 'b, 'u, 's, 'w) proxy_deps \<Rightarrow> proxy_config \<Rightarrow>
    (string \<Rightarrow> ('x, 'v) GatewayAuthCandidate list) \<Rightarrow> http_request \<Rightarrow> millis \<Rightarrow>
    ('r, 'b, 'u, 's) proxy_state \<Rightarrow> 'w \<Rightarrow> reply \<times> ('r, 'b, 'u, 's) proxy_state \<times> 'w" where
  "proxy_request d config candidates rq now st w = (case proxy_auth d candidates rq now of
       Inl e \<Rightarrow> (Failed e [], st, w)
     | Inr cx \<Rightarrow>
        (case gatewayRateLimit (dep_window d) (dep_max d) (Some (gk_userId (cx_record cx))) now (px_limits st) of
           (Some (secs, ms), limits) \<Rightarrow> (Limited secs ms, st\<lparr>px_limits := limits\<rparr>, w)
         | (None, limits) \<Rightarrow> handleProxy d config rq now (Some cx) (st\<lparr>px_limits := limits\<rparr>) w))"

section \<open>Metering after the response\<close>

definition response_finished :: "nat \<Rightarrow> ('r, 'b, 'u, 's) proxy_state \<Rightarrow> ('r, 'b, 'u, 's) proxy_state" where
  "response_finished i st = (if i < length (px_waiting st)
     then st\<lparr>px_waiting := take i (px_waiting st) @ drop (Suc i) (px_waiting st),
             px_jobs := px_jobs st @ [px_waiting st ! i]\<rparr> else st)"

definition response_closed :: "nat \<Rightarrow> ('r, 'b, 'u, 's) proxy_state \<Rightarrow> ('r, 'b, 'u, 's) proxy_state" where
  "response_closed i st = (if i < length (px_waiting st)
     then st\<lparr>px_waiting := take i (px_waiting st) @ drop (Suc i) (px_waiting st),
             px_aborts := Suc (px_aborts st)\<rparr> else st)"

text \<open>A job looks up its request id; when the store does not know it, the insert follows as a step of its own.\<close>

definition run_job :: "('r, 'b, 'u, 's, 'w) proxy_deps \<Rightarrow> nat \<Rightarrow> string \<Rightarrow> millis \<Rightarrow>
    ('r, 'b, 'u, 's) proxy_state \<Rightarrow> ('r, 'b, 'u, 's) proxy_state" where
  "run_job d i uuid now st =
    (if i < length (px_jobs st)
     then (let e = (px_jobs st ! i)\<lparr>event_id := uuid, timestamp := now\<rparr>;
               st = st\<lparr>px_jobs := take i (px_jobs st) @ drop (Suc i) (px_jobs st)\<rparr> in
       if lookup_usage d (requestId e) (px_usage st) then st else st\<lparr>px_recording := px_recording st @ [e]\<rparr>)
     else st)"

definition run_insert :: "('r, 'b, 'u, 's, 'w) proxy_deps \<Rightarrow> nat \<Rightarrow> ('r, 'b, 'u, 's) proxy_state \<Rightarrow> ('r, 'b, 'u, 's) proxy_state" where
  "run_insert d i st =
    (if i < length (px_recording st)
     then (let e = px_recording st ! i;
               st = st\<lparr>px_recording := take i (px_recording st) @ drop (Suc i) (px_recording st)\<rparr> in
       case insert_usage d e (px_usage st) of (recorded, usage) \<Rightarrow>
         (let st = st\<lparr>px_usage := usage\<rparr> in
          if recorded
          then st\<lparr>px_emitted := px_emitted st @ [e],
                  px_charges := px_charges st @ (if amountUsdc e > 0 then [e] else [])\<rparr>
          else st))
     else st)"

text \<open>A recording that throws, in its look-up or in its transaction, is logged and gone.\<close>

definition job_failed :: "nat \<Rightarrow> ('r, 'b, 'u, 's) proxy_state \<Rightarrow> ('r, 'b, 'u, 's) proxy_state" where
  "job_failed i st = st\<lparr>px_jobs := take i (px_jobs st) @ drop (Suc i) (px_jobs st)\<rparr>"

definition insert_failed :: "nat \<Rightarrow> ('r, 'b, 'u, 's) proxy_state \<Rightarrow> ('r, 'b, 'u, 's) proxy_state" where
  "insert_failed i st = st\<lparr>px_recording := take i (px_recording st) @ drop (Suc i) (px_recording st)\<rparr>"

text \<open>The deduction: its result is not looked at.\<close>

definition run_charge :: "('r, 'b, 'u, 's, 'w) proxy_deps \<Rightarrow> nat \<Rightarrow> ('r, 'b, 'u, 's) proxy_state \<Rightarrow> ('r, 'b, 'u, 's) proxy_state" where
  "run_charge d i st =
    (if i < length (px_charges st)
     then (let e = px_charges st ! i in
       st\<lparr>px_charges := take i (px_charges st) @ drop (Suc i) (px_charges st),
          px_billing := snd (deduct_credit d (userId e) (amountUsdc e) (px_billing st))\<rparr>)
     else st)"

inductive proxy_run :: "('r, 'b, 'u, 's, 'w) proxy_deps \<Rightarrow> proxy_config \<Rightarrow> (string \<Rightarrow> ('x, 'v) GatewayAuthCandidate list) \<Rightarrow>
    ('r, 'b, 'u, 's) proxy_state \<times> 'w \<Rightarrow> ('r, 'b, 'u, 's) proxy_state \<times> 'w \<Rightarrow> bool" for d config candidates s0 where
  pr_start: "proxy_run d config candidates s0 s0"
| pr_request: "proxy_run d config candidates s0 (st, w) \<Longrightarrow> proxy_request d config candidates rq now st w = (r, st', w') \<Longrightarrow>
    proxy_run d config candidates s0 (st', w')"
| pr_finish: "proxy_run d config candidates s0 (st, w) \<Longrightarrow> proxy_run d config candidates s0 (response_finished i st, w)"
| pr_close: "proxy_run d config candidates s0 (st, w) \<Longrightarrow> proxy_run d config candidates s0 (response_closed i st, w)"
| pr_job: "proxy_run d config candidates s0 (st, w) \<Longrightarrow> proxy_run d config candidates s0 (run_job d i uuid now st, w)"
| pr_job_failed: "proxy_run d config candidates s0 (st, w) \<Longrightarrow> proxy_run d config candidates s0 (job_failed i st, w)"
| pr_insert: "proxy_run d config candidates s0 (st, w) \<Longrightarrow> proxy_run d config candidates s0 (run_insert d i st, w)"
| pr_insert_failed: "proxy_run d config candidates s0 (st, w) \<Longrightarrow> proxy_run d config candidates s0 (insert_failed i st, w)"
| pr_charge: "proxy_run d config candidates s0 (st, w) \<Longrightarrow> proxy_run d config candidates s0 (run_charge d i st, w)"

section \<open>Contracts of the dependencies\<close>

locale billing_service =
  fixes deduct :: "string \<Rightarrow> usdc \<Rightarrow> 'b \<Rightarrow> BillingResult \<times> 'b"
    and check :: "string \<Rightarrow> 'b \<Rightarrow> usdc"
  assumes deduct_success: "success (fst (deduct u a b)) \<longleftrightarrow> 0 < a \<and> a \<le> check u b"
    and deduct_check: "check v (snd (deduct u a b)) = (if v = u \<and> 0 < a \<and> a \<le> check u b then check u b - a else check v b)"

text \<open>A usage store: an insert that reports success takes the slot of its event, which was free; it keeps what the store knows.\<close>

locale usage_recorder =
  fixes ins :: "UsageEvent \<Rightarrow> 'u \<Rightarrow> bool \<times> 'u"
    and has :: "string \<Rightarrow> 'u \<Rightarrow> bool"
    and slot :: "'u \<Rightarrow> UsageEvent \<Rightarrow> 'k option"
    and taken :: "'k \<Rightarrow> 'u \<Rightarrow> bool"
  assumes ins_free: "fst (ins e s) \<Longrightarrow> slot s e = Some k \<Longrightarrow> \<not> taken k s"
    and ins_takes: "fst (ins e s) \<Longrightarrow> slot s e = Some k \<Longrightarrow> taken k (snd (ins e s))"
    and ins_has: "fst (ins e s) \<Longrightarrow> has (requestId e) (snd (ins e s))"
    and ins_keeps: "has r s \<Longrightarrow> has r (snd (ins e s))" "taken k s \<Longrightarrow> taken k (snd (ins e s))" "slot (snd (ins e s)) = slot s"

interpretation mock: billing_service deductCredit checkBalance
  by unfold_locales (auto simp: deductCredit_def checkBalance_def Let_def jsmap)

interpretation mem_usage: usage_recorder record_event hasEvent "\<lambda>s e. Some (requestId e)" hasEvent
  by unfold_locales (auto simp: record_event_def hasEvent_def split: if_splits)




section \<open>Accounting\<close>

text \<open>What the priced events of a list cost a caller.\<close>

definition owed :: "string \<Rightarrow> UsageEvent list \<Rightarrow> usdc" where
  "owed u es = sum_list (map amountUsdc (filter (\<lambda>e. userId e = u \<and> amountUsdc e > 0) es))"

lemma owed_append [simp]: "owed u (xs @ ys) = owed u xs + owed u ys"
  by (simp add: owed_def)

lemma owed_Nil [simp]: "owed u [] = 0"
  by (simp add: owed_def)

lemma owed_single [simp]: "owed u [e] = (if userId e = u \<and> amountUsdc e > 0 then amountUsdc e else 0)"
  by (simp add: owed_def)

lemma owed_nonneg [simp]: "0 \<le> owed u es"
  unfolding owed_def by (induction es) auto

lemma owed_split: "i < length es \<Longrightarrow> owed u es = owed u (take i es) + owed u [es ! i] + owed u (drop (Suc i) es)"
  by (metis id_take_nth_drop owed_append append_Cons append_Nil add.assoc)

lemma handleProxy_frame:
  assumes "handleProxy d config rq now cx st w = (r, st', w')"
  shows "px_billing st' = px_billing st \<and> px_usage st' = px_usage st \<and> px_jobs st' = px_jobs st \<and>
    px_charges st' = px_charges st \<and> px_emitted st' = px_emitted st \<and> px_limits st' = px_limits st"
  using assms
  by (auto simp: handleProxy_def Let_def split: option.splits prod.splits sum.splits if_splits)

lemma proxy_request_frame:
  assumes "proxy_request d config candidates rq now st w = (r, st', w')"
  shows "px_billing st' = px_billing st \<and> px_usage st' = px_usage st \<and> px_jobs st' = px_jobs st \<and>
    px_charges st' = px_charges st \<and> px_emitted st' = px_emitted st"
  using assms
  by (auto simp: proxy_request_def dest!: handleProxy_frame split: option.splits prod.splits sum.splits)

definition accounts :: "(string \<Rightarrow> usdc) \<Rightarrow> (string \<Rightarrow> usdc) \<Rightarrow> UsageEvent list \<Rightarrow> UsageEvent list \<Rightarrow> bool" where
  "accounts initial current charges emitted \<longleftrightarrow> (\<forall>u. current u \<le> initial u \<and>
     initial u - current u + owed u charges \<le> owed u emitted \<and> (0 \<le> initial u \<longrightarrow> 0 \<le> current u) \<and>
     (owed u emitted \<le> initial u \<longrightarrow> initial u - current u + owed u charges = owed u emitted))"

lemma accounts_start: "accounts init init [] []"
  by (simp add: accounts_def)

lemma accounts_emit:
  assumes "accounts init cur charges emitted"
  shows "accounts init cur (charges @ (if amountUsdc e > 0 then [e] else [])) (emitted @ [e])"
  unfolding accounts_def
proof
  fix u
  have "0 \<le> owed u [e]" by (rule owed_nonneg)
  then show "cur u \<le> init u \<and> init u - cur u + owed u (charges @ (if 0 < amountUsdc e then [e] else [])) \<le> owed u (emitted @ [e]) \<and>
      (0 \<le> init u \<longrightarrow> 0 \<le> cur u) \<and> (owed u (emitted @ [e]) \<le> init u \<longrightarrow>
      init u - cur u + owed u (charges @ (if 0 < amountUsdc e then [e] else [])) = owed u (emitted @ [e]))"
    using assms [unfolded accounts_def, rule_format, of u] by (auto split: if_splits)
qed

lemma accounts_charge:
  assumes "accounts init cur charges emitted" and "i < length charges"
    and "cur' = (\<lambda>v. if v = userId (charges ! i) \<and> 0 < amountUsdc (charges ! i) \<and> amountUsdc (charges ! i) \<le> cur v
      then cur v - amountUsdc (charges ! i) else cur v)"
  shows "accounts init cur' (take i charges @ drop (Suc i) charges) emitted"
  unfolding accounts_def
proof
  fix u
  have nn: "0 \<le> owed u (take i charges)" "0 \<le> owed u (drop (Suc i) charges)" by (rule owed_nonneg)+
  note a = assms(1) [unfolded accounts_def, rule_format, of u]
  show "cur' u \<le> init u \<and> init u - cur' u + owed u (take i charges @ drop (Suc i) charges) \<le> owed u emitted \<and>
      (0 \<le> init u \<longrightarrow> 0 \<le> cur' u) \<and> (owed u emitted \<le> init u \<longrightarrow>
      init u - cur' u + owed u (take i charges @ drop (Suc i) charges) = owed u emitted)"
    using a nn owed_split [OF assms(2), of u]
    by (cases "userId (charges ! i) = u \<and> 0 < amountUsdc (charges ! i)"; cases "amountUsdc (charges ! i) \<le> cur u")
      (auto simp: assms(3))
qed

locale metered_proxy = billing_service "deduct_credit d" "check_balance d" + usage_recorder "insert_usage d" has slot taken
  for d :: "('r, 'b, 'u, 's, 'w) proxy_deps" and has and slot :: "'u \<Rightarrow> UsageEvent \<Rightarrow> 'k option" and taken
begin

lemma accounting:
  assumes "proxy_run d config candidates (st0, w0) (st, w)"
    and "px_emitted st0 = []" and "px_charges st0 = []"
  shows "accounts (\<lambda>u. check_balance d u (px_billing st0)) (\<lambda>u. check_balance d u (px_billing st)) (px_charges st) (px_emitted st) \<and>
    distinct (map (slot (px_usage st)) (filter (\<lambda>e. slot (px_usage st) e \<noteq> None) (px_emitted st))) \<and>
    (\<forall>e \<in> set (px_emitted st). has (requestId e) (px_usage st) \<and> (\<forall>k. slot (px_usage st) e = Some k \<longrightarrow> taken k (px_usage st)))"
  using assms(1)
proof (induction "(st, w)" arbitrary: st w rule: proxy_run.induct)
  case pr_start
  then show ?case using assms(2,3) by (auto simp: accounts_start)
next
  case (pr_request st w rq now r st' w')
  from proxy_request_frame [OF pr_request(3)] pr_request(2) show ?case by simp
next
  case (pr_finish st w i)
  then show ?case by (simp add: response_finished_def)
next
  case (pr_close st w i)
  then show ?case by (simp add: response_closed_def)
next
  case (pr_job st w i uuid now)
  then show ?case by (simp add: run_job_def Let_def)
next
  case (pr_insert st w i)
  show ?case
  proof (cases "i < length (px_recording st)")
    case True
    let ?e = "px_recording st ! i"
    show ?thesis
    proof (cases "insert_usage d ?e (px_usage st)")
      case (Pair recorded usage)
      have keeps: "\<And>r. has r (px_usage st) \<Longrightarrow> has r usage" "\<And>k. taken k (px_usage st) \<Longrightarrow> taken k usage" "slot usage = slot (px_usage st)"
        using ins_keeps [where e = ?e and s = "px_usage st"] Pair by simp_all
      have new: "\<not> taken k (px_usage st)" "taken k usage" if recorded "slot (px_usage st) ?e = Some k" for k
        using ins_free [of ?e "px_usage st" k] ins_takes [of ?e "px_usage st" k] Pair that by simp_all
      have h: "has (requestId ?e) usage" if recorded using ins_has [of ?e "px_usage st"] Pair that by simp
      have "slot (px_usage st) ?e \<notin> slot (px_usage st) ` set (filter (\<lambda>e. slot (px_usage st) e \<noteq> None) (px_emitted st))" if recorded "slot (px_usage st) ?e \<noteq> None"
        using that new pr_insert(2) by fastforce
      with pr_insert(2) True Pair keeps new h accounts_emit [of _ _ _ _ ?e] show ?thesis
        by (auto simp: run_insert_def Let_def)
    qed
  next
    case False
    then show ?thesis using pr_insert(2) by (simp add: run_insert_def)
  qed
next
  case (pr_job_failed st w i)
  then show ?case by (simp add: job_failed_def)
next
  case (pr_insert_failed st w i)
  then show ?case by (simp add: insert_failed_def)
next
  case (pr_charge st w i)
  show ?case
  proof (cases "i < length (px_charges st)")
    case True
    have "accounts (\<lambda>u. check_balance d u (px_billing st0))
      (\<lambda>u. check_balance d u (snd (deduct_credit d (userId (px_charges st ! i)) (amountUsdc (px_charges st ! i)) (px_billing st))))
      (take i (px_charges st) @ drop (Suc i) (px_charges st)) (px_emitted st)"
      by (rule accounts_charge [OF _ True]) (use pr_charge(2) in \<open>auto simp: deduct_check fun_eq_iff\<close>)
    with pr_charge(2) True show ?thesis by (simp add: run_charge_def Let_def)
  next
    case False
    then show ?thesis using pr_charge(2) by (simp add: run_charge_def)
  qed
qed

end

text \<open>The wiring of \<^verbatim>\<open>index.ts\<close>: the in-memory billing with the Postgres usage store. The in-memory
  usage store is the other store with the contract.\<close>

definition live_deps :: "('r, mock_billing, usage_tables, 's, 'w) proxy_deps \<Rightarrow> ('r, mock_billing, usage_tables, 's, 'w) proxy_deps" where
  "live_deps d = d\<lparr>deduct_credit := deductCredit, check_balance := checkBalance, lookup_usage := pg_hasEvent, insert_usage := pg_insert\<rparr>"

definition memory_deps :: "('r, mock_billing, usage_store, 's, 'w) proxy_deps \<Rightarrow> ('r, mock_billing, usage_store, 's, 'w) proxy_deps" where
  "memory_deps d = d\<lparr>deduct_credit := deductCredit, check_balance := checkBalance, lookup_usage := (\<lambda>_ _. False), insert_usage := record_event\<rparr>"


interpretation memory: metered_proxy "memory_deps d" hasEvent "\<lambda>s e. Some (requestId e)" hasEvent
  by (simp add: metered_proxy_def memory_deps_def mock.billing_service_axioms mem_usage.usage_recorder_axioms)

section \<open>Guards of the proxy\<close>

lemma set_update_subset: "x \<in> set (map_set k v m) \<Longrightarrow> x = (k, v) \<or> x \<in> set m"
  by (induction m) (auto split: if_splits)

lemma forward_step_set: "(k, v) \<in> set (forward_step S h acc) \<Longrightarrow> (k, v) \<in> set acc \<or> toLowerCase k \<notin> S"
  by (auto simp: forward_step_def split: option.splits header_value.splits if_splits dest!: set_update_subset)

lemma fold_set_names: "(k, v) \<in> set (fold (forward_step S) headers acc) \<Longrightarrow> (k, v) \<in> set acc \<or> toLowerCase k \<notin> S"
  by (induction headers arbitrary: acc) (auto dest: forward_step_set)

lemma forwarded_name:
  assumes "(k, v) \<in> set (forward_headers config rid headers)"
  shows "k = ''x-request-id'' \<or> toLowerCase k \<notin> set STATIC_HOP_BY_HOP \<union> toLowerCase ` set (stripHeaders config)"
proof (rule disjCI)
  let ?S = "buildHopByHopSet (case map_get headers ''connection'' of Some (Some (One v)) \<Rightarrow> Some (One v) | _ \<Rightarrow> None) \<union>
      toLowerCase ` set (stripHeaders config)"
  assume k: "\<not> toLowerCase k \<notin> set STATIC_HOP_BY_HOP \<union> toLowerCase ` set (stripHeaders config)"
  have "set STATIC_HOP_BY_HOP \<subseteq> buildHopByHopSet cv" for cv
    by (auto simp: buildHopByHopSet_def split: option.split header_value.split)
  with k have "toLowerCase k \<in> ?S" by blast
  then show "k = ''x-request-id''"
    using set_update_subset [of "(k, v)"] assms fold_set_names [of k v ?S headers "[]"]
    unfolding forward_headers_def Let_def by fastforce
qed

lemma execute_world:
  assumes "execute sget sset cfg now key operation b w = (r, b1, w1)" and "w1 \<noteq> w"
  shows "w1 = snd (operation w) \<and> (\<exists>m. fst (admit sget sset cfg now key b) = Inr m)"
  using assms by (auto simp: execute_def split: prod.splits sum.splits)

lemma handleProxy_reaches:
  assumes "handleProxy d config rq now (Some cx) st w = (r, st', w')" and "w' \<noteq> w"
  shows "0 < check_balance d (gk_userId (cx_record cx)) (px_billing st) \<and>
    (\<exists>t u rates res m. rate_check d (cx_key cx) (cx_tier cx) now (px_rates st) = (Inr res, rates) \<and> allowed res \<and>
      buildUpstreamTargetUrl (dep_net d) (base_url (cx_api cx)) (case rq_wildcard rq of None \<Rightarrow> [] | Some p \<Rightarrow> p) = Inr t \<and>
      validateResolvedUpstreamTarget (dep_net d) t (Some (allowedHosts config)) = Inr u \<and>
      fst (admit (breaker_get d) (breaker_set d) (breaker_cfg d) now (api_id (cx_api cx)) (px_breaker st)) = Inr m \<and>
      w' = snd (fetch d u (rq_method rq) (forward_headers config (rq_id rq) (rq_headers rq)) (request_body rq) (timeoutMs config) w))"
  using assms
  by (auto simp: handleProxy_def Let_def split: prod.splits sum.splits if_splits option.splits dest!: execute_world)

lemma handleProxy_waiting:
  assumes "handleProxy d config rq now (Some cx) st w = (r, st', w')"
  shows "px_waiting st' = px_waiting st @ (case r of
      Served status _ _ \<Rightarrow> if recordableStatuses config status then [usage_of rq cx status] else [] | _ \<Rightarrow> [])"
  using assms by (auto simp: handleProxy_def Let_def split: option.splits prod.splits sum.splits if_splits)

section \<open>The per-user limit as a token bucket\<close>

definition abs_buckets :: "gateway_buckets \<Rightarrow> (string, TokenBucketState) js_map" where
  "abs_buckets bs = map (\<lambda>(k, b). (k, \<lparr>level = gw_tokens b, refilledAt = lastRefillAt b\<rparr>)) bs"

lemma abs_buckets_get: "map_get (abs_buckets bs) k = map_option (\<lambda>b. \<lparr>level = gw_tokens b, refilledAt = lastRefillAt b\<rparr>) (map_get bs k)"
  by (simp add: abs_buckets_def map_of_map)

lemma abs_buckets_set: "abs_buckets (map_set k b bs) = map_set k \<lparr>level = gw_tokens b, refilledAt = lastRefillAt b\<rparr> (abs_buckets bs)"
  by (induction bs) (auto simp: abs_buckets_def)

definition buckets_ok :: "int \<Rightarrow> millis \<Rightarrow> gateway_buckets \<Rightarrow> bool" where
  "buckets_ok mx now bs \<longleftrightarrow> (\<forall>(k, b) \<in> set bs. lastRefillAt b \<le> now \<and> gw_tokens b \<le> of_int mx)"

lemma buckets_ok_get: "buckets_ok mx now bs \<Longrightarrow> map_get bs k = Some b \<Longrightarrow> lastRefillAt b \<le> now \<and> gw_tokens b \<le> of_int mx"
  by (auto simp: buckets_ok_def dest!: map_of_SomeD)

lemma buckets_ok_set: "buckets_ok mx now bs \<Longrightarrow> lastRefillAt b \<le> now \<Longrightarrow> gw_tokens b \<le> of_int mx \<Longrightarrow> buckets_ok mx now (map_set k b bs)"
  by (auto simp: buckets_ok_def dest!: set_update_subset)

section \<open>Properties\<close>


definition demo_net :: net where
  "demo_net = \<lparr>parseURL = (\<lambda>s. Some \<lparr>protocol = ''https:'', hostname = ''up'', username = [], password = [],
       search = [], hash = [], pathname = ''/''\<rparr>),
     printURL = (\<lambda>u. ''https://up'' @ pathname u), isIP = (\<lambda>h. 0), ipRangeCheck = (\<lambda>h rs. False),
     dns_lookup = (\<lambda>h. Some [''93.184.216.34''])\<rparr>"

definition demo_api :: ApiRegistryEntry where
  "demo_api = \<lparr>api_id = ''api'', slug = ''weather'', base_url = ''https://up'', api_developerId = ''owner'',
     endpoints = [\<lparr>endpointId = ''e1'', path = ''*'', priceUsdc = 3\<rparr>], api_created_at = None\<rparr>"

definition demo_deps :: "(unit, mock_billing, usage_tables, memory_store, nat) proxy_deps" where
  "demo_deps = \<lparr>rate_check = (\<lambda>k t now r. (Inr allow, r)), deduct_credit = deductCredit, check_balance = checkBalance,
     lookup_usage = pg_hasEvent, insert_usage = pg_insert, breaker_get = memory_get, breaker_set = memory_set,
     breaker_cfg = \<lparr>failure_threshold = 2, cooldown = 100, success_threshold = 1, on_open_error = None, load_time = 0\<rparr>,
     fetch = (\<lambda>u m hs b t w. (Inr \<lparr>up_status = 200, up_headers = [], up_body = Some (Inr ''ok'')\<rparr>, Suc w)),
     dep_net = demo_net, dep_crypto = fixed_crypto,
     dep_registry = \<lparr>byId = [(''api'', demo_api)], bySlug = [(''weather'', demo_api)]\<rparr>, dep_window = 1000, dep_max = 5\<rparr>"

definition demo_config :: proxy_config where
  "demo_config = resolveConfig \<lparr>opt_timeoutMs = None, opt_stripHeaders = None, opt_recordableStatuses = None, opt_allowedHosts = None\<rparr>"

definition demo_state :: "usdc \<Rightarrow> (unit, mock_billing, usage_tables, memory_store) proxy_state" where
  "demo_state bal = \<lparr>px_limits = [], px_rates = (), px_breaker = new_breaker [], px_billing = new_mock_billing [(''dev'', bal)],
     px_usage = demo_tables, px_waiting = [], px_jobs = [], px_recording = [], px_charges = [], px_emitted = [], px_aborts = 0\<rparr>"

definition demo_request :: "string \<Rightarrow> http_request" where
  "demo_request rid = \<lparr>rq_id = rid, rq_method = ''GET'', rq_headers = [(''x-api-key'', Some (One ''secret''))],
     rq_api = ''weather'', rq_wildcard = Some ''now'', rq_body = []\<rparr>"

definition demo_candidates :: "string \<Rightarrow> (string, unit) GatewayAuthCandidate list" where
  "demo_candidates = map_candidates fixed_crypto [(''secret'', demo_key)]"

definition served_once :: "usdc \<Rightarrow> string \<Rightarrow> (unit, mock_billing, usage_tables, memory_store) proxy_state" where
  "served_once bal rid = fst (snd (proxy_request (live_deps demo_deps) demo_config demo_candidates (demo_request rid) 5 (demo_state bal) 0))"


lemma demo_served: "proxy_request (live_deps demo_deps) demo_config demo_candidates (demo_request ''r'') 5 (demo_state 10) 0 =
    (Served 200 [(''x-request-id'', ''r'')] ''ok'', served_once 10 ''r'', 1)"
proof -
  have "fst (proxy_request (live_deps demo_deps) demo_config demo_candidates (demo_request ''r'') 5 (demo_state 10) 0) =
      Served 200 [(''x-request-id'', ''r'')] ''ok''"
    "snd (snd (proxy_request (live_deps demo_deps) demo_config demo_candidates (demo_request ''r'') 5 (demo_state 10) 0)) = 1"
    by code_simp+
  then show ?thesis by (simp add: served_once_def prod_eq_iff)
qed



text \<open>C7. The proxy contacts an upstream only through all of its guards: a request that changes the
  outside world was authenticated, passed the per-key rate limit, came from a caller with a positive
  balance, was admitted by the circuit breaker of its API, and is the one call of \<open>fetch\<close> on a target that
  passed the checks of upstream targets; of the caller's headers it forwards no hop-by-hop header
  and none that is configured to be stripped, apart from the request id the gateway sets itself.\<close>

theorem proxy_guarded:
  assumes "proxy_request d config candidates rq now st w = (r, st', w')" and "w' \<noteq> w"
  shows "\<exists>cx t u res rates. proxy_auth d candidates rq now = Inr cx \<and>
    rate_check d (cx_key cx) (cx_tier cx) now (px_rates st) = (Inr res, rates) \<and> allowed res \<and>
    0 < check_balance d (gk_userId (cx_record cx)) (px_billing st) \<and>
    (\<exists>m. fst (admit (breaker_get d) (breaker_set d) (breaker_cfg d) now (api_id (cx_api cx)) (px_breaker st)) = Inr m) \<and>
    buildUpstreamTargetUrl (dep_net d) (base_url (cx_api cx)) (case rq_wildcard rq of None \<Rightarrow> [] | Some p \<Rightarrow> p) = Inr t \<and>
    validateResolvedUpstreamTarget (dep_net d) t (Some (allowedHosts config)) = Inr u \<and>
    (let headers = forward_headers config (rq_id rq) (rq_headers rq) in
     w' = snd (fetch d u (rq_method rq) headers (request_body rq) (timeoutMs config) w) \<and>
     (\<forall>(k, v) \<in> set headers. k = ''x-request-id'' \<or>
        toLowerCase k \<notin> set STATIC_HOP_BY_HOP \<union> toLowerCase ` set (stripHeaders config)))"
proof -
  obtain cx limits where cx: "proxy_auth d candidates rq now = Inr cx"
    and h: "handleProxy d config rq now (Some cx) (st\<lparr>px_limits := limits\<rparr>) w = (r, st', w')"
    using assms by (auto simp: proxy_request_def split: sum.splits prod.splits option.splits)
  have "\<forall>(k, v) \<in> set (forward_headers config (rq_id rq) (rq_headers rq)). k = ''x-request-id'' \<or>
      toLowerCase k \<notin> set STATIC_HOP_BY_HOP \<union> toLowerCase ` set (stripHeaders config)"
    using forwarded_name by fast
  with handleProxy_reaches [OF h assms(2)] cx show ?thesis
    by (simp add: Let_def) blast
qed

theorem proxy_guarded_witness:
  "\<exists>cx. proxy_auth (live_deps demo_deps) demo_candidates (demo_request ''r'') 5 = Inr cx \<and>
    0 < checkBalance (gk_userId (cx_record cx)) (px_billing (demo_state 10))"
  using proxy_guarded [OF demo_served] by (fastforce simp: live_deps_def)

text \<open>Exactly the delivered responses with a recordable status are metered: a request adds one usage
  event, for the key, API, endpoint and price of its authentication and the status of the response,
  when it is answered in full with a recordable status, and adds none when it fails, is limited, or
  its body breaks off; it changes no balance and no usage record itself, and a response that closes
  before it finishes is counted as an abort and never metered.\<close>

theorem proxy_meters_delivered:
  assumes "proxy_request d config candidates rq now st w = (r, st', w')"
  shows "px_waiting st' = px_waiting st @ (case r of
      Served status _ _ \<Rightarrow> (case proxy_auth d candidates rq now of
        Inr cx \<Rightarrow> if recordableStatuses config status then [usage_of rq cx status] else [] | Inl _ \<Rightarrow> [])
      | _ \<Rightarrow> []) \<and>
    px_billing st' = px_billing st \<and> px_usage st' = px_usage st \<and> px_jobs st' = px_jobs st \<and>
    (\<forall>i < length (px_waiting st'). px_aborts (response_closed i st') = Suc (px_aborts st') \<and>
       px_jobs (response_closed i st') = px_jobs st' \<and> px_usage (response_closed i st') = px_usage st')"
proof -
  have "px_waiting st' = px_waiting st @ (case r of
      Served status _ _ \<Rightarrow> (case proxy_auth d candidates rq now of
        Inr cx \<Rightarrow> if recordableStatuses config status then [usage_of rq cx status] else [] | Inl _ \<Rightarrow> [])
      | _ \<Rightarrow> [])"
    using assms by (auto simp: proxy_request_def split: sum.splits prod.splits option.splits reply.split dest!: handleProxy_waiting)
  with proxy_request_frame [OF assms] show ?thesis by (simp add: response_closed_def)
qed

theorem proxy_meters_delivered_witness:
  "length (px_waiting (served_once 10 ''r'')) = 1"
proof -
  have "\<not> isl (proxy_auth (live_deps demo_deps) demo_candidates (demo_request ''r'') 5)" by code_simp
  moreover have "recordableStatuses demo_config 200" "px_waiting (demo_state 10) = []"
    by (simp_all add: demo_config_def resolveConfig_def demo_state_def)
  ultimately show ?thesis
    using proxy_meters_delivered [OF demo_served]
    by (cases "proxy_auth (live_deps demo_deps) demo_candidates (demo_request ''r'') 5") simp_all
qed

text \<open>A repeated request id is served but not paid for: when a request carries an id that the usage
  store already knows, and the id is the caller's own \<open>X-Request-Id\<close> header whenever that is usable,
  its job starts no recording and leaves the balances, the usage store and the deductions under way as they are.\<close>

theorem repeated_request_id_free:
  assumes "i < length (px_jobs st)" and "pg_hasEvent (requestId (px_jobs st ! i)) (px_usage st)"
  shows "let st' = run_job (live_deps d) i uuid now st in
    px_billing st' = px_billing st \<and> px_usage st' = px_usage st \<and> px_charges st' = px_charges st \<and> px_recording st' = px_recording st \<and>
    length (px_jobs st') = length (px_jobs st) - 1 \<and>
    (sanitizeRequestId (Some x) = Some x \<longrightarrow> fst (requestIdMiddleware (Some x) c fresh) = x)"
  using assms by (auto simp: run_job_def live_deps_def Let_def requestIdMiddleware_def split: if_splits)

theorem repeated_request_id_free_witness:
  "let st = (demo_state 10)\<lparr>px_jobs := [demo_event ''r''], px_usage := snd (pg_insert (demo_event ''r'') demo_tables)\<rparr> in
   px_billing (run_job (live_deps demo_deps) 0 ''v'' 9 st) = px_billing st"
proof -
  let ?st = "(demo_state 10)\<lparr>px_jobs := [demo_event ''r''], px_usage := snd (pg_insert (demo_event ''r'') demo_tables)\<rparr>"
  have "0 < length (px_jobs ?st)" "pg_hasEvent (requestId (px_jobs ?st ! 0)) (px_usage ?st)"
    by (simp_all add: pg_insert_def pg_hasEvent_def demo_tables_def demo_event_def Let_def)
  from repeated_request_id_free [OF this, of demo_deps "''v''" 9, unfolded Let_def] show ?thesis
    unfolding Let_def by blast
qed

text \<open>The per-user limit of the gateway is the token bucket of the REST middleware: with a clock that
  does not run backwards it takes the same decisions and keeps the same levels as a bucket of
  \<open>maxRequests\<close> tokens refilled at \<open>maxRequests\<close> per window, and it reports the same waiting time,
  raised to at least a second.\<close>

theorem gateway_limit_is_token_bucket:
  assumes "0 < win" and "0 < mx" and "buckets_ok mx now bs"
  shows "case gateway_check win mx key now bs of (r, bs') \<Rightarrow>
    (case token_check (of_int mx) (1000 * refill_rate win mx) key now (abs_buckets bs) of (r0, ts) \<Rightarrow>
      abs_buckets bs' = ts \<and> allowed r = allowed r0 \<and>
      retryAfterMs r = map_option (\<lambda>ms. max ms 1000) (retryAfterMs r0) \<and> buckets_ok mx now bs')"
proof (cases "map_get bs key")
  case None
  then show ?thesis
    using assms by (simp add: gateway_check_def token_check_def abs_buckets_get abs_buckets_set buckets_ok_set)
next
  case (Some b)
  define t where "t = min (of_int mx) (gw_tokens b + of_int (now - lastRefillAt b) * refill_rate win mx)"
  note ok = buckets_ok_get [OF assms(3) Some]
  have tc: "token_check (of_int mx) (1000 * refill_rate win mx) key now (abs_buckets bs) =
     (if t \<ge> 1 then (allow, map_set key \<lparr>level = t - 1, refilledAt = now\<rparr> (abs_buckets bs))
      else (deny \<lceil>(1 - t) / refill_rate win mx\<rceil>, map_set key \<lparr>level = t, refilledAt = now\<rparr> (abs_buckets bs)))"
  proof (cases "now = lastRefillAt b")
    case True
    then have "t = gw_tokens b" using ok by (simp add: t_def)
    then show ?thesis using Some True by (simp add: token_check_def abs_buckets_get Let_def)
  next
    case False
    then have "min (of_int mx) (gw_tokens b + of_int (now - lastRefillAt b) / 1000 * (1000 * refill_rate win mx)) = t" "0 < now - lastRefillAt b"
      using ok by (simp_all add: t_def)
    then show ?thesis using Some by (simp only: token_check_def abs_buckets_get Let_def option.case option.map) simp
  qed
  have gc: "gateway_check win mx key now bs =
     (if t \<ge> 1 then (allow, map_set key \<lparr>gw_tokens = t - 1, lastRefillAt = now\<rparr> bs)
      else (deny (max \<lceil>(1 - t) / refill_rate win mx\<rceil> 1000), map_set key \<lparr>gw_tokens = t, lastRefillAt = now\<rparr> bs))"
    using Some by (simp only: gateway_check_def option.case Let_def t_def)
  have "t \<le> of_int mx" "t - 1 \<le> of_int mx" by (simp_all add: t_def)
  then show ?thesis
    using assms(3) by (cases "1 \<le> t") (simp_all add: gc tc abs_buckets_set buckets_ok_set)
qed

theorem gateway_limit_is_token_bucket_witness:
  "abs_buckets (snd (gateway_check 1000 2 ''user:u'' 100 [(''user:u'', \<lparr>gw_tokens = 0, lastRefillAt = 50\<rparr>)])) =
     snd (token_check 2 2 ''user:u'' 100 [(''user:u'', \<lparr>level = 0, refilledAt = 50\<rparr>)])"
  using gateway_limit_is_token_bucket [of 1000 2 100 "[(''user:u'', \<lparr>gw_tokens = 0, lastRefillAt = 50\<rparr>)]" "''user:u''"]
  by (simp add: buckets_ok_def split_beta refill_rate_def abs_buckets_def [of "[_]"])
end
