(* ===== verification/Gateway.thy ===== *)
theory Gateway
  imports Proxy
begin

text \<open>
  The gateway router \<open>/api/gateway\<close> of \<^verbatim>\<open>routes/gatewayRoutes.ts\<close>: key lookup, the metered route
  \<open>ALL /:apiId\<close>, the health endpoint with its cache and the latency percentiles of
  \<^verbatim>\<open>metrics.ts\<close> behind it. The names the file uses without importing them (the revocation list,
  the breaker settings, the correlation middleware) are taken from the modules that define them;
  as it stands the file does not compile, and the model is of the code with these imports. Recording
  a call is modelled for stores that answer: a store that fails would turn the answer into an error.
  The health of an upstream is computed from the metric values of the registry, which are an input.
\<close>

section \<open>Key lookup\<close>

datatype resolve_error = KeyNotFound | HashMismatch

fun resolve_loop :: "crypto \<Rightarrow> string \<Rightarrow> string \<Rightarrow> bool \<Rightarrow> (string, InMemoryGatewayApiKey) js_map \<Rightarrow>
    resolve_error + InMemoryGatewayApiKey" where
  "resolve_loop c p inboundHash prefixFound [] = Inl (if prefixFound then HashMismatch else KeyNotFound)"
| "resolve_loop c p inboundHash prefixFound ((rawKey, record) # rest) =
    (if \<not> timingSafeStringEqual (take 16 rawKey) p then resolve_loop c p inboundHash prefixFound rest
     else if timingSafeStringEqual inboundHash (sha256Hex c rawKey) then Inr record
     else resolve_loop c p inboundHash True rest)"

definition resolveApiKey :: "crypto \<Rightarrow> string \<Rightarrow> (string, InMemoryGatewayApiKey) js_map \<Rightarrow> resolve_error + InMemoryGatewayApiKey" where
  "resolveApiKey c apiKeyHeader keys = resolve_loop c (take 16 apiKeyHeader) (sha256Hex c apiKeyHeader) False keys"

section \<open>The metered route\<close>

record gateway_request = http_request +
  gr_path :: string
  gr_correlation :: "string option"

record ('r, 'b, 'u, 'w) gateway_deps =
  gd_rate_check :: "string \<Rightarrow> string option \<Rightarrow> millis \<Rightarrow> 'r \<Rightarrow> RateLimitResult result \<times> 'r"
  gd_deduct :: "string \<Rightarrow> usdc \<Rightarrow> 'b \<Rightarrow> BillingResult \<times> 'b"
  gd_record :: "UsageEvent \<Rightarrow> 'u \<Rightarrow> bool \<times> 'u"
  gd_fetch :: "string \<Rightarrow> string \<Rightarrow> (string, string) js_map \<Rightarrow> string option \<Rightarrow> millis \<Rightarrow> 'w \<Rightarrow>
    (fetch_error + upstream_response) \<times> 'w"
  gd_crypto :: crypto
  gd_keys :: "(string, InMemoryGatewayApiKey) js_map"
  gd_upstreamUrl :: string
  gd_breaker :: "fetch_error CircuitBreakerConfig"
  gd_loaded :: millis
  gd_window :: millis
  gd_max :: int
  gd_json :: "string \<Rightarrow> string option"

record ('r, 'b, 'u) gateway_state =
  gw_limits :: gateway_buckets
  gw_rates :: 'r
  gw_breakers :: "fetch_error registry"
  gw_billing :: 'b
  gw_usage :: 'u
  gw_emitted :: "UsageEvent list"
  gw_revoked :: revocations

definition CREDIT_COST_PER_CALL :: usdc where
  "CREDIT_COST_PER_CALL = 1"

definition legacy_headers :: "gateway_request \<Rightarrow> (string, string) js_map" where
  "legacy_headers rq = [(''Content-Type'', ''application/json''), (''x-request-id'', rq_id rq),
     (''x-correlation-id'', case gr_correlation rq of None \<Rightarrow> rq_id rq | Some c \<Rightarrow> c)]"

definition legacy_body :: "gateway_request \<Rightarrow> string option" where
  "legacy_body rq = (if rq_method rq \<in> {''GET'', ''HEAD''} then None else Some (rq_body rq))"

definition safe_headers :: "(string, string) js_map \<Rightarrow> (string, string) js_map" where
  "safe_headers headers =
    (let stripSet = buildHopByHopSet (map_option One (map_get headers ''connection'')) in
     fold (\<lambda>(key, v) acc. if toLowerCase key \<notin> stripSet \<and> toLowerCase key \<noteq> ''content-type'' then map_set key v acc else acc)
       headers [])"

definition legacy_event :: "gateway_request \<Rightarrow> string \<Rightarrow> InMemoryGatewayApiKey \<Rightarrow> int \<Rightarrow> string \<Rightarrow> millis \<Rightarrow> UsageEvent" where
  "legacy_event rq key record status uuid now =
    \<lparr>event_id = uuid, requestId = rq_id rq, apiKey = key, apiKeyId = mk_key record, apiId = mk_apiId record,
     UsageEvent.endpointId = ''legacy'', userId = mk_developerId record, amountUsdc = CREDIT_COST_PER_CALL,
     event_status = status, timestamp = now, settlementId = None\<rparr>"

text \<open>The answer to the caller: JSON bodies are parsed and printed again when they parse.\<close>

definition legacy_reply :: "(string \<Rightarrow> string option) \<Rightarrow> gateway_request \<Rightarrow> upstream_response \<Rightarrow> string \<Rightarrow> reply" where
  "legacy_reply json rq res text =
    (let contentType = (case map_get (up_headers res) ''content-type'' of None \<Rightarrow> ''application/octet-stream'' | Some t \<Rightarrow> t);
         headers = fold (\<lambda>(key, v) acc. map_set key v acc) (safe_headers (up_headers res)) [(''x-request-id'', rq_id rq)];
         body = (if str_includes (toLowerCase contentType) ''application/json''
                 then (case json text of Some t \<Rightarrow> t | None \<Rightarrow> text) else text) in
     Served (up_status res) (map_set ''content-type'' contentType headers) body)"

text \<open>From the charge on: the caller has passed every check.\<close>

definition gateway_call :: "('r, 'b, 'u, 'w) gateway_deps \<Rightarrow> gateway_request \<Rightarrow> string \<Rightarrow> InMemoryGatewayApiKey \<Rightarrow> millis \<Rightarrow> string \<Rightarrow>
    ('r, 'b, 'u) gateway_state \<Rightarrow> 'w \<Rightarrow> reply \<times> ('r, 'b, 'u) gateway_state \<times> 'w" where
  "gateway_call d rq key record now uuid st w =
    (case gd_deduct d (mk_developerId record) CREDIT_COST_PER_CALL (gw_billing st) of (billed, billing) \<Rightarrow>
     (let st = st\<lparr>gw_billing := billing\<rparr> in
      if \<not> success billed
      then (Failed (PaymentRequiredError ''Payment Required: insufficient balance'' ''PAYMENT_REQUIRED'') [], st, w)
      else
       (case gd_fetch d (gd_upstreamUrl d @ gr_path rq) (rq_method rq) (legacy_headers rq) (legacy_body rq) 30000 w of
          (Inl e, w1) \<Rightarrow> (Failed (upstream_error e) [], st, w1)
        | (Inr res, w1) \<Rightarrow>
           (case up_body res of
              Some (Inl e) \<Rightarrow> (Failed (upstream_error e) [], st, w1)
            | body \<Rightarrow>
               (let text = (case body of Some (Inr t) \<Rightarrow> t | _ \<Rightarrow> []);
                    e = legacy_event rq key record (up_status res) uuid now in
                case gd_record d e (gw_usage st) of (recorded, usage) \<Rightarrow>
                  (legacy_reply (gd_json d) rq res text,
                   st\<lparr>gw_usage := usage, gw_emitted := gw_emitted st @ (if recorded then [e] else [])\<rparr>, w1))))))"

text \<open>The checks before the charge, in their order.\<close>

definition gateway_checks :: "('r, 'b, 'u, 'w) gateway_deps \<Rightarrow> gateway_request \<Rightarrow> millis \<Rightarrow>
    ('r, 'b, 'u) gateway_state \<Rightarrow> (reply + string \<times> InMemoryGatewayApiKey) \<times> ('r, 'b, 'u) gateway_state" where
  "gateway_checks d rq now st =
    (if length (rq_api rq) = 0 \<or> length (rq_api rq) > 50
     then (Inl (Failed (BadRequestError ''Request validation failed'' ''VALIDATION_ERROR'') []), st)
     else (case truthy (header_text (rq_headers rq) ''x-api-key'') of
       None \<Rightarrow> (Inl (Failed (UnauthorizedError ''Unauthorized: missing x-api-key header'' ''UNAUTHORIZED'') []), st)
     | Some key \<Rightarrow> (case resolveApiKey (gd_crypto d) key (gd_keys d) of
         Inl _ \<Rightarrow> (Inl (Failed (UnauthorizedError ''Unauthorized: invalid API key'' ''UNAUTHORIZED'') []), st)
       | Inr record \<Rightarrow>
          if mk_apiId record \<noteq> rq_api rq
          then (Inl (Failed (UnauthorizedError ''Unauthorized: invalid API key'' ''UNAUTHORIZED'') []), st)
          else (case isRevoked (sha256Hex (gd_crypto d) key) now (gw_revoked st) of (revoked, revocations) \<Rightarrow>
           (let st = st\<lparr>gw_revoked := revocations\<rparr> in
            if revoked \<or> mk_revoked record = Some True
            then (Inl (Failed (ForbiddenError ''Forbidden: API key has been revoked'' ''FORBIDDEN'') []), st)
            else (case gatewayRateLimit (gd_window d) (gd_max d) (Some (mk_developerId record)) now (gw_limits st) of
              (Some (secs, ms), limits) \<Rightarrow> (Inl (Limited secs ms), st\<lparr>gw_limits := limits\<rparr>)
            | (None, limits) \<Rightarrow>
               (case gd_rate_check d key None now (gw_rates st) of (checked, rates) \<Rightarrow>
               (let st = st\<lparr>gw_limits := limits, gw_rates := rates\<rparr> in
                case checked of
                  Inl e \<Rightarrow> (Inl (Failed e []), st)
                | Inr rateResult \<Rightarrow>
                   if \<not> allowed rateResult
                   then (Inl (Failed (TooManyRequestsError ''Too Many Requests'' ''TOO_MANY_REQUESTS'') (retry_after rateResult)), st)
                   else (case getOrCreate (gd_loaded d) (rq_api rq) (gd_breaker d) (gw_breakers st) of
                     Inl e \<Rightarrow> (Inl (Failed e []), st)
                   | Inr (endpointBreaker, breakers) \<Rightarrow>
                      (let st = st\<lparr>gw_breakers := breakers\<rparr> in
                       if wouldBlock memory_get (reg_config endpointBreaker) now (rq_api rq) (reg_breaker endpointBreaker)
                       then (Inl (Failed (ServiceUnavailableError ''Service Unavailable: endpoint circuit breaker is open''
                              ''SERVICE_UNAVAILABLE'') []), st)
                       else (Inr (key, record), st)))))))))))"

definition gateway_route :: "('r, 'b, 'u, 'w) gateway_deps \<Rightarrow> gateway_request \<Rightarrow> millis \<Rightarrow> string \<Rightarrow>
    ('r, 'b, 'u) gateway_state \<Rightarrow> 'w \<Rightarrow> reply \<times> ('r, 'b, 'u) gateway_state \<times> 'w" where
  "gateway_route d rq now uuid st w = (case gateway_checks d rq now st of
       (Inl r, st1) \<Rightarrow> (r, st1, w)
     | (Inr (key, record), st1) \<Rightarrow> gateway_call d rq key record now uuid st1 w)"

section \<open>Upstream health\<close>

record metric_entry =
  metric_value :: rat
  metric_api :: "string option"
  metric_le :: "rat option"
  metricName :: "string option"

definition is_bucket :: "metric_entry \<Rightarrow> bool" where
  "is_bucket v = (case metricName v of None \<Rightarrow> False | Some n \<Rightarrow> suffix ''_bucket'' n)"

definition is_count :: "metric_entry \<Rightarrow> bool" where
  "is_count v = (case metricName v of None \<Rightarrow> False | Some n \<Rightarrow> \<not> suffix ''_bucket'' n \<and> suffix ''_count'' n)"

text \<open>The label \<open>le\<close> is read as a number, with \<open>+Inf\<close> and unreadable labels \<open>None\<close>.\<close>

definition add_bucket :: "metric_entry \<Rightarrow> (rat, rat) js_map \<Rightarrow> (rat, rat) js_map" where
  "add_bucket v m = (if is_bucket v then (case metric_le v of
       None \<Rightarrow> m
     | Some bound \<Rightarrow> map_set bound ((case map_get m bound of None \<Rightarrow> 0 | Some n \<Rightarrow> n) + metric_value v) m) else m)"

fun cumulate :: "rat \<Rightarrow> (rat \<times> rat) list \<Rightarrow> (rat \<times> rat) list" where
  "cumulate acc [] = []"
| "cumulate acc ((bound, n) # rest) = (bound, acc + n) # cumulate (acc + n) rest"

fun percentile_loop :: "rat \<Rightarrow> rat \<Rightarrow> rat \<Rightarrow> (rat \<times> rat) list \<Rightarrow> rat option" where
  "percentile_loop target prevBound prevCumulative [] = None"
| "percentile_loop target prevBound prevCumulative ((bound, cumulative) # rest) =
    (if cumulative \<ge> target
     then (let bucketWidth = bound - prevBound; countInBucket = cumulative - prevCumulative in
       if countInBucket \<le> 0 then Some bound
       else Some (prevBound + (target - prevCumulative) / countInBucket * bucketWidth))
     else percentile_loop target bound cumulative rest)"

definition computePercentile :: "(rat \<times> rat) list \<Rightarrow> rat \<Rightarrow> rat \<Rightarrow> rat option" where
  "computePercentile buckets totalCount percentile =
    (if totalCount = 0 then None
     else (case percentile_loop (totalCount * percentile) 0 0 buckets of
       Some p \<Rightarrow> Some p
     | None \<Rightarrow> if buckets = [] then None else Some (fst (last buckets))))"

definition js_round :: "rat \<Rightarrow> int" where
  "js_round x = \<lfloor>x + 1 / 2\<rfloor>"

definition getUpstreamHealth :: "string \<Rightarrow> metric_entry list \<Rightarrow> rat option \<times> rat option" where
  "getUpstreamHealth apiSlug values =
    (let matching = filter (\<lambda>v. metric_api v = Some apiSlug) values in
     if matching = [] then (None, None)
     else (let bucketCounts = fold add_bucket matching [];
               totalCount = sum_list (map metric_value (filter is_count matching)) in
       if totalCount = 0 then (None, None)
       else (let cumulativeBuckets = cumulate 0 (sort_key fst bucketCounts);
                 rounded = map_option (\<lambda>p. of_int (js_round (p * 1000)) / 1000) in
         (rounded (computePercentile cumulativeBuckets totalCount (1 / 2)),
          rounded (computePercentile cumulativeBuckets totalCount (95 / 100))))))"

section \<open>The health route\<close>

record health_data =
  hd_slug :: string
  hd_p50 :: "rat option"
  hd_p95 :: "rat option"
  hd_breaker :: string

type_synonym health_cache = "(string, health_data \<times> millis) js_map"

fun mapBreakerState :: "CircuitBreakerState \<Rightarrow> string" where
  "mapBreakerState CLOSED = ''closed''"
| "mapBreakerState OPEN = ''open''"
| "mapBreakerState HALF_OPEN = ''half-open''"

definition to_millis :: "rat option \<Rightarrow> rat option" where
  "to_millis p = map_option (\<lambda>s. of_int (js_round (s * 1000 * 100)) / 100) p"

definition health_route :: "api_registry option \<Rightarrow> metric_entry list \<Rightarrow> fetch_error registry \<Rightarrow> string \<Rightarrow> millis \<Rightarrow> health_cache \<Rightarrow>
    health_data result \<times> health_cache" where
  "health_route registry values breakers apiSlug now cache =
    (let apiId = (case registry of None \<Rightarrow> Some apiSlug | Some r \<Rightarrow> map_option api_id (resolve_api apiSlug r)) in
     case apiId of
       None \<Rightarrow> (Inl (NotFoundError ''API not found'' ''NOT_FOUND''), cache)
     | Some i \<Rightarrow>
        (let fresh = (case getUpstreamHealth i values of (p50, p95) \<Rightarrow>
               \<lparr>hd_slug = apiSlug, hd_p50 = to_millis p50, hd_p95 = to_millis p95,
                hd_breaker = mapBreakerState (registry_getState apiSlug breakers)\<rparr>) in
         case map_get cache apiSlug of
           Some (data, stamp) \<Rightarrow> if now - stamp < 5000 then (Inr data, cache)
             else (Inr fresh, map_set apiSlug (fresh, now) cache)
         | None \<Rightarrow> (Inr fresh, map_set apiSlug (fresh, now) cache)))"

definition clearHealthCache :: "health_cache \<Rightarrow> health_cache" where
  "clearHealthCache cache = []"

definition gateway_list_route :: "(string \<Rightarrow> string \<Rightarrow> int) \<Rightarrow> api_registry option \<Rightarrow> cursor option \<Rightarrow> rat option \<Rightarrow>
    ApiRegistryEntry list \<times> cursor option" where
  "gateway_list_route localeCompare registry cursor rawLimit = (case registry of
       None \<Rightarrow> ([], None)
     | Some r \<Rightarrow> list_apis localeCompare (gateway_list_limit rawLimit) r cursor)"

section \<open>Runs\<close>

inductive gateway_run :: "('r, 'b, 'u, 'w) gateway_deps \<Rightarrow> ('r, 'b, 'u) gateway_state \<times> 'w \<Rightarrow> bool" for d where
  gr_start: "gw_breakers st = [] \<Longrightarrow> gateway_run d (st, w)"
| gr_request: "gateway_run d (st, w) \<Longrightarrow> gateway_route d rq now uuid st w = (r, st', w') \<Longrightarrow> gateway_run d (st', w')"

section \<open>Lemmas\<close>

definition served :: "reply \<Rightarrow> int option" where
  "served r = (case r of Served status _ _ \<Rightarrow> Some status | _ \<Rightarrow> None)"


lemma served_legacy [simp]: "served (legacy_reply json rq res text) = Some (up_status res)"
  by (simp add: served_def legacy_reply_def Let_def)

lemma served_simps [simp]: "served (Failed e hs) = None" "served (Limited n ms) = None"
  "served (Served status hs body) = Some status" "served (Broken e status hs) = None"
  by (simp_all add: served_def)



lemma gateway_call_breakers:
  "gateway_call d rq key record now uuid st w = (r, st', w') \<Longrightarrow> gw_breakers st' = gw_breakers st"
  by (auto simp: gateway_call_def Let_def split: prod.splits sum.splits option.splits if_splits)

lemma gateway_checks_frame:
  assumes "gateway_checks d rq now st = (out, st')"
  shows "gw_billing st' = gw_billing st \<and> gw_usage st' = gw_usage st \<and> gw_emitted st' = gw_emitted st \<and>
    (gw_breakers st' = gw_breakers st \<or>
     (\<exists>b. getOrCreate (gd_loaded d) (rq_api rq) (gd_breaker d) (gw_breakers st) = Inr (b, gw_breakers st')))"
  using assms unfolding gateway_checks_def Let_def
  by (auto split: if_splits option.splits sum.splits prod.splits)







definition breakers_new :: "fetch_error registry \<Rightarrow> bool" where
  "breakers_new reg \<longleftrightarrow> (\<forall>(k, r) \<in> set reg. reg_breaker r = new_breaker [])"

lemma getOrCreate_new: "getOrCreate t k cfg reg = Inr (b, reg') \<Longrightarrow> breakers_new reg \<Longrightarrow> breakers_new reg'"
  by (auto simp: getOrCreate_def breakers_new_def Let_def split: option.splits sum.splits dest!: set_update_subset)

lemma gateway_run_breakers: "gateway_run d (st, w) \<Longrightarrow> breakers_new (gw_breakers st)"
proof (induction "(st, w)" arbitrary: st w rule: gateway_run.induct)
  case (gr_start st w)
  then show ?case by (simp add: breakers_new_def)
next
  case (gr_request st w rq now uuid r st' w')
  obtain out st1 where c: "gateway_checks d rq now st = (out, st1)" by fastforce
  have "gw_breakers st' = gw_breakers st1"
    using gr_request(3) c by (auto simp: gateway_route_def dest: gateway_call_breakers split: sum.splits)
  with gateway_checks_frame [OF c] gr_request(2) show ?case by (metis getOrCreate_new)
qed

section \<open>Properties\<close>


definition demo_gateway :: "(unit, mock_billing, usage_store, nat) gateway_deps" where
  "demo_gateway = \<lparr>gd_rate_check = (\<lambda>k t now r. (Inr allow, r)), gd_deduct = deductCredit, gd_record = record_event,
     gd_fetch = (\<lambda>u m hs b t w. (Inl TimeoutError, Suc w)), gd_crypto = fixed_crypto, gd_keys = [(''secret'', demo_key)],
     gd_upstreamUrl = ''http://up'', gd_breaker = \<lparr>failureThreshold = None, cooldownMs = None, successThreshold = None, onOpenError = None\<rparr>,
     gd_loaded = 0, gd_window = 1000, gd_max = 5, gd_json = (\<lambda>t. Some t)\<rparr>"

definition demo_gateway_state :: "(unit, mock_billing, usage_store) gateway_state" where
  "demo_gateway_state = \<lparr>gw_limits = [], gw_rates = (), gw_breakers = [], gw_billing = new_mock_billing [(''dev'', 2)],
     gw_usage = empty_usage, gw_emitted = [], gw_revoked = []\<rparr>"

definition demo_gateway_request :: gateway_request where
  "demo_gateway_request = \<lparr>rq_id = ''r'', rq_method = ''GET'', rq_headers = [(''x-api-key'', Some (One ''secret''))],
     rq_api = ''api'', rq_wildcard = None, rq_body = [], gr_path = ''/api'', gr_correlation = None\<rparr>"

definition demo_gateway_out :: "reply \<times> (unit, mock_billing, usage_store) gateway_state \<times> nat" where
  "demo_gateway_out = gateway_route demo_gateway demo_gateway_request 5 ''u'' demo_gateway_state 0"


text \<open>The endpoint breakers of the gateway never open: whatever the upstream does, in every state
  reached by requests from an empty breaker registry every endpoint is closed and no request is
  turned away by its breaker.\<close>

theorem gateway_breaker_never_opens:
  assumes "gateway_run d (st, w)"
  shows "registry_getState k (gw_breakers st) = CLOSED \<and>
    (\<forall>r. map_get (gw_breakers st) k = Some r \<longrightarrow> \<not> wouldBlock memory_get (reg_config r) now k (reg_breaker r))"
proof -
  have "reg_breaker r = new_breaker []" if "map_get (gw_breakers st) k = Some r" for r
    using gateway_run_breakers [OF assms] map_of_SomeD [OF that] by (auto simp: breakers_new_def)
  then show ?thesis
    by (auto simp: registry_getState_def getState_def wouldBlock_def getMetrics_def memory_get_def new_breaker_def
        default_metrics_def Let_def split: option.split)
qed

theorem gateway_breaker_never_opens_witness:
  "registry_getState ''api'' (gw_breakers (fst (snd demo_gateway_out))) = CLOSED"
proof -
  have "gateway_run demo_gateway (demo_gateway_state, 0)" by (rule gr_start) (simp add: demo_gateway_state_def)
  then have "gateway_run demo_gateway (fst (snd demo_gateway_out), snd (snd demo_gateway_out))"
    by (rule gr_request [where rq = demo_gateway_request and now = 5 and uuid = "''u''" and r = "fst demo_gateway_out"])
      (simp add: demo_gateway_out_def)
  from gateway_breaker_never_opens [OF this] show ?thesis by blast
qed

end
