(* ===== verification/Idempotency.thy ===== *)
theory Idempotency
  imports Paging
begin

text \<open>
  The idempotency middleware (\<^verbatim>\<open>middleware/idempotency.ts\<close>) over the table \<open>idempotency_store\<close>,
  whose primary key is \<open>idempotency_key\<close>, and the sweeper of \<^verbatim>\<open>services/idempotencySweeper.ts\<close>.

  One request runs in three database steps that interleave with those of other requests: the
  lookup, the claim of the key, and the saving of the response. JSON values are a datatype with
  integer numbers; object keys are kept in their order and are not array indices. \<open>JSON.stringify\<close>
  is written out, \<open>JSON.parse\<close> appears as the test whether a text parses, and SHA-256 is a
  parameter.
\<close>

section \<open>JSON\<close>

datatype json = JNull | JBool bool | JNum int | JStr string | JArr "json list" | JObj "(string \<times> json) list"

definition hex_digit :: "nat \<Rightarrow> char" where
  "hex_digit n = (if n < 10 then char_of (48 + n) else char_of (87 + n))"

definition escape_char :: "char \<Rightarrow> string" where
  "escape_char c = (let n = (of_char c :: nat) in
     if n = 34 then [CHR 0x5C, CHR 0x22] else if n = 92 then [CHR 0x5C, CHR 0x5C]
     else if n = 8 then [CHR 0x5C, CHR ''b''] else if n = 9 then [CHR 0x5C, CHR ''t'']
     else if n = 10 then [CHR 0x5C, CHR ''n''] else if n = 12 then [CHR 0x5C, CHR ''f'']
     else if n = 13 then [CHR 0x5C, CHR ''r'']
     else if n < 32 then CHR 0x5C # ''u00'' @ [hex_digit (n div 16), hex_digit (n mod 16)]
     else [c])"

definition quote_string :: "string \<Rightarrow> string" where
  "quote_string s = CHR 0x22 # concat (map escape_char s) @ [CHR 0x22]"

fun join_with :: "string \<Rightarrow> string list \<Rightarrow> string" where
  "join_with sep [] = []"
| "join_with sep [x] = x"
| "join_with sep (x # y # xs) = x @ sep @ join_with sep (y # xs)"

fun stringify :: "json \<Rightarrow> string" where
  "stringify JNull = ''null''"
| "stringify (JBool b) = (if b then ''true'' else ''false'')"
| "stringify (JNum n) = show_int n"
| "stringify (JStr s) = quote_string s"
| "stringify (JArr xs) = ''['' @ join_with '','' (map stringify xs) @ '']''"
| "stringify (JObj kvs) = ''{'' @ join_with '','' (map (\<lambda>kv. quote_string (fst kv) @ '':'' @ stringify (snd kv)) kvs) @ ''}''"

section \<open>The request hash\<close>

fun sortObjectKeys :: "json \<Rightarrow> json" where
  "sortObjectKeys (JArr xs) = JArr (map sortObjectKeys xs)"
| "sortObjectKeys (JObj kvs) = JObj (sort_key fst (map (\<lambda>kv. (fst kv, sortObjectKeys (snd kv))) kvs))"
| "sortObjectKeys v = v"

fun removeKeys :: "string list \<Rightarrow> json \<Rightarrow> json" where
  "removeKeys ks (JArr xs) = JArr (map (removeKeys ks) xs)"
| "removeKeys ks (JObj kvs) = JObj (map (\<lambda>kv. (fst kv, removeKeys ks (snd kv))) (filter (\<lambda>kv. fst kv \<notin> set ks) kvs))"
| "removeKeys ks v = v"

definition falsy :: "json \<Rightarrow> bool" where
  "falsy v \<longleftrightarrow> v \<in> {JNull, JBool False, JNum 0, JStr []}"

definition request_payload :: "string option \<Rightarrow> json \<Rightarrow> string \<Rightarrow> string \<Rightarrow> string list \<Rightarrow> json" where
  "request_payload user body method path excluded =
    (let cleanBody = (if falsy body then JObj [] else body) in
     JObj [(''userId'', JStr (case user of None \<Rightarrow> [] | Some u \<Rightarrow> u)), (''method'', JStr method), (''path'', JStr path),
           (''body'', sortObjectKeys (removeKeys excluded cleanBody))])"

definition calculateRequestHash :: "(string \<Rightarrow> string) \<Rightarrow> string option \<Rightarrow> json \<Rightarrow> string \<Rightarrow> string \<Rightarrow> string list \<Rightarrow> string" where
  "calculateRequestHash sha256 user body method path excluded =
     sha256 (stringify (request_payload user body method path excluded))"

section \<open>Configuration and the key of a request\<close>

record IdempotencyConfig =
  keyFromHeader :: "string option"
  keyFromBody :: "string option"
  bodyExcludingKeys :: "string list option"
  retentionSeconds :: "int option"
  cleanExpiredTTL :: "bool option"
  conflictErrorCode :: "string option"
  inProgressErrorCode :: "string option"
  idem_methods :: "string list option"
  allowBodyKey :: "bool option"
  maxKeyLength :: "nat option"
  keyPattern :: "(string \<Rightarrow> bool) option"

record idem_request =
  iq_method :: string
  iq_path :: string
  iq_header :: "string \<Rightarrow> string option"
  iq_body :: json
  iq_user :: "string option"

definition upper :: "string \<Rightarrow> string" where
  "upper s = map (\<lambda>c. if 97 \<le> (of_char c :: nat) \<and> (of_char c :: nat) \<le> 122 then char_of ((of_char c :: nat) - 32) else c) s"

definition default_key_char :: "char \<Rightarrow> bool" where
  "default_key_char c \<longleftrightarrow> is_digit c \<or> (65 \<le> (of_char c :: nat) \<and> (of_char c :: nat) \<le> 90) \<or>
     (97 \<le> (of_char c :: nat) \<and> (of_char c :: nat) \<le> 122) \<or> c \<in> {CHR ''.'', CHR ''_'', CHR '':'', CHR ''-''}"

definition DEFAULT_KEY_PATTERN :: "string \<Rightarrow> bool" where
  "DEFAULT_KEY_PATTERN s \<longleftrightarrow> s \<noteq> [] \<and> list_all default_key_char s"

definition body_field :: "json \<Rightarrow> string \<Rightarrow> json option" where
  "body_field body k = (case body of JObj kvs \<Rightarrow> map_of kvs k | _ \<Rightarrow> None)"

definition getRawIdempotencyKey :: "IdempotencyConfig \<Rightarrow> idem_request \<Rightarrow> json option" where
  "getRawIdempotencyKey opts rq =
    (case iq_header rq (case keyFromHeader opts of None \<Rightarrow> ''idempotency-key'' | Some h \<Rightarrow> h) of
       Some v \<Rightarrow> Some (JStr v)
     | None \<Rightarrow> if allowBodyKey opts = Some False then None
         else body_field (iq_body rq) (case keyFromBody opts of None \<Rightarrow> ''idempotencyKey'' | Some k \<Rightarrow> k))"

datatype key_choice = NoKey | InvalidKey | UseKey string

definition idempotency_key :: "IdempotencyConfig \<Rightarrow> idem_request \<Rightarrow> key_choice" where
  "idempotency_key opts rq =
    (if upper (iq_method rq) \<notin> set (case idem_methods opts of None \<Rightarrow> [''POST'', ''PATCH''] | Some ms \<Rightarrow> ms) then NoKey
     else (case getRawIdempotencyKey opts rq of
         Some (JStr raw) \<Rightarrow>
           if raw = [] \<or> trim raw = [] then NoKey
           else if length (trim raw) > (case maxKeyLength opts of None \<Rightarrow> 255 | Some n \<Rightarrow> n) \<or>
               \<not> (case keyPattern opts of None \<Rightarrow> DEFAULT_KEY_PATTERN | Some p \<Rightarrow> p) (trim raw) then InvalidKey
           else UseKey (trim raw)
       | _ \<Rightarrow> NoKey))"

section \<open>The store\<close>

datatype idem_status = Started | Completed

record idem_row =
  ir_hash :: string
  ir_status :: idem_status
  ir_response_status :: "int option"
  ir_body :: "string option"
  ir_expires :: millis

type_synonym idem_store = "(string, idem_row) js_map"

definition delete_expired :: "millis \<Rightarrow> idem_store \<Rightarrow> idem_store" where
  "delete_expired now s = filter (\<lambda>(k, r). \<not> ir_expires r < now) s"

datatype decision = Mismatch string | Replay int string | InProgress string | Proceed

text \<open>The clean-up and the lookup. The database clock and the clock of the server are two inputs.\<close>

definition idem_lookup :: "IdempotencyConfig \<Rightarrow> millis \<Rightarrow> millis \<Rightarrow> string \<Rightarrow> string \<Rightarrow> idem_store \<Rightarrow> decision \<times> idem_store" where
  "idem_lookup opts db_now now key hash s =
    (let s1 = (if (case cleanExpiredTTL opts of None \<Rightarrow> True | Some b \<Rightarrow> b) then delete_expired db_now s else s);
         s2 = delete_expired now s1 in
     (case map_get s2 key of
        Some row \<Rightarrow>
          if ir_expires row > now
          then if ir_hash row \<noteq> hash
            then Mismatch (case conflictErrorCode opts of None \<Rightarrow> ''IDEMPOTENCY_KEY_REUSE_MISMATCH'' | Some c \<Rightarrow> c)
            else (case ir_status row of
                Completed \<Rightarrow> Replay (case ir_response_status row of None \<Rightarrow> 0 | Some n \<Rightarrow> n) (case ir_body row of None \<Rightarrow> [] | Some b \<Rightarrow> b)
              | Started \<Rightarrow> InProgress (case inProgressErrorCode opts of None \<Rightarrow> ''IDEMPOTENCY_IN_PROGRESS'' | Some c \<Rightarrow> c))
          else Proceed
      | None \<Rightarrow> Proceed, s2))"

text \<open>The claim: the insert fails when the key is in the table.\<close>

definition idem_claim :: "IdempotencyConfig \<Rightarrow> int \<Rightarrow> millis \<Rightarrow> string \<Rightarrow> string \<Rightarrow> idem_store \<Rightarrow> unit result \<times> idem_store" where
  "idem_claim opts defaultRetention now key hash s =
    (if map_get s key \<noteq> None then (Inl (Error ''duplicate key value violates unique constraint''), s)
     else (Inr (), s @ [(key, \<lparr>ir_hash = hash, ir_status = Started, ir_response_status = None, ir_body = None,
       ir_expires = now + (case retentionSeconds opts of None \<Rightarrow> defaultRetention | Some r \<Rightarrow> r) * 1000\<rparr>)]))"

datatype sent_body = SentText string | SentJson json

definition saved_body :: "(string \<Rightarrow> bool) \<Rightarrow> sent_body \<Rightarrow> string" where
  "saved_body parses body =
    (let bodyStr = (case body of SentText t \<Rightarrow> t | SentJson v \<Rightarrow> stringify v) in
     if parses bodyStr then bodyStr else stringify (JObj [(''message'', JStr bodyStr)]))"

definition saveResponse :: "(string \<Rightarrow> bool) \<Rightarrow> string \<Rightarrow> int \<Rightarrow> sent_body \<Rightarrow> idem_store \<Rightarrow> idem_store" where
  "saveResponse parses key status body s =
    (if status \<ge> 500 then map_delete key s
     else map (\<lambda>(k, r). (k, if k = key
       then r\<lparr>ir_status := Completed, ir_response_status := Some status, ir_body := Some (saved_body parses body)\<rparr> else r)) s)"

section \<open>The sweeper\<close>

definition sweepIdempotencyStoreRows :: "bool \<Rightarrow> millis \<Rightarrow> idem_store \<Rightarrow> nat \<times> idem_store" where
  "sweepIdempotencyStoreRows acquired db_now s =
    (let s1 = (if acquired then delete_expired db_now s else s) in (length s1, s1))"

section \<open>Interleaved requests\<close>

text \<open>
  The table together with the requests that claimed a key and have not answered yet, each under its
  number: a request saves once, under the key it claimed, whether or not its row is still there.
\<close>

type_synonym idem_system = "idem_store \<times> (nat, string) js_map"

datatype idem_event =
    Lookup millis millis string string
  | Claim nat millis string string
  | Save nat int sent_body
  | Sweep bool millis



fun idem_step :: "IdempotencyConfig \<Rightarrow> int \<Rightarrow> (string \<Rightarrow> bool) \<Rightarrow> idem_event \<Rightarrow> idem_system \<Rightarrow> idem_system" where
  "idem_step opts ret parses (Lookup db_now now key hash) (s, running) = (snd (idem_lookup opts db_now now key hash s), running)"
| "idem_step opts ret parses (Claim i now key hash) (s, running) =
    (if map_get running i \<noteq> None then (s, running)
     else (case idem_claim opts ret now key hash s of
         (Inl e, s1) \<Rightarrow> (s1, running)
       | (Inr _, s1) \<Rightarrow> (s1, map_set i key running)))"
| "idem_step opts ret parses (Save i status body) (s, running) =
    (case map_get running i of None \<Rightarrow> (s, running)
     | Some key \<Rightarrow> (saveResponse parses key status body s, map_delete i running))"
| "idem_step opts ret parses (Sweep acquired db_now) (s, running) = (snd (sweepIdempotencyStoreRows acquired db_now s), running)"

definition idem_run :: "IdempotencyConfig \<Rightarrow> int \<Rightarrow> (string \<Rightarrow> bool) \<Rightarrow> idem_event list \<Rightarrow> idem_system \<Rightarrow> idem_system" where
  "idem_run opts ret parses evs st = fold (idem_step opts ret parses) evs st"


section \<open>Lemmas on the store\<close>



lemma wf_delete_expired [simp]: "wf_map s \<Longrightarrow> wf_map (delete_expired now s)"
  by (simp add: delete_expired_def distinct_map_filter)









section \<open>Canonical request bodies\<close>

text \<open>Two JSON values that differ only in the order of object keys.\<close>

inductive same_json :: "json \<Rightarrow> json \<Rightarrow> bool" where
  sj_refl: "same_json v v"
| sj_arr: "list_all2 same_json xs ys \<Longrightarrow> same_json (JArr xs) (JArr ys)"
| sj_obj: "list_all2 (\<lambda>a b. fst a = fst b \<and> same_json (snd a) (snd b)) kvs mid \<Longrightarrow> mset mid = mset kvs' \<Longrightarrow>
    distinct (map fst kvs') \<Longrightarrow> same_json (JObj kvs) (JObj kvs')"

lemma sort_key_unique:
  assumes "mset xs = mset ys" and "distinct (map fst ys)"
  shows "sort_key fst xs = sort_key fst (ys :: (string \<times> 'a) list)"
proof (rule map_sorted_distinct_set_unique [where f = fst])
  have "distinct (map fst xs)" using assms by (metis mset_eq_imp_distinct_iff mset_map)
  then show "distinct (map fst (sort_key fst xs))" by (metis distinct_map mset_sort set_sort mset_eq_imp_distinct_iff mset_map)
  show "distinct (map fst (sort_key fst ys))" using assms(2) by (metis mset_eq_imp_distinct_iff mset_map mset_sort)
  show "inj_on fst (set (sort_key fst xs) \<union> set (sort_key fst ys))"
    using assms by (metis distinct_map mset_eq_setD set_sort sup.idem)
  show "set (sort_key fst xs) = set (sort_key fst ys)" using assms(1) by (metis mset_eq_setD set_sort)
qed simp_all

definition canonical :: "string list \<Rightarrow> json \<Rightarrow> json" where
  "canonical ks v = sortObjectKeys (removeKeys ks v)"

definition canonical_fields :: "string list \<Rightarrow> (string \<times> json) list \<Rightarrow> (string \<times> json) list" where
  "canonical_fields ks kvs = map (\<lambda>kv. (fst kv, canonical ks (snd kv))) (filter (\<lambda>kv. fst kv \<notin> set ks) kvs)"

lemma canonical_obj: "canonical ks (JObj kvs) = JObj (sort_key fst (canonical_fields ks kvs))"
  by (simp add: canonical_def canonical_fields_def comp_def)

lemma canonical_arr: "canonical ks (JArr xs) = JArr (map (canonical ks) xs)"
  by (simp add: canonical_def)

lemma canonical_same: "same_json a b \<Longrightarrow> canonical ks a = canonical ks b"
proof (induction rule: same_json.induct)
  case (sj_arr xs ys)
  then have "map (canonical ks) xs = map (canonical ks) ys" by (induction rule: list_all2_induct) auto
  then show ?case by (simp add: canonical_arr)
next
  case (sj_obj kvs mid kvs')
  from sj_obj(1) have "canonical_fields ks kvs = canonical_fields ks mid"
    by (induction rule: list_all2_induct) (auto simp: canonical_fields_def)
  moreover have "mset (canonical_fields ks mid) = mset (canonical_fields ks kvs')"
    using sj_obj(2) by (simp add: canonical_fields_def)
  moreover have "distinct (map fst (canonical_fields ks kvs'))"
    using sj_obj(3) by (simp add: canonical_fields_def comp_def distinct_map_filter)
  ultimately show ?case unfolding canonical_obj by (metis sort_key_unique)
qed simp

lemma same_json_falsy: "same_json a b \<Longrightarrow> falsy a = falsy b"
  by (cases rule: same_json.cases) (auto simp: falsy_def)

section \<open>Properties\<close>


definition demo_opts :: IdempotencyConfig where
  "demo_opts = \<lparr>keyFromHeader = None, keyFromBody = None, bodyExcludingKeys = None, retentionSeconds = Some 60,
     cleanExpiredTTL = None, conflictErrorCode = None, inProgressErrorCode = None, idem_methods = None,
     allowBodyKey = None, maxKeyLength = None, keyPattern = None\<rparr>"


text \<open>A request that outlives its key answers for its successor: request 1 claims the key, the key
  expires and is claimed by request 2 for another body, and the late answer of request 1 is then
  replayed to the repetitions of request 2, which is still running.\<close>

lemma late_answer_replayed:
  "fst (idem_lookup demo_opts 60009 60009 ''k'' ''other'' (fst (idem_run demo_opts 60 (\<lambda>t. True)
     [Claim 1 0 ''k'' ''h'', Lookup 60001 60001 ''k'' ''other'', Claim 2 60001 ''k'' ''other'', Save 1 201 (SentText ''1'')] ([], [])))) =
   Replay 201 ''1''"
  by (simp add: idem_run_def idem_lookup_def idem_claim_def delete_expired_def saveResponse_def saved_body_def demo_opts_def jsmap Let_def)

text \<open>The request hash ignores the order of object keys and the excluded keys: requests of the same
  user, method and path whose bodies differ only in the order of the keys of their objects, at any
  depth, have the same hash, and so does a body without its excluded keys.\<close>

theorem request_hash_canonical:
  assumes "same_json body body'"
  shows "calculateRequestHash sha256 user body method path excluded = calculateRequestHash sha256 user body' method path excluded \<and>
    canonical excluded (removeKeys excluded body) = canonical excluded body"
proof -
  have idem: "removeKeys ks (removeKeys ks v) = removeKeys ks v" for ks v
    by (induction ks v rule: removeKeys.induct) auto
  have "request_payload user body method path excluded = request_payload user body' method path excluded"
    using canonical_same [OF assms, of excluded] same_json_falsy [OF assms] by (simp add: request_payload_def canonical_def Let_def)
  with idem show ?thesis by (simp add: calculateRequestHash_def canonical_def)
qed

theorem request_hash_canonical_witness:
  "calculateRequestHash id None (JObj [(''b'', JNum 1), (''a'', JNull)]) ''POST'' ''/x'' [] =
   calculateRequestHash id None (JObj [(''a'', JNull), (''b'', JNum 1)]) ''POST'' ''/x'' []"
proof -
  have "same_json (JObj [(''b'', JNum 1), (''a'', JNull)]) (JObj [(''a'', JNull), (''b'', JNum 1)])"
    by (rule sj_obj [where mid = "[(''b'', JNum 1), (''a'', JNull)]"]) (auto intro: sj_refl)
  then show ?thesis using request_hash_canonical by blast
qed

end
