(* ===== verification/RefreshTokens.thy ===== *)
theory RefreshTokens
  imports Paging
begin

text \<open>
  Refresh tokens: the repository over the table \<open>refresh_tokens\<close>
  (\<^verbatim>\<open>repositories/refreshTokenRepository.ts\<close>), the service that issues and rotates tokens
  (\<^verbatim>\<open>services/refreshTokenService.ts\<close>) and the handlers of \<^verbatim>\<open>controllers/authController.ts\<close>.

  The JWT library and SHA-256 are parameters; random ids are inputs. A refresh is split where other
  requests can run: the checks up to the decision to rotate, then the rotation. The primary key \<open>id\<close>
  and the unique \<open>token_hash\<close> make an insert of a known value fail. Ids are compared by code units,
  the order of the database for hexadecimal ids.
\<close>

section \<open>The repository\<close>

record RefreshToken =
  rt_id :: string
  rt_user :: string
  rt_hash :: string
  rt_expires :: millis
  rt_created :: millis
  rt_lastUsed :: "millis option"
  rt_revoked :: bool
  rt_family :: string

definition createRefreshToken :: "RefreshToken \<Rightarrow> RefreshToken list \<Rightarrow> unit result \<times> RefreshToken list" where
  "createRefreshToken t rows =
    (if \<exists>r \<in> set rows. rt_id r = rt_id t \<or> rt_hash r = rt_hash t
     then (Inl (Error ''duplicate key value violates unique constraint''), rows) else (Inr (), rows @ [t]))"

definition findRefreshTokenById :: "string \<Rightarrow> string \<Rightarrow> RefreshToken list \<Rightarrow> RefreshToken option" where
  "findRefreshTokenById i u rows = List.find (\<lambda>r. rt_id r = i \<and> rt_user r = u) rows"

definition findRefreshTokenByHash :: "string \<Rightarrow> string \<Rightarrow> RefreshToken list \<Rightarrow> RefreshToken option" where
  "findRefreshTokenByHash h u rows = List.find (\<lambda>r. rt_hash r = h \<and> rt_user r = u) rows"

definition updateLastUsed :: "string \<Rightarrow> string \<Rightarrow> millis \<Rightarrow> RefreshToken list \<Rightarrow> RefreshToken list" where
  "updateLastUsed i u now rows = map (\<lambda>r. if rt_id r = i \<and> rt_user r = u then r\<lparr>rt_lastUsed := Some now\<rparr> else r) rows"

definition revokeRefreshToken :: "string \<Rightarrow> string \<Rightarrow> RefreshToken list \<Rightarrow> RefreshToken list" where
  "revokeRefreshToken i u rows = map (\<lambda>r. if rt_id r = i \<and> rt_user r = u then r\<lparr>rt_revoked := True\<rparr> else r) rows"

definition revokeFamily :: "string \<Rightarrow> string \<Rightarrow> RefreshToken list \<Rightarrow> RefreshToken list" where
  "revokeFamily f u rows = map (\<lambda>r. if rt_family r = f \<and> rt_user r = u then r\<lparr>rt_revoked := True\<rparr> else r) rows"

definition revokeAllUserTokens :: "string \<Rightarrow> RefreshToken list \<Rightarrow> RefreshToken list" where
  "revokeAllUserTokens u rows = map (\<lambda>r. if rt_user r = u then r\<lparr>rt_revoked := True\<rparr> else r) rows"

definition cleanupExpiredTokens :: "millis \<Rightarrow> RefreshToken list \<Rightarrow> nat \<times> RefreshToken list" where
  "cleanupExpiredTokens now rows =
    (let gone = (\<lambda>r. rt_expires r < now \<or> rt_revoked r) in (length (filter gone rows), filter (\<lambda>r. \<not> gone r) rows))"

definition is_active :: "string \<Rightarrow> millis \<Rightarrow> RefreshToken \<Rightarrow> bool" where
  "is_active u now r \<longleftrightarrow> rt_user r = u \<and> rt_expires r > now \<and> \<not> rt_revoked r"

definition countActiveTokens :: "string \<Rightarrow> millis \<Rightarrow> RefreshToken list \<Rightarrow> nat" where
  "countActiveTokens u now rows = length (filter (is_active u now) rows)"

definition unit_order :: "string \<Rightarrow> string \<Rightarrow> int" where
  "unit_order a b = (if a < b then -1 else if a = b then 0 else 1)"

definition below_cursor :: "cursor \<Rightarrow> RefreshToken \<Rightarrow> bool" where
  "below_cursor c r \<longleftrightarrow> rt_created r < fst c \<or> (rt_created r = fst c \<and> rt_id r < snd c)"

definition listRefreshTokens :: "string \<Rightarrow> nat \<Rightarrow> cursor option \<Rightarrow> RefreshToken list \<Rightarrow> RefreshToken list \<times> bool" where
  "listRefreshTokens u limit afterCursor rows =
    (let selected = filter (\<lambda>r. rt_user r = u \<and> (case afterCursor of None \<Rightarrow> True | Some c \<Rightarrow> below_cursor c r)) rows;
         tokens = take (limit + 1) (sort_by (newest_first unit_order rt_created rt_id) selected);
         hasMore = (length tokens > limit) in
     (if hasMore then take limit tokens else tokens, hasMore))"

section \<open>The token service\<close>

record token_payload =
  tp_user :: "string option"
  tp_tokenId :: "string option"
  tp_type :: string

datatype expiry = ExpirySeconds rat | ExpiryText string

record token_service =
  sign_access :: "string \<Rightarrow> string option \<Rightarrow> millis \<Rightarrow> string"
  sign_refresh :: "string \<Rightarrow> string \<Rightarrow> millis \<Rightarrow> string"
  jwt_verify :: "millis \<Rightarrow> string \<Rightarrow> token_payload option"
  jwt_decode :: "string \<Rightarrow> token_payload option"
  token_sha256 :: "string \<Rightarrow> string"
  refreshTokenExpiry :: expiry

record TokenPair =
  accessToken :: string
  refreshToken :: string

definition createTokenPair :: "token_service \<Rightarrow> string \<Rightarrow> millis \<Rightarrow> string \<Rightarrow> string option \<Rightarrow> TokenPair" where
  "createTokenPair s tokenId now user wallet =
     \<lparr>accessToken = sign_access s user wallet now, refreshToken = sign_refresh s user tokenId now\<rparr>"

definition nonempty :: "string option \<Rightarrow> string option" where
  "nonempty v = (case v of None \<Rightarrow> None | Some x \<Rightarrow> if x = [] then None else Some x)"

definition verifyRefreshToken :: "token_service \<Rightarrow> millis \<Rightarrow> string \<Rightarrow> (string \<times> string) option" where
  "verifyRefreshToken s now token = (case jwt_verify s now token of
       None \<Rightarrow> None
     | Some p \<Rightarrow> if tp_type p \<noteq> ''refresh'' then None
         else (case (nonempty (tp_user p), nonempty (tp_tokenId p)) of (Some u, Some i) \<Rightarrow> Some (u, i) | _ \<Rightarrow> None))"

definition extractTokenId :: "token_service \<Rightarrow> string \<Rightarrow> string option" where
  "extractTokenId s token = (case jwt_decode s token of None \<Rightarrow> None | Some p \<Rightarrow> nonempty (tp_tokenId p))"

definition unit_seconds :: "string \<Rightarrow> rat option" where
  "unit_seconds u = (if u = ''ms'' then Some (1 / 1000) else if u = ''s'' then Some 1 else if u = ''m'' then Some 60
     else if u = ''h'' then Some 3600 else if u = ''d'' then Some 86400 else None)"

definition parseExpiry :: "expiry \<Rightarrow> rat result" where
  "parseExpiry e = (case e of
       ExpirySeconds n \<Rightarrow> Inr n
     | ExpiryText t \<Rightarrow> (let digits = takeWhile is_digit t; unit = dropWhile is_digit t in
         if digits = [] then Inl (Error (''Invalid expiry format: '' @ t))
         else (case unit_seconds unit of
             None \<Rightarrow> Inl (Error (''Invalid expiry format: '' @ t))
           | Some m \<Rightarrow> Inr (of_nat (read_nat digits) * m))))"

text \<open>\<open>setSeconds\<close> drops the fraction of its argument.\<close>

definition createRefreshTokenRecord :: "token_service \<Rightarrow> millis \<Rightarrow> string \<Rightarrow> string \<Rightarrow> string \<Rightarrow> string \<Rightarrow> RefreshToken result" where
  "createRefreshTokenRecord s now uuid user token family = (case extractTokenId s token of
       None \<Rightarrow> Inl (Error ''Invalid refresh token: cannot extract token ID'')
     | Some i \<Rightarrow> (case parseExpiry (refreshTokenExpiry s) of
         Inl e \<Rightarrow> Inl e
       | Inr secs \<Rightarrow> Inr \<lparr>rt_id = i, rt_user = user, rt_hash = token_sha256 s token,
           rt_expires = now + \<lfloor>secs\<rfloor> * 1000, rt_created = now, rt_lastUsed = None, rt_revoked = False,
           rt_family = (if family = [] then uuid else family)\<rparr>))"

text \<open>\<open>timingSafeEqual\<close> throws on inputs of different lengths.\<close>

definition verifyTokenHash :: "token_service \<Rightarrow> string \<Rightarrow> string \<Rightarrow> bool result" where
  "verifyTokenHash s token storedHash =
    (if length (token_sha256 s token) \<noteq> length storedHash then Inl (Error ''Input buffers must have the same byte length'')
     else Inr (token_sha256 s token = storedHash))"

definition isTokenExpired :: "millis \<Rightarrow> millis \<Rightarrow> bool" where
  "isTokenExpired now expiresAt \<longleftrightarrow> now > expiresAt"

definition refreshAccessToken :: "token_service \<Rightarrow> millis \<Rightarrow> string \<Rightarrow> string option \<Rightarrow> string" where
  "refreshAccessToken s now user wallet = sign_access s user wallet now"

definition rotateRefreshToken :: "token_service \<Rightarrow> string \<Rightarrow> string \<Rightarrow> millis \<Rightarrow> RefreshToken \<Rightarrow> string \<Rightarrow> string option \<Rightarrow>
    RefreshToken list \<Rightarrow> TokenPair result \<times> RefreshToken list" where
  "rotateRefreshToken s newId uuid now consumed user wallet rows =
    (let rows1 = revokeRefreshToken (rt_id consumed) user rows;
         newPair = createTokenPair s newId now user wallet in
     case createRefreshTokenRecord s now uuid user (refreshToken newPair) (rt_family consumed) of
       Inl e \<Rightarrow> (Inl e, rows1)
     | Inr newRecord \<Rightarrow> (case createRefreshToken newRecord rows1 of
         (Inl e, rows2) \<Rightarrow> (Inl e, rows2)
       | (Inr _, rows2) \<Rightarrow> (Inr newPair, rows2)))"

definition handleReuse :: "RefreshToken \<Rightarrow> RefreshToken list \<Rightarrow> RefreshToken list" where
  "handleReuse stored rows = revokeAllUserTokens (rt_user stored) rows"

section \<open>The handlers\<close>

definition refresh_failed :: error where
  "refresh_failed = UnauthorizedError ''Token refresh failed'' ''REFRESH_FAILED''"

text \<open>\<open>POST /auth/refresh\<close> up to the decision to rotate.\<close>

definition refresh_validate :: "token_service \<Rightarrow> millis \<Rightarrow> string option \<Rightarrow> RefreshToken list \<Rightarrow> RefreshToken result \<times> RefreshToken list" where
  "refresh_validate s now token rows = (case nonempty token of
       None \<Rightarrow> (Inl (UnauthorizedError ''Refresh token is required'' ''MISSING_REFRESH_TOKEN''), rows)
     | Some t \<Rightarrow> (case verifyRefreshToken s now t of
         None \<Rightarrow> (Inl (UnauthorizedError ''Invalid or expired refresh token'' ''INVALID_REFRESH_TOKEN''), rows)
       | Some (u, i) \<Rightarrow> (case findRefreshTokenById i u rows of
           None \<Rightarrow> (Inl (UnauthorizedError ''Invalid refresh token'' ''INVALID_REFRESH_TOKEN''), rows)
         | Some stored \<Rightarrow>
            if rt_revoked stored
            then (Inl (UnauthorizedError ''Refresh token has been revoked'' ''REVOKED_TOKEN''), handleReuse stored rows)
            else if isTokenExpired now (rt_expires stored)
            then (Inl (UnauthorizedError ''Refresh token has expired'' ''EXPIRED_TOKEN''), rows)
            else (case verifyTokenHash s t (rt_hash stored) of
                Inl _ \<Rightarrow> (Inl refresh_failed, rows)
              | Inr ok \<Rightarrow> if ok then (Inr stored, rows)
                  else (Inl (UnauthorizedError ''Invalid refresh token'' ''INVALID_REFRESH_TOKEN''), rows)))))"

definition refresh_rotate :: "token_service \<Rightarrow> string \<Rightarrow> string \<Rightarrow> millis \<Rightarrow> RefreshToken \<Rightarrow> RefreshToken list \<Rightarrow> TokenPair result \<times> RefreshToken list" where
  "refresh_rotate s newId uuid now stored rows = (case rotateRefreshToken s newId uuid now stored (rt_user stored) None rows of
       (Inl _, rows1) \<Rightarrow> (Inl refresh_failed, rows1)
     | (Inr pair, rows1) \<Rightarrow> (Inr pair, rows1))"

definition refresh_handler :: "token_service \<Rightarrow> string \<Rightarrow> string \<Rightarrow> millis \<Rightarrow> string option \<Rightarrow> RefreshToken list \<Rightarrow> TokenPair result \<times> RefreshToken list" where
  "refresh_handler s newId uuid now token rows = (case refresh_validate s now token rows of
       (Inl e, rows1) \<Rightarrow> (Inl e, rows1)
     | (Inr stored, rows1) \<Rightarrow> refresh_rotate s newId uuid now stored rows1)"

definition revokeToken :: "token_service \<Rightarrow> millis \<Rightarrow> string option \<Rightarrow> RefreshToken list \<Rightarrow> unit result \<times> RefreshToken list" where
  "revokeToken s now token rows = (case nonempty token of
       None \<Rightarrow> (Inl (UnauthorizedError ''Refresh token is required'' ''MISSING_REFRESH_TOKEN''), rows)
     | Some t \<Rightarrow> (case verifyRefreshToken s now t of
         None \<Rightarrow> (Inl (UnauthorizedError ''Invalid refresh token'' ''INVALID_REFRESH_TOKEN''), rows)
       | Some (u, i) \<Rightarrow> (case findRefreshTokenById i u rows of
           None \<Rightarrow> (Inr (), rows)
         | Some stored \<Rightarrow> (case verifyTokenHash s t (rt_hash stored) of
             Inl _ \<Rightarrow> (Inl (UnauthorizedError ''Token revocation failed'' ''REVOKE_FAILED''), rows)
           | Inr ok \<Rightarrow> if ok then (Inr (), revokeRefreshToken (rt_id stored) (rt_user stored) rows) else (Inr (), rows)))))"

definition revokeAllTokens :: "string option \<Rightarrow> RefreshToken list \<Rightarrow> unit result \<times> RefreshToken list" where
  "revokeAllTokens user rows = (case nonempty user of
       None \<Rightarrow> (Inl (UnauthorizedError ''User not authenticated'' ''NOT_AUTHENTICATED''), rows)
     | Some u \<Rightarrow> (Inr (), revokeAllUserTokens u rows))"

definition getTokenInfo :: "string option \<Rightarrow> millis \<Rightarrow> RefreshToken list \<Rightarrow> (nat \<times> nat) result" where
  "getTokenInfo user now rows = (case nonempty user of
       None \<Rightarrow> Inl (UnauthorizedError ''User not authenticated'' ''NOT_AUTHENTICATED'')
     | Some u \<Rightarrow> Inr (countActiveTokens u now rows, 5))"

section \<open>Runs\<close>

text \<open>\<open>auth_run s i rows rows'\<close>: requests one after the other lead from \<open>rows\<close> to \<open>rows'\<close>, and no
  token id that is drawn on the way is \<open>i\<close>.\<close>

inductive auth_run :: "token_service \<Rightarrow> string \<Rightarrow> RefreshToken list \<Rightarrow> RefreshToken list \<Rightarrow> bool" for s i rows where
  ar_start: "auth_run s i rows rows"
| ar_login: "auth_run s i rows r1 \<Longrightarrow> rt_id t \<noteq> i \<Longrightarrow> auth_run s i rows (snd (createRefreshToken t r1))"
| ar_refresh: "auth_run s i rows r1 \<Longrightarrow> newId \<noteq> i \<Longrightarrow> auth_run s i rows (snd (refresh_handler s newId uuid now token r1))"
| ar_revoke: "auth_run s i rows r1 \<Longrightarrow> auth_run s i rows (snd (revokeToken s now token r1))"
| ar_revoke_all: "auth_run s i rows r1 \<Longrightarrow> auth_run s i rows (snd (revokeAllTokens user r1))"
| ar_cleanup: "auth_run s i rows r1 \<Longrightarrow> auth_run s i rows (snd (cleanupExpiredTokens now r1))"
| ar_used: "auth_run s i rows r1 \<Longrightarrow> auth_run s i rows (updateLastUsed j u now r1)"

section \<open>Lemmas\<close>

text \<open>What is known of the JWT library: a signed token decodes to the payload that was signed.\<close>

definition jwt_ok :: "token_service \<Rightarrow> bool" where
  "jwt_ok s \<longleftrightarrow> (\<forall>u i now. jwt_decode s (sign_refresh s u i now) = Some \<lparr>tp_user = Some u, tp_tokenId = Some i, tp_type = ''refresh''\<rparr>)"

definition dead :: "string \<Rightarrow> string \<Rightarrow> RefreshToken list \<Rightarrow> bool" where
  "dead i u rows \<longleftrightarrow> (\<forall>r \<in> set rows. rt_id r = i \<and> rt_user r = u \<longrightarrow> rt_revoked r)"

lemma extract_signed: "jwt_ok s \<Longrightarrow> extractTokenId s (sign_refresh s u i now) = nonempty (Some i)"
  by (simp add: jwt_ok_def extractTokenId_def)

lemma record_id: "jwt_ok s \<Longrightarrow> createRefreshTokenRecord s now uuid u (sign_refresh s u newId now) f = Inr t \<Longrightarrow>
    rt_id t = newId \<and> rt_user t = u \<and> \<not> rt_revoked t \<and> (f \<noteq> [] \<longrightarrow> rt_family t = f)"
  by (auto simp: createRefreshTokenRecord_def extract_signed nonempty_def split: option.splits sum.splits if_splits)

lemma dead_revoke: "dead i u rows \<Longrightarrow> dead i u (revokeRefreshToken j v rows)"
  by (auto simp: dead_def revokeRefreshToken_def)

lemma dead_revoke_all: "dead i u rows \<Longrightarrow> dead i u (revokeAllUserTokens v rows)"
  by (auto simp: dead_def revokeAllUserTokens_def)

lemma dead_create: "dead i u rows \<Longrightarrow> rt_id t \<noteq> i \<Longrightarrow> dead i u (snd (createRefreshToken t rows))"
  by (auto simp: dead_def createRefreshToken_def)

lemma dead_rotate:
  assumes "jwt_ok s" and "dead i u (revokeRefreshToken (rt_id c) (rt_user c) rows)" and "newId \<noteq> i"
  shows "dead i u (snd (refresh_rotate s newId uuid now c rows))"
proof (cases "createRefreshTokenRecord s now uuid (rt_user c) (sign_refresh s (rt_user c) newId now) (rt_family c)")
  case (Inr t)
  then have "rt_id t \<noteq> i" using record_id [OF assms(1) Inr] assms(3) by simp
  from dead_create [OF assms(2) this] Inr show ?thesis
    by (auto simp: refresh_rotate_def rotateRefreshToken_def createTokenPair_def Let_def split: prod.splits sum.splits)
qed (use assms in \<open>simp add: refresh_rotate_def rotateRefreshToken_def createTokenPair_def Let_def\<close>)

lemma dead_validate: "dead i u rows \<Longrightarrow> dead i u (snd (refresh_validate s now token rows))"
  by (auto simp: refresh_validate_def handleReuse_def dead_revoke_all split: option.splits sum.splits)

lemma dead_refresh:
  assumes "jwt_ok s" and "dead i u rows" and "newId \<noteq> i"
  shows "dead i u (snd (refresh_handler s newId uuid now token rows))"
  using dead_validate [OF assms(2), of s now token] dead_rotate [OF assms(1) dead_revoke assms(3)]
  by (auto simp: refresh_handler_def split: prod.splits sum.splits)

lemma dead_run: "auth_run s i rows rows' \<Longrightarrow> jwt_ok s \<Longrightarrow> dead i u rows \<Longrightarrow> dead i u rows'"
proof (induction rule: auth_run.induct)
  case (ar_revoke r1 now token)
  then show ?case by (auto simp: revokeToken_def dead_revoke split: option.splits sum.splits)
next
  case (ar_revoke_all r1 user)
  then show ?case by (auto simp: revokeAllTokens_def dead_revoke_all split: option.splits)
next
  case (ar_cleanup r1 now)
  then show ?case by (auto simp: cleanupExpiredTokens_def dead_def Let_def)
next
  case (ar_used r1 j v now)
  then show ?case by (auto simp: updateLastUsed_def dead_def)
qed (auto simp: dead_create dead_refresh)

lemma validate_accepts:
  assumes "refresh_validate s now token rows = (Inr stored, rows')"
  shows "rows' = rows \<and> (\<exists>t. token = Some t \<and> verifyRefreshToken s now t = Some (rt_user stored, rt_id stored)) \<and>
    stored \<in> set rows \<and> \<not> rt_revoked stored \<and> now \<le> rt_expires stored"
  using assms
  by (auto simp: refresh_validate_def nonempty_def isTokenExpired_def findRefreshTokenById_def find_Some_iff
      split: option.splits sum.splits if_splits)

lemma dead_consumed: "dead (rt_id c) (rt_user c) (revokeRefreshToken (rt_id c) (rt_user c) rows)"
  by (auto simp: dead_def revokeRefreshToken_def)

lemma rotate_success:
  assumes "jwt_ok s" and "parseExpiry (refreshTokenExpiry s) = Inr secs" and "newId \<noteq> []"
    and "\<forall>r \<in> set rows. rt_id r \<noteq> newId \<and> rt_hash r \<noteq> token_sha256 s (sign_refresh s (rt_user c) newId now)"
    and "rt_family c \<noteq> []"
  shows "refresh_rotate s newId uuid now c rows =
    (Inr (createTokenPair s newId now (rt_user c) None), revokeRefreshToken (rt_id c) (rt_user c) rows @
      [\<lparr>rt_id = newId, rt_user = rt_user c, rt_hash = token_sha256 s (sign_refresh s (rt_user c) newId now),
        rt_expires = now + \<lfloor>secs\<rfloor> * 1000, rt_created = now, rt_lastUsed = None, rt_revoked = False, rt_family = rt_family c\<rparr>])"
proof -
  have "\<not> (\<exists>r \<in> set (revokeRefreshToken (rt_id c) (rt_user c) rows). rt_id r = newId \<or>
      rt_hash r = token_sha256 s (sign_refresh s (rt_user c) newId now))"
    using assms(4) by (auto simp: revokeRefreshToken_def)
  then show ?thesis
    using assms by (simp add: refresh_rotate_def rotateRefreshToken_def createTokenPair_def createRefreshTokenRecord_def
        extract_signed nonempty_def createRefreshToken_def Let_def)
qed

lemma count_revoked:
  assumes "distinct (map rt_id rows)" and "c \<in> set rows" and "is_active u now c" and "rt_user c = u"
  shows "Suc (countActiveTokens u now (revokeRefreshToken (rt_id c) u rows)) = countActiveTokens u now rows"
  using assms
proof (induction rows)
  case (Cons r rows)
  let ?f = "\<lambda>r. if rt_id r = rt_id c \<and> rt_user r = u then r\<lparr>rt_revoked := True\<rparr> else r"
  have inactive: "\<not> is_active u now (r\<lparr>rt_revoked := True\<rparr>)" for r by (simp add: is_active_def)
  show ?case
  proof (cases "r = c")
    case True
    with Cons.prems(1) have "rt_id c \<notin> rt_id ` set rows" by simp
    then have "\<forall>x \<in> set rows. rt_id x \<noteq> rt_id c" by (metis image_eqI)
    then have "map ?f rows = rows" by (auto intro: map_idI)
    with True Cons.prems inactive show ?thesis by (simp add: countActiveTokens_def revokeRefreshToken_def)
  next
    case False
    with Cons.prems have c: "c \<in> set rows" "rt_id r \<noteq> rt_id c" by auto
    with Cons show ?thesis by (simp add: countActiveTokens_def revokeRefreshToken_def)
  qed
qed simp

section \<open>Listing\<close>

definition user_tokens :: "string \<Rightarrow> RefreshToken list \<Rightarrow> RefreshToken list" where
  "user_tokens u rows = sort_by (newest_first unit_order rt_created rt_id) (filter (\<lambda>r. rt_user r = u) rows)"

definition token_cursor :: "RefreshToken \<Rightarrow> cursor" where
  "token_cursor r = (rt_created r, rt_id r)"

definition token_page :: "string \<Rightarrow> nat \<Rightarrow> RefreshToken list \<Rightarrow> cursor option \<Rightarrow> RefreshToken list \<times> cursor option" where
  "token_page u limit rows c = (case listRefreshTokens u limit c rows of (ts, hasMore) \<Rightarrow>
     (ts, if hasMore then Some (token_cursor (last ts)) else None))"

lemma unit_order_ok: "locale_ok unit_order ids"
  by (auto simp: locale_ok_def unit_order_def)

lemma user_tokens_sorted: "distinct (map rt_id rows) \<Longrightarrow> sorted_wrt (before token_cursor) (user_tokens u rows)"
  unfolding user_tokens_def token_cursor_def
  by (rule sort_by_before [OF unit_order_ok]) (simp add: distinct_map_filter)

lemma tokens_below:
  assumes "distinct (map rt_id rows)"
  shows "sort_by (newest_first unit_order rt_created rt_id) (filter (\<lambda>r. rt_user r = u \<and> below_cursor (token_cursor y) r) rows) =
    filter (before token_cursor y) (user_tokens u rows)"
proof (rule sorted_wrt_determined [where R = "before token_cursor"])
  show "\<forall>a b. before token_cursor a b \<longrightarrow> \<not> before token_cursor b a" by (auto simp: before_def)
  show "sorted_wrt (before token_cursor) (sort_by (newest_first unit_order rt_created rt_id)
      (filter (\<lambda>r. rt_user r = u \<and> below_cursor (token_cursor y) r) rows))"
    unfolding token_cursor_def by (rule sort_by_before [OF unit_order_ok]) (simp add: assms distinct_map_filter)
  show "sorted_wrt (before token_cursor) (filter (before token_cursor y) (user_tokens u rows))"
    by (rule sorted_wrt_filter [OF user_tokens_sorted [OF assms]])
  have "below_cursor (token_cursor y) = before token_cursor y"
    by (auto simp: below_cursor_def before_def token_cursor_def fun_eq_iff)
  then show "mset (sort_by (newest_first unit_order rt_created rt_id)
      (filter (\<lambda>r. rt_user r = u \<and> below_cursor (token_cursor y) r) rows)) = mset (filter (before token_cursor y) (user_tokens u rows))"
    by (simp add: user_tokens_def filter_filter_mset conj_commute)
qed

lemma token_page_eq:
  assumes "sort_by (newest_first unit_order rt_created rt_id)
      (filter (\<lambda>r. rt_user r = u \<and> (case c of None \<Rightarrow> True | Some c \<Rightarrow> below_cursor c r)) rows) = zs" and "0 < limit"
  shows "token_page u limit rows c = page limit token_cursor zs"
  using assms(2) by (auto simp: token_page_def listRefreshTokens_def assms(1) page_def Let_def min_def)

interpretation token_pages: cursor_pages "token_page u limit rows" "user_tokens u rows" token_cursor limit
  "0 < limit \<and> distinct (map rt_id rows)"
proof
  assume ok: "0 < limit \<and> distinct (map rt_id rows)"
  then show "0 < limit" by simp
  show "token_page u limit rows None = page limit token_cursor (user_tokens u rows)"
    by (rule token_page_eq) (use ok in \<open>simp_all add: user_tokens_def\<close>)
  fix xs y zs
  assume l: "user_tokens u rows = xs @ y # zs"
  then have "filter (before token_cursor y) (user_tokens u rows) = zs"
    using filter_before_suffix user_tokens_sorted ok by metis
  then show "token_page u limit rows (Some (token_cursor y)) = page limit token_cursor zs"
    using ok tokens_below [of rows u y] by (intro token_page_eq) simp_all
qed

section \<open>A concrete token service\<close>

definition demo_decode :: "string \<Rightarrow> token_payload option" where
  "demo_decode t = (let n = length (takeWhile (\<lambda>c. c = CHR ''1'') t); rest = drop (Suc n) t in
     Some \<lparr>tp_user = Some (take n rest), tp_tokenId = Some (drop n rest), tp_type = ''refresh''\<rparr>)"

definition demo_service :: token_service where
  "demo_service = \<lparr>sign_access = (\<lambda>u w now. u), sign_refresh = (\<lambda>u i now. replicate (length u) (CHR ''1'') @ ''0'' @ u @ i),
     jwt_verify = (\<lambda>now t. demo_decode t), jwt_decode = demo_decode, token_sha256 = (\<lambda>t. t), refreshTokenExpiry = ExpiryText ''7d''\<rparr>"

definition demo_token :: RefreshToken where
  "demo_token = \<lparr>rt_id = ''i'', rt_user = ''u'', rt_hash = ''10ui'', rt_expires = 1000, rt_created = 0, rt_lastUsed = None,
     rt_revoked = False, rt_family = ''f''\<rparr>"

lemma demo_jwt: "jwt_ok demo_service"
proof -
  have "takeWhile (\<lambda>c. c = CHR ''1'') (replicate n (CHR ''1'') @ CHR ''0'' # x) = replicate n (CHR ''1'')" for n x
    by (induction n) auto
  then show ?thesis by (simp add: jwt_ok_def demo_service_def demo_decode_def Let_def)
qed

lemma demo_verify: "verifyRefreshToken demo_service now ''10ui'' = Some (''u'', ''i'')"
  by (simp add: verifyRefreshToken_def demo_service_def demo_decode_def nonempty_def Let_def)

lemma demo_expiry: "parseExpiry (refreshTokenExpiry demo_service) = Inr 604800"
  by (simp add: demo_service_def parseExpiry_def unit_seconds_def is_digit_def read_nat_def digit_val_def Let_def)

lemma demo_validate: "refresh_validate demo_service 5 (Some ''10ui'') [demo_token] = (Inr demo_token, [demo_token])"
  by (simp add: refresh_validate_def demo_verify nonempty_def findRefreshTokenById_def isTokenExpired_def verifyTokenHash_def)
    (simp add: demo_token_def demo_service_def)

lemma demo_fields: "rt_user demo_token = ''u''" "rt_id demo_token = ''i''" "rt_family demo_token = ''f''" "rt_expires demo_token = 1000"
  "rt_hash demo_token = ''10ui''" "sign_refresh demo_service ''u'' x now = ''10u'' @ x" "token_sha256 demo_service y = y"
  by (simp_all add: demo_token_def demo_service_def)

section \<open>Properties\<close>

text \<open>C9. A refresh token works once: after a refresh with a token has succeeded, and after any further
  sequence of logins, refreshes, revocations and clean-ups that do not draw its id again, a second
  refresh with the same token fails, whether or not the token has expired meanwhile.\<close>

theorem consumed_token_never_refreshes:
  assumes "jwt_ok s" and "refresh_handler s newId uuid now (Some t) rows = (Inr pair, rows1)"
    and "verifyRefreshToken s now t = Some (u, i)" and "newId \<noteq> i" and "auth_run s i rows1 rows2"
    and "verifyRefreshToken s later t \<in> {None, Some (u, i)}"
  shows "\<exists>e. fst (refresh_handler s newId' uuid' later (Some t) rows2) = Inl e"
proof -
  obtain stored rows' where v: "refresh_validate s now (Some t) rows = (Inr stored, rows')"
    using assms(2) by (auto simp: refresh_handler_def split: prod.splits sum.splits)
  note acc = validate_accepts [OF v]
  have ids: "rt_user stored = u" "rt_id stored = i" using acc assms(3) by auto
  have "dead i u rows1"
    using dead_rotate [OF assms(1) dead_consumed [of stored] , of newId uuid now] assms(2,4) v ids
    by (simp add: refresh_handler_def) (metis acc snd_conv)
  then have "dead i u rows2" by (rule dead_run [OF assms(5,1)])
  have "\<not> (\<exists>st r. refresh_validate s later (Some t) rows2 = (Inr st, r))"
  proof
    assume "\<exists>st r. refresh_validate s later (Some t) rows2 = (Inr st, r)"
    then obtain st r where "refresh_validate s later (Some t) rows2 = (Inr st, r)" by blast
    from validate_accepts [OF this] assms(6) \<open>dead i u rows2\<close> show False by (auto simp: dead_def)
  qed
  then show ?thesis by (auto simp: refresh_handler_def split: prod.splits sum.splits)
qed

theorem consumed_token_never_refreshes_witness:
  "\<exists>e. fst (refresh_handler demo_service ''n'' ''v'' 9 (Some ''10ui'')
      (snd (refresh_handler demo_service ''m'' ''v'' 5 (Some ''10ui'') [demo_token]))) = Inl e"
proof -
  have f: "\<forall>r \<in> set [demo_token]. rt_id r \<noteq> ''m'' \<and> rt_hash r \<noteq> token_sha256 demo_service (sign_refresh demo_service (rt_user demo_token) ''m'' 5)"
    by (simp add: demo_fields)
  have "refresh_handler demo_service ''m'' ''v'' 5 (Some ''10ui'') [demo_token] =
      (Inr (createTokenPair demo_service ''m'' 5 ''u'' None), snd (refresh_handler demo_service ''m'' ''v'' 5 (Some ''10ui'') [demo_token]))"
    using rotate_success [OF demo_jwt demo_expiry _ f, of "''v''"] by (simp add: refresh_handler_def demo_validate demo_fields)
  from consumed_token_never_refreshes [OF demo_jwt this demo_verify _ ar_start] show ?thesis
    by (simp add: demo_verify)
qed

text \<open>Presenting a revoked refresh token revokes every session of its owner and of nobody else: the
  request fails with \<open>REVOKED_TOKEN\<close>, the user has no active token left at any time, and the tokens of
  other users stay as they are.\<close>

theorem reuse_revokes_all_sessions:
  assumes "t \<noteq> []" and "verifyRefreshToken s now t = Some (u, i)"
    and "findRefreshTokenById i u rows = Some stored" and "rt_revoked stored"
    and "refresh_handler s newId uuid now (Some t) rows = (r, rows')"
  shows "r = Inl (UnauthorizedError ''Refresh token has been revoked'' ''REVOKED_TOKEN'') \<and>
    countActiveTokens u later rows' = 0 \<and>
    filter (\<lambda>x. rt_user x \<noteq> u) rows' = filter (\<lambda>x. rt_user x \<noteq> u) rows \<and> length rows' = length rows"
proof -
  have u: "rt_user stored = u" using assms(3) by (auto simp: findRefreshTokenById_def find_Some_iff)
  have e: "r = Inl (UnauthorizedError ''Refresh token has been revoked'' ''REVOKED_TOKEN'')" "rows' = revokeAllUserTokens u rows"
    using assms by (auto simp: refresh_handler_def refresh_validate_def nonempty_def handleReuse_def u)
  have "filter (\<lambda>x. rt_user x \<noteq> u) (revokeAllUserTokens u rows) = filter (\<lambda>x. rt_user x \<noteq> u) rows"
    unfolding revokeAllUserTokens_def by (induction rows) auto
  moreover have "countActiveTokens u later (revokeAllUserTokens u rows) = 0"
    by (auto simp: countActiveTokens_def revokeAllUserTokens_def is_active_def filter_empty_conv)
  ultimately show ?thesis using e by (simp add: revokeAllUserTokens_def)
qed

theorem reuse_revokes_all_sessions_witness:
  "countActiveTokens ''u'' 7 (snd (refresh_handler demo_service ''n'' ''v'' 5 (Some ''10ui'') [demo_token\<lparr>rt_revoked := True\<rparr>])) = 0"
proof -
  have "findRefreshTokenById ''i'' ''u'' [demo_token\<lparr>rt_revoked := True\<rparr>] = Some (demo_token\<lparr>rt_revoked := True\<rparr>)"
    by (simp add: findRefreshTokenById_def demo_fields)
  from reuse_revokes_all_sessions [OF _ demo_verify this _ prod.collapse [symmetric], where now = 5 and newId = "''n''" and uuid = "''v''" and later = 7] show ?thesis
    by simp
qed

text \<open>A rotation continues one session: a refresh that is accepted answers with a new pair, revokes the
  consumed token and stores one new token of the same user and family, so the number of active
  sessions stays the same.\<close>

theorem rotation_keeps_session_count:
  assumes "jwt_ok s" and "parseExpiry (refreshTokenExpiry s) = Inr secs" and "1 \<le> secs" and "newId \<noteq> []"
    and "refresh_validate s now token rows = (Inr stored, rows0)" and "distinct (map rt_id rows)"
    and "\<forall>r \<in> set rows. rt_id r \<noteq> newId \<and> rt_hash r \<noteq> token_sha256 s (sign_refresh s (rt_user stored) newId now)"
    and "rt_family stored \<noteq> []" and "now < rt_expires stored"
    and "refresh_handler s newId uuid now token rows = (r, rows')"
  shows "r = Inr (createTokenPair s newId now (rt_user stored) None) \<and>
    countActiveTokens (rt_user stored) now rows' = countActiveTokens (rt_user stored) now rows \<and>
    rt_user (last rows') = rt_user stored \<and> rt_family (last rows') = rt_family stored \<and> rt_id (last rows') = newId \<and>
    butlast rows' = revokeRefreshToken (rt_id stored) (rt_user stored) rows"
proof -
  note acc = validate_accepts [OF assms(5)]
  have out: "(r, rows') = refresh_rotate s newId uuid now stored rows"
    using assms(5,10) acc by (simp add: refresh_handler_def)
  have "is_active (rt_user stored) now stored" using acc assms(9) by (simp add: is_active_def)
  from count_revoked [OF assms(6) _ this refl] acc
  have "Suc (countActiveTokens (rt_user stored) now (revokeRefreshToken (rt_id stored) (rt_user stored) rows)) =
    countActiveTokens (rt_user stored) now rows" by blast
  moreover have "1 \<le> \<lfloor>secs\<rfloor>" using assms(3) by simp
  ultimately show ?thesis
    using out rotate_success [OF assms(1,2,4,7,8), of uuid] by (simp add: countActiveTokens_def is_active_def)
qed

theorem rotation_keeps_session_count_witness:
  "countActiveTokens ''u'' 5 (snd (refresh_handler demo_service ''m'' ''v'' 5 (Some ''10ui'') [demo_token])) =
    countActiveTokens ''u'' 5 [demo_token]"
proof -
  have "\<forall>r \<in> set [demo_token]. rt_id r \<noteq> ''m'' \<and> rt_hash r \<noteq> token_sha256 demo_service (sign_refresh demo_service (rt_user demo_token) ''m'' 5)"
    by (simp add: demo_fields)
  from rotation_keeps_session_count [OF demo_jwt demo_expiry _ _ demo_validate _ this _ _ prod.collapse [symmetric], where uuid = "''v''"] show ?thesis
    by (simp add: demo_fields)
qed

text \<open>Two concurrent refreshes with one token both succeed: when both requests check the token before
  either of them revokes it, each gets its own valid pair, and the user ends with two active tokens
  where there was one.\<close>

theorem concurrent_refresh_splits_session:
  assumes "jwt_ok s" and "parseExpiry (refreshTokenExpiry s) = Inr secs" and "1 \<le> secs" and "a \<noteq> []" and "b \<noteq> []" and "a \<noteq> b"
    and "refresh_validate s now token rows = (Inr stored, rows)" and "distinct (map rt_id rows)"
    and "\<forall>r \<in> set rows. rt_id r \<notin> {a, b} \<and> rt_hash r \<noteq> token_sha256 s (sign_refresh s (rt_user stored) a now) \<and>
      rt_hash r \<noteq> token_sha256 s (sign_refresh s (rt_user stored) b now)"
    and "token_sha256 s (sign_refresh s (rt_user stored) a now) \<noteq> token_sha256 s (sign_refresh s (rt_user stored) b now)"
    and "rt_family stored \<noteq> []" and "now < rt_expires stored"
  shows "let r1 = refresh_rotate s a ua now stored rows; r2 = refresh_rotate s b ub now stored (snd r1) in
    fst r1 = Inr (createTokenPair s a now (rt_user stored) None) \<and> fst r2 = Inr (createTokenPair s b now (rt_user stored) None) \<and>
    countActiveTokens (rt_user stored) now (snd r2) = countActiveTokens (rt_user stored) now rows + 1"
proof -
  let ?u = "rt_user stored" and ?i = "rt_id stored"
  let ?new = "\<lambda>n. \<lparr>rt_id = n, rt_user = ?u, rt_hash = token_sha256 s (sign_refresh s ?u n now),
      rt_expires = now + \<lfloor>secs\<rfloor> * 1000, rt_created = now, rt_lastUsed = None, rt_revoked = False, rt_family = rt_family stored\<rparr>"
  let ?rows1 = "revokeRefreshToken ?i ?u rows @ [?new a]"
  note acc = validate_accepts [OF assms(7)]
  have one: "refresh_rotate s a ua now stored rows = (Inr (createTokenPair s a now ?u None), ?rows1)"
    by (rule rotate_success [OF assms(1,2,4) _ assms(11)]) (use assms(9) in auto)
  have two: "refresh_rotate s b ub now stored ?rows1 =
      (Inr (createTokenPair s b now ?u None), revokeRefreshToken ?i ?u ?rows1 @ [?new b])"
    by (rule rotate_success [OF assms(1,2,5) _ assms(11)]) (use assms(6,9,10) in \<open>auto simp: revokeRefreshToken_def\<close>)
  have ne: "a \<noteq> ?i" using acc assms(9) by auto
  have rr: "revokeRefreshToken ?i ?u ?rows1 = revokeRefreshToken ?i ?u (revokeRefreshToken ?i ?u rows) @ [?new a]"
    using ne by (simp add: revokeRefreshToken_def)
  have twice: "revokeRefreshToken ?i ?u (revokeRefreshToken ?i ?u rows) = revokeRefreshToken ?i ?u rows"
    by (auto simp: revokeRefreshToken_def)
  have "is_active ?u now stored" using acc assms(12) by (simp add: is_active_def)
  from count_revoked [OF assms(8) _ this refl] acc
  have "Suc (countActiveTokens ?u now (revokeRefreshToken ?i ?u rows)) = countActiveTokens ?u now rows" by blast
  moreover have "is_active ?u now (?new n)" for n
    using assms(3) by (simp add: is_active_def)
  ultimately show ?thesis
    unfolding Let_def one fst_conv snd_conv two rr twice by (simp add: countActiveTokens_def)
qed

theorem concurrent_refresh_splits_session_witness:
  "countActiveTokens ''u'' 5 (snd (refresh_rotate demo_service ''n'' ''w'' 5 demo_token
      (snd (refresh_rotate demo_service ''m'' ''v'' 5 demo_token [demo_token])))) = countActiveTokens ''u'' 5 [demo_token] + 1"
  using concurrent_refresh_splits_session [OF demo_jwt demo_expiry, of "''m''" "''n''" 5 "Some ''10ui''" "[demo_token]" demo_token "''v''" "''w''"]
  by (simp add: demo_validate demo_fields Let_def)

text \<open>Listing refresh tokens page by page is complete: with distinct ids, a client that follows the
  cursors, whatever the positive page size, sees every token of the user exactly once, newest first.\<close>

theorem token_listing_complete:
  assumes "0 < limit" and "distinct (map rt_id rows)"
  shows "walk_pages (token_page u limit rows) (Suc (length rows)) None = user_tokens u rows \<and>
    mset (user_tokens u rows) = mset (filter (\<lambda>r. rt_user r = u) rows) \<and>
    sorted_wrt (before token_cursor) (user_tokens u rows)"
proof -
  have m: "mset (user_tokens u rows) = mset (filter (\<lambda>r. rt_user r = u) rows)" by (simp add: user_tokens_def)
  then have "length (user_tokens u rows) < Suc (length rows)"
    using length_filter_le [of "\<lambda>r. rt_user r = u" rows] by (metis le_imp_less_Suc size_mset)
  with token_pages.walk_all [of limit rows u] assms m user_tokens_sorted show ?thesis by blast
qed

theorem token_listing_complete_witness:
  "walk_pages (token_page ''u'' 1 [demo_token]) 2 None = [demo_token]"
  using token_listing_complete [of 1 "[demo_token]" "''u''"]
  by (simp add: user_tokens_def sort_by_def demo_fields numeral_2_eq_2)

end
