(* ===== verification/Webhooks.thy ===== *)
theory Webhooks
  imports Registry
begin

text \<open>
  Webhook subscriptions: the schemas of \<^verbatim>\<open>validators/webhooks.ts\<close>, the store
  \<^verbatim>\<open>webhooks/webhook.store.ts\<close>, retry policies (\<^verbatim>\<open>services/webhookRetry.ts\<close>), the URL check
  (\<^verbatim>\<open>webhooks/webhook.validator.ts\<close>), the dispatcher, the signature check of inbound deliveries, the
  routes of \<^verbatim>\<open>webhooks/webhook.routes.ts\<close>, the health and monitor routes and the replay route of
  the administrators.

  \<open>fetch\<close> and \<open>setTimeout\<close> act on an arbitrary world; HMAC-SHA256 (as a hexadecimal digest), the
  URL parser, DNS, the address range package, \<open>JSON.stringify\<close> of a payload and \<open>Date.parse\<close> (whose
  treatment of texts outside the ISO format is left to the engine) are parameters. A number of a
  retry policy is a rational. The default policy is a parameter as well: \<^verbatim>\<open>webhook.types.ts\<close> declares
  it twice, with different values. The fields of a registration body are texts, and a retry policy is
  an object or absent. The chunks of a delivery are taken as the text the signature is computed over,
  and the stream as not read before: behind the JSON parser of \<^verbatim>\<open>app.ts\<close> the route would collect nothing
  from a JSON body.
\<close>

section \<open>Retry policies\<close>

record RetryPolicy =
  pol_maxRetries :: "rat option"
  pol_baseDelayMs :: "rat option"

text \<open>A field of an unchecked JSON object: absent, a number, or any other value.\<close>

datatype js_field = Absent | Number rat | OtherValue

record raw_policy =
  rp_maxRetries :: js_field
  rp_baseDelayMs :: js_field
  rp_unknown_keys :: bool

fun field_of :: "rat option \<Rightarrow> js_field" where
  "field_of None = Absent"
| "field_of (Some q) = Number q"

definition as_unknown :: "RetryPolicy \<Rightarrow> raw_policy" where
  "as_unknown p = \<lparr>rp_maxRetries = field_of (pol_maxRetries p), rp_baseDelayMs = field_of (pol_baseDelayMs p), rp_unknown_keys = False\<rparr>"

fun integer_between :: "rat \<Rightarrow> rat \<Rightarrow> js_field \<Rightarrow> bool" where
  "integer_between lo hi Absent \<longleftrightarrow> True"
| "integer_between lo hi (Number q) \<longleftrightarrow> of_int \<lfloor>q\<rfloor> = q \<and> lo \<le> q \<and> q \<le> hi"
| "integer_between lo hi OtherValue \<longleftrightarrow> False"

definition validateRetryPolicy :: "raw_policy option \<Rightarrow> unit + string" where
  "validateRetryPolicy policy = (case policy of None \<Rightarrow> Inl ()
     | Some p \<Rightarrow>
        if \<not> integer_between 0 10 (rp_maxRetries p) then Inr ''maxRetries must be an integer between 0 and 10''
        else if \<not> integer_between 100 60000 (rp_baseDelayMs p) then Inr ''baseDelayMs must be an integer between 100 and 60000''
        else Inl ())"

definition getEffectiveRetryPolicy :: "RetryPolicy \<Rightarrow> RetryPolicy option \<Rightarrow> rat \<times> rat" where
  "getEffectiveRetryPolicy dflt policy =
    (let pick = (\<lambda>sel d. case Option.bind policy sel of Some q \<Rightarrow> q
           | None \<Rightarrow> (case sel dflt of Some q \<Rightarrow> q | None \<Rightarrow> d)) in
     (pick pol_maxRetries 3, pick pol_baseDelayMs 1000))"

definition calculateBackoff :: "nat \<Rightarrow> rat \<Rightarrow> rat" where
  "calculateBackoff attempt baseDelayMs = baseDelayMs * 2 ^ attempt"

section \<open>Schemas\<close>

definition webhookManagementEvents :: "string list" where
  "webhookManagementEvents = [''new_api_call'', ''settlement_completed'', ''low_balance_alert'', ''usage_event.created'']"

definition webhookDeliveryEvents :: "string list" where
  "webhookDeliveryEvents = webhookManagementEvents @
     [''quota.threshold.reached'', ''invoice_created'', ''usage.anomaly.detected'', ''fee_abstraction.executed'']"

definition is_letter :: "char \<Rightarrow> bool" where
  "is_letter c \<longleftrightarrow> (65 \<le> (of_char c :: nat) \<and> (of_char c :: nat) \<le> 90) \<or> (97 \<le> (of_char c :: nat) \<and> (of_char c :: nat) \<le> 122)"

definition developerIdPattern :: "string \<Rightarrow> bool" where
  "developerIdPattern s \<longleftrightarrow> s \<noteq> [] \<and> (is_letter (hd s) \<or> is_digit (hd s)) \<and>
     list_all (\<lambda>c. is_letter c \<or> is_digit c \<or> c = CHR ''_'' \<or> c = CHR ''-'') (tl s) \<and>
     2 \<le> length (tl s) \<and> length (tl s) \<le> 127"

definition webhookDeveloperIdSchema :: "string \<Rightarrow> string option" where
  "webhookDeveloperIdSchema s = (if developerIdPattern (trim s) then Some (trim s) else None)"

fun typed_field :: "js_field \<Rightarrow> rat option" where
  "typed_field (Number q) = Some q"
| "typed_field _ = None"

definition webhookRetryPolicySchema :: "raw_policy \<Rightarrow> RetryPolicy option" where
  "webhookRetryPolicySchema p =
    (if integer_between 0 10 (rp_maxRetries p) \<and> integer_between 100 60000 (rp_baseDelayMs p) \<and>
        \<not> rp_unknown_keys p \<and> (rp_maxRetries p \<noteq> Absent \<or> rp_baseDelayMs p \<noteq> Absent)
     then Some \<lparr>pol_maxRetries = typed_field (rp_maxRetries p), pol_baseDelayMs = typed_field (rp_baseDelayMs p)\<rparr>
     else None)"

text \<open>A request body: a field is \<open>None\<close> when it is absent or has another type; where the schema
  makes a field optional, the outer option says whether it is present.\<close>

record raw_registration =
  rr_developerId :: "string option"
  rr_url :: "string option"
  rr_events :: "string list option"
  rr_secret :: "string option option"
  rr_retryPolicy :: "raw_policy option option"
  rr_unknown_keys :: bool

record RegisterWebhookInput =
  ri_developerId :: string
  ri_url :: string
  ri_events :: "string list"
  ri_secret :: "string option"
  ri_retryPolicy :: "RetryPolicy option"

text \<open>An optional field: absent is fine, present needs the type and the schema.\<close>

definition optional_field :: "('a \<Rightarrow> 'b option) \<Rightarrow> 'a option option \<Rightarrow> 'b option option" where
  "optional_field schema v = (case v of None \<Rightarrow> Some None
     | Some None \<Rightarrow> None
     | Some (Some x) \<Rightarrow> map_option Some (schema x))"

definition url_schema :: "(string \<Rightarrow> bool) \<Rightarrow> string \<Rightarrow> string option" where
  "url_schema isUrl s = (if isUrl (trim s) \<and> length (trim s) \<le> 2048 then Some (trim s) else None)"

definition events_schema :: "string list \<Rightarrow> string list option" where
  "events_schema es = (if set es \<subseteq> set webhookManagementEvents \<and> 1 \<le> length es \<and>
       length es \<le> length webhookManagementEvents \<and> distinct es then Some es else None)"

definition secret_schema :: "string \<Rightarrow> string option" where
  "secret_schema s = (if 8 \<le> length (trim s) \<and> length (trim s) \<le> 256 then Some (trim s) else None)"

definition registerWebhookSchema :: "(string \<Rightarrow> bool) \<Rightarrow> raw_registration \<Rightarrow> RegisterWebhookInput option" where
  "registerWebhookSchema isUrl b =
    (if rr_unknown_keys b then None else
     (case (Option.bind (rr_developerId b) webhookDeveloperIdSchema, Option.bind (rr_url b) (url_schema isUrl),
            Option.bind (rr_events b) events_schema, optional_field secret_schema (rr_secret b),
            optional_field webhookRetryPolicySchema (rr_retryPolicy b)) of
        (Some d, Some u, Some es, Some s, Some p) \<Rightarrow>
          Some \<lparr>ri_developerId = d, ri_url = u, ri_events = es, ri_secret = s, ri_retryPolicy = p\<rparr>
      | _ \<Rightarrow> None))"

definition updateWebhookRetryPolicySchema :: "raw_policy option option \<Rightarrow> bool \<Rightarrow> RetryPolicy option option" where
  "updateWebhookRetryPolicySchema policy unknown_keys =
    (if unknown_keys then None else optional_field webhookRetryPolicySchema policy)"

section \<open>The store\<close>

record WebhookConfig =
  wc_developerId :: string
  wc_url :: string
  wc_events :: "string list"
  wc_secret :: "string option"
  wc_secret_current :: "string option"
  wc_secret_previous :: "string option"
  wc_previous_expires_at :: "millis option"
  wc_createdAt :: millis
  wc_retryPolicy :: "RetryPolicy option"

record 'd WebhookPayload =
  wp_event :: string
  wp_timestamp :: string
  wp_developerId :: string
  wp_data :: 'd

record 'd DeadLetterEntry =
  dl_deliveryId :: string
  dl_config :: WebhookConfig
  dl_payload :: "'d WebhookPayload"
  dl_failedAt :: millis
  dl_lastError :: string
  dl_attempts :: rat

record FailedDeliveryEntry =
  fd_deliveryId :: string
  fd_developerId :: string
  fd_event :: string
  fd_url :: string
  fd_failedAt :: millis
  fd_lastError :: string
  fd_attempts :: rat

record 'd webhook_store =
  ws_store :: "(string, WebhookConfig) js_map"
  ws_dead :: "(string, 'd DeadLetterEntry) js_map"
  ws_failed :: "FailedDeliveryEntry list"
  ws_accepting :: bool

definition empty_webhooks :: "'d webhook_store" where
  "empty_webhooks = \<lparr>ws_store = [], ws_dead = [], ws_failed = [], ws_accepting = True\<rparr>"

definition MAX_FAILED_LOG :: nat where
  "MAX_FAILED_LOG = 200"

definition nullish_or :: "'a option \<Rightarrow> 'a option \<Rightarrow> 'a option" where
  "nullish_or x y = (case x of None \<Rightarrow> y | Some v \<Rightarrow> Some v)"

definition current_secret :: "WebhookConfig \<Rightarrow> string option" where
  "current_secret c = nullish_or (wc_secret_current c) (wc_secret c)"

definition normalizeConfig :: "WebhookConfig \<Rightarrow> WebhookConfig" where
  "normalizeConfig c = c\<lparr>wc_secret := current_secret c, wc_secret_current := current_secret c\<rparr>"

definition hook_register :: "WebhookConfig \<Rightarrow> 'd webhook_store \<Rightarrow> 'd webhook_store" where
  "hook_register c s = s\<lparr>ws_store := map_set (wc_developerId c) (normalizeConfig c) (ws_store s)\<rparr>"

definition hook_get :: "string \<Rightarrow> 'd webhook_store \<Rightarrow> WebhookConfig option" where
  "hook_get d s = map_get (ws_store s) d"

definition updateRetryPolicy :: "string \<Rightarrow> RetryPolicy option \<Rightarrow> 'd webhook_store \<Rightarrow> WebhookConfig option \<times> 'd webhook_store" where
  "updateRetryPolicy d p s = (case hook_get d s of None \<Rightarrow> (None, s)
     | Some c \<Rightarrow> (let n = normalizeConfig (c\<lparr>wc_retryPolicy := p\<rparr>) in
         (Some n, s\<lparr>ws_store := map_set d n (ws_store s)\<rparr>)))"

text \<open>A secret is truthy when it is present and not empty.\<close>

definition truthy :: "string option \<Rightarrow> bool" where
  "truthy x \<longleftrightarrow> x \<noteq> None \<and> x \<noteq> Some []"

definition rotateSecret :: "string \<Rightarrow> string \<Rightarrow> millis \<Rightarrow> 'd webhook_store \<Rightarrow> WebhookConfig option \<times> 'd webhook_store" where
  "rotateSecret d newSecret previousExpiresAt s = (case hook_get d s of None \<Rightarrow> (None, s)
     | Some c \<Rightarrow> (let currentSecret = current_secret c;
           n = normalizeConfig (c\<lparr>wc_secret := Some newSecret, wc_secret_current := Some newSecret,
             wc_secret_previous := currentSecret,
             wc_previous_expires_at := (if truthy currentSecret then Some previousExpiresAt else None)\<rparr>) in
         (Some n, s\<lparr>ws_store := map_set d n (ws_store s)\<rparr>)))"

definition getActiveSecrets :: "WebhookConfig \<Rightarrow> millis \<Rightarrow> string list" where
  "getActiveSecrets c now =
    unique ((if truthy (current_secret c) then [the (current_secret c)] else []) @
      (if truthy (wc_secret_previous c) \<and> (case wc_previous_expires_at c of None \<Rightarrow> False | Some t \<Rightarrow> t \<ge> now)
       then [the (wc_secret_previous c)] else []))"

definition hook_delete :: "string \<Rightarrow> 'd webhook_store \<Rightarrow> 'd webhook_store" where
  "hook_delete d s = s\<lparr>ws_store := map_delete d (ws_store s)\<rparr>"

definition getByEvent :: "string \<Rightarrow> 'd webhook_store \<Rightarrow> WebhookConfig list" where
  "getByEvent e s = filter (\<lambda>c. e \<in> set (wc_events c)) (map_values (ws_store s))"

definition hook_list :: "'d webhook_store \<Rightarrow> WebhookConfig list" where
  "hook_list s = map_values (ws_store s)"

definition addToDlq :: "'d DeadLetterEntry \<Rightarrow> 'd webhook_store \<Rightarrow> 'd webhook_store" where
  "addToDlq e s = s\<lparr>ws_dead := map_set (dl_deliveryId e) e (ws_dead s)\<rparr>"

definition dlqDepth :: "'d webhook_store \<Rightarrow> nat" where
  "dlqDepth s = length (ws_dead s)"

definition getFromDlq :: "string \<Rightarrow> 'd webhook_store \<Rightarrow> 'd DeadLetterEntry option" where
  "getFromDlq i s = map_get (ws_dead s) i"

definition recordFailedDelivery :: "FailedDeliveryEntry \<Rightarrow> 'd webhook_store \<Rightarrow> 'd webhook_store" where
  "recordFailedDelivery e s = s\<lparr>ws_failed :=
     (if length (ws_failed s) \<ge> MAX_FAILED_LOG then tl (ws_failed s) else ws_failed s) @ [e]\<rparr>"

text \<open>\<open>slice(-cap)\<close>: a cap of zero is \<open>slice(0)\<close>, the whole array; a negative limit gives a
  positive start.\<close>

definition getRecentFailures :: "int \<Rightarrow> 'd webhook_store \<Rightarrow> FailedDeliveryEntry list" where
  "getRecentFailures limit s = (let cap = min limit 100; log = ws_failed s in
     rev (if cap > 0 then drop (length log - nat cap) log else drop (nat (- cap)) log))"

section \<open>Checking the target\<close>

record hook_url =
  hu_protocol :: string
  hu_hostname :: string
  hu_port :: string

record hook_net =
  hn_parseURL :: "string \<Rightarrow> hook_url option"
  hn_lookup :: "string \<Rightarrow> string list option"
  hn_ipRangeCheck :: "string \<Rightarrow> string list \<Rightarrow> bool"
  hn_production :: bool

definition BLOCKED_RANGES :: "string list" where
  "BLOCKED_RANGES = [''10.0.0.0/8'', ''172.16.0.0/12'', ''192.168.0.0/16'', ''127.0.0.0/8'', ''169.254.0.0/16'', ''::1/128'',
     ''fc00::/7'', ''0.0.0.0/8'', ''100.64.0.0/10'', ''198.18.0.0/15'', ''240.0.0.0/4'']"

definition validateWebhookUrl :: "hook_net \<Rightarrow> string \<Rightarrow> string option" where
  "validateWebhookUrl n rawUrl = (case hn_parseURL n rawUrl of
       None \<Rightarrow> Some ''Invalid URL format.''
     | Some parsed \<Rightarrow>
        if hn_production n \<and> hu_protocol parsed \<noteq> ''https:'' then Some ''Webhook URL must use HTTPS in production.''
        else (case hn_lookup n (hu_hostname parsed) of
            None \<Rightarrow> Some ''Could not resolve webhook hostname.''
          | Some addresses \<Rightarrow>
             (case (if hn_production n then List.find (\<lambda>ip. hn_ipRangeCheck n ip BLOCKED_RANGES) addresses else None) of
                Some ip \<Rightarrow> Some (''Webhook URL resolves to a private/internal IP address ('' @ ip @ ''), which is not allowed.'')
              | None \<Rightarrow> if hn_production n \<and> hu_port parsed \<noteq> [] \<and> hu_port parsed \<notin> {''80'', ''443''}
                  then Some ''Only ports 80 and 443 are allowed in production.'' else None)))"

section \<open>The dispatcher\<close>

datatype fetch_result = Responded nat string | Threw string

record webhook_request =
  wr_url :: string
  wr_body :: string
  wr_headers :: "(string, string) js_map"

text \<open>What one dispatch takes from its surroundings: the drawn delivery id, the ids of the request
  context, the serialised body, HMAC, the time of a final failure.\<close>

record 'd dispatch_env =
  de_default :: RetryPolicy
  de_deliveryId :: string
  de_requestId :: "string option"
  de_correlationId :: "string option"
  de_stringify :: "'d WebhookPayload \<Rightarrow> string"
  de_hmac :: "string \<Rightarrow> string \<Rightarrow> string"
  de_failedAt :: millis

definition signPayload :: "(string \<Rightarrow> string \<Rightarrow> string) \<Rightarrow> string \<Rightarrow> string \<Rightarrow> string" where
  "signPayload hmac secret body = hmac secret body"

definition dispatch_headers :: "'d dispatch_env \<Rightarrow> WebhookConfig \<Rightarrow> 'd WebhookPayload \<Rightarrow> (string, string) js_map" where
  "dispatch_headers e c p =
    (let opt = (\<lambda>k v h. if truthy v then map_set k (the v) h else h);
         h0 = [(''Content-Type'', ''application/json''), (''User-Agent'', ''Callora-Webhook/1.0''),
               (''X-Callora-Event'', wp_event p), (''X-Callora-Timestamp'', wp_timestamp p), (''X-Callora-Delivery'', de_deliveryId e)];
         h1 = opt ''X-Request-Id'' (de_requestId e) h0;
         h2 = opt ''X-Correlation-Id'' (de_correlationId e) h1 in
     if truthy (wc_secret c)
     then map_set ''X-Callora-Signature'' (''sha256='' @ signPayload (de_hmac e) (the (wc_secret c)) (de_stringify e p)) h2 else h2)"

definition response_ok :: "nat \<Rightarrow> bool" where
  "response_ok st \<longleftrightarrow> 200 \<le> st \<and> st \<le> 299"

fun failure_of :: "fetch_result \<Rightarrow> string option" where
  "failure_of (Responded st txt) = (if response_ok st then None else Some (''HTTP '' @ show_nat st @ '' '' @ txt))"
| "failure_of (Threw msg) = Some msg"

text \<open>The retry loop: \<open>None\<close> when an attempt was answered with 2xx, otherwise the last error.\<close>

function attempt_loop :: "(webhook_request \<Rightarrow> 'w \<Rightarrow> fetch_result \<times> 'w) \<Rightarrow> (rat \<Rightarrow> 'w \<Rightarrow> 'w) \<Rightarrow> webhook_request \<Rightarrow> rat \<Rightarrow> rat \<Rightarrow>
    nat \<Rightarrow> string \<Rightarrow> 'w \<Rightarrow> string option \<times> 'w" where
  "attempt_loop fetch sleep rq maxRetries base attempt lastError w =
    (if of_nat attempt < maxRetries then
       (case fetch rq w of (r, w1) \<Rightarrow>
         (case failure_of r of
            None \<Rightarrow> (None, w1)
          | Some err \<Rightarrow>
             (let w2 = (if of_nat attempt < maxRetries - 1 then sleep (calculateBackoff attempt base) w1 else w1) in
              attempt_loop fetch sleep rq maxRetries base (Suc attempt) err w2)))
     else (Some lastError, w))"
  by pat_completeness auto
termination
proof (relation "measure (\<lambda>(_, _, _, m, _, a, _, _). nat \<lceil>m - of_nat a\<rceil>)", goal_cases)
  case (2 fetch sleep rq m base a lastError w)
  then have "0 < m - of_nat a" by simp
  then have "0 < \<lceil>m - of_nat a\<rceil>" by simp
  moreover have "\<lceil>m - of_nat (Suc a)\<rceil> = \<lceil>m - of_nat a\<rceil> - 1"
    using ceiling_diff_one [of "m - of_nat a"] by (simp add: diff_diff_eq add.commute)
  ultimately show ?case by simp
qed simp

declare attempt_loop.simps [simp del]

definition failed_delivery :: "'d dispatch_env \<Rightarrow> WebhookConfig \<Rightarrow> 'd WebhookPayload \<Rightarrow> string \<Rightarrow> FailedDeliveryEntry" where
  "failed_delivery e c p err = \<lparr>fd_deliveryId = de_deliveryId e, fd_developerId = wc_developerId c,
     fd_event = wp_event p, fd_url = wc_url c, fd_failedAt = de_failedAt e, fd_lastError = err,
     fd_attempts = fst (getEffectiveRetryPolicy (de_default e) (wc_retryPolicy c))\<rparr>"

definition dispatch_request :: "'d dispatch_env \<Rightarrow> WebhookConfig \<Rightarrow> 'd WebhookPayload \<Rightarrow> webhook_request" where
  "dispatch_request e c p = \<lparr>wr_url = wc_url c, wr_body = de_stringify e p, wr_headers = dispatch_headers e c p\<rparr>"

definition dispatchWebhook :: "(webhook_request \<Rightarrow> 'w \<Rightarrow> fetch_result \<times> 'w) \<Rightarrow> (rat \<Rightarrow> 'w \<Rightarrow> 'w) \<Rightarrow> 'd dispatch_env \<Rightarrow>
    WebhookConfig \<Rightarrow> 'd WebhookPayload \<Rightarrow> 'd webhook_store \<times> 'w \<Rightarrow> 'd webhook_store \<times> 'w" where
  "dispatchWebhook fetch sleep e c p sw = (case sw of (s, w) \<Rightarrow>
    if \<not> ws_accepting s then (s, w)
    else (case getEffectiveRetryPolicy (de_default e) (wc_retryPolicy c) of (maxRetries, base) \<Rightarrow>
      (case attempt_loop fetch sleep (dispatch_request e c p) maxRetries base 0 ''undefined'' w of
         (None, w1) \<Rightarrow> (s, w1)
       | (Some err, w1) \<Rightarrow> (recordFailedDelivery (failed_delivery e c p err) s, w1))))"

text \<open>The dispatches of one call run concurrently; here they run in the order of the list, each with
  the surroundings of its own call. The callers pass at most one configuration.\<close>

definition dispatchToAll :: "(webhook_request \<Rightarrow> 'w \<Rightarrow> fetch_result \<times> 'w) \<Rightarrow> (rat \<Rightarrow> 'w \<Rightarrow> 'w) \<Rightarrow> (WebhookConfig \<Rightarrow> 'd dispatch_env) \<Rightarrow>
    WebhookConfig list \<Rightarrow> 'd WebhookPayload \<Rightarrow> 'd webhook_store \<times> 'w \<Rightarrow> 'd webhook_store \<times> 'w" where
  "dispatchToAll fetch sleep env configs p sw = fold (\<lambda>c. dispatchWebhook fetch sleep (env c) c p) configs sw"

definition stopWebhookDispatching :: "'d webhook_store \<Rightarrow> 'd webhook_store" where
  "stopWebhookDispatching s = s\<lparr>ws_accepting := False\<rparr>"

text \<open>The listener every platform event has.\<close>

definition handleEvent :: "(webhook_request \<Rightarrow> 'w \<Rightarrow> fetch_result \<times> 'w) \<Rightarrow> (rat \<Rightarrow> 'w \<Rightarrow> 'w) \<Rightarrow> (WebhookConfig \<Rightarrow> 'd dispatch_env) \<Rightarrow>
    string \<Rightarrow> string \<Rightarrow> string \<Rightarrow> 'd \<Rightarrow> 'd webhook_store \<times> 'w \<Rightarrow> 'd webhook_store \<times> 'w" where
  "handleEvent fetch sleep env event timestamp dev data sw =
    (let p = \<lparr>wp_event = event, wp_timestamp = timestamp, wp_developerId = dev, wp_data = data\<rparr>;
         configs = filter (\<lambda>c. wc_developerId c = dev) (getByEvent event (fst sw)) in
     if length configs > 0 then dispatchToAll fetch sleep env configs p sw else sw)"

section \<open>Signatures of inbound deliveries\<close>

definition SIGNATURE_TOLERANCE_MS :: millis where
  "SIGNATURE_TOLERANCE_MS = 5 * 60 * 1000"

definition computeSignature :: "(string \<Rightarrow> string \<Rightarrow> string) \<Rightarrow> string \<Rightarrow> string \<Rightarrow> string \<Rightarrow> string" where
  "computeSignature hmac secret timestamp rawBody = hmac secret (timestamp @ ''.'' @ rawBody)"

definition hex_value :: "char \<Rightarrow> nat option" where
  "hex_value c = (let n = (of_char c :: nat) in
     if 48 \<le> n \<and> n \<le> 57 then Some (n - 48) else if 97 \<le> n \<and> n \<le> 102 then Some (n - 87)
     else if 65 \<le> n \<and> n \<le> 70 then Some (n - 55) else None)"

text \<open>\<open>Buffer.from(s, 'hex')\<close>: pairs of digits up to the first that is not one.\<close>

fun hex_bytes :: "string \<Rightarrow> nat list" where
  "hex_bytes (a # b # s) = (case (hex_value a, hex_value b) of (Some x, Some y) \<Rightarrow> (16 * x + y) # hex_bytes s | _ \<Rightarrow> [])"
| "hex_bytes _ = []"

definition is_hex :: "string \<Rightarrow> bool" where
  "is_hex s \<longleftrightarrow> s \<noteq> [] \<and> list_all (\<lambda>c. hex_value c \<noteq> None) s"

definition safeCompare :: "string \<Rightarrow> string \<Rightarrow> bool" where
  "safeCompare a b = (if length a \<noteq> length b then False
     else if \<not> is_hex a \<or> \<not> is_hex b then False
     else hex_bytes a = hex_bytes b)"

record sig_env =
  se_hmac :: "string \<Rightarrow> string \<Rightarrow> string"
  se_dateParse :: "string \<Rightarrow> millis option"

definition verifyWebhookSignature :: "sig_env \<Rightarrow> string list \<Rightarrow> (string \<Rightarrow> string option) \<Rightarrow> string \<Rightarrow> millis \<Rightarrow> unit result" where
  "verifyWebhookSignature e secrets header rawBody now =
    (if length secrets = 0 then Inr ()
     else (let sig = header ''x-callora-signature-256''; ts = header ''x-callora-timestamp'' in
       if \<not> truthy sig \<or> \<not> truthy ts
       then Inl (UnauthorizedError ''Missing required headers: x-callora-signature-256, x-callora-timestamp.'' ''MISSING_WEBHOOK_SIGNATURE_HEADERS'')
       else (case se_dateParse e (the ts) of
           None \<Rightarrow> Inl (BadRequestError ''Invalid timestamp format in x-callora-timestamp.'' ''INVALID_WEBHOOK_TIMESTAMP'')
         | Some deliveryTime \<Rightarrow>
            if \<bar>now - deliveryTime\<bar> > SIGNATURE_TOLERANCE_MS
            then Inl (UnauthorizedError ''Webhook timestamp is too old or too far in the future.'' ''WEBHOOK_TIMESTAMP_OUT_OF_WINDOW'')
            else (let parts = split_on (CHR ''='') (the sig) in
              if length parts \<noteq> 2 \<or> parts ! 0 \<noteq> ''sha256'' \<or> parts ! 1 = []
              then Inl (BadRequestError ''Malformed x-callora-signature-256 header. Expected format: sha256=<hex>.'' ''MALFORMED_WEBHOOK_SIGNATURE'')
              else if \<not> list_ex (\<lambda>secret. safeCompare (computeSignature (se_hmac e) secret (the ts) rawBody) (parts ! 1)) secrets
              then Inl (UnauthorizedError ''Webhook signature verification failed.'' ''INVALID_WEBHOOK_SIGNATURE'')
              else Inr ()))))"

section \<open>Routes\<close>

text \<open>The mounted router is \<^verbatim>\<open>routes/webhooks.ts\<close>; \<^verbatim>\<open>webhooks/webhook.routes.ts\<close> has the same routes behind
  schemas. Both share the store. Of a request body the mounted router uses the fields as they are;
  identifiers, URL, event names and secret are strings here, an absent one the empty string. A retry
  policy is \<open>None\<close> when it is falsy, \<open>Some None\<close> when it is another value that is not an object.\<close>

definition no_webhook :: error where
  "no_webhook = NotFoundError ''No webhook registered for this developer.'' ''WEBHOOK_NOT_FOUND''"

definition validation_error :: error where
  "validation_error = BadRequestError ''Request validation failed'' ''VALIDATION_ERROR''"

definition VALID_EVENTS :: "string list" where
  "VALID_EVENTS = [''new_api_call'', ''settlement_completed'', ''low_balance_alert'']"

fun join_comma :: "string list \<Rightarrow> string" where
  "join_comma [] = []"
| "join_comma [x] = x"
| "join_comma (x # y # xs) = x @ '', '' @ join_comma (y # xs)"

text \<open>The stored policy: a value that is not an object has no fields.\<close>

definition stored_policy :: "raw_policy option option \<Rightarrow> RetryPolicy option" where
  "stored_policy v = (case v of None \<Rightarrow> None
     | Some None \<Rightarrow> Some \<lparr>pol_maxRetries = None, pol_baseDelayMs = None\<rparr>
     | Some (Some p) \<Rightarrow> Some \<lparr>pol_maxRetries = typed_field (rp_maxRetries p), pol_baseDelayMs = typed_field (rp_baseDelayMs p)\<rparr>)"

definition checked_register :: "hook_net \<Rightarrow> string \<Rightarrow> string \<Rightarrow> string list \<Rightarrow> string option \<Rightarrow> raw_policy option option \<Rightarrow> millis \<Rightarrow>
    'd webhook_store \<Rightarrow> unit result \<times> 'd webhook_store" where
  "checked_register n d u es secret policy now s =
    (case validateRetryPolicy (Option.bind policy id) of
       Inr msg \<Rightarrow> (Inl (BadRequestError msg ''INVALID_RETRY_POLICY''), s)
     | Inl _ \<Rightarrow> (case validateWebhookUrl n u of
          Some msg \<Rightarrow> (Inl (BadRequestError msg ''INVALID_WEBHOOK_URL''), s)
        | None \<Rightarrow> (Inr (), hook_register \<lparr>wc_developerId = d, wc_url = u, wc_events = es,
            wc_secret = None, wc_secret_current = secret, wc_secret_previous = None,
            wc_previous_expires_at = None, wc_createdAt = now, wc_retryPolicy = stored_policy policy\<rparr> s)))"

definition mounted_register :: "hook_net \<Rightarrow> string \<Rightarrow> string \<Rightarrow> string list option \<Rightarrow> string option \<Rightarrow> raw_policy option option \<Rightarrow> millis \<Rightarrow>
    'd webhook_store \<Rightarrow> unit result \<times> 'd webhook_store" where
  "mounted_register n d u events secret policy now s = (case events of
       None \<Rightarrow> (Inl (BadRequestError ''developerId, url, and a non-empty events array are required.'' ''INVALID_WEBHOOK_REGISTRATION''), s)
     | Some es \<Rightarrow>
        if d = [] \<or> u = [] \<or> es = []
        then (Inl (BadRequestError ''developerId, url, and a non-empty events array are required.'' ''INVALID_WEBHOOK_REGISTRATION''), s)
        else (let invalidEvents = filter (\<lambda>e. e \<notin> set VALID_EVENTS) es in
          if invalidEvents \<noteq> []
          then (Inl (BadRequestError (''Invalid event types: '' @ join_comma invalidEvents @ ''. Valid: '' @ join_comma VALID_EVENTS)
                 ''INVALID_WEBHOOK_EVENT_TYPES''), s)
          else checked_register n d u es secret policy now s))"

text \<open>\<open>POST /\<close> behind the schema. \<open>isUrl\<close> is the URL test of the schema library.\<close>

definition register_route :: "(string \<Rightarrow> bool) \<Rightarrow> hook_net \<Rightarrow> raw_registration \<Rightarrow> millis \<Rightarrow> 'd webhook_store \<Rightarrow>
    unit result \<times> 'd webhook_store" where
  "register_route isUrl n body now s = (case registerWebhookSchema isUrl body of
       None \<Rightarrow> (Inl validation_error, s)
     | Some i \<Rightarrow> checked_register n (ri_developerId i) (ri_url i) (ri_events i) (ri_secret i)
         (map_option (Some \<circ> as_unknown) (ri_retryPolicy i)) now s)"

text \<open>A configuration without its three secrets, as the routes hand it out.\<close>

record safe_config =
  sc_developerId :: string
  sc_url :: string
  sc_events :: "string list"
  sc_previous_expires_at :: "millis option"
  sc_createdAt :: millis
  sc_retryPolicy :: "RetryPolicy option"

definition safeConfig :: "WebhookConfig \<Rightarrow> safe_config" where
  "safeConfig c = \<lparr>sc_developerId = wc_developerId c, sc_url = wc_url c, sc_events = wc_events c,
     sc_previous_expires_at = wc_previous_expires_at c, sc_createdAt = wc_createdAt c, sc_retryPolicy = wc_retryPolicy c\<rparr>"

definition mounted_get :: "string \<Rightarrow> 'd webhook_store \<Rightarrow> safe_config result" where
  "mounted_get d s = (case hook_get d s of None \<Rightarrow> Inl no_webhook | Some c \<Rightarrow> Inr (safeConfig c))"

definition mounted_rotate :: "millis \<Rightarrow> string \<Rightarrow> string \<Rightarrow> millis \<Rightarrow> 'd webhook_store \<Rightarrow>
    (string \<times> millis option) result \<times> 'd webhook_store" where
  "mounted_rotate grace newSecret d now s = (case hook_get d s of None \<Rightarrow> (Inl no_webhook, s)
     | Some _ \<Rightarrow> (case rotateSecret d newSecret (now + grace) s of
          (None, s1) \<Rightarrow> (Inl no_webhook, s1)
        | (Some c, s1) \<Rightarrow> (Inr (newSecret, wc_previous_expires_at c), s1)))"

definition mounted_delete :: "string \<Rightarrow> 'd webhook_store \<Rightarrow> unit result \<times> 'd webhook_store" where
  "mounted_delete d s = (Inr (), hook_delete d s)"

definition mounted_retry_policy :: "string \<Rightarrow> raw_policy option option \<Rightarrow> 'd webhook_store \<Rightarrow> safe_config result \<times> 'd webhook_store" where
  "mounted_retry_policy d policy s = (case validateRetryPolicy (Option.bind policy id) of
       Inr msg \<Rightarrow> (Inl (BadRequestError msg ''INVALID_RETRY_POLICY''), s)
     | Inl _ \<Rightarrow> (case updateRetryPolicy d (stored_policy policy) s of
          (None, s1) \<Rightarrow> (Inl no_webhook, s1)
        | (Some c, s1) \<Rightarrow> (Inr (safeConfig c), s1)))"

text \<open>\<open>POST /deliver/:developerId\<close> up to the point where the body is parsed: the chunks of the request
  are collected, the active secrets looked up and the signature checked.\<close>

definition mounted_deliver :: "sig_env \<Rightarrow> string \<Rightarrow> (string \<Rightarrow> string option) \<Rightarrow> string list \<Rightarrow> millis \<Rightarrow> 'd webhook_store \<Rightarrow> unit result" where
  "mounted_deliver e d header chunks now s = (case hook_get d s of None \<Rightarrow> Inl no_webhook
     | Some c \<Rightarrow> verifyWebhookSignature e (getActiveSecrets c now) header (concat chunks) now)"

text \<open>The routes behind schemas: the check looks at the trimmed id, the handlers use the id as it was
  sent.\<close>

definition get_route :: "string \<Rightarrow> 'd webhook_store \<Rightarrow> safe_config result" where
  "get_route d s = (if webhookDeveloperIdSchema d = None then Inl validation_error else mounted_get d s)"

definition rotate_secret_route :: "millis \<Rightarrow> string \<Rightarrow> string \<Rightarrow> millis \<Rightarrow> 'd webhook_store \<Rightarrow>
    (string \<times> millis option) result \<times> 'd webhook_store" where
  "rotate_secret_route grace newSecret d now s =
    (if webhookDeveloperIdSchema d = None then (Inl validation_error, s) else mounted_rotate grace newSecret d now s)"

definition delete_route :: "string \<Rightarrow> 'd webhook_store \<Rightarrow> unit result \<times> 'd webhook_store" where
  "delete_route d s = (if webhookDeveloperIdSchema d = None then (Inl validation_error, s) else mounted_delete d s)"

definition retry_policy_route :: "string \<Rightarrow> raw_policy option option \<Rightarrow> bool \<Rightarrow> 'd webhook_store \<Rightarrow> safe_config result \<times> 'd webhook_store" where
  "retry_policy_route d policy unknown_keys s =
    (if webhookDeveloperIdSchema d = None then (Inl validation_error, s)
     else (case updateWebhookRetryPolicySchema policy unknown_keys of
         None \<Rightarrow> (Inl validation_error, s)
       | Some p \<Rightarrow> mounted_retry_policy d (map_option (Some \<circ> as_unknown) p) s))"

definition deliver_route :: "sig_env \<Rightarrow> string \<Rightarrow> (string \<Rightarrow> string option) \<Rightarrow> string list \<Rightarrow> millis \<Rightarrow> 'd webhook_store \<Rightarrow> unit result" where
  "deliver_route e d header chunks now s =
    (if webhookDeveloperIdSchema d = None then Inl validation_error else mounted_deliver e d header chunks now s)"

datatype component_status = StatusOk | StatusDegraded | StatusDown

definition deriveWebhookStatus :: "nat \<Rightarrow> nat \<Rightarrow> component_status" where
  "deriveWebhookStatus depth failures = (if depth \<ge> 10 then StatusDown else if failures > 0 then StatusDegraded else StatusOk)"

definition webhook_health_route :: "'d webhook_store \<Rightarrow> nat \<times> component_status \<times> nat \<times> nat \<times> FailedDeliveryEntry list" where
  "webhook_health_route s =
    (let recent = getRecentFailures 20 s; status = deriveWebhookStatus (dlqDepth s) (length recent) in
     (if status = StatusDown then 503 else 200, status, length (hook_list s), dlqDepth s, recent))"

text \<open>\<open>POST /api/admin/webhooks/replay\<close>: the request body is the \<open>deliveryId\<close> it carries, \<open>None\<close>
  when there is no body object and \<open>Some None\<close> when the field is not a string.\<close>

definition replay_route :: "(webhook_request \<Rightarrow> 'w \<Rightarrow> fetch_result \<times> 'w) \<Rightarrow> (rat \<Rightarrow> 'w \<Rightarrow> 'w) \<Rightarrow> 'd dispatch_env \<Rightarrow> string option option \<Rightarrow>
    'd webhook_store \<times> 'w \<Rightarrow> string result \<times> 'd webhook_store \<times> 'w" where
  "replay_route fetch sleep e body sw = (case body of
       None \<Rightarrow> (Inl (BadRequestError ''Request body is required'' ''INVALID_BODY''), sw)
     | Some None \<Rightarrow> (Inl (BadRequestError ''deliveryId is required and must be a non-empty string'' ''INVALID_DELIVERY_ID''), sw)
     | Some (Some i) \<Rightarrow> if trim i = []
         then (Inl (BadRequestError ''deliveryId is required and must be a non-empty string'' ''INVALID_DELIVERY_ID''), sw)
         else (case getFromDlq (trim i) (fst sw) of
             None \<Rightarrow> (Inl (NotFoundError (''No Dead-Letter Queue entry found for deliveryId: '' @ trim i) ''DLQ_ENTRY_NOT_FOUND''), sw)
           | Some entry \<Rightarrow> (Inr (dl_deliveryId entry), dispatchWebhook fetch sleep e (dl_config entry) (dl_payload entry) sw)))"

record subscription_stats =
  ss_developerId :: string
  ss_url :: string
  ss_events :: "string list"
  ss_registeredAt :: millis
  ss_retryPolicy :: "(rat \<times> rat) option"

definition getWebhookMonitorSnapshot :: "RetryPolicy \<Rightarrow> 'd webhook_store \<Rightarrow> FailedDeliveryEntry list \<times> nat \<times> subscription_stats list" where
  "getWebhookMonitorSnapshot dflt s =
    (getRecentFailures 100 s, dlqDepth s,
     map (\<lambda>c. \<lparr>ss_developerId = wc_developerId c, ss_url = wc_url c, ss_events = wc_events c, ss_registeredAt = wc_createdAt c,
        ss_retryPolicy = map_option (\<lambda>p. getEffectiveRetryPolicy dflt (Some p)) (wc_retryPolicy c)\<rparr>) (hook_list s))"

section \<open>Reachable stores\<close>

text \<open>The two values \<^verbatim>\<open>webhook.types.ts\<close> gives the default policy.\<close>

definition declared_defaults :: "RetryPolicy list" where
  "declared_defaults = [\<lparr>pol_maxRetries = Some 3, pol_baseDelayMs = Some 1000\<rparr>, \<lparr>pol_maxRetries = Some 5, pol_baseDelayMs = Some 1000\<rparr>]"

text \<open>A dispatch holds the configuration it started with while the routes change the store; it touches
  the store once, when it records that all its attempts failed.\<close>

inductive webhooks_reachable :: "'d webhook_store \<Rightarrow> bool" where
  reach_empty: "webhooks_reachable empty_webhooks"
| reach_mounted_register: "webhooks_reachable s \<Longrightarrow> webhooks_reachable (snd (mounted_register n d u events secret policy now s))"
| reach_register: "webhooks_reachable s \<Longrightarrow> webhooks_reachable (snd (register_route isUrl n body now s))"
| reach_rotate: "webhooks_reachable s \<Longrightarrow> webhooks_reachable (snd (mounted_rotate grace newSecret d now s))"
| reach_delete: "webhooks_reachable s \<Longrightarrow> webhooks_reachable (snd (mounted_delete d s))"
| reach_policy: "webhooks_reachable s \<Longrightarrow> webhooks_reachable (snd (mounted_retry_policy d policy s))"
| reach_stop: "webhooks_reachable s \<Longrightarrow> webhooks_reachable (stopWebhookDispatching s)"
| reach_failure: "webhooks_reachable s0 \<Longrightarrow> c \<in> set (hook_list s0) \<Longrightarrow> webhooks_reachable s \<Longrightarrow>
    de_default (e :: 'd dispatch_env) \<in> set declared_defaults \<Longrightarrow>
    webhooks_reachable (recordFailedDelivery (failed_delivery e c p err) s)"
| reach_replay_failure: "webhooks_reachable s0 \<Longrightarrow> getFromDlq i s0 = Some entry \<Longrightarrow> webhooks_reachable s \<Longrightarrow>
    webhooks_reachable (recordFailedDelivery (failed_delivery e (dl_config entry) (dl_payload entry) err) s)"

definition policy_ok :: "RetryPolicy \<Rightarrow> bool" where
  "policy_ok p \<longleftrightarrow> integer_between 0 10 (field_of (pol_maxRetries p)) \<and> integer_between 100 60000 (field_of (pol_baseDelayMs p))"

definition config_ok :: "string \<Rightarrow> WebhookConfig \<Rightarrow> bool" where
  "config_ok d c \<longleftrightarrow> wc_developerId c = d \<and> wc_secret c = wc_secret_current c \<and>
     (wc_previous_expires_at c \<noteq> None \<longrightarrow> truthy (wc_secret_previous c)) \<and>
     wc_events c \<noteq> [] \<and> set (wc_events c) \<subseteq> set webhookManagementEvents \<and>
     (case wc_retryPolicy c of None \<Rightarrow> True | Some p \<Rightarrow> policy_ok p)"

definition failure_ok :: "FailedDeliveryEntry \<Rightarrow> bool" where
  "failure_ok f \<longleftrightarrow> integer_between 0 10 (Number (fd_attempts f))"

definition webhooks_ok :: "'d webhook_store \<Rightarrow> bool" where
  "webhooks_ok s \<longleftrightarrow> wf_map (ws_store s) \<and> list_all (\<lambda>x. config_ok (fst x) (snd x)) (ws_store s) \<and>
     ws_dead s = [] \<and> length (ws_failed s) \<le> MAX_FAILED_LOG \<and> list_all failure_ok (ws_failed s)"

lemma webhooks_ok_set:
  "webhooks_ok s \<Longrightarrow> config_ok d c \<Longrightarrow> webhooks_ok (s\<lparr>ws_store := map_set d c (ws_store s)\<rparr>)"
  by (auto simp: webhooks_ok_def list_all_iff set_map_set)

lemma webhooks_ok_get: "webhooks_ok s \<Longrightarrow> hook_get d s = Some c \<Longrightarrow> config_ok d c"
  by (auto simp: webhooks_ok_def hook_get_def list_all_iff dest!: map_get_in_set)

lemma typed_field_ok: "integer_between lo hi f \<Longrightarrow> integer_between lo hi (field_of (typed_field f))"
  by (cases f) auto

lemma stored_policy_ok:
  "validateRetryPolicy (Option.bind v id) = Inl u \<Longrightarrow> stored_policy v = Some p \<Longrightarrow> policy_ok p"
  by (auto simp: validateRetryPolicy_def stored_policy_def policy_ok_def typed_field_ok split: option.splits if_splits)

lemma config_normalized [simp]:
  "wc_developerId (normalizeConfig c) = wc_developerId c" "wc_events (normalizeConfig c) = wc_events c"
  "wc_secret (normalizeConfig c) = current_secret c" "wc_secret_current (normalizeConfig c) = current_secret c"
  "wc_secret_previous (normalizeConfig c) = wc_secret_previous c"
  "wc_previous_expires_at (normalizeConfig c) = wc_previous_expires_at c"
  "wc_retryPolicy (normalizeConfig c) = wc_retryPolicy c"
  by (simp_all add: normalizeConfig_def)

lemma checked_register_ok:
  assumes "webhooks_ok s" "es \<noteq> []" "set es \<subseteq> set webhookManagementEvents"
  shows "webhooks_ok (snd (checked_register n d u es secret policy now s))"
  using assms
  by (auto simp: checked_register_def hook_register_def config_ok_def dest: stored_policy_ok
      intro!: webhooks_ok_set split: sum.splits option.splits)

lemma mounted_register_ok: "webhooks_ok s \<Longrightarrow> webhooks_ok (snd (mounted_register n d u events secret policy now s))"
proof -
  have "set VALID_EVENTS \<subseteq> set webhookManagementEvents" by (simp add: VALID_EVENTS_def webhookManagementEvents_def)
  then have "filter (\<lambda>e. e \<notin> set VALID_EVENTS) es = [] \<Longrightarrow> set es \<subseteq> set webhookManagementEvents" for es
    by (auto simp: filter_empty_conv)
  then show "webhooks_ok s \<Longrightarrow> ?thesis"
    by (auto simp: mounted_register_def Let_def intro!: checked_register_ok split: option.splits)
qed

lemma register_route_ok: "webhooks_ok s \<Longrightarrow> webhooks_ok (snd (register_route isUrl n body now s))"
  by (auto simp: register_route_def registerWebhookSchema_def events_schema_def
      intro!: checked_register_ok split: option.splits if_splits Option.bind_splits)

lemma config_ok_rotated:
  "config_ok d c \<Longrightarrow> config_ok d (normalizeConfig (c\<lparr>wc_secret := Some new, wc_secret_current := Some new,
     wc_secret_previous := current_secret c,
     wc_previous_expires_at := (if truthy (current_secret c) then Some t else None)\<rparr>))"
  by (simp add: config_ok_def current_secret_def nullish_or_def)

lemma config_ok_policy:
  "config_ok d c \<Longrightarrow> (\<And>q. p = Some q \<Longrightarrow> policy_ok q) \<Longrightarrow> config_ok d (normalizeConfig (c\<lparr>wc_retryPolicy := p\<rparr>))"
  by (auto simp: config_ok_def current_secret_def nullish_or_def split: option.splits)

lemma mounted_rotate_ok: "webhooks_ok s \<Longrightarrow> webhooks_ok (snd (mounted_rotate grace new d now s))"
  by (cases "hook_get d s") (simp_all add: mounted_rotate_def rotateSecret_def Let_def webhooks_ok_set config_ok_rotated webhooks_ok_get del: if_split)

lemma mounted_policy_ok:
  assumes "webhooks_ok s"
  shows "webhooks_ok (snd (mounted_retry_policy d policy s))"
proof (cases "hook_get d s")
  case None
  with assms show ?thesis by (simp add: mounted_retry_policy_def updateRetryPolicy_def split: sum.splits)
next
  case (Some c)
  with assms have "validateRetryPolicy (Option.bind policy id) = Inl u \<Longrightarrow>
      webhooks_ok (s\<lparr>ws_store := map_set d (normalizeConfig (c\<lparr>wc_retryPolicy := stored_policy policy\<rparr>)) (ws_store s)\<rparr>)" for u
    by (intro webhooks_ok_set config_ok_policy webhooks_ok_get) (auto intro: stored_policy_ok)
  with assms Some show ?thesis by (simp add: mounted_retry_policy_def updateRetryPolicy_def Let_def split: sum.splits)
qed

lemma mounted_delete_ok: "webhooks_ok s \<Longrightarrow> webhooks_ok (snd (mounted_delete d s))"
proof -
  have "set (map_delete d m) \<subseteq> set m" for m :: "(string, WebhookConfig) js_map" by (auto simp: AList.delete_eq)
  then show "webhooks_ok s \<Longrightarrow> ?thesis"
    by (auto simp: mounted_delete_def hook_delete_def webhooks_ok_def list_all_iff)
qed

lemma hook_list_ok: "webhooks_ok s \<Longrightarrow> c \<in> set (hook_list s) \<Longrightarrow> config_ok (wc_developerId c) c"
  by (auto simp: webhooks_ok_def hook_list_def list_all_iff config_ok_def)

lemma failed_delivery_ok:
  assumes "config_ok d c" "de_default e \<in> set declared_defaults"
  shows "failure_ok (failed_delivery e c p err)"
  using assms
  by (auto simp: failure_ok_def failed_delivery_def getEffectiveRetryPolicy_def config_ok_def policy_ok_def declared_defaults_def
      split: option.splits)

lemma record_failed_ok: "webhooks_ok s \<Longrightarrow> failure_ok f \<Longrightarrow> webhooks_ok (recordFailedDelivery f s)"
  by (auto simp: recordFailedDelivery_def webhooks_ok_def MAX_FAILED_LOG_def list_all_iff dest: list.set_sel(2) [rotated])

lemma replay_without_dead_letters:
  "ws_dead s = [] \<Longrightarrow> \<exists>err. replay_route fetch sleep e i (s, w) = (Inl err, s, w) \<and> statusCode err \<in> {Some 400, Some 404}"
  by (auto simp: replay_route_def getFromDlq_def split: option.splits)

lemma webhooks_reachable_ok: "webhooks_reachable s \<Longrightarrow> webhooks_ok s"
proof (induction rule: webhooks_reachable.induct)
  case reach_empty
  then show ?case by (simp add: empty_webhooks_def webhooks_ok_def)
next
  case (reach_stop s)
  then show ?case by (simp add: stopWebhookDispatching_def webhooks_ok_def)
next
  case (reach_failure s0 c s e p err)
  then show ?case by (blast intro: record_failed_ok failed_delivery_ok hook_list_ok)
next
  case (reach_replay_failure s0 i entry s e err)
  then show ?case by (simp add: webhooks_ok_def getFromDlq_def)
qed (simp_all add: mounted_register_ok register_route_ok mounted_rotate_ok mounted_delete_ok mounted_policy_ok)

text \<open>A dispatch started in a reachable store leaves a reachable store.\<close>

lemma dispatch_reachable:
  assumes "webhooks_reachable s" "c \<in> set (hook_list s)" "de_default e \<in> set declared_defaults"
  shows "webhooks_reachable (fst (dispatchWebhook fetch sleep e c p (s, w)))"
  using assms by (auto simp: dispatchWebhook_def intro: reach_failure split: prod.splits option.splits)

section \<open>Counting attempts\<close>

text \<open>A world that records what the dispatcher does and answers the i-th request with \<open>outs i\<close>.\<close>

datatype net_event = Sent webhook_request | Slept rat

fun scripted_fetch :: "(nat \<Rightarrow> fetch_result) \<Rightarrow> webhook_request \<Rightarrow> nat \<times> net_event list \<Rightarrow> fetch_result \<times> nat \<times> net_event list" where
  "scripted_fetch outs rq (i, tr) = (outs i, Suc i, tr @ [Sent rq])"

fun scripted_sleep :: "rat \<Rightarrow> nat \<times> net_event list \<Rightarrow> nat \<times> net_event list" where
  "scripted_sleep d (i, tr) = (i, tr @ [Slept d])"

text \<open>What \<open>k\<close> requests in a row look like: between two of them a pause that doubles.\<close>

definition backoff_trace :: "webhook_request \<Rightarrow> rat \<Rightarrow> nat \<Rightarrow> nat \<Rightarrow> net_event list" where
  "backoff_trace rq base a k = concat (map (\<lambda>i. Sent rq # (if Suc i < k then [Slept (base * 2 ^ i)] else [])) [a..<k])"

definition failures_before :: "(nat \<Rightarrow> fetch_result) \<Rightarrow> nat \<Rightarrow> nat \<Rightarrow> nat" where
  "failures_before outs a n = length (takeWhile (\<lambda>i. failure_of (outs i) \<noteq> None) [a..<n])"

lemma failures_before_step:
  "a < n \<Longrightarrow> failures_before outs a n = (case failure_of (outs a) of None \<Rightarrow> 0 | Some _ \<Rightarrow> Suc (failures_before outs (Suc a) n))"
  by (simp add: failures_before_def upt_conv_Cons split: option.split)

lemma failures_before_le: "failures_before outs a n \<le> n - a"
  unfolding failures_before_def by (metis length_takeWhile_le length_upt)

lemma attempt_loop_exact:
  assumes "a \<le> n"
  shows "attempt_loop (scripted_fetch outs) scripted_sleep rq (of_nat n) base a err (a, tr) =
    (let f = a + failures_before outs a n; k = min n (Suc f) in
     (if f < n then None else Some (if a < n then the (failure_of (outs (n - 1))) else err), k, tr @ backoff_trace rq base a k))"
  using assms
proof (induction "n - a" arbitrary: a err tr)
  case 0
  then show ?case by (simp add: attempt_loop.simps failures_before_def backoff_trace_def)
next
  case (Suc m)
  then have "a < n" by simp
  show ?case
  proof (cases "failure_of (outs a)")
    case None
    then show ?thesis using \<open>a < n\<close>
      by (simp add: attempt_loop.simps failures_before_step backoff_trace_def Let_def min_absorb2 Suc_leI)
  next
    case (Some err')
    let ?tr = "tr @ [Sent rq] @ (if Suc a < n then [Slept (base * 2 ^ a)] else [])"
    let ?f = "Suc a + failures_before outs (Suc a) n"
    have "?f \<le> n" using failures_before_le [of outs "Suc a" n] \<open>a < n\<close> by simp
    then have k: "Suc a < min n (Suc ?f) \<longleftrightarrow> Suc a < n" by auto
    have "attempt_loop (scripted_fetch outs) scripted_sleep rq (of_nat n) base a err (a, tr) =
        attempt_loop (scripted_fetch outs) scripted_sleep rq (of_nat n) base (Suc a) err' (Suc a, ?tr)"
      using \<open>a < n\<close> Some by (subst attempt_loop.simps) (auto simp: calculateBackoff_def Let_def)
    also have "\<dots> = (let f = ?f; k = min n (Suc f) in
        (if f < n then None else Some (if Suc a < n then the (failure_of (outs (n - 1))) else err'), k, ?tr @ backoff_trace rq base (Suc a) k))"
      using Suc.hyps(1) [of "Suc a" err' ?tr] Suc.hyps(2) \<open>a < n\<close> by simp
    finally have "attempt_loop (scripted_fetch outs) scripted_sleep rq (of_nat n) base a err (a, tr) = \<dots>" .
    moreover have "?tr @ backoff_trace rq base (Suc a) (min n (Suc ?f)) = tr @ backoff_trace rq base a (min n (Suc ?f))"
      using \<open>a < n\<close> k by (simp add: backoff_trace_def upt_conv_Cons)
    moreover have "failure_of (outs (n - 1)) = Some err'" if "\<not> Suc a < n"
    proof -
      from that \<open>a < n\<close> have "n - 1 = a" by simp
      with Some show ?thesis by simp
    qed
    ultimately show ?thesis using \<open>a < n\<close> Some by (auto simp: failures_before_step Let_def)
  qed
qed

section \<open>Hexadecimal signatures\<close>

definition lower_hex :: "char \<Rightarrow> bool" where
  "lower_hex c \<longleftrightarrow> is_digit c \<or> (97 \<le> (of_char c :: nat) \<and> (of_char c :: nat) \<le> 102)"

definition hmac_ok :: "(string \<Rightarrow> string \<Rightarrow> string) \<Rightarrow> bool" where
  "hmac_ok h \<longleftrightarrow> (\<forall>k m. length (h k m) = 64 \<and> list_all lower_hex (h k m))"

lemma lower_hex_value: "lower_hex c \<Longrightarrow> hex_value c \<noteq> None"
  by (auto simp: lower_hex_def is_digit_def hex_value_def Let_def)

lemma hex_value_lower:
  assumes "lower_hex c" "hex_value d = hex_value c"
  shows "lower_char d = c"
proof -
  consider "(of_char d :: nat) = of_char c" "lower_char d = d"
    | "lower_char d = char_of ((of_char d :: nat) + 32)" "(of_char d :: nat) + 32 = of_char c"
    using assms
    by (auto simp: lower_hex_def is_digit_def hex_value_def lower_char_def Let_def simp del: of_char_eq_iff split: if_splits)
  then show ?thesis by cases simp_all
qed

lemma hex_value_lower_char: "hex_value d \<noteq> None \<Longrightarrow> hex_value (lower_char d) = hex_value d"
  by (auto simp: hex_value_def lower_char_def Let_def split: if_splits)

lemma hex_bytes_eq:
  "even (length a) \<Longrightarrow> length b = length a \<Longrightarrow> list_all (\<lambda>c. hex_value c \<noteq> None) a \<Longrightarrow> list_all (\<lambda>c. hex_value c \<noteq> None) b \<Longrightarrow>
   hex_bytes a = hex_bytes b \<longleftrightarrow> map hex_value a = map hex_value b"
proof (induction a arbitrary: b rule: hex_bytes.induct)
  case (1 x y s)
  then obtain x' y' s' where b: "b = x' # y' # s'" by (cases b; cases "tl b") auto
  have lt: "hex_value c = Some v \<Longrightarrow> v < 16" for c v by (auto simp: hex_value_def Let_def split: if_splits)
  have "v < 16 \<Longrightarrow> (16 * u + v) div 16 = u \<and> (16 * u + v) mod 16 = v" for u v :: nat by simp
  then have nib: "v < 16 \<Longrightarrow> v' < 16 \<Longrightarrow> 16 * u + v = 16 * u' + v' \<longleftrightarrow> u = u' \<and> v = v'" for u v u' v' :: nat by metis
  from "1.prems" b obtain u v u' v' where v: "hex_value x = Some u" "hex_value y = Some v" "hex_value x' = Some u'" "hex_value y' = Some v'"
    by auto
  then have "16 * u + v = 16 * u' + v' \<longleftrightarrow> u = u' \<and> v = v'" by (intro nib) (auto dest: lt)
  moreover have "hex_bytes s = hex_bytes s' \<longleftrightarrow> map hex_value s = map hex_value s'"
    using "1.prems" b v by (intro "1.IH" [OF refl v(1,2)]) auto
  ultimately show ?case using b v by simp
qed auto

lemma safeCompare_iff:
  assumes "length a = 64" "list_all lower_hex a"
  shows "safeCompare a h \<longleftrightarrow> toLowerCase h = a"
proof -
  have a: "list_all (\<lambda>c. hex_value c \<noteq> None) a" "a \<noteq> []"
    using assms lower_hex_value by (auto simp: list_all_iff)
  have "toLowerCase h = a \<longleftrightarrow> length h = length a \<and> list_all (\<lambda>c. hex_value c \<noteq> None) h \<and> map hex_value a = map hex_value h" (is "?l \<longleftrightarrow> ?r")
  proof
    assume l: ?l
    have "hex_value d \<noteq> None \<and> hex_value (lower_char d) = hex_value d" if "d \<in> set h" for d
    proof -
      from l that have "lower_hex (lower_char d)" using assms(2) by (auto simp: toLowerCase_def list_all_iff)
      then have "hex_value d \<noteq> None"
        by (auto simp: lower_hex_def is_digit_def lower_char_def hex_value_def Let_def split: if_splits)
      then show ?thesis using hex_value_lower_char by blast
    qed
    with l show ?r by (auto simp: toLowerCase_def list_all_iff)
  next
    assume r: ?r
    have "lower_char (h ! i) = a ! i" if "i < length a" for i
    proof (rule hex_value_lower)
      show "lower_hex (a ! i)" using assms(2) that by (simp add: list_all_length)
      from r have "map hex_value h ! i = map hex_value a ! i" and "i < length h" using that by simp_all
      with that show "hex_value (h ! i) = hex_value (a ! i)" by (simp only: nth_map)
    qed
    moreover have "length h = length a" using r by simp
    ultimately show ?l unfolding toLowerCase_def by (intro nth_equalityI) simp_all
  qed
  then show ?thesis
    using a assms(1) hex_bytes_eq [of a h] by (cases "length h = length a") (auto simp add: safeCompare_def is_hex_def)
qed

lemma lower_hex_digest: "list_all lower_hex (toLowerCase h) \<Longrightarrow> CHR ''='' \<notin> set h"
proof
  assume "list_all lower_hex (toLowerCase h)" "CHR ''='' \<in> set h"
  then have "lower_hex (lower_char (CHR ''=''))" by (auto simp: toLowerCase_def list_all_iff)
  then show False by (simp add: lower_hex_def lower_char_def is_digit_def)
qed

lemma hmac_okD: "hmac_ok h \<Longrightarrow> length (h k m) = 64" "hmac_ok h \<Longrightarrow> list_all lower_hex (h k m)"
  by (simp_all add: hmac_ok_def)

text \<open>A request whose headers are in order is accepted or refused for its signature alone.\<close>

lemma verify_signed:
  assumes "hmac_ok (se_hmac e)" "secrets \<noteq> []" "header ''x-callora-timestamp'' = Some ts" "ts \<noteq> []" "se_dateParse e ts = Some t"
    "\<bar>now - t\<bar> \<le> 300000" "header ''x-callora-signature-256'' = Some (''sha256='' @ h)" "h \<noteq> []" "CHR ''='' \<notin> set h"
  shows "verifyWebhookSignature e secrets header body now =
    (if \<exists>secret \<in> set secrets. toLowerCase h = se_hmac e secret (ts @ ''.'' @ body) then Inr ()
     else Inl (UnauthorizedError ''Webhook signature verification failed.'' ''INVALID_WEBHOOK_SIGNATURE''))"
proof -
  have "split_on (CHR ''='') (''sha256'' @ CHR ''='' # h) = [''sha256'', h]" using assms(9) by (intro split_on_two) auto
  moreover have "safeCompare (se_hmac e secret m) h \<longleftrightarrow> toLowerCase h = se_hmac e secret m" for secret m
    by (rule safeCompare_iff [OF hmac_okD [OF assms(1)]])
  ultimately show ?thesis using assms(2-8)
    by (auto simp: verifyWebhookSignature_def truthy_def SIGNATURE_TOLERANCE_MS_def computeSignature_def Let_def list_ex_iff)
qed

lemma verify_accepts_iff:
  assumes "hmac_ok (se_hmac e)"
  shows "verifyWebhookSignature e secrets header body now = Inr () \<longleftrightarrow>
    secrets = [] \<or>
    (\<exists>ts t h. header ''x-callora-timestamp'' = Some ts \<and> ts \<noteq> [] \<and> se_dateParse e ts = Some t \<and>
       \<bar>now - t\<bar> \<le> 300000 \<and> header ''x-callora-signature-256'' = Some (''sha256='' @ h) \<and>
       (\<exists>secret \<in> set secrets. toLowerCase h = se_hmac e secret (ts @ ''.'' @ body)))" (is "?l \<longleftrightarrow> _ \<or> ?r")
proof -
  note cmp = safeCompare_iff [OF hmac_okD [OF assms]]
  have "?l" if r: ?r
  proof -
    from r obtain ts t h secret where h: "header ''x-callora-timestamp'' = Some ts" "ts \<noteq> []" "se_dateParse e ts = Some t"
      "\<bar>now - t\<bar> \<le> 300000" "header ''x-callora-signature-256'' = Some (''sha256='' @ h)"
      and s: "secret \<in> set secrets" "toLowerCase h = se_hmac e secret (ts @ ''.'' @ body)" by blast
    have "CHR ''='' \<notin> set h" using s(2) hmac_okD [OF assms] by (intro lower_hex_digest) simp
    moreover have "h \<noteq> []"
      using s(2) hmac_okD(1) [OF assms, of secret "ts @ ''.'' @ body"] by (auto simp: toLowerCase_def simp del: append.simps)
    moreover have "secrets \<noteq> []" using s(1) by auto
    ultimately show ?l using s by (auto simp: verify_signed [OF assms _ h])
  qed
  moreover have ?r if l: ?l and "secrets \<noteq> []"
  proof -
    from l that obtain ts t sig where h: "header ''x-callora-timestamp'' = Some ts" "ts \<noteq> []" "se_dateParse e ts = Some t"
      "\<bar>now - t\<bar> \<le> 300000" "header ''x-callora-signature-256'' = Some sig" "length (split_on (CHR ''='') sig) = 2"
      "split_on (CHR ''='') sig ! 0 = ''sha256''"
      and ex: "list_ex (\<lambda>secret. safeCompare (se_hmac e secret (ts @ ''.'' @ body)) (split_on (CHR ''='') sig ! 1)) secrets"
      by (auto simp: verifyWebhookSignature_def truthy_def SIGNATURE_TOLERANCE_MS_def computeSignature_def Let_def
          split: if_splits option.splits)
    from h(6,7) obtain b where "split_on (CHR ''='') sig = [''sha256'', b]"
      by (auto simp: numeral_2_eq_2 length_Suc_conv)
    with ex have "sig = ''sha256='' @ b" "\<exists>secret \<in> set secrets. toLowerCase b = se_hmac e secret (ts @ ''.'' @ body)"
      using split_on_twoD [of "CHR ''=''" sig "''sha256''" b] by (auto simp: list_ex_iff cmp)
    with h show ?r by blast
  qed
  moreover have ?l if "secrets = []" using that by (simp add: verifyWebhookSignature_def)
  ultimately show ?thesis by blast
qed

lemma set_unique [simp]: "set (unique xs) = set xs"
  by (simp add: unique_def)

lemma active_secrets_rotated:
  assumes "truthy (Some old)" "truthy (Some new)"
  shows "set (getActiveSecrets (normalizeConfig (c\<lparr>wc_secret := Some new, wc_secret_current := Some new,
     wc_secret_previous := Some old, wc_previous_expires_at := Some t\<rparr>)) now) = (if now \<le> t then {old, new} else {new})"
  using assms by (auto simp: getActiveSecrets_def current_secret_def nullish_or_def truthy_def)

lemma lower_hex_lower: "lower_hex c \<Longrightarrow> lower_char c = c"
  by (auto simp: lower_hex_def is_digit_def lower_char_def Let_def)

lemma toLowerCase_digest: "list_all lower_hex h \<Longrightarrow> toLowerCase h = h"
  by (auto simp: toLowerCase_def list_all_iff lower_hex_lower intro: map_idI)

section \<open>Properties\<close>

text \<open>C11. Whatever requests, events, failed deliveries and replays happen, the subscription store stays well typed:
  a configuration is stored under its own developer id, its two names for the current secret agree, a
  previous secret has an expiry only when there is one, the events are a non-empty list of the events a
  subscription may name, and a retry policy holds whole numbers within the documented ranges. The log of
  failed deliveries has at most 200 entries, each with 0 to 10 attempts.\<close>

theorem webhook_state_typed:
  assumes "webhooks_reachable s"
  shows "(\<forall>d c. hook_get d s = Some c \<longrightarrow>
      wc_developerId c = d \<and> wc_secret c = wc_secret_current c \<and>
      (wc_previous_expires_at c \<noteq> None \<longrightarrow> truthy (wc_secret_previous c)) \<and>
      wc_events c \<noteq> [] \<and> set (wc_events c) \<subseteq> set webhookManagementEvents \<and>
      (\<forall>p. wc_retryPolicy c = Some p \<longrightarrow>
        (\<forall>q. pol_maxRetries p = Some q \<longrightarrow> q \<in> \<int> \<and> 0 \<le> q \<and> q \<le> 10) \<and>
        (\<forall>q. pol_baseDelayMs p = Some q \<longrightarrow> q \<in> \<int> \<and> 100 \<le> q \<and> q \<le> 60000))) \<and>
    length (ws_failed s) \<le> 200 \<and>
    (\<forall>f \<in> set (ws_failed s). fd_attempts f \<in> \<int> \<and> 0 \<le> fd_attempts f \<and> fd_attempts f \<le> 10)"
proof -
  have ok: "webhooks_ok s" using assms by (rule webhooks_reachable_ok)
  have whole: "of_int \<lfloor>q\<rfloor> = q \<Longrightarrow> q \<in> \<int>" for q :: rat by (metis Ints_of_int)
  have "policy_ok p \<Longrightarrow> (\<forall>q. pol_maxRetries p = Some q \<longrightarrow> q \<in> \<int> \<and> 0 \<le> q \<and> q \<le> 10) \<and>
        (\<forall>q. pol_baseDelayMs p = Some q \<longrightarrow> q \<in> \<int> \<and> 100 \<le> q \<and> q \<le> 60000)" for p
    by (auto simp: policy_ok_def whole)
  moreover have "hook_get d s = Some c \<Longrightarrow> config_ok d c" for d c using ok by (rule webhooks_ok_get)
  moreover have "f \<in> set (ws_failed s) \<Longrightarrow> fd_attempts f \<in> \<int> \<and> 0 \<le> fd_attempts f \<and> fd_attempts f \<le> 10" for f
    using ok by (auto simp: webhooks_ok_def list_all_iff failure_ok_def whole)
  moreover have "length (ws_failed s) \<le> 200" using ok by (simp add: webhooks_ok_def MAX_FAILED_LOG_def)
  ultimately show ?thesis by (fastforce simp: config_ok_def)
qed

text \<open>C12. One dispatch makes exactly as many requests as it needs: with a policy of \<open>n\<close> attempts it sends the same
  signed request until the first 2xx answer, at most \<open>n\<close> times, pausing \<open>base * 2 ^ i\<close> milliseconds after
  the i-th failure; if and only if no answer was 2xx the failure is recorded, once, with the error of the
  last attempt.\<close>

theorem dispatch_exact:
  assumes "ws_accepting s" "getEffectiveRetryPolicy (de_default e) (wc_retryPolicy c) = (of_nat n, base)"
  shows "dispatchWebhook (scripted_fetch outs) scripted_sleep e c p (s, (0, [])) =
    (let f = failures_before outs 0 n; sends = min n (Suc f) in
     (if f < n then s
      else recordFailedDelivery (failed_delivery e c p (if n = 0 then ''undefined'' else the (failure_of (outs (n - 1))))) s,
      (sends, backoff_trace (dispatch_request e c p) base 0 sends)))"
  using assms attempt_loop_exact [of 0 n outs "dispatch_request e c p" base "''undefined''" "[]"]
  by (auto simp: dispatchWebhook_def Let_def)

text \<open>Nothing ever enters the dead letter queue: in every reachable store each replay request is refused with
  400 or 404 and sends nothing, and the health route never reports the subsystem as down.\<close>

theorem dead_letters_never_kept:
  assumes "webhooks_reachable s"
  shows "(\<exists>err. replay_route fetch sleep e i (s, w) = (Inl err, s, w) \<and> statusCode err \<in> {Some 400, Some 404}) \<and>
    fst (webhook_health_route s) = 200 \<and> dlqDepth s = 0"
proof -
  have "ws_dead s = []" using webhooks_reachable_ok [OF assms] by (simp add: webhooks_ok_def)
  then show ?thesis
    using replay_without_dead_letters [of s fetch sleep e i w]
    by (simp add: webhook_health_route_def deriveWebhookStatus_def dlqDepth_def Let_def)
qed

text \<open>Events that are not offered for subscription are never delivered: emitting one of them reads the store and
  sends no request, in every reachable store and for every developer.\<close>

theorem unlisted_events_never_delivered:
  assumes "webhooks_reachable s" "event \<notin> set webhookManagementEvents"
  shows "handleEvent fetch sleep env event timestamp d payload (s, w) = (s, w)"
proof -
  have "\<forall>x \<in> set (ws_store s). event \<notin> set (wc_events (snd x))"
    using webhooks_reachable_ok [OF assms(1)] assms(2) by (auto simp: webhooks_ok_def list_all_iff config_ok_def)
  then have "getByEvent event s = []" by (auto simp: getByEvent_def filter_empty_conv)
  then show ?thesis by (simp add: handleEvent_def)
qed

text \<open>C13. An inbound delivery passes the signature check exactly when the developer has no active secret, or when it
  carries a timestamp within five minutes of the server's clock and a header \<open>sha256=\<close> followed by the HMAC, in
  either letter case, of timestamp, dot and body under one of the secrets active at that moment.\<close>

theorem delivery_accepted_iff:
  assumes "hook_get d s = Some c" "hmac_ok (se_hmac e)"
  shows "mounted_deliver e d header chunks now s = Inr () \<longleftrightarrow>
    getActiveSecrets c now = [] \<or>
    (\<exists>ts t h. header ''x-callora-timestamp'' = Some ts \<and> ts \<noteq> [] \<and> se_dateParse e ts = Some t \<and>
       \<bar>now - t\<bar> \<le> 300000 \<and> header ''x-callora-signature-256'' = Some (''sha256='' @ h) \<and>
       (\<exists>secret \<in> set (getActiveSecrets c now). toLowerCase h = se_hmac e secret (ts @ ''.'' @ concat chunks)))"
  using verify_accepts_iff [OF assms(2)] assms(1) by (simp add: mounted_deliver_def)

text \<open>Rotating a secret opens a grace period and closes it: a delivery signed with the new secret is accepted from
  the rotation on, one signed with the old secret is accepted until the grace period ends and refused with
  401 afterwards.\<close>

theorem rotation_grace_exact:
  assumes "hook_get d s = Some c" "current_secret c = Some old" "old \<noteq> []" "new \<noteq> []"
    and "hmac_ok (se_hmac e)" "ts \<noteq> []" "se_dateParse e ts = Some t" "\<bar>now - t\<bar> \<le> 300000"
    and "se_hmac e old (ts @ ''.'' @ concat chunks) \<noteq> se_hmac e new (ts @ ''.'' @ concat chunks)"
  shows "let s1 = snd (mounted_rotate grace new d t0 s);
      signed = (\<lambda>secret. [''x-callora-timestamp'' \<mapsto> ts,
        ''x-callora-signature-256'' \<mapsto> ''sha256='' @ se_hmac e secret (ts @ ''.'' @ concat chunks)]) in
    mounted_deliver e d (signed new) chunks now s1 = Inr () \<and>
    mounted_deliver e d (signed old) chunks now s1 =
      (if now \<le> t0 + grace then Inr ()
       else Inl (UnauthorizedError ''Webhook signature verification failed.'' ''INVALID_WEBHOOK_SIGNATURE''))"
proof -
  let ?c = "normalizeConfig (c\<lparr>wc_secret := Some new, wc_secret_current := Some new,
     wc_secret_previous := Some old, wc_previous_expires_at := Some (t0 + grace)\<rparr>)"
  let ?m = "ts @ ''.'' @ concat chunks"
  let ?signed = "\<lambda>secret. [''x-callora-timestamp'' \<mapsto> ts, ''x-callora-signature-256'' \<mapsto> ''sha256='' @ se_hmac e secret ?m]"
  have get: "hook_get d (snd (mounted_rotate grace new d t0 s)) = Some ?c"
    using assms(1-4) by (simp add: mounted_rotate_def rotateSecret_def Let_def hook_get_def truthy_def jsmap)
  have act: "set (getActiveSecrets ?c now) = (if now \<le> t0 + grace then {old, new} else {new})"
    using assms(3,4) by (intro active_secrets_rotated) (simp_all add: truthy_def)
  have low: "toLowerCase (se_hmac e k m) = se_hmac e k m" for k m
    using assms(5) by (simp add: toLowerCase_digest hmac_okD)
  have "verifyWebhookSignature e (getActiveSecrets ?c now) (?signed k) (concat chunks) now =
      (if \<exists>secret \<in> set (getActiveSecrets ?c now). toLowerCase (se_hmac e k ?m) = se_hmac e secret ?m then Inr ()
       else Inl (UnauthorizedError ''Webhook signature verification failed.'' ''INVALID_WEBHOOK_SIGNATURE''))" for k
  proof (rule verify_signed [OF assms(5) _ _ assms(6-8)])
    have "new \<in> set (getActiveSecrets ?c now)" unfolding act by simp
    then show "getActiveSecrets ?c now \<noteq> []" by (metis empty_iff list.set(1))
    have "length (se_hmac e k ?m) = 64" by (rule hmac_okD(1) [OF assms(5)])
    then show "se_hmac e k ?m \<noteq> []" by (metis list.size(3) zero_neq_numeral)
    show "CHR ''='' \<notin> set (se_hmac e k ?m)"
      by (rule lower_hex_digest, subst low) (rule hmac_okD(2) [OF assms(5)])
  qed simp_all
  then show ?thesis using act assms(9) by (simp add: Let_def mounted_deliver_def get low)
qed

text \<open>What the dispatcher sends cannot be verified with the check this code base documents for deliveries: the
  signature is under another header name, so the check refuses every dispatched request as unsigned,
  whatever the secrets are.\<close>

theorem dispatched_delivery_unverifiable:
  assumes "secrets \<noteq> []"
  shows "verifyWebhookSignature v secrets
      (\<lambda>name. map_of (map (\<lambda>(k, x). (toLowerCase k, x)) (wr_headers (dispatch_request e c p))) name) body now =
    Inl (UnauthorizedError ''Missing required headers: x-callora-signature-256, x-callora-timestamp.''
      ''MISSING_WEBHOOK_SIGNATURE_HEADERS'')"
proof -
  let ?names = "[''Content-Type'', ''User-Agent'', ''X-Callora-Event'', ''X-Callora-Timestamp'', ''X-Callora-Delivery'',
    ''X-Request-Id'', ''X-Correlation-Id'', ''X-Callora-Signature'']"
  have "fst ` set (dispatch_headers e c p) \<subseteq> set ?names"
    by (simp add: dispatch_headers_def Let_def dom_update)
  moreover have "''x-callora-signature-256'' \<notin> toLowerCase ` set ?names"
    by (simp add: toLowerCase_def lower_char_def)
  ultimately have "map_of (map (\<lambda>(k, x). (toLowerCase k, x)) (dispatch_headers e c p)) ''x-callora-signature-256'' = None"
    by (force simp: map_of_eq_None_iff)
  then show ?thesis using assms by (simp add: verifyWebhookSignature_def truthy_def dispatch_request_def Let_def)
qed

section \<open>Witnesses\<close>

definition demo_hook_net :: hook_net where
  "demo_hook_net = \<lparr>hn_parseURL = (\<lambda>_. Some \<lparr>hu_protocol = ''https:'', hu_hostname = ''h'', hu_port = []\<rparr>),
     hn_lookup = (\<lambda>_. Some [''8.8.8.8'']), hn_ipRangeCheck = (\<lambda>_ _. False), hn_production = True\<rparr>"

definition demo_hook :: WebhookConfig where
  "demo_hook = \<lparr>wc_developerId = ''dev'', wc_url = ''https://h'', wc_events = [''new_api_call''], wc_secret = Some ''old-secret'',
     wc_secret_current = Some ''old-secret'', wc_secret_previous = None, wc_previous_expires_at = None, wc_createdAt = 0,
     wc_retryPolicy = Some \<lparr>pol_maxRetries = Some 2, pol_baseDelayMs = None\<rparr>\<rparr>"

definition demo_hooks :: "unit webhook_store" where
  "demo_hooks = \<lparr>ws_store = [(''dev'', demo_hook)], ws_dead = [], ws_failed = [], ws_accepting = True\<rparr>"

definition demo_sig :: sig_env where
  "demo_sig = \<lparr>se_hmac = (\<lambda>k _. replicate 64 (if k = ''old-secret'' then CHR ''0'' else CHR ''a'')), se_dateParse = (\<lambda>_. Some 0)\<rparr>"

definition demo_dispatch :: "unit dispatch_env" where
  "demo_dispatch = \<lparr>de_default = hd declared_defaults, de_deliveryId = ''id'', de_requestId = None, de_correlationId = None,
     de_stringify = (\<lambda>_. ''{}''), de_hmac = (\<lambda>_ _. ''00''), de_failedAt = 9\<rparr>"

definition demo_payload :: "unit WebhookPayload" where
  "demo_payload = \<lparr>wp_event = ''new_api_call'', wp_timestamp = ''t'', wp_developerId = ''dev'', wp_data = ()\<rparr>"

lemma demo_hooks_registered:
  "snd (mounted_register demo_hook_net ''dev'' ''https://h'' (Some [''new_api_call'']) (Some ''old-secret'')
     (Some (Some \<lparr>rp_maxRetries = Number 2, rp_baseDelayMs = Absent, rp_unknown_keys = False\<rparr>)) 0 empty_webhooks) = demo_hooks"
  by (simp add: mounted_register_def checked_register_def validateRetryPolicy_def validateWebhookUrl_def demo_hook_net_def
      hook_register_def normalizeConfig_def current_secret_def nullish_or_def stored_policy_def empty_webhooks_def
      VALID_EVENTS_def demo_hooks_def demo_hook_def)

lemma demo_hooks_reachable: "webhooks_reachable demo_hooks"
  unfolding demo_hooks_registered [symmetric] by (intro reach_mounted_register reach_empty)

lemma demo_get: "hook_get ''dev'' demo_hooks = Some demo_hook"
  by (simp add: hook_get_def demo_hooks_def)

lemma demo_hmac_ok: "hmac_ok (se_hmac demo_sig)"
  by (simp add: hmac_ok_def demo_sig_def list_all_iff lower_hex_def is_digit_def)

theorem webhook_state_typed_witness:
  "webhooks_reachable demo_hooks \<and> hook_get ''dev'' demo_hooks = Some demo_hook \<and> wc_developerId demo_hook = ''dev'' \<and>
   set (wc_events demo_hook) \<subseteq> set webhookManagementEvents \<and> length (ws_failed demo_hooks) \<le> 200"
  using webhook_state_typed [OF demo_hooks_reachable] demo_hooks_reachable demo_get by blast

theorem dispatch_exact_witness:
  "dispatchWebhook (scripted_fetch (\<lambda>i. if i = 0 then Threw ''timeout'' else Responded 503 ''Unavailable'')) scripted_sleep
     demo_dispatch demo_hook demo_payload (demo_hooks, (0, [])) =
   (recordFailedDelivery (failed_delivery demo_dispatch demo_hook demo_payload ''HTTP 503 Unavailable'') demo_hooks,
    (2, [Sent (dispatch_request demo_dispatch demo_hook demo_payload), Slept 1000, Sent (dispatch_request demo_dispatch demo_hook demo_payload)]))"
proof -
  have "getEffectiveRetryPolicy (de_default demo_dispatch) (wc_retryPolicy demo_hook) = (of_nat 2, 1000)"
    by (simp add: getEffectiveRetryPolicy_def demo_dispatch_def demo_hook_def declared_defaults_def)
  moreover have "ws_accepting demo_hooks" by (simp add: demo_hooks_def)
  moreover have "show_nat 503 = ''503''" by code_simp
  moreover have "\<not> response_ok 503" by (simp add: response_ok_def)
  ultimately show ?thesis
    using dispatch_exact [of demo_hooks demo_dispatch demo_hook 2 1000 "\<lambda>i. if i = 0 then Threw ''timeout'' else Responded 503 ''Unavailable''" demo_payload]
    by (simp add: failures_before_def backoff_trace_def Let_def numeral_2_eq_2)
qed

theorem dead_letters_never_kept_witness:
  "(\<exists>err. replay_route (scripted_fetch (\<lambda>_. Threw [])) scripted_sleep demo_dispatch (Some (Some ''id'')) (demo_hooks, (0, [])) =
     (Inl err, demo_hooks, (0, [])) \<and> statusCode err \<in> {Some 400, Some 404}) \<and> fst (webhook_health_route demo_hooks) = 200"
  using dead_letters_never_kept [OF demo_hooks_reachable, of "scripted_fetch (\<lambda>_. Threw [])" scripted_sleep demo_dispatch "Some (Some ''id'')" "(0, [])"]
  by (elim conjE) (intro conjI)

theorem unlisted_events_never_delivered_witness:
  "handleEvent (scripted_fetch (\<lambda>_. Threw [])) scripted_sleep (\<lambda>_. demo_dispatch) ''invoice_created'' ''t'' ''dev'' () (demo_hooks, (0, [])) =
     (demo_hooks, (0, []))"
  by (rule unlisted_events_never_delivered [OF demo_hooks_reachable]) (simp add: webhookManagementEvents_def)

theorem delivery_accepted_iff_witness:
  "hook_get ''dev'' demo_hooks = Some demo_hook \<and> hmac_ok (se_hmac demo_sig) \<and>
   mounted_deliver demo_sig ''dev'' [''x-callora-timestamp'' \<mapsto> ''t'', ''x-callora-signature-256'' \<mapsto> ''sha256='' @ replicate 64 (CHR ''0'')]
     [''b''] 300000 demo_hooks = Inr ()"
proof -
  have "toLowerCase (replicate 64 (CHR ''0'')) = se_hmac demo_sig ''old-secret'' (''t'' @ ''.'' @ concat [''b''])"
    by (simp add: demo_sig_def toLowerCase_def lower_char_def)
  moreover have "''old-secret'' \<in> set (getActiveSecrets demo_hook 300000)"
    by (simp add: getActiveSecrets_def demo_hook_def current_secret_def nullish_or_def truthy_def)
  moreover have "se_dateParse demo_sig ''t'' = Some 0" by (simp add: demo_sig_def)
  ultimately have "mounted_deliver demo_sig ''dev'' [''x-callora-timestamp'' \<mapsto> ''t'', ''x-callora-signature-256'' \<mapsto> ''sha256='' @ replicate 64 (CHR ''0'')]
     [''b''] 300000 demo_hooks = Inr ()"
    unfolding delivery_accepted_iff [OF demo_get demo_hmac_ok]
    by (intro disjI2 exI [of _ "''t''"] exI [of _ 0] exI [of _ "replicate 64 (CHR ''0'')"]) auto
  then show ?thesis using demo_get demo_hmac_ok by blast
qed

theorem rotation_grace_exact_witness:
  "mounted_deliver demo_sig ''dev'' [''x-callora-timestamp'' \<mapsto> ''t'', ''x-callora-signature-256'' \<mapsto> ''sha256='' @ replicate 64 (CHR ''0'')]
     [''b''] 11 (snd (mounted_rotate 10 ''new-secret'' ''dev'' 0 demo_hooks)) =
   Inl (UnauthorizedError ''Webhook signature verification failed.'' ''INVALID_WEBHOOK_SIGNATURE'')"
proof -
  have h: "se_hmac demo_sig ''old-secret'' m = replicate 64 (CHR ''0'')" "se_hmac demo_sig ''new-secret'' m = replicate 64 (CHR ''a'')" for m
    by (simp_all add: demo_sig_def)
  have "replicate 64 (CHR ''0'') \<noteq> replicate 64 (CHR ''a'')" by (simp add: replicate_eq_replicate)
  then show ?thesis
    using rotation_grace_exact [OF demo_get, of "''old-secret''" "''new-secret''" demo_sig "''t''" 0 11 "[''b'']" 10 0] demo_hmac_ok
    by (simp add: h demo_hook_def current_secret_def nullish_or_def demo_sig_def Let_def)
qed

theorem dispatched_delivery_unverifiable_witness:
  "verifyWebhookSignature demo_sig [''old-secret'']
      (\<lambda>name. map_of (map (\<lambda>(k, x). (toLowerCase k, x)) (wr_headers (dispatch_request demo_dispatch demo_hook demo_payload))) name) ''{}'' 0 =
    Inl (UnauthorizedError ''Missing required headers: x-callora-signature-256, x-callora-timestamp.'' ''MISSING_WEBHOOK_SIGNATURE_HEADERS'')"
  by (rule dispatched_delivery_unverifiable) simp

end
