(* ===== verification/SigningKeys.thy ===== *)
theory SigningKeys
  imports Prelude
begin

text \<open>
  The platform's webhook signing keys: \<^verbatim>\<open>services/webhookSigner.ts\<close> with its in-memory key store, and the
  rotation route of \<^verbatim>\<open>routes/admin/webhookKeys.ts\<close>.

  The service works against an interface; here its operations are a record, and the laws they promise are
  the locale \<open>signing_key_store\<close>, interpreted on the in-memory store. Timestamps the code keeps as ISO
  texts are milliseconds. SHA-256, the drawn secrets and ids are arguments.
\<close>

section \<open>Data\<close>

datatype KeyStatus = KeyActive | KeyPrevious | KeyExpired

record WebhookSigningKey =
  sk_id :: string
  sk_key_hash :: string
  sk_status :: KeyStatus
  sk_created_at :: millis
  sk_expires_at :: "millis option"
  sk_created_by :: string

record WebhookKeyRotationAudit =
  ra_id :: string
  ra_new_key_id :: string
  ra_previous_key_id :: "string option"
  ra_grace_window_ms :: int
  ra_expires_at :: millis
  ra_rotated_by :: string
  ra_rotated_at :: millis
  ra_correlation_id :: "string option"

record 's WebhookKeyStore =
  op_getActiveKey :: "'s \<Rightarrow> WebhookSigningKey option"
  op_getValidPreviousKeys :: "millis \<Rightarrow> 's \<Rightarrow> WebhookSigningKey list"
  op_insertKey :: "WebhookSigningKey \<Rightarrow> 's \<Rightarrow> 's"
  op_demoteActiveKey :: "millis \<Rightarrow> 's \<Rightarrow> WebhookSigningKey option \<times> 's"
  op_expireStaleKeys :: "millis \<Rightarrow> 's \<Rightarrow> 's"
  op_insertAuditEntry :: "WebhookKeyRotationAudit \<Rightarrow> 's \<Rightarrow> 's"

record RotationResult =
  rr_newKey :: WebhookSigningKey
  rr_rawSecret :: string
  rr_previousKey :: "WebhookSigningKey option"
  rr_graceWindowMs :: int
  rr_previousKeyExpiresAt :: "millis option"

section \<open>The service\<close>

text \<open>\<open>parseInt(s, 10)\<close>: white space, a sign and the longest run of digits.\<close>

definition parseInt10 :: "string \<Rightarrow> int option" where
  "parseInt10 s = (let t = dropWhile is_space s;
       neg = (t \<noteq> [] \<and> hd t = CHR ''-'');
       u = (if t \<noteq> [] \<and> (hd t = CHR ''-'' \<or> hd t = CHR ''+'') then tl t else t);
       ds = takeWhile is_digit u in
     if ds = [] then None else Some (if neg then - int (read_nat ds) else int (read_nat ds)))"

definition DEFAULT_GRACE_WINDOW_MS :: int where
  "DEFAULT_GRACE_WINDOW_MS = 86400000"

text \<open>An override that is not a finite number is \<open>None\<close>.\<close>

definition resolveGraceWindowMs :: "int option \<Rightarrow> string option \<Rightarrow> int" where
  "resolveGraceWindowMs override env_var =
    (case override of Some g \<Rightarrow> if g > 0 then g else
        (case parseInt10 (case env_var of None \<Rightarrow> [] | Some v \<Rightarrow> v) of None \<Rightarrow> DEFAULT_GRACE_WINDOW_MS
         | Some n \<Rightarrow> if n > 0 then n else DEFAULT_GRACE_WINDOW_MS)
     | None \<Rightarrow> (case parseInt10 (case env_var of None \<Rightarrow> [] | Some v \<Rightarrow> v) of None \<Rightarrow> DEFAULT_GRACE_WINDOW_MS
         | Some n \<Rightarrow> if n > 0 then n else DEFAULT_GRACE_WINDOW_MS))"

text \<open>What one rotation draws and finds in its context.\<close>

record rotation =
  ro_secret :: string
  ro_keyId :: string
  ro_auditId :: string
  ro_actor :: string
  ro_correlationId :: "string option"
  ro_now :: millis

definition rotateKey :: "(string \<Rightarrow> string) \<Rightarrow> 's WebhookKeyStore \<Rightarrow> int \<Rightarrow> rotation \<Rightarrow> 's \<Rightarrow> RotationResult \<times> 's" where
  "rotateKey hashSecret ops grace r s =
    (let expiresAt = ro_now r + grace;
         newKey = \<lparr>sk_id = ro_keyId r, sk_key_hash = hashSecret (ro_secret r), sk_status = KeyActive, sk_created_at = ro_now r,
           sk_expires_at = None, sk_created_by = ro_actor r\<rparr>;
         (previousKey, s1) = op_demoteActiveKey ops expiresAt s;
         s2 = op_insertKey ops newKey s1;
         s3 = op_insertAuditEntry ops \<lparr>ra_id = ro_auditId r, ra_new_key_id = ro_keyId r, ra_previous_key_id = map_option sk_id previousKey,
           ra_grace_window_ms = grace, ra_expires_at = expiresAt, ra_rotated_by = ro_actor r, ra_rotated_at = ro_now r,
           ra_correlation_id = ro_correlationId r\<rparr> s2 in
     (\<lparr>rr_newKey = newKey, rr_rawSecret = ro_secret r, rr_previousKey = previousKey, rr_graceWindowMs = grace,
       rr_previousKeyExpiresAt = map_option (\<lambda>_. expiresAt) previousKey\<rparr>, s3))"

definition getActiveKeyHashes :: "'s WebhookKeyStore \<Rightarrow> millis \<Rightarrow> 's \<Rightarrow> string list \<times> 's" where
  "getActiveKeyHashes ops ts s =
    (let s1 = op_expireStaleKeys ops ts s;
         active = op_getActiveKey ops s1;
         previous = op_getValidPreviousKeys ops ts s1 in
     ((case active of None \<Rightarrow> [] | Some k \<Rightarrow> [sk_key_hash k]) @ map sk_key_hash previous, s1))"

section \<open>The in-memory store\<close>

record key_memory =
  km_keys :: "WebhookSigningKey list"
  km_auditLog :: "WebhookKeyRotationAudit list"

definition mem_getActiveKey :: "key_memory \<Rightarrow> WebhookSigningKey option" where
  "mem_getActiveKey s = List.find (\<lambda>k. sk_status k = KeyActive) (km_keys s)"

definition still_valid :: "millis \<Rightarrow> WebhookSigningKey \<Rightarrow> bool" where
  "still_valid now k \<longleftrightarrow> sk_status k = KeyPrevious \<and> (case sk_expires_at k of None \<Rightarrow> False | Some t \<Rightarrow> t \<ge> now)"

definition mem_getValidPreviousKeys :: "millis \<Rightarrow> key_memory \<Rightarrow> WebhookSigningKey list" where
  "mem_getValidPreviousKeys now s = filter (still_valid now) (km_keys s)"

definition mem_insertKey :: "WebhookSigningKey \<Rightarrow> key_memory \<Rightarrow> key_memory" where
  "mem_insertKey k s = s\<lparr>km_keys := km_keys s @ [k]\<rparr>"

text \<open>\<open>findIndex\<close> of the first active key, which is replaced in place.\<close>

fun demote_first :: "millis \<Rightarrow> WebhookSigningKey list \<Rightarrow> WebhookSigningKey option \<times> WebhookSigningKey list" where
  "demote_first t [] = (None, [])"
| "demote_first t (k # ks) = (if sk_status k = KeyActive
     then (let k' = k\<lparr>sk_status := KeyPrevious, sk_expires_at := Some t\<rparr> in (Some k', k' # ks))
     else (case demote_first t ks of (r, ks') \<Rightarrow> (r, k # ks')))"

definition mem_demoteActiveKey :: "millis \<Rightarrow> key_memory \<Rightarrow> WebhookSigningKey option \<times> key_memory" where
  "mem_demoteActiveKey t s = (case demote_first t (km_keys s) of (r, ks) \<Rightarrow> (r, s\<lparr>km_keys := ks\<rparr>))"

definition expire_key :: "millis \<Rightarrow> WebhookSigningKey \<Rightarrow> WebhookSigningKey" where
  "expire_key now k = (if sk_status k = KeyPrevious \<and> (case sk_expires_at k of None \<Rightarrow> False | Some t \<Rightarrow> t < now)
     then k\<lparr>sk_status := KeyExpired\<rparr> else k)"

definition mem_expireStaleKeys :: "millis \<Rightarrow> key_memory \<Rightarrow> key_memory" where
  "mem_expireStaleKeys now s = s\<lparr>km_keys := map (expire_key now) (km_keys s)\<rparr>"

definition mem_insertAuditEntry :: "WebhookKeyRotationAudit \<Rightarrow> key_memory \<Rightarrow> key_memory" where
  "mem_insertAuditEntry e s = s\<lparr>km_auditLog := km_auditLog s @ [e]\<rparr>"

definition InMemoryWebhookKeyStore :: "key_memory WebhookKeyStore" where
  "InMemoryWebhookKeyStore = \<lparr>op_getActiveKey = mem_getActiveKey, op_getValidPreviousKeys = mem_getValidPreviousKeys,
     op_insertKey = mem_insertKey, op_demoteActiveKey = mem_demoteActiveKey, op_expireStaleKeys = mem_expireStaleKeys,
     op_insertAuditEntry = mem_insertAuditEntry\<rparr>"

definition empty_key_memory :: key_memory where
  "empty_key_memory = \<lparr>km_keys = [], km_auditLog = []\<rparr>"

text \<open>\<open>POST /rotate-key\<close>: a body that is not empty needs a JSON content type.\<close>

definition rotate_key_route :: "(string \<Rightarrow> string) \<Rightarrow> 's WebhookKeyStore \<Rightarrow> int \<Rightarrow> bool \<Rightarrow> string \<Rightarrow> rotation \<Rightarrow> 's \<Rightarrow> RotationResult result \<times> 's" where
  "rotate_key_route hashSecret ops grace body_given contentType r s =
    (if body_given \<and> \<not> str_includes contentType ''application/json''
     then (Inl (BadRequestError ''Content-Type must be application/json when a body is supplied'' ''BAD_REQUEST''), s)
     else (case rotateKey hashSecret ops grace r s of (res, s1) \<Rightarrow> (Inr res, s1)))"

section \<open>A history of rotations and reads\<close>

datatype key_event = Rotate rotation | ReadHashes millis

fun event_time :: "key_event \<Rightarrow> millis" where
  "event_time (Rotate r) = ro_now r"
| "event_time (ReadHashes t) = t"

fun key_step :: "(string \<Rightarrow> string) \<Rightarrow> 's WebhookKeyStore \<Rightarrow> int \<Rightarrow> key_event \<Rightarrow> 's \<Rightarrow> 's" where
  "key_step h ops g (Rotate r) s = snd (rotateKey h ops g r s)"
| "key_step h ops g (ReadHashes t) s = snd (getActiveKeyHashes ops t s)"

definition run_keys :: "(string \<Rightarrow> string) \<Rightarrow> 's WebhookKeyStore \<Rightarrow> int \<Rightarrow> key_event list \<Rightarrow> 's \<Rightarrow> 's" where
  "run_keys h ops g evs s = fold (key_step h ops g) evs s"

fun rotations :: "key_event list \<Rightarrow> rotation list" where
  "rotations [] = []"
| "rotations (Rotate r # evs) = r # rotations evs"
| "rotations (ReadHashes t # evs) = rotations evs"

text \<open>The hashes the in-memory store accepts after a history: that of every secret but the last one until
  the grace period after its successor's rotation ends, and that of the last one always.\<close>

fun in_grace :: "(string \<Rightarrow> string) \<Rightarrow> int \<Rightarrow> millis \<Rightarrow> rotation list \<Rightarrow> string list" where
  "in_grace h g now (r # r' # rs) = (if now \<le> ro_now r' + g then [h (ro_secret r)] else []) @ in_grace h g now (r' # rs)"
| "in_grace h g now _ = []"

definition accepted_hashes :: "(string \<Rightarrow> string) \<Rightarrow> int \<Rightarrow> millis \<Rightarrow> rotation list \<Rightarrow> string list" where
  "accepted_hashes h g now rs = (if rs = [] then [] else h (ro_secret (last rs)) # in_grace h g now rs)"

text \<open>The keys of a store against the rotations that made them; \<open>u\<close> bounds the times of the reads.\<close>

fun keys_match :: "(string \<Rightarrow> string) \<Rightarrow> int \<Rightarrow> millis \<Rightarrow> WebhookSigningKey list \<Rightarrow> rotation list \<Rightarrow> bool" where
  "keys_match h g u [] [] \<longleftrightarrow> True"
| "keys_match h g u [k] [r] \<longleftrightarrow> sk_id k = ro_keyId r \<and> sk_key_hash k = h (ro_secret r) \<and> sk_status k = KeyActive \<and> sk_expires_at k = None"
| "keys_match h g u (k # k' # ks) (r # r' # rs) \<longleftrightarrow> sk_id k = ro_keyId r \<and> sk_key_hash k = h (ro_secret r) \<and>
     sk_expires_at k = Some (ro_now r' + g) \<and> (sk_status k = KeyPrevious \<or> sk_status k = KeyExpired \<and> ro_now r' + g < u) \<and>
     keys_match h g u (k' # ks) (r' # rs)"
| "keys_match h g u _ _ \<longleftrightarrow> False"

text \<open>The audit trail: one entry per rotation, linked to the key it replaced.\<close>

fun linked_ids :: "string option \<Rightarrow> rotation list \<Rightarrow> (string \<times> string option) list" where
  "linked_ids prev [] = []"
| "linked_ids prev (r # rs) = (ro_keyId r, prev) # linked_ids (Some (ro_keyId r)) rs"

section \<open>Matching keys and rotations\<close>

lemma match_mono: "keys_match h g u ks rs \<Longrightarrow> u \<le> v \<Longrightarrow> keys_match h g v ks rs"
  by (induction h g u ks rs rule: keys_match.induct) auto

lemma match_expire: "keys_match h g u ks rs \<Longrightarrow> u \<le> v \<Longrightarrow> keys_match h g v (map (expire_key v) ks) rs"
  by (induction h g u ks rs rule: keys_match.induct) (auto simp: expire_key_def)

lemma match_active:
  "keys_match h g u ks rs \<Longrightarrow>
   map_option sk_key_hash (List.find (\<lambda>k. sk_status k = KeyActive) ks) = (if rs = [] then None else Some (h (ro_secret (last rs))))"
  by (induction h g u ks rs rule: keys_match.induct) auto

lemma match_previous: "keys_match h g u ks rs \<Longrightarrow> u \<le> now \<Longrightarrow> map sk_key_hash (filter (still_valid now) ks) = in_grace h g now rs"
  by (induction h g u ks rs rule: keys_match.induct) (auto simp: still_valid_def)

lemma match_demoted_id:
  "keys_match h g u ks rs \<Longrightarrow> map_option sk_id (fst (demote_first t ks)) = (if rs = [] then None else Some (ro_keyId (last rs)))"
  by (induction h g u ks rs rule: keys_match.induct) (auto simp: Let_def split: prod.splits)

lemma match_nonempty: "keys_match h g u ks (r # rs) \<Longrightarrow> ks \<noteq> []"
  by (cases ks) auto

lemma demote_first_nonempty: "ks \<noteq> [] \<Longrightarrow> snd (demote_first t ks) \<noteq> []"
  by (cases ks) (auto simp: Let_def split: prod.splits)

lemma match_rotate:
  assumes "keys_match h g u ks rs" "sk_id k = ro_keyId r" "sk_key_hash k = h (ro_secret r)" "sk_status k = KeyActive" "sk_expires_at k = None"
  shows "keys_match h g u (snd (demote_first (ro_now r + g) ks) @ [k]) (rs @ [r])"
  using assms
proof (induction h g u ks rs rule: keys_match.induct)
  case (3 h g u k1 k2 ks r1 r2 rs)
  let ?d = "snd (demote_first (ro_now r + g) (k2 # ks))"
  from 3 have IH: "keys_match h g u (?d @ [k]) ((r2 # rs) @ [r])" by simp
  obtain k2' ks' where d: "?d = k2' # ks'" using demote_first_nonempty [of "k2 # ks"] by (cases ?d) auto
  have "snd (demote_first (ro_now r + g) (k1 # k2 # ks)) = k1 # ?d"
    using 3 by (auto simp del: demote_first.simps simp: demote_first.simps(2) [of _ k1] split: prod.splits)
  with IH d 3(2) show ?case by simp
qed (auto simp: Let_def)

lemma linked_ids_snoc:
  "linked_ids p (rs @ [r]) = linked_ids p rs @ [(ro_keyId r, if rs = [] then p else Some (ro_keyId (last rs)))]"
  by (induction rs arbitrary: p) auto

section \<open>The interface\<close>

locale signing_key_store =
  fixes ops :: "'s WebhookKeyStore"
    and keys :: "'s \<Rightarrow> WebhookSigningKey list"
    and trail :: "'s \<Rightarrow> WebhookKeyRotationAudit list"
  assumes active: "op_getActiveKey ops s = List.find (\<lambda>k. sk_status k = KeyActive) (keys s)"
    and previous: "op_getValidPreviousKeys ops now s = filter (still_valid now) (keys s)"
    and insert: "keys (op_insertKey ops k s) = keys s @ [k]" "trail (op_insertKey ops k s) = trail s"
    and demote: "fst (op_demoteActiveKey ops t s) = fst (demote_first t (keys s))"
      "keys (snd (op_demoteActiveKey ops t s)) = snd (demote_first t (keys s))"
      "trail (snd (op_demoteActiveKey ops t s)) = trail s"
    and expire: "keys (op_expireStaleKeys ops now s) = map (expire_key now) (keys s)"
      "trail (op_expireStaleKeys ops now s) = trail s"
    and audit: "keys (op_insertAuditEntry ops e s) = keys s" "trail (op_insertAuditEntry ops e s) = trail s @ [e]"
begin

lemma rotate_keys:
  "keys (snd (rotateKey h ops g r s)) = snd (demote_first (ro_now r + g) (keys s)) @
     [\<lparr>sk_id = ro_keyId r, sk_key_hash = h (ro_secret r), sk_status = KeyActive, sk_created_at = ro_now r, sk_expires_at = None, sk_created_by = ro_actor r\<rparr>]"
  using demote by (simp add: rotateKey_def Let_def insert audit split: prod.splits) (metis snd_conv)

lemma rotate_trail:
  "map (\<lambda>a. (ra_new_key_id a, ra_previous_key_id a)) (trail (snd (rotateKey h ops g r s))) =
   map (\<lambda>a. (ra_new_key_id a, ra_previous_key_id a)) (trail s) @ [(ro_keyId r, map_option sk_id (fst (demote_first (ro_now r + g) (keys s))))]"
  using demote by (simp add: rotateKey_def Let_def insert audit split: prod.splits) (metis fst_conv snd_conv)

lemma read_hashes:
  assumes "keys_match h g u (keys s) rs" "u \<le> now"
  shows "fst (getActiveKeyHashes ops now s) = accepted_hashes h g now rs"
proof -
  let ?ks = "map (expire_key now) (keys s)"
  have m: "keys_match h g now ?ks rs" using assms by (rule match_expire)
  have "fst (getActiveKeyHashes ops now s) =
      (case List.find (\<lambda>k. sk_status k = KeyActive) ?ks of None \<Rightarrow> [] | Some k \<Rightarrow> [sk_key_hash k]) @ in_grace h g now rs"
    using match_previous [OF m] by (simp add: getActiveKeyHashes_def Let_def active previous expire)
  with match_active [OF m] show ?thesis
    by (cases "rs = []") (auto simp: accepted_hashes_def split: option.splits)
qed

definition state_ok :: "(string \<Rightarrow> string) \<Rightarrow> int \<Rightarrow> millis \<Rightarrow> rotation list \<Rightarrow> 's \<Rightarrow> bool" where
  "state_ok h g u rs s \<longleftrightarrow> keys_match h g u (keys s) rs \<and>
     map (\<lambda>a. (ra_new_key_id a, ra_previous_key_id a)) (trail s) = linked_ids None rs"

lemma step_ok:
  assumes "state_ok h g u rs s" "u \<le> event_time ev"
  shows "state_ok h g (event_time ev) (rs @ rotations [ev]) (key_step h ops g ev s)"
proof (cases ev)
  case (Rotate r)
  from assms have m: "keys_match h g (event_time ev) (keys s) rs" by (auto simp: state_ok_def intro: match_mono)
  then show ?thesis using assms(1) match_demoted_id [OF m]
    by (simp add: Rotate state_ok_def rotate_trail rotate_keys match_rotate linked_ids_snoc)
next
  case (ReadHashes t)
  then show ?thesis using assms
    by (auto simp: state_ok_def getActiveKeyHashes_def Let_def expire intro: match_expire)
qed

lemma rotations_Cons: "rotations (ev # evs) = rotations [ev] @ rotations evs"
  by (cases ev) auto

lemma run_ok:
  "state_ok h g u rs s \<Longrightarrow> sorted (u # map event_time evs) \<Longrightarrow>
   state_ok h g (last (u # map event_time evs)) (rs @ rotations evs) (run_keys h ops g evs s)"
proof (induction evs arbitrary: u rs s)
  case (Cons ev evs)
  then have "state_ok h g (event_time ev) (rs @ rotations [ev]) (key_step h ops g ev s)" by (intro step_ok) auto
  with Cons show ?case
    by (subst rotations_Cons) (fastforce simp: run_keys_def)
qed (simp add: run_keys_def)

end

interpretation mem_keys: signing_key_store InMemoryWebhookKeyStore km_keys km_auditLog
  by unfold_locales
    (simp_all add: InMemoryWebhookKeyStore_def mem_getActiveKey_def mem_getValidPreviousKeys_def mem_insertKey_def
      mem_demoteActiveKey_def mem_expireStaleKeys_def mem_insertAuditEntry_def split: prod.splits)

section \<open>Properties\<close>

lemma in_grace_nth:
  "in_grace h g now rs =
    map (\<lambda>i. h (ro_secret (rs ! i))) (filter (\<lambda>i. now \<le> ro_now (rs ! Suc i) + g) [0..<length rs - 1])"
proof (induction h g now rs rule: in_grace.induct)
  case (1 h g now r r' rs)
  have "[0..<length (r # r' # rs) - 1] = 0 # map Suc [0..<length (r' # rs) - 1]"
    by (simp add: upt_conv_Cons map_Suc_upt del: upt_Suc)
  with 1 show ?case by (simp add: filter_map comp_def)
qed simp_all

lemma rotation_times:
  "r \<in> set (rotations evs) \<Longrightarrow> \<exists>ev \<in> set evs. event_time ev = ro_now r"
  by (induction evs rule: rotations.induct) auto

lemma spaced_in_grace:
  assumes "\<forall>i. i + 2 < length rs \<longrightarrow> ro_now (rs ! (i + 1)) + g < ro_now (rs ! (i + 2))" "\<forall>r \<in> set rs. ro_now r \<le> now" "2 \<le> length rs"
  shows "in_grace h g now rs = (if now \<le> ro_now (last rs) + g then [h (ro_secret (rs ! (length rs - 2)))] else [])"
proof -
  obtain n where n: "length rs = Suc (Suc n)" using assms(3) by (metis Suc_le_D numeral_2_eq_2 Suc_le_mono)
  have "\<not> now \<le> ro_now (rs ! Suc i) + g" if "i < n" for i
  proof -
    have "ro_now (rs ! Suc i) + g < ro_now (rs ! Suc (Suc i))" using assms(1) that n by (simp add: numeral_2_eq_2)
    moreover have "ro_now (rs ! Suc (Suc i)) \<le> now" using assms(2) that n by simp
    ultimately show ?thesis by simp
  qed
  then have "filter (\<lambda>i. now \<le> ro_now (rs ! Suc i) + g) [0..<n] = []" by (simp add: filter_empty_conv)
  moreover have "last rs = rs ! Suc n" using n by (simp add: last_conv_nth flip: length_greater_0_conv)
  ultimately show ?thesis by (simp add: in_grace_nth n)
qed

text \<open>C18. Signing keys have the life their rotation promises: after any history of rotations and reads
  with a clock that does not go back, the first accepted key hash is that of the newest secret; every
  other accepted hash is of an older secret whose grace period, counted from the rotation that replaced
  it, has not ended, and that of the secret replaced last is among them during its grace period; when
  rotations come further apart than the grace period nothing else is accepted. Before the first rotation
  nothing is accepted. The audit log has one entry per rotation, naming the new key and the key it
  replaced.\<close>

theorem signing_keys_exact:
  assumes "sorted (map event_time evs)" "\<forall>ev \<in> set evs. event_time ev \<le> now"
  shows "let rs = rotations evs; s = run_keys h InMemoryWebhookKeyStore g evs empty_key_memory;
      accepted = fst (getActiveKeyHashes InMemoryWebhookKeyStore now s);
      replaced = (if 2 \<le> length rs \<and> now \<le> ro_now (last rs) + g then [h (ro_secret (rs ! (length rs - 2)))] else []) in
    (if rs = [] then accepted = []
     else \<exists>older. accepted = h (ro_secret (last rs)) # older \<and>
       (\<forall>x \<in> set older. \<exists>i. Suc i < length rs \<and> x = h (ro_secret (rs ! i)) \<and> now \<le> ro_now (rs ! Suc i) + g) \<and>
       set replaced \<subseteq> set older \<and>
       ((\<forall>i. i + 2 < length rs \<longrightarrow> ro_now (rs ! (i + 1)) + g < ro_now (rs ! (i + 2))) \<longrightarrow> older = replaced)) \<and>
    map (\<lambda>a. (ra_new_key_id a, ra_previous_key_id a)) (km_auditLog s) = linked_ids None rs"
proof -
  define rs where "rs = rotations evs"
  let ?u = "if evs = [] then now else event_time (hd evs)" and ?s = "run_keys h InMemoryWebhookKeyStore g evs empty_key_memory"
  have "mem_keys.state_ok h g ?u [] empty_key_memory"
    by (simp add: mem_keys.state_ok_def empty_key_memory_def)
  moreover have "sorted (?u # map event_time evs)" using assms(1) by (cases evs) auto
  ultimately have ok: "mem_keys.state_ok h g (last (?u # map event_time evs)) ([] @ rotations evs) ?s"
    by (rule mem_keys.run_ok)
  have "last (?u # map event_time evs) \<le> now" using assms(2) by (simp add: last_map)
  with ok have out: "fst (getActiveKeyHashes InMemoryWebhookKeyStore now ?s) = accepted_hashes h g now rs"
    and log: "map (\<lambda>a. (ra_new_key_id a, ra_previous_key_id a)) (km_auditLog ?s) = linked_ids None rs"
    by (auto simp: rs_def mem_keys.state_ok_def intro: mem_keys.read_hashes)
  have times: "\<forall>r \<in> set rs. ro_now r \<le> now" using rotation_times assms(2) unfolding rs_def by metis
  let ?spaced = "\<forall>i. i + 2 < length rs \<longrightarrow> ro_now (rs ! (i + 1)) + g < ro_now (rs ! (i + 2))"
  let ?replaced = "if 2 \<le> length rs \<and> now \<le> ro_now (last rs) + g then [h (ro_secret (rs ! (length rs - 2)))] else []"
  have "in_grace h g now rs = ?replaced" if ?spaced
    using spaced_in_grace [OF that times] by (cases "2 \<le> length rs") (auto simp: in_grace_nth)
  moreover have "set ?replaced \<subseteq> set (in_grace h g now rs)"
  proof (cases "2 \<le> length rs")
    case True
    then have "length rs - 2 < length rs - 1" "Suc (length rs - 2) = length rs - 1" "rs \<noteq> []" by auto
    then have "length rs - 2 < length rs - 1" "rs ! Suc (length rs - 2) = last rs" by (simp_all add: last_conv_nth)
    then show ?thesis by (auto simp: in_grace_nth)
  qed simp
  moreover have "\<exists>i. Suc i < length rs \<and> x = h (ro_secret (rs ! i)) \<and> now \<le> ro_now (rs ! Suc i) + g" if "x \<in> set (in_grace h g now rs)" for x
    using that by (force simp: in_grace_nth)
  ultimately show ?thesis
    unfolding rs_def [symmetric] Let_def out log by (simp add: accepted_hashes_def)
qed

definition demo_rotation :: "string \<Rightarrow> millis \<Rightarrow> rotation" where
  "demo_rotation x t = \<lparr>ro_secret = x, ro_keyId = x, ro_auditId = x, ro_actor = ''admin'', ro_correlationId = None, ro_now = t\<rparr>"

theorem signing_keys_exact_witness:
  "fst (getActiveKeyHashes InMemoryWebhookKeyStore 25
     (run_keys id InMemoryWebhookKeyStore 10
       [Rotate (demo_rotation ''a'' 0), Rotate (demo_rotation ''b'' 5), ReadHashes 16, Rotate (demo_rotation ''c'' 20)] empty_key_memory)) =
   [''c'', ''b'']"
proof -
  let ?evs = "[Rotate (demo_rotation ''a'' 0), Rotate (demo_rotation ''b'' 5), ReadHashes 16, Rotate (demo_rotation ''c'' 20)]"
  have "sorted (map event_time ?evs)" "\<forall>ev \<in> set ?evs. event_time ev \<le> 25" by (simp_all add: demo_rotation_def)
  from signing_keys_exact [OF this, where h = id and g = 10]
  show ?thesis by (simp add: demo_rotation_def Let_def)
qed

end
