(* ===== verification/Calendar.thy ===== *)
theory Calendar
  imports Prelude
begin

text \<open>
  The UTC calendar of the language's \<open>Date\<close>: days and civil dates of the proleptic Gregorian calendar,
  \<open>Date.UTC\<close>, the \<open>getUTC\<close> accessors and \<open>toISOString\<close>. A date is a number of milliseconds since
  1970-01-01; invalid dates are outside the model.
\<close>

section \<open>Days and civil dates\<close>

definition DAY_MS :: int where
  "DAY_MS = 24 * 60 * 60 * 1000"

text \<open>Days from 1 January of year 0 to 1 January of year \<open>y\<close>.\<close>

definition year_start :: "int \<Rightarrow> int" where
  "year_start y = 365 * y + (y + 3) div 4 - (y + 99) div 100 + (y + 399) div 400"

definition leap :: "int \<Rightarrow> bool" where
  "leap y \<longleftrightarrow> 4 dvd y \<and> (\<not> 100 dvd y \<or> 400 dvd y)"

definition month_lengths :: "int \<Rightarrow> int list" where
  "month_lengths y = [31, if leap y then 29 else 28, 31, 30, 31, 30, 31, 31, 30, 31, 30, 31]"

definition EPOCH_DAY :: int where
  "EPOCH_DAY = 719528"

definition year_of :: "int \<Rightarrow> int" where
  "year_of n = (let y = 400 * n div 146097 in
     if n < year_start y then y - 1 else if n \<ge> year_start (y + 1) then y + 1 else y)"

fun walk_months :: "nat \<Rightarrow> int list \<Rightarrow> int \<Rightarrow> nat \<times> int" where
  "walk_months m [] d = (m, d)"
| "walk_months m (l # ls) d = (if d < l then (m, d) else walk_months (Suc m) ls (d - l))"

text \<open>Year, month from 0 and day from 1, of a number of days since the epoch.\<close>

definition civil :: "int \<Rightarrow> int \<times> nat \<times> int" where
  "civil day = (let n = day + EPOCH_DAY; y = year_of n; (m, d) = walk_months 0 (month_lengths y) (n - year_start y) in (y, m, d + 1))"

text \<open>The day of a year, month and day: a month above 11 carries into the year, the day counts from the first.\<close>

definition utc_day :: "int \<Rightarrow> nat \<Rightarrow> int \<Rightarrow> int" where
  "utc_day y m d = (let y' = y + int (m div 12) in
     year_start y' + sum_list (take (m mod 12) (month_lengths y')) + d - 1 - EPOCH_DAY)"

text \<open>\<open>Date.UTC(y, m, d)\<close> in days; it reads the years 0 to 99 as 1900 to 1999.\<close>

definition Date_UTC :: "int \<Rightarrow> nat \<Rightarrow> int \<Rightarrow> int" where
  "Date_UTC y m d = utc_day (if 0 \<le> y \<and> y \<le> 99 then 1900 + y else y) m d"

definition day_of :: "millis \<Rightarrow> int" where
  "day_of t = t div DAY_MS"

definition getUTCFullYear :: "millis \<Rightarrow> int" where
  "getUTCFullYear t = fst (civil (day_of t))"

definition getUTCMonth :: "millis \<Rightarrow> nat" where
  "getUTCMonth t = fst (snd (civil (day_of t)))"

definition getUTCDate :: "millis \<Rightarrow> int" where
  "getUTCDate t = snd (snd (civil (day_of t)))"

text \<open>0 is Sunday; 1 January 1970 was a Thursday.\<close>

definition getUTCDay :: "millis \<Rightarrow> int" where
  "getUTCDay t = (day_of t + 4) mod 7"

section \<open>ISO texts\<close>

definition iso_year :: "int \<Rightarrow> string" where
  "iso_year y = (if 0 \<le> y \<and> y \<le> 9999 then padStart 4 (CHR ''0'') (show_nat (nat y))
     else (if y < 0 then CHR ''-'' else CHR ''+'') # padStart 6 (CHR ''0'') (show_nat (nat \<bar>y\<bar>)))"

definition two_digits :: "int \<Rightarrow> string" where
  "two_digits n = padStart 2 (CHR ''0'') (show_nat (nat n))"

definition iso_day :: "int \<Rightarrow> string" where
  "iso_day day = (case civil day of (y, m, d) \<Rightarrow> iso_year y @ ''-'' @ two_digits (int m + 1) @ ''-'' @ two_digits d)"

definition iso_time :: "int \<Rightarrow> string" where
  "iso_time ms = two_digits (ms div 3600000) @ '':'' @ two_digits (ms div 60000 mod 60) @ '':'' @ two_digits (ms div 1000 mod 60) @ ''.'' @
     padStart 3 (CHR ''0'') (show_nat (nat (ms mod 1000)))"

definition toISOString :: "millis \<Rightarrow> string" where
  "toISOString t = iso_day (day_of t) @ ''T'' @ iso_time (t mod DAY_MS) @ ''Z''"

section \<open>Dates are days, uniquely\<close>

lemma div_step:
  fixes y k :: int
  assumes "0 < k"
  shows "(y + k) div k - (y + (k - 1)) div k = (if k dvd y then 1 else 0)"
proof -
  let ?q = "y div k" and ?r = "y mod k"
  have r: "0 \<le> ?r" "?r < k" using assms by simp_all
  have "(y + (k - 1)) div k = ((?r + (k - 1)) + ?q * k) div k" by (simp add: algebra_simps)
  also have "\<dots> = ?q + (?r + (k - 1)) div k" using assms by (subst div_mult_self1) auto
  also have "(?r + (k - 1)) div k = (if ?r = 0 then 0 else 1)"
  proof (cases "?r = 0")
    case False
    with r have "(?r + (k - 1)) div k = ((?r - 1) + 1 * k) div k" by (simp add: algebra_simps)
    also have "\<dots> = 1 + (?r - 1) div k" using assms by (subst div_mult_self1) auto
    finally show ?thesis using False r by simp
  qed (use assms in simp)
  finally show ?thesis using assms by (simp add: dvd_eq_mod_eq_0)
qed

lemma year_length: "year_start (y + 1) - year_start y = (if leap y then 366 else 365)"
proof -
  have "year_start (y + 1) - year_start y =
      365 + ((y + 4) div 4 - (y + 3) div 4) - ((y + 100) div 100 - (y + 99) div 100) + ((y + 400) div 400 - (y + 399) div 400)"
    by (simp add: year_start_def algebra_simps)
  also have "\<dots> = 365 + (if 4 dvd y then 1 else 0) - (if 100 dvd y then 1 else 0) + (if 400 dvd y then 1 else 0)"
    using div_step [of 4 y] div_step [of 100 y] div_step [of 400 y] by simp
  also have "\<dots> = (if leap y then 366 else 365)"
  proof -
    have bools: "(b \<longrightarrow> a) \<Longrightarrow> (c \<longrightarrow> b) \<Longrightarrow> 365 + (if a then 1 else 0) - (if b then 1 else 0) + (if c then 1 else 0) =
        (if a \<and> (\<not> b \<or> c) then 366 else (365 :: int))" for a b c
      by (cases a; cases b; cases c) simp_all
    show ?thesis unfolding leap_def
    proof (rule bools)
      have "4 dvd y" if "100 dvd y" using _ that by (rule dvd_trans) simp
      then show "100 dvd y \<longrightarrow> 4 dvd y" ..
      have "100 dvd y" if "400 dvd y" using _ that by (rule dvd_trans) simp
      then show "400 dvd y \<longrightarrow> 100 dvd y" ..
    qed
  qed
  finally show ?thesis .
qed

lemma year_start_mono: "y \<le> z \<Longrightarrow> year_start y \<le> year_start z"
proof (induction "nat (z - y)" arbitrary: z)
  case (Suc k)
  then have "year_start y \<le> year_start (z - 1)" by simp
  with year_length [of "z - 1"] show ?case by (simp split: if_splits)
qed simp

lemma year_start_bounds: "146097 * y - 396 \<le> 400 * year_start y" "400 * year_start y \<le> 146097 * y + 699"
proof -
  have "100 * y \<le> 400 * ((y + 3) div 4)" "400 * ((y + 3) div 4) \<le> 100 * y + 300"
    "4 * y \<le> 400 * ((y + 99) div 100)" "400 * ((y + 99) div 100) \<le> 4 * y + 396"
    "y \<le> 400 * ((y + 399) div 400)" "400 * ((y + 399) div 400) \<le> y + 399" by linarith+
  then show "146097 * y - 396 \<le> 400 * year_start y" "400 * year_start y \<le> 146097 * y + 699"
    by (simp_all add: year_start_def algebra_simps)
qed

lemma year_estimate:
  assumes "146097 * y \<le> 400 * n" "400 * n < 146097 * (y + 1)"
  shows "year_start (y - 1) \<le> n" "n < year_start (y + 2)"
proof -
  have "400 * year_start (y - 1) \<le> 400 * n" "400 * n < 400 * year_start (y + 2)"
    using assms year_start_bounds(2) [of "y - 1"] year_start_bounds(1) [of "y + 2"] by (simp_all add: algebra_simps)
  then show "year_start (y - 1) \<le> n" "n < year_start (y + 2)" by simp_all
qed

lemma year_of_bounds: "year_start (year_of n) \<le> n" "n < year_start (year_of n + 1)"
proof -
  let ?y = "400 * n div 146097"
  have "400 * n = 146097 * ?y + 400 * n mod 146097" by (rule mult_div_mod_eq [symmetric])
  moreover have "0 \<le> 400 * n mod 146097" "400 * n mod 146097 < 146097" by simp_all
  ultimately have "146097 * ?y \<le> 400 * n" "400 * n < 146097 * (?y + 1)" unfolding distrib_left by linarith+
  then have "year_start (?y - 1) \<le> n" "n < year_start (?y + 2)" by (rule year_estimate)+
  then show "year_start (year_of n) \<le> n" "n < year_start (year_of n + 1)"
    by (auto simp: year_of_def Let_def algebra_simps)
qed

lemma year_of_unique: "year_start y \<le> n \<Longrightarrow> n < year_start (y + 1) \<Longrightarrow> year_of n = y"
  by (smt (verit) year_of_bounds year_start_mono)

lemma sum_month_lengths: "sum_list (month_lengths y) = year_start (y + 1) - year_start y"
  by (simp add: month_lengths_def year_length)

lemma month_lengths_bounds: "l \<in> set (month_lengths y) \<Longrightarrow> 28 \<le> l \<and> l \<le> 31"
  by (auto simp: month_lengths_def split: if_splits)

lemma length_month_lengths [simp]: "length (month_lengths y) = 12"
  by (simp add: month_lengths_def)

lemma walk_months_sum:
  assumes "0 \<le> d" "d < sum_list ls"
  shows "\<exists>i < length ls. \<exists>e. walk_months m ls d = (m + i, e) \<and> 0 \<le> e \<and> e < ls ! i \<and> d = sum_list (take i ls) + e"
  using assms
proof (induction ls arbitrary: m d)
  case (Cons l ls)
  show ?case
  proof (cases "d < l")
    case True
    with Cons show ?thesis by (intro exI [of _ 0]) auto
  next
    case False
    with Cons.prems Cons.IH [of "d - l" "Suc m"] obtain i e where
      "i < length ls" "walk_months (Suc m) ls (d - l) = (Suc m + i, e)" "0 \<le> e" "e < ls ! i" "d - l = sum_list (take i ls) + e"
      by auto
    with False show ?thesis by (intro exI [of _ "Suc i"]) auto
  qed
qed simp

lemma walk_months_take:
  "\<forall>l \<in> set ls. 0 \<le> l \<Longrightarrow> i < length ls \<Longrightarrow> 0 \<le> e \<Longrightarrow> e < ls ! i \<Longrightarrow>
   walk_months m ls (sum_list (take i ls) + e) = (m + i, e)"
proof (induction ls arbitrary: i m)
  case (Cons l ls)
  then show ?case
  proof (cases i)
    case (Suc j)
    have "0 \<le> sum_list (take j ls)" using Cons.prems(1) by (intro sum_list_nonneg) (auto dest: in_set_takeD)
    with Cons Suc show ?thesis by simp
  qed simp
qed simp

definition valid_date :: "int \<Rightarrow> nat \<Rightarrow> int \<Rightarrow> bool" where
  "valid_date y m d \<longleftrightarrow> m < 12 \<and> 1 \<le> d \<and> d \<le> month_lengths y ! m"

lemma civil_valid:
  obtains y m d where "civil day = (y, m, d)" "valid_date y m d" "utc_day y m d = day"
proof -
  let ?n = "day + EPOCH_DAY" and ?y = "year_of (day + EPOCH_DAY)"
  have "0 \<le> ?n - year_start ?y" "?n - year_start ?y < sum_list (month_lengths ?y)"
    using year_of_bounds [of ?n] by (simp_all add: sum_month_lengths)
  from walk_months_sum [OF this, of 0] obtain i e where
    i: "i < 12" "walk_months 0 (month_lengths ?y) (?n - year_start ?y) = (i, e)" "0 \<le> e" "e < month_lengths ?y ! i"
      "?n - year_start ?y = sum_list (take i (month_lengths ?y)) + e" by auto
  then have "civil day = (?y, i, e + 1)" by (simp add: civil_def Let_def)
  moreover have "valid_date ?y i (e + 1)" using i by (simp add: valid_date_def)
  moreover have "utc_day ?y i (e + 1) = day" using i by (simp add: utc_day_def Let_def)
  ultimately show ?thesis by (rule that)
qed

lemma sum_take_months:
  assumes "m < 12"
  shows "sum_list (take m (month_lengths y)) + month_lengths y ! m \<le> sum_list (month_lengths y)"
    "0 \<le> sum_list (take m (month_lengths y))"
proof -
  have nn: "0 \<le> sum_list (take k (month_lengths y))" "0 \<le> sum_list (drop k (month_lengths y))" for k
    by (rule sum_list_nonneg; auto dest!: in_set_takeD in_set_dropD month_lengths_bounds)+
  have "sum_list (month_lengths y) = sum_list (take (Suc m) (month_lengths y)) + sum_list (drop (Suc m) (month_lengths y))"
    by (metis append_take_drop_id sum_list_append)
  also have "take (Suc m) (month_lengths y) = take m (month_lengths y) @ [month_lengths y ! m]"
    using assms by (simp add: take_Suc_conv_app_nth)
  finally show "sum_list (take m (month_lengths y)) + month_lengths y ! m \<le> sum_list (month_lengths y)" using nn(2) [of "Suc m"] by simp
  show "0 \<le> sum_list (take m (month_lengths y))" by (rule nn)
qed

lemma civil_utc_day:
  assumes "valid_date y m d"
  shows "civil (utc_day y m d) = (y, m, d)"
proof -
  let ?e = "sum_list (take m (month_lengths y)) + (d - 1)"
  have e: "0 \<le> ?e" "?e < year_start (y + 1) - year_start y"
    using assms sum_take_months [of m y] by (auto simp: valid_date_def simp flip: sum_month_lengths)
  have n: "utc_day y m d + EPOCH_DAY = year_start y + ?e" using assms by (simp add: utc_day_def valid_date_def)
  then have "year_of (utc_day y m d + EPOCH_DAY) = y" using e by (intro year_of_unique) simp_all
  moreover have "walk_months 0 (month_lengths y) ?e = (0 + m, d - 1)"
    using assms month_lengths_bounds [of _ y] by (intro walk_months_take) (fastforce simp: valid_date_def)+
  ultimately show ?thesis using n by (simp add: civil_def Let_def)
qed

lemma valid_date_first: "m < 12 \<Longrightarrow> valid_date y m 1"
  using month_lengths_bounds [of "month_lengths y ! m" y] by (simp add: valid_date_def)

section \<open>Months\<close>

lemma utc_day_next_month:
  assumes "m < 12"
  shows "utc_day y (Suc m) 1 = utc_day y m 1 + month_lengths y ! m"
proof (cases "m = 11")
  case True
  have "take 11 (month_lengths y) @ [month_lengths y ! 11] = month_lengths y" by (simp add: month_lengths_def)
  then have "sum_list (take 11 (month_lengths y)) + month_lengths y ! 11 = year_start (y + 1) - year_start y"
    by (metis sum_list_append sum_list.Cons sum_list.Nil add.right_neutral sum_month_lengths)
  then show ?thesis by (simp add: True utc_day_def)
next
  case False
  then have "Suc m mod 12 = Suc m" "Suc m div 12 = 0" "m mod 12 = m" "m div 12 = 0" using assms by simp_all
  then show ?thesis using assms by (simp add: utc_day_def take_Suc_conv_app_nth)
qed

lemma utc_day_add: "utc_day y m (d + k) = utc_day y m d + k"
  by (simp add: utc_day_def Let_def)

lemma month_days:
  assumes "m < 12"
  shows "utc_day y m 1 \<le> day \<and> day < utc_day y (Suc m) 1 \<longleftrightarrow> fst (civil day) = y \<and> fst (snd (civil day)) = m"
proof
  assume r: "utc_day y m 1 \<le> day \<and> day < utc_day y (Suc m) 1"
  define d where "d = 1 + (day - utc_day y m 1)"
  have "utc_day y m d = day" by (simp add: d_def utc_day_add)
  moreover have "valid_date y m d" using r assms by (simp add: valid_date_def d_def utc_day_next_month)
  ultimately show "fst (civil day) = y \<and> fst (snd (civil day)) = m" using civil_utc_day by force
next
  assume c: "fst (civil day) = y \<and> fst (snd (civil day)) = m"
  obtain d where d: "valid_date y m d" "utc_day y m d = day" using civil_valid [of day] c by (metis fst_conv snd_conv)
  then have "day = utc_day y m 1 + (d - 1)" using utc_day_add [of y m 1 "d - 1"] by simp
  then show "utc_day y m 1 \<le> day \<and> day < utc_day y (Suc m) 1" using d(1) assms by (simp add: valid_date_def utc_day_next_month)
qed

end
