(* ===== verification/UsageAnalytics.thy ===== *)
theory UsageAnalytics
  imports Calendar Paging
begin

text \<open>
  Usage analytics: the in-memory repository \<^verbatim>\<open>repositories/usageEventsRepository.ts\<close>, the developer analytics of
  \<^verbatim>\<open>services/developerAnalytics.ts\<close> and the summary route \<^verbatim>\<open>routes/developers/me/usage.ts\<close>.
  \<open>localeCompare\<close> is a comparison function. The repository over Postgres is in the theory \<open>UsagePg\<close>.
\<close>

section \<open>Events and tallies\<close>

datatype GroupBy = ByHour | ByDay | ByWeek | ByMonth

record UsageEvent =
  ue_id :: string
  ue_developerId :: string
  ue_apiId :: string
  ue_endpoint :: string
  ue_userId :: string
  ue_occurredAt :: millis
  ue_revenue :: int

text \<open>Calls and revenue per key, in a \<open>Map\<close> that keeps the order in which keys first appear.\<close>

type_synonym 'k tally = "('k, nat \<times> int) js_map"

definition bump :: "'k \<Rightarrow> int \<Rightarrow> 'k tally \<Rightarrow> 'k tally" where
  "bump k r m = (case map_get m k of None \<Rightarrow> map_set k (1, r) m | Some (c, v) \<Rightarrow> map_set k (c + 1, v + r) m)"

definition tally :: "('e \<Rightarrow> 'k) \<Rightarrow> ('e \<Rightarrow> int) \<Rightarrow> 'e list \<Rightarrow> 'k tally" where
  "tally key val es = fold (\<lambda>e. bump (key e) (val e)) es []"

text \<open>\<open>slice(0, n)\<close>.\<close>

definition slice0 :: "int \<Rightarrow> 'a list \<Rightarrow> 'a list" where
  "slice0 n xs = (if n \<ge> 0 then take (nat n) xs else take (length xs - nat (- n)) xs)"

definition api_filter :: "string option \<Rightarrow> string \<Rightarrow> bool" where
  "api_filter apiId a \<longleftrightarrow> (case apiId of None \<Rightarrow> True | Some x \<Rightarrow> x = [] \<or> a = x)"

section \<open>The in-memory repository\<close>

definition findByDeveloper :: "string \<Rightarrow> millis \<Rightarrow> millis \<Rightarrow> string option \<Rightarrow> UsageEvent list \<Rightarrow> UsageEvent list" where
  "findByDeveloper dev from to apiId es = filter (\<lambda>e. ue_developerId e = dev \<and> api_filter apiId (ue_apiId e) \<and>
     from \<le> ue_occurredAt e \<and> ue_occurredAt e \<le> to) es"

definition of_user :: "string \<Rightarrow> millis \<Rightarrow> millis \<Rightarrow> string option \<Rightarrow> UsageEvent \<Rightarrow> bool" where
  "of_user u from to apiId e \<longleftrightarrow> ue_userId e = u \<and> api_filter apiId (ue_apiId e) \<and> from \<le> ue_occurredAt e \<and> ue_occurredAt e \<le> to"

definition findByUser :: "string \<Rightarrow> millis \<Rightarrow> millis \<Rightarrow> string option \<Rightarrow> int option \<Rightarrow> int option \<Rightarrow> UsageEvent list \<Rightarrow> UsageEvent list" where
  "findByUser u from to apiId limit offset es =
    (let filtered = filter (of_user u from to apiId) es;
         rest = (case offset of Some n \<Rightarrow> if n > 0 then drop (nat n) filtered else filtered | None \<Rightarrow> filtered) in
     case limit of None \<Rightarrow> rest | Some n \<Rightarrow> if n \<le> 0 then [] else take (nat n) rest)"

definition developerOwnsApi :: "string \<Rightarrow> string \<Rightarrow> UsageEvent list \<Rightarrow> bool" where
  "developerOwnsApi dev api es = list_ex (\<lambda>e. ue_developerId e = dev \<and> ue_apiId e = api) es"

definition aggregateByDeveloper :: "string \<Rightarrow> UsageEvent list \<Rightarrow> string tally" where
  "aggregateByDeveloper dev es =
     fold (\<lambda>e m. if ue_developerId e \<noteq> dev then m else bump (ue_apiId e) (ue_revenue e) m) es []"

text \<open>\<open>getPeriodString\<close>: \<open>setUTCDate\<close> moves the date by whole days and keeps the time of day.\<close>

definition getPeriodString :: "millis \<Rightarrow> GroupBy \<Rightarrow> string" where
  "getPeriodString t g = (case g of
       ByHour \<Rightarrow> take 13 (toISOString t) @ '':00:00.000Z''
     | ByDay \<Rightarrow> take 10 (toISOString t)
     | ByWeek \<Rightarrow> (let day = getUTCDay t; diff = getUTCDate t - day + (if day = 0 then - 6 else 1);
           weekStart = utc_day (getUTCFullYear t) (getUTCMonth t) diff * DAY_MS + t mod DAY_MS in
         take 10 (toISOString weekStart))
     | ByMonth \<Rightarrow> take 7 (toISOString t) @ ''-01'')"

record user_totals =
  ut_calls :: nat
  ut_revenue :: int
  ut_apis :: "string tally"
  ut_buckets :: "string tally"

definition count_event :: "GroupBy option \<Rightarrow> UsageEvent \<Rightarrow> user_totals \<Rightarrow> user_totals" where
  "count_event g e s = \<lparr>ut_calls = ut_calls s + 1, ut_revenue = ut_revenue s + ue_revenue e,
     ut_apis = bump (ue_apiId e) (ue_revenue e) (ut_apis s),
     ut_buckets = (case g of None \<Rightarrow> ut_buckets s
       | Some g \<Rightarrow> bump (getPeriodString (ue_occurredAt e) g) (ue_revenue e) (ut_buckets s))\<rparr>"

definition by_label :: "(string \<Rightarrow> string \<Rightarrow> int) \<Rightarrow> string tally \<Rightarrow> string tally" where
  "by_label lc m = sort_by (\<lambda>a b. lc (fst a) (fst b)) m"

definition aggregateByUser :: "(string \<Rightarrow> string \<Rightarrow> int) \<Rightarrow> string \<Rightarrow> millis \<Rightarrow> millis \<Rightarrow> string option \<Rightarrow> GroupBy option \<Rightarrow>
    UsageEvent list \<Rightarrow> int \<times> nat \<times> string tally \<times> string tally option" where
  "aggregateByUser lc u from to apiId g es =
    (let s = fold (\<lambda>e s.
           if ue_userId e \<noteq> u then s
           else if ue_occurredAt e < from \<or> ue_occurredAt e > to then s
           else if \<not> api_filter apiId (ue_apiId e) then s
           else count_event g e s) es \<lparr>ut_calls = 0, ut_revenue = 0, ut_apis = [], ut_buckets = []\<rparr> in
     (ut_revenue s, ut_calls s, ut_apis s, map_option (\<lambda>_. by_label lc (ut_buckets s)) g))"

definition aggregateByHour :: "(string \<Rightarrow> string \<Rightarrow> int) \<Rightarrow> string \<Rightarrow> millis \<Rightarrow> millis \<Rightarrow> string option \<Rightarrow>
    UsageEvent list \<Rightarrow> string tally \<times> nat \<times> int" where
  "aggregateByHour lc u from to apiId es =
    (case fold (\<lambda>e (m, c, v).
         if ue_userId e \<noteq> u then (m, c, v)
         else if \<not> api_filter apiId (ue_apiId e) then (m, c, v)
         else if ue_occurredAt e < from \<or> ue_occurredAt e > to then (m, c, v)
         else (bump (getPeriodString (ue_occurredAt e) ByHour) (ue_revenue e) m, c + 1, v + ue_revenue e)) es ([], 0, 0) of
       (m, c, v) \<Rightarrow> (by_label lc m, c, v))"

text \<open>Most calls first, ties by name.\<close>

definition busiest_first :: "(string \<Rightarrow> string \<Rightarrow> int) \<Rightarrow> string \<times> nat \<times> 'v \<Rightarrow> string \<times> nat \<times> 'v \<Rightarrow> int" where
  "busiest_first lc a b = (if fst (snd b) \<noteq> fst (snd a) then int (fst (snd b)) - int (fst (snd a)) else lc (fst a) (fst b))"

definition getTopEndpoints :: "(string \<Rightarrow> string \<Rightarrow> int) \<Rightarrow> string \<Rightarrow> millis \<Rightarrow> millis \<Rightarrow> string option \<Rightarrow> int \<Rightarrow>
    UsageEvent list \<Rightarrow> string tally" where
  "getTopEndpoints lc u from to apiId limit es =
     slice0 limit (sort_by (busiest_first lc) (tally ue_endpoint ue_revenue (filter (of_user u from to apiId) es)))"

section \<open>Developer analytics and the summary route\<close>

definition isoDate :: "millis \<Rightarrow> string" where
  "isoDate t = take 10 (toISOString t)"

definition startOfUtcDay :: "millis \<Rightarrow> millis" where
  "startOfUtcDay t = Date_UTC (getUTCFullYear t) (getUTCMonth t) (getUTCDate t) * DAY_MS"

definition startOfUtcWeek :: "millis \<Rightarrow> millis" where
  "startOfUtcWeek t = (let dayStart = startOfUtcDay t; mondayOffset = (getUTCDay dayStart + 6) mod 7 in dayStart - mondayOffset * DAY_MS)"

definition startOfUtcMonth :: "millis \<Rightarrow> millis" where
  "startOfUtcMonth t = Date_UTC (getUTCFullYear t) (getUTCMonth t) 1 * DAY_MS"

definition bucketStart :: "millis \<Rightarrow> GroupBy \<Rightarrow> millis" where
  "bucketStart t g = (if g = ByDay then startOfUtcDay t else if g = ByWeek then startOfUtcWeek t else startOfUtcMonth t)"

definition anonymizeUserId :: "string \<Rightarrow> string" where
  "anonymizeUserId u = (let n = trim u in ''user_'' @ (if length n \<le> 4 then n else drop (length n - 4) n))"

definition count_key :: "string \<Rightarrow> (string, nat) js_map \<Rightarrow> (string, nat) js_map" where
  "count_key k m = map_set k ((case map_get m k of None \<Rightarrow> 0 | Some c \<Rightarrow> c) + 1) m"

definition topN :: "(string \<Rightarrow> string \<Rightarrow> int) \<Rightarrow> (string, nat) js_map \<Rightarrow> (string, nat) js_map" where
  "topN lc m = take 5 (sort_by (\<lambda>a b. if snd b \<noteq> snd a then int (snd b) - int (snd a) else lc (fst a) (fst b)) m)"

definition buildDeveloperAnalytics :: "(string \<Rightarrow> string \<Rightarrow> int) \<Rightarrow> UsageEvent list \<Rightarrow> GroupBy \<Rightarrow> bool \<Rightarrow>
    (string \<times> nat \<times> string) list \<times> ((string, nat) js_map \<times> (string, nat) js_map) option" where
  "buildDeveloperAnalytics lc es g includeTop =
    (let buckets = tally (\<lambda>e. isoDate (bucketStart (ue_occurredAt e) g)) ue_revenue es;
         endpointCounts = fold (\<lambda>e. count_key (ue_endpoint e)) es [];
         userCounts = fold (\<lambda>e. count_key (anonymizeUserId (ue_userId e))) es [];
         points = map (\<lambda>(p, c, v). (p, c, show_int v)) (by_label lc buckets) in
     (points, if includeTop then Some (topN lc endpointCounts, topN lc userCounts) else None))"

definition getBucketPeriod :: "millis \<Rightarrow> GroupBy \<Rightarrow> string" where
  "getBucketPeriod t g = (if g = ByDay then isoDate (startOfUtcDay t) else if g = ByWeek then isoDate (startOfUtcWeek t)
     else isoDate (startOfUtcMonth t))"

text \<open>A query parameter: \<open>Some None\<close> is a value that is not a string.\<close>

definition parseDate :: "(string \<Rightarrow> millis option) \<Rightarrow> string option option \<Rightarrow> unit + millis option" where
  "parseDate dateParse v = (case v of None \<Rightarrow> Inr None | Some None \<Rightarrow> Inl ()
     | Some (Some s) \<Rightarrow> if s = [] then Inr None else (case dateParse s of None \<Rightarrow> Inl () | Some t \<Rightarrow> Inr (Some t)))"

fun read_group :: "string \<Rightarrow> GroupBy option" where
  "read_group s = (if s = ''day'' then Some ByDay else if s = ''week'' then Some ByWeek else if s = ''month'' then Some ByMonth else None)"

record summary_query =
  sq_from :: "string option option"
  sq_to :: "string option option"
  sq_groupBy :: "string option option"
  sq_apiId :: "string option option"

record usage_summary =
  us_calls :: nat
  us_revenue :: string
  us_activeApis :: nat
  us_apis :: "(string \<times> nat \<times> string) list"
  us_buckets :: "(string \<times> nat \<times> string) list"
  us_period :: "string \<times> string"

definition bad_dates :: error where
  "bad_dates = BadRequestError ''from and to must be valid ISO date values'' ''BAD_REQUEST''"

definition summarize :: "(string \<Rightarrow> string \<Rightarrow> int) \<Rightarrow> GroupBy \<Rightarrow> millis \<Rightarrow> millis \<Rightarrow> UsageEvent list \<Rightarrow> usage_summary" where
  "summarize lc g from to es =
    (let apis = sort_by (busiest_first lc) (tally ue_apiId ue_revenue es);
         buckets = by_label lc (tally (\<lambda>e. getBucketPeriod (ue_occurredAt e) g) ue_revenue es);
         out = map (\<lambda>(k, c, v). (k, c, show_int v)) in
     \<lparr>us_calls = length es, us_revenue = show_int (sum_list (map ue_revenue es)), us_activeApis = length apis,
      us_apis = out apis, us_buckets = out buckets, us_period = (toISOString from, toISOString to)\<rparr>)"

definition usage_summary_route :: "(string \<Rightarrow> string \<Rightarrow> int) \<Rightarrow> (string \<Rightarrow> millis option) \<Rightarrow> (string \<Rightarrow> bool) \<Rightarrow> string \<Rightarrow> summary_query \<Rightarrow>
    millis \<Rightarrow> UsageEvent list \<Rightarrow> usage_summary result" where
  "usage_summary_route lc dateParse isDeveloper user q now es =
    (if \<not> isDeveloper user then Inl (ForbiddenError ''No developer profile found for this account'' ''DEVELOPER_NOT_FOUND'')
     else (case parseDate dateParse (sq_from q) of Inl _ \<Rightarrow> Inl bad_dates
       | Inr parsedFrom \<Rightarrow> (case parseDate dateParse (sq_to q) of Inl _ \<Rightarrow> Inl bad_dates
         | Inr parsedTo \<Rightarrow>
            (let from = (case parsedFrom of None \<Rightarrow> now - 30 * DAY_MS | Some t \<Rightarrow> t);
                 to = (case parsedTo of None \<Rightarrow> now | Some t \<Rightarrow> t) in
             if from > to then Inl (BadRequestError ''from must be before or equal to to'' ''BAD_REQUEST'')
             else (case (case sq_groupBy q of None \<Rightarrow> Some ByDay | Some v \<Rightarrow> Option.bind v read_group) of
                 None \<Rightarrow> Inl (BadRequestError ''groupBy must be one of: day, week, month'' ''BAD_REQUEST'')
               | Some g \<Rightarrow>
                  (case sq_apiId q of
                     None \<Rightarrow> Inr (summarize lc g from to (findByDeveloper user from to None es))
                   | Some None \<Rightarrow> Inl (BadRequestError ''apiId must be a non-empty string'' ''BAD_REQUEST'')
                   | Some (Some a) \<Rightarrow>
                      if trim a = [] then Inl (BadRequestError ''apiId must be a non-empty string'' ''BAD_REQUEST'')
                      else if \<not> developerOwnsApi user (trim a) es
                      then Inl (ForbiddenError ''Forbidden: API does not belong to authenticated developer'' ''FORBIDDEN'')
                      else Inr (summarize lc g from to (findByDeveloper user from to (Some (trim a)) es))))))))"

section \<open>Tallies are exact\<close>

text \<open>The calls and the revenue of the events with a given key.\<close>

definition stats :: "('e \<Rightarrow> 'k) \<Rightarrow> ('e \<Rightarrow> int) \<Rightarrow> 'e list \<Rightarrow> 'k \<Rightarrow> (nat \<times> int) option" where
  "stats key val es k = (let xs = filter (\<lambda>e. key e = k) es in
     if xs = [] then None else Some (length xs, sum_list (map val xs)))"

named_theorems tallies \<open>laws of tallies\<close>

lemma map_get_bump [tallies]:
  "map_get (bump k r m) k' = (if k' = k then Some (case map_get m k of None \<Rightarrow> (1, r) | Some (c, v) \<Rightarrow> (c + 1, v + r)) else map_get m k')"
  by (auto simp: bump_def jsmap split: option.splits)

lemma wf_bump [simp]: "wf_map m \<Longrightarrow> wf_map (bump k r m)"
  by (auto simp: bump_def split: option.splits)

lemma keys_bump [tallies]: "fst ` set (bump k r m) = insert k (fst ` set m)"
  by (auto simp: bump_def dom_update split: option.splits)

lemma sum_bump [tallies]:
  "sum_list (map (\<lambda>x. fst (snd x)) (bump k r m)) = sum_list (map (\<lambda>x. fst (snd x)) m) + 1"
  "sum_list (map (\<lambda>x. snd (snd x)) (bump k r m)) = sum_list (map (\<lambda>x. snd (snd x)) m) + r"
  by (induction m) (auto simp: bump_def split: option.splits)

lemma tally_snoc [simp]: "tally key val (es @ [e]) = bump (key e) (val e) (tally key val es)"
  by (simp add: tally_def)

lemma tally_Nil [simp]: "tally key val [] = []"
  by (simp add: tally_def)

lemma wf_tally [simp]: "wf_map (tally key val es)"
  by (induction es rule: rev_induct) simp_all

lemma map_get_tally [tallies]: "map_get (tally key val es) k = stats key val es k"
  by (induction es rule: rev_induct) (auto simp: map_get_bump stats_def Let_def simp del: map_of_eq_Some_iff split: option.splits if_splits)

lemma keys_tally [tallies]: "fst ` set (tally key val es) = key ` set es"
  by (induction es rule: rev_induct) (auto simp: keys_bump)

lemma sum_tally [tallies]:
  "sum_list (map (\<lambda>x. fst (snd x)) (tally key val es)) = length es"
  "sum_list (map (\<lambda>x. snd (snd x)) (tally key val es)) = sum_list (map val es)"
  by (induction es rule: rev_induct) (simp_all add: sum_bump)

lemma sum_list_sort_by [simp]: "sum_list (map f (sort_by cmp xs)) = sum_list (map f xs)"
  for f :: "'a \<Rightarrow> 'b :: comm_monoid_add"
  by (metis mset_map mset_sort_by sum_mset_sum_list)

lemma map_get_sort_by: "wf_map m \<Longrightarrow> map_get (sort_by cmp m) k = map_get m k"
  by (metis distinct_sort_by map_of_eqI map_of_inject_set set_sort_by)

section \<open>Sorting by a total order\<close>

definition label_less :: "string \<times> 'v \<Rightarrow> string \<times> 'v \<Rightarrow> bool" where
  "label_less a b \<longleftrightarrow> fst a < fst b"

lemma label_less_order: "transp label_less" "asymp label_less"
  by (auto simp: label_less_def intro!: transpI asympI)

lemma locale_ok_iff: "locale_ok lc ids \<Longrightarrow> a \<in> ids \<Longrightarrow> b \<in> ids \<Longrightarrow> a \<noteq> b \<Longrightarrow> lc a b \<le> 0 \<longleftrightarrow> a < b"
  by (auto simp: locale_ok_def)

lemma by_label_sorted:
  assumes "wf_map m" "locale_ok lc (fst ` set m)"
  shows "sorted_wrt label_less (by_label lc m)"
  unfolding by_label_def
proof (rule sort_by_sorted [OF label_less_order(1)], intro ballI impI)
  fix a b assume ab: "a \<in> set m" "b \<in> set m" "a \<noteq> b"
  with assms(1) have "fst a \<noteq> fst b" by (metis distinct_map inj_onD)
  then show "(lc (fst a) (fst b) \<le> 0 \<longleftrightarrow> label_less a b) \<and> (label_less a b \<or> label_less b a)"
    using ab locale_ok_iff [OF assms(2), of "fst a" "fst b"] by (auto simp: label_less_def)
qed (use assms(1) in \<open>simp add: distinct_map\<close>)

section \<open>The in-memory aggregations\<close>

lemma fold_guarded: "fold (\<lambda>e s. if P e then f e s else s) es s = fold f (filter P es) s"
  by (induction es arbitrary: s) auto

lemma count_events:
  "fold (count_event g) es \<lparr>ut_calls = 0, ut_revenue = 0, ut_apis = [], ut_buckets = []\<rparr> =
   \<lparr>ut_calls = length es, ut_revenue = sum_list (map ue_revenue es), ut_apis = tally ue_apiId ue_revenue es,
    ut_buckets = (case g of None \<Rightarrow> [] | Some g \<Rightarrow> tally (\<lambda>e. getPeriodString (ue_occurredAt e) g) ue_revenue es)\<rparr>"
  by (induction es rule: rev_induct) (simp_all add: count_event_def split: option.splits)

lemma aggregateByUser_eq:
  "aggregateByUser lc u from to apiId g es =
    (let xs = filter (of_user u from to apiId) es in
     (sum_list (map ue_revenue xs), length xs, tally ue_apiId ue_revenue xs,
      map_option (\<lambda>g. by_label lc (tally (\<lambda>e. getPeriodString (ue_occurredAt e) g) ue_revenue xs)) g))"
proof -
  have "(\<lambda>e s. if ue_userId e \<noteq> u then s else if ue_occurredAt e < from \<or> ue_occurredAt e > to then s
      else if \<not> api_filter apiId (ue_apiId e) then s else count_event g e s) =
    (\<lambda>e s. if of_user u from to apiId e then count_event g e s else s)"
    by (auto simp: fun_eq_iff of_user_def)
  then show ?thesis by (simp add: aggregateByUser_def fold_guarded count_events Let_def split: option.splits)
qed

lemma aggregateByHour_eq:
  "aggregateByHour lc u from to apiId es =
    (let xs = filter (of_user u from to apiId) es in
     (by_label lc (tally (\<lambda>e. getPeriodString (ue_occurredAt e) ByHour) ue_revenue xs), length xs, sum_list (map ue_revenue xs)))"
proof -
  let ?f = "\<lambda>e (m, c, v). (bump (getPeriodString (ue_occurredAt e) ByHour) (ue_revenue e) m, c + 1, v + ue_revenue e)"
  have g: "(\<lambda>e (m, c, v). if ue_userId e \<noteq> u then (m, c, v) else if \<not> api_filter apiId (ue_apiId e) then (m, c, v)
         else if ue_occurredAt e < from \<or> ue_occurredAt e > to then (m, c, v)
         else (bump (getPeriodString (ue_occurredAt e) ByHour) (ue_revenue e) m, c + 1, v + ue_revenue e)) =
    (\<lambda>e s. if of_user u from to apiId e then ?f e s else s)"
    by (auto simp: fun_eq_iff of_user_def)
  have "fold ?f xs ([], 0, 0) = (tally (\<lambda>e. getPeriodString (ue_occurredAt e) ByHour) ue_revenue xs, length xs, sum_list (map ue_revenue xs))" for xs :: "UsageEvent list"
    by (induction xs rule: rev_induct) simp_all
  then show ?thesis by (simp add: aggregateByHour_def g fold_guarded Let_def)
qed

lemma aggregateByDeveloper_eq:
  "aggregateByDeveloper dev es = tally ue_apiId ue_revenue (filter (\<lambda>e. ue_developerId e = dev) es)"
proof -
  have "(\<lambda>e m. if ue_developerId e \<noteq> dev then m else bump (ue_apiId e) (ue_revenue e) m) =
    (\<lambda>(e :: UsageEvent) m. if ue_developerId e = dev then bump (ue_apiId e) (ue_revenue e) m else m)" by (auto simp: fun_eq_iff)
  then show ?thesis by (simp add: aggregateByDeveloper_def fold_guarded tally_def)
qed

section \<open>Periods\<close>

lemma DAY_MS_pos [simp]: "0 < DAY_MS" "DAY_MS \<noteq> 0"
  by (simp_all add: DAY_MS_def)

lemma day_of_shift [simp]: "0 \<le> r \<Longrightarrow> r < DAY_MS \<Longrightarrow> day_of (d * DAY_MS + r) = d"
  by (simp add: day_of_def)

lemma day_of_start [simp]: "day_of (d * DAY_MS) = d"
  by (simp add: day_of_def)

lemma utc_day_fields: "utc_day (getUTCFullYear t) (getUTCMonth t) (getUTCDate t) = day_of t"
  by (rule civil_valid [of "day_of t"]) (simp add: getUTCFullYear_def getUTCMonth_def getUTCDate_def)

lemma startOfUtcDay_eq: "100 \<le> getUTCFullYear t \<Longrightarrow> startOfUtcDay t = day_of t * DAY_MS"
  by (simp add: startOfUtcDay_def Date_UTC_def utc_day_fields)

lemma startOfUtcWeek_eq: "100 \<le> getUTCFullYear t \<Longrightarrow> startOfUtcWeek t = (day_of t - (getUTCDay t + 6) mod 7) * DAY_MS"
  by (simp only: startOfUtcWeek_def startOfUtcDay_eq getUTCDay_def day_of_start Let_def left_diff_distrib)

lemma length_padStart: "length s \<le> n \<Longrightarrow> length (padStart n c s) = n"
  by (simp add: padStart_def)

lemma length_padStart_ge: "n \<le> length (padStart n c s)"
  by (simp add: padStart_def)

lemma length_two_digits: "0 \<le> n \<Longrightarrow> n < 100 \<Longrightarrow> length (two_digits n) = 2"
  unfolding two_digits_def by (intro length_padStart show_nat_length) auto

lemma iso_day_length: "10 \<le> length (iso_day d)"
proof -
  have "4 \<le> length (iso_year y)" for y
    using length_padStart_ge [of 4 "CHR ''0''" "show_nat (nat y)"] length_padStart_ge [of 6 "CHR ''0''" "show_nat (nat \<bar>y\<bar>)"]
    unfolding iso_year_def by (simp split: if_splits)
  moreover have "2 \<le> length (two_digits n)" for n by (simp add: two_digits_def length_padStart_ge)
  ultimately have "4 + 1 + 2 + 1 + 2 \<le> length (iso_year y) + 1 + length (two_digits m) + 1 + length (two_digits n)" for y m n
    by (intro add_mono) auto
  then show ?thesis by (auto simp: iso_day_def add.assoc split: prod.split)
qed

lemma take_iso: "take 10 (toISOString t) = take 10 (iso_day (day_of t))"
  using iso_day_length [of "day_of t"] by (simp add: toISOString_def)

lemma day_label: "100 \<le> getUTCFullYear t \<Longrightarrow> getPeriodString t ByDay = isoDate (startOfUtcDay t)"
  by (simp add: getPeriodString_def isoDate_def take_iso startOfUtcDay_eq)

lemma week_label:
  assumes "100 \<le> getUTCFullYear t"
  shows "getPeriodString t ByWeek = isoDate (startOfUtcWeek t)"
proof -
  have "0 \<le> getUTCDay t" "getUTCDay t < 7" by (simp_all add: getUTCDay_def)
  then have "(getUTCDay t + 6) mod 7 = (if getUTCDay t = 0 then 6 else getUTCDay t - 1)" by presburger
  then have "getUTCDate t - getUTCDay t + (if getUTCDay t = 0 then - 6 else 1) = getUTCDate t + - ((getUTCDay t + 6) mod 7)"
    by simp
  then have "utc_day (getUTCFullYear t) (getUTCMonth t) (getUTCDate t - getUTCDay t + (if getUTCDay t = 0 then - 6 else 1)) =
      day_of t - (getUTCDay t + 6) mod 7"
    by (simp only: utc_day_add utc_day_fields)
  then show ?thesis
    using assms by (simp add: getPeriodString_def isoDate_def take_iso startOfUtcWeek_eq Let_def)
qed

lemma month_label:
  assumes "100 \<le> getUTCFullYear t" "getUTCFullYear t \<le> 9999"
  shows "getPeriodString t ByMonth = isoDate (startOfUtcMonth t)"
proof -
  let ?y = "getUTCFullYear t" and ?m = "getUTCMonth t"
  obtain y m d where c: "civil (day_of t) = (y, m, d)" "valid_date y m d" by (rule civil_valid)
  then have ym: "y = ?y" "m = ?m" "?m < 12" by (auto simp: getUTCFullYear_def getUTCMonth_def valid_date_def)
  have first: "civil (utc_day ?y ?m 1) = (?y, ?m, 1)" using ym by (intro civil_utc_day valid_date_first)
  have ly: "length (iso_year ?y) = 4"
    using assms show_nat_length [of "nat ?y" 4] by (simp add: iso_year_def length_padStart)
  have lm: "length (two_digits (int ?m + 1)) = 2" using ym by (intro length_two_digits) auto
  have one: "two_digits 1 = ''01''" by code_simp
  have "take 7 (iso_year ?y @ ''-'' @ two_digits (int ?m + 1) @ rest) = iso_year ?y @ ''-'' @ two_digits (int ?m + 1)" for rest
    using ly lm by simp
  then have "getPeriodString t ByMonth = iso_year ?y @ ''-'' @ two_digits (int ?m + 1) @ ''-01''"
    using c ym by (simp add: getPeriodString_def toISOString_def iso_day_def)
  moreover have "isoDate (startOfUtcMonth t) = take 10 (iso_year ?y @ ''-'' @ two_digits (int ?m + 1) @ ''-01'')"
    using assms(1) by (simp add: isoDate_def startOfUtcMonth_def Date_UTC_def take_iso iso_day_def first one)
  ultimately show ?thesis using ly lm by simp
qed

section \<open>Properties\<close>

text \<open>The usage summary of a user is exact: the totals are the number and the revenue of the user's events in the
  range, every API of the breakdown and every bucket carries exactly the calls and the revenue of its own
  events, nothing is counted twice or lost, and the buckets come in the order of their labels.\<close>

theorem usage_summary_exact:
  assumes "locale_ok lc ((\<lambda>e. getPeriodString (ue_occurredAt e) g) ` set es)"
  shows "case aggregateByUser lc u from to apiId (Some g) es of (revenue, calls, apis, buckets) \<Rightarrow>
    (let xs = filter (of_user u from to apiId) es; bs = the buckets; period = (\<lambda>e. getPeriodString (ue_occurredAt e) g) in
     calls = length xs \<and> revenue = sum_list (map ue_revenue xs) \<and>
     (\<forall>a. map_get apis a = stats ue_apiId ue_revenue xs a) \<and>
     sum_list (map (\<lambda>x. fst (snd x)) apis) = calls \<and> sum_list (map (\<lambda>x. snd (snd x)) apis) = revenue \<and>
     (\<forall>p. map_get bs p = stats period ue_revenue xs p) \<and>
     sum_list (map (\<lambda>x. fst (snd x)) bs) = calls \<and> sum_list (map (\<lambda>x. snd (snd x)) bs) = revenue \<and>
     sorted_wrt (<) (map fst bs))"
proof -
  let ?xs = "filter (of_user u from to apiId) es" and ?p = "\<lambda>e. getPeriodString (ue_occurredAt e) g"
  have "locale_ok lc (fst ` set (tally ?p ue_revenue ?xs))" using assms by (auto simp: locale_ok_def keys_tally)
  then have "sorted_wrt label_less (by_label lc (tally ?p ue_revenue ?xs))" by (intro by_label_sorted) simp
  then have "sorted_wrt (<) (map fst (by_label lc (tally ?p ue_revenue ?xs)))"
    by (simp add: sorted_wrt_map label_less_def [abs_def])
  then show ?thesis
    by (simp add: aggregateByUser_eq Let_def tallies by_label_def map_get_sort_by)
qed

text \<open>The three implementations of time buckets agree: for a date in the years 100 to 9999 and a grouping by day,
  week or month, the label of the in-memory repository is the ISO date of the bucket start the developer
  analytics computes, and so is the label of the summary route.\<close>

theorem period_labels_agree:
  assumes "100 \<le> getUTCFullYear t" "getUTCFullYear t \<le> 9999" "g \<noteq> ByHour"
  shows "getPeriodString t g = isoDate (bucketStart t g) \<and> getBucketPeriod t g = isoDate (bucketStart t g)"
  using assms day_label week_label month_label
  by (cases g) (simp_all add: bucketStart_def getBucketPeriod_def)

section \<open>Witnesses\<close>

definition code_unit_order :: "string \<Rightarrow> string \<Rightarrow> int" where
  "code_unit_order a b = (if a \<le> b then (if a = b then 0 else - 1) else 1)"

lemma code_unit_order_ok: "locale_ok code_unit_order ids"
  by (auto simp: locale_ok_def code_unit_order_def)

definition demo_usage :: "string \<Rightarrow> millis \<Rightarrow> int \<Rightarrow> UsageEvent" where
  "demo_usage a t r = \<lparr>ue_id = ''1'', ue_developerId = ''d'', ue_apiId = a, ue_endpoint = ''/e'', ue_userId = ''u'', ue_occurredAt = t, ue_revenue = r\<rparr>"

theorem usage_summary_exact_witness:
  "fst (snd (aggregateByUser code_unit_order ''u'' 0 100 None (Some ByDay) [demo_usage ''a'' 5 3, demo_usage ''b'' 7 4, demo_usage ''a'' 200 9])) = 2"
  using usage_summary_exact [of code_unit_order ByDay "[demo_usage ''a'' 5 3, demo_usage ''b'' 7 4, demo_usage ''a'' 200 9]" "''u''" 0 100 None, OF code_unit_order_ok]
  by (auto simp: Let_def of_user_def api_filter_def demo_usage_def split: prod.splits)

theorem period_labels_agree_witness:
  "getUTCFullYear 1700000000000 = 2023 \<and> getPeriodString 1700000000000 ByWeek = isoDate (bucketStart 1700000000000 ByWeek)"
proof -
  have "getUTCFullYear 1700000000000 = 2023" by code_simp
  then show ?thesis using period_labels_agree [of 1700000000000 ByWeek] by simp
qed

end
