(* ===== verification/UsagePg.thy ===== *)
theory UsagePg
  imports UsageAnalytics
begin

text \<open>
  The Postgres usage repository (\<^verbatim>\<open>repositories/usageEventsRepository.pg.ts\<close>) over the tables
  \<open>usage_events\<close> and \<open>revenue_ledger\<close>, and the revenue ledger indexer
  (\<^verbatim>\<open>services/revenueLedgerIndexer.ts\<close>) that fills the second from the first.

  Queries are list operations over the rows; \<open>ORDER BY\<close> is a stable sort, and every order the code asks
  for is total on the rows. A statement that fails (connection, numeric overflow) is outside the model
  except where a hypothesis names it.
\<close>

section \<open>Tables\<close>

record usage_row =
  ur_id :: int
  ur_user_id :: string
  ur_api_id :: string
  ur_endpoint_id :: string
  ur_api_key_id :: string
  ur_developer_id :: string
  ur_amount :: int
  ur_request_id :: string
  ur_stellar_tx_hash :: "string option"
  ur_created_at :: millis

record ledger_row =
  lr_api_id :: string
  lr_developer_id :: string
  lr_amount :: int
  lr_usage_event_id :: int
  lr_created_at :: millis

record usage_db =
  db_events :: "usage_row list"
  db_ledger :: "ledger_row list"
  db_next :: int

text \<open>How the driver prints a whole number of a \<open>NUMERIC\<close> column with the given scale.\<close>

definition numeric_text :: "nat \<Rightarrow> int \<Rightarrow> string" where
  "numeric_text scale n = show_int n @ (if scale = 0 then [] else CHR ''.'' # replicate scale (CHR ''0''))"

section \<open>Checks\<close>

definition assertNonEmpty :: "string \<Rightarrow> string \<Rightarrow> string result" where
  "assertNonEmpty v field = (let t = trim v in if t = [] then Inl (Error (field @ '' is required.'')) else Inr t)"

definition assertAmount :: "int \<Rightarrow> int result" where
  "assertAmount a = (if a < 0 then Inl (Error ''amount must be greater than or equal to 0.'') else Inr a)"

definition assertValidRange :: "millis option \<Rightarrow> millis option \<Rightarrow> unit result" where
  "assertValidRange from to = (case (from, to) of (Some f, Some t) \<Rightarrow>
       if f > t then Inl (Error ''from must be before or equal to to.'') else Inr () | _ \<Rightarrow> Inr ())"

definition normalizeLimit :: "rat option \<Rightarrow> nat option result" where
  "normalizeLimit limit = (case limit of None \<Rightarrow> Inr None
     | Some q \<Rightarrow> if of_int \<lfloor>q\<rfloor> \<noteq> q \<or> q < 0 then Inl (Error ''limit must be a non-negative integer.'') else Inr (Some (nat \<lfloor>q\<rfloor>)))"

definition normalizeCursor :: "string option \<Rightarrow> int option result" where
  "normalizeCursor c = (case c of None \<Rightarrow> Inr None
     | Some s \<Rightarrow> (let t = trim s in if t \<noteq> [] \<and> list_all is_digit t then Inr (Some (int (read_nat t)))
         else Inl (Error ''cursor must be a non-negative integer string.'')))"

fun split_dot2 :: "string \<Rightarrow> string \<times> string option" where
  "split_dot2 s = (if CHR ''.'' \<in> set s
     then (takeWhile (\<lambda>c. c \<noteq> CHR ''.'') s, Some (takeWhile (\<lambda>c. c \<noteq> CHR ''.'') (tl (dropWhile (\<lambda>c. c \<noteq> CHR ''.'') s))))
     else (s, None))"

definition signed_digits :: "string \<Rightarrow> bool" where
  "signed_digits s \<longleftrightarrow> (let d = (if s \<noteq> [] \<and> hd s = CHR ''-'' then tl s else s) in d \<noteq> [] \<and> list_all is_digit d)"

definition read_signed :: "string \<Rightarrow> int" where
  "read_signed s = (if s \<noteq> [] \<and> hd s = CHR ''-'' then - int (read_nat (tl s)) else int (read_nat s))"

text \<open>\<open>toBigInt\<close> of a text; the other types the function accepts do not come from the driver.\<close>

definition toBigInt :: "string \<Rightarrow> string \<Rightarrow> int result" where
  "toBigInt v field = (case split_dot2 (trim v) of (integerPart, fractionalPart) \<Rightarrow>
     (let bad = Inl (Error (field @ '' must be stored as an integer string in smallest units. Got: '' @ v)) in
      if (case fractionalPart of None \<Rightarrow> False | Some f \<Rightarrow> f \<noteq> [] \<and> \<not> list_all (\<lambda>c. c = CHR ''0'') f) then bad
      else if integerPart = [] \<or> \<not> signed_digits integerPart then bad
      else Inr (read_signed integerPart)))"

record BillingUsageEvent =
  be_id :: string
  be_userId :: string
  be_apiId :: string
  be_endpointId :: string
  be_apiKeyId :: string
  be_developerId :: string
  be_amount :: int
  be_requestId :: string
  be_stellarTxHash :: "string option"
  be_createdAt :: millis

definition mapUsageEventRow :: "nat \<Rightarrow> usage_row \<Rightarrow> BillingUsageEvent result" where
  "mapUsageEventRow scale r = (case toBigInt (numeric_text scale (ur_amount r)) ''amount_usdc'' of
       Inl e \<Rightarrow> Inl e
     | Inr a \<Rightarrow> Inr \<lparr>be_id = show_int (ur_id r), be_userId = ur_user_id r, be_apiId = ur_api_id r, be_endpointId = ur_endpoint_id r,
         be_apiKeyId = ur_api_key_id r, be_developerId = ur_developer_id r, be_amount = a, be_requestId = ur_request_id r,
         be_stellarTxHash = ur_stellar_tx_hash r, be_createdAt = ur_created_at r\<rparr>)"

fun map_result :: "('a \<Rightarrow> 'b result) \<Rightarrow> 'a list \<Rightarrow> 'b list result" where
  "map_result f [] = Inr []"
| "map_result f (x # xs) = (case f x of Inl e \<Rightarrow> Inl e
     | Inr y \<Rightarrow> (case map_result f xs of Inl e \<Rightarrow> Inl e | Inr ys \<Rightarrow> Inr (y # ys)))"

section \<open>Recording\<close>

record CreateUsageEventInput =
  ci_userId :: string
  ci_apiId :: string
  ci_endpointId :: string
  ci_apiKeyId :: string
  ci_developerId :: "string option"
  ci_amount :: int
  ci_requestId :: string
  ci_stellarTxHash :: "string option"
  ci_createdAt :: "millis option"

text \<open>\<open>INSERT ... ON CONFLICT (request_id, developer_id) DO UPDATE\<close> with an update that changes nothing:
  the existing row is returned. The sequence is used up either way.\<close>

definition upsert_event :: "usage_row \<Rightarrow> usage_db \<Rightarrow> usage_row \<times> usage_db" where
  "upsert_event r db = (case List.find (\<lambda>x. ur_request_id x = ur_request_id r \<and> ur_developer_id x = ur_developer_id r) (db_events db) of
       Some x \<Rightarrow> (x, db\<lparr>db_next := db_next db + 1\<rparr>)
     | None \<Rightarrow> (let n = r\<lparr>ur_id := db_next db\<rparr> in (n, db\<lparr>db_events := db_events db @ [n], db_next := db_next db + 1\<rparr>)))"

definition pg_create :: "nat \<Rightarrow> CreateUsageEventInput \<Rightarrow> millis \<Rightarrow> usage_db \<Rightarrow> BillingUsageEvent result \<times> usage_db" where
  "pg_create scale i now db =
    (case assertNonEmpty (ci_userId i) ''userId'' of Inl e \<Rightarrow> (Inl e, db) | Inr u \<Rightarrow>
    (case assertNonEmpty (ci_apiId i) ''apiId'' of Inl e \<Rightarrow> (Inl e, db) | Inr a \<Rightarrow>
    (case assertNonEmpty (ci_endpointId i) ''endpointId'' of Inl e \<Rightarrow> (Inl e, db) | Inr ep \<Rightarrow>
    (case assertNonEmpty (ci_apiKeyId i) ''apiKeyId'' of Inl e \<Rightarrow> (Inl e, db) | Inr k \<Rightarrow>
    (case assertNonEmpty (ci_requestId i) ''requestId'' of Inl e \<Rightarrow> (Inl e, db) | Inr rq \<Rightarrow>
    (case assertAmount (ci_amount i) of Inl e \<Rightarrow> (Inl e, db) | Inr am \<Rightarrow>
      (case upsert_event \<lparr>ur_id = 0, ur_user_id = u, ur_api_id = a, ur_endpoint_id = ep, ur_api_key_id = k,
          ur_developer_id = trim (case ci_developerId i of None \<Rightarrow> [] | Some d \<Rightarrow> d), ur_amount = am, ur_request_id = rq,
          ur_stellar_tx_hash = ci_stellarTxHash i, ur_created_at = (case ci_createdAt i of None \<Rightarrow> now | Some t \<Rightarrow> t)\<rparr> db of
        (row, db1) \<Rightarrow> (mapUsageEventRow scale row, db1))))))))"

section \<open>Queries\<close>

datatype column = UserId | ApiId

fun column_value :: "column \<Rightarrow> usage_row \<Rightarrow> string" where
  "column_value UserId r = ur_user_id r"
| "column_value ApiId r = ur_api_id r"

definition in_range :: "millis option \<Rightarrow> millis option \<Rightarrow> usage_row \<Rightarrow> bool" where
  "in_range from to r \<longleftrightarrow> (case from of None \<Rightarrow> True | Some f \<Rightarrow> f \<le> ur_created_at r) \<and> (case to of None \<Rightarrow> True | Some t \<Rightarrow> ur_created_at r \<le> t)"

definition newest_rows :: "usage_row \<Rightarrow> usage_row \<Rightarrow> int" where
  "newest_rows a b = (if ur_created_at a \<noteq> ur_created_at b then ur_created_at b - ur_created_at a else ur_id b - ur_id a)"

definition oldest_rows :: "usage_row \<Rightarrow> usage_row \<Rightarrow> int" where
  "oldest_rows a b = newest_rows b a"

definition findByColumn :: "nat \<Rightarrow> column \<Rightarrow> string \<Rightarrow> millis option \<Rightarrow> millis option \<Rightarrow> rat option \<Rightarrow> nat option \<Rightarrow> string option \<Rightarrow>
    usage_db \<Rightarrow> BillingUsageEvent list result" where
  "findByColumn scale col v from to limit offset apiId db =
    (case assertValidRange from to of Inl e \<Rightarrow> Inl e | Inr _ \<Rightarrow>
    (case normalizeLimit limit of Inl e \<Rightarrow> Inl e | Inr n \<Rightarrow>
      if n = Some 0 then Inr []
      else (let rows = sort_by newest_rows (filter (\<lambda>r. column_value col r = v \<and> in_range from to r \<and> api_filter apiId (ur_api_id r)) (db_events db));
                rest = (case offset of None \<Rightarrow> rows | Some k \<Rightarrow> drop k rows);
                lim = (case n of None \<Rightarrow> rest | Some k \<Rightarrow> take k rest) in
            map_result (mapUsageEventRow scale) lim)))"

definition sumByColumn :: "nat \<Rightarrow> column \<Rightarrow> string \<Rightarrow> millis option \<Rightarrow> millis option \<Rightarrow> usage_db \<Rightarrow> int result" where
  "sumByColumn scale col v from to db =
    (case assertValidRange from to of Inl e \<Rightarrow> Inl e
     | Inr _ \<Rightarrow> (let rows = filter (\<lambda>r. column_value col r = v \<and> in_range from to r) (db_events db) in
         toBigInt (if rows = [] then ''0'' else numeric_text scale (sum_list (map ur_amount rows))) ''total''))"

definition pg_findByUserId :: "nat \<Rightarrow> string \<Rightarrow> millis option \<Rightarrow> millis option \<Rightarrow> rat option \<Rightarrow> nat option \<Rightarrow> usage_db \<Rightarrow> BillingUsageEvent list result" where
  "pg_findByUserId scale u from to limit offset db = (case assertNonEmpty u ''userId'' of Inl e \<Rightarrow> Inl e
     | Inr u' \<Rightarrow> findByColumn scale UserId u' from to limit offset None db)"

definition pg_findByApiId :: "nat \<Rightarrow> string \<Rightarrow> millis option \<Rightarrow> millis option \<Rightarrow> rat option \<Rightarrow> nat option \<Rightarrow> usage_db \<Rightarrow> BillingUsageEvent list result" where
  "pg_findByApiId scale a from to limit offset db = (case assertNonEmpty a ''apiId'' of Inl e \<Rightarrow> Inl e
     | Inr a' \<Rightarrow> findByColumn scale ApiId a' from to limit offset None db)"

definition getTotalSpentByUser :: "nat \<Rightarrow> string \<Rightarrow> millis option \<Rightarrow> millis option \<Rightarrow> usage_db \<Rightarrow> int result" where
  "getTotalSpentByUser scale u from to db = (case assertNonEmpty u ''userId'' of Inl e \<Rightarrow> Inl e | Inr u' \<Rightarrow> sumByColumn scale UserId u' from to db)"

definition getTotalRevenueByApi :: "nat \<Rightarrow> string \<Rightarrow> millis option \<Rightarrow> millis option \<Rightarrow> usage_db \<Rightarrow> int result" where
  "getTotalRevenueByApi scale a from to db = (case assertNonEmpty a ''apiId'' of Inl e \<Rightarrow> Inl e | Inr a' \<Rightarrow> sumByColumn scale ApiId a' from to db)"

text \<open>The shape the analytics want; the owner of the event is taken to be its user.\<close>

definition as_usage_event :: "BillingUsageEvent \<Rightarrow> UsageEvent" where
  "as_usage_event b = \<lparr>ue_id = be_id b, ue_developerId = be_userId b, ue_apiId = be_apiId b, ue_endpoint = be_endpointId b,
     ue_userId = be_userId b, ue_occurredAt = be_createdAt b, ue_revenue = be_amount b\<rparr>"

definition map_inr :: "('a \<Rightarrow> 'b) \<Rightarrow> 'a result \<Rightarrow> 'b result" where
  "map_inr f r = (case r of Inl e \<Rightarrow> Inl e | Inr x \<Rightarrow> Inr (f x))"

definition pg_findByDeveloper :: "nat \<Rightarrow> string \<Rightarrow> millis \<Rightarrow> millis \<Rightarrow> string option \<Rightarrow> usage_db \<Rightarrow> UsageEvent list result" where
  "pg_findByDeveloper scale d from to apiId db = (case assertNonEmpty d ''developerId'' of Inl e \<Rightarrow> Inl e
     | Inr d' \<Rightarrow> map_inr (map as_usage_event) (findByColumn scale UserId d' (Some from) (Some to) None None apiId db))"

text \<open>Keyset pages of a user's events, newest first; a cursor is the pair it encodes.\<close>

definition pg_findByUser :: "nat \<Rightarrow> string \<Rightarrow> millis \<Rightarrow> millis \<Rightarrow> string option \<Rightarrow> rat option \<Rightarrow> nat option \<Rightarrow> (millis \<times> int) option \<Rightarrow> usage_db \<Rightarrow>
    (UsageEvent list \<times> (millis \<times> int) option) result" where
  "pg_findByUser scale u from to apiId limit offset cursor db = (case assertNonEmpty u ''userId'' of Inl e \<Rightarrow> Inl e | Inr u' \<Rightarrow>
    (case cursor of
       None \<Rightarrow> map_inr (\<lambda>es. (map as_usage_event es, None)) (findByColumn scale UserId u' (Some from) (Some to) limit offset apiId db)
     | Some (ct, ci) \<Rightarrow>
        (case assertValidRange (Some from) (Some to) of Inl e \<Rightarrow> Inl e | Inr _ \<Rightarrow>
        (case normalizeLimit limit of Inl e \<Rightarrow> Inl e | Inr n \<Rightarrow>
          (let k = (case n of None \<Rightarrow> 20 | Some k \<Rightarrow> k);
               rows = take (k + 1) (sort_by newest_rows (filter (\<lambda>r. ur_user_id r = u' \<and> in_range (Some from) (Some to) r \<and>
                 api_filter apiId (ur_api_id r) \<and> (ur_created_at r < ct \<or> ur_created_at r = ct \<and> ur_id r < ci)) (db_events db)));
               hasMore = (length rows > k);
               items = (if hasMore then take k rows else rows);
               next = (if hasMore \<and> items \<noteq> [] then Some (ur_created_at (last items), ur_id (last items)) else None) in
           map_inr (\<lambda>bs. (map as_usage_event bs, next)) (map_result (mapUsageEventRow scale) items))))))"

definition pg_findByUserIdCursor :: "nat \<Rightarrow> string \<Rightarrow> millis option \<Rightarrow> millis option \<Rightarrow> rat \<Rightarrow> (millis \<times> int) option \<Rightarrow> (millis \<times> int) option \<Rightarrow>
    usage_db \<Rightarrow> (BillingUsageEvent list \<times> (millis \<times> string) option \<times> (millis \<times> string) option) result" where
  "pg_findByUserIdCursor scale u from to limit after bef db =
    (case assertValidRange from to of Inl e \<Rightarrow> Inl e | Inr _ \<Rightarrow>
    (case normalizeLimit (Some limit) of Inl e \<Rightarrow> Inl e | Inr n \<Rightarrow>
      if n = None \<or> n = Some 0 then Inr ([], None, None)
      else (case assertNonEmpty u ''userId'' of Inl e \<Rightarrow> Inl e | Inr u' \<Rightarrow>
       (let k = the n; backward = (bef \<noteq> None \<and> after = None);
            keep = (\<lambda>r. case after of Some (ct, ci) \<Rightarrow> ur_created_at r > ct \<or> ur_created_at r = ct \<and> ur_id r > ci
              | None \<Rightarrow> (case bef of Some (ct, ci) \<Rightarrow> ur_created_at r < ct \<or> ur_created_at r = ct \<and> ur_id r < ci | None \<Rightarrow> True));
            found = take (k + 1) (sort_by (if backward then newest_rows else oldest_rows)
              (filter (\<lambda>r. ur_user_id r = u' \<and> in_range from to r \<and> keep r) (db_events db))) in
        (case map_result (mapUsageEventRow scale) found of Inl e \<Rightarrow> Inl e | Inr rows \<Rightarrow>
          (let hasMore = (length rows > k); pageRows = (if hasMore then take k rows else rows);
               cur = (\<lambda>b. (be_createdAt b, be_id b));
               nextCursor = (if pageRows \<noteq> [] \<and> ((\<not> backward \<and> hasMore) \<or> backward) then Some (cur (last pageRows)) else None);
               prevCursor = (if pageRows \<noteq> [] \<and> ((backward \<and> hasMore) \<or> after \<noteq> None) then Some (cur (hd pageRows)) else None) in
           Inr (pageRows, nextCursor, prevCursor)))))))"

text \<open>\<open>GROUP BY\<close>: one row per key, in no particular order; the sum is printed by the database.\<close>

definition group_rows :: "(usage_row \<Rightarrow> 'k) \<Rightarrow> usage_row list \<Rightarrow> ('k \<times> nat \<times> int) list" where
  "group_rows key rows = map (\<lambda>k. (k, length (filter (\<lambda>r. key r = k) rows), sum_list (map ur_amount (filter (\<lambda>r. key r = k) rows))))
     (remdups (map key rows))"

definition read_group_row :: "nat \<Rightarrow> 'k \<times> nat \<times> int \<Rightarrow> ('k \<times> nat \<times> int) result" where
  "read_group_row scale x = (case x of (k, c, v) \<Rightarrow> map_inr (\<lambda>a. (k, c, a)) (toBigInt (numeric_text scale v) ''revenue''))"

definition pg_getTopEndpoints :: "nat \<Rightarrow> (string \<Rightarrow> string \<Rightarrow> int) \<Rightarrow> string \<Rightarrow> millis \<Rightarrow> millis \<Rightarrow> string option \<Rightarrow> rat \<Rightarrow> usage_db \<Rightarrow> string tally result" where
  "pg_getTopEndpoints scale collate u from to apiId limit db =
    (case assertValidRange (Some from) (Some to) of Inl e \<Rightarrow> Inl e | Inr _ \<Rightarrow>
    (case normalizeLimit (Some limit) of Inl e \<Rightarrow> Inl e | Inr n \<Rightarrow>
    (case assertNonEmpty u ''userId'' of Inl e \<Rightarrow> Inl e | Inr u' \<Rightarrow>
      (let k = (case n of None \<Rightarrow> 5 | Some k \<Rightarrow> k);
           rows = filter (\<lambda>r. ur_user_id r = u' \<and> in_range (Some from) (Some to) r \<and> api_filter apiId (ur_api_id r)) (db_events db) in
       map_result (read_group_row scale) (take k (sort_by (busiest_first collate) (group_rows ur_endpoint_id rows)))))))"

text \<open>\<open>TO_CHAR(DATE_TRUNC('hour', ...))\<close> of a timestamp in the years 0 to 9999.\<close>

definition hour_label :: "millis \<Rightarrow> string" where
  "hour_label t = iso_day (day_of t) @ ''T'' @ two_digits (t mod DAY_MS div 3600000) @ '':00:00.000Z''"

definition pg_aggregateByHour :: "nat \<Rightarrow> (string \<Rightarrow> string \<Rightarrow> int) \<Rightarrow> string \<Rightarrow> millis \<Rightarrow> millis \<Rightarrow> string option \<Rightarrow> usage_db \<Rightarrow>
    (string tally \<times> nat \<times> int) result" where
  "pg_aggregateByHour scale collate u from to apiId db =
    (case assertValidRange (Some from) (Some to) of Inl e \<Rightarrow> Inl e | Inr _ \<Rightarrow>
    (case assertNonEmpty u ''userId'' of Inl e \<Rightarrow> Inl e | Inr u' \<Rightarrow>
      (let rows = filter (\<lambda>r. ur_user_id r = u' \<and> in_range (Some from) (Some to) r \<and> api_filter apiId (ur_api_id r)) (db_events db);
           hour = (\<lambda>r. ur_created_at r div 3600000);
           groups = map (\<lambda>(h, cv). (hour_label (h * 3600000), cv)) (group_rows hour rows) in
       map_inr (\<lambda>bs. (bs, sum_list (map (\<lambda>x. fst (snd x)) bs), sum_list (map (\<lambda>x. snd (snd x)) bs)))
         (map_result (read_group_row scale) (by_label collate groups)))))"

section \<open>The revenue ledger\<close>

record RevenueLedgerUsageEvent =
  le_usageEventId :: string
  le_apiId :: string
  le_amount :: int
  le_createdAt :: millis

definition indexed :: "usage_db \<Rightarrow> usage_row \<Rightarrow> bool" where
  "indexed db r \<longleftrightarrow> ur_id r \<in> lr_usage_event_id ` set (db_ledger db)"

definition mapRevenueLedgerUsageEventRow :: "nat \<Rightarrow> usage_row \<Rightarrow> RevenueLedgerUsageEvent result" where
  "mapRevenueLedgerUsageEventRow scale r = map_inr (\<lambda>a. \<lparr>le_usageEventId = show_int (ur_id r), le_apiId = ur_api_id r, le_amount = a, le_createdAt = ur_created_at r\<rparr>)
     (toBigInt (numeric_text scale (ur_amount r)) ''amount_usdc'')"

definition unindexed_after :: "int \<Rightarrow> nat \<Rightarrow> usage_db \<Rightarrow> usage_row list" where
  "unindexed_after c n db = take n (sort_key ur_id (filter (\<lambda>r. ur_id r > c \<and> \<not> indexed db r) (db_events db)))"

definition findUnindexedRevenueLedgerEvents :: "nat \<Rightarrow> string option \<Rightarrow> rat \<Rightarrow> usage_db \<Rightarrow> RevenueLedgerUsageEvent list result" where
  "findUnindexedRevenueLedgerEvents scale cursor limit db =
    (case normalizeCursor cursor of Inl e \<Rightarrow> Inl e | Inr c \<Rightarrow>
    (case normalizeLimit (Some limit) of Inl e \<Rightarrow> Inl e | Inr n \<Rightarrow>
      if n = Some 0 then Inr []
      else map_result (mapRevenueLedgerUsageEventRow scale) (unindexed_after (case c of None \<Rightarrow> 0 | Some x \<Rightarrow> x) (the n) db)))"

definition indexRevenueLedgerEvent :: "RevenueLedgerUsageEvent \<Rightarrow> string \<Rightarrow> usage_db \<Rightarrow> bool result \<times> usage_db" where
  "indexRevenueLedgerEvent ev dev db =
    (case assertNonEmpty (le_apiId ev) ''apiId'' of Inl e \<Rightarrow> (Inl e, db) | Inr a \<Rightarrow>
    (case assertNonEmpty dev ''developerId'' of Inl e \<Rightarrow> (Inl e, db) | Inr d \<Rightarrow>
    (case assertAmount (le_amount ev) of Inl e \<Rightarrow> (Inl e, db) | Inr am \<Rightarrow>
    (case normalizeCursor (Some (le_usageEventId ev)) of Inl e \<Rightarrow> (Inl e, db) | Inr c \<Rightarrow>
      (let i = the c in
       if i \<in> lr_usage_event_id ` set (db_ledger db) then (Inr False, db)
       else (Inr True, db\<lparr>db_ledger := db_ledger db @ [\<lparr>lr_api_id = a, lr_developer_id = d, lr_amount = am, lr_usage_event_id = i,
             lr_created_at = le_createdAt ev\<rparr>]\<rparr>))))))"

text \<open>\<open>resolveDeveloperId\<close>: \<open>Inl\<close> when the lookup throws.\<close>

definition insertEvent :: "(string \<Rightarrow> string option result) \<Rightarrow> RevenueLedgerUsageEvent \<Rightarrow> usage_db \<Rightarrow> nat result \<times> usage_db" where
  "insertEvent resolve ev db = (case resolve (le_apiId ev) of
       Inl e \<Rightarrow> (Inl e, db)
     | Inr dev \<Rightarrow> if dev = None \<or> dev = Some [] then (Inr 0, db)
         else (case indexRevenueLedgerEvent ev (the dev) db of
             (Inl e, db1) \<Rightarrow> (Inl e, db1) | (Inr b, db1) \<Rightarrow> (Inr (if b then 1 else 0), db1)))"

fun insert_events :: "(string \<Rightarrow> string option result) \<Rightarrow> RevenueLedgerUsageEvent list \<Rightarrow> nat \<Rightarrow> usage_db \<Rightarrow> nat result \<times> usage_db" where
  "insert_events resolve [] n db = (Inr n, db)"
| "insert_events resolve (ev # evs) n db = (case insertEvent resolve ev db of
     (Inl e, db1) \<Rightarrow> (Inl e, db1) | (Inr k, db1) \<Rightarrow> insert_events resolve evs (n + k) db1)"

text \<open>\<open>runOnceInternal\<close>, with the number of batches as fuel; \<open>None\<close> when the fuel runs out.\<close>

fun run_batches :: "nat \<Rightarrow> nat \<Rightarrow> (string \<Rightarrow> string option result) \<Rightarrow> rat \<Rightarrow> string option \<Rightarrow> nat \<Rightarrow> nat \<Rightarrow> usage_db \<Rightarrow>
    ((nat \<times> nat) result \<times> usage_db) option" where
  "run_batches 0 scale resolve batch cursor scanned inserted db = None"
| "run_batches (Suc fuel) scale resolve batch cursor scanned inserted db =
    (case findUnindexedRevenueLedgerEvents scale cursor batch db of
       Inl e \<Rightarrow> Some (Inl e, db)
     | Inr events \<Rightarrow>
        if events = [] then Some (Inr (scanned, inserted), db)
        else (case insert_events resolve events inserted db of
            (Inl e, db1) \<Rightarrow> Some (Inl e, db1)
          | (Inr ins, db1) \<Rightarrow> run_batches fuel scale resolve batch (Some (le_usageEventId (last events))) (scanned + length events) ins db1))"

definition runOnce :: "nat \<Rightarrow> nat \<Rightarrow> (string \<Rightarrow> string option result) \<Rightarrow> rat \<Rightarrow> usage_db \<Rightarrow> ((nat \<times> nat) result \<times> usage_db) option" where
  "runOnce fuel scale resolve batch db = run_batches fuel scale resolve batch None 0 0 db"

section \<open>Reading amounts\<close>

lemma show_nat_set: "c \<in> set (show_nat n) \<Longrightarrow> is_digit c"
  using show_nat_digits [of n] by (simp add: list_all_iff)

lemma minus_char: "\<not> is_digit (CHR ''-'')" "\<not> is_space (CHR ''-'')"
  by (simp_all add: is_digit_def is_space_def)

lemma hd_show_nat: "is_digit (hd (show_nat n))" "is_digit (last (show_nat n))"
  using show_nat_digits [of n] by (simp_all add: list_all_iff)

lemma no_dot: "CHR ''.'' \<notin> set (show_nat n)"
  using show_nat_set [of "CHR ''.''" n] by (auto simp: is_digit_def)

lemma signed_show_int: "signed_digits (show_int n)" "read_signed (show_int n) = n" "show_int n \<noteq> []"
proof -
  have "hd (show_nat m) \<noteq> CHR ''-''" for m using hd_show_nat(1) [of m] minus_char by auto
  then show "signed_digits (show_int n)" "read_signed (show_int n) = n" "show_int n \<noteq> []"
    by (auto simp: show_int_def signed_digits_def read_signed_def show_nat_digits)
qed

lemma show_int_plain: "CHR ''.'' \<notin> set (show_int n)" "\<not> is_space (hd (show_int n))" "\<not> is_space (last (show_int n))"
  using hd_show_nat is_digit_not_dot is_digit_not_space minus_char
  by (auto simp: show_int_def no_dot)

lemma zero_char: "\<not> is_space (CHR ''0'')"
  by (simp add: is_space_def)

lemma trim_numeric: "trim (numeric_text scale n) = numeric_text scale n"
proof (rule trim_id)
  show "numeric_text scale n \<noteq> []" using signed_show_int(3) by (simp add: numeric_text_def)
  show "\<not> is_space (hd (numeric_text scale n))" using signed_show_int(3) show_int_plain(2) by (simp add: numeric_text_def)
  show "\<not> is_space (last (numeric_text scale n))"
    using show_int_plain(3) zero_char signed_show_int(3) by (simp add: numeric_text_def)
qed

lemma takeWhile_show_int: "takeWhile (\<lambda>c. c \<noteq> CHR ''.'') (show_int n @ CHR ''.'' # r) = show_int n"
  and dropWhile_show_int: "dropWhile (\<lambda>c. c \<noteq> CHR ''.'') (show_int n @ CHR ''.'' # r) = CHR ''.'' # r"
  using show_int_plain(1) [of n] by (auto simp: takeWhile_tail dropWhile_append3)

lemma split_numeric:
  "split_dot2 (numeric_text scale n) = (show_int n, if scale = 0 then None else Some (replicate scale (CHR ''0'')))"
proof -
  have "takeWhile (\<lambda>c. c \<noteq> CHR ''.'') (replicate scale (CHR ''0'')) = replicate scale (CHR ''0'')"
    by (simp add: takeWhile_eq_all_conv)
  then show ?thesis
    using show_int_plain(1) [of n] by (simp add: numeric_text_def takeWhile_show_int dropWhile_show_int)
qed

lemma toBigInt_numeric [simp]: "toBigInt (numeric_text scale n) field = Inr n"
  unfolding toBigInt_def trim_numeric split_numeric
  by (auto simp: signed_show_int list_all_iff)

lemma toBigInt_zero [simp]: "toBigInt ''0'' field = Inr 0"
proof -
  have "numeric_text 0 0 = ''0''" by code_simp
  then show ?thesis using toBigInt_numeric [of 0 0 field] by simp
qed

definition event_of :: "usage_row \<Rightarrow> BillingUsageEvent" where
  "event_of r = \<lparr>be_id = show_int (ur_id r), be_userId = ur_user_id r, be_apiId = ur_api_id r, be_endpointId = ur_endpoint_id r,
     be_apiKeyId = ur_api_key_id r, be_developerId = ur_developer_id r, be_amount = ur_amount r, be_requestId = ur_request_id r,
     be_stellarTxHash = ur_stellar_tx_hash r, be_createdAt = ur_created_at r\<rparr>"

lemma mapUsageEventRow_eq [simp]: "mapUsageEventRow scale r = Inr (event_of r)"
  by (simp add: mapUsageEventRow_def event_of_def)

lemma map_result_total [simp]: "(\<And>x. f x = Inr (g x)) \<Longrightarrow> map_result f xs = Inr (map g xs)"
  by (induction xs) auto

lemma map_inr_simps [simp]: "map_inr f (Inr x) = Inr (f x)" "map_inr f (Inl e) = Inl e"
  by (simp_all add: map_inr_def)

lemma read_group_row_eq [simp]: "read_group_row scale x = Inr x"
  by (cases x) (simp add: read_group_row_def)

section \<open>The invariant of the tables\<close>

text \<open>The uniqueness constraints of the migrations, and what \<open>create\<close> checks before it writes.\<close>

definition db_ok :: "usage_db \<Rightarrow> bool" where
  "db_ok db \<longleftrightarrow> distinct (map ur_id (db_events db)) \<and>
     distinct (map (\<lambda>r. (ur_request_id r, ur_developer_id r)) (db_events db)) \<and>
     (\<forall>r \<in> set (db_events db). 0 < ur_id r \<and> ur_id r < db_next db \<and> 0 \<le> ur_amount r \<and> trim (ur_api_id r) \<noteq> []) \<and>
     distinct (map lr_usage_event_id (db_ledger db)) \<and> 0 < db_next db"

definition same_request :: "usage_row \<Rightarrow> usage_row \<Rightarrow> bool" where
  "same_request r x \<longleftrightarrow> ur_request_id x = ur_request_id r \<and> ur_developer_id x = ur_developer_id r"

lemma upsert_cases:
  obtains x where "x \<in> set (db_events db)" "same_request r x" "upsert_event r db = (x, db\<lparr>db_next := db_next db + 1\<rparr>)"
  | n where "n = r\<lparr>ur_id := db_next db\<rparr>" "\<forall>x \<in> set (db_events db). \<not> same_request r x"
    "upsert_event r db = (n, db\<lparr>db_events := db_events db @ [n], db_next := db_next db + 1\<rparr>)"
proof (cases "List.find (\<lambda>x. ur_request_id x = ur_request_id r \<and> ur_developer_id x = ur_developer_id r) (db_events db)")
  case None
  then have "upsert_event r db = (r\<lparr>ur_id := db_next db\<rparr>, db\<lparr>db_events := db_events db @ [r\<lparr>ur_id := db_next db\<rparr>], db_next := db_next db + 1\<rparr>)"
    by (simp add: upsert_event_def Let_def)
  moreover have "\<forall>x \<in> set (db_events db). \<not> same_request r x" using None by (auto simp: find_None_iff same_request_def)
  ultimately show ?thesis using that(2) by blast
next
  case (Some x)
  then have "upsert_event r db = (x, db\<lparr>db_next := db_next db + 1\<rparr>)" by (simp add: upsert_event_def)
  moreover have "x \<in> set (db_events db) \<and> same_request r x" using Some by (auto simp: find_Some_iff same_request_def)
  ultimately show ?thesis using that(1) by blast
qed

lemma upsert_ok:
  assumes "db_ok db" "0 \<le> ur_amount r" "trim (ur_api_id r) \<noteq> []"
  shows "db_ok (snd (upsert_event r db))"
proof (cases rule: upsert_cases [of db r])
  case (1 x)
  with assms(1) show ?thesis by (auto simp: db_ok_def)
next
  case (2 n)
  from assms(1) have "db_next db \<notin> ur_id ` set (db_events db)" by (auto simp: db_ok_def)
  with 2 assms show ?thesis by (auto simp: db_ok_def same_request_def)
qed

definition row_of :: "CreateUsageEventInput \<Rightarrow> millis \<Rightarrow> usage_row" where
  "row_of i now = \<lparr>ur_id = 0, ur_user_id = trim (ci_userId i), ur_api_id = trim (ci_apiId i), ur_endpoint_id = trim (ci_endpointId i),
     ur_api_key_id = trim (ci_apiKeyId i), ur_developer_id = trim (case ci_developerId i of None \<Rightarrow> [] | Some d \<Rightarrow> d), ur_amount = ci_amount i,
     ur_request_id = trim (ci_requestId i), ur_stellar_tx_hash = ci_stellarTxHash i,
     ur_created_at = (case ci_createdAt i of None \<Rightarrow> now | Some t \<Rightarrow> t)\<rparr>"

definition input_ok :: "CreateUsageEventInput \<Rightarrow> bool" where
  "input_ok i \<longleftrightarrow> trim (ci_userId i) \<noteq> [] \<and> trim (ci_apiId i) \<noteq> [] \<and> trim (ci_endpointId i) \<noteq> [] \<and> trim (ci_apiKeyId i) \<noteq> [] \<and>
     trim (ci_requestId i) \<noteq> [] \<and> 0 \<le> ci_amount i"

lemma pg_create_valid:
  "input_ok i \<Longrightarrow> pg_create scale i now db = (Inr (event_of (fst (upsert_event (row_of i now) db))), snd (upsert_event (row_of i now) db))"
  by (simp add: pg_create_def assertNonEmpty_def assertAmount_def input_ok_def row_of_def Let_def split: prod.split)

lemma pg_create_invalid: "\<not> input_ok i \<Longrightarrow> \<exists>e. pg_create scale i now db = (Inl e, db)"
  by (auto simp: pg_create_def assertNonEmpty_def assertAmount_def input_ok_def Let_def)

lemma pg_create_ok: "db_ok db \<Longrightarrow> db_ok (snd (pg_create scale i now db))"
  by (cases "input_ok i")
    (use pg_create_invalid [of i scale now db] in \<open>auto simp: pg_create_valid input_ok_def row_of_def intro!: upsert_ok\<close>)

lemma pg_create_keeps: "\<exists>rs. db_events (snd (pg_create scale i now db)) = db_events db @ rs"
proof (cases "input_ok i")
  case True
  then show ?thesis by (cases rule: upsert_cases [of db "row_of i now"]) (auto simp: pg_create_valid)
next
  case False
  then show ?thesis using pg_create_invalid [of i scale now db] by auto
qed

fun create_all :: "nat \<Rightarrow> (CreateUsageEventInput \<times> millis) list \<Rightarrow> usage_db \<Rightarrow> usage_db" where
  "create_all scale [] db = db"
| "create_all scale ((i, now) # is) db = create_all scale is (snd (pg_create scale i now db))"

lemma create_all_ok: "db_ok db \<Longrightarrow> db_ok (create_all scale is db)"
  by (induction scale "is" db rule: create_all.induct) (auto simp: pg_create_ok)

lemma create_all_keeps: "\<exists>rs. db_events (create_all scale is db) = db_events db @ rs"
proof (induction scale "is" db rule: create_all.induct)
  case (2 scale i now "is" db)
  then show ?case using pg_create_keeps [of scale i now db] by auto
qed simp

lemma same_request_unique:
  "db_ok db \<Longrightarrow> x \<in> set (db_events db) \<Longrightarrow> y \<in> set (db_events db) \<Longrightarrow> same_request x y \<Longrightarrow> x = y"
  by (auto simp: db_ok_def same_request_def distinct_map inj_on_def)

lemma pg_create_recorded:
  assumes "pg_create scale i now db = (Inr ev, db1)"
  shows "input_ok i \<and> (\<exists>x \<in> set (db_events db1). same_request (row_of i now) x \<and> ev = event_of x)"
proof -
  have i: "input_ok i" using assms pg_create_invalid [of i scale now db] by auto
  then show ?thesis
    by (cases rule: upsert_cases [of db "row_of i now"])
      (use assms i in \<open>auto simp: pg_create_valid same_request_def\<close>)
qed

lemma create_again:
  assumes "db_ok db" "x \<in> set (db_events db)" "same_request (row_of i now) x" "input_ok i"
  shows "pg_create scale i now db = (Inr (event_of x), db\<lparr>db_next := db_next db + 1\<rparr>)"
proof (cases rule: upsert_cases [of db "row_of i now"])
  case (1 y)
  then have "same_request x y" using assms(3) by (simp add: same_request_def)
  then have "y = x" using same_request_unique [OF assms(1,2) 1(1)] by simp
  with 1 assms(4) show ?thesis by (simp add: pg_create_valid)
next
  case (2 n)
  with assms(2,3) show ?thesis by blast
qed

section \<open>Recording is idempotent\<close>

text \<open>A usage event is recorded once per request of a developer: whatever else is recorded in between,
  repeating a recorded request with the same developer (up to surrounding white space, and whatever its other fields say) returns the
  event of the first recording and adds no row, and no recorded row is ever changed.\<close>

theorem usage_event_recorded_once:
  assumes "db_ok db" and "pg_create scale i now db = (Inr ev, db1)"
    and "trim (ci_requestId j) = trim (ci_requestId i)"
    and "trim (case ci_developerId j of None \<Rightarrow> [] | Some d \<Rightarrow> d) = trim (case ci_developerId i of None \<Rightarrow> [] | Some d \<Rightarrow> d)"
    and "input_ok j"
  shows "let db2 = create_all scale others db1; (r, db3) = pg_create scale j now2 db2 in
    r = Inr ev \<and> db_events db3 = db_events db2 \<and> db_ok db3 \<and> (\<exists>rs. db_events db3 = db_events db1 @ rs)"
proof -
  let ?db2 = "create_all scale others db1"
  obtain x where x: "x \<in> set (db_events db1)" "same_request (row_of i now) x" "ev = event_of x"
    using pg_create_recorded [OF assms(2)] by blast
  have "db_ok db1" using pg_create_ok [OF assms(1), of scale i now] assms(2) by simp
  then have ok: "db_ok ?db2" by (rule create_all_ok)
  have "x \<in> set (db_events ?db2)" using create_all_keeps [of scale others db1] x(1) by auto
  moreover have "same_request (row_of j now2) x" using x(2) assms(3,4) by (simp add: same_request_def row_of_def)
  ultimately have e: "pg_create scale j now2 ?db2 = (Inr ev, ?db2\<lparr>db_next := db_next ?db2 + 1\<rparr>)"
    using create_again [OF ok] assms(5) x(3) by simp
  have "db_ok (?db2\<lparr>db_next := db_next ?db2 + 1\<rparr>)" using pg_create_ok [OF ok, of scale j now2] e by simp
  then show ?thesis using e create_all_keeps [of scale others db1] by simp
qed

section \<open>The indexer\<close>

lemma normalizeCursor_id: "0 \<le> i \<Longrightarrow> normalizeCursor (Some (show_int i)) = Inr (Some i)"
proof -
  assume i: "0 \<le> i"
  have "trim (show_int i) = show_int i"
    using signed_show_int(3) show_int_plain(2,3) by (intro trim_id)
  then show ?thesis using i show_nat_digits by (simp add: normalizeCursor_def show_int_def Let_def)
qed

lemma normalizeLimit_nat [simp]: "normalizeLimit (Some (of_nat k)) = Inr (Some k)"
  by (simp add: normalizeLimit_def)

text \<open>The developer an event is credited to, when the lookup names one, and the row it gets.\<close>

definition credited :: "(string \<Rightarrow> string option result) \<Rightarrow> usage_row \<Rightarrow> bool" where
  "credited resolve r \<longleftrightarrow> (\<exists>d. resolve (ur_api_id r) = Inr (Some d) \<and> d \<noteq> [])"

definition lookup_ok :: "(string \<Rightarrow> string option result) \<Rightarrow> usage_row \<Rightarrow> bool" where
  "lookup_ok resolve r \<longleftrightarrow> (\<exists>dev. resolve (ur_api_id r) = Inr dev \<and> (dev = None \<or> dev = Some [] \<or> trim (the dev) \<noteq> []))"

definition ledger_of :: "(string \<Rightarrow> string option result) \<Rightarrow> usage_row \<Rightarrow> ledger_row" where
  "ledger_of resolve r = \<lparr>lr_api_id = trim (ur_api_id r), lr_developer_id = trim (the (projr (resolve (ur_api_id r)))),
     lr_amount = ur_amount r, lr_usage_event_id = ur_id r, lr_created_at = ur_created_at r\<rparr>"

definition ledger_event :: "usage_row \<Rightarrow> RevenueLedgerUsageEvent" where
  "ledger_event r = \<lparr>le_usageEventId = show_int (ur_id r), le_apiId = ur_api_id r, le_amount = ur_amount r, le_createdAt = ur_created_at r\<rparr>"

lemma mapRevenue_eq [simp]: "mapRevenueLedgerUsageEventRow scale r = Inr (ledger_event r)"
  by (simp add: mapRevenueLedgerUsageEventRow_def ledger_event_def)

definition row_ok :: "usage_row \<Rightarrow> bool" where
  "row_ok r \<longleftrightarrow> 0 < ur_id r \<and> 0 \<le> ur_amount r \<and> trim (ur_api_id r) \<noteq> []"

abbreviation add_ledger :: "ledger_row list \<Rightarrow> usage_db \<Rightarrow> usage_db" where
  "add_ledger ls db \<equiv> db\<lparr>db_ledger := db_ledger db @ ls\<rparr>"

lemma insertEvent_row:
  assumes "row_ok r" "lookup_ok resolve r" "\<not> indexed db r"
  shows "insertEvent resolve (ledger_event r) db =
    (if credited resolve r then (Inr 1, add_ledger [ledger_of resolve r] db) else (Inr 0, db))"
proof (cases "credited resolve r")
  case True
  then obtain d where d: "resolve (ur_api_id r) = Inr (Some d)" "d \<noteq> []" by (auto simp: credited_def)
  with assms(2) have "trim d \<noteq> []" by (auto simp: lookup_ok_def)
  moreover have "normalizeCursor (Some (show_int (ur_id r))) = Inr (Some (ur_id r))"
    using assms(1) by (intro normalizeCursor_id) (simp add: row_ok_def)
  ultimately show ?thesis using True d assms(1,3)
    by (simp add: insertEvent_def indexRevenueLedgerEvent_def ledger_event_def ledger_of_def assertNonEmpty_def assertAmount_def
        row_ok_def indexed_def Let_def)
next
  case False
  then show ?thesis using assms(2) by (auto simp: insertEvent_def ledger_event_def lookup_ok_def credited_def)
qed

lemma indexed_add: "indexed (add_ledger (map (ledger_of resolve) rs) db) r \<longleftrightarrow> indexed db r \<or> ur_id r \<in> ur_id ` set rs"
  by (simp add: indexed_def image_Un image_image ledger_of_def)

lemma insert_events_rows:
  assumes "\<forall>r \<in> set rs. row_ok r \<and> lookup_ok resolve r \<and> \<not> indexed db r" "distinct (map ur_id rs)"
  shows "insert_events resolve (map ledger_event rs) n db =
    (Inr (n + length (filter (credited resolve) rs)), add_ledger (map (ledger_of resolve) (filter (credited resolve) rs)) db)"
  using assms
proof (induction rs arbitrary: n db)
  case (Cons r rs)
  show ?case
  proof (cases "credited resolve r")
    case True
    have "\<forall>x \<in> set rs. \<not> indexed (add_ledger [ledger_of resolve r] db) x"
      using Cons.prems indexed_add [of db resolve "[r]"] by (auto dest: image_eqI [OF sym])
    then have "insert_events resolve (map ledger_event rs) (n + 1) (add_ledger [ledger_of resolve r] db) =
        (Inr (n + 1 + length (filter (credited resolve) rs)),
         add_ledger (map (ledger_of resolve) (filter (credited resolve) rs)) (add_ledger [ledger_of resolve r] db))"
      using Cons.prems by (intro Cons.IH) auto
    with True Cons.prems show ?thesis by (simp add: insertEvent_row)
  next
    case False
    with Cons show ?thesis by (simp add: insertEvent_row)
  qed
qed simp

lemma unindexed_filter:
  "sort_key ur_id (filter (\<lambda>r. ur_id r > c \<and> \<not> indexed db r) rs) = filter (\<lambda>r. ur_id r > c \<and> \<not> indexed db r) (sort_key ur_id rs)"
  by (simp add: filter_sort)

text \<open>After the batch \<open>take n\<close>, what is left is the rest of the sorted list.\<close>

lemma filter_after_prefix:
  fixes f :: "'a \<Rightarrow> 'b :: linorder"
  assumes "sorted_wrt (<) (map f (xs @ ys))" "xs \<noteq> []" "\<forall>y \<in> set ys. Q y"
  shows "filter (\<lambda>x. f x > f (last xs) \<and> Q x) (xs @ ys) = ys"
proof -
  obtain bs l where xs: "xs = bs @ [l]" using assms(2) by (cases xs rule: rev_cases) auto
  have "\<forall>x \<in> set xs. \<not> f x > f l" "\<forall>y \<in> set ys. f y > f l"
    using assms(1) by (auto simp: xs sorted_wrt_append)
  then show ?thesis using assms(3) by (auto simp: xs filter_empty_conv filter_id_conv)
qed

definition todo :: "int \<Rightarrow> usage_db \<Rightarrow> usage_row list" where
  "todo c db = sort_key ur_id (filter (\<lambda>r. ur_id r > c \<and> \<not> indexed db r) (db_events db))"

lemma todo_sorted: "distinct (map ur_id (db_events db)) \<Longrightarrow> sorted_wrt (<) (map ur_id (todo c db))"
  by (auto simp: todo_def strict_sorted_iff distinct_map inj_on_def)

lemma todo_next:
  assumes "distinct (map ur_id (db_events db))" "0 < n" "todo c db \<noteq> []" "\<forall>r \<in> set (todo c db). c < ur_id r"
  defines "b \<equiv> take n (todo c db)"
  shows "todo (ur_id (last b)) (add_ledger (map (ledger_of resolve) (filter P b)) db) = drop n (todo c db)"
proof -
  let ?db = "add_ledger (map (ledger_of resolve) (filter P b)) db"
  have b: "b \<noteq> []" "todo c db = b @ drop n (todo c db)" using assms(2,3) by (simp_all add: b_def)
  have bl: "last b \<in> set (todo c db)" using b by (metis Un_iff last_in_set set_append)
  have srt: "sorted_wrt (<) (map ur_id (b @ drop n (todo c db)))" using todo_sorted [OF assms(1), of c] b(2) by simp
  have fresh: "\<forall>y \<in> set (drop n (todo c db)). \<not> ur_id y \<in> ur_id ` set (filter P b)"
    using srt by (force simp: sorted_wrt_append)
  have "todo (ur_id (last b)) ?db = sort_key ur_id (filter (\<lambda>r. ur_id r > ur_id (last b) \<and> \<not> ur_id r \<in> ur_id ` set (filter P b))
      (filter (\<lambda>r. ur_id r > c \<and> \<not> indexed db r) (db_events db)))"
  proof -
    have "c < ur_id (last b)" using assms(4) bl by blast
    then show ?thesis unfolding todo_def filter_filter indexed_add
      by (intro arg_cong [where f = "sort_key ur_id"]) (auto intro: filter_cong)
  qed
  also have "\<dots> = filter (\<lambda>r. ur_id r > ur_id (last b) \<and> \<not> ur_id r \<in> ur_id ` set (filter P b)) (b @ drop n (todo c db))"
    unfolding b(2) [symmetric] by (simp only: todo_def filter_sort)
  also have "\<dots> = drop n (todo c db)" by (rule filter_after_prefix [OF srt b(1) fresh])
  finally show ?thesis .
qed

lemma find_unindexed:
  assumes "normalizeCursor cursor = Inr cc" "0 < n"
  shows "findUnindexedRevenueLedgerEvents scale cursor (of_nat n) db = Inr (map ledger_event (take n (todo (case cc of None \<Rightarrow> 0 | Some x \<Rightarrow> x) db)))"
  using assms by (simp add: findUnindexedRevenueLedgerEvents_def unindexed_after_def todo_def)

lemma run_batches_all:
  assumes "db_ok db" "0 < n" "normalizeCursor cursor = Inr cc" "c = (case cc of None \<Rightarrow> 0 | Some x \<Rightarrow> x)"
    and "\<forall>r \<in> set (todo c db). lookup_ok resolve r" "length (todo c db) < fuel"
  shows "run_batches fuel scale resolve (of_nat n) cursor scanned inserted db =
    Some (Inr (scanned + length (todo c db), inserted + length (filter (credited resolve) (todo c db))),
      add_ledger (map (ledger_of resolve) (filter (credited resolve) (todo c db))) db)"
  using assms(1,3-)
proof (induction fuel arbitrary: cursor cc c scanned inserted db)
  case (Suc fuel)
  show ?case
  proof (cases "todo c db = []")
    case True
    then show ?thesis using find_unindexed [OF Suc.prems(2) assms(2), of scale db] Suc.prems(3) by simp
  next
    case False
    let ?b = "take n (todo c db)" and ?rest = "drop n (todo c db)"
    let ?db = "add_ledger (map (ledger_of resolve) (filter (credited resolve) ?b)) db"
    have mem: "r \<in> set (db_events db) \<and> c < ur_id r \<and> \<not> indexed db r" if "r \<in> set (todo c db)" for r
      using that by (auto simp: todo_def)
    have ids: "distinct (map ur_id (db_events db))" and rows: "\<forall>r \<in> set (db_events db). row_ok r"
      using Suc.prems(1) by (auto simp: db_ok_def row_ok_def)
    have bset: "set ?b \<subseteq> set (todo c db)" "set ?rest \<subseteq> set (todo c db)" by (simp_all add: set_take_subset set_drop_subset)
    have "distinct (map ur_id (todo c db))" using todo_sorted [OF ids, of c] by (simp add: strict_sorted_iff)
    then have db: "distinct (map ur_id ?b)" by (metis distinct_take take_map)
    have ins: "insert_events resolve (map ledger_event ?b) inserted db = (Inr (inserted + length (filter (credited resolve) ?b)), ?db)"
      using bset mem rows Suc.prems(4) by (intro insert_events_rows [OF _ db]) blast
    have bne: "?b \<noteq> []" using False assms(2) by simp
    have lst: "last ?b \<in> set (todo c db)" using bne bset(1) last_in_set by blast
    then have "0 < ur_id (last ?b)" using mem rows by (metis row_ok_def)
    then have cur: "normalizeCursor (Some (show_int (ur_id (last ?b)))) = Inr (Some (ur_id (last ?b)))"
      by (intro normalizeCursor_id) simp
    have next_todo: "todo (ur_id (last ?b)) ?db = ?rest"
      using mem by (intro todo_next [OF ids assms(2) False]) simp
    have ok: "db_ok ?db"
    proof -
      have "\<forall>r \<in> set (filter (credited resolve) ?b). \<forall>x \<in> set (db_ledger db). lr_usage_event_id x \<noteq> ur_id r"
      proof (intro ballI notI)
        fix r x assume "r \<in> set (filter (credited resolve) ?b)" "x \<in> set (db_ledger db)" "lr_usage_event_id x = ur_id r"
        moreover from this(1) have "\<not> indexed db r" using bset(1) mem by auto
        ultimately show False by (metis imageI indexed_def)
      qed
      moreover have "map (\<lambda>r. lr_usage_event_id (ledger_of resolve r)) rs = map ur_id rs" for rs by (simp add: ledger_of_def)
      ultimately show ?thesis using Suc.prems(1) distinct_map_filter [OF db]
        by (auto simp: db_ok_def comp_def ledger_of_def)
    qed
    have len: "length ?rest < fuel"
      using Suc.prems(5) assms(2) False length_greater_0_conv [of "todo c db"] unfolding length_drop by linarith
    have "run_batches fuel scale resolve (of_nat n) (Some (show_int (ur_id (last ?b)))) (scanned + length ?b) (inserted + length (filter (credited resolve) ?b)) ?db =
      Some (Inr (scanned + length ?b + length ?rest, inserted + length (filter (credited resolve) ?b) + length (filter (credited resolve) ?rest)),
        add_ledger (map (ledger_of resolve) (filter (credited resolve) ?rest)) ?db)"
      using Suc.IH [OF ok cur, of "ur_id (last ?b)" "scanned + length ?b" "inserted + length (filter (credited resolve) ?b)"]
        Suc.prems(4) bset(2) len unfolding next_todo by (simp add: subset_iff)
    moreover have "le_usageEventId (last (map ledger_event ?b)) = show_int (ur_id (last ?b))"
      using bne by (simp add: last_map ledger_event_def)
    moreover have "todo c db = ?b @ ?rest" by simp
    then have "filter (credited resolve) (todo c db) = filter (credited resolve) ?b @ filter (credited resolve) ?rest"
      by (metis filter_append)
    moreover have "length ?b + length ?rest = length (todo c db)" by simp
    ultimately show ?thesis
      using find_unindexed [OF Suc.prems(2) assms(2), of scale db] bne ins by (simp add: Suc.prems(3) [symmetric] add.assoc del: length_take length_drop)
  qed
qed simp

lemma disjoint_images: "\<forall>x \<in> B. g x \<notin> f ` A \<Longrightarrow> f ` A \<inter> g ` B = {}"
proof (rule ccontr)
  assume a: "\<forall>x \<in> B. g x \<notin> f ` A" "f ` A \<inter> g ` B \<noteq> {}"
  then obtain y where "y \<in> f ` A" "y \<in> g ` B" by blast
  moreover from this(2) obtain x where "x \<in> B" "y = g x" by (rule imageE)
  ultimately show False using a(1) by simp
qed

lemma todo_all: "db_ok db \<Longrightarrow> todo 0 db = sort_key ur_id (filter (\<lambda>r. \<not> indexed db r) (db_events db))"
  unfolding todo_def by (intro arg_cong [where f = "sort_key ur_id"] filter_cong) (auto simp: db_ok_def)

lemma run_once_result:
  assumes "db_ok db" "0 < n" "\<forall>r \<in> set (db_events db). indexed db r \<or> lookup_ok resolve r" "length (db_events db) < fuel"
  shows "runOnce fuel scale resolve (of_nat n) db =
    Some (Inr (length (todo 0 db), length (filter (credited resolve) (todo 0 db))),
      add_ledger (map (ledger_of resolve) (filter (credited resolve) (todo 0 db))) db)"
proof -
  have "length (todo 0 db) \<le> length (db_events db)" by (simp add: todo_def)
  moreover have "\<forall>r \<in> set (todo 0 db). lookup_ok resolve r" using assms(3) by (auto simp: todo_def)
  moreover have "normalizeCursor None = Inr None" by (simp add: normalizeCursor_def)
  ultimately show ?thesis
    using run_batches_all [OF assms(1,2), of None None 0 resolve fuel scale 0 0] assms(4) by (simp add: runOnce_def)
qed

definition newly_credited :: "(string \<Rightarrow> string option result) \<Rightarrow> usage_db \<Rightarrow> usage_row list" where
  "newly_credited resolve db = filter (credited resolve) (todo 0 db)"

lemma ledger_ids_distinct:
  assumes "db_ok db"
  shows "distinct (map lr_usage_event_id (db_ledger db @ map (ledger_of resolve) (newly_credited resolve db)))"
proof -
  have ids: "map lr_usage_event_id (db_ledger db @ map (ledger_of resolve) (newly_credited resolve db)) =
      map lr_usage_event_id (db_ledger db) @ map ur_id (newly_credited resolve db)"
    by (simp add: ledger_of_def)
  have "distinct (map ur_id (todo 0 db))" using assms(1) todo_sorted [of db 0] by (simp add: db_ok_def strict_sorted_iff)
  then have "distinct (map ur_id (newly_credited resolve db))" unfolding newly_credited_def by (rule distinct_map_filter)
  moreover have "\<forall>r \<in> set (newly_credited resolve db). ur_id r \<notin> lr_usage_event_id ` set (db_ledger db)"
    by (auto simp: newly_credited_def todo_def indexed_def)
  then have "set (map lr_usage_event_id (db_ledger db)) \<inter> set (map ur_id (newly_credited resolve db)) = {}"
    unfolding set_map by (rule disjoint_images)
  ultimately show ?thesis unfolding ids distinct_append using assms by (simp add: db_ok_def)
qed

text \<open>C10. A run of the revenue ledger indexer finishes, whatever the batch size, and is exact: it leaves the usage events and the
  existing ledger rows alone and appends, in the order of the event ids, one row with the event's API, amount and
  time for every event that had none and whose API has a developer. Afterwards every such event has exactly one
  ledger row. The counts it reports are the events it looked at and the rows it added. The lookups of developers must not fail.\<close>

theorem ledger_run_complete:
  assumes "db_ok db" "0 < n" "\<forall>r \<in> set (db_events db). indexed db r \<or> lookup_ok resolve r" "length (db_events db) < fuel"
  shows "case runOnce fuel scale resolve (of_nat n) db of None \<Rightarrow> False
    | Some (Inl e, db') \<Rightarrow> False
    | Some (Inr (scanned, inserted), db') \<Rightarrow>
       (let pending = sort_key ur_id (filter (\<lambda>r. \<not> indexed db r) (db_events db)); added = filter (credited resolve) pending in
        db' = db\<lparr>db_ledger := db_ledger db @ map (ledger_of resolve) added\<rparr> \<and>
        scanned = length pending \<and> inserted = length added \<and>
        (\<forall>r \<in> set (db_events db). credited resolve r \<longrightarrow> length (filter (\<lambda>l. lr_usage_event_id l = ur_id r) (db_ledger db')) = 1))"
proof -
  let ?ls = "db_ledger db @ map (ledger_of resolve) (newly_credited resolve db)"
  have one: "length (filter (\<lambda>l. lr_usage_event_id l = i) ls) = 1" if "distinct (map lr_usage_event_id ls)" "i \<in> lr_usage_event_id ` set ls" for i and ls :: "ledger_row list"
    using that by (induction ls) (auto simp: filter_empty_conv dest: image_eqI [OF sym])
  have "ur_id r \<in> lr_usage_event_id ` set ?ls" if "r \<in> set (db_events db)" "credited resolve r" for r
  proof (cases "indexed db r")
    case False
    then have "r \<in> set (newly_credited resolve db)" using that assms(1) by (simp add: newly_credited_def todo_all)
    then have "ledger_of resolve r \<in> set ?ls" by simp
    then show ?thesis by (force simp: ledger_of_def)
  qed (auto simp: indexed_def)
  then have "\<forall>r \<in> set (db_events db). credited resolve r \<longrightarrow> length (filter (\<lambda>l. lr_usage_event_id l = ur_id r) ?ls) = 1"
    using one [OF ledger_ids_distinct [OF assms(1)]] by blast
  then show ?thesis using run_once_result [OF assms, of scale] todo_all [OF assms(1)] by (simp add: Let_def newly_credited_def)
qed

section \<open>The database answers like the in-memory repository\<close>

lemma tally_map: "tally key val (map f xs) = tally (key \<circ> f) (val \<circ> f) xs"
  by (simp add: tally_def fold_map comp_def)

lemma set_tally: "(k, c, v) \<in> set (tally key val es) \<longleftrightarrow> stats key val es k = Some (c, v)"
  using wf_map_get_iff [OF wf_tally, of key val es k "(c, v)"] by (simp add: map_get_tally)

lemma set_group_rows: "(k, c, v) \<in> set (group_rows key rows) \<longleftrightarrow> stats key ur_amount rows k = Some (c, v)"
  by (auto simp: group_rows_def stats_def Let_def filter_empty_conv)

lemma group_rows_tally: "mset (group_rows key rows) = mset (tally key ur_amount rows)"
proof (rule set_eq_iff_mset_eq_distinct [THEN iffD1])
  show "distinct (group_rows key rows)" by (simp add: group_rows_def distinct_map inj_on_def)
  show "distinct (tally key ur_amount rows)" by (metis distinct_map wf_tally)
  show "set (group_rows key rows) = set (tally key ur_amount rows)" by (auto simp: set_group_rows set_tally)
qed

lemma stats_inj:
  assumes "inj_on L (key ` set rows)" "k \<in> key ` set rows"
  shows "stats (\<lambda>r. L (key r)) val rows (L k) = stats key val rows k"
proof -
  have "filter (\<lambda>r. L (key r) = L k) rows = filter (\<lambda>r. key r = k) rows"
    using assms by (intro filter_cong) (auto dest: inj_onD)
  then show ?thesis by (simp add: stats_def)
qed

lemma stats_key: "stats key val rows k = Some x \<Longrightarrow> k \<in> key ` set rows"
  by (auto simp: stats_def Let_def filter_empty_conv split: if_splits)

lemma group_rows_relabel:
  fixes L :: "'k \<Rightarrow> 'l"
  assumes "inj_on L (key ` set rows)"
  shows "mset (map (\<lambda>(k, cv). (L k, cv)) (group_rows key rows)) = mset (tally (\<lambda>r. L (key r)) ur_amount rows)"
proof -
  let ?f = "\<lambda>(k, cv). (L k, cv)"
  have "distinct (map ?f (group_rows key rows))"
    using assms by (auto simp: group_rows_def distinct_map inj_on_def)
  moreover have "set (map ?f (group_rows key rows)) = set (tally (\<lambda>r. L (key r)) ur_amount rows)"
  proof (intro set_eqI)
    fix x :: "'l \<times> nat \<times> int"
    obtain l c v where x: "x = (l, c, v)" by (cases x)
    have "x \<in> set (map ?f (group_rows key rows)) \<longleftrightarrow> (\<exists>k. l = L k \<and> stats key ur_amount rows k = Some (c, v))"
      by (force simp: x set_group_rows)
    also have "\<dots> \<longleftrightarrow> stats (\<lambda>r. L (key r)) ur_amount rows l = Some (c, v)"
    proof
      assume "\<exists>k. l = L k \<and> stats key ur_amount rows k = Some (c, v)"
      then show "stats (\<lambda>r. L (key r)) ur_amount rows l = Some (c, v)" using stats_inj [OF assms] stats_key by metis
    next
      assume a: "stats (\<lambda>r. L (key r)) ur_amount rows l = Some (c, v)"
      then have "l \<in> (\<lambda>r. L (key r)) ` set rows" by (rule stats_key)
      then obtain r where r: "r \<in> set rows" "l = L (key r)" by blast
      with a stats_inj [OF assms, of "key r"] show "\<exists>k. l = L k \<and> stats key ur_amount rows k = Some (c, v)" by auto
    qed
    finally show "x \<in> set (map ?f (group_rows key rows)) \<longleftrightarrow> x \<in> set (tally (\<lambda>r. L (key r)) ur_amount rows)"
      by (simp add: x set_tally)
  qed
  moreover have "distinct (tally (\<lambda>r. L (key r)) ur_amount rows)" by (metis distinct_map wf_tally)
  ultimately show ?thesis by (simp only: set_eq_iff_mset_eq_distinct)
qed

abbreviation year_ok :: "millis \<Rightarrow> bool" where
  "year_ok t \<equiv> 0 \<le> getUTCFullYear t \<and> getUTCFullYear t \<le> 9999"

lemma two_digits_inj: "0 \<le> a \<Longrightarrow> 0 \<le> b \<Longrightarrow> two_digits a = two_digits b \<Longrightarrow> a = b"
  by (metis nat_eq_iff2 read_nat_padStart read_show_nat two_digits_def)

lemma iso_day_ok:
  assumes "year_ok t"
  obtains y m d where "civil (day_of t) = (y, m, d)" "utc_day y m d = day_of t" "length (iso_year y) = 4"
    "length (two_digits (int m + 1)) = 2" "length (two_digits d) = 2" "0 \<le> y" "y \<le> 9999" "0 \<le> d"
proof -
  obtain y m d where c: "civil (day_of t) = (y, m, d)" "valid_date y m d" "utc_day y m d = day_of t" by (rule civil_valid)
  have y: "0 \<le> y" "y \<le> 9999" using assms c by (auto simp: getUTCFullYear_def)
  then have "length (iso_year y) = 4" using show_nat_length [of "nat y" 4] by (simp add: iso_year_def length_padStart)
  moreover have d: "0 \<le> d" "d \<le> 31" using c(2) month_lengths_bounds [of "month_lengths y ! m" y] by (auto simp: valid_date_def)
  moreover have "length (two_digits (int m + 1)) = 2" "length (two_digits d) = 2"
    using c(2) d by (auto simp: valid_date_def intro!: length_two_digits)
  ultimately show ?thesis using that c y by blast
qed

lemma length_iso_day: "year_ok t \<Longrightarrow> length (iso_day (day_of t)) = 10"
  by (erule iso_day_ok) (simp add: iso_day_def)

lemma iso_day_inj:
  assumes "year_ok s" "year_ok t" "iso_day (day_of s) = iso_day (day_of t)"
  shows "day_of s = day_of t"
proof -
  obtain y m d where s: "civil (day_of s) = (y, m, d)" "utc_day y m d = day_of s" "length (iso_year y) = 4"
    "length (two_digits (int m + 1)) = 2" "0 \<le> y" "y \<le> 9999" "0 \<le> d" by (rule iso_day_ok [OF assms(1)])
  obtain y' m' d' where t: "civil (day_of t) = (y', m', d')" "utc_day y' m' d' = day_of t" "length (iso_year y') = 4"
    "length (two_digits (int m' + 1)) = 2" "0 \<le> y'" "y' \<le> 9999" "0 \<le> d'" by (rule iso_day_ok [OF assms(2)])
  have "iso_year y = iso_year y'" "two_digits (int m + 1) = two_digits (int m' + 1)" "two_digits d = two_digits d'"
    using assms(3) s(1,3,4) t(1,3,4) by (auto simp: iso_day_def)
  moreover from this(1) have "y = y'" using s(5,6) t(5,6)
    by (metis iso_year_def nat_eq_iff2 read_nat_padStart read_show_nat)
  ultimately have "m = m'" "d = d'" using s(7) t(7) two_digits_inj [of "int m + 1" "int m' + 1"] two_digits_inj [of d d'] by auto
  with \<open>y = y'\<close> s(2) t(2) show ?thesis by simp
qed

definition hour_of :: "millis \<Rightarrow> int" where
  "hour_of t = t div 3600000"

lemma day_of_hour: "day_of t = hour_of t div 24"
proof -
  have "t div (3600000 * 24) = t div 3600000 div 24" by (rule zdiv_zmult2_eq) simp
  then show ?thesis by (simp add: day_of_def hour_of_def DAY_MS_def)
qed

lemma hour_of_day: "t mod DAY_MS div 3600000 = hour_of t mod 24"
proof -
  have "t mod (3600000 * 24) = 3600000 * (t div 3600000 mod 24) + t mod 3600000" by (rule zmod_zmult2_eq) simp
  then show ?thesis by (simp add: hour_of_def DAY_MS_def)
qed

lemma hour_of_start [simp]: "hour_of (h * 3600000) = h"
  by (simp add: hour_of_def)

lemma hour_period:
  assumes "year_ok t"
  shows "getPeriodString t ByHour = hour_label (hour_of t * 3600000)"
proof -
  have two: "length (two_digits (hour_of t mod 24)) = 2" by (intro length_two_digits) auto
  have "take 13 (toISOString t) = iso_day (day_of t) @ ''T'' @ two_digits (hour_of t mod 24)"
    using length_iso_day [OF assms] two by (simp add: toISOString_def iso_time_def hour_of_day)
  then show ?thesis
    by (simp add: getPeriodString_def hour_label_def hour_of_day day_of_hour [of "hour_of t * 3600000"] day_of_hour [of t, symmetric])
qed

lemma hour_label_inj:
  assumes "year_ok s" "year_ok t" "hour_label (hour_of s * 3600000) = hour_label (hour_of t * 3600000)"
  shows "hour_of s = hour_of t"
proof -
  have l: "length (two_digits (hour_of x mod 24)) = 2" for x by (intro length_two_digits) auto
  have h: "hour_label (hour_of x * 3600000) = iso_day (day_of x) @ ''T'' @ two_digits (hour_of x mod 24) @ '':00:00.000Z''" for x
    by (simp add: hour_label_def hour_of_day day_of_hour [of "hour_of x * 3600000"] day_of_hour [of x, symmetric])
  from assms(3) length_iso_day [OF assms(1)] length_iso_day [OF assms(2)] l
  have "iso_day (day_of s) = iso_day (day_of t)" "two_digits (hour_of s mod 24) = two_digits (hour_of t mod 24)"
    unfolding h by auto
  then have "day_of s = day_of t" "hour_of s mod 24 = hour_of t mod 24"
    using iso_day_inj [OF assms(1,2)] two_digits_inj [of "hour_of s mod 24" "hour_of t mod 24"] by auto
  then show ?thesis by (metis day_of_hour mult_div_mod_eq)
qed

lemma hour_labels_inj: "\<forall>r \<in> set rows. year_ok (ur_created_at r) \<Longrightarrow>
  inj_on (\<lambda>h. hour_label (h * 3600000)) ((\<lambda>r. hour_of (ur_created_at r)) ` set rows)"
  by (auto simp: inj_on_def intro: hour_label_inj)

definition event_rows :: "usage_db \<Rightarrow> UsageEvent list" where
  "event_rows db = map (\<lambda>r. as_usage_event (event_of r)) (db_events db)"

definition user_row :: "string \<Rightarrow> millis \<Rightarrow> millis \<Rightarrow> string option \<Rightarrow> usage_row \<Rightarrow> bool" where
  "user_row u from to apiId r \<longleftrightarrow> ur_user_id r = u \<and> in_range (Some from) (Some to) r \<and> api_filter apiId (ur_api_id r)"

lemma events_of_user:
  "filter (of_user u from to apiId) (event_rows db) = map (\<lambda>r. as_usage_event (event_of r)) (filter (user_row u from to apiId) (db_events db))"
  unfolding event_rows_def filter_map
  by (intro arg_cong [where f = "map _"] filter_cong) (auto simp: of_user_def user_row_def in_range_def as_usage_event_def event_of_def)

lemma event_fields [simp]:
  "ue_endpoint (as_usage_event (event_of r)) = ur_endpoint_id r" "ue_revenue (as_usage_event (event_of r)) = ur_amount r"
  "ue_occurredAt (as_usage_event (event_of r)) = ur_created_at r" "ue_apiId (as_usage_event (event_of r)) = ur_api_id r"
  by (simp_all add: as_usage_event_def event_of_def)

definition busier :: "string \<times> nat \<times> int \<Rightarrow> string \<times> nat \<times> int \<Rightarrow> bool" where
  "busier a b \<longleftrightarrow> fst (snd b) < fst (snd a) \<or> fst (snd b) = fst (snd a) \<and> fst a < fst b"

lemma busier_order: "transp busier" "asymp busier"
  by (auto simp: busier_def intro!: transpI asympI)

lemma busiest_first_iff:
  assumes "locale_ok lc ids" "fst a \<in> ids" "fst b \<in> ids" "fst a \<noteq> fst b"
  shows "busiest_first lc a b \<le> 0 \<longleftrightarrow> busier a b" "busier a b \<or> busier b a"
  using locale_ok_iff [OF assms] assms(4) by (auto simp: busiest_first_def busier_def)

lemma top_endpoints_agree:
  assumes "locale_ok lc (ur_endpoint_id ` set rows)" "locale_ok collate (ur_endpoint_id ` set rows)"
  shows "sort_by (busiest_first collate) (group_rows ur_endpoint_id rows) = sort_by (busiest_first lc) (tally ur_endpoint_id ur_amount rows)"
proof (rule sort_by_perm [OF busier_order group_rows_tally])
  show "distinct (group_rows ur_endpoint_id rows)" by (simp add: group_rows_def distinct_map inj_on_def)
  show "\<forall>a \<in> set (group_rows ur_endpoint_id rows). \<forall>b \<in> set (group_rows ur_endpoint_id rows). a \<noteq> b \<longrightarrow>
    (busiest_first collate a b \<le> 0) = busier a b \<and> (busiest_first lc a b \<le> 0) = busier a b \<and> (busier a b \<or> busier b a)"
  proof (intro ballI impI)
  fix a b assume ab: "a \<in> set (group_rows ur_endpoint_id rows)" "b \<in> set (group_rows ur_endpoint_id rows)" "a \<noteq> b"
  then have "fst a \<in> ur_endpoint_id ` set rows" "fst b \<in> ur_endpoint_id ` set rows" "fst a \<noteq> fst b"
    by (auto simp: group_rows_def)
  then show "(busiest_first collate a b \<le> 0) = busier a b \<and> (busiest_first lc a b \<le> 0) = busier a b \<and> (busier a b \<or> busier b a)"
    using busiest_first_iff assms by blast
  qed
qed

lemma hours_agree:
  assumes "\<forall>r \<in> set rows. year_ok (ur_created_at r)"
    and "locale_ok lc ((\<lambda>r. getPeriodString (ur_created_at r) ByHour) ` set rows)"
    and "locale_ok collate ((\<lambda>r. getPeriodString (ur_created_at r) ByHour) ` set rows)"
  shows "by_label collate (map (\<lambda>(h, cv). (hour_label (h * 3600000), cv)) (group_rows (\<lambda>r. hour_of (ur_created_at r)) rows)) =
    by_label lc (tally (\<lambda>r. getPeriodString (ur_created_at r) ByHour) ur_amount rows)"
proof -
  let ?p = "\<lambda>r. getPeriodString (ur_created_at r) ByHour"
  let ?g = "map (\<lambda>(h, cv). (hour_label (h * 3600000), cv)) (group_rows (\<lambda>r. hour_of (ur_created_at r)) rows)"
  have "tally (\<lambda>r. hour_label (hour_of (ur_created_at r) * 3600000)) ur_amount rows = tally ?p ur_amount rows"
    unfolding tally_def using assms(1) by (intro fold_cong) (auto simp: hour_period)
  then have m: "mset ?g = mset (tally ?p ur_amount rows)"
    using group_rows_relabel [OF hour_labels_inj [OF assms(1)]] by simp
  have "mset (map fst ?g) = mset (map fst (tally ?p ur_amount rows))" using arg_cong [OF m, of "image_mset fst"] by (simp only: mset_map)
  then have d: "distinct (map fst ?g)" using wf_tally [of ?p ur_amount rows] mset_eq_imp_distinct_iff by blast
  have k: "fst ` set ?g = ?p ` set rows" using mset_eq_setD [OF m] keys_tally [of ?p ur_amount rows] by simp
  show ?thesis unfolding by_label_def
  proof (rule sort_by_perm [OF label_less_order m])
    show "distinct ?g" using d by (rule distinct_map [THEN iffD1, THEN conjunct1])
    show "\<forall>a \<in> set ?g. \<forall>b \<in> set ?g. a \<noteq> b \<longrightarrow> (collate (fst a) (fst b) \<le> 0) = label_less a b \<and>
      (lc (fst a) (fst b) \<le> 0) = label_less a b \<and> (label_less a b \<or> label_less b a)"
    proof (intro ballI impI)
    fix a b assume ab: "a \<in> set ?g" "b \<in> set ?g" "a \<noteq> b"
    then have "fst a \<noteq> fst b" using d by (metis distinct_map inj_onD)
    moreover have "fst a \<in> ?p ` set rows" "fst b \<in> ?p ` set rows" using ab k by blast+
    ultimately show "(collate (fst a) (fst b) \<le> 0) = label_less a b \<and> (lc (fst a) (fst b) \<le> 0) = label_less a b \<and> (label_less a b \<or> label_less b a)"
      using locale_ok_iff [OF assms(2), of "fst a" "fst b"] locale_ok_iff [OF assms(3), of "fst a" "fst b"] by (auto simp: label_less_def)
    qed
  qed
qed

text \<open>The repository over Postgres answers like the in-memory one: for a trimmed user id and a range that is not empty, the hourly
  aggregation and the busiest endpoints computed by the database are exactly those the in-memory repository computes from
  the same events. The comparison \<open>localeCompare\<close> and the database's collation must order the labels and endpoint names at hand
  like their code units, and the dates lie in the years 0 to 9999.\<close>

theorem pg_aggregations_agree:
  assumes "trim u = u" "u \<noteq> []" "from \<le> to" "\<forall>r \<in> set (db_events db). year_ok (ur_created_at r)"
    and "\<forall>cmp \<in> {lc, collate}. locale_ok cmp ((\<lambda>r. getPeriodString (ur_created_at r) ByHour) ` set (db_events db)) \<and>
      locale_ok cmp (ur_endpoint_id ` set (db_events db))"
  shows "pg_aggregateByHour scale collate u from to apiId db = Inr (aggregateByHour lc u from to apiId (event_rows db)) \<and>
    pg_getTopEndpoints scale collate u from to apiId (of_nat k) db = Inr (getTopEndpoints lc u from to apiId (int k) (event_rows db))"
proof -
  let ?rows = "filter (user_row u from to apiId) (db_events db)"
  have sub: "locale_ok c (f ` set ?rows)" if "locale_ok c (f ` set (db_events db))" for c f
    using that by (auto simp: locale_ok_def)
  have rows: "filter (\<lambda>r. ur_user_id r = u \<and> in_range (Some from) (Some to) r \<and> api_filter apiId (ur_api_id r)) (db_events db) = ?rows"
    by (simp add: user_row_def [abs_def])
  have hours: "by_label collate (map (\<lambda>(h, cv). (hour_label (h * 3600000), cv)) (group_rows (\<lambda>r. ur_created_at r div 3600000) ?rows)) =
      by_label lc (tally (\<lambda>r. getPeriodString (ur_created_at r) ByHour) ur_amount ?rows)"
    using assms(4,5) sub by (intro hours_agree [unfolded hour_of_def]) auto
  have tops: "sort_by (busiest_first collate) (group_rows ur_endpoint_id ?rows) = sort_by (busiest_first lc) (tally ur_endpoint_id ur_amount ?rows)"
    using assms(5) sub by (intro top_endpoints_agree) auto
  have sums: "sum_list (map (\<lambda>x. fst (snd x)) (by_label c m)) = sum_list (map (\<lambda>x. fst (snd x)) m)"
    "sum_list (map (\<lambda>x. snd (snd x)) (by_label c m)) = sum_list (map (\<lambda>x. snd (snd x)) m)" for c and m :: "string tally"
    by (simp_all add: by_label_def)
  have valid: "assertValidRange (Some from) (Some to) = Inr ()" "assertNonEmpty u ''userId'' = Inr u"
    using assms(1-3) by (simp_all add: assertValidRange_def assertNonEmpty_def)
  have "pg_aggregateByHour scale collate u from to apiId db = Inr (aggregateByHour lc u from to apiId (event_rows db))"
    unfolding pg_aggregateByHour_def valid rows aggregateByHour_eq events_of_user
    by (simp add: rows hours Let_def tally_map comp_def) (simp add: sums sum_tally)
  moreover have "pg_getTopEndpoints scale collate u from to apiId (of_nat k) db = Inr (getTopEndpoints lc u from to apiId (int k) (event_rows db))"
    unfolding pg_getTopEndpoints_def valid rows getTopEndpoints_def events_of_user
    by (simp add: rows tops Let_def slice0_def tally_map comp_def)
  ultimately show ?thesis ..
qed

section \<open>Forward pages\<close>

definition older :: "usage_row \<Rightarrow> usage_row \<Rightarrow> bool" where
  "older a b \<longleftrightarrow> ur_created_at a < ur_created_at b \<or> ur_created_at a = ur_created_at b \<and> ur_id a < ur_id b"

lemma older_order: "transp older" "asymp older"
  by (auto simp: older_def intro!: transpI asympI)

lemma oldest_rows_total:
  assumes "distinct (map ur_id rows)"
  shows "\<forall>a \<in> set rows. \<forall>b \<in> set rows. a \<noteq> b \<longrightarrow> (oldest_rows a b \<le> 0) = older a b \<and> (older a b \<or> older b a)"
proof (intro ballI impI)
  fix a b assume "a \<in> set rows" "b \<in> set rows" "a \<noteq> b"
  with assms have "ur_id a \<noteq> ur_id b" by (metis distinct_map inj_onD)
  then show "(oldest_rows a b \<le> 0) = older a b \<and> (older a b \<or> older b a)"
    by (auto simp: oldest_rows_def newest_rows_def older_def)
qed

lemma oldest_rows_sorted: "distinct (map ur_id rows) \<Longrightarrow> sorted_wrt older (sort_by oldest_rows rows)"
  by (rule sort_by_sorted [OF older_order(1) oldest_rows_total]) (simp_all add: distinct_map)

lemma oldest_rows_filter:
  "distinct (map ur_id rows) \<Longrightarrow> sort_by oldest_rows (filter P rows) = filter P (sort_by oldest_rows rows)"
  by (rule sort_by_filter [OF older_order _ oldest_rows_total]) (simp_all add: distinct_map)

text \<open>A client of the forward listing: the cursor of a page is sent back as \<open>after\<close>, its id read as a number. The page is the
  events and the next cursor; a refused request is an empty page.\<close>

definition forward_fetch :: "nat \<Rightarrow> string \<Rightarrow> millis option \<Rightarrow> millis option \<Rightarrow> nat \<Rightarrow> usage_db \<Rightarrow> cursor option \<Rightarrow> BillingUsageEvent list \<times> cursor option" where
  "forward_fetch scale u from to k db c =
    (case pg_findByUserIdCursor scale u from to (of_nat k) (map_option (\<lambda>(t, i). (t, read_signed i)) c) None db of
       Inl e \<Rightarrow> ([], None) | Inr (es, nx, _) \<Rightarrow> (es, nx))"

definition user_listing :: "string \<Rightarrow> millis option \<Rightarrow> millis option \<Rightarrow> usage_db \<Rightarrow> usage_row list" where
  "user_listing u from to db = sort_by oldest_rows (filter (\<lambda>r. ur_user_id r = trim u \<and> in_range from to r) (db_events db))"

definition event_cursor :: "BillingUsageEvent \<Rightarrow> cursor" where
  "event_cursor b = (be_createdAt b, be_id b)"

definition paging_ok :: "string \<Rightarrow> millis option \<Rightarrow> millis option \<Rightarrow> nat \<Rightarrow> usage_db \<Rightarrow> bool" where
  "paging_ok u from to k db \<longleftrightarrow> 0 < k \<and> trim u \<noteq> [] \<and> assertValidRange from to = Inr () \<and> distinct (map ur_id (db_events db))"

lemma forward_page:
  assumes "paging_ok u from to k db"
  shows "forward_fetch scale u from to k db c = page k event_cursor (map event_of
    (case c of None \<Rightarrow> user_listing u from to db
     | Some (t, i) \<Rightarrow> filter (\<lambda>r. ur_created_at r > t \<or> ur_created_at r = t \<and> ur_id r > read_signed i) (user_listing u from to db)))"
proof -
  define keep where "keep r = (case c of None \<Rightarrow> True | Some (t, i) \<Rightarrow> ur_created_at r > t \<or> ur_created_at r = t \<and> ur_id r > read_signed i)" for r :: usage_row
  define rs where "rs = filter keep (user_listing u from to db)"
  have sel: "sort_by oldest_rows (filter (\<lambda>r. ur_user_id r = trim u \<and> in_range from to r \<and> keep r) (db_events db)) = rs"
    using assms oldest_rows_filter [of "filter (\<lambda>r. ur_user_id r = trim u \<and> in_range from to r) (db_events db)" keep]
    by (simp add: rs_def user_listing_def paging_ok_def distinct_map_filter conj_assoc)
  have cur: "(\<lambda>b. (be_createdAt b, be_id b)) = event_cursor" by (auto simp: event_cursor_def)
  have "forward_fetch scale u from to k db c = page k event_cursor (map event_of rs)"
    using assms sel
    by (cases c) (auto simp: forward_fetch_def pg_findByUserIdCursor_def paging_ok_def assertNonEmpty_def Let_def keep_def
        page_def take_map cur min_def split: if_splits)
  moreover have "rs = (case c of None \<Rightarrow> user_listing u from to db
     | Some (t, i) \<Rightarrow> filter (\<lambda>r. ur_created_at r > t \<or> ur_created_at r = t \<and> ur_id r > read_signed i) (user_listing u from to db))"
    by (cases c) (auto simp: rs_def keep_def [abs_def])
  ultimately show ?thesis by simp
qed

interpretation usage_pages: cursor_pages "forward_fetch scale u from to k db" "map event_of (user_listing u from to db)" event_cursor k
  "paging_ok u from to k db"
proof
  show "forward_fetch scale u from to k db None = page k event_cursor (map event_of (user_listing u from to db))"
    if "paging_ok u from to k db"
    using forward_page [OF that, of scale None] by simp
  show "forward_fetch scale u from to k db (Some (event_cursor y)) = page k event_cursor zs"
    if ok: "paging_ok u from to k db" and l: "map event_of (user_listing u from to db) = xs @ y # zs" for xs y zs
  proof -
    obtain as b cs where abc: "user_listing u from to db = as @ b # cs" "y = event_of b" "zs = map event_of cs"
      using l by (auto simp: map_eq_append_conv)
    have "distinct (map ur_id (filter (\<lambda>r. ur_user_id r = trim u \<and> in_range from to r) (db_events db)))"
      using ok by (simp add: paging_ok_def distinct_map_filter)
    from oldest_rows_sorted [OF this] have "sorted_wrt older (as @ b # cs)" using abc(1) by (simp add: user_listing_def)
    then have "filter (older b) (user_listing u from to db) = cs" unfolding abc(1) by (rule filter_suffix [OF older_order(2)])
    then have "filter (\<lambda>r. ur_created_at r > ur_created_at b \<or> ur_created_at r = ur_created_at b \<and> ur_id r > ur_id b) (user_listing u from to db) = cs"
      by (simp add: older_def [abs_def] eq_commute)
    then show ?thesis
      using forward_page [OF ok, of scale "Some (event_cursor y)"] abc(2,3) by (simp add: event_cursor_def event_of_def signed_show_int)
  qed
  show "0 < k" if "paging_ok u from to k db" using that by (simp add: paging_ok_def)
qed

text \<open>A client that follows the cursors of the forward listing of a user's events sees every event of the range exactly once, oldest first,
  whatever the page size.\<close>

theorem usage_pages_complete:
  assumes "paging_ok u from to k db" "length (user_listing u from to db) < n"
  shows "walk_pages (forward_fetch scale u from to k db) n None = map event_of (user_listing u from to db)"
  using assms by (intro usage_pages.walk_all) simp_all

section \<open>Witnesses\<close>

definition demo_input :: "string \<Rightarrow> int \<Rightarrow> CreateUsageEventInput" where
  "demo_input rid a = \<lparr>ci_userId = ''u'', ci_apiId = ''a'', ci_endpointId = ''e'', ci_apiKeyId = ''k'', ci_developerId = Some ''d'',
     ci_amount = a, ci_requestId = rid, ci_stellarTxHash = None, ci_createdAt = None\<rparr>"

definition empty_db :: usage_db where
  "empty_db = \<lparr>db_events = [], db_ledger = [], db_next = 1\<rparr>"

definition demo_row :: "int \<Rightarrow> string \<Rightarrow> usage_row" where
  "demo_row i a = \<lparr>ur_id = i, ur_user_id = ''u'', ur_api_id = a, ur_endpoint_id = ''e'', ur_api_key_id = ''k'', ur_developer_id = ''d'',
     ur_amount = 5, ur_request_id = show_int i, ur_stellar_tx_hash = None, ur_created_at = 1700000000000\<rparr>"

definition demo_db :: usage_db where
  "demo_db = \<lparr>db_events = [demo_row 1 ''a'', demo_row 2 ''b''], db_ledger = [], db_next = 3\<rparr>"

lemma trim_char: "\<not> is_space c \<Longrightarrow> trim [c] = [c]"
  by (rule trim_id) simp_all

lemma demo_trim [simp]: "trim ''u'' = ''u''" "trim ''a'' = ''a''" "trim ''b'' = ''b''" "trim ''e'' = ''e''" "trim ''k'' = ''k''" "trim ''d'' = ''d''"
  "trim ''r'' = ''r''" "trim ''7'' = ''7''"
  by (rule trim_char, simp add: is_space_def)+

lemma demo_db_ok: "db_ok demo_db" "db_ok empty_db"
  by (auto simp: db_ok_def demo_db_def demo_row_def empty_db_def show_int_def show_nat.simps digit_char_def)

definition demo_resolve :: "string \<Rightarrow> string option result" where
  "demo_resolve a = Inr (if a = ''a'' then Some ''7'' else None)"

theorem usage_event_recorded_once_witness:
  "\<exists>ev db1. pg_create 7 (demo_input ''r'' 5) 10 empty_db = (Inr ev, db1) \<and>
    fst (pg_create 7 (demo_input ''r'' 9) 30 (create_all 7 [(demo_input ''q'' 1, 20)] db1)) = Inr ev"
proof -
  have ok: "input_ok (demo_input ''r'' a)" if "0 \<le> a" for a using that by (simp add: input_ok_def demo_input_def)
  obtain ev db1 where c: "pg_create 7 (demo_input ''r'' 5) 10 empty_db = (Inr ev, db1)" using pg_create_valid [OF ok [of 5]] by auto
  have "fst (pg_create 7 (demo_input ''r'' 9) 30 (create_all 7 [(demo_input ''q'' 1, 20)] db1)) = Inr ev"
    using usage_event_recorded_once [OF demo_db_ok(2) c _ _ ok [of 9], of "[(demo_input ''q'' 1, 20)]" 30]
    by (simp add: demo_input_def Let_def case_prod_beta)
  with c show ?thesis by blast
qed

theorem ledger_run_complete_witness:
  "\<exists>db'. runOnce 3 7 demo_resolve (of_nat 1) demo_db = Some (Inr (2, 1), db') \<and> db_ledger db' = [ledger_of demo_resolve (demo_row 1 ''a'')]"
proof -
  have l: "\<forall>r \<in> set (db_events demo_db). indexed demo_db r \<or> lookup_ok demo_resolve r"
    by (simp add: demo_db_def lookup_ok_def demo_resolve_def demo_row_def)
  have "length (db_events demo_db) < 3" by (simp add: demo_db_def)
  note run = ledger_run_complete [OF demo_db_ok(1) _ l this, of 1 7]
  have p: "sort_key ur_id (filter (\<lambda>r. \<not> indexed demo_db r) (db_events demo_db)) = [demo_row 1 ''a'', demo_row 2 ''b'']"
    by (simp add: demo_db_def demo_row_def indexed_def)
  have led: "db_ledger demo_db = []" by (simp add: demo_db_def)
  have c: "credited demo_resolve (demo_row 1 ''a'')" "\<not> credited demo_resolve (demo_row 2 ''b'')"
    by (simp_all add: credited_def demo_resolve_def demo_row_def)
  show ?thesis
  proof (cases "runOnce 3 7 demo_resolve (of_nat 1) demo_db")
    case (Some x)
    then obtain r db' where x: "x = (r, db')" by (cases x)
    then show ?thesis using run Some c by (cases r) (auto simp: p Let_def led)
  qed (use run in simp)
qed

lemma demo_years: "\<forall>r \<in> set (db_events demo_db). year_ok (ur_created_at r)"
proof -
  have "getUTCFullYear 1700000000000 = 2023" by code_simp
  then show ?thesis by (simp add: demo_db_def demo_row_def)
qed

theorem pg_aggregations_agree_witness:
  "pg_getTopEndpoints 7 code_unit_order ''u'' 0 1800000000000 None (of_nat 5) demo_db =
     Inr (getTopEndpoints code_unit_order ''u'' 0 1800000000000 None (int 5) (event_rows demo_db))"
  using pg_aggregations_agree [of "''u''" 0 1800000000000 demo_db code_unit_order code_unit_order 7 None 5] demo_years code_unit_order_ok by auto

theorem usage_pages_complete_witness:
  "walk_pages (forward_fetch 7 ''u'' None None 1 demo_db) 3 None = [event_of (demo_row 1 ''a''), event_of (demo_row 2 ''b'')]"
proof -
  have "paging_ok ''u'' None None 1 demo_db"
    by (simp add: paging_ok_def assertValidRange_def demo_db_def demo_row_def)
  moreover have "user_listing ''u'' None None demo_db = [demo_row 1 ''a'', demo_row 2 ''b'']"
    by (simp add: user_listing_def demo_db_def demo_row_def in_range_def sort_by_def oldest_rows_def newest_rows_def)
  ultimately show ?thesis using usage_pages_complete [of "''u''" None None 1 demo_db 3 7] by simp
qed

end
