(* ===== verification/Cursors.thy ===== *)
theory Cursors
  imports Calendar
begin

text \<open>
  Pagination parameters and opaque cursors (\<^verbatim>\<open>lib/pagination.ts\<close>): \<open>parsePagination\<close>,
  \<open>parseCursorPagination\<close>, the cursor \<open>base64(created_at|id)\<close> and the helpers for pages.

  \<open>Buffer\<close> is modelled on bytes: base64 with its lenient decoder, which skips characters outside the
  alphabet and takes the URL-safe one too, and UTF-8 for Latin-1 text. A cursor that decodes to other
  text is refused here. \<open>Date.parse\<close> is a parameter. A limit or page is an exact number, as it is below
  \<open>2^53\<close>.
\<close>

section \<open>Base64\<close>

definition b64_char :: "nat \<Rightarrow> char" where
  "b64_char n = (if n < 26 then char_of (65 + n) else if n < 52 then char_of (71 + n) else if n < 62 then char_of (n - 4)
     else if n = 62 then CHR ''+'' else CHR ''/'')"

definition b64_value :: "char \<Rightarrow> nat option" where
  "b64_value c = (let n = (of_char c :: nat) in
     if 65 \<le> n \<and> n \<le> 90 then Some (n - 65) else if 97 \<le> n \<and> n \<le> 122 then Some (n - 71) else if 48 \<le> n \<and> n \<le> 57 then Some (n + 4)
     else if n = 43 \<or> n = 45 then Some 62 else if n = 47 \<or> n = 95 then Some 63 else None)"

fun to_base64 :: "nat list \<Rightarrow> string" where
  "to_base64 [] = []"
| "to_base64 [a] = [b64_char (a div 4), b64_char (a mod 4 * 16), CHR ''='', CHR ''='']"
| "to_base64 [a, b] = [b64_char (a div 4), b64_char (a mod 4 * 16 + b div 16), b64_char (b mod 16 * 4), CHR ''='']"
| "to_base64 (a # b # c # r) = b64_char (a div 4) # b64_char (a mod 4 * 16 + b div 16) # b64_char (b mod 16 * 4 + c div 64) #
     b64_char (c mod 64) # to_base64 r"

fun from_sextets :: "nat list \<Rightarrow> nat list" where
  "from_sextets (w # x # y # z # r) = (w * 4 + x div 16) # (x mod 16 * 16 + y div 4) # (y mod 4 * 64 + z) # from_sextets r"
| "from_sextets [w, x, y] = [w * 4 + x div 16, x mod 16 * 16 + y div 4]"
| "from_sextets [w, x] = [w * 4 + x div 16]"
| "from_sextets _ = []"

definition from_base64 :: "string \<Rightarrow> nat list" where
  "from_base64 s = from_sextets (List.map_filter b64_value s)"

fun utf8_text :: "nat list \<Rightarrow> string option" where
  "utf8_text [] = Some []"
| "utf8_text (n # ns) =
    (if n < 128 then map_option (Cons (char_of n)) (utf8_text ns)
     else if n = 194 \<or> n = 195 then (case ns of [] \<Rightarrow> None
       | m # ms \<Rightarrow> if 128 \<le> m \<and> m < 192 then map_option (Cons (char_of ((n - 192) * 64 + (m - 128)))) (utf8_text ms) else None)
     else None)"

section \<open>Cursors\<close>

definition invalid_cursor :: error where
  "invalid_cursor = BadRequestError ''Request validation failed'' ''VALIDATION_ERROR''"

definition decodeCursor :: "(string \<Rightarrow> millis option) \<Rightarrow> string \<Rightarrow> (string \<times> string) result" where
  "decodeCursor dateParse cursor = (case utf8_text (from_base64 cursor) of None \<Rightarrow> Inl invalid_cursor
     | Some decoded \<Rightarrow> (case split_on (CHR ''|'') decoded of
         [created_at, i] \<Rightarrow> if created_at = [] \<or> i = [] \<or> dateParse created_at = None then Inl invalid_cursor else Inr (created_at, i)
       | _ \<Rightarrow> Inl invalid_cursor))"

definition generateCursor :: "string \<Rightarrow> string \<Rightarrow> string" where
  "generateCursor created_at i = to_base64 (utf8 (created_at @ ''|'' @ i))"

definition hasMoreResults :: "'a list \<Rightarrow> nat \<Rightarrow> bool" where
  "hasMoreResults results limit \<longleftrightarrow> length results > limit"

definition getNextCursor :: "('a \<Rightarrow> string) \<Rightarrow> ('a \<Rightarrow> string) \<Rightarrow> 'a list \<Rightarrow> nat \<Rightarrow> string option" where
  "getNextCursor created ident results limit =
    (if length results > limit then Some (generateCursor (created (results ! (limit - 1))) (ident (results ! (limit - 1)))) else None)"

definition cursorPaginatedResponse :: "'a list \<Rightarrow> nat \<Rightarrow> 'a list" where
  "cursorPaginatedResponse rows limit = (if length rows > limit then take limit rows else rows)"

section \<open>Parameters\<close>

definition DEFAULT_LIMIT :: nat where
  "DEFAULT_LIMIT = 20"

definition MAX_LIMIT :: nat where
  "MAX_LIMIT = 100"

definition parseIntParam :: "string option \<Rightarrow> nat \<Rightarrow> nat option result" where
  "parseIntParam raw least = (case raw of None \<Rightarrow> Inr None
     | Some r \<Rightarrow> (let t = trim r in
         if t = [] then Inr None
         else if \<not> list_all is_digit t then Inl invalid_cursor
         else if read_nat t < least then Inl invalid_cursor
         else Inr (Some (read_nat t))))"

record page_query =
  pq_limit :: "string option"
  pq_offset :: "string option"
  pq_page :: "string option"

definition limit_of :: "nat option \<Rightarrow> nat" where
  "limit_of raw = (case raw of None \<Rightarrow> DEFAULT_LIMIT | Some n \<Rightarrow> min n MAX_LIMIT)"

definition parsePagination :: "page_query \<Rightarrow> (nat \<times> nat) result" where
  "parsePagination q = (case parseIntParam (pq_limit q) 1 of Inl e \<Rightarrow> Inl e | Inr rawLimit \<Rightarrow>
    (let limit = limit_of rawLimit in
     if (case pq_page q of None \<Rightarrow> False | Some p \<Rightarrow> trim p \<noteq> [])
     then (case parseIntParam (pq_page q) 1 of Inl e \<Rightarrow> Inl e
       | Inr page \<Rightarrow> Inr (limit, ((case page of None \<Rightarrow> 1 | Some p \<Rightarrow> p) - 1) * limit))
     else (case parseIntParam (pq_offset q) 0 of Inl e \<Rightarrow> Inl e
       | Inr off \<Rightarrow> Inr (limit, case off of None \<Rightarrow> 0 | Some k \<Rightarrow> k))))"

definition parseCursorPagination :: "string option \<Rightarrow> string option \<Rightarrow> (nat \<times> string option) result" where
  "parseCursorPagination rawLimit rawCursor = (case parseIntParam rawLimit 1 of Inl e \<Rightarrow> Inl e
     | Inr n \<Rightarrow> Inr (limit_of n, case rawCursor of None \<Rightarrow> None | Some c \<Rightarrow> if trim c = [] then None else Some (trim c)))"

section \<open>Decoding inverts encoding\<close>

lemma b64_value_char: "n < 64 \<Longrightarrow> b64_value (b64_char n) = Some n"
  by (auto simp: b64_value_def b64_char_def Let_def)

lemma b64_pad: "b64_value (CHR ''='') = None"
  by (simp add: b64_value_def)

lemma byte_parts:
  fixes a b c :: nat
  assumes "a < 256" "b < 256" "c < 256"
  shows "a div 4 < 64" "a mod 4 * 16 < 64" "a mod 4 * 16 + b div 16 < 64" "b mod 16 * 4 < 64" "b mod 16 * 4 + c div 64 < 64" "c mod 64 < 64"
  using assms by linarith+

lemma byte_joined:
  fixes a b c :: nat
  assumes "b < 256" "c < 256"
  shows "a div 4 * 4 + (a mod 4 * 16 + b div 16) div 16 = a" "a div 4 * 4 + a mod 4 * 16 div 16 = a"
    "(a mod 4 * 16 + b div 16) mod 16 * 16 + (b mod 16 * 4 + c div 64) div 4 = b" "(a mod 4 * 16 + b div 16) mod 16 * 16 + b mod 16 * 4 div 4 = b"
    "(b mod 16 * 4 + c div 64) mod 4 * 64 + c mod 64 = c"
proof -
  have "b div 16 < 16" "c div 64 < 4" using assms by linarith+
  then show "a div 4 * 4 + (a mod 4 * 16 + b div 16) div 16 = a" "a div 4 * 4 + a mod 4 * 16 div 16 = a"
    "(a mod 4 * 16 + b div 16) mod 16 * 16 + (b mod 16 * 4 + c div 64) div 4 = b" "(a mod 4 * 16 + b div 16) mod 16 * 16 + b mod 16 * 4 div 4 = b"
    "(b mod 16 * 4 + c div 64) mod 4 * 64 + c mod 64 = c"
    by (simp_all add: mod_mult_self3)
qed

lemma from_to_base64: "\<forall>n \<in> set bs. n < 256 \<Longrightarrow> from_base64 (to_base64 bs) = bs"
proof (induction bs rule: to_base64.induct)
  case (2 a)
  then show ?case using byte_parts [of a 0 0] by (simp add: from_base64_def b64_value_char b64_pad)
next
  case (3 a b)
  then show ?case using byte_parts [of a b 0] byte_joined(1-4) [of b 0 a] by (simp add: from_base64_def b64_value_char b64_pad)
next
  case (4 a b c r)
  then show ?case using byte_parts [of a b c] byte_joined(1-4) [of b c a] byte_joined(5) [of b c] by (simp add: from_base64_def b64_value_char)
qed (simp add: from_base64_def)

lemma utf8_bytes: "n \<in> set (utf8 s) \<Longrightarrow> n < 256"
proof -
  have "(of_char c :: nat) div 64 < 64" for c using nat_of_char_less_256 [of c] by linarith
  then have "\<forall>m \<in> set (utf8_char c). m < 256" for c by (auto simp: utf8_char_def Let_def)
  then show "n \<in> set (utf8 s) \<Longrightarrow> n < 256" by (auto simp: utf8_def)
qed

lemma utf8_text_utf8: "utf8_text (utf8 s) = Some s"
proof (induction s)
  case (Cons c s)
  let ?n = "of_char c :: nat"
  show ?case
  proof (cases "?n < 128")
    case True
    with Cons show ?thesis by (simp add: utf8_def utf8_char_def)
  next
    case False
    have "?n < 256" by simp
    with False have "?n div 64 = 2 \<or> ?n div 64 = 3" by linarith
    moreover have "?n div 64 * 64 + ?n mod 64 = ?n" by simp
    ultimately show ?thesis using Cons False by (auto simp: utf8_def utf8_char_def Let_def)
  qed
qed (simp add: utf8_def)

lemma cursor_decoded:
  assumes "created \<noteq> []" "i \<noteq> []" "CHR ''|'' \<notin> set created" "CHR ''|'' \<notin> set i" "dateParse created = Some t"
  shows "decodeCursor dateParse (generateCursor created i) = Inr (created, i)"
proof -
  have "from_base64 (generateCursor created i) = utf8 (created @ ''|'' @ i)"
    unfolding generateCursor_def by (intro from_to_base64) (auto dest: utf8_bytes)
  moreover have "split_on (CHR ''|'') (created @ ''|'' @ i) = [created, i]" using assms(3,4) split_on_two by simp
  ultimately show ?thesis using assms by (simp add: decodeCursor_def utf8_text_utf8)
qed

text \<open>Cursors round-trip: decoding the cursor generated for a creation time and an id gives them back, whatever
  characters they have, as long as neither is empty or contains the separator and the creation time is a date.\<close>

theorem cursor_roundtrip:
  assumes "created \<noteq> []" "i \<noteq> []" "CHR ''|'' \<notin> set created" "CHR ''|'' \<notin> set i" "dateParse created = Some t"
  shows "decodeCursor dateParse (generateCursor created i) = Inr (created, i)"
  using assms by (rule cursor_decoded)

text \<open>Accepted pagination parameters are in bounds: the limit lies between 1 and 100 and is the requested one when that is
  at most 100, and a page number selects the rows right after the pages before it. Parameters that are not whole numbers, and a limit or a page
  of zero, are refused.\<close>

theorem pagination_bounds:
  "(case parsePagination q of Inl e \<Rightarrow> statusCode e = Some 400 | Inr (limit, off) \<Rightarrow> 1 \<le> limit \<and> limit \<le> MAX_LIMIT) \<and>
   (0 < n \<longrightarrow> 0 < p \<longrightarrow> parsePagination (q\<lparr>pq_limit := Some (show_nat n), pq_page := Some (show_nat p)\<rparr>) =
     Inr (min n MAX_LIMIT, (p - 1) * min n MAX_LIMIT)) \<and>
   parsePagination (q\<lparr>pq_limit := Some ''0''\<rparr>) = Inl invalid_cursor"
proof -
  have lim: "1 \<le> limit_of r \<and> limit_of r \<le> MAX_LIMIT" if "parseIntParam s 1 = Inr r" for s r
    using that by (auto simp: parseIntParam_def limit_of_def MAX_LIMIT_def DEFAULT_LIMIT_def Let_def split: option.splits if_splits)
  have err: "statusCode e = Some 400" if "parseIntParam s m = Inl e" for s m e
    using that by (auto simp: parseIntParam_def invalid_cursor_def Let_def split: option.splits if_splits)
  have digits: "trim (show_nat k) = show_nat k" for k
  proof (rule trim_id)
    have "is_digit (hd (show_nat k))" "is_digit (last (show_nat k))" using show_nat_digits [of k] by (simp_all add: list_all_iff)
    then show "\<not> is_space (hd (show_nat k))" "\<not> is_space (last (show_nat k))" by (auto dest: is_digit_not_space)
  qed simp
  have num: "parseIntParam (Some (show_nat k)) m = (if k < m then Inl invalid_cursor else Inr (Some k))" for k m
    using show_nat_digits [of k] by (simp add: parseIntParam_def digits)
  have zero: "''0'' = show_nat 0" by code_simp
  have "case parsePagination q of Inl e \<Rightarrow> statusCode e = Some 400 | Inr (limit, off) \<Rightarrow> 1 \<le> limit \<and> limit \<le> MAX_LIMIT"
    using lim err by (auto simp: parsePagination_def Let_def split: sum.splits option.splits if_splits)
  moreover have "0 < n \<longrightarrow> 0 < p \<longrightarrow> parsePagination (q\<lparr>pq_limit := Some (show_nat n), pq_page := Some (show_nat p)\<rparr>) =
     Inr (min n MAX_LIMIT, (p - 1) * min n MAX_LIMIT)"
    by (simp add: parsePagination_def num digits limit_of_def Let_def)
  moreover have "parsePagination (q\<lparr>pq_limit := Some ''0''\<rparr>) = Inl invalid_cursor"
    unfolding zero by (simp add: parsePagination_def num)
  ultimately show ?thesis by blast
qed

theorem cursor_roundtrip_witness:
  "decodeCursor (\<lambda>_. Some 0) (generateCursor ''1970-01-01T00:00:00.000Z'' ''42'') = Inr (''1970-01-01T00:00:00.000Z'', ''42'')"
  using cursor_roundtrip [of "''1970-01-01T00:00:00.000Z''" "''42''" "\<lambda>_. Some 0" 0] by simp

theorem pagination_bounds_witness:
  "parsePagination \<lparr>pq_limit = Some (show_nat 250), pq_offset = None, pq_page = Some (show_nat 3)\<rparr> = Inr (100, 200)"
  using pagination_bounds [of "\<lparr>pq_limit = None, pq_offset = None, pq_page = None\<rparr>" 250 3] by (simp add: MAX_LIMIT_def)

end
