(* ===== verification/ApiCatalog.thy ===== *)
theory ApiCatalog
  imports Cursors TtlCache Paging
begin

text \<open>
  The API catalogue: the repository \<^verbatim>\<open>repositories/apiRepository.ts\<close> over its database tables (soft
  deletion, listings, endpoints, flushing the listings cache) and in memory, and the public listing
  route \<^verbatim>\<open>GET /api/apis\<close> of \<^verbatim>\<open>routes/apis.ts\<close> with its cache.

  The database is SQLite: timestamps have whole seconds, \<open>LIKE\<close> folds ASCII letters only and reads \<open>%\<close> and
  \<open>_\<close> as wildcards, a listing without an order comes in the order of insertion, one of the orders the
  database may choose: the properties do not depend on it. The model skips the offset of a query
  without a limit as it does any other, which SQLite would reject. Statements do not fail. The names
  that \<^verbatim>\<open>routes/apis.ts\<close> uses without importing them are taken from the modules that define them.
\<close>

section \<open>Data\<close>

datatype ApiStatus = StatusDraft | StatusActive | StatusPaused | StatusArchived

record Api =
  a_id :: int
  a_developer_id :: int
  a_name :: string
  a_description :: "string option"
  a_base_url :: string
  a_logo_url :: "string option"
  a_category :: "string option"
  a_status :: ApiStatus
  a_created_at :: millis
  a_updated_at :: millis
  a_deleted_at :: "millis option"

record ApiListFilters =
  f_status :: "ApiStatus option"
  f_category :: "string option"
  f_search :: "string option"
  f_limit :: "nat option"
  f_offset :: "nat option"
  f_cursor :: "(millis \<times> int) option"

record ApiCreateInput =
  c_developer_id :: int
  c_name :: string
  c_description :: "string option"
  c_base_url :: string
  c_logo_url :: "string option"
  c_category :: "string option"
  c_status :: "ApiStatus option"

text \<open>An update: an absent field is \<open>None\<close>, an explicit \<open>null\<close> is \<open>Some None\<close>.\<close>

record ApiUpdateInput =
  u_name :: "string option"
  u_description :: "string option option"
  u_base_url :: "string option"
  u_logo_url :: "string option option"
  u_category :: "string option option"
  u_status :: "ApiStatus option"

record ApiEndpointInfo =
  e_path :: string
  e_method :: string
  e_price :: string
  e_description :: "string option"

record ApiDeveloperInfo =
  d_name :: "string option"
  d_website :: "string option"
  d_description :: "string option"

record ApiDetails =
  t_id :: int
  t_name :: string
  t_description :: "string option"
  t_base_url :: string
  t_logo_url :: "string option"
  t_category :: "string option"
  t_status :: ApiStatus
  t_developer :: ApiDeveloperInfo

record ApiListItem =
  i_details :: ApiDetails
  i_endpoints :: "ApiEndpointInfo list"

definition no_developer :: ApiDeveloperInfo where
  "no_developer = \<lparr>d_name = None, d_website = None, d_description = None\<rparr>"

definition details_of :: "Api \<Rightarrow> ApiDeveloperInfo \<Rightarrow> ApiDetails" where
  "details_of a dev = \<lparr>t_id = a_id a, t_name = a_name a, t_description = a_description a, t_base_url = a_base_url a,
     t_logo_url = a_logo_url a, t_category = a_category a, t_status = a_status a, t_developer = dev\<rparr>"

section \<open>The database repository\<close>

record endpoint_row =
  r_id :: int
  r_api_id :: int
  r_info :: ApiEndpointInfo

record api_db =
  t_apis :: "Api list"
  t_endpoints :: "endpoint_row list"
  t_developers :: "(int, ApiDeveloperInfo) js_map"
  next_api :: int
  next_endpoint :: int

text \<open>\<open>integer({ mode: 'timestamp' })\<close> keeps whole seconds.\<close>

definition seconds :: "millis \<Rightarrow> millis" where
  "seconds t = t div 1000 * 1000"

definition live :: "Api \<Rightarrow> bool" where
  "live a \<longleftrightarrow> a_deleted_at a = None"

definition ascii_lower :: "char \<Rightarrow> char" where
  "ascii_lower c = (let n = (of_char c :: nat) in if 65 \<le> n \<and> n \<le> 90 then char_of (n + 32) else c)"

fun like_match :: "string \<Rightarrow> string \<Rightarrow> bool" where
  "like_match [] s \<longleftrightarrow> s = []"
| "like_match (p # ps) s \<longleftrightarrow>
    (if p = CHR ''%'' then list_ex (\<lambda>i. like_match ps (drop i s)) [0 ..< Suc (length s)]
     else if p = CHR ''_'' then s \<noteq> [] \<and> like_match ps (tl s)
     else s \<noteq> [] \<and> ascii_lower p = ascii_lower (hd s) \<and> like_match ps (tl s))"

definition truthy_text :: "string option \<Rightarrow> bool" where
  "truthy_text s \<longleftrightarrow> s \<noteq> None \<and> s \<noteq> Some []"

definition category_ok :: "string option \<Rightarrow> Api \<Rightarrow> bool" where
  "category_ok c a \<longleftrightarrow> (truthy_text c \<longrightarrow> a_category a = c)"

definition db_search :: "string option \<Rightarrow> Api \<Rightarrow> bool" where
  "db_search s a \<longleftrightarrow> (truthy_text s \<longrightarrow> like_match (''%'' @ the s @ ''%'') (a_name a))"

definition window :: "nat option \<Rightarrow> nat option \<Rightarrow> 'a list \<Rightarrow> 'a list" where
  "window limit offset xs = (let rest = (case offset of None \<Rightarrow> xs | Some k \<Rightarrow> drop k xs) in
     case limit of None \<Rightarrow> rest | Some n \<Rightarrow> take n rest)"

definition new_api :: "int \<Rightarrow> ApiCreateInput \<Rightarrow> millis \<Rightarrow> Api" where
  "new_api i c now = \<lparr>a_id = i, a_developer_id = c_developer_id c, a_name = c_name c, a_description = c_description c,
     a_base_url = c_base_url c, a_logo_url = c_logo_url c, a_category = c_category c,
     a_status = (case c_status c of None \<Rightarrow> StatusDraft | Some s \<Rightarrow> s), a_created_at = now, a_updated_at = now, a_deleted_at = None\<rparr>"

definition db_create :: "ApiCreateInput \<Rightarrow> millis \<Rightarrow> api_db \<Rightarrow> Api \<times> api_db" where
  "db_create c now db = (let a = new_api (next_api db) c (seconds now) in
     (a, db\<lparr>t_apis := t_apis db @ [a], next_api := next_api db + 1\<rparr>))"

definition add_endpoints :: "int \<Rightarrow> ApiEndpointInfo list \<Rightarrow> api_db \<Rightarrow> endpoint_row list \<times> api_db" where
  "add_endpoints api es db =
    (let rows = map (\<lambda>(k, e). \<lparr>r_id = next_endpoint db + int k, r_api_id = api, r_info = e\<rparr>) (zip [0 ..< length es] es) in
     (rows, db\<lparr>t_endpoints := t_endpoints db @ rows, next_endpoint := next_endpoint db + int (length es)\<rparr>))"

definition createApi :: "ApiCreateInput \<Rightarrow> ApiEndpointInfo list \<Rightarrow> millis \<Rightarrow> api_db \<Rightarrow> (Api \<times> endpoint_row list) \<times> api_db" where
  "createApi c es now db = (case db_create (c\<lparr>c_logo_url := None\<rparr>) now db of (a, db1) \<Rightarrow>
     if es = [] then ((a, []), db1) else (case add_endpoints (a_id a) es db1 of (rows, db2) \<Rightarrow> ((a, rows), db2)))"

definition apply_update :: "ApiUpdateInput \<Rightarrow> Api \<Rightarrow> Api" where
  "apply_update u a = a\<lparr>a_name := (case u_name u of None \<Rightarrow> a_name a | Some x \<Rightarrow> x),
     a_description := (case u_description u of None \<Rightarrow> a_description a | Some x \<Rightarrow> x),
     a_base_url := (case u_base_url u of None \<Rightarrow> a_base_url a | Some x \<Rightarrow> x),
     a_logo_url := (case u_logo_url u of None \<Rightarrow> a_logo_url a | Some x \<Rightarrow> x),
     a_category := (case u_category u of None \<Rightarrow> a_category a | Some x \<Rightarrow> x),
     a_status := (case u_status u of None \<Rightarrow> a_status a | Some x \<Rightarrow> x)\<rparr>"

definition empty_payload :: "ApiUpdateInput \<Rightarrow> bool" where
  "empty_payload u \<longleftrightarrow> u_name u = None \<and> u_description u = None \<and> u_base_url u = None \<and> u_logo_url u = None \<and>
     u_category u = None \<and> u_status u = None"

text \<open>\<open>UPDATE ... WHERE ... RETURNING\<close>.\<close>

definition update_where :: "(Api \<Rightarrow> bool) \<Rightarrow> (Api \<Rightarrow> Api) \<Rightarrow> api_db \<Rightarrow> Api option \<times> api_db" where
  "update_where P f db = (map_option f (List.find P (t_apis db)), db\<lparr>t_apis := map (\<lambda>a. if P a then f a else a) (t_apis db)\<rparr>)"

definition db_update :: "int \<Rightarrow> ApiUpdateInput \<Rightarrow> millis \<Rightarrow> api_db \<Rightarrow> Api option \<times> api_db" where
  "db_update i u now db = (if empty_payload u then (List.find (\<lambda>a. a_id a = i \<and> live a) (t_apis db), db)
     else update_where (\<lambda>a. a_id a = i \<and> live a) (\<lambda>a. (apply_update u a)\<lparr>a_updated_at := seconds now\<rparr>) db)"

definition db_delete :: "int \<Rightarrow> millis \<Rightarrow> api_db \<Rightarrow> bool \<times> api_db" where
  "db_delete i now db = (case update_where (\<lambda>a. a_id a = i \<and> live a)
       (\<lambda>a. a\<lparr>a_deleted_at := Some (seconds now), a_updated_at := seconds now\<rparr>) db of (r, db1) \<Rightarrow> (r \<noteq> None, db1))"

definition db_restore :: "int \<Rightarrow> millis \<Rightarrow> api_db \<Rightarrow> Api option \<times> api_db" where
  "db_restore i now db = update_where (\<lambda>a. a_id a = i \<and> \<not> live a) (\<lambda>a. a\<lparr>a_deleted_at := None, a_updated_at := seconds now\<rparr>) db"

definition db_listByDeveloper :: "int \<Rightarrow> ApiListFilters \<Rightarrow> api_db \<Rightarrow> Api list" where
  "db_listByDeveloper dev f db = window (f_limit f) (f_offset f) (filter (\<lambda>a. a_developer_id a = dev \<and> live a \<and>
     (case f_status f of None \<Rightarrow> True | Some s \<Rightarrow> a_status a = s) \<and> category_ok (f_category f) a \<and> db_search (f_search f) a) (t_apis db))"

definition newest_apis :: "Api \<Rightarrow> Api \<Rightarrow> int" where
  "newest_apis a b = (if a_created_at b \<noteq> a_created_at a then a_created_at b - a_created_at a else a_id b - a_id a)"

definition below :: "millis \<Rightarrow> int \<Rightarrow> Api \<Rightarrow> bool" where
  "below t i a \<longleftrightarrow> a_created_at a < t \<or> a_created_at a = t \<and> a_id a < i"

definition db_listPublic :: "ApiListFilters \<Rightarrow> api_db \<Rightarrow> Api list" where
  "db_listPublic f db =
    (if f_status f \<noteq> None \<and> f_status f \<noteq> Some StatusActive then []
     else (let rows = sort_by newest_apis (filter (\<lambda>a. a_status a = StatusActive \<and> live a \<and> category_ok (f_category f) a \<and> db_search (f_search f) a \<and>
             (case f_cursor f of None \<Rightarrow> True | Some (t, i) \<Rightarrow> below (seconds t) i a)) (t_apis db)) in
           case f_cursor f of None \<Rightarrow> window (f_limit f) (f_offset f) rows
           | Some _ \<Rightarrow> window (map_option Suc (f_limit f)) None rows))"

definition developer_of :: "api_db \<Rightarrow> Api \<Rightarrow> ApiDeveloperInfo" where
  "developer_of db a = (case map_get (t_developers db) (a_developer_id a) of None \<Rightarrow> no_developer | Some d \<Rightarrow> d)"

definition db_findById :: "int \<Rightarrow> api_db \<Rightarrow> ApiDetails option" where
  "db_findById i db = map_option (\<lambda>a. details_of a (developer_of db a))
     (List.find (\<lambda>a. a_id a = i \<and> a_status a = StatusActive \<and> live a) (t_apis db))"

definition db_findRawById :: "int \<Rightarrow> api_db \<Rightarrow> Api option" where
  "db_findRawById i db = List.find (\<lambda>a. a_id a = i) (t_apis db)"

definition db_getEndpoints :: "int \<Rightarrow> api_db \<Rightarrow> ApiEndpointInfo list" where
  "db_getEndpoints i db = map r_info (filter (\<lambda>r. r_api_id r = i) (t_endpoints db))"

text \<open>\<open>values([])\<close> of the query builder throws.\<close>

definition db_bulkCreateEndpoints :: "int \<Rightarrow> ApiEndpointInfo list \<Rightarrow> api_db \<Rightarrow> endpoint_row list result \<times> api_db" where
  "db_bulkCreateEndpoints i es db = (if es = [] then (Inl (Error ''values() must be called with at least one value''), db)
     else (case add_endpoints i es db of (rows, db1) \<Rightarrow> (Inr rows, db1)))"

definition db_listPublicDetailed :: "ApiListFilters \<Rightarrow> api_db \<Rightarrow> ApiListItem list \<times> nat" where
  "db_listPublicDetailed f db =
    (let rows = filter (\<lambda>a. live a \<and> a_status a = (case f_status f of None \<Rightarrow> StatusActive | Some s \<Rightarrow> s) \<and>
           category_ok (f_category f) a \<and> db_search (f_search f) a) (t_apis db) in
     (map (\<lambda>a. \<lparr>i_details = details_of a (developer_of db a), i_endpoints = db_getEndpoints (a_id a) db\<rparr>) (window (f_limit f) (f_offset f) rows),
      length rows))"

section \<open>The in-memory repository\<close>

record api_memory =
  m_apis :: "Api list"
  m_details :: "(int, ApiDetails) js_map"
  m_endpoints :: "(int, ApiEndpointInfo list) js_map"
  m_nextId :: int

definition mem_search :: "string option \<Rightarrow> Api \<Rightarrow> bool" where
  "mem_search s a \<longleftrightarrow> (truthy_text s \<longrightarrow> str_includes (toLowerCase (a_name a)) (toLowerCase (the s)))"

definition mem_create :: "ApiCreateInput \<Rightarrow> millis \<Rightarrow> api_memory \<Rightarrow> Api \<times> api_memory" where
  "mem_create c now m = (let a = new_api (m_nextId m) c now in
     (a, m\<lparr>m_apis := m_apis m @ [a], m_details := map_set (a_id a) (details_of a no_developer) (m_details m), m_nextId := m_nextId m + 1\<rparr>))"

definition mem_createWithEndpoints :: "ApiCreateInput \<Rightarrow> ApiEndpointInfo list \<Rightarrow> millis \<Rightarrow> api_memory \<Rightarrow>
    (Api \<times> (nat \<times> ApiEndpointInfo) list) \<times> api_memory" where
  "mem_createWithEndpoints c es now m = (case mem_create (c\<lparr>c_logo_url := None\<rparr>) now m of (a, m1) \<Rightarrow>
     ((a, zip [1 ..< Suc (length es)] es), m1\<lparr>m_endpoints := map_set (a_id a) es (m_endpoints m1)\<rparr>))"

text \<open>Replaces the first element that satisfies the predicate, as \<open>findIndex\<close> and an assignment do.\<close>

fun replace_first :: "('a \<Rightarrow> bool) \<Rightarrow> ('a \<Rightarrow> 'a) \<Rightarrow> 'a list \<Rightarrow> 'a list" where
  "replace_first P f [] = []"
| "replace_first P f (x # xs) = (if P x then f x # xs else x # replace_first P f xs)"

definition mem_update :: "int \<Rightarrow> ApiUpdateInput \<Rightarrow> millis \<Rightarrow> api_memory \<Rightarrow> Api option \<times> api_memory" where
  "mem_update i u now m = (let P = (\<lambda>a. a_id a = i \<and> live a); f = (\<lambda>a. (apply_update u a)\<lparr>a_updated_at := now\<rparr>) in
     case List.find P (m_apis m) of None \<Rightarrow> (None, m)
     | Some a \<Rightarrow> (Some (f a), m\<lparr>m_apis := replace_first P f (m_apis m),
         m_details := (case map_get (m_details m) i of None \<Rightarrow> m_details m
           | Some d \<Rightarrow> map_set i (d\<lparr>t_name := a_name (f a), t_description := a_description (f a), t_base_url := a_base_url (f a),
               t_logo_url := a_logo_url (f a), t_category := a_category (f a), t_status := a_status (f a)\<rparr>) (m_details m))\<rparr>))"

definition mem_delete :: "int \<Rightarrow> millis \<Rightarrow> api_memory \<Rightarrow> bool \<times> api_memory" where
  "mem_delete i now m = (let P = (\<lambda>a. a_id a = i \<and> live a) in
     if List.find P (m_apis m) = None then (False, m)
     else (True, m\<lparr>m_apis := replace_first P (\<lambda>a. a\<lparr>a_deleted_at := Some now, a_updated_at := now\<rparr>) (m_apis m)\<rparr>))"

definition mem_restore :: "int \<Rightarrow> millis \<Rightarrow> api_memory \<Rightarrow> Api option \<times> api_memory" where
  "mem_restore i now m = (let P = (\<lambda>a. a_id a = i \<and> \<not> live a); f = (\<lambda>a. a\<lparr>a_deleted_at := None, a_updated_at := now\<rparr>) in
     case List.find P (m_apis m) of None \<Rightarrow> (None, m)
     | Some a \<Rightarrow> (Some (f a), m\<lparr>m_apis := replace_first P f (m_apis m)\<rparr>))"

definition mem_listByDeveloper :: "int \<Rightarrow> ApiListFilters \<Rightarrow> api_memory \<Rightarrow> Api list" where
  "mem_listByDeveloper dev f m = window (f_limit f) (f_offset f) (filter (mem_search (f_search f)) (filter (category_ok (f_category f))
     (filter (\<lambda>a. case f_status f of None \<Rightarrow> True | Some s \<Rightarrow> a_status a = s) (filter (\<lambda>a. a_developer_id a = dev \<and> live a) (m_apis m)))))"

definition mem_listPublic :: "ApiListFilters \<Rightarrow> api_memory \<Rightarrow> Api list" where
  "mem_listPublic f m =
    (if f_status f \<noteq> None \<and> f_status f \<noteq> Some StatusActive then []
     else (let rows = sort_by newest_apis (filter (mem_search (f_search f)) (filter (category_ok (f_category f))
             (filter (\<lambda>a. a_status a = StatusActive \<and> live a) (m_apis m)))) in
           case f_cursor f of None \<Rightarrow> window (f_limit f) (f_offset f) rows
           | Some (t, i) \<Rightarrow> window (map_option Suc (f_limit f)) None (filter (below t i) rows)))"

definition mem_findById :: "int \<Rightarrow> api_memory \<Rightarrow> ApiDetails option" where
  "mem_findById i m = (case List.find (\<lambda>a. a_id a = i \<and> live a) (m_apis m) of None \<Rightarrow> None | Some _ \<Rightarrow> map_get (m_details m) i)"

definition mem_findRawById :: "int \<Rightarrow> api_memory \<Rightarrow> Api option" where
  "mem_findRawById i m = List.find (\<lambda>a. a_id a = i) (m_apis m)"

definition mem_getEndpoints :: "int \<Rightarrow> api_memory \<Rightarrow> ApiEndpointInfo list" where
  "mem_getEndpoints i m = (case map_get (m_endpoints m) i of None \<Rightarrow> [] | Some es \<Rightarrow> es)"

definition mem_bulkCreateEndpoints :: "int \<Rightarrow> ApiEndpointInfo list \<Rightarrow> api_memory \<Rightarrow> (nat \<times> ApiEndpointInfo) list \<times> api_memory" where
  "mem_bulkCreateEndpoints i es m = (let existing = mem_getEndpoints i m in
     (zip [length existing + 1 ..< length existing + 1 + length es] es, m\<lparr>m_endpoints := map_set i (existing @ es) (m_endpoints m)\<rparr>))"

definition mem_listPublicDetailed :: "ApiListFilters \<Rightarrow> api_memory \<Rightarrow> ApiListItem list \<times> nat" where
  "mem_listPublicDetailed f m =
    (let rows = filter (mem_search (f_search f)) (filter (category_ok (f_category f))
           (filter (\<lambda>a. a_status a = (case f_status f of None \<Rightarrow> StatusActive | Some s \<Rightarrow> s)) (filter live (m_apis m)))) in
     (map (\<lambda>a. \<lparr>i_details = details_of a (case map_get (m_details m) (a_id a) of None \<Rightarrow> no_developer | Some d \<Rightarrow> t_developer d),
        i_endpoints = mem_getEndpoints (a_id a) m\<rparr>) (window (f_limit f) (f_offset f) rows), length rows))"

section \<open>The listing route and its cache\<close>

record catalog =
  cat_db :: api_db
  cat_cache :: "(ApiListItem list \<times> string option \<times> bool) cache"

datatype api_change = Create ApiCreateInput millis | CreateWith ApiCreateInput "ApiEndpointInfo list" millis | Update int ApiUpdateInput millis
  | Delete int millis | Restore int millis | AddEndpoints int "ApiEndpointInfo list"

text \<open>The operations of the default repository that change the tables, each with its flush of the cache.\<close>

fun change :: "api_change \<Rightarrow> catalog \<Rightarrow> catalog" where
  "change (Create c now) s = \<lparr>cat_db = snd (db_create c now (cat_db s)), cat_cache = listings_invalidateAll (cat_cache s)\<rparr>"
| "change (CreateWith c es now) s = \<lparr>cat_db = snd (createApi c es now (cat_db s)), cat_cache = listings_invalidateAll (cat_cache s)\<rparr>"
| "change (Update i u now) s = (if empty_payload u then s
     else \<lparr>cat_db = snd (db_update i u now (cat_db s)), cat_cache = listings_invalidateAll (cat_cache s)\<rparr>)"
| "change (Delete i now) s = (case db_delete i now (cat_db s) of (ok, db) \<Rightarrow>
     \<lparr>cat_db = db, cat_cache = (if ok then listings_invalidateAll (cat_cache s) else cat_cache s)\<rparr>)"
| "change (Restore i now) s = (case db_restore i now (cat_db s) of (r, db) \<Rightarrow>
     \<lparr>cat_db = db, cat_cache = (if r \<noteq> None then listings_invalidateAll (cat_cache s) else cat_cache s)\<rparr>)"
| "change (AddEndpoints i es) s = (case db_bulkCreateEndpoints i es (cat_db s) of (r, db) \<Rightarrow>
     \<lparr>cat_db = db, cat_cache = (case r of Inr _ \<Rightarrow> listings_invalidateAll (cat_cache s) | Inl _ \<Rightarrow> cat_cache s)\<rparr>)"

record listing_query =
  q_limit :: nat
  q_category :: "string option"
  q_search :: "string option"
  q_status :: "ApiStatus option"
  q_cursor :: "string option"

fun status_text :: "ApiStatus \<Rightarrow> string" where
  "status_text StatusDraft = ''draft''"
| "status_text StatusActive = ''active''"
| "status_text StatusPaused = ''paused''"
| "status_text StatusArchived = ''archived''"

definition cache_params :: "listing_query \<Rightarrow> ListingsCacheKeyParams" where
  "cache_params q = \<lparr>key_limit = int (q_limit q), key_offset = 0, key_category = q_category q, key_search = q_search q,
     key_cursor = q_cursor q, key_status = map_option status_text (q_status q)\<rparr>"

text \<open>\<open>parseInt\<close> of the id of a cursor; \<open>None\<close> when no digit comes first.\<close>

definition leading_int :: "string \<Rightarrow> int option" where
  "leading_int s = (let t = dropWhile is_space s; neg = (t \<noteq> [] \<and> hd t = CHR ''-''); u = (if t \<noteq> [] \<and> hd t \<in> {CHR ''-'', CHR ''+''} then tl t else t);
       d = takeWhile is_digit u in
     if d = [] then None else Some (if neg then - int (read_nat d) else int (read_nat d)))"

definition read_cursor :: "(string \<Rightarrow> millis option) \<Rightarrow> string option \<Rightarrow> (millis \<times> int) option result" where
  "read_cursor dateParse raw = (case raw of None \<Rightarrow> Inr None
     | Some c \<Rightarrow> (case decodeCursor dateParse c of Inl e \<Rightarrow> Inl e
         | Inr (created, i) \<Rightarrow> (case leading_int i of
             Some n \<Rightarrow> if n > 0 then Inr (Some (the (dateParse created), n))
               else Inl (BadRequestError ''Invalid cursor: id component must be a positive integer'' ''BAD_REQUEST'')
           | None \<Rightarrow> Inl (BadRequestError ''Invalid cursor: id component must be a positive integer'' ''BAD_REQUEST''))))"

definition next_of :: "Api \<Rightarrow> string" where
  "next_of a = generateCursor (toISOString (a_created_at a)) (show_int (a_id a))"

definition listing_rows :: "listing_query \<Rightarrow> (millis \<times> int) option \<Rightarrow> api_db \<Rightarrow> Api list \<times> string option \<times> bool" where
  "listing_rows q cur db =
    (let limit = q_limit q;
         rows = db_listPublic \<lparr>f_status = q_status q, f_category = q_category q, f_search = q_search q,
           f_limit = Some (if cur \<noteq> None then limit else limit + 1), f_offset = None, f_cursor = cur\<rparr> db;
         hasMore = length rows > limit; pageRows = take limit rows in
     (pageRows, if hasMore \<and> pageRows \<noteq> [] then Some (next_of (last pageRows)) else None, hasMore))"

definition list_item :: "api_db \<Rightarrow> Api \<Rightarrow> ApiListItem" where
  "list_item db a = \<lparr>i_details = details_of a (case db_findById (a_id a) db of None \<Rightarrow> no_developer | Some d \<Rightarrow> t_developer d),
     i_endpoints = db_getEndpoints (a_id a) db\<rparr>"

definition listing_page :: "listing_query \<Rightarrow> (millis \<times> int) option \<Rightarrow> api_db \<Rightarrow> ApiListItem list \<times> string option \<times> bool" where
  "listing_page q cur db = (case listing_rows q cur db of (pageRows, nextCursor, hasMore) \<Rightarrow>
     (cursorPaginatedResponse (map (list_item db) pageRows) (q_limit q), nextCursor, hasMore))"

definition listing_route :: "(string \<Rightarrow> millis option) \<Rightarrow> millis \<Rightarrow> listing_query \<Rightarrow> millis \<Rightarrow> catalog \<Rightarrow>
    (ApiListItem list \<times> string option \<times> bool) result \<times> catalog" where
  "listing_route dateParse ttl q now s =
    (case read_cursor dateParse (q_cursor q) of Inl e \<Rightarrow> (Inl e, s)
     | Inr cur \<Rightarrow> (case listings_get now (buildCacheKey (cache_params q)) (cat_cache s) of
         (Some v, c1) \<Rightarrow> (Inr v, s\<lparr>cat_cache := c1\<rparr>)
       | (None, c1) \<Rightarrow> (let v = listing_page q cur (cat_db s) in
           (Inr v, s\<lparr>cat_cache := listings_set ttl now (buildCacheKey (cache_params q)) v c1\<rparr>))))"

section \<open>The tables\<close>

definition catalog_ok :: "api_db \<Rightarrow> bool" where
  "catalog_ok db \<longleftrightarrow> distinct (map a_id (t_apis db)) \<and>
     (\<forall>a \<in> set (t_apis db). 0 < a_id a \<and> a_id a < next_api db \<and> seconds (a_created_at a) = a_created_at a) \<and> 0 < next_api db"

lemma seconds_idem [simp]: "seconds (seconds t) = seconds t"
  by (simp add: seconds_def)

lemma find_by_id:
  assumes "distinct (map a_id as)" "a \<in> set as" "P a"
  shows "List.find (\<lambda>x. a_id x = a_id a \<and> P x) as = Some a"
  using assms by (induction as) (auto simp: image_iff)

lemma find_P: "List.find P xs = Some x \<Longrightarrow> x \<in> set xs \<and> P x"
  by (auto simp: find_Some_iff)

lemma update_where_ids [simp]: "(\<And>a. a_id (f a) = a_id a) \<Longrightarrow> map a_id (t_apis (snd (update_where P f db))) = map a_id (t_apis db)"
  by (simp add: update_where_def)

lemma update_where_none: "fst (update_where P f db) = None \<Longrightarrow> snd (update_where P f db) = db"
  by (auto simp: update_where_def find_None_iff intro!: api_db.equality map_idI)

lemma catalog_ok_apis: "catalog_ok db \<Longrightarrow> t_apis db' = t_apis db \<Longrightarrow> next_api db' = next_api db \<Longrightarrow> catalog_ok db'"
  by (simp add: catalog_ok_def)

lemma update_where_ok:
  assumes "catalog_ok db" "\<And>a. a_id (f a) = a_id a" "\<And>a. a_created_at (f a) = a_created_at a"
  shows "catalog_ok (snd (update_where P f db))"
proof -
  have "a_id \<circ> (\<lambda>a. if P a then f a else a) = a_id" using assms(2) by auto
  then show ?thesis using assms by (auto simp: catalog_ok_def update_where_def)
qed

lemma db_create_ok: "catalog_ok db \<Longrightarrow> catalog_ok (snd (db_create c now db))"
  by (auto simp: catalog_ok_def db_create_def new_api_def Let_def)

lemma apis_add_endpoints [simp]: "t_apis (snd (add_endpoints i es db)) = t_apis db" "next_api (snd (add_endpoints i es db)) = next_api db"
  by (simp_all add: add_endpoints_def Let_def)

lemma createApi_apis [simp]:
  "t_apis (snd (createApi c es now db)) = t_apis (snd (db_create (c\<lparr>c_logo_url := None\<rparr>) now db))"
  "next_api (snd (createApi c es now db)) = next_api (snd (db_create (c\<lparr>c_logo_url := None\<rparr>) now db))"
  by (simp_all add: createApi_def case_prod_beta)

lemma bulk_apis [simp]:
  "t_apis (snd (db_bulkCreateEndpoints i es db)) = t_apis db" "next_api (snd (db_bulkCreateEndpoints i es db)) = next_api db"
  by (simp_all add: db_bulkCreateEndpoints_def case_prod_beta)

lemmas change_simps = db_update_def db_delete_def db_restore_def case_prod_beta

lemma change_ok: "catalog_ok (cat_db s) \<Longrightarrow> catalog_ok (cat_db (change c s))"
proof (cases c)
  case (CreateWith i es now)
  assume "catalog_ok (cat_db s)"
  then have "catalog_ok (snd (db_create (i\<lparr>c_logo_url := None\<rparr>) now (cat_db s)))" by (rule db_create_ok)
  then show ?thesis unfolding CreateWith by (rule catalog_ok_apis) simp_all
next
  case (AddEndpoints i es)
  assume "catalog_ok (cat_db s)"
  then show ?thesis unfolding AddEndpoints by (rule catalog_ok_apis) (simp_all add: case_prod_beta)
qed (auto simp: db_create_ok change_simps apply_update_def intro!: update_where_ok)

section \<open>Deleted APIs\<close>

definition dead :: "int \<Rightarrow> api_db \<Rightarrow> bool" where
  "dead i db \<longleftrightarrow> catalog_ok db \<and> (\<exists>a \<in> set (t_apis db). a_id a = i \<and> \<not> live a)"

lemma dead_unique: "dead i db \<Longrightarrow> a \<in> set (t_apis db) \<Longrightarrow> a_id a = i \<Longrightarrow> \<not> live a"
  by (auto simp: dead_def catalog_ok_def distinct_map dest: inj_onD)

lemma dead_update:
  assumes "dead i db" "\<And>a. a_id a = i \<Longrightarrow> P a \<Longrightarrow> live a" "\<And>a. a_id (f a) = a_id a" "\<And>a. a_created_at (f a) = a_created_at a"
  shows "dead i (snd (update_where P f db))"
proof -
  obtain a where a: "a \<in> set (t_apis db)" "a_id a = i" "\<not> live a" using assms(1) by (auto simp: dead_def)
  then have "\<not> P a" using assms(2) by blast
  with a have "a \<in> set (t_apis (snd (update_where P f db)))" by (force simp: update_where_def)
  then show ?thesis using a assms update_where_ok [of db f P] by (auto simp: dead_def)
qed

lemma dead_change:
  assumes "dead i (cat_db s)" "\<forall>now. c \<noteq> Restore i now"
  shows "dead i (cat_db (change c s))"
proof (cases c)
  case (Create d now)
  have "catalog_ok (cat_db (change c s))" using assms(1) by (intro change_ok) (simp add: dead_def)
  then show ?thesis using assms(1) by (auto simp: dead_def Create db_create_def Let_def)
next
  case (CreateWith d es now)
  have "catalog_ok (cat_db (change c s))" using assms(1) by (intro change_ok) (simp add: dead_def)
  then show ?thesis using assms(1) by (auto simp: dead_def CreateWith db_create_def Let_def)
next
  case (AddEndpoints j es)
  have "catalog_ok (cat_db (change c s))" using assms(1) by (intro change_ok) (simp add: dead_def)
  then show ?thesis using assms(1) by (auto simp: dead_def AddEndpoints case_prod_beta)
qed (use assms in \<open>auto simp: change_simps apply_update_def intro!: dead_update\<close>)

lemma dead_delete: "catalog_ok db \<Longrightarrow> db_delete i now db = (True, db1) \<Longrightarrow> dead i db1"
proof -
  assume ok: "catalog_ok db" and d: "db_delete i now db = (True, db1)"
  let ?P = "\<lambda>a. a_id a = i \<and> live a" and ?f = "\<lambda>a. a\<lparr>a_deleted_at := Some (seconds now), a_updated_at := seconds now\<rparr>"
  from d have db1: "db1 = snd (update_where ?P ?f db)" and "fst (update_where ?P ?f db) \<noteq> None"
    by (auto simp: db_delete_def case_prod_beta)
  then obtain a where "a \<in> set (t_apis db)" "?P a" by (auto simp: update_where_def dest: find_P)
  then have "?f a \<in> set (t_apis db1)" by (force simp: db1 update_where_def)
  moreover have "catalog_ok db1" unfolding db1 by (rule update_where_ok [OF ok]) simp_all
  ultimately show "dead i db1" using \<open>?P a\<close> by (auto simp: dead_def live_def intro!: bexI [of _ "?f a"])
qed

lemma in_window: "x \<in> set (window l k xs) \<Longrightarrow> x \<in> set xs"
  by (auto simp: window_def Let_def split: option.splits dest: in_set_takeD in_set_dropD)

lemma listed_live:
  "a \<in> set (db_listPublic f db) \<Longrightarrow> a \<in> set (t_apis db) \<and> live a \<and> a_status a = StatusActive"
  "a \<in> set (db_listByDeveloper dev f db) \<Longrightarrow> a \<in> set (t_apis db) \<and> live a"
  by (auto simp: db_listPublic_def db_listByDeveloper_def Let_def split: option.splits if_splits dest!: in_window)

text \<open>C14. A deleted API is out of sight until it is restored: after a successful deletion and any sequence of other changes except a restoration of
  that API, no listing and no lookup for the public shows it, whatever the filters, while the raw record is still there,
  marked as deleted.\<close>

theorem deleted_api_invisible:
  assumes "catalog_ok db" "db_delete i now db = (True, db1)" "\<forall>c \<in> set cs. \<forall>t. c \<noteq> Restore i t"
  shows "let db' = cat_db (fold change cs \<lparr>cat_db = db1, cat_cache = cache\<rparr>) in
    i \<notin> a_id ` set (db_listPublic f db') \<and> i \<notin> a_id ` set (db_listByDeveloper dev f db') \<and>
    i \<notin> (\<lambda>x. t_id (i_details x)) ` set (fst (db_listPublicDetailed f db')) \<and> db_findById i db' = None \<and>
    (\<exists>a. db_findRawById i db' = Some a \<and> \<not> live a)"
proof -
  let ?db = "cat_db (fold change cs \<lparr>cat_db = db1, cat_cache = cache\<rparr>)"
  have "dead i (cat_db (fold change cs s))" if "dead i (cat_db s)" for s
    using that assms(3) by (induction cs arbitrary: s) (auto intro: dead_change)
  then have d: "dead i ?db" using dead_delete [OF assms(1,2)] by simp
  note live = dead_unique [OF d]
  have "i \<notin> (\<lambda>x. t_id (i_details x)) ` set (fst (db_listPublicDetailed f ?db))"
    using live by (auto simp: db_listPublicDetailed_def Let_def details_of_def dest!: in_window)
  moreover have "db_findById i ?db = None"
    using live by (auto simp: db_findById_def find_None_iff)
  moreover obtain a where "db_findRawById i ?db = Some a"
    using d by (cases "db_findRawById i ?db") (auto simp: dead_def db_findRawById_def find_None_iff)
  moreover from this have "\<not> live a" using live find_P by (metis (mono_tags, lifting) db_findRawById_def)
  moreover have "i \<notin> a_id ` set (db_listPublic f ?db)" "i \<notin> a_id ` set (db_listByDeveloper dev f ?db)"
    using live listed_live by fast+
  ultimately show ?thesis by (simp add: Let_def)
qed

text \<open>Restoring undoes deleting: a successful deletion followed by a restoration returns the record and leaves every table as it was before the
  deletion, except for the time of the last update of that API; deleting twice reports that there was nothing to delete
  and changes nothing.\<close>

theorem restore_undoes_delete:
  assumes "catalog_ok db" "db_delete i t db = (True, db1)"
  shows "db_restore i t' db1 = (map_option (\<lambda>a. a\<lparr>a_updated_at := seconds t'\<rparr>) (db_findRawById i db),
      db\<lparr>t_apis := map (\<lambda>a. if a_id a = i then a\<lparr>a_updated_at := seconds t'\<rparr> else a) (t_apis db)\<rparr>) \<and>
    db_delete i t' db1 = (False, db1)"
proof -
  let ?P = "\<lambda>a. a_id a = i \<and> live a" and ?Q = "\<lambda>a. a_id a = i \<and> \<not> live a"
  let ?d = "\<lambda>a. a\<lparr>a_deleted_at := Some (seconds t), a_updated_at := seconds t\<rparr>"
  let ?r = "\<lambda>a. a\<lparr>a_deleted_at := None, a_updated_at := seconds t'\<rparr>"
  have db1: "db1 = db\<lparr>t_apis := map (\<lambda>a. if ?P a then ?d a else a) (t_apis db)\<rparr>" and found: "List.find ?P (t_apis db) \<noteq> None"
    using assms(2) by (auto simp: db_delete_def update_where_def)
  obtain b where b: "b \<in> set (t_apis db)" "a_id b = i" "live b" using found by (auto simp: find_None_iff)
  have uniq: "a \<in> set (t_apis db) \<Longrightarrow> a_id a = i \<Longrightarrow> a = b" for a
    using assms(1) b by (auto simp: catalog_ok_def distinct_map dest: inj_onD)
  have "map (\<lambda>a. if ?Q a then ?r a else a) (t_apis db1) = map (\<lambda>a. if a_id a = i then a\<lparr>a_updated_at := seconds t'\<rparr> else a) (t_apis db)"
    using uniq b(3) by (auto simp: db1 live_def)
  moreover have "List.find ?Q (t_apis db1) = Some (?d b)"
  proof -
    have "distinct (map a_id (t_apis db1))" "?d b \<in> set (t_apis db1)"
      using dead_delete [OF assms] b by (auto simp: dead_def catalog_ok_def db1)
    from find_by_id [OF this, of "\<lambda>a. \<not> live a"] show ?thesis using b(2) by (simp add: live_def)
  qed
  moreover have "db_findRawById i db = Some b"
    using find_by_id [of "t_apis db" b "\<lambda>_. True"] assms(1) b by (simp add: db_findRawById_def catalog_ok_def)
  moreover have "?r (?d b) = b\<lparr>a_updated_at := seconds t'\<rparr>" using b(3) by (simp add: live_def)
  moreover have "List.find ?P (t_apis db1) = None" using dead_unique [OF dead_delete [OF assms]] by (auto simp: find_None_iff)
  moreover from this have "snd (update_where ?P f db1) = db1" for f by (intro update_where_none) (simp add: update_where_def)
  ultimately show ?thesis by (simp add: db_restore_def db_delete_def update_where_def db1)
qed

section \<open>Pages of the public listing\<close>

definition newer :: "Api \<Rightarrow> Api \<Rightarrow> bool" where
  "newer a b \<longleftrightarrow> below (a_created_at a) (a_id a) b"

lemma newer_order: "transp newer" "asymp newer"
  by (auto simp: newer_def below_def intro!: transpI asympI)

lemma newest_apis_total:
  assumes "distinct (map a_id as)"
  shows "\<forall>a \<in> set as. \<forall>b \<in> set as. a \<noteq> b \<longrightarrow> (newest_apis a b \<le> 0) = newer a b \<and> (newer a b \<or> newer b a)"
proof (intro ballI impI)
  fix a b assume "a \<in> set as" "b \<in> set as" "a \<noteq> b"
  with assms have "a_id a \<noteq> a_id b" by (metis distinct_map inj_onD)
  then show "(newest_apis a b \<le> 0) = newer a b \<and> (newer a b \<or> newer b a)"
    by (auto simp: newest_apis_def newer_def below_def)
qed

lemma newest_apis_sorted: "distinct (map a_id as) \<Longrightarrow> sorted_wrt newer (sort_by newest_apis as)"
  by (rule sort_by_sorted [OF newer_order(1) newest_apis_total]) (simp_all add: distinct_map)

lemma newest_apis_filter:
  "distinct (map a_id as) \<Longrightarrow> sort_by newest_apis (filter P as) = filter P (sort_by newest_apis as)"
  by (rule sort_by_filter [OF newer_order _ newest_apis_total]) (simp_all add: distinct_map)

definition public_listing :: "listing_query \<Rightarrow> api_db \<Rightarrow> Api list" where
  "public_listing q db = (if q_status q \<noteq> None \<and> q_status q \<noteq> Some StatusActive then []
     else sort_by newest_apis (filter (\<lambda>a. a_status a = StatusActive \<and> live a \<and> category_ok (q_category q) a \<and> db_search (q_search q) a) (t_apis db)))"

lemma listing_sorted: "catalog_ok db \<Longrightarrow> sorted_wrt newer (public_listing q db)"
  by (simp add: public_listing_def catalog_ok_def distinct_map_filter newest_apis_sorted)

lemma public_rows:
  assumes "catalog_ok db"
  shows "db_listPublic \<lparr>f_status = q_status q, f_category = q_category q, f_search = q_search q, f_limit = Some l, f_offset = None, f_cursor = cur\<rparr> db =
    (case cur of None \<Rightarrow> take l (public_listing q db) | Some (t, i) \<Rightarrow> take (Suc l) (filter (below (seconds t) i) (public_listing q db)))"
proof (cases "q_status q \<noteq> None \<and> q_status q \<noteq> Some StatusActive")
  case False
  have "distinct (map a_id (t_apis db))" using assms by (simp add: catalog_ok_def)
  then have s: "sort_by newest_apis (filter (\<lambda>a. a_status a = StatusActive \<and> live a \<and> category_ok (q_category q) a \<and> db_search (q_search q) a \<and> P a) (t_apis db)) =
      filter P (public_listing q db)" for P
    using False newest_apis_filter [of "filter (\<lambda>a. a_status a = StatusActive \<and> live a \<and> category_ok (q_category q) a \<and> db_search (q_search q) a) (t_apis db)" P]
    by (auto simp: public_listing_def distinct_map_filter conj_assoc)
  show ?thesis
  proof (cases cur)
    case None
    then show ?thesis using False s [of "\<lambda>_. True"] by (auto simp: db_listPublic_def window_def Let_def)
  next
    case (Some c)
    then show ?thesis using False s [of "below (seconds (fst c)) (snd c)"] by (cases c) (auto simp: db_listPublic_def window_def Let_def)
  qed
qed (auto simp: db_listPublic_def public_listing_def split: option.split)

lemma rows_page:
  assumes "catalog_ok db" "0 < q_limit q"
  shows "(case listing_rows q cur db of (xs, nx, _) \<Rightarrow> (xs, nx)) = page (q_limit q) next_of
    (case cur of None \<Rightarrow> public_listing q db | Some (t, i) \<Rightarrow> filter (below (seconds t) i) (public_listing q db))"
proof -
  define zs where "zs = (case cur of None \<Rightarrow> public_listing q db | Some (t, i) \<Rightarrow> filter (below (seconds t) i) (public_listing q db))"
  have "db_listPublic \<lparr>f_status = q_status q, f_category = q_category q, f_search = q_search q,
      f_limit = Some (if cur \<noteq> None then q_limit q else q_limit q + 1), f_offset = None, f_cursor = cur\<rparr> db = take (Suc (q_limit q)) zs"
    unfolding public_rows [OF assms(1)] zs_def by (auto split: option.split)
  then show ?thesis using assms(2) unfolding zs_def [symmetric]
    by (auto simp: listing_rows_def page_def Let_def min_def)
qed

text \<open>A client that follows the cursors of the listing route: a cursor is sent back as it was received.\<close>

definition catalog_fetch :: "(string \<Rightarrow> millis option) \<Rightarrow> listing_query \<Rightarrow> api_db \<Rightarrow> string option \<Rightarrow> Api list \<times> string option" where
  "catalog_fetch dateParse q db c = (case read_cursor dateParse c of Inl e \<Rightarrow> ([], None)
     | Inr cur \<Rightarrow> (case listing_rows q cur db of (xs, nx, _) \<Rightarrow> (xs, nx)))"

text \<open>\<open>Date.parse\<close> reads what \<open>toISOString\<close> prints for the dates of the table.\<close>

definition dates_ok :: "(string \<Rightarrow> millis option) \<Rightarrow> api_db \<Rightarrow> bool" where
  "dates_ok dateParse db \<longleftrightarrow> list_all (\<lambda>a. dateParse (toISOString (a_created_at a)) = Some (a_created_at a)) (t_apis db)"

lemma iso_no_bar: "CHR ''|'' \<notin> set (toISOString t)" "toISOString t \<noteq> []"
  using pad_no_bar by (auto simp: toISOString_def iso_day_def iso_time_def iso_year_def two_digits_def split: prod.split)

lemma leading_show_int: "0 < n \<Longrightarrow> leading_int (show_int n) = Some n"
proof -
  assume n: "0 < n"
  have d: "is_digit (hd (show_nat (nat n)))" using show_nat_digits [of "nat n"] by (simp add: list_all_iff)
  then have "\<not> is_space (hd (show_nat (nat n)))" "hd (show_nat (nat n)) \<notin> {CHR ''-'', CHR ''+''}"
    by (auto simp: is_digit_def is_space_def)
  moreover have "takeWhile is_digit (show_nat (nat n)) = show_nat (nat n)"
    using show_nat_digits [of "nat n"] by (intro takeWhile_eq_all_conv [THEN iffD2]) (simp add: list_all_iff)
  moreover have "dropWhile is_space (show_nat (nat n)) = show_nat (nat n)"
    using calculation(1) by (cases "show_nat (nat n)") auto
  ultimately show ?thesis using n unfolding leading_int_def show_int_def Let_def by (auto simp del: takeWhile_eq_all_conv)
qed

lemma read_next:
  assumes "dateParse (toISOString (a_created_at a)) = Some (a_created_at a)" "0 < a_id a"
  shows "read_cursor dateParse (Some (next_of a)) = Inr (Some (a_created_at a, a_id a))"
proof -
  have "decodeCursor dateParse (next_of a) = Inr (toISOString (a_created_at a), show_int (a_id a))"
    unfolding next_of_def using iso_no_bar show_int_no_bar assms(1) by (intro cursor_decoded) auto
  then show ?thesis using assms leading_show_int [of "a_id a"] by (simp add: read_cursor_def)
qed

definition pages_ok :: "(string \<Rightarrow> millis option) \<Rightarrow> listing_query \<Rightarrow> api_db \<Rightarrow> bool" where
  "pages_ok dateParse q db \<longleftrightarrow> catalog_ok db \<and> 0 < q_limit q \<and> dates_ok dateParse db"

interpretation catalog_pages: cursor_pages "catalog_fetch dateParse q db" "public_listing q db" next_of "q_limit q" "pages_ok dateParse q db"
proof
  show "catalog_fetch dateParse q db None = page (q_limit q) next_of (public_listing q db)" if "pages_ok dateParse q db"
    using that rows_page [of db q None] by (simp add: catalog_fetch_def read_cursor_def pages_ok_def)
  show "catalog_fetch dateParse q db (Some (next_of y)) = page (q_limit q) next_of zs"
    if ok: "pages_ok dateParse q db" and l: "public_listing q db = xs @ y # zs" for xs y zs
  proof -
    have cat: "catalog_ok db" "0 < q_limit q" using ok by (simp_all add: pages_ok_def)
    have "y \<in> set (public_listing q db)" by (simp add: l)
    then have "y \<in> set (t_apis db)" by (auto simp: public_listing_def split: if_splits)
    then have y: "0 < a_id y" "seconds (a_created_at y) = a_created_at y"
      "dateParse (toISOString (a_created_at y)) = Some (a_created_at y)"
      using cat(1) ok by (auto simp: catalog_ok_def pages_ok_def dates_ok_def list_all_iff)
    have "filter (newer y) (public_listing q db) = zs"
      unfolding l using listing_sorted [OF cat(1), of q] by (intro filter_suffix [OF newer_order(2)]) (simp add: l)
    then have "filter (below (a_created_at y) (a_id y)) (public_listing q db) = zs" by (simp add: newer_def [abs_def])
    then show ?thesis
      using rows_page [OF cat, of "Some (a_created_at y, a_id y)"] read_next [of dateParse y] y ok
      by (simp add: catalog_fetch_def pages_ok_def)
  qed
  show "0 < q_limit q" if "pages_ok dateParse q db" using that by (simp add: pages_ok_def)
qed

text \<open>C16. A client that follows the opaque cursors of the public listing sees every live, active API that matches the filters exactly once,
  newest first, whatever the page size, when the catalogue does not change in between.\<close>

theorem catalog_pages_complete:
  assumes "catalog_ok db" "0 < q_limit q" "dates_ok dateParse db" "length (public_listing q db) < n"
  shows "walk_pages (catalog_fetch dateParse q db) n None = public_listing q db \<and> sorted_wrt newer (public_listing q db) \<and>
    (q_status q \<in> {None, Some StatusActive} \<longrightarrow> set (public_listing q db) =
       {a \<in> set (t_apis db). a_status a = StatusActive \<and> live a \<and> category_ok (q_category q) a \<and> db_search (q_search q) a}) \<and>
    distinct (public_listing q db)"
proof (intro conjI)
  show "walk_pages (catalog_fetch dateParse q db) n None = public_listing q db"
    using assms by (intro catalog_pages.walk_all) (simp_all add: pages_ok_def)
  show s: "sorted_wrt newer (public_listing q db)" by (rule listing_sorted [OF assms(1)])
  show "distinct (public_listing q db)"
    using s asympD [OF newer_order(2)] by (metis (mono_tags, lifting) sorted_wrt_iff_nth_less distinct_conv_nth linorder_neqE_nat)
qed (auto simp: public_listing_def)

section \<open>The cache never shows an old catalogue\<close>

text \<open>
  What happens to the catalogue: a change, a request for the listing, or an edit of developer
  profiles, which are shown in the listing and do not flush the cache. At start-up the cache is
  warmed with one value under the key of the default query.
\<close>

datatype catalog_event = Changed api_change | Listed listing_query millis | ProfilesEdited "(int, ApiDeveloperInfo) js_map"

fun catalog_step :: "(string \<Rightarrow> millis option) \<Rightarrow> millis \<Rightarrow> catalog_event \<Rightarrow> catalog \<Rightarrow> catalog" where
  "catalog_step dateParse ttl (Changed c) s = change c s"
| "catalog_step dateParse ttl (Listed q now) s = snd (listing_route dateParse ttl q now s)"
| "catalog_step dateParse ttl (ProfilesEdited ds) s = s\<lparr>cat_db := (cat_db s)\<lparr>t_developers := ds\<rparr>\<rparr>"

definition default_query :: listing_query where
  "default_query = \<lparr>q_limit = 20, q_category = None, q_search = None, q_status = None, q_cursor = None\<rparr>"

definition warmed :: "millis \<Rightarrow> millis \<Rightarrow> ApiListItem list \<times> string option \<times> bool \<Rightarrow> (ApiListItem list \<times> string option \<times> bool) cache" where
  "warmed ttl t0 v0 = listings_set ttl t0 (buildCacheKey \<lparr>key_limit = 20, key_offset = 0, key_category = None, key_search = None,
     key_cursor = None, key_status = None\<rparr>) v0 []"

text \<open>A page without what it shows of the developers.\<close>

definition catalogue_part :: "ApiListItem list \<times> string option \<times> bool \<Rightarrow> ApiListItem list \<times> string option \<times> bool" where
  "catalogue_part = map_prod (map (\<lambda>i. i\<lparr>i_details := (i_details i)\<lparr>t_developer := no_developer\<rparr>\<rparr>)) id"

definition cache_fresh :: "(ApiListItem list \<times> string option \<times> bool \<Rightarrow> ApiListItem list \<times> string option \<times> bool) \<Rightarrow> millis \<Rightarrow>
    (string \<Rightarrow> millis option) \<Rightarrow> catalog \<Rightarrow> bool" where
  "cache_fresh part warm dateParse s \<longleftrightarrow> (\<forall>t q cur v. read_cursor dateParse (q_cursor q) = Inr cur \<longrightarrow>
     fst (listings_get t (buildCacheKey (cache_params q)) (cat_cache s)) = Some v \<longrightarrow> \<not> (q = default_query \<and> t \<le> warm) \<longrightarrow>
     part v = part (listing_page q cur (cat_db s)))"

lemma catalogue_part_profiles: "catalogue_part (listing_page q cur (db\<lparr>t_developers := ds\<rparr>)) = catalogue_part (listing_page q cur db)"
proof -
  have "listing_rows q cur (db\<lparr>t_developers := ds\<rparr>) = listing_rows q cur db" by (simp add: listing_rows_def db_listPublic_def Let_def)
  moreover have "(\<lambda>i. i\<lparr>i_details := (i_details i)\<lparr>t_developer := no_developer\<rparr>\<rparr>) \<circ> list_item (db\<lparr>t_developers := ds\<rparr>) =
      (\<lambda>i. i\<lparr>i_details := (i_details i)\<lparr>t_developer := no_developer\<rparr>\<rparr>) \<circ> list_item db"
    by (auto simp: list_item_def details_of_def db_getEndpoints_def)
  ultimately show ?thesis
    by (auto simp: listing_page_def catalogue_part_def cursorPaginatedResponse_def take_map [symmetric] split: prod.split)
qed

lemma status_text_inj: "status_text s = status_text t \<longleftrightarrow> s = t"
  by (cases s; cases t) simp_all

lemma listing_key_inj: "buildCacheKey (cache_params q) = buildCacheKey (cache_params q') \<longleftrightarrow> q = q'"
proof -
  have "map_option status_text a = map_option status_text b \<longleftrightarrow> a = b" for a b
    by (cases a; cases b) (simp_all add: status_text_inj)
  then show ?thesis
    using show_int_inj [of "int (q_limit q)" "int (q_limit q')"]
    by (auto simp: key_decomposed cache_params_def intro!: listing_query.equality)
qed

lemma fresh_flushed: "cache_fresh part warm dateParse \<lparr>cat_db = db, cat_cache = listings_invalidateAll c\<rparr>"
  by (simp add: cache_fresh_def listings.get_clear)

lemma update_where_flush:
  assumes "cache_fresh part warm dateParse s"
  shows "cache_fresh part warm dateParse \<lparr>cat_db = snd (update_where P f (cat_db s)),
    cat_cache = (if fst (update_where P f (cat_db s)) \<noteq> None then listings_invalidateAll (cat_cache s) else cat_cache s)\<rparr>"
proof (cases "fst (update_where P f (cat_db s)) = None")
  case True
  then show ?thesis using assms update_where_none [OF True] by (simp add: cache_fresh_def)
qed (simp add: fresh_flushed)

lemma fresh_change: "cache_fresh part warm dateParse s \<Longrightarrow> cache_fresh part warm dateParse (change c s)"
proof (cases c)
  case (Delete i now)
  assume "cache_fresh part warm dateParse s"
  from update_where_flush [OF this] show ?thesis by (simp add: Delete db_delete_def case_prod_beta)
next
  case (Restore i now)
  assume "cache_fresh part warm dateParse s"
  from update_where_flush [OF this] show ?thesis by (simp add: Restore db_restore_def case_prod_beta)
next
  case (AddEndpoints i es)
  assume "cache_fresh part warm dateParse s"
  then show ?thesis by (auto simp: AddEndpoints db_bulkCreateEndpoints_def fresh_flushed cache_fresh_def case_prod_beta listings.get_clear)
qed (simp_all add: fresh_flushed)

lemma fresh_route:
  assumes "cache_fresh part warm dateParse s"
  shows "cache_fresh part warm dateParse (snd (listing_route dateParse ttl q now s)) \<and>
    (case fst (listing_route dateParse ttl q now s) of
       Inl e \<Rightarrow> read_cursor dateParse (q_cursor q) = Inl e
     | Inr v \<Rightarrow> \<exists>cur. read_cursor dateParse (q_cursor q) = Inr cur \<and>
         (q = default_query \<and> now \<le> warm \<or> part v = part (listing_page q cur (cat_db s))))"
proof (cases "read_cursor dateParse (q_cursor q)")
  case (Inr cur)
  let ?k = "buildCacheKey (cache_params q)"
  obtain h c1 where g: "listings_get now ?k (cat_cache s) = (h, c1)" by fastforce
  have c1: "cache_fresh part warm dateParse (s\<lparr>cat_cache := c1\<rparr>)"
    unfolding cache_fresh_def
  proof (intro allI impI)
    fix t q' cur' v
    assume r: "read_cursor dateParse (q_cursor q') = Inr cur'"
      and "fst (listings_get t (buildCacheKey (cache_params q')) (cat_cache (s\<lparr>cat_cache := c1\<rparr>))) = Some v"
      and n: "\<not> (q' = default_query \<and> t \<le> warm)"
    then have "fst (listings_get t (buildCacheKey (cache_params q')) (cat_cache s)) = Some v"
      using listings.get_get [of t "buildCacheKey (cache_params q')" now ?k "cat_cache s"] g by simp
    with assms r n have "part v = part (listing_page q' cur' (cat_db s))" unfolding cache_fresh_def by blast
    then show "part v = part (listing_page q' cur' (cat_db (s\<lparr>cat_cache := c1\<rparr>)))" by simp
  qed
  show ?thesis
  proof (cases h)
    case None
    then show ?thesis using Inr g c1
      by (auto simp: listing_route_def cache_fresh_def Let_def listings.get_set listing_key_inj split: if_splits)
  next
    case (Some v)
    then have "fst (listings_get now ?k (cat_cache s)) = Some v" using g by simp
    with assms Inr have "q = default_query \<and> now \<le> warm \<or> part v = part (listing_page q cur (cat_db s))"
      unfolding cache_fresh_def by blast
    then show ?thesis using Some Inr g c1 by (simp add: listing_route_def)
  qed
qed (use assms in \<open>simp add: listing_route_def\<close>)

lemma fresh_step:
  assumes "cache_fresh part warm dateParse s" and "(\<exists>ds. e = ProfilesEdited ds) \<Longrightarrow> part = catalogue_part"
  shows "cache_fresh part warm dateParse (catalog_step dateParse ttl e s)"
proof (cases e)
  case (ProfilesEdited ds)
  with assms show ?thesis by (auto simp: cache_fresh_def catalogue_part_profiles)
qed (use assms(1) fresh_change fresh_route in auto)

lemma fresh_steps:
  assumes "cache_fresh part warm dateParse s" and "(\<exists>ds. ProfilesEdited ds \<in> set es) \<Longrightarrow> part = catalogue_part"
  shows "cache_fresh part warm dateParse (fold (catalog_step dateParse ttl) es s)"
  using assms
proof (induction es arbitrary: s)
  case (Cons e es)
  have "cache_fresh part warm dateParse (catalog_step dateParse ttl e s)" using Cons.prems by (intro fresh_step) auto
  from Cons.IH [OF this] Cons.prems(2) show ?case by auto
qed simp

lemma fresh_warmed: "cache_fresh part (t0 + ttl) dateParse \<lparr>cat_db = db, cat_cache = warmed ttl t0 v0\<rparr>"
proof -
  have k: "\<lparr>key_limit = 20, key_offset = 0, key_category = None, key_search = None, key_cursor = None, key_status = None\<rparr> = cache_params default_query"
    by (simp add: cache_params_def default_query_def)
  have "fst (listings_get t (buildCacheKey (cache_params q)) []) = (None :: (ApiListItem list \<times> string option \<times> bool) option)" for t q
    using listings.get_clear [of t "buildCacheKey (cache_params q)" "[]"] by (simp add: listings_invalidateAll_def)
  then show ?thesis
    by (auto simp: cache_fresh_def warmed_def k listings.get_set listing_key_inj split: if_splits)
qed

text \<open>C15. The cache of the public listing is transparent as long as requests do not overlap: from the
  cache as start-up warms it, after any sequence of catalogue changes, listing requests and edits of
  developer profiles, a listing request is answered with the page of the catalogue as it is now, up
  to the developer profiles shown in it, or with the error for its cursor; the developer profiles are
  those of now as well when no profile was edited. Every change flushes what it makes stale, and two
  different queries never share an entry. The default query is excepted for one time to live after
  the warm-up, whose value is not such a page.\<close>

theorem catalog_cache_fresh:
  assumes "\<not> (q = default_query \<and> now \<le> t0 + ttl)"
  shows "let s = fold (catalog_step dateParse ttl) es \<lparr>cat_db = db, cat_cache = warmed ttl t0 v0\<rparr> in
    case fst (listing_route dateParse ttl q now s) of
      Inl e \<Rightarrow> read_cursor dateParse (q_cursor q) = Inl e
    | Inr v \<Rightarrow> \<exists>cur. read_cursor dateParse (q_cursor q) = Inr cur \<and>
        catalogue_part v = catalogue_part (listing_page q cur (cat_db s)) \<and>
        ((\<exists>ds. ProfilesEdited ds \<in> set es) \<or> v = listing_page q cur (cat_db s))"
proof -
  let ?s0 = "\<lparr>cat_db = db, cat_cache = warmed ttl t0 v0\<rparr>"
  define s where "s = fold (catalog_step dateParse ttl) es ?s0"
  have "cache_fresh catalogue_part (t0 + ttl) dateParse s"
    unfolding s_def by (rule fresh_steps [OF fresh_warmed]) simp
  moreover have "(\<exists>ds. ProfilesEdited ds \<in> set es) \<or> cache_fresh id (t0 + ttl) dateParse s"
    unfolding s_def using fresh_steps [OF fresh_warmed, of es id] by blast
  ultimately show ?thesis
    using fresh_route [of catalogue_part "t0 + ttl" dateParse s ttl q now] fresh_route [of id "t0 + ttl" dateParse s ttl q now] assms
    unfolding s_def [symmetric] Let_def by (auto split: sum.splits)
qed

text \<open>When requests do overlap, a page read before a change and stored after its flush is served until its time to live is over.\<close>

lemma overlapping_listing_stale:
  assumes "read_cursor dateParse (q_cursor q) = Inr cur" "t \<le> t0 + ttl"
  shows "let s1 = change c s; late = s1\<lparr>cat_cache := listings_set ttl t0 (buildCacheKey (cache_params q)) (listing_page q cur (cat_db s)) (cat_cache s1)\<rparr> in
    fst (listing_route dateParse ttl q t late) = Inr (listing_page q cur (cat_db s))"
proof -
  let ?k = "buildCacheKey (cache_params q)" and ?v = "listing_page q cur (cat_db s)" and ?c = "cat_cache (change c s)"
  have "fst (listings_get t ?k (listings_set ttl t0 ?k ?v ?c)) = Some ?v" using assms(2) by (simp add: listings.get_set)
  then show ?thesis using assms(1)
    by (cases "listings_get t ?k (listings_set ttl t0 ?k ?v ?c)") (simp add: listing_route_def Let_def)
qed

section \<open>Both repositories agree\<close>

definition plain_search :: "string \<Rightarrow> bool" where
  "plain_search s \<longleftrightarrow> ascii s \<and> CHR ''%'' \<notin> set s \<and> CHR ''_'' \<notin> set s"

lemma ascii_lower_map: "ascii s \<Longrightarrow> toLowerCase s = map ascii_lower s"
  by (auto simp: ascii_def toLowerCase_def lower_char_def ascii_lower_def list_all_iff Let_def)

lemma like_anything: "like_match ''%'' s"
  by (auto simp: list_ex_iff intro!: bexI [of _ "length s"])

lemma like_prefix:
  "CHR ''%'' \<notin> set p \<Longrightarrow> CHR ''_'' \<notin> set p \<Longrightarrow>
   like_match (p @ ''%'') s \<longleftrightarrow> take (length p) (map ascii_lower s) = map ascii_lower p"
proof (induction p arbitrary: s)
  case Nil
  show ?case using like_anything by simp
next
  case (Cons c p)
  then show ?case by (cases s) auto
qed

lemma like_includes:
  assumes "plain_search p" "ascii s"
  shows "like_match (''%'' @ p @ ''%'') s \<longleftrightarrow> str_includes (toLowerCase s) (toLowerCase p)"
  using assms like_prefix [of p] by (simp add: plain_search_def str_includes_def ascii_lower_map drop_map)

definition text_agrees :: "string option \<Rightarrow> Api list \<Rightarrow> bool" where
  "text_agrees s as \<longleftrightarrow> (truthy_text s \<longrightarrow> plain_search (the s) \<and> (\<forall>a \<in> set as. ascii (a_name a)))"

lemma searches_agree: "text_agrees s as \<Longrightarrow> a \<in> set as \<Longrightarrow> db_search s a = mem_search s a"
  unfolding text_agrees_def db_search_def mem_search_def using like_includes by blast

text \<open>C17. The two repositories answer alike: over the same records, the public listing with any filters,
  limit, offset (with a limit) or cursor is the same in the database and in memory, and the listing
  of a developer has the same APIs, when names are ASCII text, the search text is ASCII without \<open>LIKE\<close>
  wildcards and the cursor has no fraction of a second. The raw lookup and the number of results of the
  detailed listing are the same too. The order of a developer's listing, and with it what a window of it
  shows, is left open: the database query has no order.\<close>

theorem repositories_agree:
  assumes "catalog_ok db" "m_apis m = t_apis db" "text_agrees (f_search f) (t_apis db)"
    "case f_cursor f of None \<Rightarrow> True | Some (t, _) \<Rightarrow> seconds t = t" "f_limit f = None \<Longrightarrow> f_offset f = None"
  shows "db_listPublic f db = mem_listPublic f m \<and>
    mset (db_listByDeveloper dev (f\<lparr>f_limit := None, f_offset := None\<rparr>) db) =
      mset (mem_listByDeveloper dev (f\<lparr>f_limit := None, f_offset := None\<rparr>) m) \<and>
    db_findRawById i db = mem_findRawById i m \<and> snd (db_listPublicDetailed f db) = snd (mem_listPublicDetailed f m)"
proof (intro conjI)
  have s: "filter (\<lambda>a. P a \<and> db_search (f_search f) a \<and> Q a) (t_apis db) = filter (\<lambda>a. P a \<and> mem_search (f_search f) a \<and> Q a) (t_apis db)" for P Q
    using searches_agree [OF assms(3)] by (intro filter_cong) auto
  have sorted: "sort_by newest_apis (filter (\<lambda>a. P a \<and> Q a) (t_apis db)) = filter Q (sort_by newest_apis (filter P (t_apis db)))" for P Q
    using newest_apis_filter [of "filter P (t_apis db)" Q] assms(1) by (simp add: catalog_ok_def distinct_map_filter)
  let ?P = "\<lambda>a. a_status a = StatusActive \<and> live a \<and> category_ok (f_category f) a"
  have "sort_by newest_apis (filter (\<lambda>a. ?P a \<and> db_search (f_search f) a \<and> Q a) (t_apis db)) =
      filter Q (sort_by newest_apis (filter (\<lambda>a. ?P a \<and> mem_search (f_search f) a) (t_apis db)))" for Q
    using s [of ?P Q] sorted [of "\<lambda>a. ?P a \<and> mem_search (f_search f) a" Q] by (simp add: conj_assoc)
  from this [of "\<lambda>_. True"] this [of "\<lambda>a. case f_cursor f of None \<Rightarrow> True | Some (t, i) \<Rightarrow> below (seconds t) i a"]
  show "db_listPublic f db = mem_listPublic f m"
    using assms(4) by (auto simp: db_listPublic_def mem_listPublic_def assms(2) Let_def conj_ac split: option.split prod.splits)
  show "mset (db_listByDeveloper dev (f\<lparr>f_limit := None, f_offset := None\<rparr>) db) =
      mset (mem_listByDeveloper dev (f\<lparr>f_limit := None, f_offset := None\<rparr>) m)"
    using s [of "\<lambda>a. a_developer_id a = dev \<and> live a \<and> (case f_status f of None \<Rightarrow> True | Some s \<Rightarrow> a_status a = s) \<and> category_ok (f_category f) a" "\<lambda>_. True"]
    by (simp add: db_listByDeveloper_def mem_listByDeveloper_def assms(2) conj_ac)
  show "snd (db_listPublicDetailed f db) = snd (mem_listPublicDetailed f m)"
    using s [of "\<lambda>a. live a \<and> a_status a = (case f_status f of None \<Rightarrow> StatusActive | Some s \<Rightarrow> s) \<and> category_ok (f_category f) a" "\<lambda>_. True"]
    by (simp add: db_listPublicDetailed_def mem_listPublicDetailed_def assms(2) conj_ac Let_def)
qed (simp add: db_findRawById_def mem_findRawById_def assms(2))

section \<open>Examples\<close>

definition demo_api :: "int \<Rightarrow> string \<Rightarrow> millis \<Rightarrow> Api" where
  "demo_api i n t = \<lparr>a_id = i, a_developer_id = 7, a_name = n, a_description = None, a_base_url = ''https://a.example'', a_logo_url = None,
     a_category = None, a_status = StatusActive, a_created_at = t, a_updated_at = t, a_deleted_at = None\<rparr>"

definition demo_db :: api_db where
  "demo_db = \<lparr>t_apis = [demo_api 1 ''Maps'' 1000, demo_api 2 ''Weather'' 2000, demo_api 3 ''Mail'' 2000], t_endpoints = [],
     t_developers = [], next_api = 4, next_endpoint = 1\<rparr>"

definition demo_memory :: api_memory where
  "demo_memory = \<lparr>m_apis = t_apis demo_db, m_details = [], m_endpoints = [], m_nextId = 4\<rparr>"

definition demo_filters :: ApiListFilters where
  "demo_filters = \<lparr>f_status = None, f_category = None, f_search = Some ''MA'', f_limit = Some 1, f_offset = None, f_cursor = Some (2000, 3)\<rparr>"

lemma demo_ok: "catalog_ok demo_db"
  by (auto simp: catalog_ok_def demo_db_def demo_api_def seconds_def)

lemma demo_delete: "fst (db_delete 2 5500 demo_db)"
  by (simp add: db_delete_def update_where_def demo_db_def demo_api_def live_def)

theorem deleted_api_invisible_witness:
  "i_details ` set (fst (db_listPublicDetailed demo_filters (cat_db (fold change [Update 2 (\<lparr>u_name = Some ''Rain'', u_description = None,
      u_base_url = None, u_logo_url = None, u_category = None, u_status = None\<rparr>) 6000] \<lparr>cat_db = snd (db_delete 2 5500 demo_db), cat_cache = []\<rparr>)))) \<inter>
    {d. t_id d = 2} = {}"
  using deleted_api_invisible [OF demo_ok, of 2 5500 "snd (db_delete 2 5500 demo_db)" "[Update 2 (\<lparr>u_name = Some ''Rain'', u_description = None,
      u_base_url = None, u_logo_url = None, u_category = None, u_status = None\<rparr>) 6000]" "[]" demo_filters 0] demo_delete
  by (force simp: Let_def prod_eq_iff simp del: fold.simps change.simps)

theorem restore_undoes_delete_witness:
  "snd (db_restore 2 9000 (snd (db_delete 2 5500 demo_db))) =
     demo_db\<lparr>t_apis := [demo_api 1 ''Maps'' 1000, (demo_api 2 ''Weather'' 2000)\<lparr>a_updated_at := 9000\<rparr>, demo_api 3 ''Mail'' 2000]\<rparr>"
  using restore_undoes_delete [OF demo_ok, of 2 5500 "snd (db_delete 2 5500 demo_db)" 9000] demo_delete
  by (simp add: prod_eq_iff demo_db_def demo_api_def seconds_def)

theorem repositories_agree_witness: "map a_name (mem_listPublic demo_filters demo_memory) = [''Maps'']"
proof -
  have "db_listPublic demo_filters demo_db = mem_listPublic demo_filters demo_memory"
    using repositories_agree [of demo_db demo_memory demo_filters 0 0] demo_ok
    by (simp add: demo_memory_def demo_filters_def text_agrees_def plain_search_def demo_db_def demo_api_def ascii_def seconds_def)
  moreover have "map a_name (db_listPublic demo_filters demo_db) = [''Maps'']" by code_simp
  ultimately show ?thesis by simp
qed

definition demo_dates :: "string \<Rightarrow> millis option" where
  "demo_dates = map_of [(''1970-01-01T00:00:01.000Z'', 1000), (''1970-01-01T00:00:02.000Z'', 2000)]"

definition demo_query :: listing_query where
  "demo_query = \<lparr>q_limit = 1, q_category = None, q_search = None, q_status = None, q_cursor = None\<rparr>"

theorem catalog_pages_complete_witness:
  "map a_id (walk_pages (catalog_fetch demo_dates demo_query demo_db) 4 None) = [3, 2, 1]"
proof -
  have "map a_id (public_listing demo_query demo_db) = [3, 2, 1]" by code_simp
  moreover have "dates_ok demo_dates demo_db" by code_simp
  moreover have "length (public_listing demo_query demo_db) < 4" "0 < q_limit demo_query" by code_simp+
  ultimately show ?thesis using catalog_pages_complete [OF demo_ok, of demo_query demo_dates 4] by simp
qed

text \<open>After the warm-up, a profile edit and a deletion, a listing of two APIs shows the two that are left.\<close>

theorem catalog_cache_fresh_witness:
  "let q = demo_query\<lparr>q_limit := 2\<rparr>;
       s = fold (catalog_step demo_dates 60000) [Listed q 1, ProfilesEdited [], Changed (Delete 2 5000)]
         \<lparr>cat_db = demo_db, cat_cache = warmed 60000 0 ([], None, False)\<rparr> in
   case fst (listing_route demo_dates 60000 q 6000 s) of Inl e \<Rightarrow> False
   | Inr v \<Rightarrow> map (t_id \<circ> i_details) (fst (catalogue_part v)) = [3, 1]"
proof -
  let ?q = "demo_query\<lparr>q_limit := 2\<rparr>" and ?es = "[Listed (demo_query\<lparr>q_limit := 2\<rparr>) 1, ProfilesEdited [], Changed (Delete 2 5000)]"
  let ?s = "fold (catalog_step demo_dates 60000) ?es \<lparr>cat_db = demo_db, cat_cache = warmed 60000 0 ([], None, False)\<rparr>"
  have "\<not> (?q = default_query \<and> 6000 \<le> 0 + (60000 :: int))" by (simp add: demo_query_def default_query_def)
  from catalog_cache_fresh [OF this, of demo_dates ?es demo_db "([], None, False)"]
  have fresh: "case fst (listing_route demo_dates 60000 ?q 6000 ?s) of Inl e \<Rightarrow> read_cursor demo_dates (q_cursor ?q) = Inl e
    | Inr v \<Rightarrow> \<exists>cur. read_cursor demo_dates (q_cursor ?q) = Inr cur \<and> catalogue_part v = catalogue_part (listing_page ?q cur (cat_db ?s))"
    by (auto simp: Let_def split: sum.splits)
  have "read_cursor demo_dates (q_cursor ?q) = Inr None" by (simp add: demo_query_def read_cursor_def)
  moreover have "map (t_id \<circ> i_details) (fst (catalogue_part (listing_page ?q None (cat_db ?s)))) = [3, 1]" by code_simp
  ultimately show ?thesis using fresh unfolding Let_def by (cases "fst (listing_route demo_dates 60000 ?q 6000 ?s)") auto
qed

end
