(* ===== verification/Reconciliation.thy ===== *)
theory Reconciliation
  imports Settlement UsagePg
begin

text \<open>
  The reconciliation jobs. \<^verbatim>\<open>services/billingReconciliationJob.ts\<close> compares the totals of usage events and of
  the revenue ledger per developer; \<^verbatim>\<open>services/settlementReconciliationJob.ts\<close> compares the status of
  settlements with the transactions Horizon knows.

  The database prints a sum with the scale of its column, so the scales of the two amount columns are
  arguments. The table \<open>apis\<close> is a list of ids with their developers. The store of the results is an
  operation on an arbitrary state that may throw. The error log is the list of the reported developers.
\<close>

section \<open>Totals per developer\<close>

text \<open>\<open>BigInt\<close> of a text; binary, octal and hexadecimal literals do not come from the database.\<close>

definition BigInt_of :: "string \<Rightarrow> int result" where
  "BigInt_of v = (let t = trim v in
     if t = [] then Inr 0
     else if hd t = CHR ''+'' \<and> tl t \<noteq> [] \<and> list_all is_digit (tl t) then Inr (int (read_nat (tl t)))
     else if signed_digits t then Inr (read_signed t)
     else Inl (Error (''Cannot convert '' @ v @ '' to a BigInt'')))"

definition total_of :: "string \<Rightarrow> (string \<times> int) list \<Rightarrow> int" where
  "total_of d xs = sum_list (map snd (filter (\<lambda>x. fst x = d) xs))"

text \<open>\<open>SELECT developer_id, SUM(amount)::text ... GROUP BY developer_id\<close>, read with \<open>BigInt\<close>.\<close>

definition group_totals :: "nat \<Rightarrow> (string \<times> int) list \<Rightarrow> (string \<times> int) list result" where
  "group_totals scale xs = map_result (\<lambda>d. map_inr (Pair d) (BigInt_of (numeric_text scale (total_of d xs)))) (remdups (map fst xs))"

definition usage_amounts :: "(string \<times> string) list \<Rightarrow> usage_db \<Rightarrow> (string \<times> int) list" where
  "usage_amounts owners db = concat (map (\<lambda>r. map (\<lambda>a. (snd a, ur_amount r)) (filter (\<lambda>a. fst a = ur_api_id r) owners)) (db_events db))"

definition ledger_amounts :: "usage_db \<Rightarrow> (string \<times> int) list" where
  "ledger_amounts db = map (\<lambda>l. (lr_developer_id l, lr_amount l)) (db_ledger db)"

definition fetchUsageTotals :: "nat \<Rightarrow> (string \<times> string) list \<Rightarrow> usage_db \<Rightarrow> (string \<times> int) list result" where
  "fetchUsageTotals scale owners db = group_totals scale (usage_amounts owners db)"

definition fetchLedgerTotals :: "nat \<Rightarrow> usage_db \<Rightarrow> (string \<times> int) list result" where
  "fetchLedgerTotals scale db = group_totals scale (ledger_amounts db)"

section \<open>The billing job\<close>

datatype run_status = RunOk | RunDiscrepancy

record ReconciliationRunInput =
  run_at :: millis
  run_developer :: string
  usage_total :: int
  ledger_total :: int
  run_delta :: int
  discrepancy_count :: nat
  run_status :: run_status

record ReconciliationRunSummary =
  sum_runAt :: millis
  totalDevelopers :: nat
  sum_discrepancies :: nat
  sum_rows :: "ReconciliationRunInput list"

definition run_row :: "millis \<Rightarrow> (string, int) js_map \<Rightarrow> (string, int) js_map \<Rightarrow> string \<Rightarrow> ReconciliationRunInput" where
  "run_row runAt usageMap ledgerMap d =
    (let u = (case map_get usageMap d of None \<Rightarrow> 0 | Some v \<Rightarrow> v); l = (case map_get ledgerMap d of None \<Rightarrow> 0 | Some v \<Rightarrow> v); delta = u - l in
     \<lparr>run_at = runAt, run_developer = d, usage_total = u, ledger_total = l, run_delta = delta,
      discrepancy_count = (if delta \<noteq> 0 then 1 else 0), run_status = (if delta \<noteq> 0 then RunDiscrepancy else RunOk)\<rparr>)"

fun reconcile_developers :: "(ReconciliationRunInput \<Rightarrow> 's \<Rightarrow> unit result \<times> 's) \<Rightarrow> int \<Rightarrow> (string \<Rightarrow> ReconciliationRunInput) \<Rightarrow> string list \<Rightarrow>
    ReconciliationRunInput list \<Rightarrow> nat \<Rightarrow> string list \<Rightarrow> 's \<Rightarrow> (ReconciliationRunInput list \<times> nat) result \<times> string list \<times> 's" where
  "reconcile_developers insertRun threshold row [] rows n logged s = (Inr (rows, n), logged, s)"
| "reconcile_developers insertRun threshold row (d # ds) rows n logged s =
    (let r = row d; bad = (run_delta r \<noteq> 0); logged1 = (if bad \<and> \<bar>run_delta r\<bar> > threshold then logged @ [d] else logged) in
     case insertRun r s of
       (Inl e, s1) \<Rightarrow> (Inl e, logged1, s1)
     | (Inr _, s1) \<Rightarrow> reconcile_developers insertRun threshold row ds (rows @ [r]) (if bad then n + 1 else n) logged1 s1)"

text \<open>A \<open>Set\<close> keeps the order of the first insertions.\<close>

definition js_set :: "'a list \<Rightarrow> 'a list" where
  "js_set xs = rev (remdups (rev xs))"

definition reconcile_billing :: "(ReconciliationRunInput \<Rightarrow> 's \<Rightarrow> unit result \<times> 's) \<Rightarrow> int \<Rightarrow> nat \<Rightarrow> nat \<Rightarrow> (string \<times> string) list \<Rightarrow> millis \<Rightarrow> usage_db \<Rightarrow> 's \<Rightarrow>
    ReconciliationRunSummary result \<times> string list \<times> 's" where
  "reconcile_billing insertRun threshold usage_scale ledger_scale owners runAt db s =
    (case fetchUsageTotals usage_scale owners db of Inl e \<Rightarrow> (Inl e, [], s) | Inr ut \<Rightarrow>
    (case fetchLedgerTotals ledger_scale db of Inl e \<Rightarrow> (Inl e, [], s) | Inr lt \<Rightarrow>
      (let ids = js_set (map fst ut @ map fst lt) in
       case reconcile_developers insertRun threshold (run_row runAt ut lt) ids [] 0 [] s of
         (Inl e, logged, s1) \<Rightarrow> (Inl e, logged, s1)
       | (Inr (rows, n), logged, s1) \<Rightarrow> (Inr \<lparr>sum_runAt = runAt, totalDevelopers = length ids, sum_discrepancies = n, sum_rows = rows\<rparr>, logged, s1))))"

section \<open>Exactness of the billing job\<close>

lemma BigInt_of_int [simp]: "BigInt_of (numeric_text 0 n) = Inr n"
proof -
  have t: "trim (show_int n) = show_int n" using trim_numeric [of 0 n] by (simp add: numeric_text_def)
  have "hd (show_int n) \<noteq> CHR ''+''"
    using hd_show_nat(1) by (auto simp: show_int_def is_digit_def dest: arg_cong [of _ _ is_digit])
  then show ?thesis using signed_show_int [of n] by (simp add: BigInt_of_def numeric_text_def t)
qed

lemma BigInt_of_fraction: "0 < scale \<Longrightarrow> \<exists>e. BigInt_of (numeric_text scale n) = Inl e"
proof -
  assume s: "0 < scale"
  let ?t = "numeric_text scale n"
  have dot: "CHR ''.'' \<in> set ?t" using s by (simp add: numeric_text_def)
  have ne: "show_int n \<noteq> []" by (rule signed_show_int(3))
  have h: "hd ?t = hd (show_int n)" "tl ?t = tl (show_int n) @ CHR ''.'' # replicate scale (CHR ''0'')"
    using ne s by (simp_all add: numeric_text_def)
  have "\<not> list_all is_digit (tl ?t)" by (simp add: h is_digit_def)
  moreover have "\<not> list_all is_digit ?t" using dot is_digit_not_dot by (auto simp: list_all_iff)
  moreover have "?t \<noteq> []" using ne by (simp add: numeric_text_def)
  ultimately show ?thesis by (auto simp: BigInt_of_def trim_numeric signed_digits_def Let_def)
qed

definition totals :: "(string \<times> int) list \<Rightarrow> (string \<times> int) list" where
  "totals xs = map (\<lambda>d. (d, total_of d xs)) (remdups (map fst xs))"

lemma group_totals_exact [simp]: "group_totals 0 xs = Inr (totals xs)"
  by (simp add: group_totals_def totals_def)

lemma map_result_fails: "x \<in> set xs \<Longrightarrow> \<exists>e. f x = Inl e \<Longrightarrow> \<exists>e. map_result f xs = Inl e"
  by (induction xs) (auto split: sum.split)

lemma group_totals_fails:
  assumes "xs \<noteq> []" "0 < scale"
  shows "\<exists>e. group_totals scale xs = Inl e"
proof -
  obtain d where "d \<in> set (remdups (map fst xs))" using assms(1) by (metis last_in_set set_remdups map_is_Nil_conv)
  then show ?thesis unfolding group_totals_def
    using BigInt_of_fraction [OF assms(2), of "total_of d xs"] by (intro map_result_fails) auto
qed

lemma total_of_absent: "d \<notin> fst ` set xs \<Longrightarrow> total_of d xs = 0"
proof -
  assume "d \<notin> fst ` set xs"
  then have "filter (\<lambda>x. fst x = d) xs = []" by (auto simp: filter_empty_conv image_iff)
  then show ?thesis by (simp add: total_of_def)
qed

lemma get_totals: "(case map_get (totals xs) d of None \<Rightarrow> 0 | Some v \<Rightarrow> v) = total_of d xs"
proof -
  have "map_of (map (\<lambda>d. (d, total_of d xs)) ds) d = (if d \<in> set ds then Some (total_of d xs) else None)" for ds
    by (induction ds) auto
  then show ?thesis using total_of_absent [of d xs] by (auto simp: totals_def)
qed

lemma set_js_set [simp]: "set (js_set xs) = set xs" "distinct (js_set xs)"
  by (simp_all add: js_set_def)

lemma reconcile_all:
  assumes "\<And>r s. insertRun r s = (Inr (), keep r s)"
  shows "reconcile_developers insertRun threshold row ds rows n logged s =
    (Inr (rows @ map row ds, n + length (filter (\<lambda>d. run_delta (row d) \<noteq> 0) ds)),
     logged @ filter (\<lambda>d. run_delta (row d) \<noteq> 0 \<and> \<bar>run_delta (row d)\<bar> > threshold) ds, fold keep (map row ds) s)"
  by (induction ds arbitrary: rows n logged s) (auto simp: assms Let_def)

definition ledger_delta :: "(string \<times> string) list \<Rightarrow> usage_db \<Rightarrow> string \<Rightarrow> int" where
  "ledger_delta owners db d = total_of d (usage_amounts owners db) - total_of d (ledger_amounts db)"

definition reported :: "(string \<times> string) list \<Rightarrow> usage_db \<Rightarrow> string list" where
  "reported owners db = js_set (map fst (totals (usage_amounts owners db)) @ map fst (totals (ledger_amounts db)))"

definition report_row :: "(string \<times> string) list \<Rightarrow> millis \<Rightarrow> usage_db \<Rightarrow> string \<Rightarrow> ReconciliationRunInput" where
  "report_row owners runAt db d = \<lparr>run_at = runAt, run_developer = d, usage_total = total_of d (usage_amounts owners db),
     ledger_total = total_of d (ledger_amounts db), run_delta = ledger_delta owners db d,
     discrepancy_count = (if ledger_delta owners db d \<noteq> 0 then 1 else 0), run_status = (if ledger_delta owners db d \<noteq> 0 then RunDiscrepancy else RunOk)\<rparr>"

lemma reconcile_result:
  assumes "\<And>r s. insertRun r s = (Inr (), keep r s)"
  shows "reconcile_billing insertRun threshold 0 0 owners runAt db s =
    (let ds = reported owners db; rows = map (report_row owners runAt db) ds in
     (Inr \<lparr>sum_runAt = runAt, totalDevelopers = length ds, sum_discrepancies = length (filter (\<lambda>d. ledger_delta owners db d \<noteq> 0) ds), sum_rows = rows\<rparr>,
      filter (\<lambda>d. ledger_delta owners db d \<noteq> 0 \<and> \<bar>ledger_delta owners db d\<bar> > threshold) ds, fold keep rows s))"
proof -
  have row: "run_row runAt (totals (usage_amounts owners db)) (totals (ledger_amounts db)) = report_row owners runAt db"
    by (rule ext) (simp add: run_row_def report_row_def get_totals ledger_delta_def Let_def)
  show ?thesis
    by (simp add: reconcile_billing_def fetchUsageTotals_def fetchLedgerTotals_def row reported_def Let_def
      reconcile_all [OF assms] report_row_def [abs_def])
qed

text \<open>The job when its store keeps what it is given.\<close>

definition keep_runs :: "ReconciliationRunInput \<Rightarrow> ReconciliationRunInput list \<Rightarrow> unit result \<times> ReconciliationRunInput list" where
  "keep_runs r s = (Inr (), s @ [r])"

lemma fold_keep: "fold (\<lambda>r s. s @ [r]) rs s = s @ rs"
  by (induction rs arbitrary: s) simp_all

lemma set_reported: "set (reported owners db) = fst ` set (usage_amounts owners db) \<union> fst ` set (ledger_amounts db)"
  by (auto simp: reported_def totals_def image_iff)

lemma distinct_reported: "distinct (reported owners db)"
  by (simp add: reported_def)

text \<open>A billing reconciliation run over whole amounts is exact: it stores one row for every developer who has usage or ledger entries and
  for nobody else, with both totals and their difference; it counts exactly the developers whose totals differ, and logs
  exactly those whose difference is above the threshold.\<close>

theorem billing_reconciliation_exact:
  "case reconcile_billing keep_runs threshold 0 0 owners runAt db s of
     (Inl e, _) \<Rightarrow> False
   | (Inr r, logged, s') \<Rightarrow>
       s' = s @ sum_rows r \<and> distinct (map run_developer (sum_rows r)) \<and>
       set (map run_developer (sum_rows r)) = fst ` set (usage_amounts owners db) \<union> fst ` set (ledger_amounts db) \<and>
       totalDevelopers r = length (sum_rows r) \<and>
       sum_rows r = map (report_row owners runAt db) (map run_developer (sum_rows r)) \<and>
       sum_discrepancies r = length (filter (\<lambda>x. run_status x = RunDiscrepancy) (sum_rows r)) \<and>
       logged = map run_developer (filter (\<lambda>x. run_delta x \<noteq> 0 \<and> \<bar>run_delta x\<bar> > threshold) (sum_rows r))"
proof -
  have k: "keep_runs r s = (Inr (), s @ [r])" for r s by (simp add: keep_runs_def)
  have d: "run_developer \<circ> report_row owners runAt db = id" by (auto simp: report_row_def)
  have f: "map run_developer (filter P (map (report_row owners runAt db) ds)) = filter (P \<circ> report_row owners runAt db) ds" for P ds
    by (induction ds) (auto simp: report_row_def)
  show ?thesis
    by (simp add: reconcile_result [OF k] Let_def fold_keep d f set_reported distinct_reported filter_map comp_def)
      (simp add: report_row_def distinct_reported)
qed

section \<open>An indexed ledger reconciles\<close>

definition ledger_sound :: "(string \<Rightarrow> string option result) \<Rightarrow> usage_db \<Rightarrow> bool" where
  "ledger_sound resolve db \<longleftrightarrow> (\<forall>l \<in> set (db_ledger db). \<exists>r \<in> set (db_events db). credited resolve r \<and> l = ledger_of resolve r)"

text \<open>The indexer looks developers up in the table the usage totals are joined with.\<close>

definition lookups_agree :: "(string \<Rightarrow> string option result) \<Rightarrow> (string \<times> string) list \<Rightarrow> bool" where
  "lookups_agree resolve owners \<longleftrightarrow> distinct (map fst owners) \<and> (\<forall>a \<in> set owners. snd a \<noteq> [] \<and> trim (snd a) = snd a) \<and>
     (\<forall>i. resolve i = Inr (map_of owners i))"

lemma filter_key: "distinct (map fst xs) \<Longrightarrow> filter (\<lambda>a. fst a = k) xs = (case map_of xs k of None \<Rightarrow> [] | Some v \<Rightarrow> [(k, v)])"
proof (induction xs)
  case (Cons x xs)
  then show ?case by (cases x) (auto simp: filter_empty_conv image_iff split: option.split dest: map_of_SomeD)
qed simp

lemma usage_amounts_credited:
  assumes "lookups_agree resolve owners"
  shows "usage_amounts owners db = map (\<lambda>r. (lr_developer_id (ledger_of resolve r), ur_amount r)) (filter (credited resolve) (db_events db))"
proof -
  have r: "map (\<lambda>a. (snd a, ur_amount r)) (filter (\<lambda>a. fst a = ur_api_id r) owners) =
      (if credited resolve r then [(lr_developer_id (ledger_of resolve r), ur_amount r)] else [])" for r
    using assms map_of_SomeD [of owners "ur_api_id r"]
    by (cases "map_of owners (ur_api_id r)") (auto simp: lookups_agree_def filter_key credited_def ledger_of_def)
  have "concat (map (\<lambda>r. if credited resolve r then [f r] else []) rs) = map f (filter (credited resolve) rs)" for f :: "usage_row \<Rightarrow> string \<times> int" and rs
    by (induction rs) simp_all
  then show ?thesis by (simp add: usage_amounts_def r)
qed

lemma complete_ledger:
  assumes "db_ok db" "ledger_sound resolve db"
  shows "mset (db_ledger db @ map (ledger_of resolve) (newly_credited resolve db)) = mset (map (ledger_of resolve) (filter (credited resolve) (db_events db)))"
proof -
  let ?ls = "db_ledger db @ map (ledger_of resolve) (newly_credited resolve db)"
  let ?rs = "filter (credited resolve) (db_events db)"
  have uniq: "r = r'" if "r \<in> set (db_events db)" "r' \<in> set (db_events db)" "ur_id r = ur_id r'" for r r'
    using assms(1) that by (auto simp: db_ok_def distinct_map dest: inj_onD)
  have "distinct ?ls" using ledger_ids_distinct [OF assms(1)] unfolding distinct_map by blast
  moreover have "distinct (map (ledger_of resolve) ?rs)"
  proof -
    have "distinct (map ur_id ?rs)" using assms(1) by (auto simp: db_ok_def intro: distinct_map_filter)
    then have "distinct (map lr_usage_event_id (map (ledger_of resolve) ?rs))" by (simp add: comp_def ledger_of_def)
    then show ?thesis by (simp only: distinct_map)
  qed
  moreover have "set ?ls = set (map (ledger_of resolve) ?rs)"
  proof (intro equalityI subsetI)
    fix l assume "l \<in> set ?ls"
    then show "l \<in> set (map (ledger_of resolve) ?rs)"
      using assms(2) by (auto simp: ledger_sound_def newly_credited_def todo_def)
  next
    fix l assume "l \<in> set (map (ledger_of resolve) ?rs)"
    then obtain r where r: "r \<in> set (db_events db)" "credited resolve r" "l = ledger_of resolve r" by auto
    show "l \<in> set ?ls"
    proof (cases "indexed db r")
      case True
      then obtain l' where l': "l' \<in> set (db_ledger db)" "ur_id r = lr_usage_event_id l'" by (auto simp: indexed_def)
      then obtain r' where "r' \<in> set (db_events db)" "l' = ledger_of resolve r'" using assms(2) by (auto simp: ledger_sound_def)
      then show ?thesis using uniq [of r r'] r l' by (auto simp: ledger_of_def)
    next
      case False
      then show ?thesis using r assms(1) by (auto simp: newly_credited_def todo_all)
    qed
  qed
  ultimately show ?thesis by (simp only: set_eq_iff_mset_eq_distinct)
qed

lemma total_of_mset: "mset xs = mset ys \<Longrightarrow> total_of d xs = total_of d ys"
proof -
  assume "mset xs = mset ys"
  then have "mset (map snd (filter (\<lambda>x. fst x = d) xs)) = mset (map snd (filter (\<lambda>x. fst x = d) ys))" by simp
  then show ?thesis unfolding total_of_def by (metis sum_mset_sum_list)
qed

lemma indexed_no_delta:
  assumes "db_ok db" "ledger_sound resolve db" "lookups_agree resolve owners"
  shows "ledger_delta owners (db\<lparr>db_ledger := db_ledger db @ map (ledger_of resolve) (newly_credited resolve db)\<rparr>) d = 0"
proof -
  let ?f = "\<lambda>l. (lr_developer_id l, lr_amount l)"
  have "mset (map ?f (db_ledger db @ map (ledger_of resolve) (newly_credited resolve db))) =
      mset (map ?f (map (ledger_of resolve) (filter (credited resolve) (db_events db))))"
    unfolding mset_map [of ?f] complete_ledger [OF assms(1,2)] ..
  moreover have "map ?f (map (ledger_of resolve) rs) = map (\<lambda>r. (lr_developer_id (ledger_of resolve r), ur_amount r)) rs" for rs
    by (simp add: ledger_of_def)
  ultimately have "total_of d (map ?f (db_ledger db @ map (ledger_of resolve) (newly_credited resolve db))) =
      total_of d (map (\<lambda>r. (lr_developer_id (ledger_of resolve r), ur_amount r)) (filter (credited resolve) (db_events db)))"
    by (metis total_of_mset)
  moreover have "usage_amounts owners (db\<lparr>db_ledger := ls\<rparr>) = usage_amounts owners db" for ls by (simp add: usage_amounts_def)
  ultimately show ?thesis by (simp only: ledger_delta_def ledger_amounts_def usage_amounts_credited [OF assms(3)]) simp
qed

datatype usage_op = RecordUsage CreateUsageEventInput millis | IndexUsage nat

text \<open>Recording a usage event, or a run of the indexer with the given batch size.\<close>

fun usage_step :: "nat \<Rightarrow> (string \<Rightarrow> string option result) \<Rightarrow> usage_op \<Rightarrow> usage_db \<Rightarrow> usage_db" where
  "usage_step scale resolve (RecordUsage i now) db = snd (pg_create scale i now db)"
| "usage_step scale resolve (IndexUsage n) db = (case runOnce (Suc (length (db_events db))) scale resolve (of_nat (Suc n)) db of
     None \<Rightarrow> db | Some (_, db') \<Rightarrow> db')"

lemma create_ledger: "db_ledger (snd (pg_create scale i now db)) = db_ledger db"
proof (cases "input_ok i")
  case True
  then show ?thesis by (cases rule: upsert_cases [of db "row_of i now"]) (auto simp: pg_create_valid)
next
  case False
  then show ?thesis using pg_create_invalid [of i scale now db] by auto
qed

lemma index_result:
  assumes "db_ok db" "lookups_agree resolve owners"
  shows "runOnce (Suc (length (db_events db))) scale resolve (of_nat (Suc n)) db =
    Some (Inr (length (todo 0 db), length (newly_credited resolve db)),
      db\<lparr>db_ledger := db_ledger db @ map (ledger_of resolve) (newly_credited resolve db)\<rparr>)"
proof -
  have "lookup_ok resolve r" for r
    using assms(2) map_of_SomeD [of owners "ur_api_id r"] by (cases "map_of owners (ur_api_id r)") (auto simp: lookup_ok_def lookups_agree_def)
  then show ?thesis using run_once_result [OF assms(1), of "Suc n" resolve "Suc (length (db_events db))" scale]
    by (simp add: newly_credited_def)
qed

definition books_ok :: "(string \<Rightarrow> string option result) \<Rightarrow> usage_db \<Rightarrow> bool" where
  "books_ok resolve db \<longleftrightarrow> db_ok db \<and> ledger_sound resolve db"

lemma books_step:
  assumes "books_ok resolve db" "lookups_agree resolve owners"
  shows "books_ok resolve (usage_step scale resolve op db)"
proof (cases op)
  case (RecordUsage i now)
  obtain rs where "db_events (snd (pg_create scale i now db)) = db_events db @ rs" using pg_create_keeps by blast
  then show ?thesis using assms(1) pg_create_ok [of db scale i now] create_ledger [of scale i now db]
    by (auto simp: RecordUsage books_ok_def ledger_sound_def)
next
  case (IndexUsage n)
  have ok: "db_ok db" using assms(1) by (simp add: books_ok_def)
  then show ?thesis using assms(1) ledger_ids_distinct [OF ok, of resolve]
    by (auto simp: IndexUsage index_result [OF ok assms(2)] books_ok_def db_ok_def ledger_sound_def newly_credited_def todo_def simp del: of_nat_Suc)
qed

lemma books_run: "lookups_agree resolve owners \<Longrightarrow> books_ok resolve db \<Longrightarrow> books_ok resolve (fold (usage_step scale resolve) ops db)"
  by (induction ops arbitrary: db) (auto intro: books_step)

lemma books_empty: "books_ok resolve empty_db"
  using demo_db_ok(2) by (simp add: books_ok_def ledger_sound_def empty_db_def)

text \<open>With a ledger column that keeps decimals, as its migration declares it, the job fails on every ledger that is not empty.\<close>

lemma decimal_ledger_fails:
  assumes "db_ledger db \<noteq> []" "0 < ledger_scale" "usage_scale = 0"
  shows "\<exists>e. reconcile_billing insertRun threshold usage_scale ledger_scale owners runAt db s = (Inl e, [], s)"
proof -
  have "ledger_amounts db \<noteq> []" using assms(1) by (simp add: ledger_amounts_def)
  then obtain e where "fetchLedgerTotals ledger_scale db = Inl e" using group_totals_fails [OF _ assms(2)] by (auto simp: fetchLedgerTotals_def)
  then show ?thesis using assms(3) by (simp add: reconcile_billing_def fetchUsageTotals_def)
qed

text \<open>C28. The indexer makes the books balance, and the scale of the ledger column decides whether the
  billing reconciliation can see it: whatever usage has been recorded and indexed before, after one
  more run of the revenue ledger indexer, which looks developers up in the same table, with whole
  amounts and a usage column without decimals (as migration 0011 declares it), the billing
  reconciliation finds no discrepancy for any developer when the ledger column has no decimals either
  or the ledger is empty; when the ledger column has decimals (migration 003 declares seven) and the
  ledger has a row, the run fails and stores nothing.\<close>

theorem indexed_books_balance:
  assumes "lookups_agree resolve owners"
  shows "let db = fold (usage_step scale resolve) ops empty_db in
    case runOnce (Suc (length (db_events db))) scale resolve (of_nat (Suc n)) db of
      Some (Inr _, db') \<Rightarrow>
       (if ledger_scale = 0 \<or> db_ledger db' = []
        then (case reconcile_billing keep_runs threshold 0 ledger_scale owners runAt db' s of
            (Inr r, logged, _) \<Rightarrow> sum_discrepancies r = 0 \<and> logged = [] \<and> (\<forall>x \<in> set (sum_rows r). run_delta x = 0 \<and> run_status x = RunOk)
          | (Inl e, _) \<Rightarrow> False)
        else \<exists>e. reconcile_billing keep_runs threshold 0 ledger_scale owners runAt db' s = (Inl e, [], s))
    | _ \<Rightarrow> False"
proof -
  let ?db = "fold (usage_step scale resolve) ops empty_db"
  have b: "db_ok ?db" "ledger_sound resolve ?db" using books_run [OF assms books_empty] by (simp_all add: books_ok_def)
  have k: "keep_runs r s = (Inr (), s @ [r])" for r s by (simp add: keep_runs_def)
  have empty: "reconcile_billing keep_runs threshold 0 ledger_scale owners runAt db' s = reconcile_billing keep_runs threshold 0 0 owners runAt db' s"
    if "ledger_scale = 0 \<or> db_ledger db' = []" for db'
  proof -
    have "fetchLedgerTotals ledger_scale db' = fetchLedgerTotals 0 db'"
      using that by (auto simp: fetchLedgerTotals_def ledger_amounts_def group_totals_def)
    then show ?thesis by (simp add: reconcile_billing_def fetchUsageTotals_def)
  qed
  define db' where "db' = add_ledger (map (ledger_of resolve) (newly_credited resolve ?db)) ?db"
  note delta = indexed_no_delta [OF b assms, folded db'_def] and run = index_result [OF b(1) assms, folded db'_def]
  have "case reconcile_billing keep_runs threshold 0 0 owners runAt db' s of
      (Inr r, logged, _) \<Rightarrow> sum_discrepancies r = 0 \<and> logged = [] \<and> (\<forall>x \<in> set (sum_rows r). run_delta x = 0 \<and> run_status x = RunOk)
    | (Inl e, _) \<Rightarrow> False"
    using delta by (simp add: reconcile_result [OF k] Let_def report_row_def)
  moreover have "\<exists>e. reconcile_billing keep_runs threshold 0 ledger_scale owners runAt db' s = (Inl e, [], s)"
    if "\<not> (ledger_scale = 0 \<or> db_ledger db' = [])"
    using that by (intro decimal_ledger_fails) auto
  ultimately show ?thesis by (simp add: run empty Let_def del: of_nat_Suc)
qed

section \<open>The settlement job\<close>

datatype DiscrepancyType = MISSING_TX | STALE_PENDING | FALSE_FAILURE | UNEXPECTED_STATUS

record SettlementDiscrepancy =
  sd_settlementId :: string
  sd_developerId :: string
  sd_type :: DiscrepancyType
  sd_dbStatus :: settlement_status
  sd_horizonStatus :: string
  sd_txHash :: string
  sd_amount :: usdc
  sd_created_at :: millis

record SettlementReconciliationResult =
  sr_runAt :: millis
  sr_checked :: nat
  sr_ok :: nat
  sr_discrepancies :: "SettlementDiscrepancy list"
  sr_errors :: nat

definition discrepancy :: "SettlementStoreRow \<Rightarrow> string \<Rightarrow> DiscrepancyType \<Rightarrow> string \<Rightarrow> SettlementDiscrepancy" where
  "discrepancy row tx kind horizonStatus = \<lparr>sd_settlementId = external_id row, sd_developerId = developer_id row, sd_type = kind,
     sd_dbStatus = row_status row, sd_horizonStatus = horizonStatus, sd_txHash = tx, sd_amount = amount_usdc row, sd_created_at = row_created row\<rparr>"

definition classifyDiscrepancy :: "SettlementStoreRow \<Rightarrow> string \<Rightarrow> HorizonTransactionResponse option \<Rightarrow> SettlementDiscrepancy option" where
  "classifyDiscrepancy row tx response = (let dbStatus = row_status row in case response of
       None \<Rightarrow>
         if dbStatus = StCompleted then Some (discrepancy row tx MISSING_TX ''not_found'')
         else if dbStatus = StPending \<or> dbStatus = StRetryable then None
         else Some (discrepancy row tx UNEXPECTED_STATUS ''not_found'')
     | Some b \<Rightarrow> (let onChainSuccessful = (successful b = Some True) in
         if dbStatus = StCompleted \<and> \<not> onChainSuccessful
         then Some (discrepancy row tx MISSING_TX (if onChainSuccessful = False then ''failed'' else ''unknown''))
         else if dbStatus = StFailed \<and> onChainSuccessful then Some (discrepancy row tx FALSE_FAILURE ''successful'')
         else if (dbStatus = StPending \<or> dbStatus = StRetryable) \<and> onChainSuccessful then Some (discrepancy row tx STALE_PENDING ''successful'')
         else None))"

definition fetchSettlementsWithTxHash :: "SettlementStoreRow list \<Rightarrow> SettlementStoreRow list" where
  "fetchSettlementsWithTxHash rows = sort_key row_created (filter (\<lambda>r. stellar_tx_hash r \<noteq> None) rows)"

definition check_settlement :: "(string \<Rightarrow> nat \<Rightarrow> http_outcome) \<Rightarrow> int \<Rightarrow> SettlementStoreRow \<Rightarrow> SettlementReconciliationResult \<Rightarrow> SettlementReconciliationResult" where
  "check_settlement horizon maxRetries row r = (case stellar_tx_hash row of None \<Rightarrow> r | Some tx \<Rightarrow>
     if tx = [] then r
     else (let r1 = r\<lparr>sr_checked := sr_checked r + 1\<rparr> in
       case fetchHorizonTransactionStatus horizon maxRetries tx of
         Inl e \<Rightarrow> r1\<lparr>sr_errors := sr_errors r1 + 1\<rparr>
       | Inr response \<Rightarrow> (case classifyDiscrepancy row tx response of
             Some d \<Rightarrow> r1\<lparr>sr_discrepancies := sr_discrepancies r1 @ [d]\<rparr>
           | None \<Rightarrow> r1\<lparr>sr_ok := sr_ok r1 + 1\<rparr>)))"

definition reconcile_chain :: "(string \<Rightarrow> nat \<Rightarrow> http_outcome) \<Rightarrow> int \<Rightarrow> millis \<Rightarrow> SettlementStoreRow list \<Rightarrow> SettlementReconciliationResult" where
  "reconcile_chain horizon maxRetries runAt rows = fold (check_settlement horizon maxRetries) (fetchSettlementsWithTxHash rows)
     \<lparr>sr_runAt = runAt, sr_checked = 0, sr_ok = 0, sr_discrepancies = [], sr_errors = 0\<rparr>"

text \<open>What the chain says about a transaction, and the statuses that agree with it.\<close>

datatype chain_state = NotFound | Succeeded | NotSucceeded

definition chain_state :: "HorizonTransactionResponse option \<Rightarrow> chain_state" where
  "chain_state h = (case h of None \<Rightarrow> NotFound | Some b \<Rightarrow> if successful b = Some True then Succeeded else NotSucceeded)"

fun contradiction :: "settlement_status \<Rightarrow> chain_state \<Rightarrow> DiscrepancyType option" where
  "contradiction StCompleted Succeeded = None"
| "contradiction StCompleted _ = Some MISSING_TX"
| "contradiction StFailed Succeeded = Some FALSE_FAILURE"
| "contradiction StFailed NotFound = Some UNEXPECTED_STATUS"
| "contradiction StFailed NotSucceeded = None"
| "contradiction _ Succeeded = Some STALE_PENDING"
| "contradiction _ _ = None"

lemma classify_contradiction:
  "map_option sd_type (classifyDiscrepancy row tx h) = contradiction (row_status row) (chain_state h)"
  by (cases "row_status row"; cases h) (auto simp: classifyDiscrepancy_def chain_state_def discrepancy_def Let_def)

lemma classify_fields:
  "classifyDiscrepancy row tx h = Some d \<Longrightarrow> sd_settlementId d = external_id row \<and> sd_developerId d = developer_id row \<and> sd_dbStatus d = row_status row \<and>
    sd_txHash d = tx \<and> sd_amount d = amount_usdc row \<and> sd_created_at d = row_created row"
  by (auto simp: classifyDiscrepancy_def discrepancy_def Let_def split: option.splits if_splits)

text \<open>What the job looks at: the settlements with a transaction, with the answer for it.\<close>

definition looked_up :: "(string \<Rightarrow> nat \<Rightarrow> http_outcome) \<Rightarrow> int \<Rightarrow> SettlementStoreRow list \<Rightarrow>
    (SettlementStoreRow \<times> (fetch_error + HorizonTransactionResponse option)) list" where
  "looked_up horizon maxRetries rows = map (\<lambda>r. (r, fetchHorizonTransactionStatus horizon maxRetries (the (stellar_tx_hash r))))
     (filter (\<lambda>r. stellar_tx_hash r \<notin> {None, Some []}) rows)"

definition found :: "SettlementStoreRow \<times> (fetch_error + HorizonTransactionResponse option) \<Rightarrow> SettlementDiscrepancy option" where
  "found x = (case snd x of Inl e \<Rightarrow> None | Inr h \<Rightarrow> classifyDiscrepancy (fst x) (the (stellar_tx_hash (fst x))) h)"

lemma check_all:
  "fold (check_settlement horizon maxRetries) rows r = (let xs = looked_up horizon maxRetries rows in
    \<lparr>sr_runAt = sr_runAt r, sr_checked = sr_checked r + length xs,
     sr_ok = sr_ok r + length (filter (\<lambda>x. isl (snd x) = False \<and> found x = None) xs),
     sr_discrepancies = sr_discrepancies r @ List.map_filter found xs, sr_errors = sr_errors r + length (filter (\<lambda>x. isl (snd x)) xs)\<rparr>)"
proof (induction rows arbitrary: r)
  case (Cons row rows)
  show ?case
  proof (cases "stellar_tx_hash row \<in> {None, Some []}")
    case True
    then show ?thesis using Cons by (auto simp: check_settlement_def looked_up_def)
  next
    case False
    then obtain tx where tx: "stellar_tx_hash row = Some tx" "tx \<noteq> []" by auto
    then show ?thesis using Cons
      by (cases "fetchHorizonTransactionStatus horizon maxRetries tx")
        (auto simp: check_settlement_def looked_up_def found_def Let_def List.map_filter_simps split: option.split)
  qed
qed (simp add: looked_up_def List.map_filter_simps)

lemma length_map_filter: "length (List.map_filter f xs) = length (filter (\<lambda>x. f x \<noteq> None) xs)"
  by (induction xs) (auto simp: List.map_filter_simps split: option.split)

lemma set_map_filter: "y \<in> set (List.map_filter f xs) \<longleftrightarrow> (\<exists>x \<in> set xs. f x = Some y)"
  by (induction xs) (auto simp: List.map_filter_simps split: option.split)

lemma three_way: "length xs = length (filter (\<lambda>x. \<not> P x \<and> Q x) xs) + length (filter (\<lambda>x. \<not> P x \<and> \<not> Q x) xs) + length (filter P xs)"
  by (induction xs) auto

lemma in_looked_up:
  "x \<in> set (looked_up horizon maxRetries (fetchSettlementsWithTxHash rows)) \<longleftrightarrow>
    (\<exists>row tx. row \<in> set rows \<and> stellar_tx_hash row = Some tx \<and> tx \<noteq> [] \<and> x = (row, fetchHorizonTransactionStatus horizon maxRetries tx))"
  by (cases x) (auto simp: looked_up_def fetchSettlementsWithTxHash_def)

lemma in_discrepancies:
  "d \<in> set (List.map_filter found (looked_up horizon maxRetries (fetchSettlementsWithTxHash rows))) \<longleftrightarrow>
    (\<exists>row tx h. row \<in> set rows \<and> stellar_tx_hash row = Some tx \<and> tx \<noteq> [] \<and>
      fetchHorizonTransactionStatus horizon maxRetries tx = Inr h \<and> classifyDiscrepancy row tx h = Some d)"
proof -
  have "stellar_tx_hash row = Some tx \<Longrightarrow> found (row, v) = Some d \<longleftrightarrow> (\<exists>h. v = Inr h \<and> classifyDiscrepancy row tx h = Some d)" for row tx v
    by (cases v) (simp_all add: found_def)
  then show ?thesis unfolding set_map_filter Bex_def in_looked_up by blast
qed

text \<open>The settlement reconciliation report is exact: every settlement with a transaction is counted once, as agreeing, as contradicting or as an
  error of the lookup; and the reported contradictions are exactly those of the table: completed without a
  successful transaction, failed with a successful or an unknown one, pending or retryable with a successful one.\<close>

theorem settlement_report_exact:
  "let r = reconcile_chain horizon maxRetries runAt rows in
   sr_checked r = length (filter (\<lambda>row. stellar_tx_hash row \<notin> {None, Some []}) rows) \<and>
   sr_checked r = sr_ok r + length (sr_discrepancies r) + sr_errors r \<and>
   (\<lambda>d. (sd_settlementId d, sd_txHash d, sd_type d)) ` set (sr_discrepancies r) =
     {(external_id row, tx, k) | row tx h k. row \<in> set rows \<and> stellar_tx_hash row = Some tx \<and> tx \<noteq> [] \<and>
        fetchHorizonTransactionStatus horizon maxRetries tx = Inr h \<and> contradiction (row_status row) (chain_state h) = Some k}"
proof -
  let ?s = "fetchSettlementsWithTxHash rows"
  let ?xs = "looked_up horizon maxRetries ?s"
  let ?r = "reconcile_chain horizon maxRetries runAt rows"
  have r: "sr_checked ?r = length ?xs" "sr_ok ?r = length (filter (\<lambda>x. isl (snd x) = False \<and> found x = None) ?xs)"
    "sr_discrepancies ?r = List.map_filter found ?xs" "sr_errors ?r = length (filter (\<lambda>x. isl (snd x)) ?xs)"
    by (simp_all add: reconcile_chain_def check_all Let_def)
  have "mset (filter P ?s) = mset (filter (\<lambda>x. P x \<and> stellar_tx_hash x \<noteq> None) rows)" for P
    by (simp add: fetchSettlementsWithTxHash_def filter_sort conj_commute)
  from arg_cong [OF this, of size "\<lambda>row. stellar_tx_hash row \<notin> {None, Some []}"]
  have "length (filter (\<lambda>row. stellar_tx_hash row \<notin> {None, Some []}) ?s) =
      length (filter (\<lambda>row. stellar_tx_hash row \<notin> {None, Some []} \<and> stellar_tx_hash row \<noteq> None) rows)"
    by (simp only: size_mset)
  then have c: "sr_checked ?r = length (filter (\<lambda>row. stellar_tx_hash row \<notin> {None, Some []}) rows)"
    unfolding r looked_up_def length_map by (auto simp: conj_ac intro!: arg_cong [of _ _ length] filter_cong)
  have e: "found x \<noteq> None \<Longrightarrow> \<not> isl (snd x)" for x by (cases "snd x") (auto simp: found_def)
  then have "filter (\<lambda>x. \<not> isl (snd x) \<and> found x \<noteq> None) ?xs = filter (\<lambda>x. found x \<noteq> None) ?xs" by (intro filter_cong) auto
  then have sum: "sr_checked ?r = sr_ok ?r + length (sr_discrepancies ?r) + sr_errors ?r"
    using three_way [of ?xs "\<lambda>x. isl (snd x)" "\<lambda>x. found x = None"] by (simp add: r length_map_filter)
  have d: "d \<in> set (sr_discrepancies ?r) \<longleftrightarrow> (\<exists>row tx h. row \<in> set rows \<and> stellar_tx_hash row = Some tx \<and> tx \<noteq> [] \<and>
      fetchHorizonTransactionStatus horizon maxRetries tx = Inr h \<and> classifyDiscrepancy row tx h = Some d)" for d
    unfolding r by (rule in_discrepancies)
  have k: "contradiction (row_status row) (chain_state h) = Some k \<longleftrightarrow>
      (\<exists>d. classifyDiscrepancy row tx h = Some d \<and> sd_settlementId d = external_id row \<and> sd_txHash d = tx \<and> sd_type d = k)" for row tx h k
    using classify_contradiction [of row tx h] classify_fields [of row tx h] by (cases "classifyDiscrepancy row tx h") auto
  have "(\<lambda>d. (sd_settlementId d, sd_txHash d, sd_type d)) ` set (sr_discrepancies ?r) =
     {(external_id row, tx, k) | row tx h k. row \<in> set rows \<and> stellar_tx_hash row = Some tx \<and> tx \<noteq> [] \<and>
        fetchHorizonTransactionStatus horizon maxRetries tx = Inr h \<and> contradiction (row_status row) (chain_state h) = Some k}"
    (is "?A = ?B")
  proof (intro equalityI subsetI)
    fix x assume "x \<in> ?A"
    then obtain d where "d \<in> set (sr_discrepancies ?r)" "x = (sd_settlementId d, sd_txHash d, sd_type d)" by auto
    then show "x \<in> ?B" unfolding d using k classify_fields by fastforce
  next
    fix x assume "x \<in> ?B"
    then obtain row tx h k' where "row \<in> set rows" "stellar_tx_hash row = Some tx" "tx \<noteq> []"
      "fetchHorizonTransactionStatus horizon maxRetries tx = Inr h" "contradiction (row_status row) (chain_state h) = Some k'" "x = (external_id row, tx, k')" by auto
    then show "x \<in> ?A" using k [of row h k' tx] d by (force simp: image_iff)
  qed
  with c sum show ?thesis by (simp add: Let_def)
qed

text \<open>The payout service and the audit job judge alike except in one case: right after the reconciliation pass of the service has handled a due settlement,
  the audit job finds nothing to report about it when Horizon knows the transaction and tells its outcome; when Horizon does not know the
  transaction, the pass has marked the settlement as failed and the job reports that as an unexpected status.\<close>

theorem handled_settlement_report:
  assumes "pg_ok (settlements w)" "List.find (\<lambda>r. external_id r = i) (settlements w) = Some row" "is_due now (mapSettlementRow row)"
    "\<not> write_fails i" "stellar_tx_hash row = Some tx" "fetchHorizonTransactionStatus horizon maxRetries tx = Inr h"
    "\<forall>b. h = Some b \<longrightarrow> successful b \<noteq> None"
  shows "\<exists>row'. List.find (\<lambda>r. external_id r = i)
      (settlements (fst (reconcilePendingSettlementsOnce pg_ops True horizon maxRetries maxTooEarly backoff write_fails now w))) = Some row' \<and>
    stellar_tx_hash row' = Some tx \<and> map_option sd_type (classifyDiscrepancy row' tx h) = (if h = None then Some UNEXPECTED_STATUS else None)"
proof -
  let ?x = "mapSettlementRow row"
  let ?rows = "settlements (fst (reconcilePendingSettlementsOnce pg_ops True horizon maxRetries maxTooEarly backoff write_fails now w))"
  have "external_id row = i" using assms(2) by (auto simp: find_Some_iff)
  then have x: "stl_id ?x = i" "stl_tx ?x = Some tx" using assms(5) by (simp_all add: mapSettlementRow_def)
  have "pg_view (settlements w) i = Some ?x" using assms(2) by (simp add: pg_view_def)
  then have "pg_view ?rows i = Some (outcome horizon maxRetries maxTooEarly backoff write_fails now ?x)"
    using pg_store.reconcile_view [OF assms(1) refl, of horizon maxRetries maxTooEarly backoff write_fails now i] assms(3) by simp
  then obtain row' where row': "List.find (\<lambda>r. external_id r = i) ?rows = Some row'"
    and m: "mapSettlementRow row' = outcome horizon maxRetries maxTooEarly backoff write_fails now ?x"
    by (auto simp: pg_view_def)
  have "row_status row' = stl_status (mapSettlementRow row')" "stellar_tx_hash row' = stl_tx (mapSettlementRow row')"
    by (simp_all add: mapSettlementRow_def)
  then have s: "row_status row' = stl_status (apply_verdict (judge maxTooEarly (Inr h) ?x) (now + backoff) ?x)"
    and t: "stellar_tx_hash row' = stl_tx (apply_verdict (judge maxTooEarly (Inr h) ?x) (now + backoff) ?x)"
    using x assms(4,6) by (simp_all add: m outcome_def verdict_on_def)
  have "stellar_tx_hash row' = Some tx"
    using x by (simp add: t apply_verdict_def core_status_def with_retry_def split: verdict.split)
  moreover have "contradiction (row_status row') (chain_state h) = (if h = None then Some UNEXPECTED_STATUS else None)"
  proof (cases h)
    case (Some b)
    then obtain v where "successful b = Some v" using assms(7) by auto
    then show ?thesis using Some by (cases v) (auto simp: s judge_def apply_verdict_def core_status_def with_retry_def chain_state_def)
  qed (simp add: s judge_def apply_verdict_def core_status_def chain_state_def)
  ultimately show ?thesis using row' classify_contradiction by auto
qed

section \<open>Examples\<close>

definition demo_owners :: "(string \<times> string) list" where
  "demo_owners = [(''a'', ''7'')]"

theorem indexed_books_balance_witness:
  "case runOnce 3 7 (\<lambda>i. Inr (map_of demo_owners i)) (of_nat 2) (fold (usage_step 7 (\<lambda>i. Inr (map_of demo_owners i)))
      [RecordUsage (demo_input ''r'' 5) 10, IndexUsage 3, RecordUsage (demo_input ''q'' 6) 20] empty_db) of
    Some (Inr _, db') \<Rightarrow> (case reconcile_billing keep_runs 0 0 0 demo_owners 30 db' [] of
        (Inr r, logged, _) \<Rightarrow> sum_discrepancies r = 0 \<and> logged = []
      | (Inl e, _) \<Rightarrow> False)
    | _ \<Rightarrow> False"
proof -
  let ?res = "\<lambda>i. Inr (map_of demo_owners i)"
  let ?db = "fold (usage_step 7 ?res) [RecordUsage (demo_input ''r'' 5) 10, IndexUsage 3, RecordUsage (demo_input ''q'' 6) 20] empty_db"
  have agree: "lookups_agree ?res demo_owners" by (simp add: lookups_agree_def demo_owners_def trim_def is_space_def)
  have len: "length (db_events ?db) = 2" by code_simp
  show ?thesis using indexed_books_balance [OF agree, where scale = 7 and ledger_scale = 0 and n = 1 and threshold = 0 and runAt = 30 and s = "[]"
      and ops = "[RecordUsage (demo_input ''r'' 5) 10, IndexUsage 3, RecordUsage (demo_input ''q'' 6) 20]"]
    unfolding Let_def len by (auto simp: numeral_eq_Suc case_prod_beta split: option.splits sum.splits)
qed

definition demo_settlement_row :: SettlementStoreRow where
  "demo_settlement_row = \<lparr>row_id = 1, external_id = ''s'', developer_id = ''d'', amount_usdc = 5, row_status = StPending,
     stellar_tx_hash = Some ''h'', row_created = 1, row_completed = None, retry_after = None, retry_count = None\<rparr>"

theorem handled_settlement_report_witness:
  "\<exists>row'. List.find (\<lambda>r. external_id r = ''s'') (settlements (fst (reconcilePendingSettlementsOnce pg_ops True missing_horizon 2 5 30000 (\<lambda>_. False) 9
      \<lparr>usage = empty_usage, settlements = [demo_settlement_row], ledger = (), emitted = []\<rparr>))) = Some row' \<and>
    map_option sd_type (classifyDiscrepancy row' ''h'' None) = Some UNEXPECTED_STATUS"
proof -
  let ?w = "\<lparr>usage = empty_usage, settlements = [demo_settlement_row], ledger = (), emitted = []\<rparr>"
  have "pg_ok (settlements ?w)" "List.find (\<lambda>r. external_id r = ''s'') (settlements ?w) = Some demo_settlement_row"
    "is_due 9 (mapSettlementRow demo_settlement_row)" "stellar_tx_hash demo_settlement_row = Some ''h''"
    by (simp_all add: pg_ok_def demo_settlement_row_def is_due_def mapSettlementRow_def)
  moreover have "fetchHorizonTransactionStatus missing_horizon 2 ''h'' = Inr None"
    by (simp add: fetchHorizonTransactionStatus_def withRetry.simps horizon_attempt_def missing_horizon_def)
  ultimately show ?thesis using handled_settlement_report [of ?w "''s''" demo_settlement_row 9 "\<lambda>_. False" "''h''" missing_horizon 2 None 5 30000] by auto
qed

end
