(* ===== verification/Invoices.thy ===== *)
theory Invoices
  imports UsagePg
begin

text \<open>
  Monthly invoices: \<open>generateMonthlyInvoices\<close> of \<^verbatim>\<open>services/InvoiceService.ts\<close> over the tables \<open>usage_events\<close>,
  \<open>invoices\<close> and \<open>invoice_line_items\<close>. The table of invoices has the unique column \<open>period_id\<close> of its migration;
  an insert that violates it throws, and the transaction is rolled back except for the sequence. Events that
  were emitted before stay emitted. Dates are days, amounts whole numbers that are added exactly, as the
  doubles of the code are up to 2 to the power of 53.
\<close>

section \<open>Tables and events\<close>

record invoice_row =
  iv_id :: int
  iv_developer :: string
  iv_period :: string
  iv_start :: int
  iv_end :: int
  iv_total :: int

record line_item =
  ln_invoice :: int
  ln_api :: string
  ln_count :: nat
  ln_amount :: int

record invoice_db =
  iv_rows :: "invoice_row list"
  iv_lines :: "line_item list"
  iv_next :: int

record InvoiceCreatedData =
  ic_invoiceId :: string
  ic_developerId :: string
  ic_periodId :: string
  ic_totalAmount :: string
  ic_currency :: string
  ic_createdAt :: string

record InvoiceGenerationResult =
  gen_success :: bool
  gen_periodId :: string
  invoicesCreated :: nat

section \<open>Generation\<close>

text \<open>\<open>to_char(created_at, 'YYYY-MM')\<close> in the years 1 to 9999.\<close>

definition month_label :: "millis \<Rightarrow> string" where
  "month_label t = (case civil (day_of t) of (y, m, _) \<Rightarrow> iso_year y @ ''-'' @ two_digits (int m + 1))"

definition last_month :: "int \<Rightarrow> int \<times> int" where
  "last_month today = (case civil today of (y, m, _) \<Rightarrow>
     (if m = 0 then utc_day (y - 1) 11 1 else utc_day y (m - 1) 1, utc_day y m 1 - 1))"

definition month_usage :: "string \<Rightarrow> usage_db \<Rightarrow> usage_row list" where
  "month_usage period db = filter (\<lambda>r. month_label (ur_created_at r) = period) (db_events db)"

definition add_item :: "(string \<times> string) \<times> nat \<times> int \<Rightarrow> (string, (string \<times> nat \<times> int) list) js_map \<Rightarrow> (string, (string \<times> nat \<times> int) list) js_map" where
  "add_item row m = (case row of ((developer, api), n, amount) \<Rightarrow>
     map_set developer ((case map_get m developer of None \<Rightarrow> [] | Some items \<Rightarrow> items) @ [(api, n, amount)]) m)"

definition insert_invoice :: "(int \<Rightarrow> invoice_row) \<Rightarrow> invoice_db \<Rightarrow> int result \<times> invoice_db" where
  "insert_invoice row db = (let i = iv_next db; r = row i; db1 = db\<lparr>iv_next := i + 1\<rparr> in
     if iv_period r \<in> iv_period ` set (iv_rows db) then (Inl (Error ''duplicate key value violates unique constraint''), db1)
     else (Inr i, db1\<lparr>iv_rows := iv_rows db @ [r]\<rparr>))"

definition to_fixed7 :: "int \<Rightarrow> string" where
  "to_fixed7 n = show_int n @ ''.0000000''"

fun issue_invoices :: "int \<Rightarrow> string \<Rightarrow> millis \<Rightarrow> (string \<times> (string \<times> nat \<times> int) list) list \<Rightarrow> nat \<Rightarrow> invoice_db \<Rightarrow> InvoiceCreatedData list \<Rightarrow>
    nat result \<times> invoice_db \<times> InvoiceCreatedData list" where
  "issue_invoices today period now [] n db sent = (Inr n, db, sent)"
| "issue_invoices today period now ((developer, items) # gs) n db sent =
    (let total = sum_list (map (\<lambda>x. snd (snd x)) items) in
     case insert_invoice (\<lambda>i. \<lparr>iv_id = i, iv_developer = developer, iv_period = period, iv_start = fst (last_month today),
         iv_end = snd (last_month today), iv_total = total\<rparr>) db of
       (Inl e, db1) \<Rightarrow> (Inl e, db1, sent)
     | (Inr i, db1) \<Rightarrow> issue_invoices today period now gs (n + 1)
         (db1\<lparr>iv_lines := iv_lines db1 @ map (\<lambda>(api, c, a). \<lparr>ln_invoice = i, ln_api = api, ln_count = c, ln_amount = a\<rparr>) items\<rparr>)
         (sent @ [\<lparr>ic_invoiceId = show_int i, ic_developerId = developer, ic_periodId = period, ic_totalAmount = to_fixed7 total,
            ic_currency = ''USDC'', ic_createdAt = toISOString now\<rparr>]))"

definition generateMonthlyInvoices :: "string \<Rightarrow> millis \<Rightarrow> usage_db \<Rightarrow> invoice_db \<Rightarrow>
    InvoiceGenerationResult result \<times> invoice_db \<times> InvoiceCreatedData list" where
  "generateMonthlyInvoices period now usage db =
    (if period \<in> iv_period ` set (iv_rows db) then (Inr \<lparr>gen_success = True, gen_periodId = period, invoicesCreated = 0\<rparr>, db, [])
     else (let rows = group_rows (\<lambda>r. (ur_user_id r, ur_api_id r)) (month_usage period usage);
               grouped = fold add_item rows [] in
       case issue_invoices (day_of now) period now grouped 0 db [] of
         (Inl e, db1, sent) \<Rightarrow> (Inl e, db\<lparr>iv_next := iv_next db1\<rparr>, sent)
       | (Inr n, db1, sent) \<Rightarrow> (Inr \<lparr>gen_success = True, gen_periodId = period, invoicesCreated = n\<rparr>, db1, sent)))"

section \<open>Grouping\<close>

lemma group_rows_sums:
  "sum_list (map (\<lambda>x. snd (snd x)) (group_rows key rows)) = sum_list (map ur_amount rows)"
  "sum_list (map (\<lambda>x. fst (snd x)) (group_rows key rows)) = length rows"
  using sum_over_groups [of "remdups (map key rows)" key rows ur_amount] sum_over_groups [of "remdups (map key rows)" key rows "\<lambda>_. 1 :: nat"]
  by (simp_all add: group_rows_def comp_def sum_list_triv)

lemma group_keys: "set (map fst (group_rows key rows)) = key ` set rows" "distinct (map fst (group_rows key rows))"
  by (simp_all add: group_rows_def comp_def)

lemma add_item_eq:
  "add_item x m = map_set (fst (fst x)) ((case map_get m (fst (fst x)) of None \<Rightarrow> [] | Some items \<Rightarrow> items) @ [(snd (fst x), snd x)]) m"
  by (simp add: add_item_def case_prod_beta)

lemma fold_same_developer:
  "\<forall>x \<in> set xs. fst (fst x) = u \<Longrightarrow> fold add_item xs [(u, items)] = [(u, items @ map (\<lambda>x. (snd (fst x), snd x)) xs)]"
  by (induction xs arbitrary: items) (auto simp: add_item_eq)

lemma one_developer:
  assumes "\<forall>x \<in> set xs. fst (fst x) = u" "xs \<noteq> []"
  shows "fold add_item xs [] = [(u, map (\<lambda>x. (snd (fst x), snd x)) xs)]"
  using assms fold_same_developer [of "tl xs" u "[(snd (fst (hd xs)), snd (hd xs))]"] by (cases xs) (auto simp: add_item_eq)

lemma wf_add_item: "wf_map m \<Longrightarrow> wf_map (add_item x m)"
  unfolding add_item_eq by (rule wf_map_set)

lemma wf_grouped: "wf_map m \<Longrightarrow> wf_map (fold add_item xs m)"
  by (induction xs arbitrary: m) (simp_all add: wf_add_item)

lemma grouped_keys: "wf_map m \<Longrightarrow> fst ` set (fold add_item xs m) = fst ` set m \<union> (\<lambda>x. fst (fst x)) ` set xs"
proof (induction xs arbitrary: m)
  case (Cons x xs)
  have "fst ` set (add_item x m) = insert (fst (fst x)) (fst ` set m)"
    using Cons.prems unfolding add_item_eq set_map_set [OF Cons.prems] by (auto simp: image_iff)
  then show ?case using Cons.IH [of "add_item x m"] Cons.prems wf_add_item by auto
qed simp

section \<open>Invoices\<close>

definition new_invoice :: "string \<Rightarrow> string \<Rightarrow> millis \<Rightarrow> int \<Rightarrow> int \<Rightarrow> invoice_row" where
  "new_invoice developer period now amount i = \<lparr>iv_id = i, iv_developer = developer, iv_period = period,
     iv_start = fst (last_month (day_of now)), iv_end = snd (last_month (day_of now)), iv_total = amount\<rparr>"

lemma issue_first:
  assumes "period \<notin> iv_period ` set (iv_rows db)"
  defines "tot items \<equiv> sum_list (map (\<lambda>x. snd (snd x)) (items :: (string \<times> nat \<times> int) list))"
  shows "issue_invoices (day_of now) period now ((u, items) # gs) n db sent = issue_invoices (day_of now) period now gs (n + 1)
    \<lparr>iv_rows = iv_rows db @ [new_invoice u period now (tot items) (iv_next db)],
     iv_lines = iv_lines db @ map (\<lambda>(api, c, a). \<lparr>ln_invoice = iv_next db, ln_api = api, ln_count = c, ln_amount = a\<rparr>) items, iv_next = iv_next db + 1\<rparr>
    (sent @ [\<lparr>ic_invoiceId = show_int (iv_next db), ic_developerId = u, ic_periodId = period, ic_totalAmount = to_fixed7 (tot items),
       ic_currency = ''USDC'', ic_createdAt = toISOString now\<rparr>])"
  using assms(1) by (cases db) (simp add: insert_invoice_def new_invoice_def tot_def Let_def)

text \<open>The lines of an invoice over some usage: one per API, with the number and the sum of its calls.\<close>

definition lines_exact :: "int \<Rightarrow> usage_row list \<Rightarrow> line_item list \<Rightarrow> bool" where
  "lines_exact i rows ls \<longleftrightarrow> distinct (map ln_api ls) \<and> set (map ln_api ls) = ur_api_id ` set rows \<and>
     list_all (\<lambda>l. ln_invoice l = i \<and> ln_count l = length (filter (\<lambda>r. ur_api_id r = ln_api l) rows) \<and>
       ln_amount l = sum_list (map ur_amount (filter (\<lambda>r. ur_api_id r = ln_api l) rows))) ls \<and>
     sum_list (map ln_amount ls) = sum_list (map ur_amount rows) \<and> sum_list (map ln_count ls) = length rows"

definition line_of :: "int \<Rightarrow> string \<times> nat \<times> int \<Rightarrow> line_item" where
  "line_of i x = \<lparr>ln_invoice = i, ln_api = fst x, ln_count = fst (snd x), ln_amount = snd (snd x)\<rparr>"

lemma grouped_lines:
  assumes "\<forall>r \<in> set rows. ur_user_id r = u"
  shows "lines_exact i rows (map (\<lambda>x. line_of i (snd (fst x), snd x)) (group_rows (\<lambda>r. (ur_user_id r, ur_api_id r)) rows))"
proof -
  let ?key = "\<lambda>r. (ur_user_id r, ur_api_id r)"
  let ?g = "group_rows ?key rows"
  let ?ls = "map (\<lambda>x. line_of i (snd (fst x), snd x)) ?g"
  have apis: "map ln_api ?ls = map snd (map fst ?g)" by (simp add: line_of_def)
  have keys: "\<forall>k \<in> set (map fst ?g). fst k = u" unfolding group_keys(1) using assms by auto
  then have "inj_on snd (set (map fst ?g))" by (simp only: inj_on_def prod_eq_iff) simp
  with group_keys(2) [of ?key rows] have "distinct (map ln_api ?ls)" unfolding apis distinct_map [of snd] by blast
  moreover have "set (map ln_api ?ls) = ur_api_id ` set rows" unfolding apis set_map [of snd] group_keys(1) by (simp add: image_image)
  moreover have same: "filter (\<lambda>r. ?key r = (v, a)) rows = filter (\<lambda>r. ur_api_id r = a) rows" if "v = u" for a v
    using that assms by (intro filter_cong) auto
  have "list_all (\<lambda>l. ln_invoice l = i \<and> ln_count l = length (filter (\<lambda>r. ur_api_id r = ln_api l) rows) \<and>
       ln_amount l = sum_list (map ur_amount (filter (\<lambda>r. ur_api_id r = ln_api l) rows))) ?ls"
    using assms same by (auto simp: list_all_iff group_rows_def line_of_def)
  moreover have "sum_list (map ln_amount ?ls) = sum_list (map ur_amount rows)" "sum_list (map ln_count ?ls) = length rows"
    using group_rows_sums [of ?key rows] by (simp_all add: line_of_def comp_def)
  ultimately show ?thesis by (simp only: lines_exact_def simp_thms)
qed

lemma generate_one_developer:
  assumes "period \<notin> iv_period ` set (iv_rows db)" "month_usage period usage \<noteq> []" "\<forall>r \<in> set (month_usage period usage). ur_user_id r = u"
  obtains ls where "lines_exact (iv_next db) (month_usage period usage) ls"
    "generateMonthlyInvoices period now usage db = (Inr \<lparr>gen_success = True, gen_periodId = period, invoicesCreated = 1\<rparr>,
      \<lparr>iv_rows = iv_rows db @ [new_invoice u period now (sum_list (map ur_amount (month_usage period usage))) (iv_next db)], iv_lines = iv_lines db @ ls, iv_next = iv_next db + 1\<rparr>,
      [\<lparr>ic_invoiceId = show_int (iv_next db), ic_developerId = u, ic_periodId = period, ic_totalAmount = to_fixed7 (sum_list (map ur_amount (month_usage period usage))),
        ic_currency = ''USDC'', ic_createdAt = toISOString now\<rparr>])"
proof -
  let ?m = "month_usage period usage"
  let ?g = "group_rows (\<lambda>r. (ur_user_id r, ur_api_id r)) ?m"
  let ?items = "map (\<lambda>x. (snd (fst x), snd x)) ?g"
  have "\<forall>x \<in> set ?g. fst (fst x) = u" "?g \<noteq> []" using assms(2,3) by (auto simp: group_rows_def)
  then have grouped: "fold add_item ?g [] = [(u, ?items)]" by (rule one_developer)
  have total: "sum_list (map (\<lambda>x. snd (snd x)) ?items) = sum_list (map ur_amount ?m)"
    using group_rows_sums(1) [of "\<lambda>r. (ur_user_id r, ur_api_id r)" ?m] by (simp add: comp_def)
  have lines: "map (\<lambda>(api, c, a). \<lparr>ln_invoice = i, ln_api = api, ln_count = c, ln_amount = a\<rparr>) ?items = map (\<lambda>x. line_of i (snd (fst x), snd x)) ?g" for i
    by (simp add: line_of_def case_prod_beta)
  show ?thesis
    using grouped_lines [OF assms(3), of "iv_next db"] assms(1)
    by (intro that) (assumption, simp add: generateMonthlyInvoices_def Let_def grouped issue_first total lines del: issue_invoices.simps(2) map_map)
qed

text \<open>A month with usage of one developer is invoiced once and exactly: one invoice over the sum of the month's usage, one line per API with
  the number and the sum of its calls, which add up to the invoice, and one event about it; generating the
  period again, whatever was used in between, creates nothing.\<close>

theorem invoice_exact:
  assumes "period \<notin> iv_period ` set (iv_rows db)" "month_usage period usage \<noteq> []" "\<forall>r \<in> set (month_usage period usage). ur_user_id r = u"
  shows "case generateMonthlyInvoices period now usage db of (Inl e, _) \<Rightarrow> False
    | (Inr res, db', sent) \<Rightarrow> invoicesCreated res = 1 \<and>
       iv_rows db' = iv_rows db @ [new_invoice u period now (sum_list (map ur_amount (month_usage period usage))) (iv_next db)] \<and>
       (\<exists>ls. iv_lines db' = iv_lines db @ ls \<and> lines_exact (iv_next db) (month_usage period usage) ls) \<and>
       map ic_developerId sent = [u] \<and>
       generateMonthlyInvoices period now' usage' db' = (Inr \<lparr>gen_success = True, gen_periodId = period, invoicesCreated = 0\<rparr>, db', [])"
proof -
  have again: "generateMonthlyInvoices period now' usage' d = (Inr \<lparr>gen_success = True, gen_periodId = period, invoicesCreated = 0\<rparr>, d, [])"
    if "iv_rows d = iv_rows db @ [new_invoice u period now t i]" for d t i
    using that by (simp add: generateMonthlyInvoices_def new_invoice_def)
  from generate_one_developer [OF assms, of now] show ?thesis by cases (simp add: again)
qed

lemma two_entries: "wf_map m \<Longrightarrow> a \<in> fst ` set m \<Longrightarrow> b \<in> fst ` set m \<Longrightarrow> a \<noteq> b \<Longrightarrow> \<exists>x y r. m = x # y # r"
  by (cases m; cases "tl m") auto

text \<open>A month in which two developers had usage is never invoiced: the column \<open>period_id\<close> is unique, so the second invoice of the
  period is refused and everything is rolled back, while the event about the first invoice has already
  been sent for an invoice that does not exist. A later attempt fails in the same way.\<close>

theorem two_developers_never_invoiced:
  assumes "period \<notin> iv_period ` set (iv_rows db)" "r1 \<in> set (month_usage period usage)" "r2 \<in> set (month_usage period usage)" "ur_user_id r1 \<noteq> ur_user_id r2"
  shows "case generateMonthlyInvoices period now usage db of (Inr _, _) \<Rightarrow> False
    | (Inl e, db', sent) \<Rightarrow> iv_rows db' = iv_rows db \<and> iv_lines db' = iv_lines db \<and> map ic_invoiceId sent = [show_int (iv_next db)] \<and>
        (\<exists>e' db'' sent'. generateMonthlyInvoices period now' usage db' = (Inl e', db'', sent'))"
proof -
  let ?g = "fold add_item (group_rows (\<lambda>r. (ur_user_id r, ur_api_id r)) (month_usage period usage)) []"
  have "fst ` set ?g = ur_user_id ` set (month_usage period usage)"
    by (force simp: grouped_keys group_rows_def)
  then have "\<exists>x y r. ?g = x # y # r" using assms(2-4) by (intro two_entries [of ?g "ur_user_id r1" "ur_user_id r2"] wf_grouped) auto
  then obtain u items v items' gs where g: "?g = (u, items) # (v, items') # gs" by auto
  have fails: "\<exists>e sent. generateMonthlyInvoices period t usage d = (Inl e, d\<lparr>iv_next := iv_next d + 2\<rparr>, sent) \<and> map ic_invoiceId sent = [show_int (iv_next d)]"
    if "period \<notin> iv_period ` set (iv_rows d)" for d t
    using that by (simp add: generateMonthlyInvoices_def Let_def g issue_first new_invoice_def insert_invoice_def)
  obtain e sent where 1: "generateMonthlyInvoices period now usage db = (Inl e, db\<lparr>iv_next := iv_next db + 2\<rparr>, sent)" "map ic_invoiceId sent = [show_int (iv_next db)]"
    using fails [OF assms(1), of now] by (elim exE conjE)
  have "period \<notin> iv_period ` set (iv_rows (db\<lparr>iv_next := iv_next db + 2\<rparr>))" using assms(1) by simp
  from fails [OF this, of now'] show ?thesis by (auto simp: 1)
qed

section \<open>Examples\<close>

definition no_invoices :: invoice_db where
  "no_invoices = \<lparr>iv_rows = [], iv_lines = [], iv_next = 1\<rparr>"

definition november_row :: "int \<Rightarrow> string \<Rightarrow> usage_row" where
  "november_row i u = (demo_row i ''a'')\<lparr>ur_user_id := u\<rparr>"

definition november_db :: "string \<Rightarrow> string \<Rightarrow> usage_db" where
  "november_db u v = \<lparr>db_events = [november_row 1 u, november_row 2 v], db_ledger = [], db_next = 3\<rparr>"

lemma november [simp]: "month_usage ''2023-11'' (november_db u v) = [november_row 1 u, november_row 2 v]" "ur_user_id (november_row i u) = u"
  "iv_rows no_invoices = []" "iv_next no_invoices = 1"
proof -
  have "month_label 1700000000000 = ''2023-11''" by code_simp
  then show "month_usage ''2023-11'' (november_db u v) = [november_row 1 u, november_row 2 v]"
    by (simp add: month_usage_def november_db_def november_row_def demo_row_def)
qed (simp_all add: november_row_def no_invoices_def)

theorem invoice_exact_witness:
  "case generateMonthlyInvoices ''2023-11'' 1702000000000 (november_db ''u'' ''u'') no_invoices of
     (Inl e, _) \<Rightarrow> False | (Inr res, db', sent) \<Rightarrow> invoicesCreated res = 1 \<and> length (iv_rows db') = 1"
  using invoice_exact [where period = "''2023-11''" and db = no_invoices and usage = "november_db ''u'' ''u''" and u = "''u''" and now = 1702000000000]
  by (auto simp: case_prod_beta split: sum.splits)

theorem two_developers_never_invoiced_witness:
  "case generateMonthlyInvoices ''2023-11'' 1702000000000 (november_db ''u'' ''v'') no_invoices of
     (Inr _, _) \<Rightarrow> False | (Inl e, db', sent) \<Rightarrow> iv_rows db' = [] \<and> map ic_invoiceId sent = [show_int 1]"
  using two_developers_never_invoiced [where period = "''2023-11''" and db = no_invoices and usage = "november_db ''u'' ''v''"
      and ?r1.0 = "november_row 1 ''u''" and ?r2.0 = "november_row 2 ''v''" and now = 1702000000000]
  by (auto simp: case_prod_beta split: sum.splits)

end
