(* ===== verification/MonthlyInvoiceJob.thy ===== *)
theory MonthlyInvoiceJob
  imports Invoices
begin

text \<open>
  The job that generates the invoices of the month before (\<^verbatim>\<open>workers/monthlyInvoiceJob.ts\<close>), over the generation of
  \<^verbatim>\<open>Invoices\<close>. The variable \<open>running\<close> holds \<open>null\<close>, the promise of a run under way, or the promise of
  a run that is over: the body of a run on another day than the first has no \<open>await\<close>, so its \<open>finally\<close> sets \<open>running\<close> to
  \<open>null\<close> before the assignment \<open>running = (async ...)()\<close> stores the promise. The calendar of the process (\<open>getFullYear\<close>,
  \<open>getMonth\<close>, \<open>getDate\<close>) is the parameter \<open>local\<close>.
\<close>

section \<open>The job\<close>

datatype run_ref = NoRun | Pending string | Over

record monthly_job =
  mj_timer :: bool
  mj_accepting :: bool
  mj_running :: run_ref
  mj_invoices :: invoice_db
  mj_events :: "InvoiceCreatedData list"

text \<open>\<open>new Date(year, month - 1, 1)\<close> reads the years 0 to 99 as 1900 to 1999.\<close>

definition previous_period :: "int \<Rightarrow> nat \<Rightarrow> string" where
  "previous_period y m = (let y' = (if 0 \<le> y \<and> y \<le> 99 then 1900 + y else y); (py, pm) = (if m = 0 then (y' - 1, 11) else (y', m - 1)) in
     show_int py @ ''-'' @ padStart 2 (CHR ''0'') (show_nat (pm + 1)))"

definition monthly_tick :: "(millis \<Rightarrow> int \<times> nat \<times> int) \<Rightarrow> millis \<Rightarrow> monthly_job \<Rightarrow> monthly_job" where
  "monthly_tick local now j = (if \<not> mj_accepting j \<or> mj_running j \<noteq> NoRun then j
     else (case local now of (y, m, d) \<Rightarrow> if d \<noteq> 1 then j\<lparr>mj_running := Over\<rparr> else j\<lparr>mj_running := Pending (previous_period y m)\<rparr>))"

definition monthly_start :: "(millis \<Rightarrow> int \<times> nat \<times> int) \<Rightarrow> millis \<Rightarrow> monthly_job \<Rightarrow> monthly_job" where
  "monthly_start local now j = (if mj_timer j \<or> \<not> mj_accepting j then j else (monthly_tick local now j)\<lparr>mj_timer := True\<rparr>)"

definition monthly_stop :: "monthly_job \<Rightarrow> monthly_job" where
  "monthly_stop j = (if \<not> mj_timer j then j else j\<lparr>mj_timer := False\<rparr>)"

definition monthly_beginShutdown :: "monthly_job \<Rightarrow> monthly_job" where
  "monthly_beginShutdown j = j\<lparr>mj_accepting := False, mj_timer := False\<rparr>"

text \<open>The generation ends: an error is logged, and \<open>running\<close> becomes \<open>null\<close>.\<close>

definition monthly_end :: "millis \<Rightarrow> usage_db \<Rightarrow> monthly_job \<Rightarrow> monthly_job" where
  "monthly_end now usage j = (case mj_running j of
     Pending period \<Rightarrow> (case generateMonthlyInvoices period now usage (mj_invoices j) of (_, db, sent) \<Rightarrow>
       j\<lparr>mj_running := NoRun, mj_invoices := db, mj_events := mj_events j @ sent\<rparr>)
   | _ \<Rightarrow> j)"

datatype monthly_event = MStart millis | MFire millis | MEnd millis usage_db | MStop | MShutdown

fun monthly_step :: "(millis \<Rightarrow> int \<times> nat \<times> int) \<Rightarrow> monthly_event \<Rightarrow> monthly_job \<Rightarrow> monthly_job" where
  "monthly_step local (MStart now) j = monthly_start local now j"
| "monthly_step local (MFire now) j = (if mj_timer j then monthly_tick local now j else j)"
| "monthly_step local (MEnd now usage) j = monthly_end now usage j"
| "monthly_step local MStop j = monthly_stop j"
| "monthly_step local MShutdown j = monthly_beginShutdown j"

definition new_monthly_job :: "invoice_db \<Rightarrow> monthly_job" where
  "new_monthly_job db = \<lparr>mj_timer = False, mj_accepting = True, mj_running = NoRun, mj_invoices = db, mj_events = []\<rparr>"

lemmas monthly_defs = monthly_start_def monthly_tick_def monthly_stop_def monthly_beginShutdown_def monthly_end_def

section \<open>A run on another day\<close>

lemma over_step: "mj_running j = Over \<Longrightarrow> mj_running (monthly_step local e j) = Over \<and> mj_invoices (monthly_step local e j) = mj_invoices j \<and>
    mj_events (monthly_step local e j) = mj_events j"
  by (cases e) (auto simp: monthly_defs)

lemma over_run: "mj_running j = Over \<Longrightarrow> mj_running (fold (monthly_step local) es j) = Over \<and>
    mj_invoices (fold (monthly_step local) es j) = mj_invoices j \<and> mj_events (fold (monthly_step local) es j) = mj_events j"
  by (induction es arbitrary: j) (simp_all add: over_step del: monthly_step.simps)

text \<open>C33. The monthly job invoices nothing unless the process starts on the first of a month: when the job starts on another day, its first run stores a
  promise that is never cleared, and whatever happens later, the first of a month included, no invoice is generated and no event is sent.\<close>

theorem monthly_job_stuck:
  assumes "snd (snd (local now)) \<noteq> 1"
  shows "let j = fold (monthly_step local) (MStart now # es) (new_monthly_job db) in mj_invoices j = db \<and> mj_events j = []"
proof -
  let ?j = "monthly_start local now (new_monthly_job db)"
  have "mj_running ?j = Over" "mj_invoices ?j = db" "mj_events ?j = []"
    using assms by (simp_all add: monthly_start_def monthly_tick_def new_monthly_job_def case_prod_beta)
  with over_run [of ?j local es] show ?thesis by (simp add: Let_def)
qed

section \<open>A run on the first\<close>







text \<open>In a process that runs in UTC, the usage of the period is the usage of the days the invoice names as its start and end.\<close>

definition utc_calendar :: "millis \<Rightarrow> int \<times> nat \<times> int" where
  "utc_calendar t = civil (day_of t)"






section \<open>Examples\<close>

theorem monthly_job_stuck_witness:
  "mj_invoices (fold (monthly_step utc_calendar) [MStart 1702000000000, MFire 1704067200000, MEnd 1704067200000 (november_db ''u'' ''u'')] (new_monthly_job no_invoices)) = no_invoices"
proof -
  have "snd (snd (utc_calendar 1702000000000)) \<noteq> 1" by code_simp
  from monthly_job_stuck [of utc_calendar 1702000000000, OF this] show ?thesis by (simp only: Let_def)
qed



end
