(* ===== verification/QuotaNotifier.thy ===== *)
theory QuotaNotifier
  imports UsageAnalytics Webhooks
begin

text \<open>
  Quota alerts (\<^verbatim>\<open>services/quotaNotifier.ts\<close>): the check that compares the calls of the current month with the
  quota of every developer and sends a webhook at 80, 95 and 100 percent, and the two stores that remember
  what was sent.

  The store is an interface; its operations are a record and the law they promise is the locale
  \<open>notification_store\<close>, interpreted on the in-memory and the Postgres store. A statement of the Postgres store fails
  when the parameter \<open>down\<close> says so for its key. The check also returns its log of fired alerts; a percentage is an
  exact rational number.
\<close>

section \<open>Months and thresholds\<close>

definition QUOTA_THRESHOLDS :: "nat list" where
  "QUOTA_THRESHOLDS = [80, 95, 100]"

record DeveloperQuota =
  dq_developerId :: string
  dq_monthlyLimit :: int

definition periodOf :: "millis \<Rightarrow> string" where
  "periodOf t = show_int (getUTCFullYear t) @ ''-'' @ padStart 2 (CHR ''0'') (show_nat (getUTCMonth t + 1))"

definition monthBoundaries :: "millis \<Rightarrow> millis \<times> millis" where
  "monthBoundaries t = (let y = getUTCFullYear t; m = getUTCMonth t in (Date_UTC y m 1 * DAY_MS, Date_UTC y (m + 1) 1 * DAY_MS - 1))"

record QuotaThresholdReachedData =
  qd_period :: string
  qd_threshold :: nat
  qd_currentUsage :: nat
  qd_quotaLimit :: int
  qd_usagePercent :: rat

section \<open>The notification stores\<close>

type_synonym alert = "string \<times> string \<times> nat"

record 's notification_ops =
  op_hasBeenSent :: "alert \<Rightarrow> 's \<Rightarrow> bool result"
  op_markSent :: "alert \<Rightarrow> 's \<Rightarrow> unit result \<times> 's"

definition sent_key :: "alert \<Rightarrow> string" where
  "sent_key a = (case a of (developerId, period, threshold) \<Rightarrow> developerId @ ''|'' @ period @ ''|'' @ show_nat threshold)"

definition mem_hasBeenSent :: "alert \<Rightarrow> string list \<Rightarrow> bool result" where
  "mem_hasBeenSent a s = Inr (sent_key a \<in> set s)"

definition mem_markSent :: "alert \<Rightarrow> string list \<Rightarrow> unit result \<times> string list" where
  "mem_markSent a s = (Inr (), List.insert (sent_key a) s)"

definition InMemoryQuotaNotificationStore :: "string list notification_ops" where
  "InMemoryQuotaNotificationStore = \<lparr>op_hasBeenSent = mem_hasBeenSent, op_markSent = mem_markSent\<rparr>"

definition pg_hasBeenSent :: "(alert \<Rightarrow> bool) \<Rightarrow> alert \<Rightarrow> alert list \<Rightarrow> bool result" where
  "pg_hasBeenSent down a rows = (if down a then Inl (Error ''query failed'') else Inr (a \<in> set rows))"

definition pg_markSent :: "(alert \<Rightarrow> bool) \<Rightarrow> alert \<Rightarrow> alert list \<Rightarrow> unit result \<times> alert list" where
  "pg_markSent down a rows = (if down a then (Inl (Error ''query failed''), rows)
     else (Inr (), if a \<in> set rows then rows else rows @ [a]))"

definition PgQuotaNotificationStore :: "(alert \<Rightarrow> bool) \<Rightarrow> (alert \<Rightarrow> bool) \<Rightarrow> alert list notification_ops" where
  "PgQuotaNotificationStore down_select down_insert = \<lparr>op_hasBeenSent = pg_hasBeenSent down_select, op_markSent = pg_markSent down_insert\<rparr>"

section \<open>The check\<close>

record ('s, 'w) notifier =
  nt_sent :: 's
  nt_hooks :: "QuotaThresholdReachedData webhook_store"
  nt_world :: 'w
  nt_fired :: "QuotaThresholdReachedData WebhookPayload list"

text \<open>The surroundings of the webhook dispatcher.\<close>

record 'w delivery =
  dv_fetch :: "webhook_request \<Rightarrow> 'w \<Rightarrow> fetch_result \<times> 'w"
  dv_sleep :: "rat \<Rightarrow> 'w \<Rightarrow> 'w"
  dv_env :: "WebhookConfig \<Rightarrow> QuotaThresholdReachedData dispatch_env"

definition quota_payload :: "millis \<Rightarrow> string \<Rightarrow> nat \<Rightarrow> nat \<Rightarrow> int \<Rightarrow> QuotaThresholdReachedData WebhookPayload" where
  "quota_payload today developerId threshold callCount limit =
    (let usagePercent = (of_nat callCount / of_int limit :: rat) * 100 in
     \<lparr>wp_event = ''quota.threshold.reached'', wp_timestamp = toISOString today, wp_developerId = developerId,
      wp_data = \<lparr>qd_period = periodOf today, qd_threshold = threshold, qd_currentUsage = callCount, qd_quotaLimit = limit,
        qd_usagePercent = of_int \<lfloor>usagePercent * 100 + 1 / 2\<rfloor> / 100\<rparr>\<rparr>)"

definition check_threshold :: "'s notification_ops \<Rightarrow> 'w delivery \<Rightarrow> millis \<Rightarrow> string \<Rightarrow> nat \<Rightarrow> int \<Rightarrow> nat \<Rightarrow> ('s, 'w) notifier \<Rightarrow> ('s, 'w) notifier" where
  "check_threshold ops dv today developerId callCount limit threshold n =
    (let usagePercent = (of_nat callCount / of_int limit :: rat) * 100; a = (developerId, periodOf today, threshold) in
     if usagePercent < of_nat threshold then n
     else (case op_hasBeenSent ops a (nt_sent n) of
         Inl e \<Rightarrow> n
       | Inr alreadySent \<Rightarrow>
          if alreadySent then n
          else (case op_markSent ops a (nt_sent n) of
              (Inl e, s1) \<Rightarrow> n\<lparr>nt_sent := s1\<rparr>
            | (Inr _, s1) \<Rightarrow>
               (let payload = quota_payload today developerId threshold callCount limit;
                    configs = filter (\<lambda>c. wc_developerId c = developerId) (getByEvent ''quota.threshold.reached'' (nt_hooks n)) in
                case dispatchToAll (dv_fetch dv) (dv_sleep dv) (dv_env dv) configs payload (nt_hooks n, nt_world n) of
                  (h1, w1) \<Rightarrow> \<lparr>nt_sent = s1, nt_hooks = h1, nt_world = w1, nt_fired = nt_fired n @ [payload]\<rparr>))))"

text \<open>The usage repository: the events of a developer between two dates, or a failure.\<close>

type_synonym usage_repo = "string \<Rightarrow> millis \<Rightarrow> millis \<Rightarrow> UsageEvent list result"

definition check_developer :: "'s notification_ops \<Rightarrow> 'w delivery \<Rightarrow> usage_repo \<Rightarrow> millis \<Rightarrow> DeveloperQuota \<Rightarrow> ('s, 'w) notifier \<Rightarrow> ('s, 'w) notifier" where
  "check_developer ops dv repo today q n =
    (if dq_monthlyLimit q \<le> 0 then n
     else (case monthBoundaries today of (start, finish) \<Rightarrow>
       (case repo (dq_developerId q) start finish of
          Inl e \<Rightarrow> n
        | Inr events \<Rightarrow> fold (check_threshold ops dv today (dq_developerId q) (length events) (dq_monthlyLimit q)) QUOTA_THRESHOLDS n)))"

definition runQuotaCheck :: "'s notification_ops \<Rightarrow> 'w delivery \<Rightarrow> usage_repo \<Rightarrow> DeveloperQuota list result \<Rightarrow> millis \<Rightarrow> ('s, 'w) notifier \<Rightarrow> nat \<times> ('s, 'w) notifier" where
  "runQuotaCheck ops dv repo quotas today n = (case quotas of
       Inl e \<Rightarrow> (0, n)
     | Inr qs \<Rightarrow> (let n1 = fold (check_developer ops dv repo today) qs n in (length (nt_fired n1) - length (nt_fired n), n1)))"

section \<open>The contract of a store\<close>

definition alert_of :: "QuotaThresholdReachedData WebhookPayload \<Rightarrow> alert" where
  "alert_of p = (wp_developerId p, qd_period (wp_data p), qd_threshold (wp_data p))"

definition reached :: "int \<Rightarrow> nat \<Rightarrow> nat \<Rightarrow> bool" where
  "reached limit callCount threshold \<longleftrightarrow> int threshold * limit \<le> 100 * int callCount"

text \<open>Periods have no bar.\<close>

definition plain :: "alert \<Rightarrow> bool" where
  "plain a \<longleftrightarrow> CHR ''|'' \<notin> set (fst (snd a))"

lemma plain_period: "plain (d, periodOf t, k)"
  using show_int_no_bar(1) pad_no_bar by (simp add: plain_def periodOf_def)

lemma percent_reached: "0 < limit \<Longrightarrow> (of_nat c / of_int limit :: rat) * 100 < of_nat k \<longleftrightarrow> \<not> reached limit c k"
proof -
  assume l: "0 < limit"
  then have "(of_nat c / of_int limit :: rat) * 100 < of_nat k \<longleftrightarrow> (of_int (100 * int c) :: rat) < of_int (int k * limit)"
    by (simp add: divide_less_eq mult.commute)
  then show ?thesis unfolding of_int_less_iff reached_def by linarith
qed

locale notification_store =
  fixes ops :: "'s notification_ops" and view :: "'s \<Rightarrow> alert set"
  assumes has: "plain a \<Longrightarrow> op_hasBeenSent ops a s = Inr b \<Longrightarrow> b = (a \<in> view s)"
    and mark: "plain a \<Longrightarrow> op_markSent ops a s = (Inr u, s') \<Longrightarrow> view s' = insert a (view s)"
    and mark_failed: "plain a \<Longrightarrow> op_markSent ops a s = (Inl e, s') \<Longrightarrow> view s' = view s"
begin

text \<open>The alerts fired since the store held \<open>V\<close>: all new, none twice, and exactly what was added.\<close>

definition tracked :: "alert set \<Rightarrow> ('s, 'w) notifier \<Rightarrow> bool" where
  "tracked V n \<longleftrightarrow> view (nt_sent n) = V \<union> alert_of ` set (nt_fired n) \<and> distinct (map alert_of (nt_fired n)) \<and> V \<inter> alert_of ` set (nt_fired n) = {}"

lemma tracked_threshold:
  assumes "tracked V n"
  shows "tracked V (check_threshold ops dv today d c limit k n)"
proof -
  let ?a = "(d, periodOf today, k)"
  have p: "plain ?a" by (rule plain_period)
  show ?thesis
  proof (cases "op_hasBeenSent ops ?a (nt_sent n) = Inr False \<and> \<not> (of_nat c / of_int limit :: rat) * 100 < of_nat k")
    case False
    then show ?thesis using assms by (auto simp: check_threshold_def Let_def split: sum.split)
  next
    case True
    then have new: "?a \<notin> view (nt_sent n)" using has [OF p] by auto
    obtain r s1 where m: "op_markSent ops ?a (nt_sent n) = (r, s1)" by fastforce
    show ?thesis
    proof (cases r)
      case (Inl e)
      then show ?thesis using True m assms mark_failed [OF p, of "nt_sent n" e s1] by (simp add: check_threshold_def Let_def tracked_def)
    next
      case (Inr u)
      then show ?thesis using True m assms new mark [OF p, of "nt_sent n" u s1]
        by (auto simp: check_threshold_def Let_def tracked_def alert_of_def quota_payload_def case_prod_beta)
    qed
  qed
qed

lemma tracked_fold: "(\<And>x n. tracked V n \<Longrightarrow> tracked V (f x n)) \<Longrightarrow> tracked V n \<Longrightarrow> tracked V (fold f xs n)"
  by (induction xs arbitrary: n) auto

lemma tracked_check: "tracked V n \<Longrightarrow> tracked V (snd (runQuotaCheck ops dv repo quotas today n))"
  by (auto simp: runQuotaCheck_def check_developer_def Let_def case_prod_beta intro!: tracked_fold tracked_threshold split: sum.split)

end

text \<open>A store whose statements do not fail.\<close>

locale working_store = notification_store +
  assumes has_works: "\<exists>b. op_hasBeenSent ops a s = Inr b" and mark_works: "\<exists>s'. op_markSent ops a s = (Inr (), s')"
begin

lemma view_threshold:
  assumes "0 < limit"
  shows "view (nt_sent (check_threshold ops dv today d c limit k n)) = view (nt_sent n) \<union> (if reached limit c k then {(d, periodOf today, k)} else {})"
proof -
  let ?a = "(d, periodOf today, k)"
  have p: "plain ?a" by (rule plain_period)
  obtain b s1 where o: "op_hasBeenSent ops ?a (nt_sent n) = Inr b" "op_markSent ops ?a (nt_sent n) = (Inr (), s1)"
    using has_works mark_works by metis
  then show ?thesis using has [OF p o(1)] mark [OF p o(2)]
    unfolding check_threshold_def Let_def percent_reached [OF assms] by (auto simp: case_prod_beta)
qed

lemma view_thresholds:
  assumes "0 < limit"
  shows "view (nt_sent (fold (check_threshold ops dv today d c limit) ks n)) = view (nt_sent n) \<union> {(d, periodOf today, k) | k. k \<in> set ks \<and> reached limit c k}"
  by (induction ks arbitrary: n) (auto simp: view_threshold [OF assms])

lemma view_check:
  assumes "\<And>d. repo d (fst (monthBoundaries today)) (snd (monthBoundaries today)) = Inr (events d)"
  shows "view (nt_sent (snd (runQuotaCheck ops dv repo (Inr qs) today n))) = view (nt_sent n) \<union>
    {(dq_developerId q, periodOf today, k) | q k. q \<in> set qs \<and> 0 < dq_monthlyLimit q \<and> k \<in> set QUOTA_THRESHOLDS \<and>
       reached (dq_monthlyLimit q) (length (events (dq_developerId q))) k}"
proof -
  have "view (nt_sent (fold (check_developer ops dv repo today) qs n)) = view (nt_sent n) \<union>
    {(dq_developerId q, periodOf today, k) | q k. q \<in> set qs \<and> 0 < dq_monthlyLimit q \<and> k \<in> set QUOTA_THRESHOLDS \<and>
       reached (dq_monthlyLimit q) (length (events (dq_developerId q))) k}" for n
  proof (induction qs arbitrary: n)
    case (Cons q qs)
    have "view (nt_sent (check_developer ops dv repo today q n)) = view (nt_sent n) \<union>
        {(dq_developerId q, periodOf today, k) | k. 0 < dq_monthlyLimit q \<and> k \<in> set QUOTA_THRESHOLDS \<and> reached (dq_monthlyLimit q) (length (events (dq_developerId q))) k}"
      by (cases "0 < dq_monthlyLimit q") (simp_all add: check_developer_def case_prod_beta assms view_thresholds)
    then show ?case using Cons by auto
  qed simp
  then show ?thesis by (simp add: runQuotaCheck_def Let_def)
qed

end

definition mem_view :: "string list \<Rightarrow> alert set" where
  "mem_view s = {a. plain a \<and> sent_key a \<in> set s}"

lemma last_bar:
  assumes "CHR ''|'' \<notin> set b" "CHR ''|'' \<notin> set d"
  shows "a @ CHR ''|'' # b = c @ CHR ''|'' # d \<longleftrightarrow> a = c \<and> b = d"
proof -
  have "a @ CHR ''|'' # b = c @ CHR ''|'' # d \<longleftrightarrow> rev b @ CHR ''|'' # rev a = rev d @ CHR ''|'' # rev c"
    by (metis rev.simps(2) rev_append rev_rev_ident append.assoc append_Cons append_Nil)
  also have "\<dots> \<longleftrightarrow> rev b = rev d \<and> rev a = rev c" using assms by (intro append_sep) simp_all
  finally show ?thesis by auto
qed

lemma sent_key_inj: "plain a \<Longrightarrow> plain b \<Longrightarrow> sent_key a = sent_key b \<longleftrightarrow> a = b"
proof -
  assume p: "plain a" "plain b"
  obtain d e k d' e' k' where ab: "a = (d, e, k)" "b = (d', e', k')" by (cases a; cases b) auto
  have "sent_key a = sent_key b \<longleftrightarrow> (d @ CHR ''|'' # e) @ CHR ''|'' # show_nat k = (d' @ CHR ''|'' # e') @ CHR ''|'' # show_nat k'"
    by (simp add: sent_key_def ab)
  also have "\<dots> \<longleftrightarrow> (d @ CHR ''|'' # e = d' @ CHR ''|'' # e') \<and> show_nat k = show_nat k'" using show_nat_no_bar by (intro last_bar)
  also have "\<dots> \<longleftrightarrow> (d = d' \<and> e = e') \<and> show_nat k = show_nat k'" using p last_bar [of e e' d d'] by (simp add: plain_def ab)
  also have "show_nat k = show_nat k' \<longleftrightarrow> k = k'" by (metis read_show_nat)
  finally show ?thesis by (simp add: ab)
qed

interpretation mem_sent: working_store InMemoryQuotaNotificationStore mem_view
  by unfold_locales (auto simp: InMemoryQuotaNotificationStore_def mem_hasBeenSent_def mem_markSent_def mem_view_def sent_key_inj)

interpretation pg_sent: notification_store "PgQuotaNotificationStore down_select down_insert" set for down_select down_insert
  by unfold_locales (auto simp: PgQuotaNotificationStore_def pg_hasBeenSent_def pg_markSent_def split: if_splits)

interpretation pg_working: working_store "PgQuotaNotificationStore (\<lambda>_. False) (\<lambda>_. False)" set
  by unfold_locales (auto simp: PgQuotaNotificationStore_def pg_hasBeenSent_def pg_markSent_def)

section \<open>Alerts\<close>

text \<open>One check: the failing statements of the store, what the usage repository answers, the quotas and the time.\<close>

record quota_tick =
  tk_down_select :: "alert \<Rightarrow> bool"
  tk_down_insert :: "alert \<Rightarrow> bool"
  tk_repo :: usage_repo
  tk_quotas :: "DeveloperQuota list result"
  tk_now :: millis

definition mem_tick :: "'w delivery \<Rightarrow> quota_tick \<Rightarrow> (string list, 'w) notifier \<Rightarrow> (string list, 'w) notifier" where
  "mem_tick dv t n = snd (runQuotaCheck InMemoryQuotaNotificationStore dv (tk_repo t) (tk_quotas t) (tk_now t) n)"

definition pg_tick :: "'w delivery \<Rightarrow> quota_tick \<Rightarrow> (alert list, 'w) notifier \<Rightarrow> (alert list, 'w) notifier" where
  "pg_tick dv t n = snd (runQuotaCheck (PgQuotaNotificationStore (tk_down_select t) (tk_down_insert t)) dv (tk_repo t) (tk_quotas t) (tk_now t) n)"

text \<open>C34. No quota alert is sent twice: over any number of checks, whatever usage, quotas and times they see and whatever statements fail in
  between, the alerts that were fired differ in developer, month or threshold, and none of them was in the
  store before. This holds for the in-memory and the Postgres store.\<close>

theorem quota_alert_once:
  "let n = fold (mem_tick dv) ts \<lparr>nt_sent = s, nt_hooks = h, nt_world = w, nt_fired = []\<rparr>;
       n' = fold (pg_tick dv) ts \<lparr>nt_sent = rows, nt_hooks = h, nt_world = w, nt_fired = []\<rparr> in
   distinct (map alert_of (nt_fired n)) \<and> mem_view s \<inter> alert_of ` set (nt_fired n) = {} \<and>
   distinct (map alert_of (nt_fired n')) \<and> set rows \<inter> alert_of ` set (nt_fired n') = {}"
proof -
  have "mem_sent.tracked (mem_view s) (fold (mem_tick dv) ts \<lparr>nt_sent = s, nt_hooks = h, nt_world = w, nt_fired = []\<rparr>)"
    by (rule mem_sent.tracked_fold) (simp add: mem_tick_def mem_sent.tracked_check, simp add: mem_sent.tracked_def)
  moreover have "pg_sent.tracked (set rows) (pg_tick dv t n)" if "pg_sent.tracked (set rows) n" for t and n :: "(alert list, 'a) notifier"
    unfolding pg_tick_def by (rule pg_sent.tracked_check [OF that])
  then have "pg_sent.tracked (set rows) (fold (pg_tick dv) ts \<lparr>nt_sent = rows, nt_hooks = h, nt_world = w, nt_fired = []\<rparr>)"
    by (intro pg_sent.tracked_fold) (assumption, simp add: pg_sent.tracked_def)
  ultimately show ?thesis by (simp add: mem_sent.tracked_def pg_sent.tracked_def Let_def)
qed

definition same_month :: "millis \<Rightarrow> millis \<Rightarrow> bool" where
  "same_month t u \<longleftrightarrow> getUTCFullYear t = getUTCFullYear u \<and> getUTCMonth t = getUTCMonth u"

lemma month_bounds:
  assumes "100 \<le> getUTCFullYear today"
  shows "fst (monthBoundaries today) \<le> t \<and> t \<le> snd (monthBoundaries today) \<longleftrightarrow> same_month t today"
proof -
  let ?y = "getUTCFullYear today" and ?m = "getUTCMonth today"
  have m: "?m < 12" by (rule civil_valid [of "day_of today"]) (simp add: getUTCMonth_def valid_date_def)
  have "a * DAY_MS \<le> t \<and> t \<le> b * DAY_MS - 1 \<longleftrightarrow> a \<le> day_of t \<and> day_of t < b" for a b
    by (auto simp: day_of_def DAY_MS_def)
  then show ?thesis using assms month_days [OF m, of ?y "day_of t"]
    by (simp add: monthBoundaries_def Let_def Date_UTC_def same_month_def getUTCFullYear_def getUTCMonth_def)
qed

definition calls_this_month :: "millis \<Rightarrow> string \<Rightarrow> UsageEvent list \<Rightarrow> nat" where
  "calls_this_month today d es = length (filter (\<lambda>e. ue_developerId e = d \<and> same_month (ue_occurredAt e) today) es)"

text \<open>Quota alerts are exact: a check over a working store fires an alert for exactly those developers with a positive limit and those
  thresholds whose share of the limit the developer's calls of the current calendar month have reached, unless that alert was sent
  before; it returns how many it fired, and afterwards all of them are remembered.\<close>

theorem quota_alert_exact:
  assumes "100 \<le> getUTCFullYear today" "nt_fired n = []"
  shows "case runQuotaCheck InMemoryQuotaNotificationStore dv (\<lambda>d start finish. Inr (findByDeveloper d start finish None es)) (Inr qs) today n of (fired, n') \<Rightarrow>
    (let due = {(dq_developerId q, periodOf today, k) | q k. q \<in> set qs \<and> 0 < dq_monthlyLimit q \<and> k \<in> {80, 95, 100} \<and>
         int k * dq_monthlyLimit q \<le> 100 * int (calls_this_month today (dq_developerId q) es)} in
     alert_of ` set (nt_fired n') = due - mem_view (nt_sent n) \<and> fired = card (due - mem_view (nt_sent n)) \<and>
     mem_view (nt_sent n') = mem_view (nt_sent n) \<union> due)"
proof -
  let ?repo = "\<lambda>d start finish. Inr (findByDeveloper d start finish None es)"
  let ?r = "runQuotaCheck InMemoryQuotaNotificationStore dv ?repo (Inr qs) today n"
  let ?V = "mem_view (nt_sent n)"
  let ?due = "{(dq_developerId q, periodOf today, k) | q k. q \<in> set qs \<and> 0 < dq_monthlyLimit q \<and> k \<in> {80, 95, 100} \<and>
         int k * dq_monthlyLimit q \<le> 100 * int (calls_this_month today (dq_developerId q) es)}"
  have f: "findByDeveloper d (fst (monthBoundaries today)) (snd (monthBoundaries today)) None es =
      filter (\<lambda>e. ue_developerId e = d \<and> same_month (ue_occurredAt e) today) es" for d
    using month_bounds [OF assms(1)] by (simp add: findByDeveloper_def api_filter_def)
  have "mem_sent.tracked ?V n" using assms(2) by (simp add: mem_sent.tracked_def)
  then have t: "mem_sent.tracked ?V (snd ?r)" by (rule mem_sent.tracked_check)
  have v: "mem_view (nt_sent (snd ?r)) = ?V \<union> ?due"
    using mem_sent.view_check [of ?repo today "\<lambda>d. findByDeveloper d (fst (monthBoundaries today)) (snd (monthBoundaries today)) None es" dv qs n]
    by (simp add: f calls_this_month_def reached_def QUOTA_THRESHOLDS_def)
  have "?V \<union> ?due = ?V \<union> alert_of ` set (nt_fired (snd ?r))" "?V \<inter> alert_of ` set (nt_fired (snd ?r)) = {}"
    using t unfolding mem_sent.tracked_def v by simp_all
  then have a: "alert_of ` set (nt_fired (snd ?r)) = ?due - ?V" by blast
  have "fst ?r = length (nt_fired (snd ?r))" using assms(2) by (simp add: runQuotaCheck_def Let_def)
  also have "\<dots> = length (map alert_of (nt_fired (snd ?r)))" by simp
  also have "\<dots> = card (set (map alert_of (nt_fired (snd ?r))))" using t unfolding mem_sent.tracked_def by (metis distinct_card)
  finally have "fst ?r = card (?due - ?V)" using a by simp
  with a v show ?thesis by (simp add: case_prod_beta Let_def)
qed

section \<open>Examples\<close>

definition demo_delivery :: "unit delivery" where
  "demo_delivery = \<lparr>dv_fetch = (\<lambda>_ w. (Threw ''down'', w)), dv_sleep = (\<lambda>_ w. w),
     dv_env = (\<lambda>_. \<lparr>de_default = hd declared_defaults, de_deliveryId = ''id'', de_requestId = None, de_correlationId = None,
       de_stringify = (\<lambda>_. ''{}''), de_hmac = (\<lambda>_ _. ''00''), de_failedAt = 9\<rparr>)\<rparr>"

definition demo_call :: "millis \<Rightarrow> UsageEvent" where
  "demo_call t = \<lparr>ue_id = ''1'', ue_developerId = ''d'', ue_apiId = ''a'', ue_endpoint = ''e'', ue_userId = ''u'', ue_occurredAt = t, ue_revenue = 1\<rparr>"

definition demo_notifier :: "(string list, unit) notifier" where
  "demo_notifier = \<lparr>nt_sent = [], nt_hooks = empty_webhooks, nt_world = (), nt_fired = []\<rparr>"

theorem quota_alert_exact_witness:
  "alert_of ` set (nt_fired (snd (runQuotaCheck InMemoryQuotaNotificationStore demo_delivery
      (\<lambda>d start finish. Inr (findByDeveloper d start finish None [demo_call 1699000000000, demo_call 1690000000000]))
      (Inr [\<lparr>dq_developerId = ''d'', dq_monthlyLimit = 1\<rparr>]) 1700000000000 demo_notifier))) =
    {(''d'', periodOf 1700000000000, 80), (''d'', periodOf 1700000000000, 95), (''d'', periodOf 1700000000000, 100)}"
proof -
  have "calls_this_month 1700000000000 ''d'' [demo_call 1699000000000, demo_call 1690000000000] = 1" "100 \<le> getUTCFullYear 1700000000000" by code_simp+
  moreover have "mem_view (nt_sent demo_notifier) = {}" "nt_fired demo_notifier = []" by (simp_all add: demo_notifier_def mem_view_def)
  ultimately show ?thesis
    using quota_alert_exact [where today = 1700000000000 and n = demo_notifier and dv = demo_delivery and
      es = "[demo_call 1699000000000, demo_call 1690000000000]" and qs = "[\<lparr>dq_developerId = ''d'', dq_monthlyLimit = 1\<rparr>]"]
    by (auto simp: case_prod_beta Let_def)
qed

end
