(* ===== verification/Lifecycle.thy ===== *)
theory Lifecycle
  imports Prelude
begin

text \<open>
  Shutting down: the handler and the request tracker of \<^verbatim>\<open>lifecycle/shutdown.ts\<close>, and the interval jobs it waits for
  (\<^verbatim>\<open>services/revenueLedgerIndexer.ts\<close> and the jobs built the same way).

  The handler starts several asynchronous activities at once: it asks the subsystems one after the other to stop, closes the server, and
  waits for all subsystems to become idle. Each completion is an event, and events come in any order. The
  calls the handler makes are listed in its output; \<open>system_step\<close> connects them to the jobs.
\<close>

section \<open>The tracker of requests in flight\<close>

record tracker =
  activeRequestCount :: int
  acceptingRequests :: bool
  settledRequests :: "(nat, bool) js_map"
  idleWaiters :: "nat list"
  resolvedWaiters :: "nat list"

definition new_tracker :: tracker where
  "new_tracker = \<lparr>activeRequestCount = 0, acceptingRequests = True, settledRequests = [], idleWaiters = [], resolvedWaiters = []\<rparr>"

definition notifyIfIdle :: "tracker \<Rightarrow> tracker" where
  "notifyIfIdle t = (if activeRequestCount t = 0 then t\<lparr>resolvedWaiters := resolvedWaiters t @ idleWaiters t, idleWaiters := []\<rparr> else t)"

text \<open>The middleware on a new request; the result tells whether it asks the client to close the connection.\<close>

definition track_request :: "nat \<Rightarrow> tracker \<Rightarrow> bool \<times> tracker" where
  "track_request r t = (\<not> acceptingRequests t,
     t\<lparr>activeRequestCount := activeRequestCount t + 1, settledRequests := map_set r False (settledRequests t)\<rparr>)"

definition markComplete :: "nat \<Rightarrow> tracker \<Rightarrow> tracker" where
  "markComplete r t = (if map_get (settledRequests t) r \<noteq> Some False then t
     else notifyIfIdle (t\<lparr>settledRequests := map_set r True (settledRequests t), activeRequestCount := max 0 (activeRequestCount t - 1)\<rparr>))"

definition tracker_beginShutdown :: "tracker \<Rightarrow> tracker" where
  "tracker_beginShutdown t = t\<lparr>acceptingRequests := False\<rparr>"

definition isDraining :: "tracker \<Rightarrow> bool" where
  "isDraining t = (\<not> acceptingRequests t)"

definition tracker_awaitIdle :: "nat \<Rightarrow> tracker \<Rightarrow> tracker" where
  "tracker_awaitIdle w t = (if activeRequestCount t = 0 then t\<lparr>resolvedWaiters := resolvedWaiters t @ [w]\<rparr>
     else t\<lparr>idleWaiters := idleWaiters t @ [w]\<rparr>)"

text \<open>A request has an event \<open>finish\<close>, an event \<open>close\<close>, or both.\<close>

datatype tracker_event = Enter nat | Finish nat | CloseConn nat | BeginShutdown | AwaitIdle nat

fun tracker_step :: "tracker_event \<Rightarrow> tracker \<Rightarrow> tracker" where
  "tracker_step (Enter r) t = (if r \<in> fst ` set (settledRequests t) then t else snd (track_request r t))"
| "tracker_step (Finish r) t = markComplete r t"
| "tracker_step (CloseConn r) t = markComplete r t"
| "tracker_step BeginShutdown t = tracker_beginShutdown t"
| "tracker_step (AwaitIdle w) t = tracker_awaitIdle w t"

definition open_requests :: "tracker \<Rightarrow> nat list" where
  "open_requests t = map fst (filter (\<lambda>x. \<not> snd x) (settledRequests t))"

definition tracker_ok :: "tracker \<Rightarrow> bool" where
  "tracker_ok t \<longleftrightarrow> wf_map (settledRequests t) \<and> activeRequestCount t = int (length (open_requests t)) \<and> (idleWaiters t \<noteq> [] \<longrightarrow> open_requests t \<noteq> [])"

lemma open_set_fresh: "r \<notin> fst ` set m \<Longrightarrow> filter (\<lambda>x. \<not> snd x) (map_set r False m) = filter (\<lambda>x. \<not> snd x) m @ [(r, False)]"
  by (simp add: map_set_fresh)

lemma open_enter: "open_requests (tracker_step (Enter r) t) = (if r \<in> fst ` set (settledRequests t) then open_requests t else open_requests t @ [r])"
  using open_set_fresh [of r "settledRequests t"] by (simp add: open_requests_def track_request_def del: set_filter)

lemma open_set_done:
  "wf_map m \<Longrightarrow> map_get m r = Some False \<Longrightarrow>
    length (filter (\<lambda>x. \<not> snd x) m) = Suc (length (filter (\<lambda>x. \<not> snd x) (map_set r True m))) \<and>
    fst ` set (filter (\<lambda>x. \<not> snd x) (map_set r True m)) = fst ` set (filter (\<lambda>x. \<not> snd x) m) - {r}"
  by (induction m) (auto simp: image_iff split: if_splits)

lemma complete_ok:
  assumes "tracker_ok t"
  shows "tracker_ok (markComplete r t) \<and> set (open_requests (markComplete r t)) = set (open_requests t) - {r}"
proof (cases "map_get (settledRequests t) r = Some False")
  case False
  then have "r \<notin> set (open_requests t)" using assms by (auto simp: open_requests_def tracker_ok_def wf_map_get_iff)
  then show ?thesis using assms False by (simp add: markComplete_def)
next
  case True
  have wf: "wf_map (settledRequests t)" using assms by (simp add: tracker_ok_def)
  note o = open_set_done [OF wf True]
  let ?t = "t\<lparr>settledRequests := map_set r True (settledRequests t), activeRequestCount := max 0 (activeRequestCount t - 1)\<rparr>"
  have n: "activeRequestCount ?t = int (length (open_requests ?t))" using assms o by (simp add: tracker_ok_def open_requests_def)
  have "tracker_ok (notifyIfIdle ?t)" using n wf by (auto simp: notifyIfIdle_def tracker_ok_def open_requests_def)
  moreover have "open_requests (notifyIfIdle ?t) = open_requests ?t" by (simp add: notifyIfIdle_def open_requests_def)
  moreover have "set (open_requests ?t) = set (open_requests t) - {r}" using o by (simp add: open_requests_def)
  ultimately show ?thesis using True by (simp add: markComplete_def)
qed

lemma tracker_step_ok: "tracker_ok t \<Longrightarrow> tracker_ok (tracker_step e t)"
proof (cases e)
  case (Enter r)
  assume "tracker_ok t"
  then show ?thesis by (auto simp: Enter tracker_ok_def track_request_def open_requests_def open_set_fresh)
next
  case (Finish r)
  assume "tracker_ok t"
  then show ?thesis by (simp add: Finish complete_ok)
next
  case (CloseConn r)
  assume "tracker_ok t"
  then show ?thesis by (simp add: CloseConn complete_ok)
qed (auto simp: tracker_beginShutdown_def tracker_awaitIdle_def tracker_ok_def open_requests_def)

text \<open>The requests that are in flight after a list of events: entered, and neither finished nor closed since.\<close>

fun in_flight :: "tracker_event list \<Rightarrow> nat set \<Rightarrow> nat set \<Rightarrow> nat set" where
  "in_flight [] seen fl = fl"
| "in_flight (Enter r # es) seen fl = in_flight es (insert r seen) (if r \<in> seen then fl else insert r fl)"
| "in_flight (Finish r # es) seen fl = in_flight es seen (fl - {r})"
| "in_flight (CloseConn r # es) seen fl = in_flight es seen (fl - {r})"
| "in_flight (_ # es) seen fl = in_flight es seen fl"

lemma tracker_run:
  "tracker_ok t \<Longrightarrow> tracker_ok (fold tracker_step es t) \<and>
    set (open_requests (fold tracker_step es t)) = in_flight es (fst ` set (settledRequests t)) (set (open_requests t))"
proof (induction es arbitrary: t)
  case (Cons e es)
  note ok = tracker_step_ok [OF Cons.prems, of e]
  have wf: "wf_map (settledRequests t)" using Cons.prems by (simp add: tracker_ok_def)
  have seen: "fst ` set (settledRequests (markComplete r t)) = fst ` set (settledRequests t)" for r
  proof -
    have "map_get (settledRequests t) r = Some False \<Longrightarrow> r \<in> fst ` set (settledRequests t)" using wf by (force simp: wf_map_get_iff)
    then show ?thesis using wf by (auto simp: markComplete_def notifyIfIdle_def set_map_set image_iff)
  qed
  show ?case
  proof (cases e)
    case (Enter r)
    have "fst ` set (settledRequests (tracker_step e t)) = insert r (fst ` set (settledRequests t))"
      by (auto simp: Enter track_request_def map_set_fresh)
    moreover have "set (open_requests (tracker_step e t)) = (if r \<in> fst ` set (settledRequests t) then set (open_requests t) else insert r (set (open_requests t)))"
      unfolding Enter open_enter by simp
    ultimately show ?thesis using Cons.IH [OF ok] by (simp add: Enter)
  next
    case (Finish r)
    then show ?thesis using Cons.IH [OF ok] complete_ok [OF Cons.prems, of r] seen by simp
  next
    case (CloseConn r)
    then show ?thesis using Cons.IH [OF ok] complete_ok [OF Cons.prems, of r] seen by simp
  qed (use Cons.IH [OF ok] in \<open>simp_all add: tracker_beginShutdown_def tracker_awaitIdle_def open_requests_def\<close>)
qed simp

lemma new_tracker_ok: "tracker_ok new_tracker" "open_requests new_tracker = []"
  by (simp_all add: tracker_ok_def new_tracker_def open_requests_def)

lemma waiters_kept: "set (idleWaiters (fold tracker_step es t)) \<union> set (resolvedWaiters (fold tracker_step es t)) =
    {w. AwaitIdle w \<in> set es} \<union> set (idleWaiters t) \<union> set (resolvedWaiters t)"
proof (induction es arbitrary: t)
  case (Cons e es)
  have "set (idleWaiters (tracker_step e t)) \<union> set (resolvedWaiters (tracker_step e t)) = {w. e = AwaitIdle w} \<union> set (idleWaiters t) \<union> set (resolvedWaiters t)"
    by (cases e) (auto simp: track_request_def markComplete_def notifyIfIdle_def tracker_beginShutdown_def tracker_awaitIdle_def)
  then show ?case using Cons.IH [of "tracker_step e t"] by auto
qed simp

text \<open>C31. The tracker counts exactly and loses no waiter: after any sequence of requests, completions (a request may finish and close), shutdown signals and
  waits, the count is the number of requests in flight, and when none is in flight everyone who ever waited has been
  told.\<close>

theorem tracker_exact:
  "let t = fold tracker_step es new_tracker in
   activeRequestCount t = int (card (in_flight es {} {})) \<and>
   (in_flight es {} {} = {} \<longrightarrow> idleWaiters t = [] \<and> set (resolvedWaiters t) = {w. AwaitIdle w \<in> set es})"
proof -
  let ?t = "fold tracker_step es new_tracker"
  have ok: "tracker_ok ?t" and o: "set (open_requests ?t) = in_flight es {} {}"
    using tracker_run [OF new_tracker_ok(1), of es] by (simp_all add: new_tracker_ok) (simp_all add: new_tracker_def)
  have "distinct (open_requests ?t)" using ok unfolding open_requests_def tracker_ok_def by (intro distinct_map_filter) simp
  then have "activeRequestCount ?t = int (card (in_flight es {} {}))" using ok o distinct_card by (fastforce simp: tracker_ok_def)
  moreover have "idleWaiters ?t = []" if "in_flight es {} {} = {}" using ok o that by (auto simp: tracker_ok_def)
  moreover have "set (idleWaiters ?t) \<union> set (resolvedWaiters ?t) = {w. AwaitIdle w \<in> set es}"
    using waiters_kept [of es new_tracker] by (simp add: new_tracker_def)
  ultimately show ?thesis by (auto simp: Let_def)
qed

section \<open>Interval jobs\<close>

record job =
  jb_timer :: bool
  jb_accepting :: bool
  jb_running :: bool
  jb_runs :: nat

record job_kind =
  jk_immediate :: bool
  jk_drains :: bool

definition revenueLedgerIndexerJob :: job_kind where
  "revenueLedgerIndexerJob = \<lparr>jk_immediate = True, jk_drains = True\<rparr>"

definition billingReconciliationJob :: job_kind where
  "billingReconciliationJob = \<lparr>jk_immediate = True, jk_drains = True\<rparr>"

definition settlementReconciliationJob :: job_kind where
  "settlementReconciliationJob = \<lparr>jk_immediate = True, jk_drains = True\<rparr>"

definition idempotencySweeperJob :: job_kind where
  "idempotencySweeperJob = \<lparr>jk_immediate = True, jk_drains = True\<rparr>"

definition settlementStatusSyncJob :: job_kind where
  "settlementStatusSyncJob = \<lparr>jk_immediate = False, jk_drains = False\<rparr>"

definition quotaNotifierJob :: job_kind where
  "quotaNotifierJob = \<lparr>jk_immediate = False, jk_drains = False\<rparr>"

definition new_job :: job where
  "new_job = \<lparr>jb_timer = False, jb_accepting = True, jb_running = False, jb_runs = 0\<rparr>"

definition job_tick :: "job \<Rightarrow> job" where
  "job_tick j = (if \<not> jb_accepting j \<or> jb_running j then j else j\<lparr>jb_running := True, jb_runs := jb_runs j + 1\<rparr>)"

definition job_start :: "job_kind \<Rightarrow> job \<Rightarrow> job" where
  "job_start k j = (if jb_timer j \<or> \<not> jb_accepting j then j else (if jk_immediate k then job_tick j else j)\<lparr>jb_timer := True\<rparr>)"

definition job_stop :: "job \<Rightarrow> job" where
  "job_stop j = (if \<not> jb_timer j then j else j\<lparr>jb_timer := False\<rparr>)"

definition job_beginShutdown :: "job_kind \<Rightarrow> job \<Rightarrow> job" where
  "job_beginShutdown k j = (if jk_drains k then j\<lparr>jb_accepting := False, jb_timer := False\<rparr> else j)"

text \<open>The callback of the interval, and the end of a run.\<close>

definition job_fire :: "job \<Rightarrow> job" where
  "job_fire j = (if jb_timer j then job_tick j else j)"

definition job_end :: "job \<Rightarrow> job" where
  "job_end j = j\<lparr>jb_running := False\<rparr>"

datatype job_event = JobStart | JobStop | JobShutdown | JobFire | JobEnd

fun job_step :: "job_kind \<Rightarrow> job_event \<Rightarrow> job \<Rightarrow> job" where
  "job_step k JobStart j = job_start k j"
| "job_step k JobStop j = job_stop j"
| "job_step k JobShutdown j = job_beginShutdown k j"
| "job_step k JobFire j = job_fire j"
| "job_step k JobEnd j = job_end j"

lemmas job_defs = job_start_def job_stop_def job_beginShutdown_def job_fire_def job_end_def job_tick_def

lemma job_stopped_step: "\<not> jb_accepting j \<Longrightarrow> \<not> jb_accepting (job_step k e j) \<and> jb_runs (job_step k e j) = jb_runs j \<and>
    (jb_running (job_step k e j) \<longrightarrow> jb_running j) \<and> (e = JobEnd \<longrightarrow> \<not> jb_running (job_step k e j))"
  by (cases e) (auto simp: job_defs)

lemma job_stopped: "\<not> jb_accepting j \<Longrightarrow> \<not> jb_accepting (fold (job_step k) es j) \<and> jb_runs (fold (job_step k) es j) = jb_runs j \<and>
    (jb_running (fold (job_step k) es j) \<longrightarrow> jb_running j \<and> JobEnd \<notin> set es)"
proof (induction es arbitrary: j)
  case (Cons e es)
  note step = job_stopped_step [OF Cons.prems, of k e]
  have "\<not> jb_accepting (job_step k e j)" using step by simp
  from Cons.IH [OF this] step show ?case unfolding fold_simps list.set by (metis insert_iff)
qed simp

text \<open>A job that was told to shut down winds down: whatever happens afterwards, no run starts any more, and once the run that may have been under way
  has ended the job stays idle.\<close>

theorem job_winds_down:
  assumes "jk_drains k"
  shows "let j' = fold (job_step k) es (job_beginShutdown k j) in jb_runs j' = jb_runs j \<and> (jb_running j' \<longrightarrow> jb_running j \<and> JobEnd \<notin> set es)"
  using job_stopped [of "job_beginShutdown k j" k es] assms by (auto simp: Let_def job_beginShutdown_def)

theorem job_winds_down_witness:
  "jb_runs (fold (job_step idempotencySweeperJob) [JobFire, JobEnd, JobStart, JobFire] (job_beginShutdown idempotencySweeperJob (job_start idempotencySweeperJob new_job))) = 1"
  using job_winds_down [of idempotencySweeperJob "[JobFire, JobEnd, JobStart, JobFire]" "job_start idempotencySweeperJob new_job"]
  by (simp add: idempotencySweeperJob_def job_start_def job_tick_def new_job_def Let_def)

theorem tracker_exact_witness:
  "set (resolvedWaiters (fold tracker_step [Enter 1, AwaitIdle 7, BeginShutdown, Finish 1, CloseConn 1] new_tracker)) = {7}"
  using tracker_exact [of "[Enter 1, AwaitIdle 7, BeginShutdown, Finish 1, CloseConn 1]"] by (simp add: Let_def del: fold_simps)

section \<open>The shutdown handler\<close>

datatype db_state = DbOpen | DbClosing | DbClosed

record shutdown =
  sh_started :: bool
  sh_stopping :: "nat list"
  sh_stopped :: bool
  sh_server :: "bool option"
  sh_pending :: "nat list"
  sh_settled_ok :: bool
  sh_drained :: "bool option"
  sh_db :: db_state
  sh_timer :: bool
  sh_forced :: bool
  sh_exit :: "nat option"

definition not_shut_down :: shutdown where
  "not_shut_down = \<lparr>sh_started = False, sh_stopping = [], sh_stopped = True, sh_server = None, sh_pending = [], sh_settled_ok = True,
     sh_drained = None, sh_db = DbOpen, sh_timer = False, sh_forced = False, sh_exit = None\<rparr>"

text \<open>What the handler calls: \<open>beginShutdown\<close> and \<open>awaitIdle\<close> of a subsystem, \<open>server.close\<close>, \<open>closeDatabase\<close>, and the destruction of the sockets.\<close>

datatype shutdown_call = CallBegin nat | CallAwait nat | CallCloseServer | CallCloseDb | CallDestroySockets

text \<open>\<open>Promise.all\<close> over the three phases.\<close>

definition join_phases :: "shutdown \<Rightarrow> shutdown \<times> shutdown_call list" where
  "join_phases s = (if sh_started s \<and> sh_stopping s = [] \<and> sh_server s \<noteq> None \<and> sh_drained s \<noteq> None \<and> sh_db s = DbOpen
     then (s\<lparr>sh_timer := False, sh_db := DbClosing\<rparr>, [CallCloseDb]) else (s, []))"

definition begin_next :: "shutdown \<Rightarrow> shutdown_call list" where
  "begin_next s = (case sh_stopping s of [] \<Rightarrow> [] | i # _ \<Rightarrow> [CallBegin i])"

definition on_signal :: "nat \<Rightarrow> shutdown \<Rightarrow> shutdown \<times> shutdown_call list" where
  "on_signal n s = (if sh_started s then (s, [])
     else (let s1 = s\<lparr>sh_started := True, sh_timer := True, sh_stopping := [0 ..< n], sh_pending := [0 ..< n],
             sh_drained := (if n = 0 then Some True else None)\<rparr> in
       (s1, begin_next s1 @ [CallCloseServer] @ map CallAwait [0 ..< n])))"

definition on_stop_settled :: "bool \<Rightarrow> shutdown \<Rightarrow> shutdown \<times> shutdown_call list" where
  "on_stop_settled ok s = (case sh_stopping s of [] \<Rightarrow> (s, [])
     | i # rest \<Rightarrow> (let s1 = s\<lparr>sh_stopping := rest, sh_stopped := (sh_stopped s \<and> ok)\<rparr>; (s2, calls) = join_phases s1 in (s2, begin_next s1 @ calls)))"

definition on_server_closed :: "bool \<Rightarrow> shutdown \<Rightarrow> shutdown \<times> shutdown_call list" where
  "on_server_closed ok s = (if \<not> sh_started s \<or> sh_server s \<noteq> None then (s, []) else join_phases (s\<lparr>sh_server := Some ok\<rparr>))"

definition on_idle :: "nat \<Rightarrow> bool \<Rightarrow> shutdown \<Rightarrow> shutdown \<times> shutdown_call list" where
  "on_idle i ok s = (if i \<notin> set (sh_pending s) \<or> sh_drained s \<noteq> None then (s, [])
     else (let p = removeAll i (sh_pending s); good = (sh_settled_ok s \<and> ok) in
       join_phases (s\<lparr>sh_pending := p, sh_settled_ok := good, sh_drained := (if p = [] then Some good else None)\<rparr>)))"

definition on_drain_timeout :: "shutdown \<Rightarrow> shutdown \<times> shutdown_call list" where
  "on_drain_timeout s = (if \<not> sh_started s \<or> sh_drained s \<noteq> None then (s, []) else join_phases (s\<lparr>sh_drained := Some False\<rparr>))"

definition on_force_timeout :: "shutdown \<Rightarrow> shutdown \<times> shutdown_call list" where
  "on_force_timeout s = (if sh_timer s then (s\<lparr>sh_timer := False, sh_forced := True\<rparr>, [CallDestroySockets]) else (s, []))"

definition on_db_closed :: "bool \<Rightarrow> shutdown \<Rightarrow> shutdown \<times> shutdown_call list" where
  "on_db_closed ok s = (if sh_db s \<noteq> DbClosing then (s, [])
     else (s\<lparr>sh_db := DbClosed, sh_exit := Some (if ok \<and> sh_stopped s \<and> sh_server s = Some True \<and> sh_drained s = Some True then 0 else 1)\<rparr>, []))"

datatype shutdown_event = Signal | StopSettled bool | ServerClosed bool | SubsystemIdle nat bool | DrainTimeout | ForceTimeout | DatabaseClosed bool

fun shutdown_react :: "nat \<Rightarrow> shutdown_event \<Rightarrow> shutdown \<Rightarrow> shutdown \<times> shutdown_call list" where
  "shutdown_react n Signal s = on_signal n s"
| "shutdown_react n (StopSettled ok) s = on_stop_settled ok s"
| "shutdown_react n (ServerClosed ok) s = on_server_closed ok s"
| "shutdown_react n (SubsystemIdle i ok) s = on_idle i ok s"
| "shutdown_react n DrainTimeout s = on_drain_timeout s"
| "shutdown_react n ForceTimeout s = on_force_timeout s"
| "shutdown_react n (DatabaseClosed ok) s = on_db_closed ok s"

definition shutdown_step :: "nat \<Rightarrow> shutdown_event \<Rightarrow> shutdown \<Rightarrow> shutdown" where
  "shutdown_step n e s = fst (shutdown_react n e s)"

lemmas react_defs = on_signal_def on_stop_settled_def on_server_closed_def on_idle_def on_drain_timeout_def on_force_timeout_def on_db_closed_def join_phases_def

text \<open>The state after the signal, and what the events since then say about it.\<close>

definition signalled :: "nat \<Rightarrow> shutdown" where
  "signalled n = fst (on_signal n not_shut_down)"

definition phases_done :: "shutdown \<Rightarrow> bool" where
  "phases_done s \<longleftrightarrow> sh_stopping s = [] \<and> sh_server s \<noteq> None \<and> sh_drained s \<noteq> None"

fun stop_results :: "shutdown_event list \<Rightarrow> bool list" where
  "stop_results [] = []"
| "stop_results (StopSettled ok # es) = ok # stop_results es"
| "stop_results (_ # es) = stop_results es"

lemma stop_results_append [simp]: "stop_results (es @ fs) = stop_results es @ stop_results fs"
  by (induction es rule: stop_results.induct) auto

definition idle_reported :: "nat \<Rightarrow> shutdown_event list \<Rightarrow> bool" where
  "idle_reported n es \<longleftrightarrow> (\<forall>i < n. \<exists>ok. SubsystemIdle i ok \<in> set es)"

definition stop_history :: "nat \<Rightarrow> shutdown_event list \<Rightarrow> shutdown \<Rightarrow> bool" where
  "stop_history n es s \<longleftrightarrow> sh_started s \<and> sh_stopping s = drop (length (stop_results es)) [0 ..< n] \<and>
     sh_stopped s = (False \<notin> set (take n (stop_results es)))"

definition server_history :: "shutdown_event list \<Rightarrow> shutdown \<Rightarrow> bool" where
  "server_history es s \<longleftrightarrow> (sh_server s = None \<longleftrightarrow> (\<forall>ok. ServerClosed ok \<notin> set es)) \<and> (sh_server s = Some True \<longrightarrow> ServerClosed True \<in> set es)"

definition drain_fields :: "nat \<Rightarrow> shutdown_event list \<Rightarrow> nat list \<Rightarrow> bool \<Rightarrow> bool option \<Rightarrow> bool" where
  "drain_fields n es p good d \<longleftrightarrow>
     (\<forall>i < n. i \<notin> set p \<longrightarrow> (\<exists>ok. SubsystemIdle i ok \<in> set es) \<and> (good \<longrightarrow> SubsystemIdle i True \<in> set es)) \<and>
     (d = None \<longrightarrow> DrainTimeout \<notin> set es \<and> p \<noteq> [] \<and> set p \<subseteq> {..< n} \<and> (\<forall>i ok. SubsystemIdle i ok \<in> set es \<longrightarrow> i \<notin> set p)) \<and>
     (d = Some True \<longrightarrow> p = [] \<and> good) \<and>
     (d = Some False \<longrightarrow> DrainTimeout \<in> set es \<or> p = [])"

definition drain_history :: "nat \<Rightarrow> shutdown_event list \<Rightarrow> shutdown \<Rightarrow> bool" where
  "drain_history n es s \<longleftrightarrow> drain_fields n es (sh_pending s) (sh_settled_ok s) (sh_drained s)"

definition db_history :: "shutdown_event list \<Rightarrow> shutdown \<Rightarrow> bool" where
  "db_history es s \<longleftrightarrow> (sh_db s = DbOpen \<longleftrightarrow> \<not> phases_done s) \<and> (sh_exit s = None \<longleftrightarrow> sh_db s \<noteq> DbClosed) \<and>
     (sh_exit s = Some 0 \<longrightarrow> DatabaseClosed True \<in> set es \<and> sh_stopped s \<and> sh_server s = Some True \<and> sh_drained s = Some True)"

definition history_ok :: "nat \<Rightarrow> shutdown_event list \<Rightarrow> shutdown \<Rightarrow> bool" where
  "history_ok n es s \<longleftrightarrow> stop_history n es s \<and> server_history es s \<and> drain_history n es s \<and> db_history es s"

lemmas history_defs = stop_history_def server_history_def drain_history_def drain_fields_def db_history_def

lemma history_start: "history_ok n [] (signalled n)"
  by (auto simp: history_ok_def history_defs signalled_def on_signal_def not_shut_down_def phases_done_def Let_def)

lemma join_fields [simp]:
  "sh_started (fst (join_phases s)) = sh_started s" "sh_stopping (fst (join_phases s)) = sh_stopping s" "sh_stopped (fst (join_phases s)) = sh_stopped s"
  "sh_server (fst (join_phases s)) = sh_server s" "sh_pending (fst (join_phases s)) = sh_pending s" "sh_settled_ok (fst (join_phases s)) = sh_settled_ok s"
  "sh_drained (fst (join_phases s)) = sh_drained s" "sh_exit (fst (join_phases s)) = sh_exit s" "phases_done (fst (join_phases s)) = phases_done s"
  by (simp_all add: join_phases_def phases_done_def)

lemma join_db: "sh_started s \<Longrightarrow> sh_db s = DbOpen \<Longrightarrow> sh_db (fst (join_phases s)) = (if phases_done s then DbClosing else DbOpen)"
  by (simp add: join_phases_def phases_done_def)

lemma stop_settled_step:
  "shutdown_step n (StopSettled ok) s = (case sh_stopping s of [] \<Rightarrow> s | i # rest \<Rightarrow> fst (join_phases (s\<lparr>sh_stopping := rest, sh_stopped := (sh_stopped s \<and> ok)\<rparr>)))"
  by (simp add: shutdown_step_def on_stop_settled_def Let_def case_prod_beta split: list.split)

lemmas step_simps = shutdown_step_def on_signal_def on_server_closed_def on_idle_def on_drain_timeout_def on_force_timeout_def on_db_closed_def Let_def

lemma stopping_cons: "drop k [0 ..< n] = i # rest \<Longrightarrow> k < n \<and> drop (Suc k) [0 ..< n] = rest"
  by (cases "k < n") (auto simp add: upt_rec [of k n])

lemma stop_history_settled: "stop_history n es s \<Longrightarrow> stop_history n (es @ [StopSettled ok]) (shutdown_step n (StopSettled ok) s)"
proof -
  assume h: "stop_history n es s"
  let ?k = "length (stop_results es)"
  show ?thesis
  proof (cases "sh_stopping s")
    case Nil
    then have "n \<le> ?k" using h by (auto simp: stop_history_def eq_commute [of "[]"])
    then show ?thesis using h Nil by (simp add: stop_settled_step stop_history_def)
  next
    case (Cons i rest)
    then have "?k < n \<and> drop (Suc ?k) [0 ..< n] = rest" using h stopping_cons [of ?k n i rest] unfolding stop_history_def by simp
    moreover have "shutdown_step n (StopSettled ok) s = fst (join_phases (s\<lparr>sh_stopping := rest, sh_stopped := (sh_stopped s \<and> ok)\<rparr>))"
      using Cons by (simp add: stop_settled_step)
    ultimately show ?thesis using h by (auto simp: stop_history_def)
  qed
qed

lemma stop_history_step: "stop_history n es s \<Longrightarrow> stop_history n (es @ [e]) (shutdown_step n e s)"
  by (cases e) (auto simp: stop_history_settled, auto simp: stop_history_def step_simps)

lemma server_history_step: "server_history es s \<Longrightarrow> sh_started s \<Longrightarrow> server_history (es @ [e]) (shutdown_step n e s)"
proof (cases e)
  case (StopSettled ok)
  assume "server_history es s"
  then show ?thesis by (simp add: StopSettled stop_settled_step server_history_def split: list.split)
next
  case (ServerClosed ok)
  assume "server_history es s" "sh_started s"
  then show ?thesis by (cases "sh_server s") (auto simp: ServerClosed server_history_def step_simps)
qed (auto simp: server_history_def step_simps)

lemma drain_fields_idle:
  assumes "drain_fields n es p good None" "i \<in> set p"
  shows "drain_fields n (es @ [SubsystemIdle i ok]) (removeAll i p) (good \<and> ok) (if removeAll i p = [] then Some (good \<and> ok) else None)"
proof -
  have h: "DrainTimeout \<notin> set es" "set p \<subseteq> {..< n}" "\<forall>i ok. SubsystemIdle i ok \<in> set es \<longrightarrow> i \<notin> set p"
    "\<forall>i < n. i \<notin> set p \<longrightarrow> (\<exists>ok. SubsystemIdle i ok \<in> set es) \<and> (good \<longrightarrow> SubsystemIdle i True \<in> set es)"
    using assms(1) unfolding drain_fields_def by blast+
  have "\<forall>j < n. j \<notin> set (removeAll i p) \<longrightarrow> (\<exists>ok'. SubsystemIdle j ok' \<in> set (es @ [SubsystemIdle i ok])) \<and>
      (good \<and> ok \<longrightarrow> SubsystemIdle j True \<in> set (es @ [SubsystemIdle i ok]))"
    using h(4) by auto
  moreover have "\<forall>j ok'. SubsystemIdle j ok' \<in> set (es @ [SubsystemIdle i ok]) \<longrightarrow> j \<notin> set (removeAll i p)" using h(3) by auto
  moreover have "set (removeAll i p) \<subseteq> {..< n}" "DrainTimeout \<notin> set (es @ [SubsystemIdle i ok])" using h(1,2) by auto
  ultimately show ?thesis unfolding drain_fields_def by (cases "removeAll i p = []") (simp_all only: if_True if_False option.simps simp_thms)
qed

lemma drain_history_idle:
  assumes "drain_history n es s"
  shows "drain_history n (es @ [SubsystemIdle i ok]) (shutdown_step n (SubsystemIdle i ok) s)"
proof (cases "i \<notin> set (sh_pending s) \<or> sh_drained s \<noteq> None")
  case True
  then have "shutdown_step n (SubsystemIdle i ok) s = s" by (simp add: step_simps)
  then show ?thesis using assms True by (auto simp: drain_history_def drain_fields_def)
next
  case False
  then have "drain_fields n es (sh_pending s) (sh_settled_ok s) None" "i \<in> set (sh_pending s)" using assms by (auto simp: drain_history_def)
  from drain_fields_idle [OF this, of ok] show ?thesis using False by (simp add: drain_history_def step_simps)
qed

lemma drain_history_step: "drain_history n es s \<Longrightarrow> sh_started s \<Longrightarrow> drain_history n (es @ [e]) (shutdown_step n e s)"
proof (cases e)
  case (StopSettled ok)
  assume "drain_history n es s"
  then show ?thesis by (simp add: StopSettled stop_settled_step drain_history_def drain_fields_def split: list.split)
next
  case (SubsystemIdle i ok)
  assume "drain_history n es s"
  then show ?thesis unfolding SubsystemIdle by (rule drain_history_idle)
next
  case DrainTimeout
  assume "drain_history n es s" "sh_started s"
  then show ?thesis by (cases "sh_drained s") (auto simp: DrainTimeout drain_history_def drain_fields_def step_simps)
qed (auto simp: drain_history_def drain_fields_def step_simps)

lemma db_history_join:
  assumes "db_history es s" "sh_started s" "sh_exit s = None" "sh_db s = DbOpen"
    "sh_started s'" "sh_db s' = DbOpen" "sh_exit s' = None"
  shows "db_history es' (fst (join_phases s'))"
  using assms join_db [of s'] by (simp add: db_history_def)

lemma db_history_step: "db_history es s \<Longrightarrow> sh_started s \<Longrightarrow> db_history (es @ [e]) (shutdown_step n e s)"
proof (cases e)
  case (StopSettled ok)
  assume h: "db_history es s" "sh_started s"
  show ?thesis
  proof (cases "sh_stopping s")
    case Nil
    then show ?thesis using h by (auto simp: StopSettled stop_settled_step db_history_def)
  next
    case (Cons i rest)
    then have "sh_db s = DbOpen" "sh_exit s = None" using h by (auto simp: db_history_def phases_done_def)
    then show ?thesis using h Cons by (auto simp: StopSettled stop_settled_step intro: db_history_join)
  qed
next
  case (ServerClosed ok)
  assume h: "db_history es s" "sh_started s"
  show ?thesis
  proof (cases "sh_server s")
    case None
    then have "sh_db s = DbOpen" "sh_exit s = None" using h by (auto simp: db_history_def phases_done_def)
    then show ?thesis using h None by (auto simp: ServerClosed step_simps intro: db_history_join)
  qed (use h in \<open>auto simp: ServerClosed step_simps db_history_def\<close>)
next
  case (SubsystemIdle i ok)
  assume h: "db_history es s" "sh_started s"
  show ?thesis
  proof (cases "i \<notin> set (sh_pending s) \<or> sh_drained s \<noteq> None")
    case False
    then have "sh_db s = DbOpen" "sh_exit s = None" using h by (auto simp: db_history_def phases_done_def)
    then show ?thesis using h False by (auto simp: SubsystemIdle step_simps intro: db_history_join)
  qed (use h in \<open>auto simp: SubsystemIdle step_simps db_history_def\<close>)
next
  case DrainTimeout
  assume h: "db_history es s" "sh_started s"
  show ?thesis
  proof (cases "sh_drained s")
    case None
    then have "sh_db s = DbOpen" "sh_exit s = None" using h by (auto simp: db_history_def phases_done_def)
    then show ?thesis using h None by (auto simp: DrainTimeout step_simps intro: db_history_join)
  qed (use h in \<open>auto simp: DrainTimeout step_simps db_history_def\<close>)
qed (auto simp: db_history_def phases_done_def step_simps)

lemma history_step: "history_ok n es s \<Longrightarrow> history_ok n (es @ [e]) (shutdown_step n e s)"
  using stop_history_step server_history_step drain_history_step db_history_step by (auto simp: history_ok_def stop_history_def)

lemma history_run: "history_ok n es (fold (shutdown_step n) es (signalled n))"
  by (induction es rule: rev_induct) (simp_all add: history_start history_step)

lemma exit_code_step: "sh_exit s \<in> {None, Some 0, Some 1} \<Longrightarrow> sh_exit (shutdown_step n e s) \<in> {None, Some 0, Some 1}"
  by (cases e) (auto simp: step_simps on_stop_settled_def case_prod_beta split: list.split)

lemma exit_code_run: "sh_exit (fold (shutdown_step n) es (signalled n)) \<in> {None, Some 0, Some 1}"
  by (induction es rule: rev_induct) (use exit_code_step in \<open>auto simp: signalled_def on_signal_def not_shut_down_def Let_def\<close>)

lemma exit_zero_history:
  "history_ok n es s \<Longrightarrow> sh_exit s = Some 0 \<Longrightarrow>
     DatabaseClosed True \<in> set es \<and> ServerClosed True \<in> set es \<and> (\<forall>i < n. SubsystemIdle i True \<in> set es) \<and> False \<notin> set (take n (stop_results es))"
  by (auto simp: history_ok_def db_history_def server_history_def stop_history_def drain_history_def drain_fields_def)

lemma phases_history:
  "history_ok n es s \<Longrightarrow> phases_done s \<longleftrightarrow>
     n \<le> length (stop_results es) \<and> (\<exists>ok. ServerClosed ok \<in> set es) \<and> (DrainTimeout \<in> set es \<or> idle_reported n es)"
proof -
  assume h: "history_ok n es s"
  have st: "sh_stopping s = [] \<longleftrightarrow> n \<le> length (stop_results es)" using h by (auto simp: history_ok_def stop_history_def)
  have sv: "sh_server s \<noteq> None \<longleftrightarrow> (\<exists>ok. ServerClosed ok \<in> set es)" using h by (auto simp: history_ok_def server_history_def)
  have d: "drain_fields n es (sh_pending s) (sh_settled_ok s) (sh_drained s)" using h by (simp add: history_ok_def drain_history_def)
  have "sh_drained s \<noteq> None \<longleftrightarrow> DrainTimeout \<in> set es \<or> idle_reported n es"
  proof (cases "sh_drained s")
    case None
    then have p: "DrainTimeout \<notin> set es" "sh_pending s \<noteq> []" "set (sh_pending s) \<subseteq> {..< n}"
      "\<forall>i ok. SubsystemIdle i ok \<in> set es \<longrightarrow> i \<notin> set (sh_pending s)" using d by (simp_all add: drain_fields_def)
    then have "hd (sh_pending s) < n \<and> (\<forall>ok. SubsystemIdle (hd (sh_pending s)) ok \<notin> set es)"
      by (metis hd_in_set lessThan_iff subsetD)
    then show ?thesis using None p(1) by (auto simp: idle_reported_def)
  next
    case (Some b)
    then have "DrainTimeout \<in> set es \<or> sh_pending s = []" using d by (cases b) (simp_all add: drain_fields_def)
    then show ?thesis using Some d by (auto simp: drain_fields_def idle_reported_def)
  qed
  with st sv show ?thesis by (simp add: phases_done_def)
qed

text \<open>C30. The shutdown handler is orderly. Whatever happens after the signal, in whatever order, the database pools are only closed when every
  \<open>beginShutdown\<close> has settled, the HTTP server has closed, and every subsystem reported idle or the drain timed out; and the process exits with code 0 only when
  every one of those steps succeeded.\<close>

theorem shutdown_orderly:
  "let s = fold (shutdown_step n) es (signalled n) in
     (sh_db s \<noteq> DbOpen \<longleftrightarrow> n \<le> length (stop_results es) \<and> (\<exists>ok. ServerClosed ok \<in> set es) \<and> (DrainTimeout \<in> set es \<or> idle_reported n es)) \<and>
     (sh_exit s = Some 0 \<longrightarrow> DatabaseClosed True \<in> set es \<and> ServerClosed True \<in> set es \<and> (\<forall>i < n. SubsystemIdle i True \<in> set es) \<and>
        False \<notin> set (take n (stop_results es)))"
proof -
  let ?s = "fold (shutdown_step n) es (signalled n)"
  have h: "history_ok n es ?s" by (rule history_run)
  then have "sh_db ?s \<noteq> DbOpen \<longleftrightarrow> phases_done ?s" by (simp add: history_ok_def db_history_def)
  with phases_history [OF h] exit_zero_history [OF h] show ?thesis unfolding Let_def by blast
qed

theorem shutdown_orderly_witness:
  "sh_db (fold (shutdown_step 1) [StopSettled True, ServerClosed True, SubsystemIdle 0 True] (signalled 1)) \<noteq> DbOpen \<and>
   sh_db (fold (shutdown_step 1) [StopSettled True, ServerClosed True] (signalled 1)) = DbOpen"
  using shutdown_orderly [of 1 "[StopSettled True, ServerClosed True, SubsystemIdle 0 True]"] shutdown_orderly [of 1 "[StopSettled True, ServerClosed True]"]
  by (auto simp: idle_reported_def Let_def simp del: fold_simps)

lemma closed_step: "sh_db s = DbClosed \<Longrightarrow> sh_db (shutdown_step n e s) = DbClosed \<and> sh_exit (shutdown_step n e s) = sh_exit s"
  by (cases e) (simp_all add: step_simps on_stop_settled_def join_phases_def case_prod_beta split: list.split)

lemma closed_run: "sh_db s = DbClosed \<Longrightarrow> sh_exit (fold (shutdown_step n) es s) = sh_exit s"
  by (induction es arbitrary: s) (simp_all add: closed_step)

text \<open>Shutdown completes. Once every \<open>beginShutdown\<close> has settled, the server has closed, and the subsystems are idle or the drain timeout has fired,
  the closing of the database, successful or not, resolves the exit code, and nothing that happens later, a second signal included, changes it.\<close>

theorem shutdown_completes:
  assumes "n \<le> length (stop_results es)" "ServerClosed ok \<in> set es" "DrainTimeout \<in> set es \<or> idle_reported n es"
  shows "\<exists>c \<in> {0, 1}. \<forall>fs. sh_exit (fold (shutdown_step n) (es @ DatabaseClosed fine # fs) (signalled n)) = Some c"
proof -
  let ?s = "fold (shutdown_step n) es (signalled n)"
  let ?t = "shutdown_step n (DatabaseClosed fine) ?s"
  have "phases_done ?s" using phases_history [OF history_run] assms by blast
  then have o: "sh_db ?s \<noteq> DbOpen" and x: "sh_exit ?s = None \<longleftrightarrow> sh_db ?s \<noteq> DbClosed"
    using history_run [of n es] by (auto simp: history_ok_def db_history_def)
  have "sh_db ?t = DbClosed" using o by (cases "sh_db ?s") (simp_all add: step_simps)
  then have "sh_exit (fold (shutdown_step n) fs ?t) = sh_exit ?t" for fs by (rule closed_run)
  moreover have "\<exists>c \<in> {0, 1}. sh_exit ?t = Some c"
    using exit_code_run [of n "es @ [DatabaseClosed fine]"] \<open>sh_db ?t = DbClosed\<close> history_run [of n "es @ [DatabaseClosed fine]"]
    by (auto simp: history_ok_def db_history_def)
  ultimately show ?thesis by auto
qed

theorem shutdown_completes_witness:
  "\<exists>c \<in> {0, 1}. \<forall>fs. sh_exit (fold (shutdown_step 2) ([StopSettled True, Signal, ServerClosed True, StopSettled False, DrainTimeout] @ DatabaseClosed True # fs) (signalled 2)) = Some c"
  by (rule shutdown_completes [where ok = True]) simp_all

text \<open>The drain phase starts when the signal arrives: every subsystem is asked to become idle at once, but only the first has been told to stop by then.\<close>

lemma drain_before_stop: "snd (on_signal 2 not_shut_down) = [CallBegin 0, CallCloseServer, CallAwait 0, CallAwait 1]"
  by (simp add: on_signal_def begin_next_def not_shut_down_def Let_def upt_rec)

section \<open>The handler and the jobs\<close>

text \<open>The handler shuts down a list of jobs. Its calls act on the jobs: \<open>CallBegin\<close> is \<open>beginShutdown\<close>, and \<open>CallAwait\<close> remembers whether a run is under way,
  which is what the promise of \<open>awaitIdle\<close> waits for.\<close>

record system =
  sy_handler :: shutdown
  sy_jobs :: "nat \<Rightarrow> job"
  sy_waits :: "nat \<Rightarrow> bool"

fun apply_call :: "(nat \<Rightarrow> job_kind) \<Rightarrow> shutdown_call \<Rightarrow> system \<Rightarrow> system" where
  "apply_call kinds (CallBegin i) y = y\<lparr>sy_jobs := (sy_jobs y)(i := job_beginShutdown (kinds i) (sy_jobs y i))\<rparr>"
| "apply_call kinds (CallAwait i) y = y\<lparr>sy_waits := (sy_waits y)(i := jb_running (sy_jobs y i))\<rparr>"
| "apply_call kinds _ y = y"

datatype system_event = Handler shutdown_event | JobOf nat job_event

definition idle_blocked :: "shutdown_event \<Rightarrow> system \<Rightarrow> bool" where
  "idle_blocked e y = (case e of SubsystemIdle i _ \<Rightarrow> sy_waits y i | _ \<Rightarrow> False)"

definition handler_event :: "(nat \<Rightarrow> job_kind) \<Rightarrow> nat \<Rightarrow> shutdown_event \<Rightarrow> system \<Rightarrow> system" where
  "handler_event kinds n e y = (if idle_blocked e y then y
     else fold (apply_call kinds) (snd (shutdown_react n e (sy_handler y))) (y\<lparr>sy_handler := fst (shutdown_react n e (sy_handler y))\<rparr>))"

fun system_step :: "(nat \<Rightarrow> job_kind) \<Rightarrow> nat \<Rightarrow> system_event \<Rightarrow> system \<Rightarrow> system" where
  "system_step kinds n (Handler e) y = handler_event kinds n e y"
| "system_step kinds n (JobOf i e) y = y\<lparr>sy_jobs := (sy_jobs y)(i := job_step (kinds i) e (sy_jobs y i)), sy_waits := (sy_waits y)(i := (sy_waits y i \<and> e \<noteq> JobEnd))\<rparr>"

definition running_system :: "(nat \<Rightarrow> job) \<Rightarrow> system" where
  "running_system jobs = \<lparr>sy_handler = not_shut_down, sy_jobs = jobs, sy_waits = (\<lambda>_. False)\<rparr>"

lemma apply_calls_handler [simp]: "sy_handler (fold (apply_call kinds) cs y) = sy_handler y"
proof (induction cs arbitrary: y)
  case (Cons c cs)
  then show ?case by (cases c) simp_all
qed simp

lemma apply_awaits: "fold (apply_call kinds) (map CallAwait [0 ..< n]) y = y\<lparr>sy_waits := (\<lambda>i. if i < n then jb_running (sy_jobs y i) else sy_waits y i)\<rparr>"
  by (induction n) (auto simp: fun_eq_iff)

text \<open>While the handler still stops the subsystems: the first \<open>m + 1\<close> were told, the rest keep waiting.\<close>

definition stopping_phase :: "nat \<Rightarrow> nat \<Rightarrow> system \<Rightarrow> bool" where
  "stopping_phase n m y \<longleftrightarrow> sh_started (sy_handler y) \<and> sh_stopping (sy_handler y) = [m ..< n] \<and> sh_server (sy_handler y) = None \<and>
     sh_db (sy_handler y) = DbOpen \<and> sh_pending (sy_handler y) = [0 ..< n] \<and> (sh_drained (sy_handler y) \<noteq> None \<longrightarrow> n = 0) \<and>
     (\<forall>i < n. i \<le> m \<longrightarrow> \<not> jb_accepting (sy_jobs y i)) \<and> (\<forall>i < n. jb_running (sy_jobs y i) \<longrightarrow> sy_waits y i)"

lemma signal_phase: "\<forall>i < n. jk_drains (kinds i) \<Longrightarrow> stopping_phase n 0 (system_step kinds n (Handler Signal) (running_system jobs))"
proof (cases n)
  case (Suc k)
  assume "\<forall>i < n. jk_drains (kinds i)"
  moreover have "(case [0 ..< Suc k] of [] \<Rightarrow> [] | i # _ \<Rightarrow> [CallBegin i]) = [CallBegin 0]" by (simp add: upt_rec)
  ultimately show ?thesis
    by (auto simp: Suc handler_event_def idle_blocked_def stopping_phase_def running_system_def on_signal_def not_shut_down_def begin_next_def
      Let_def apply_awaits job_beginShutdown_def simp del: upt_Suc)
qed (simp add: handler_event_def idle_blocked_def stopping_phase_def running_system_def on_signal_def not_shut_down_def begin_next_def Let_def)

lemma stop_phase_step:
  assumes "\<forall>i < n. jk_drains (kinds i)" "stopping_phase n m y" "m < n"
  shows "stopping_phase n (Suc m) (system_step kinds n (Handler (StopSettled ok)) y)"
proof -
  let ?h = "sy_handler y"
  have st: "sh_stopping ?h = m # [Suc m ..< n]" using assms(2,3) by (simp add: stopping_phase_def upt_conv_Cons)
  let ?h' = "?h\<lparr>sh_stopping := [Suc m ..< n], sh_stopped := (sh_stopped ?h \<and> ok)\<rparr>"
  have "join_phases ?h' = (?h', [])" using assms(2) by (simp add: join_phases_def stopping_phase_def)
  then have r: "shutdown_react n (StopSettled ok) ?h = (?h', begin_next ?h')" using st by (simp add: on_stop_settled_def Let_def)
  show ?thesis
  proof (cases "Suc m < n")
    case True
    then have "begin_next ?h' = [CallBegin (Suc m)]" by (simp add: begin_next_def upt_conv_Cons)
    then show ?thesis using assms r True by (auto simp: handler_event_def idle_blocked_def stopping_phase_def job_beginShutdown_def le_Suc_eq)
  next
    case False
    then have "begin_next ?h' = []" by (simp add: begin_next_def)
    then show ?thesis using assms r False by (auto simp: handler_event_def idle_blocked_def stopping_phase_def le_Suc_eq)
  qed
qed

lemma stop_phase_run:
  "\<forall>i < n. jk_drains (kinds i) \<Longrightarrow> m \<le> n \<Longrightarrow>
    stopping_phase n m (fold (system_step kinds n) (Handler Signal # replicate m (Handler (StopSettled True))) (running_system jobs))"
proof (induction m)
  case 0
  then show ?case using signal_phase by simp
next
  case (Suc m)
  then show ?case using stop_phase_step [of n kinds m] by (simp add: replicate_append_same [symmetric] del: replicate_Suc system_step.simps)
qed

text \<open>From then on nothing starts any more, and a subsystem the handler no longer waits for does not run.\<close>

definition draining :: "nat \<Rightarrow> system \<Rightarrow> bool" where
  "draining n y \<longleftrightarrow> sh_started (sy_handler y) \<and> sh_stopping (sy_handler y) = [] \<and>
     (sh_drained (sy_handler y) \<noteq> None \<longrightarrow> sh_pending (sy_handler y) = []) \<and> (sh_db (sy_handler y) \<noteq> DbOpen \<longrightarrow> sh_drained (sy_handler y) \<noteq> None) \<and>
     (\<forall>i < n. \<not> jb_accepting (sy_jobs y i) \<and> (jb_running (sy_jobs y i) \<longrightarrow> sy_waits y i) \<and> (sy_waits y i \<longrightarrow> i \<in> set (sh_pending (sy_handler y))))"

lemma drain_start: "stopping_phase n n y \<Longrightarrow> draining n y"
  by (auto simp: stopping_phase_def draining_def)

lemma draining_calls: "sh_started h \<Longrightarrow> sh_stopping h = [] \<Longrightarrow> fold (apply_call kinds) (snd (shutdown_react n e h)) y = y"
  by (cases e) (simp_all add: on_signal_def on_stop_settled_def on_server_closed_def on_idle_def on_drain_timeout_def on_force_timeout_def on_db_closed_def join_phases_def Let_def)

definition handler_draining :: "shutdown \<Rightarrow> bool" where
  "handler_draining h \<longleftrightarrow> sh_started h \<and> sh_stopping h = [] \<and> (sh_drained h \<noteq> None \<longrightarrow> sh_pending h = []) \<and> (sh_db h \<noteq> DbOpen \<longrightarrow> sh_drained h \<noteq> None)"

lemma join_draining: "sh_started h \<Longrightarrow> sh_stopping h = [] \<Longrightarrow> (sh_drained h \<noteq> None \<longrightarrow> sh_pending h = []) \<Longrightarrow> (sh_db h \<noteq> DbOpen \<longrightarrow> sh_drained h \<noteq> None) \<Longrightarrow>
    handler_draining (fst (join_phases h))"
  by (simp add: handler_draining_def) (simp add: join_phases_def)

lemma handler_draining_step:
  assumes "handler_draining h" "e \<noteq> DrainTimeout"
  shows "handler_draining (shutdown_step n e h)"
proof (cases e)
  case (SubsystemIdle i ok)
  then show ?thesis using assms by (auto simp: step_simps handler_draining_def [of h] intro!: join_draining)
next
  case (ServerClosed ok)
  then show ?thesis using assms by (auto simp: step_simps handler_draining_def [of h] intro!: join_draining)
next
  case (DatabaseClosed ok)
  then show ?thesis using assms by (cases "sh_db h") (auto simp: step_simps handler_draining_def)
qed (use assms in \<open>auto simp: step_simps on_stop_settled_def handler_draining_def\<close>)

lemma pending_step: "e \<noteq> DrainTimeout \<Longrightarrow> sh_started h \<Longrightarrow> sh_stopping h = [] \<Longrightarrow>
    set (sh_pending h) \<subseteq> set (sh_pending (shutdown_step n e h)) \<union> {i. \<exists>ok. e = SubsystemIdle i ok}"
  by (cases e) (auto simp: step_simps on_stop_settled_def)

lemma draining_step:
  assumes "draining n y" "e \<noteq> Handler DrainTimeout"
  shows "draining n (system_step kinds n e y)"
proof (cases e)
  case (Handler h)
  show ?thesis
  proof (cases "idle_blocked h y")
    case True
    then show ?thesis using assms by (simp add: Handler handler_event_def)
  next
    case False
    have d: "handler_draining (sy_handler y)" using assms by (simp add: draining_def handler_draining_def)
    then have y: "system_step kinds n e y = y\<lparr>sy_handler := shutdown_step n h (sy_handler y)\<rparr>"
      using False draining_calls by (simp add: Handler handler_event_def handler_draining_def shutdown_step_def)
    have "i \<in> set (sh_pending (shutdown_step n h (sy_handler y)))" if "i < n" "sy_waits y i" for i
      using pending_step [of h "sy_handler y" n] assms that False d by (auto simp: Handler draining_def idle_blocked_def handler_draining_def split: shutdown_event.splits)
    with handler_draining_step [OF d, of h n] show ?thesis using assms y by (auto simp: Handler draining_def handler_draining_def)
  qed
next
  case (JobOf i je)
  have "\<not> jb_accepting (sy_jobs y i) \<Longrightarrow> \<not> jb_accepting (job_step (kinds i) je (sy_jobs y i)) \<and>
      (jb_running (job_step (kinds i) je (sy_jobs y i)) \<longrightarrow> jb_running (sy_jobs y i) \<and> je \<noteq> JobEnd)"
    using job_stopped_step [of "sy_jobs y i" "kinds i" je] by blast
  then show ?thesis using assms by (auto simp: JobOf draining_def)
qed

lemma draining_run: "draining n y \<Longrightarrow> Handler DrainTimeout \<notin> set es \<Longrightarrow> draining n (fold (system_step kinds n) es y)"
proof (induction es arbitrary: y)
  case (Cons e es)
  then show ?case using draining_step [of n y e kinds] by (auto simp del: system_step.simps)
qed simp

text \<open>C29. A job that drains and is a subsystem of the shutdown handler does not work on a closed
  database. The subsystems considered are jobs that drain: their \<open>beginShutdown\<close> keeps new runs from
  starting and their \<open>awaitIdle\<close> waits for the run under way (the revenue ledger indexer, the billing and
  the settlement reconciliation and the idempotency sweeper; the settlement status sync and the quota
  notifier have no drain, and jobs that are not among the handler's subsystems are not covered). When
  the handler gets the signal and the \<open>beginShutdown\<close> of each of these jobs settles at once, then, in
  whatever order the jobs' runs end and the other events come, as long as the drain does not time out
  none of these jobs is running once the handler has started to close the database.\<close>

theorem jobs_done_before_database:
  assumes "\<forall>i < n. jk_drains (kinds i)" "Handler DrainTimeout \<notin> set es"
  shows "let y = fold (system_step kinds n) (Handler Signal # replicate n (Handler (StopSettled True)) @ es) (running_system jobs) in
    sh_db (sy_handler y) \<noteq> DbOpen \<longrightarrow> (\<forall>i < n. \<not> jb_running (sy_jobs y i))"
proof -
  let ?z = "fold (system_step kinds n) (Handler Signal # replicate n (Handler (StopSettled True))) (running_system jobs)"
  have "draining n ?z" using stop_phase_run [OF assms(1), of n jobs] drain_start by blast
  from draining_run [OF this assms(2), of kinds] show ?thesis by (auto simp: Let_def draining_def simp del: system_step.simps)
qed

theorem jobs_done_before_database_witness:
  "let y = fold (system_step (\<lambda>_. billingReconciliationJob) 1) (Handler Signal # replicate 1 (Handler (StopSettled True)) @
        [Handler (SubsystemIdle 0 True), Handler (ServerClosed True), JobOf 0 JobEnd, Handler (SubsystemIdle 0 True)])
      (running_system (\<lambda>_. job_start billingReconciliationJob new_job)) in
    sh_db (sy_handler y) = DbClosing \<and> \<not> jb_running (sy_jobs y 0)"
proof -
  let ?es = "[Handler (SubsystemIdle 0 True), Handler (ServerClosed True), JobOf 0 JobEnd, Handler (SubsystemIdle 0 True)]"
  let ?y = "fold (system_step (\<lambda>_. billingReconciliationJob) 1) (Handler Signal # replicate 1 (Handler (StopSettled True)) @ ?es)
      (running_system (\<lambda>_. job_start billingReconciliationJob new_job))"
  have "sh_db (sy_handler ?y) = DbClosing"
    by (auto simp: handler_event_def idle_blocked_def running_system_def on_signal_def on_stop_settled_def on_idle_def on_server_closed_def join_phases_def
      begin_next_def not_shut_down_def job_defs new_job_def billingReconciliationJob_def Let_def)
  moreover have "sh_db (sy_handler ?y) \<noteq> DbOpen \<longrightarrow> (\<forall>i < 1. \<not> jb_running (sy_jobs ?y i))"
    using jobs_done_before_database [of 1 "\<lambda>_. billingReconciliationJob" ?es "\<lambda>_. job_start billingReconciliationJob new_job"]
    unfolding Let_def by (simp add: billingReconciliationJob_def del: fold_simps append.simps replicate.simps)
  ultimately show ?thesis by (simp add: Let_def del: fold_simps)
qed

end
