(* ===== verification/Slo.thy ===== *)
theory Slo
  imports Prelude "HOL-Library.Multiset"
begin

text \<open>
  Service level objectives: the observation windows of \<^verbatim>\<open>services/sloService.ts\<close>, the recorder of
  \<^verbatim>\<open>workers/sloAlertRecorder.ts\<close> and the alert job of \<^verbatim>\<open>workers/sloAlertJob.ts\<close>.

  Durations and rates are rationals, methods are ASCII text, and the normalised route of a request is given. A run of
  the job is cut at its only \<open>await\<close>, the post of an alert; \<open>scan\<close> is the code between two of them. The variable
  \<open>running\<close> holds \<open>null\<close> (\<open>Idle\<close>), the promise of a run that waits for a post (\<open>Scan\<close>), or the
  promise of a run that ended before the assignment \<open>running = (async ...)()\<close> was reached (\<open>Finished\<close>).
\<close>

section \<open>Observation windows\<close>

datatype SloKind = Availability | Latency

record SloRouteConfig =
  sc_method :: string
  sc_route :: string
  maxErrorRate :: "rat option"
  maxLatencyP95Ms :: "rat option"

record SloBurnResult =
  bn_kind :: SloKind
  bn_observed :: rat
  bn_threshold :: rat
  bn_totalRequests :: nat

record SloRouteMetrics =
  errorRate :: rat
  p95LatencyMs :: rat
  totalRequests :: nat

record SloBucket =
  timestampMs :: int
  bk_totalRequests :: nat
  errorRequests :: nat
  latencyReservoir :: "rat list"

definition isFailureStatus :: "int \<Rightarrow> bool" where
  "isFailureStatus c = (if c < 100 \<or> c > 599 then False else c \<ge> 500 \<or> c \<in> {408, 429})"

definition SLO_DEFAULT_BUCKET_SIZE_MS :: int where
  "SLO_DEFAULT_BUCKET_SIZE_MS = 5 * 60 * 1000"

definition SLO_DEFAULT_MAX_LATENCY_RESERVOIR_PER_BUCKET :: int where
  "SLO_DEFAULT_MAX_LATENCY_RESERVOIR_PER_BUCKET = 200"

record SloAnalysisWindow =
  sw_buckets :: "SloBucket list"
  sw_windowMs :: int
  sw_bucketSizeMs :: int
  sw_reservoir :: int

definition createSloAnalysisWindow :: "int \<Rightarrow> int option \<Rightarrow> int option \<Rightarrow> SloAnalysisWindow result" where
  "createSloAnalysisWindow window size_opt cap_opt =
    (let size = (case size_opt of None \<Rightarrow> SLO_DEFAULT_BUCKET_SIZE_MS | Some s \<Rightarrow> s);
         cap = (case cap_opt of None \<Rightarrow> SLO_DEFAULT_MAX_LATENCY_RESERVOIR_PER_BUCKET | Some c \<Rightarrow> c) in
     if window \<le> 0 then Inl (Error ''windowMs must be a positive number'')
     else if size \<le> 0 \<or> size > window then Inl (Error ''bucketSizeMs must be a positive integer not exceeding windowMs'')
     else if cap < 0 then Inl (Error ''maxLatencyReservoirPerBucket must be a non-negative integer'')
     else Inr \<lparr>sw_buckets = [], sw_windowMs = window, sw_bucketSizeMs = size, sw_reservoir = cap\<rparr>)"

definition evictBefore :: "int \<Rightarrow> SloAnalysisWindow \<Rightarrow> SloAnalysisWindow" where
  "evictBefore cutoff w = w\<lparr>sw_buckets := dropWhile (\<lambda>b. timestampMs b + sw_bucketSizeMs w \<le> cutoff) (sw_buckets w)\<rparr>"

definition count_sample :: "int \<Rightarrow> int \<Rightarrow> rat \<Rightarrow> SloBucket \<Rightarrow> SloBucket" where
  "count_sample cap status d b = b\<lparr>bk_totalRequests := bk_totalRequests b + 1,
     errorRequests := errorRequests b + (if isFailureStatus status then 1 else 0),
     latencyReservoir := (if cap > 0 \<and> int (length (latencyReservoir b)) < cap then latencyReservoir b @ [d] else latencyReservoir b)\<rparr>"

definition empty_bucket :: "int \<Rightarrow> SloBucket" where
  "empty_bucket s = \<lparr>timestampMs = s, bk_totalRequests = 0, errorRequests = 0, latencyReservoir = []\<rparr>"

definition push_sample :: "int \<Rightarrow> int \<Rightarrow> int \<Rightarrow> rat \<Rightarrow> SloBucket list \<Rightarrow> SloBucket list" where
  "push_sample start cap status d bs = (if bs \<noteq> [] \<and> timestampMs (last bs) = start then butlast bs @ [count_sample cap status d (last bs)]
     else bs @ [count_sample cap status d (empty_bucket start)])"

definition addSample :: "int \<Rightarrow> rat \<Rightarrow> millis \<Rightarrow> SloAnalysisWindow \<Rightarrow> unit result \<times> SloAnalysisWindow" where
  "addSample status d now w =
    (if d < 0 then (Inl (Error ''durationMs must be a non-negative finite number''), w)
     else if status < 100 \<or> status > 599 then (Inl (Error ''statusCode must be an integer in [100, 599]''), w)
     else (let start = now div sw_bucketSizeMs w * sw_bucketSizeMs w in
       (Inr (), evictBefore (now - sw_windowMs w) (w\<lparr>sw_buckets := push_sample start (sw_reservoir w) status d (sw_buckets w)\<rparr>))))"

definition computePercentileLatency :: "rat list \<Rightarrow> rat \<Rightarrow> rat result" where
  "computePercentileLatency samples p =
    (if p \<le> 0 \<or> p \<ge> 1 then Inl (Error ''percentile must lie in the open interval (0, 1)'')
     else if samples = [] then Inr 0
     else Inr (sort samples ! min (length samples - 1) (nat \<lfloor>of_nat (length samples) * p\<rfloor>)))"

definition p95 :: "rat list \<Rightarrow> rat" where
  "p95 samples = (case computePercentileLatency samples (95 / 100) of Inr x \<Rightarrow> x | Inl _ \<Rightarrow> 0)"

definition getMetrics :: "millis \<Rightarrow> SloAnalysisWindow \<Rightarrow> SloRouteMetrics \<times> SloAnalysisWindow" where
  "getMetrics now w = (let w1 = evictBefore (now - sw_windowMs w) w;
       n = sum_list (map bk_totalRequests (sw_buckets w1)); e = sum_list (map errorRequests (sw_buckets w1)) in
     (\<lparr>errorRate = (if n = 0 then 0 else of_nat e / of_nat n), p95LatencyMs = p95 (concat (map latencyReservoir (sw_buckets w1))), totalRequests = n\<rparr>, w1))"

definition evaluateBurns :: "SloRouteConfig \<Rightarrow> SloRouteMetrics \<Rightarrow> SloBurnResult list" where
  "evaluateBurns c m =
    (case maxErrorRate c of Some x \<Rightarrow> if errorRate m > x
       then [\<lparr>bn_kind = Availability, bn_observed = errorRate m, bn_threshold = x, bn_totalRequests = totalRequests m\<rparr>] else [] | None \<Rightarrow> []) @
    (case maxLatencyP95Ms c of Some x \<Rightarrow> if p95LatencyMs m > x
       then [\<lparr>bn_kind = Latency, bn_observed = p95LatencyMs m, bn_threshold = x, bn_totalRequests = totalRequests m\<rparr>] else [] | None \<Rightarrow> [])"

section \<open>The window is exact\<close>




























section \<open>The recorder\<close>

definition upper_char :: "char \<Rightarrow> char" where
  "upper_char c = (if c \<in> set ''abcdefghijklmnopqrstuvwxyz'' then char_of (of_char c - 32 :: nat) else c)"

definition toUpperCase :: "string \<Rightarrow> string" where
  "toUpperCase s = map upper_char s"

definition sloConfigKey :: "string \<Rightarrow> string \<Rightarrow> string" where
  "sloConfigKey method route = toUpperCase method @ '':'' @ route"

record slo_recorder =
  configsByKey :: "(string, SloRouteConfig) js_map"
  windowsByKey :: "(string, SloAnalysisWindow) js_map"

fun add_configs :: "int \<Rightarrow> SloRouteConfig list \<Rightarrow> slo_recorder \<Rightarrow> slo_recorder result" where
  "add_configs window [] r = Inr r"
| "add_configs window (c # cs) r =
    (if sc_method c = [] \<or> sc_route c = [] then Inl (Error ''Invalid SLO route config: method and route must be non-empty'')
     else (let key = sloConfigKey (sc_method c) (sc_route c) in
       if map_get (configsByKey r) key \<noteq> None then add_configs window cs r
       else (case createSloAnalysisWindow window None None of Inl e \<Rightarrow> Inl e
         | Inr w \<Rightarrow> add_configs window cs \<lparr>configsByKey = map_set key c (configsByKey r), windowsByKey = map_set key w (windowsByKey r)\<rparr>)))"

definition resetSloRecorder :: slo_recorder where
  "resetSloRecorder = \<lparr>configsByKey = [], windowsByKey = []\<rparr>"

definition initSloRecorder :: "SloRouteConfig list \<Rightarrow> int \<Rightarrow> slo_recorder result" where
  "initSloRecorder configs window = (if window \<le> 0 then Inl (Error ''observationWindowMs must be a positive number'')
     else add_configs window configs resetSloRecorder)"

definition getSloWindow :: "string \<Rightarrow> string \<Rightarrow> slo_recorder \<Rightarrow> SloAnalysisWindow option" where
  "getSloWindow method route r = map_get (windowsByKey r) (sloConfigKey method route)"

text \<open>The middleware when a response is finished; an exception is logged and swallowed.\<close>

definition record_response :: "string \<Rightarrow> string \<Rightarrow> int \<Rightarrow> rat \<Rightarrow> millis \<Rightarrow> slo_recorder \<Rightarrow> slo_recorder" where
  "record_response method route status d now r = (let key = sloConfigKey method route in
     case map_get (windowsByKey r) key of None \<Rightarrow> r
     | Some w \<Rightarrow> r\<lparr>windowsByKey := map_set key (snd (addSample status d now w)) (windowsByKey r)\<rparr>)"

section \<open>The alert job\<close>

fun kind_text :: "SloKind \<Rightarrow> string" where
  "kind_text Availability = ''availability''"
| "kind_text Latency = ''latency''"

definition dedup_has :: "millis \<Rightarrow> string \<Rightarrow> (string, millis) js_map \<Rightarrow> bool \<times> (string, millis) js_map" where
  "dedup_has t k m = (case map_get m k of None \<Rightarrow> (False, m) | Some expiry \<Rightarrow> if t > expiry then (False, map_delete k m) else (True, m))"

definition dedup_set :: "int \<Rightarrow> millis \<Rightarrow> string \<Rightarrow> (string, millis) js_map \<Rightarrow> (string, millis) js_map" where
  "dedup_set window t k m = map_set k (t + window) m"

definition dedup_cleanup :: "millis \<Rightarrow> (string, millis) js_map \<Rightarrow> (string, millis) js_map" where
  "dedup_cleanup t m = filter (\<lambda>x. \<not> t > snd x) m"

record slo_alert =
  al_at :: millis
  al_key :: string
  al_method :: string
  al_route :: string
  al_kind :: SloKind
  al_observed :: rat
  al_threshold :: rat
  al_windowMs :: int
  al_totalRequests :: nat

definition round6 :: "rat \<Rightarrow> rat" where
  "round6 x = of_int \<lfloor>x * 1000000 + 1 / 2\<rfloor> / 1000000"

definition buildAlertPayload :: "millis \<Rightarrow> int \<Rightarrow> string \<Rightarrow> SloRouteConfig \<Rightarrow> SloBurnResult \<Rightarrow> slo_alert" where
  "buildAlertPayload t window key c b = \<lparr>al_at = t, al_key = key, al_method = toUpperCase (sc_method c), al_route = sc_route c, al_kind = bn_kind b,
     al_observed = round6 (bn_observed b), al_threshold = round6 (bn_threshold b), al_windowMs = window, al_totalRequests = bn_totalRequests b\<rparr>"

datatype slo_work = ScanRoute string SloRouteConfig | ScanBurn string SloRouteConfig SloBurnResult

datatype slo_run = Idle | Scan millis "slo_work list" | Finished

record SloAlertJobOptions =
  so_dedupWindowMs :: int
  so_observationWindowMs :: int

record slo_job =
  sj_timer :: bool
  sj_accepting :: bool
  sj_running :: slo_run
  sj_dedup :: "(string, millis) js_map"
  sj_recorder :: slo_recorder
  sj_alerts :: "slo_alert list"

fun work_weight :: "slo_work \<Rightarrow> nat" where
  "work_weight (ScanRoute _ _) = 4"
| "work_weight (ScanBurn _ _ _) = 1"

lemma burns_length: "length (evaluateBurns c m) \<le> 2"
  by (simp add: evaluateBurns_def split: option.split)

function scan :: "SloAlertJobOptions \<Rightarrow> millis \<Rightarrow> millis \<Rightarrow> slo_work list \<Rightarrow> slo_job \<Rightarrow> slo_job" where
  "scan opts t now [] j = j\<lparr>sj_dedup := dedup_cleanup t (sj_dedup j), sj_running := Idle\<rparr>"
| "scan opts t now (ScanRoute key c # ws) j =
    (case map_get (windowsByKey (sj_recorder j)) key of None \<Rightarrow> scan opts t now ws j
     | Some w \<Rightarrow> (let (m, w') = getMetrics now w; r = sj_recorder j; j' = j\<lparr>sj_recorder := r\<lparr>windowsByKey := map_set key w' (windowsByKey r)\<rparr>\<rparr> in
         if totalRequests m = 0 then scan opts t now ws j' else scan opts t now (map (ScanBurn key c) (evaluateBurns c m) @ ws) j'))"
| "scan opts t now (ScanBurn key c b # ws) j =
    (let dedupKey = key @ '':'' @ kind_text (bn_kind b); (seen, d) = dedup_has t dedupKey (sj_dedup j) in
     if seen then scan opts t now ws j
     else j\<lparr>sj_dedup := dedup_set (so_dedupWindowMs opts) t dedupKey d,
        sj_alerts := sj_alerts j @ [buildAlertPayload t (so_observationWindowMs opts) dedupKey c b], sj_running := Scan now ws\<rparr>)"
  by pat_completeness auto
termination
proof (relation "measure (\<lambda>(opts, t, now, ws, j). sum_list (map work_weight ws))", goal_cases)
  case (4 opts t now key c ws j w x m w' r j')
  have "sum_list (map work_weight (map (ScanBurn key c) bs)) = length bs" for bs by (induction bs) auto
  then show ?case using burns_length [of c m] by (simp add: comp_def)
qed auto

definition slo_tick :: "SloAlertJobOptions \<Rightarrow> millis \<Rightarrow> slo_job \<Rightarrow> slo_job" where
  "slo_tick opts t j = (if \<not> sj_accepting j \<or> sj_running j \<noteq> Idle then j
     else (let j' = scan opts t t (map (\<lambda>x. ScanRoute (fst x) (snd x)) (configsByKey (sj_recorder j))) j in
       if sj_running j' = Idle then j'\<lparr>sj_running := Finished\<rparr> else j'))"

definition slo_posted :: "SloAlertJobOptions \<Rightarrow> millis \<Rightarrow> slo_job \<Rightarrow> slo_job" where
  "slo_posted opts t j = (case sj_running j of Scan now ws \<Rightarrow> scan opts t now ws j | _ \<Rightarrow> j)"

definition slo_start :: "SloAlertJobOptions \<Rightarrow> millis \<Rightarrow> slo_job \<Rightarrow> slo_job" where
  "slo_start opts t j = (if sj_timer j \<or> \<not> sj_accepting j then j else (slo_tick opts t j)\<lparr>sj_timer := True\<rparr>)"

definition slo_stop :: "slo_job \<Rightarrow> slo_job" where
  "slo_stop j = (if \<not> sj_timer j then j else j\<lparr>sj_timer := False\<rparr>)"

definition slo_beginShutdown :: "slo_job \<Rightarrow> slo_job" where
  "slo_beginShutdown j = j\<lparr>sj_accepting := False, sj_timer := False\<rparr>"

datatype slo_event = SloResponse string string int rat | SloStart | SloFire | SloPosted | SloStop | SloShutdown

fun slo_step :: "SloAlertJobOptions \<Rightarrow> millis \<times> slo_event \<Rightarrow> slo_job \<Rightarrow> slo_job" where
  "slo_step opts (t, SloResponse method route status d) j = j\<lparr>sj_recorder := record_response method route status d t (sj_recorder j)\<rparr>"
| "slo_step opts (t, SloStart) j = slo_start opts t j"
| "slo_step opts (t, SloFire) j = (if sj_timer j then slo_tick opts t j else j)"
| "slo_step opts (t, SloPosted) j = slo_posted opts t j"
| "slo_step opts (t, SloStop) j = slo_stop j"
| "slo_step opts (t, SloShutdown) j = slo_beginShutdown j"

definition new_slo_job :: "slo_recorder \<Rightarrow> slo_job" where
  "new_slo_job r = \<lparr>sj_timer = False, sj_accepting = True, sj_running = Idle, sj_dedup = [], sj_recorder = r, sj_alerts = []\<rparr>"

section \<open>A run without a new alert\<close>

lemma finished_step: "sj_running j = Finished \<Longrightarrow> sj_running (slo_step opts e j) = Finished \<and> sj_alerts (slo_step opts e j) = sj_alerts j"
  by (cases "(opts, e, j)" rule: slo_step.cases) (auto simp: slo_start_def slo_tick_def slo_posted_def slo_stop_def slo_beginShutdown_def)

lemma finished_run: "sj_running j = Finished \<Longrightarrow> sj_alerts (fold (slo_step opts) es j) = sj_alerts j"
  by (induction es arbitrary: j) (simp_all add: finished_step del: slo_step.simps)

definition no_samples :: "slo_recorder \<Rightarrow> bool" where
  "no_samples r \<longleftrightarrow> (\<forall>k w. map_get (windowsByKey r) k = Some w \<longrightarrow> sw_buckets w = [])"

lemma fresh_windows: "add_configs window cs r = Inr r' \<Longrightarrow> no_samples r \<Longrightarrow> no_samples r'"
proof (induction cs arbitrary: r)
  case (Cons c cs)
  let ?key = "sloConfigKey (sc_method c) (sc_route c)"
  show ?case
  proof (cases "map_get (configsByKey r) ?key = None")
    case True
    then obtain w where w: "createSloAnalysisWindow window None None = Inr w"
      "add_configs window cs \<lparr>configsByKey = map_set ?key c (configsByKey r), windowsByKey = map_set ?key w (windowsByKey r)\<rparr> = Inr r'"
      using Cons.prems(1) by (auto simp: Let_def split: if_splits sum.splits)
    from w(1) have "sw_buckets w = []" by (auto simp: createSloAnalysisWindow_def Let_def split: if_splits)
    then have "no_samples \<lparr>configsByKey = map_set ?key c (configsByKey r), windowsByKey = map_set ?key w (windowsByKey r)\<rparr>"
      using Cons.prems(2) by (simp add: no_samples_def jsmap)
    with Cons.IH w(2) show ?thesis by blast
  next
    case False
    then have "add_configs window cs r = Inr r'" using Cons.prems(1) by (auto simp: Let_def split: if_splits)
    with Cons.IH Cons.prems(2) show ?thesis by blast
  qed
qed simp

lemma empty_metrics: "sw_buckets w = [] \<Longrightarrow> totalRequests (fst (getMetrics now w)) = 0 \<and> sw_buckets (snd (getMetrics now w)) = []"
  by (simp add: getMetrics_def evictBefore_def Let_def)

lemma quiet_scan: "no_samples (sj_recorder j) \<Longrightarrow>
    sj_running (scan opts t now (map (\<lambda>x. ScanRoute (fst x) (snd x)) cs) j) = Idle \<and> sj_alerts (scan opts t now (map (\<lambda>x. ScanRoute (fst x) (snd x)) cs) j) = sj_alerts j"
proof (induction cs arbitrary: j)
  case (Cons x cs)
  show ?case
  proof (cases "map_get (windowsByKey (sj_recorder j)) (fst x)")
    case None
    then show ?thesis using Cons by simp
  next
    case (Some w)
    let ?r = "(sj_recorder j)\<lparr>windowsByKey := map_set (fst x) (snd (getMetrics now w)) (windowsByKey (sj_recorder j))\<rparr>"
    have e: "sw_buckets w = []" using Some Cons.prems by (simp add: no_samples_def)
    then have "no_samples ?r" using Cons.prems empty_metrics [OF e] by (simp add: no_samples_def jsmap)
    then show ?thesis using Cons.IH [of "j\<lparr>sj_recorder := ?r\<rparr>"] Some empty_metrics [OF e] by (simp add: case_prod_beta Let_def)
  qed
qed simp

text \<open>Started with the process, the alert job never sends an alert. The server starts the job before any request has been recorded; the first run finds
  nothing to post, ends without waiting, and stores a promise that is never cleared, so that whatever is recorded later no run starts again.\<close>

theorem slo_job_stuck:
  assumes "initSloRecorder configs window = Inr r"
  shows "sj_alerts (fold (slo_step opts) ((t, SloStart) # es) (new_slo_job r)) = []"
proof -
  let ?j = "slo_start opts t (new_slo_job r)"
  have "no_samples r" using assms fresh_windows [of window configs resetSloRecorder r]
    by (auto simp: initSloRecorder_def no_samples_def resetSloRecorder_def split: if_splits)
  then have "sj_running ?j = Finished" "sj_alerts ?j = []"
    using quiet_scan [of "new_slo_job r" opts t t "configsByKey r"] by (simp_all add: slo_start_def slo_tick_def new_slo_job_def Let_def)
  then show ?thesis using finished_run [of ?j opts es] by simp
qed

section \<open>Alerts are spaced\<close>

text \<open>Every alert is remembered until its time is over.\<close>

definition remembered :: "int \<Rightarrow> millis \<Rightarrow> slo_job \<Rightarrow> bool" where
  "remembered window t j \<longleftrightarrow> (\<forall>a \<in> set (sj_alerts j). al_at a \<le> t \<and> (t \<le> al_at a + window \<longrightarrow> (\<exists>e. map_get (sj_dedup j) (al_key a) = Some e \<and> al_at a + window \<le> e)))"

definition spaced :: "int \<Rightarrow> slo_alert list \<Rightarrow> bool" where
  "spaced window as \<longleftrightarrow> sorted_wrt (\<lambda>a b. al_key a = al_key b \<longrightarrow> al_at a + window < al_at b) as"

lemma remembered_later: "remembered window t j \<Longrightarrow> t \<le> t' \<Longrightarrow> remembered window t' j"
  by (force simp: remembered_def)

lemma get_cleanup: "wf_map m \<Longrightarrow> map_get (dedup_cleanup t m) k = (case map_get m k of Some e \<Rightarrow> if t > e then None else Some e | None \<Rightarrow> None)"
  by (induction m) (auto simp: dedup_cleanup_def map_get_None_iff split: option.splits)

definition spacing :: "int \<Rightarrow> millis \<Rightarrow> slo_job \<Rightarrow> bool" where
  "spacing window t j \<longleftrightarrow> remembered window t j \<and> spaced window (sj_alerts j) \<and> wf_map (sj_dedup j)"

lemma spacing_cleanup:
  assumes "spacing window t j"
  shows "spacing window t (j\<lparr>sj_dedup := dedup_cleanup t (sj_dedup j), sj_running := x\<rparr>)"
proof -
  have wf: "wf_map (sj_dedup j)" using assms by (simp add: spacing_def)
  have "\<exists>e. map_get (dedup_cleanup t (sj_dedup j)) (al_key a) = Some e \<and> al_at a + window \<le> e" if "a \<in> set (sj_alerts j)" "t \<le> al_at a + window" for a
  proof -
    obtain e where "map_get (sj_dedup j) (al_key a) = Some e" "al_at a + window \<le> e" using assms \<open>a \<in> set (sj_alerts j)\<close> \<open>t \<le> al_at a + window\<close>
      by (auto simp: spacing_def remembered_def)
    then show ?thesis using \<open>t \<le> al_at a + window\<close> by (simp add: get_cleanup [OF wf])
  qed
  then show ?thesis using assms by (auto simp: spacing_def remembered_def dedup_cleanup_def distinct_map_filter)
qed

lemma spacing_alert:
  assumes "spacing window t j" "0 \<le> window" "\<not> fst (dedup_has t k (sj_dedup j))" "al_at a = t" "al_key a = k"
  shows "spacing window t (j\<lparr>sj_dedup := dedup_set window t k (snd (dedup_has t k (sj_dedup j))), sj_alerts := sj_alerts j @ [a], sj_running := x\<rparr>)"
proof -
  let ?d = "snd (dedup_has t k (sj_dedup j))"
  have d: "map_get (dedup_set window t k ?d) k' = (if k' = k then Some (t + window) else map_get (sj_dedup j) k')" for k'
    by (auto simp: dedup_set_def dedup_has_def jsmap split: option.split)
  have past: "al_at b + window < t" if b: "b \<in> set (sj_alerts j)" "al_key b = k" for b
  proof (rule ccontr)
    assume "\<not> al_at b + window < t"
    moreover have "t \<le> al_at b + window \<longrightarrow> (\<exists>e. map_get (sj_dedup j) (al_key b) = Some e \<and> al_at b + window \<le> e)"
      using assms(1) b(1) unfolding spacing_def remembered_def by blast
    ultimately obtain e where "map_get (sj_dedup j) k = Some e" "t \<le> e" using b(2) by (auto simp del: map_of_eq_Some_iff)
    then show False using assms(3) by (simp add: dedup_has_def)
  qed
  have "spaced window (sj_alerts j @ [a])" using assms past by (simp add: spacing_def spaced_def sorted_wrt_append)
  moreover have "wf_map (dedup_set window t k ?d)" using assms(1) by (auto simp: spacing_def dedup_set_def dedup_has_def split: option.split)
  moreover have "al_at b \<le> t \<and> (t \<le> al_at b + window \<longrightarrow> (\<exists>e. map_get (dedup_set window t k ?d) (al_key b) = Some e \<and> al_at b + window \<le> e))"
    if "b \<in> set (sj_alerts j @ [a])" for b
  proof (cases "al_key b = k")
    case True
    then show ?thesis using that past [of b] assms(2,4) by (auto simp: d)
  next
    case False
    then show ?thesis using that assms(1,5) by (auto simp: d spacing_def remembered_def)
  qed
  ultimately show ?thesis by (simp add: spacing_def remembered_def)
qed

lemma spacing_recorder: "spacing window t (j\<lparr>sj_recorder := r\<rparr>) = spacing window t j" "spacing window t (j\<lparr>sj_running := x\<rparr>) = spacing window t j"
  "spacing window t (j\<lparr>sj_timer := b\<rparr>) = spacing window t j" "spacing window t (j\<lparr>sj_accepting := b\<rparr>) = spacing window t j"
  by (simp_all add: spacing_def remembered_def)

lemma scan_spacing: "spacing (so_dedupWindowMs opts) t j \<Longrightarrow> 0 \<le> so_dedupWindowMs opts \<Longrightarrow> spacing (so_dedupWindowMs opts) t (scan opts t now ws j)"
proof (induction opts t now ws j rule: scan.induct)
  case (1 opts t now j)
  then show ?case by (simp add: spacing_cleanup)
next
  case (2 opts t now key c ws j)
  show ?case
  proof (cases "map_get (windowsByKey (sj_recorder j)) key")
    case None
    then show ?thesis using 2 by simp
  next
    case (Some w)
    obtain m w' where g: "(m, w') = getMetrics now w" by (metis surj_pair)
    note IH = "2.IH"(2,3) [OF Some refl g refl refl]
    show ?thesis using IH "2.prems" Some g [symmetric] by (cases "totalRequests m = 0") (simp_all add: Let_def spacing_recorder)
  qed
next
  case (3 opts t now key c b ws j)
  let ?k = "key @ '':'' @ kind_text (bn_kind b)"
  obtain seen d where g: "(seen, d) = dedup_has t ?k (sj_dedup j)" by (metis surj_pair)
  show ?case
  proof (cases seen)
    case True
    then show ?thesis using "3.IH" [OF refl refl g True "3.prems"] g [symmetric] by simp
  next
    case False
    then have "\<not> fst (dedup_has t ?k (sj_dedup j))" "d = snd (dedup_has t ?k (sj_dedup j))" using g by (metis fst_conv, metis snd_conv)
    then show ?thesis using spacing_alert [OF "3.prems", of ?k "buildAlertPayload t (so_observationWindowMs opts) ?k c b"]
      by (simp add: buildAlertPayload_def Let_def case_prod_beta)
  qed
qed

lemma slo_step_spacing:
  assumes "spacing (so_dedupWindowMs opts) t j" "0 \<le> so_dedupWindowMs opts" "t \<le> t'"
  shows "spacing (so_dedupWindowMs opts) t' (slo_step opts (t', e) j)"
proof -
  have j: "spacing (so_dedupWindowMs opts) t' j" using assms remembered_later by (auto simp: spacing_def)
  have "spacing (so_dedupWindowMs opts) t' (slo_tick opts t' j)"
    using scan_spacing [OF j assms(2)] j by (simp add: slo_tick_def Let_def spacing_recorder)
  then show ?thesis using j scan_spacing [OF j assms(2)]
    by (cases e) (simp_all add: slo_start_def slo_posted_def slo_stop_def slo_beginShutdown_def spacing_recorder split: slo_run.split)
qed

lemma slo_run_spacing:
  "spacing (so_dedupWindowMs opts) t j \<Longrightarrow> 0 \<le> so_dedupWindowMs opts \<Longrightarrow> sorted (t # map fst es) \<Longrightarrow>
    spacing (so_dedupWindowMs opts) (last (t # map fst es)) (fold (slo_step opts) es j)"
proof (induction es arbitrary: t j)
  case (Cons e es)
  obtain t' v where e: "e = (t', v)" by fastforce
  have "spacing (so_dedupWindowMs opts) t' (slo_step opts e j)" using Cons.prems slo_step_spacing [of opts t j t' v] by (simp add: e)
  with Cons.IH [of t' "slo_step opts e j"] Cons.prems show ?case by (simp add: e del: slo_step.simps)
qed simp

text \<open>Alerts are not repeated within the deduplication window. Whatever the recorder sees, however runs, posts and restarts of the job interleave, two
  alerts about the same route and kind lie more than the window apart, as long as the clock does not go back.\<close>

theorem slo_alerts_spaced:
  assumes "0 < so_dedupWindowMs opts" "sorted (map fst es)" "a = sj_alerts (fold (slo_step opts) es (new_slo_job r)) ! i" "b = sj_alerts (fold (slo_step opts) es (new_slo_job r)) ! k"
    "i < k" "k < length (sj_alerts (fold (slo_step opts) es (new_slo_job r)))" "al_key a = al_key b"
  shows "al_at a + so_dedupWindowMs opts < al_at b"
proof (cases es)
  case Nil
  then show ?thesis using assms(6) by (simp add: new_slo_job_def)
next
  case (Cons e es')
  have "spacing (so_dedupWindowMs opts) (fst e) (new_slo_job r)" by (simp add: spacing_def remembered_def spaced_def new_slo_job_def)
  from slo_run_spacing [OF this, of es] assms(1,2) Cons
  have "spaced (so_dedupWindowMs opts) (sj_alerts (fold (slo_step opts) es (new_slo_job r)))" by (simp add: spacing_def del: fold_simps)
  from sorted_wrt_nth_less [OF this [unfolded spaced_def] assms(5,6)] show ?thesis using assms(3,4,7) by simp
qed

section \<open>Examples\<close>

definition demo_slo :: SloRouteConfig where
  "demo_slo = \<lparr>sc_method = ''post'', sc_route = ''/pay'', maxErrorRate = Some (1 / 10), maxLatencyP95Ms = None\<rparr>"

definition demo_recorder :: slo_recorder where
  "demo_recorder = \<lparr>configsByKey = [(''POST:/pay'', demo_slo)],
     windowsByKey = [(''POST:/pay'', \<lparr>sw_buckets = [], sw_windowMs = 600000, sw_bucketSizeMs = 300000, sw_reservoir = 200\<rparr>)]\<rparr>"

definition demo_slo_options :: SloAlertJobOptions where
  "demo_slo_options = \<lparr>so_dedupWindowMs = 100, so_observationWindowMs = 600000\<rparr>"

definition demo_slo_events :: "(millis \<times> slo_event) list" where
  "demo_slo_events = [(0, SloResponse ''POST'' ''/pay'' 503 7), (10, SloStart), (11, SloPosted), (1000, SloFire)]"

lemma demo_init: "initSloRecorder [demo_slo] 600000 = Inr demo_recorder"
  by code_simp


theorem slo_job_stuck_witness:
  "sj_alerts (fold (slo_step demo_slo_options) ((10, SloStart) # [(20, SloResponse ''POST'' ''/pay'' 503 7), (1000, SloFire)]) (new_slo_job demo_recorder)) = []"
  by (rule slo_job_stuck [OF demo_init])

lemma demo_alerts: "map al_key (sj_alerts (fold (slo_step demo_slo_options) demo_slo_events (new_slo_job demo_recorder))) = [''POST:/pay:availability'', ''POST:/pay:availability'']"
  by code_simp

theorem slo_alerts_spaced_witness:
  "let as = sj_alerts (fold (slo_step demo_slo_options) demo_slo_events (new_slo_job demo_recorder)) in al_at (as ! 0) + 100 < al_at (as ! 1)"
proof -
  define as where "as = sj_alerts (fold (slo_step demo_slo_options) demo_slo_events (new_slo_job demo_recorder))"
  have m: "map al_key as = [''POST:/pay:availability'', ''POST:/pay:availability'']" unfolding as_def by (rule demo_alerts)
  then have l: "length as = 2" using length_map [of al_key as] by simp
  have "map al_key as ! 0 = map al_key as ! 1" unfolding m by simp
  then have k: "al_key (as ! 0) = al_key (as ! 1)" using l by simp
  have "sorted (map fst demo_slo_events)" "0 < so_dedupWindowMs demo_slo_options" by (simp_all add: demo_slo_events_def demo_slo_options_def)
  from slo_alerts_spaced [OF this(2,1) refl refl, of 0 1 demo_recorder] k l have "al_at (as ! 0) + so_dedupWindowMs demo_slo_options < al_at (as ! 1)"
    unfolding as_def by simp
  then show ?thesis unfolding as_def by (simp only: Let_def demo_slo_options_def SloAlertJobOptions.simps)
qed

end
