(* ===== verification/Subscriptions.thy ===== *)
theory Subscriptions
  imports ApiCatalog Webhooks
begin

text \<open>
  Subscriptions of users to APIs: the repository \<^verbatim>\<open>repositories/subscriptionRepository.ts\<close> over its table and the routes of
  \<^verbatim>\<open>routes/subscriptionRoutes.ts\<close>, with the tables of \<^verbatim>\<open>ApiCatalog\<close> and the retry policies of \<^verbatim>\<open>Webhooks\<close>.

  A route that writes is two steps: its checks, which read the tables, and its write, one SQL statement; steps of
  different requests interleave. The table has the partial unique index of its migration on user and API for
  subscriptions that are not cancelled, and an insert or update that violates it throws. The JSON text of a retry policy
  stands for the policy. The developer of a user is the parameter \<open>dev_of\<close>.
\<close>

section \<open>The table\<close>

datatype SubscriptionStatus = SubActive | SubPaused | SubCancelled

record Subscription =
  s_id :: string
  s_user_id :: string
  s_api_id :: int
  s_status :: SubscriptionStatus
  s_metering_limit :: "int option"
  s_retry_policy :: "RetryPolicy option"
  s_created_at :: millis
  s_updated_at :: millis
  s_cancelled_at :: "millis option"

record CreateSubscriptionInput =
  cs_user_id :: string
  cs_api_id :: int
  cs_metering_limit :: "int option"
  cs_retry_policy :: "RetryPolicy option"

record UpdateSubscriptionInput =
  us_status :: "SubscriptionStatus option"
  us_metering_limit :: "int option option"
  us_retry_policy :: "RetryPolicy option option"

definition same_slot :: "Subscription \<Rightarrow> Subscription \<Rightarrow> bool" where
  "same_slot a b \<longleftrightarrow> s_user_id a = s_user_id b \<and> s_api_id a = s_api_id b \<and> s_status a \<noteq> SubCancelled \<and> s_status b \<noteq> SubCancelled"

definition unique_error :: error where
  "unique_error = Error ''UNIQUE constraint failed: subscriptions.user_id, subscriptions.api_id''"

definition subs_create :: "string \<Rightarrow> CreateSubscriptionInput \<Rightarrow> millis \<Rightarrow> Subscription list \<Rightarrow> Subscription result \<times> Subscription list" where
  "subs_create i d now rows = (let r = \<lparr>s_id = i, s_user_id = cs_user_id d, s_api_id = cs_api_id d, s_status = SubActive, s_metering_limit = cs_metering_limit d,
       s_retry_policy = cs_retry_policy d, s_created_at = seconds now, s_updated_at = seconds now, s_cancelled_at = None\<rparr> in
     if i \<in> s_id ` set rows then (Inl (Error ''UNIQUE constraint failed: subscriptions.id''), rows)
     else if list_ex (same_slot r) rows then (Inl unique_error, rows)
     else (Inr r, rows @ [r]))"

definition subs_findById :: "string \<Rightarrow> Subscription list \<Rightarrow> Subscription option" where
  "subs_findById i rows = List.find (\<lambda>r. s_id r = i) rows"

definition subs_findByUserId :: "string \<Rightarrow> Subscription list \<Rightarrow> Subscription list" where
  "subs_findByUserId u rows = sort_key s_created_at (filter (\<lambda>r. s_user_id r = u) rows)"

definition findActiveByUserAndApi :: "string \<Rightarrow> int \<Rightarrow> Subscription list \<Rightarrow> Subscription option" where
  "findActiveByUserAndApi u a rows = List.find (\<lambda>r. s_user_id r = u \<and> s_api_id r = a \<and> s_status r \<noteq> SubCancelled) rows"

definition update_row :: "string \<Rightarrow> (Subscription \<Rightarrow> Subscription) \<Rightarrow> Subscription list \<Rightarrow> Subscription option result \<times> Subscription list" where
  "update_row i f rows = (case subs_findById i rows of None \<Rightarrow> (Inr None, rows)
     | Some r \<Rightarrow> if list_ex (\<lambda>x. s_id x \<noteq> i \<and> same_slot (f r) x) rows then (Inl unique_error, rows)
         else (Inr (Some (f r)), map (\<lambda>x. if s_id x = i then f x else x) rows))"

definition apply_changes :: "UpdateSubscriptionInput \<Rightarrow> millis \<Rightarrow> Subscription \<Rightarrow> Subscription" where
  "apply_changes u now r = r\<lparr>s_status := (case us_status u of None \<Rightarrow> s_status r | Some x \<Rightarrow> x),
     s_metering_limit := (case us_metering_limit u of None \<Rightarrow> s_metering_limit r | Some x \<Rightarrow> x),
     s_retry_policy := (case us_retry_policy u of None \<Rightarrow> s_retry_policy r | Some x \<Rightarrow> x), s_updated_at := seconds now\<rparr>"

definition subs_update :: "string \<Rightarrow> UpdateSubscriptionInput \<Rightarrow> millis \<Rightarrow> Subscription list \<Rightarrow> Subscription option result \<times> Subscription list" where
  "subs_update i u now rows = update_row i (apply_changes u now) rows"

definition subs_cancel :: "string \<Rightarrow> millis \<Rightarrow> Subscription list \<Rightarrow> Subscription option result \<times> Subscription list" where
  "subs_cancel i now rows = update_row i (\<lambda>r. r\<lparr>s_status := SubCancelled, s_cancelled_at := Some (seconds now), s_updated_at := seconds now\<rparr>) rows"

section \<open>Request bodies\<close>

datatype 'a body_field = Missing | Null | Given 'a

definition retryPolicySchema :: "raw_policy \<Rightarrow> RetryPolicy option" where
  "retryPolicySchema p = (if integer_between 0 10 (rp_maxRetries p) \<and> integer_between 100 60000 (rp_baseDelayMs p) \<and> \<not> rp_unknown_keys p
     then Some \<lparr>pol_maxRetries = typed_field (rp_maxRetries p), pol_baseDelayMs = typed_field (rp_baseDelayMs p)\<rparr> else None)"

fun positive_int :: "js_field \<Rightarrow> int option" where
  "positive_int (Number q) = (if of_int \<lfloor>q\<rfloor> = q \<and> q > 0 then Some \<lfloor>q\<rfloor> else None)"
| "positive_int _ = None"

text \<open>\<open>nullable().optional()\<close>: the outer option is failure, the next one tells whether the field is present.\<close>

fun nullable_field :: "('a \<Rightarrow> 'b option) \<Rightarrow> 'a body_field \<Rightarrow> 'b option option option" where
  "nullable_field schema Missing = Some None"
| "nullable_field schema Null = Some (Some None)"
| "nullable_field schema (Given x) = map_option (\<lambda>y. Some (Some y)) (schema x)"

record raw_create =
  rc_api_id :: js_field
  rc_metering_limit :: "js_field body_field"
  rc_retry_policy :: "raw_policy body_field"

record raw_update =
  ru_status :: "string body_field"
  ru_metering_limit :: "js_field body_field"
  ru_retry_policy :: "raw_policy body_field"

definition createSubscriptionSchema :: "raw_create \<Rightarrow> (int \<times> int option \<times> RetryPolicy option) option" where
  "createSubscriptionSchema b = (case (positive_int (rc_api_id b), nullable_field positive_int (rc_metering_limit b), nullable_field retryPolicySchema (rc_retry_policy b)) of
     (Some a, Some l, Some p) \<Rightarrow> Some (a, Option.bind l id, Option.bind p id) | _ \<Rightarrow> None)"

fun status_field :: "string body_field \<Rightarrow> SubscriptionStatus option option" where
  "status_field Missing = Some None"
| "status_field Null = None"
| "status_field (Given s) = (if s = ''active'' then Some (Some SubActive) else if s = ''paused'' then Some (Some SubPaused) else None)"

definition updateSubscriptionSchema :: "raw_update \<Rightarrow> UpdateSubscriptionInput option" where
  "updateSubscriptionSchema b =
    (if ru_status b = Missing \<and> ru_metering_limit b = Missing \<and> ru_retry_policy b = Missing then None
     else (case (status_field (ru_status b), nullable_field positive_int (ru_metering_limit b), nullable_field retryPolicySchema (ru_retry_policy b)) of
       (Some s, Some l, Some p) \<Rightarrow> Some \<lparr>us_status = s, us_metering_limit = l, us_retry_policy = p\<rparr> | _ \<Rightarrow> None))"

section \<open>Routes\<close>

text \<open>The second check of a retry policy, in the service layer.\<close>

definition policy_check :: "RetryPolicy option \<Rightarrow> error option" where
  "policy_check p = (case p of None \<Rightarrow> None
     | Some q \<Rightarrow> (case validateRetryPolicy (Some (as_unknown q)) of Inl _ \<Rightarrow> None | Inr m \<Rightarrow> Some (BadRequestError m ''INVALID_RETRY_POLICY'')))"

datatype sub_write = WCreate CreateSubscriptionInput | WUpdate string UpdateSubscriptionInput | WCancel string

definition create_checks :: "(string \<Rightarrow> int option) \<Rightarrow> api_db \<Rightarrow> string \<Rightarrow> raw_create \<Rightarrow> Subscription list \<Rightarrow> sub_write result" where
  "create_checks dev_of db user b rows =
    (case createSubscriptionSchema b of None \<Rightarrow> Inl validation_error
     | Some (api, limit, policy) \<Rightarrow>
       (case policy_check policy of Some e \<Rightarrow> Inl e
        | None \<Rightarrow> (case db_findRawById api db of None \<Rightarrow> Inl (NotFoundError (''API '' @ show_int api @ '' not found'') ''NOT_FOUND'')
          | Some a \<Rightarrow>
            if \<not> live a then Inl (NotFoundError (''API '' @ show_int api @ '' not found'') ''NOT_FOUND'')
            else if dev_of user = Some (a_developer_id a) then Inl (ForbiddenError ''You cannot subscribe to your own API'' ''FORBIDDEN'')
            else if findActiveByUserAndApi user api rows \<noteq> None then Inl (ConflictError ''You already have an active subscription for this API'' ''CONFLICT'')
            else Inr (WCreate \<lparr>cs_user_id = user, cs_api_id = api, cs_metering_limit = limit, cs_retry_policy = policy\<rparr>))))"

definition owned :: "string \<Rightarrow> string \<Rightarrow> Subscription list \<Rightarrow> Subscription result" where
  "owned user i rows = (case subs_findById i rows of None \<Rightarrow> Inl (NotFoundError ''Subscription not found'' ''NOT_FOUND'')
     | Some s \<Rightarrow> if s_user_id s \<noteq> user then Inl (ForbiddenError ''Access denied'' ''FORBIDDEN'') else Inr s)"

definition update_checks :: "string \<Rightarrow> string \<Rightarrow> raw_update \<Rightarrow> Subscription list \<Rightarrow> sub_write result" where
  "update_checks user i b rows =
    (case updateSubscriptionSchema b of None \<Rightarrow> Inl validation_error
     | Some u \<Rightarrow> (case owned user i rows of Inl e \<Rightarrow> Inl e
       | Inr s \<Rightarrow> if s_status s = SubCancelled then Inl (BadRequestError ''Cannot modify a cancelled subscription'' ''BAD_REQUEST'')
           else (case policy_check (Option.bind (us_retry_policy u) id) of Some e \<Rightarrow> Inl e | None \<Rightarrow> Inr (WUpdate i u))))"

definition cancel_checks :: "string \<Rightarrow> string \<Rightarrow> Subscription list \<Rightarrow> sub_write result" where
  "cancel_checks user i rows = (case owned user i rows of Inl e \<Rightarrow> Inl e
     | Inr s \<Rightarrow> if s_status s = SubCancelled then Inl (BadRequestError ''Subscription is already cancelled'' ''BAD_REQUEST'') else Inr (WCancel i))"

definition list_route :: "string \<Rightarrow> SubscriptionStatus option \<Rightarrow> Subscription list \<Rightarrow> Subscription list \<times> nat" where
  "list_route user st rows = (let subs = filter (\<lambda>s. st = None \<or> Some (s_status s) = st) (subs_findByUserId user rows) in (subs, length subs))"

definition get_subscription_route :: "string \<Rightarrow> string \<Rightarrow> Subscription list \<Rightarrow> Subscription result" where
  "get_subscription_route user i rows = owned user i rows"

definition found_row :: "Subscription option result \<Rightarrow> Subscription result" where
  "found_row x = (case x of Inl e \<Rightarrow> Inl e | Inr None \<Rightarrow> Inl (NotFoundError ''Subscription not found'' ''NOT_FOUND'') | Inr (Some s) \<Rightarrow> Inr s)"

fun do_write :: "string \<Rightarrow> millis \<Rightarrow> sub_write \<Rightarrow> Subscription list \<Rightarrow> Subscription result \<times> Subscription list" where
  "do_write i now (WCreate d) rows = subs_create i d now rows"
| "do_write i now (WUpdate s u) rows = (case subs_update s u now rows of (x, rows') \<Rightarrow> (found_row x, rows'))"
| "do_write i now (WCancel s) rows = (case subs_cancel s now rows of (x, rows') \<Rightarrow> (found_row x, rows'))"

section \<open>Requests that interleave\<close>

datatype sub_request = ReqCreate raw_create | ReqUpdate string raw_update | ReqCancel string

fun request_checks :: "(string \<Rightarrow> int option) \<Rightarrow> api_db \<Rightarrow> string \<Rightarrow> sub_request \<Rightarrow> Subscription list \<Rightarrow> sub_write result" where
  "request_checks dev_of db user (ReqCreate b) rows = create_checks dev_of db user b rows"
| "request_checks dev_of db user (ReqUpdate i b) rows = update_checks user i b rows"
| "request_checks dev_of db user (ReqCancel i) rows = cancel_checks user i rows"

record sub_state =
  st_rows :: "Subscription list"
  st_pending :: "(string \<times> sub_write) list"
  st_answers :: "(string \<times> Subscription result) list"

text \<open>A request is checked against the tables of that moment; a write takes one of the requests that passed.\<close>

datatype sub_event = SubCheck string sub_request "string \<Rightarrow> int option" api_db | SubWrite nat string millis

fun sub_step :: "sub_event \<Rightarrow> sub_state \<Rightarrow> sub_state" where
  "sub_step (SubCheck user q dev_of db) s = (case request_checks dev_of db user q (st_rows s) of
     Inl e \<Rightarrow> s\<lparr>st_answers := st_answers s @ [(user, Inl e)]\<rparr>
   | Inr w \<Rightarrow> s\<lparr>st_pending := st_pending s @ [(user, w)]\<rparr>)"
| "sub_step (SubWrite k i now) s = (if k < length (st_pending s) then
     (case st_pending s ! k of (user, w) \<Rightarrow> (case do_write i now w (st_rows s) of (x, rows) \<Rightarrow>
       \<lparr>st_rows = rows, st_pending = take k (st_pending s) @ drop (Suc k) (st_pending s), st_answers = st_answers s @ [(user, x)]\<rparr>)) else s)"

definition no_subscriptions :: sub_state where
  "no_subscriptions = \<lparr>st_rows = [], st_pending = [], st_answers = []\<rparr>"

section \<open>One live subscription per user and API\<close>

definition row_ok :: "Subscription \<Rightarrow> bool" where
  "row_ok r \<longleftrightarrow> (\<forall>l. s_metering_limit r = Some l \<longrightarrow> 0 < l) \<and> policy_check (s_retry_policy r) = None \<and> (s_status r = SubCancelled \<longrightarrow> s_cancelled_at r \<noteq> None)"

definition subs_ok :: "Subscription list \<Rightarrow> bool" where
  "subs_ok rows \<longleftrightarrow> distinct (map s_id rows) \<and> (\<forall>a \<in> set rows. row_ok a \<and> (\<forall>b \<in> set rows. same_slot a b \<longrightarrow> s_id a = s_id b))"

fun write_ok :: "sub_write \<Rightarrow> bool" where
  "write_ok (WCreate d) \<longleftrightarrow> (\<forall>l. cs_metering_limit d = Some l \<longrightarrow> 0 < l) \<and> policy_check (cs_retry_policy d) = None"
| "write_ok (WUpdate i u) \<longleftrightarrow> (\<forall>l. us_metering_limit u = Some (Some l) \<longrightarrow> 0 < l) \<and> policy_check (Option.bind (us_retry_policy u) id) = None \<and> us_status u \<noteq> Some SubCancelled"
| "write_ok (WCancel i) \<longleftrightarrow> True"

lemma find_row: "subs_findById i rows = Some r \<Longrightarrow> r \<in> set rows \<and> s_id r = i"
  by (auto simp: subs_findById_def find_Some_iff)

lemma same_slot_sym: "same_slot a b = same_slot b a"
  by (auto simp: same_slot_def)

lemma create_ok:
  assumes "subs_ok rows" "write_ok (WCreate d)"
  shows "subs_ok (snd (subs_create i d now rows))"
proof -
  define r where "r = \<lparr>s_id = i, s_user_id = cs_user_id d, s_api_id = cs_api_id d, s_status = SubActive, s_metering_limit = cs_metering_limit d,
       s_retry_policy = cs_retry_policy d, s_created_at = seconds now, s_updated_at = seconds now, s_cancelled_at = None\<rparr>"
  have "row_ok r" using assms(2) by (simp add: r_def row_ok_def)
  moreover have "s_id r = i" by (simp add: r_def)
  ultimately have "subs_ok (rows @ [r])" if "i \<notin> s_id ` set rows" "\<not> list_ex (same_slot r) rows"
  proof -
    have "\<forall>x \<in> set rows. \<not> same_slot r x \<and> \<not> same_slot x r" using that(2) by (auto simp: list_ex_iff same_slot_def)
    then show ?thesis using assms(1) that(1) \<open>row_ok r\<close> \<open>s_id r = i\<close> by (auto simp: subs_ok_def)
  qed
  then show ?thesis using assms(1) by (simp add: subs_create_def Let_def flip: r_def)
qed

lemma update_row_ok:
  assumes "subs_ok rows" "\<And>r. r \<in> set rows \<Longrightarrow> row_ok (f r)" "\<And>r. s_id (f r) = s_id r \<and> s_user_id (f r) = s_user_id r \<and> s_api_id (f r) = s_api_id r"
  shows "subs_ok (snd (update_row i f rows))"
proof (cases "subs_findById i rows")
  case None
  then show ?thesis using assms(1) by (simp add: update_row_def)
next
  case (Some r)
  note r = find_row [OF Some]
  let ?g = "\<lambda>x. if s_id x = i then f x else x"
  have one: "x = r" if "x \<in> set rows" "s_id x = i" for x using that r assms(1) by (auto simp: subs_ok_def distinct_map dest: inj_onD)
  have "subs_ok (map ?g rows)" if free: "\<not> list_ex (\<lambda>x. s_id x \<noteq> i \<and> same_slot (f r) x) rows"
  proof -
    have ids: "map s_id (map ?g rows) = map s_id rows" using assms(3) by simp
    have slot: "s_id (?g a) = s_id (?g b)" if "a \<in> set rows" "b \<in> set rows" "same_slot (?g a) (?g b)" for a b
    proof -
      have no: "\<not> same_slot (f r) x \<and> \<not> same_slot x (f r)" if "x \<in> set rows" "s_id x \<noteq> i" for x
        using free that by (auto simp: list_ex_iff same_slot_def)
      have old: "same_slot a b \<Longrightarrow> s_id a = s_id b" using assms(1) that(1,2) by (simp add: subs_ok_def)
      consider "s_id a = i" "s_id b = i" | "s_id a = i" "s_id b \<noteq> i" | "s_id a \<noteq> i" "s_id b = i" | "s_id a \<noteq> i" "s_id b \<noteq> i" by blast
      then show ?thesis
      proof cases
        case 1
        then show ?thesis using assms(3) by simp
      next
        case 2
        then show ?thesis using that(2,3) no [of b] one [OF that(1)] by simp
      next
        case 3
        then show ?thesis using that(1,3) no [of a] one [OF that(2)] by simp
      next
        case 4
        then show ?thesis using that(3) old by simp
      qed
    qed
    define g where "g = ?g"
    have "row_ok (g a)" if "a \<in> set rows" for a using that assms(1,2) by (simp add: g_def subs_ok_def)
    moreover have "distinct (map s_id (map g rows))" using ids assms(1) by (simp only: g_def subs_ok_def)
    moreover have "s_id (g a) = s_id (g b)" if "a \<in> set rows" "b \<in> set rows" "same_slot (g a) (g b)" for a b using slot that by (simp only: g_def)
    ultimately show ?thesis unfolding subs_ok_def g_def [symmetric] by auto
  qed
  then show ?thesis using assms(1) Some by (simp add: update_row_def)
qed

lemma do_write_ok: "subs_ok rows \<Longrightarrow> write_ok w \<Longrightarrow> subs_ok (snd (do_write i now w rows))"
proof (cases w)
  case (WUpdate s u)
  assume a: "subs_ok rows" "write_ok w"
  then have "subs_ok (snd (update_row s (apply_changes u now) rows))"
    by (intro update_row_ok) (auto simp: WUpdate apply_changes_def subs_ok_def row_ok_def split: option.splits)
  then show ?thesis by (simp add: WUpdate subs_update_def case_prod_beta)
next
  case (WCancel s)
  assume a: "subs_ok rows" "write_ok w"
  then have "subs_ok (snd (subs_cancel s now rows))" unfolding subs_cancel_def by (intro update_row_ok) (auto simp: subs_ok_def row_ok_def)
  then show ?thesis by (simp add: WCancel case_prod_beta)
qed (simp add: create_ok)

lemma schema_policy: "retryPolicySchema p = Some q \<Longrightarrow> policy_check (Some q) = None"
  by (cases "rp_maxRetries p"; cases "rp_baseDelayMs p")
    (auto simp: retryPolicySchema_def policy_check_def validateRetryPolicy_def as_unknown_def split: if_splits)

lemma policy_field: "nullable_field retryPolicySchema v = Some x \<Longrightarrow> policy_check (Option.bind x id) = None"
  by (cases v) (auto simp: schema_policy simp: policy_check_def [of None])

lemma limit_field: "nullable_field positive_int v = Some (Some (Some l)) \<Longrightarrow> 0 < l"
proof (cases v)
  case (Given x)
  assume "nullable_field positive_int v = Some (Some (Some l))"
  then show ?thesis by (cases x) (auto simp: Given split: if_splits)
qed auto

lemma checks_ok: "request_checks dev_of db user q rows = Inr w \<Longrightarrow> write_ok w"
proof (cases q)
  case (ReqCreate b)
  assume "request_checks dev_of db user q rows = Inr w"
  then obtain api l p where w: "w = WCreate \<lparr>cs_user_id = user, cs_api_id = api, cs_metering_limit = l, cs_retry_policy = p\<rparr>" "createSubscriptionSchema b = Some (api, l, p)"
    by (auto simp: ReqCreate create_checks_def split: option.splits if_splits)
  then obtain l' p' where "nullable_field positive_int (rc_metering_limit b) = Some l'" "l = Option.bind l' id"
      "nullable_field retryPolicySchema (rc_retry_policy b) = Some p'" "p = Option.bind p' id"
    by (auto simp: createSubscriptionSchema_def split: option.splits)
  then show ?thesis using policy_field limit_field by (cases l') (auto simp: w(1))
next
  case (ReqUpdate i b)
  assume "request_checks dev_of db user q rows = Inr w"
  then obtain u where w: "w = WUpdate i u" "updateSubscriptionSchema b = Some u"
    by (auto simp: ReqUpdate update_checks_def split: option.splits if_splits sum.splits)
  then obtain st where "nullable_field positive_int (ru_metering_limit b) = Some (us_metering_limit u)" "nullable_field retryPolicySchema (ru_retry_policy b) = Some (us_retry_policy u)"
      "status_field (ru_status b) = Some (us_status u)"
    by (auto simp: updateSubscriptionSchema_def split: option.splits if_splits)
  moreover have "status_field v \<noteq> Some (Some SubCancelled)" for v by (cases v) auto
  ultimately show ?thesis using policy_field limit_field by (auto simp: w(1))
next
  case (ReqCancel i)
  assume "request_checks dev_of db user q rows = Inr w"
  then show ?thesis by (auto simp: ReqCancel cancel_checks_def split: sum.splits if_splits)
qed

definition subs_inv :: "sub_state \<Rightarrow> bool" where
  "subs_inv s \<longleftrightarrow> subs_ok (st_rows s) \<and> (\<forall>x \<in> set (st_pending s). write_ok (snd x))"

lemma subs_inv_step: "subs_inv s \<Longrightarrow> subs_inv (sub_step e s)"
proof (cases e)
  case (SubCheck user q dev_of db)
  assume "subs_inv s"
  then show ?thesis using checks_ok [of dev_of db user q "st_rows s"] by (auto simp: SubCheck subs_inv_def split: sum.split)
next
  case (SubWrite k i now)
  assume s: "subs_inv s"
  have "set (take k (st_pending s) @ drop (Suc k) (st_pending s)) \<subseteq> set (st_pending s)" by (auto dest: in_set_takeD in_set_dropD)
  then show ?thesis using s do_write_ok [of "st_rows s" "snd (st_pending s ! k)" i now]
    by (auto simp: SubWrite subs_inv_def case_prod_beta)
qed

lemma subs_inv_run: "subs_inv s \<Longrightarrow> subs_inv (fold sub_step es s)"
  by (induction es arbitrary: s) (simp_all add: subs_inv_step del: sub_step.simps)

lemma subs_inv_start: "subs_inv no_subscriptions"
  by (simp add: subs_inv_def no_subscriptions_def subs_ok_def)

text \<open>C35. However requests interleave, a user never has two subscriptions to one API that are not cancelled, subscription ids are distinct, every
  stored limit is positive and every stored retry policy is one the dispatcher accepts, and a cancelled subscription has its time of cancellation.\<close>

theorem subscriptions_consistent: "subs_ok (st_rows (fold sub_step es no_subscriptions))"
  using subs_inv_run [OF subs_inv_start] by (simp add: subs_inv_def)

section \<open>Only the owner changes a subscription\<close>

fun write_by :: "Subscription list \<Rightarrow> string \<times> sub_write \<Rightarrow> bool" where
  "write_by rows (v, WCreate d) \<longleftrightarrow> cs_user_id d = v"
| "write_by rows (v, WUpdate i u) \<longleftrightarrow> (\<exists>r \<in> set rows. s_id r = i \<and> s_user_id r = v)"
| "write_by rows (v, WCancel i) \<longleftrightarrow> (\<exists>r \<in> set rows. s_id r = i \<and> s_user_id r = v)"

lemma owned_row: "owned v i rows = Inr s \<Longrightarrow> s \<in> set rows \<and> s_id s = i \<and> s_user_id s = v"
  using find_row [of i rows] by (auto simp: owned_def split: option.splits if_splits)

lemma checks_by: "request_checks dev_of db v q rows = Inr w \<Longrightarrow> write_by rows (v, w)"
proof (cases q)
  case (ReqUpdate i b)
  assume "request_checks dev_of db v q rows = Inr w"
  then show ?thesis using owned_row [of v i rows] by (auto simp: ReqUpdate update_checks_def split: option.splits if_splits sum.splits)
next
  case (ReqCancel i)
  assume "request_checks dev_of db v q rows = Inr w"
  then show ?thesis using owned_row [of v i rows] by (auto simp: ReqCancel cancel_checks_def split: if_splits sum.splits)
qed (auto simp: create_checks_def split: option.splits if_splits)

lemma update_row_set: "snd (update_row i f rows) = rows \<or> snd (update_row i f rows) = map (\<lambda>x. if s_id x = i then f x else x) rows"
  by (simp add: update_row_def split: option.split)

lemma changes_keys: "s_id (apply_changes u now r) = s_id r \<and> s_user_id (apply_changes u now r) = s_user_id r"
  by (simp add: apply_changes_def)

lemma update_row_keys:
  assumes "\<And>r. s_id (f r) = s_id r \<and> s_user_id (f r) = s_user_id r"
  shows "map (\<lambda>r. (s_id r, s_user_id r)) (snd (update_row i f rows)) = map (\<lambda>r. (s_id r, s_user_id r)) rows"
  using update_row_set [of i f rows] assms by auto

lemma write_keeps_keys: "\<exists>new. map (\<lambda>r. (s_id r, s_user_id r)) (snd (do_write i now w rows)) = map (\<lambda>r. (s_id r, s_user_id r)) rows @ new"
proof (cases w)
  case (WCreate d)
  then show ?thesis by (auto simp: subs_create_def Let_def)
next
  case (WUpdate j u)
  then show ?thesis using update_row_keys [of "apply_changes u now" j rows] changes_keys by (simp add: subs_update_def case_prod_beta)
next
  case (WCancel j)
  then show ?thesis by (simp add: subs_cancel_def case_prod_beta update_row_keys)
qed

lemma write_by_later: "write_by rows x \<Longrightarrow> map (\<lambda>r. (s_id r, s_user_id r)) rows' = map (\<lambda>r. (s_id r, s_user_id r)) rows @ new \<Longrightarrow> write_by rows' x"
proof -
  assume x: "write_by rows x" and m: "map (\<lambda>r. (s_id r, s_user_id r)) rows' = map (\<lambda>r. (s_id r, s_user_id r)) rows @ new"
  have "set (map (\<lambda>r. (s_id r, s_user_id r)) rows) \<subseteq> set (map (\<lambda>r. (s_id r, s_user_id r)) rows')" unfolding m by simp
  then have keep: "\<exists>r \<in> set rows'. s_id r = i \<and> s_user_id r = v" if "\<exists>r \<in> set rows. s_id r = i \<and> s_user_id r = v" for i v
    using that by fastforce
  obtain v w where "x = (v, w)" by fastforce
  then show ?thesis using x by (cases w) (simp_all add: keep)
qed

definition of_user :: "string \<Rightarrow> Subscription list \<Rightarrow> Subscription list" where
  "of_user u rows = filter (\<lambda>r. s_user_id r = u) rows"

lemma update_other:
  assumes "subs_ok rows" "r \<in> set rows" "s_id r = i" "s_user_id r \<noteq> u" "\<And>r. s_user_id (f r) = s_user_id r"
  shows "of_user u (snd (update_row i f rows)) = of_user u rows"
proof -
  have "s_user_id x \<noteq> u" if "x \<in> set rows" "s_id x = i" for x using that assms(1-4) by (auto simp: subs_ok_def distinct_map dest: inj_onD)
  then have "of_user u (map (\<lambda>x. if s_id x = i then f x else x) rows) = of_user u rows" unfolding of_user_def using assms(5)
  proof (induction rows)
    case (Cons a rows)
    then show ?case by auto
  qed simp
  then show ?thesis using update_row_set [of i f rows] by auto
qed

lemma write_other:
  assumes "subs_ok rows" "write_by rows (v, w)" "v \<noteq> u"
  shows "of_user u (snd (do_write i now w rows)) = of_user u rows"
proof (cases w)
  case (WCreate d)
  then show ?thesis using assms(2,3) by (simp add: subs_create_def Let_def of_user_def)
next
  case (WUpdate j x)
  then obtain r where "r \<in> set rows" "s_id r = j" "s_user_id r = v" using assms(2) by auto
  then show ?thesis using update_other [OF assms(1), of r j u "apply_changes x now"] assms(3) changes_keys by (simp add: WUpdate subs_update_def case_prod_beta)
next
  case (WCancel j)
  then obtain r where "r \<in> set rows" "s_id r = j" "s_user_id r = v" using assms(2) by auto
  then show ?thesis using update_other [OF assms(1), of r j u] assms(3) by (simp add: WCancel subs_cancel_def case_prod_beta)
qed

definition owner_inv :: "sub_state \<Rightarrow> bool" where
  "owner_inv s \<longleftrightarrow> subs_inv s \<and> (\<forall>x \<in> set (st_pending s). write_by (st_rows s) x)"

lemma owner_inv_step: "owner_inv s \<Longrightarrow> owner_inv (sub_step e s)"
proof (cases e)
  case (SubCheck user q dev_of db)
  assume "owner_inv s"
  then show ?thesis using checks_by [of dev_of db user q "st_rows s"] subs_inv_step [of s e] by (auto simp: SubCheck owner_inv_def split: sum.split)
next
  case (SubWrite k i now)
  assume s: "owner_inv s"
  obtain new where new: "map (\<lambda>r. (s_id r, s_user_id r)) (snd (do_write i now (snd (st_pending s ! k)) (st_rows s))) = map (\<lambda>r. (s_id r, s_user_id r)) (st_rows s) @ new"
    using write_keeps_keys by blast
  have "set (take k (st_pending s) @ drop (Suc k) (st_pending s)) \<subseteq> set (st_pending s)" by (auto dest: in_set_takeD in_set_dropD)
  then show ?thesis using s write_by_later [OF _ new] subs_inv_step [of s e] by (auto simp: SubWrite owner_inv_def case_prod_beta)
qed

lemma owner_inv_run: "owner_inv s \<Longrightarrow> owner_inv (fold sub_step es s)"
  by (induction es arbitrary: s) (simp_all add: owner_inv_step del: sub_step.simps)

lemma other_step:
  assumes "owner_inv s" "\<forall>x \<in> set (st_pending s). fst x \<noteq> u" "\<forall>q d db. e \<noteq> SubCheck u q d db"
  shows "of_user u (st_rows (sub_step e s)) = of_user u (st_rows s) \<and> (\<forall>x \<in> set (st_pending (sub_step e s)). fst x \<noteq> u)"
proof (cases e)
  case (SubCheck user q dev_of db)
  then show ?thesis using assms by (auto split: sum.split)
next
  case (SubWrite k i now)
  show ?thesis
  proof (cases "k < length (st_pending s)")
    case True
    then have "st_pending s ! k \<in> set (st_pending s)" by simp
    then have "of_user u (snd (do_write i now (snd (st_pending s ! k)) (st_rows s))) = of_user u (st_rows s)"
      using assms(1,2) by (intro write_other [of _ "fst (st_pending s ! k)"]) (auto simp: owner_inv_def subs_inv_def)
    then show ?thesis using True assms(2) by (auto simp: SubWrite case_prod_beta dest: in_set_takeD in_set_dropD)
  qed (use assms in \<open>simp add: SubWrite\<close>)
qed

lemma other_run:
  "owner_inv s \<Longrightarrow> \<forall>x \<in> set (st_pending s). fst x \<noteq> u \<Longrightarrow> \<forall>q d db. SubCheck u q d db \<notin> set es \<Longrightarrow> of_user u (st_rows (fold sub_step es s)) = of_user u (st_rows s)"
proof (induction es arbitrary: s)
  case (Cons e es)
  have "\<forall>q d db. e \<noteq> SubCheck u q d db" using Cons.prems(3) by auto
  from other_step [OF Cons.prems(1,2) this] show ?case using Cons.IH [of "sub_step e s"] owner_inv_step [OF Cons.prems(1), of e] Cons.prems(3)
    by (simp del: sub_step.simps)
qed simp

text \<open>C36. Subscriptions belong to their user: while a user makes no request and has none under way, whatever requests other users make and however they
  interleave, the user's subscriptions stay as they are.\<close>

theorem subscriptions_isolated:
  assumes "\<forall>x \<in> set (st_pending (fold sub_step es no_subscriptions)). fst x \<noteq> u" "\<forall>q d db. SubCheck u q d db \<notin> set es'"
  shows "of_user u (st_rows (fold sub_step (es @ es') no_subscriptions)) = of_user u (st_rows (fold sub_step es no_subscriptions))"
proof -
  have "owner_inv no_subscriptions" using subs_inv_start by (simp add: owner_inv_def no_subscriptions_def)
  from other_run [OF owner_inv_run [OF this] assms] show ?thesis by (simp del: sub_step.simps)
qed

section \<open>Cancelled subscriptions\<close>

text \<open>A request that is served without another one in between.\<close>

definition serve :: "(string \<Rightarrow> int option) \<times> api_db \<times> string \<times> sub_request \<times> string \<times> millis \<Rightarrow> Subscription list \<Rightarrow> Subscription list" where
  "serve x rows = (case x of (dev_of, db, user, q, i, now) \<Rightarrow>
     (case request_checks dev_of db user q rows of Inl e \<Rightarrow> rows | Inr w \<Rightarrow> snd (do_write i now w rows)))"

lemma update_row_keeps: "r \<in> set rows \<Longrightarrow> s_id r \<noteq> i \<Longrightarrow> r \<in> set (snd (update_row i f rows))"
  using update_row_set [of i f rows] by (auto simp: image_iff)

lemma serve_ok: "subs_ok rows \<Longrightarrow> subs_ok (serve x rows)"
  using do_write_ok checks_ok by (auto simp: serve_def split: sum.split prod.split)

lemma serve_cancelled:
  assumes "subs_ok rows" "r \<in> set rows" "s_status r = SubCancelled"
  shows "r \<in> set (serve x rows)"
proof -
  obtain dev_of db user q i now where x: "x = (dev_of, db, user, q, i, now)" by (metis prod_cases6)
  have other: "s_id r \<noteq> j" if "owned user j rows = Inr s" "s_status s \<noteq> SubCancelled" for j s
    using owned_row [OF that(1)] that(2) assms by (auto simp: subs_ok_def distinct_map dest: inj_onD)
  show ?thesis
  proof (cases "request_checks dev_of db user q rows")
    case (Inr w)
    have "r \<in> set (snd (do_write i now w rows))"
    proof (cases q)
      case (ReqCreate b)
      then obtain d where "w = WCreate d" using Inr by (auto simp: create_checks_def split: option.splits if_splits)
      then show ?thesis using assms(2) by (simp add: subs_create_def Let_def)
    next
      case (ReqUpdate j b)
      then obtain u s where "w = WUpdate j u" "owned user j rows = Inr s" "s_status s \<noteq> SubCancelled"
        using Inr by (auto simp: update_checks_def split: option.splits if_splits sum.splits)
      then show ?thesis using update_row_keeps [OF assms(2) other] by (simp add: subs_update_def case_prod_beta)
    next
      case (ReqCancel j)
      then obtain s where "w = WCancel j" "owned user j rows = Inr s" "s_status s \<noteq> SubCancelled"
        using Inr by (auto simp: cancel_checks_def split: if_splits sum.splits)
      then show ?thesis using update_row_keeps [OF assms(2) other] by (simp add: subs_cancel_def case_prod_beta)
    qed
    then show ?thesis by (simp add: serve_def x Inr)
  qed (simp add: serve_def x assms(2))
qed

text \<open>Cancelling is final when requests are served one after the other: no later request changes a cancelled subscription.\<close>

theorem cancelled_final: "subs_ok rows \<Longrightarrow> r \<in> set rows \<Longrightarrow> s_status r = SubCancelled \<Longrightarrow> r \<in> set (fold serve xs rows)"
  by (induction xs arbitrary: rows) (simp_all add: serve_ok serve_cancelled)

section \<open>Examples\<close>

definition one_api :: api_db where
  "one_api = \<lparr>t_apis = [\<lparr>a_id = 1, a_developer_id = 7, a_name = ''a'', a_description = None, a_base_url = ''b'', a_logo_url = None, a_category = None,
     a_status = StatusActive, a_created_at = 0, a_updated_at = 0, a_deleted_at = None\<rparr>], t_endpoints = [], t_developers = [], next_api = 2, next_endpoint = 1\<rparr>"

definition plain_create :: sub_request where
  "plain_create = ReqCreate \<lparr>rc_api_id = Number 1, rc_metering_limit = Missing, rc_retry_policy = Missing\<rparr>"

definition resume :: "string \<Rightarrow> sub_request" where
  "resume i = ReqUpdate i \<lparr>ru_status = Given ''active'', ru_metering_limit = Missing, ru_retry_policy = Missing\<rparr>"

definition subscribe :: "string \<Rightarrow> string \<Rightarrow> sub_event list" where
  "subscribe u i = [SubCheck u plain_create (\<lambda>_. None) one_api, SubWrite 0 i 5000]"

definition plain_row :: "string \<Rightarrow> string \<Rightarrow> Subscription" where
  "plain_row u i = \<lparr>s_id = i, s_user_id = u, s_api_id = 1, s_status = SubActive, s_metering_limit = None, s_retry_policy = None,
     s_created_at = 5000, s_updated_at = 5000, s_cancelled_at = None\<rparr>"

lemma create_passes: "create_checks (\<lambda>_. None) one_api u \<lparr>rc_api_id = Number 1, rc_metering_limit = Missing, rc_retry_policy = Missing\<rparr> rows =
    (if findActiveByUserAndApi u 1 rows \<noteq> None then Inl (ConflictError ''You already have an active subscription for this API'' ''CONFLICT'')
     else Inr (WCreate \<lparr>cs_user_id = u, cs_api_id = 1, cs_metering_limit = None, cs_retry_policy = None\<rparr>))"
  by (simp add: create_checks_def createSubscriptionSchema_def policy_check_def db_findRawById_def one_api_def live_def)

lemma subscribed: "fold sub_step (subscribe u i) no_subscriptions = \<lparr>st_rows = [plain_row u i], st_pending = [], st_answers = [(u, Inr (plain_row u i))]\<rparr>"
  by (simp add: subscribe_def no_subscriptions_def plain_create_def create_passes findActiveByUserAndApi_def subs_create_def Let_def seconds_def plain_row_def)

theorem subscriptions_isolated_witness:
  "of_user ''u'' (st_rows (fold sub_step (subscribe ''u'' ''s'' @ [SubCheck ''v'' (ReqCancel ''s'') (\<lambda>_. None) one_api, SubWrite 0 ''t'' 6000]) no_subscriptions)) = [plain_row ''u'' ''s'']"
proof -
  have "of_user ''u'' [plain_row ''u'' ''s''] = [plain_row ''u'' ''s'']" by (simp add: of_user_def plain_row_def)
  then show ?thesis
    using subscriptions_isolated [of "subscribe ''u'' ''s''" "''u''" "[SubCheck ''v'' (ReqCancel ''s'') (\<lambda>_. None) one_api, SubWrite 0 ''t'' 6000]"]
    by (simp add: subscribed del: sub_step.simps)
qed

definition cancelled_row :: Subscription where
  "cancelled_row = (plain_row ''u'' ''s'')\<lparr>s_status := SubCancelled, s_cancelled_at := Some 6000\<rparr>"

theorem cancelled_final_witness:
  "cancelled_row \<in> set (fold serve [((\<lambda>_. None), one_api, ''u'', resume ''s'', ''t'', 7000), ((\<lambda>_. None), one_api, ''u'', ReqCancel ''s'', ''t'', 8000)] [cancelled_row])"
  by (rule cancelled_final) (simp_all add: subs_ok_def row_ok_def same_slot_def cancelled_row_def plain_row_def policy_check_def)

text \<open>When a resume passes its check before a cancellation and writes after it, the cancelled subscription is active again, and keeps its time of cancellation.\<close>

lemma cancelled_subscription_revived:
  "st_rows (fold sub_step [SubCheck ''u'' (resume ''s'') (\<lambda>_. None) one_api, SubCheck ''u'' (ReqCancel ''s'') (\<lambda>_. None) one_api, SubWrite 1 ''x'' 6000, SubWrite 0 ''x'' 7000]
     (fold sub_step (subscribe ''u'' ''s'') no_subscriptions)) = [(plain_row ''u'' ''s'')\<lparr>s_cancelled_at := Some 6000, s_updated_at := 7000\<rparr>]"
  unfolding subscribed
  by (simp add: resume_def update_checks_def updateSubscriptionSchema_def owned_def subs_findById_def plain_row_def policy_check_def cancel_checks_def
    subs_cancel_def subs_update_def update_row_def apply_changes_def seconds_def same_slot_def)

end
