(* ===== verification/Access.thy ===== *)
theory Access
  imports Prelude
begin

text \<open>
  Who may call: the client address and the address allowlist (\<^verbatim>\<open>lib/clientIp.ts\<close>, \<^verbatim>\<open>middleware/ipAllowlist.ts\<close>), the login
  throttle (\<^verbatim>\<open>middleware/loginThrottle.ts\<close>), the origin allowlist (\<^verbatim>\<open>middleware/cors.ts\<close>) and the authentication of users and
  administrators (\<^verbatim>\<open>middleware/requireAuth.ts\<close>, \<^verbatim>\<open>middleware/adminAuth.ts\<close>).

  A request has its headers by lower-case name, each a single text, the address Express resolved (\<open>req.ip\<close>) and the one of the socket.
  The range check of the package \<open>ip-range-check\<close> and \<open>jwt.verify\<close> are parameters.
\<close>

section \<open>Client addresses\<close>

record http_request =
  rq_headers :: "(string, string) js_map"
  rq_ip :: "string option"
  rq_remoteAddress :: "string option"
  rq_method :: string

definition req_header :: "http_request \<Rightarrow> string \<Rightarrow> string option" where
  "req_header r name = map_get (rq_headers r) (toLowerCase name)"

definition DEFAULT_PROXY_HEADERS :: "string list" where
  "DEFAULT_PROXY_HEADERS = [''x-forwarded-for'', ''x-real-ip'', ''x-client-ip'', ''x-forwarded'', ''x-cluster-client-ip'', ''cf-connecting-ip'', ''x-aws-client-ip'']"

definition hex_char :: "char \<Rightarrow> bool" where
  "hex_char c \<longleftrightarrow> c \<in> set ''0123456789abcdefABCDEF''"

definition ipv4_text :: "string \<Rightarrow> bool" where
  "ipv4_text s = (let ps = split_on (CHR ''.'') s in length ps = 4 \<and> list_all (\<lambda>p. 1 \<le> length p \<and> length p \<le> 3 \<and> list_all is_digit p) ps)"

definition ipv6_text :: "string \<Rightarrow> bool" where
  "ipv6_text s = (let ps = split_on (CHR '':'') s in 3 \<le> length ps \<and> length ps \<le> 8 \<and> list_all (\<lambda>p. length p \<le> 4 \<and> list_all hex_char p) ps)"

definition isValidIp :: "string \<Rightarrow> bool" where
  "isValidIp ip = (ipv4_text ip \<or> ipv6_text ip \<or> CHR '':'' \<in> set ip)"

fun forwarded_ip :: "http_request \<Rightarrow> string list \<Rightarrow> string option" where
  "forwarded_ip r [] = None"
| "forwarded_ip r (h # hs) = (case req_header r h of
     None \<Rightarrow> forwarded_ip r hs
   | Some v \<Rightarrow> if trim v = [] then forwarded_ip r hs
       else (let first = trim (hd (split_on (CHR '','') v)) in if isValidIp first then Some first else forwarded_ip r hs))"

definition getClientIp :: "http_request \<Rightarrow> bool \<Rightarrow> string list \<Rightarrow> string" where
  "getClientIp r trustProxy proxyHeaders =
    (case (if trustProxy then forwarded_ip r proxyHeaders else None) of Some ip \<Rightarrow> ip
     | None \<Rightarrow> (case rq_ip r of Some ip \<Rightarrow> ip | None \<Rightarrow> (case rq_remoteAddress r of Some ip \<Rightarrow> ip | None \<Rightarrow> [])))"

section \<open>The address allowlist\<close>

record IpAllowlistConfig =
  allowedRanges :: "string list"
  al_trustProxy :: bool
  al_proxyHeaders :: "string list"
  al_enabled :: bool

datatype gate = Pass | Refuse nat string

definition createIpAllowlist :: "(string \<Rightarrow> string list \<Rightarrow> bool) \<Rightarrow> IpAllowlistConfig \<Rightarrow> (http_request \<Rightarrow> gate) result" where
  "createIpAllowlist ipRangeCheck c =
    (if allowedRanges c = [] then Inl (Error ''IP allowlist must have at least one allowed range'')
     else Inr (\<lambda>r. if \<not> al_enabled c then Pass
       else (let ip = getClientIp r (al_trustProxy c) (al_proxyHeaders c) in
         if \<not> isValidIp ip then Refuse 400 ''INVALID_IP_FORMAT''
         else if \<not> ipRangeCheck ip (allowedRanges c) then Refuse 403 ''IP_NOT_ALLOWED''
         else Pass)))"

text \<open>The allowlists of the admin and the gateway routes, from their environment variables.\<close>

definition env_allowlist :: "(string \<Rightarrow> string list \<Rightarrow> bool) \<Rightarrow> string option \<Rightarrow> string option \<Rightarrow> string option \<Rightarrow> (http_request \<Rightarrow> gate) result" where
  "env_allowlist ipRangeCheck ranges trust enabled =
    (let rs = (case ranges of None \<Rightarrow> [] | Some s \<Rightarrow> map trim (split_on (CHR '','') s)) in
     if rs = [] then Inr (\<lambda>_. Pass)
     else createIpAllowlist ipRangeCheck \<lparr>allowedRanges = rs, al_trustProxy = (trust = Some ''true''), al_proxyHeaders = DEFAULT_PROXY_HEADERS,
       al_enabled = (enabled \<noteq> Some ''false'')\<rparr>)"

section \<open>The login throttle\<close>

record LoginAttemptRecord =
  la_count :: int
  la_resetAt :: millis

record LoginThrottleOptions =
  lt_windowMs :: int
  lt_maxRequests :: int
  lt_trustProxy :: bool

type_synonym login_buckets = "(string, LoginAttemptRecord) js_map"

definition throttle_check :: "LoginThrottleOptions \<Rightarrow> string \<Rightarrow> millis \<Rightarrow> login_buckets \<Rightarrow> (bool \<times> int option) \<times> login_buckets" where
  "throttle_check opts ip now m =
    (let fresh = ((True, None), map_set ip \<lparr>la_count = 1, la_resetAt = now + lt_windowMs opts\<rparr> m) in
     case map_get m ip of None \<Rightarrow> fresh
     | Some b \<Rightarrow> if now \<ge> la_resetAt b then fresh
         else if la_count b \<ge> lt_maxRequests opts then ((False, Some (max (la_resetAt b - now) 0)), m)
         else ((True, None), map_set ip (b\<lparr>la_count := la_count b + 1\<rparr>) m))"

definition createLoginThrottle :: "LoginThrottleOptions \<Rightarrow> http_request \<Rightarrow> millis \<Rightarrow> login_buckets \<Rightarrow> (gate \<times> int option) \<times> login_buckets" where
  "createLoginThrottle opts r now m = (let ip = getClientIp r (lt_trustProxy opts) DEFAULT_PROXY_HEADERS in
     if ip = [] then ((Pass, None), m)
     else (case throttle_check opts ip now m of
       ((True, _), m') \<Rightarrow> ((Pass, None), m')
     | ((False, retry), m') \<Rightarrow> (let ms = (case retry of Some x \<Rightarrow> x | None \<Rightarrow> lt_windowMs opts) in
         ((Refuse 429 ''TOO_MANY_REQUESTS'', Some (max 1 (- ((- ms) div 1000)))), m'))))"

section \<open>Origins\<close>

record CorsAllowlistOptions =
  allowedOrigins :: "string list"
  allowCredentials :: bool
  maxAgeSeconds :: "int option"

definition parseAllowedOrigins :: "string option \<Rightarrow> string list" where
  "parseAllowedOrigins raw = (case raw of None \<Rightarrow> []
     | Some s \<Rightarrow> fold (\<lambda>e seen. if trim e = [] \<or> trim e \<in> set seen then seen else seen @ [trim e]) (split_on (CHR '','') s) [])"

definition parseOriginHeader :: "http_request \<Rightarrow> string option" where
  "parseOriginHeader r = (case req_header r ''Origin'' of None \<Rightarrow> None | Some v \<Rightarrow> if v = [] then None else Some (trim v))"

datatype cors_outcome = CorsNext "(string \<times> string) list" | CorsPreflight "(string \<times> string) list" | CorsDenied "(string \<times> string) list" string

definition setCorsHeaders :: "CorsAllowlistOptions \<Rightarrow> string \<Rightarrow> (string \<times> string) list" where
  "setCorsHeaders opts origin = [(''Access-Control-Allow-Origin'', origin), (''Vary'', ''Origin'')] @
     (if allowCredentials opts then [(''Access-Control-Allow-Credentials'', ''true'')] else [])"

definition handlePreflight :: "CorsAllowlistOptions \<Rightarrow> (string \<times> string) list" where
  "handlePreflight opts = [(''Access-Control-Allow-Methods'', ''GET, POST, PATCH, DELETE, OPTIONS''),
     (''Access-Control-Allow-Headers'', ''Content-Type, Authorization, x-admin-api-key, x-request-id''),
     (''Access-Control-Max-Age'', show_int (case maxAgeSeconds opts of Some n \<Rightarrow> n | None \<Rightarrow> 600))]"

definition createCorsAllowlistMiddleware :: "CorsAllowlistOptions \<Rightarrow> http_request \<Rightarrow> cors_outcome" where
  "createCorsAllowlistMiddleware opts r =
    (case parseOriginHeader r of
       None \<Rightarrow> CorsDenied [(''Vary'', ''Origin'')] ''Origin header is required''
     | Some origin \<Rightarrow>
       if origin = [] then CorsDenied [(''Vary'', ''Origin'')] ''Origin header is required''
       else if origin \<notin> set (allowedOrigins opts) then CorsDenied [(''Vary'', ''Origin'')] (''Origin '' @ [CHR 0x22] @ origin @ [CHR 0x22] @ '' is not allowed'')
       else if rq_method r = ''OPTIONS'' then CorsPreflight (setCorsHeaders opts origin @ handlePreflight opts)
       else CorsNext (setCorsHeaders opts origin))"

text \<open>The middleware of a route, from its environment variable; only the one of the subscriptions sends no credentials header.\<close>

definition route_cors :: "bool \<Rightarrow> string option \<Rightarrow> http_request \<Rightarrow> cors_outcome" where
  "route_cors credentials raw r = createCorsAllowlistMiddleware \<lparr>allowedOrigins = parseAllowedOrigins raw, allowCredentials = credentials, maxAgeSeconds = Some 600\<rparr> r"

section \<open>Users and administrators\<close>

text \<open>A claim of a verified token: absent or falsy, a text, or another truthy value.\<close>

datatype claim = NoClaim | TextClaim string | OtherClaim

record jwt_payload =
  jp_userId :: claim
  jp_sub :: claim
  jp_email :: claim
  jp_role :: claim

datatype jwt_error = TokenExpired | TokenNotActive | TokenInvalid

text \<open>\<open>jwt.verify\<close> returns an object, or a text when the payload is not JSON.\<close>

type_synonym jwt_verify = "string \<Rightarrow> string \<Rightarrow> string list \<Rightarrow> jwt_error + jwt_payload option"

fun first_claim :: "claim \<Rightarrow> claim \<Rightarrow> claim" where
  "first_claim NoClaim c = c"
| "first_claim (TextClaim []) c = c"
| "first_claim x c = x"

fun text_claim :: "claim \<Rightarrow> string option" where
  "text_claim (TextClaim s) = (if trim s = [] then None else Some s)"
| "text_claim _ = None"

definition resolveRequestUserId :: "jwt_verify \<Rightarrow> string option \<Rightarrow> http_request \<Rightarrow> error + string option" where
  "resolveRequestUserId verify secret r =
    (case req_header r ''authorization'' of
       Some a \<Rightarrow>
         if take 7 a \<noteq> ''Bearer '' then Inl (UnauthorizedError ''Invalid authorization header'' ''INVALID_AUTH_HEADER'')
         else if trim (drop 7 a) = [] then Inl (UnauthorizedError ''Missing token'' ''MISSING_TOKEN'')
         else (case secret of
           None \<Rightarrow> Inl (UnauthorizedError ''Unauthorized'' ''UNAUTHORIZED'')
         | Some s \<Rightarrow> if s = [] then Inl (UnauthorizedError ''Unauthorized'' ''UNAUTHORIZED'')
             else (case verify (trim (drop 7 a)) s [''HS256''] of
               Inl TokenExpired \<Rightarrow> Inl (UnauthorizedError ''Token expired'' ''TOKEN_EXPIRED'')
             | Inl TokenNotActive \<Rightarrow> Inl (UnauthorizedError ''Invalid token'' ''TOKEN_NOT_ACTIVE'')
             | Inl TokenInvalid \<Rightarrow> Inl (UnauthorizedError ''Invalid token'' ''INVALID_TOKEN'')
             | Inr None \<Rightarrow> Inl (UnauthorizedError ''Invalid token'' ''INVALID_TOKEN'')
             | Inr (Some p) \<Rightarrow> (case text_claim (first_claim (jp_userId p) (jp_sub p)) of
                 None \<Rightarrow> Inl (UnauthorizedError ''Token missing required claims'' ''MISSING_CLAIMS'')
               | Some u \<Rightarrow> Inr (Some u))))
     | None \<Rightarrow> (case req_header r ''x-user-id'' of None \<Rightarrow> Inr None | Some v \<Rightarrow> if trim v = [] then Inr None else Inr (Some (trim v))))"

definition requireAuth :: "jwt_verify \<Rightarrow> string option \<Rightarrow> http_request \<Rightarrow> string result" where
  "requireAuth verify secret r = (case resolveRequestUserId verify secret r of Inl e \<Rightarrow> Inl e
     | Inr None \<Rightarrow> Inl (UnauthorizedError ''Unauthorized'' ''UNAUTHORIZED'') | Inr (Some u) \<Rightarrow> Inr u)"

definition admin_actor :: "jwt_payload \<Rightarrow> claim" where
  "admin_actor p = first_claim (jp_sub p) (first_claim (jp_email p) (TextClaim ''admin-jwt''))"

text \<open>\<open>Buffer.from\<close> gives UTF-8, so two texts of the same length may have different numbers of bytes; then \<open>timingSafeEqual\<close> throws.\<close>

definition timingSafeStringEqual :: "string \<Rightarrow> string \<Rightarrow> bool result" where
  "timingSafeStringEqual a b = (if length a \<noteq> length b then Inr False
     else if length (utf8 a) \<noteq> length (utf8 b) then Inl (Error ''Input buffers must have the same byte length'')
     else Inr (utf8 a = utf8 b))"

definition adminAuth :: "jwt_verify \<Rightarrow> string option \<Rightarrow> string option \<Rightarrow> http_request \<Rightarrow> claim result" where
  "adminAuth verify adminKey secret r =
    (let jwt = (case req_header r ''Authorization'' of
         Some a \<Rightarrow> if take 7 a \<noteq> ''Bearer '' then Inl (UnauthorizedError ''Unauthorized: admin access required'' ''UNAUTHORIZED'')
           else (case secret of None \<Rightarrow> Inl (InternalServerError ''JWT_SECRET not configured'' ''INTERNAL_SERVER_ERROR'')
             | Some s \<Rightarrow> if s = [] then Inl (InternalServerError ''JWT_SECRET not configured'' ''INTERNAL_SERVER_ERROR'')
                 else (case verify (drop 7 a) s [] of
                   Inr (Some p) \<Rightarrow> if jp_role p = TextClaim ''admin'' then Inr (admin_actor p) else Inl (UnauthorizedError ''Unauthorized: admin access required'' ''UNAUTHORIZED'')
                 | _ \<Rightarrow> Inl (UnauthorizedError ''Unauthorized: admin access required'' ''UNAUTHORIZED'')))
       | None \<Rightarrow> Inl (UnauthorizedError ''Unauthorized: admin access required'' ''UNAUTHORIZED'')) in
     case (req_header r ''x-admin-api-key'', adminKey) of
       (Some k, Some c) \<Rightarrow> if k = [] \<or> c = [] then jwt
         else (case timingSafeStringEqual k c of Inl e \<Rightarrow> Inl e | Inr True \<Rightarrow> Inr (TextClaim ''admin-api-key'') | Inr False \<Rightarrow> jwt)
     | _ \<Rightarrow> jwt)"

section \<open>Headers do not change the address\<close>

text \<open>C37. Without a trusted proxy nobody can choose their address: what the address allowlist and the login throttle decide about a request depends on the
  connection alone and not on any of its headers. The allowlist passes a request exactly when it is switched off or the address is
  well-formed and within the allowed ranges.\<close>

theorem address_not_spoofed:
  assumes "createIpAllowlist ipRangeCheck c = Inr check" "\<not> al_trustProxy c" "\<not> lt_trustProxy opts"
    "rq_ip r = rq_ip r'" "rq_remoteAddress r = rq_remoteAddress r'"
  shows "check r = check r' \<and> createLoginThrottle opts r now m = createLoginThrottle opts r' now m \<and>
    (check r = Pass \<longleftrightarrow> \<not> al_enabled c \<or>
      (let ip = (case rq_ip r of Some ip \<Rightarrow> ip | None \<Rightarrow> (case rq_remoteAddress r of Some ip \<Rightarrow> ip | None \<Rightarrow> [])) in isValidIp ip \<and> ipRangeCheck ip (allowedRanges c)))"
proof -
  let ?ip = "case rq_ip r of Some ip \<Rightarrow> ip | None \<Rightarrow> (case rq_remoteAddress r of Some ip \<Rightarrow> ip | None \<Rightarrow> [])"
  have ip: "getClientIp r False hs = ?ip" "getClientIp r' False hs = ?ip" for hs unfolding getClientIp_def assms(4,5) by simp_all
  have "check x = (if \<not> al_enabled c then Pass else let ip = getClientIp x False (al_proxyHeaders c) in
      if \<not> isValidIp ip then Refuse 400 ''INVALID_IP_FORMAT'' else if \<not> ipRangeCheck ip (allowedRanges c) then Refuse 403 ''IP_NOT_ALLOWED'' else Pass)" for x
    using assms(1,2) by (auto simp: createIpAllowlist_def split: if_splits)
  then show ?thesis using assms(3) ip by (simp add: createLoginThrottle_def Let_def)
qed

section \<open>The throttle\<close>

fun attempts :: "LoginThrottleOptions \<Rightarrow> (string \<times> millis) list \<Rightarrow> login_buckets \<Rightarrow> (string \<times> bool) list" where
  "attempts opts [] m = []"
| "attempts opts ((ip, now) # es) m = (ip, fst (fst (throttle_check opts ip now m))) # attempts opts es (snd (throttle_check opts ip now m))"

definition answers_to :: "string \<Rightarrow> (string \<times> bool) list \<Rightarrow> bool list" where
  "answers_to ip as = map snd (filter (\<lambda>a. fst a = ip) as)"

lemma throttle_other: "ip \<noteq> ip' \<Longrightarrow> map_get (snd (throttle_check opts ip now m)) ip' = map_get m ip'"
  by (simp add: throttle_check_def Let_def jsmap split: option.split)

lemma open_window:
  assumes "map_get m ip = Some \<lparr>la_count = c, la_resetAt = t\<rparr>" "\<forall>e \<in> set es. fst e = ip \<longrightarrow> snd e < t" "1 \<le> c"
  shows "answers_to ip (attempts opts es m) = map (\<lambda>k. int k + c < lt_maxRequests opts) [0 ..< length (filter (\<lambda>e. fst e = ip) es)]"
  using assms
proof (induction es arbitrary: m c)
  case (Cons e es)
  obtain ip' now where e: "e = (ip', now)" by fastforce
  let ?m = "snd (throttle_check opts ip' now m)"
  show ?case
  proof (cases "ip' = ip")
    case False
    then have "map_get ?m ip = map_get m ip" by (rule throttle_other)
    then have "map_get ?m ip = Some \<lparr>la_count = c, la_resetAt = t\<rparr>" using Cons.prems(1) by simp
    from Cons.IH [OF this] Cons.prems show ?thesis using False by (simp add: e answers_to_def)
  next
    case True
    have lt: "now < t" using Cons.prems(2) by (simp add: e True)
    show ?thesis
    proof (cases "lt_maxRequests opts \<le> c")
      case full: True
      then have "throttle_check opts ip now m = ((False, Some (max (t - now) 0)), m)" using Cons.prems(1) lt by (simp add: throttle_check_def)
      moreover have "map (\<lambda>k. int k + c < lt_maxRequests opts) [0 ..< n] = replicate n False" for n
        using full by (intro replicate_eqI) auto
      ultimately show ?thesis using Cons.IH [OF Cons.prems(1)] Cons.prems(2,3) by (simp add: e True answers_to_def del: upt_Suc)
    next
      case False
      then have t: "throttle_check opts ip now m = ((True, None), map_set ip \<lparr>la_count = c + 1, la_resetAt = t\<rparr> m)"
        using Cons.prems(1) lt by (simp add: throttle_check_def)
      let ?n = "length (filter (\<lambda>e. fst e = ip) es)"
      have "answers_to ip (attempts opts es (map_set ip \<lparr>la_count = c + 1, la_resetAt = t\<rparr> m)) = map (\<lambda>k. int k + (c + 1) < lt_maxRequests opts) [0 ..< ?n]"
        using Cons.prems by (intro Cons.IH) (simp_all add: jsmap)
      moreover have "map (\<lambda>k. int k + c < lt_maxRequests opts) [0 ..< Suc ?n] = True # map (\<lambda>k. int k + (c + 1) < lt_maxRequests opts) [0 ..< ?n]"
        using False by (simp add: upt_conv_Cons map_Suc_upt [symmetric] comp_def algebra_simps del: upt_Suc)
      ultimately show ?thesis by (simp add: e True t answers_to_def del: upt_Suc)
    qed
  qed
qed (simp add: answers_to_def)

text \<open>C39. The login throttle is exact: once an address makes an attempt with no window open, exactly its first \<open>maxRequests\<close> attempts within the window are let
  through, but at least that first one, and the rest are refused, no matter what other addresses do in between.\<close>

theorem login_throttle_exact:
  assumes "case map_get m ip of None \<Rightarrow> True | Some b \<Rightarrow> la_resetAt b \<le> t" "\<forall>e \<in> set es. fst e = ip \<longrightarrow> snd e < t + lt_windowMs opts"
  shows "answers_to ip (attempts opts ((ip, t) # es) m) =
    map (\<lambda>k. k = 0 \<or> int k < lt_maxRequests opts) [0 ..< Suc (length (filter (\<lambda>e. fst e = ip) es))]"
proof -
  let ?m = "map_set ip \<lparr>la_count = 1, la_resetAt = t + lt_windowMs opts\<rparr> m" and ?n = "length (filter (\<lambda>e. fst e = ip) es)"
  have t: "throttle_check opts ip t m = ((True, None), ?m)" using assms(1) by (cases "map_get m ip") (simp_all add: throttle_check_def Let_def)
  have "answers_to ip (attempts opts es ?m) = map (\<lambda>k. int k + 1 < lt_maxRequests opts) [0 ..< ?n]"
    using assms(2) by (intro open_window) (simp_all add: jsmap)
  then show ?thesis by (simp add: answers_to_def t upt_conv_Cons map_Suc_upt [symmetric] comp_def algebra_simps del: upt_Suc)
qed

section \<open>Origins and identities\<close>

lemma parse_origins: "set (fold (\<lambda>e seen. if trim e = [] \<or> trim e \<in> set seen then seen else seen @ [trim e]) es seen) = set seen \<union> (trim ` set es - {[]})"
  by (induction es arbitrary: seen) auto

lemma allowed_origins: "set (parseAllowedOrigins raw) = (case raw of None \<Rightarrow> {} | Some s \<Rightarrow> trim ` set (split_on (CHR '','') s) - {[]})"
  by (auto simp: parseAllowedOrigins_def parse_origins split: option.split)

text \<open>Only listed origins get through: a route answers a request other than with a denial exactly when its origin, trimmed, is one of the non-empty entries
  of its variable, and the origin it allows in its headers is that one; with an empty or missing variable every request is denied.\<close>

theorem cors_exact:
  "let listed = (case raw of None \<Rightarrow> {} | Some s \<Rightarrow> trim ` set (split_on (CHR '','') s) - {[]}) in
   (case route_cors credentials raw r of
      CorsDenied hs _ \<Rightarrow> (\<forall>v. req_header r ''Origin'' = Some v \<longrightarrow> trim v \<notin> listed) \<and> ''Access-Control-Allow-Origin'' \<notin> fst ` set hs
    | CorsNext hs \<Rightarrow> rq_method r \<noteq> ''OPTIONS'' \<and> (\<exists>v. req_header r ''Origin'' = Some v \<and> trim v \<in> listed \<and> map_get hs ''Access-Control-Allow-Origin'' = Some (trim v))
    | CorsPreflight hs \<Rightarrow> rq_method r = ''OPTIONS'' \<and> (\<exists>v. req_header r ''Origin'' = Some v \<and> trim v \<in> listed \<and> map_get hs ''Access-Control-Allow-Origin'' = Some (trim v)))"
proof -
  have "trim [] = []" by (simp add: trim_def)
  then show ?thesis unfolding Let_def allowed_origins [symmetric] route_cors_def createCorsAllowlistMiddleware_def parseOriginHeader_def setCorsHeaders_def
    using allowed_origins [of raw] by (auto split: option.splits)
qed

text \<open>C38. Bearer tokens are checked exactly: a request with an authorization header is authenticated as a
  user exactly when the header is \<open>Bearer\<close> and a token that verifies under the configured, non-empty secret
  with HS256 as the only algorithm, and whose claim \<open>userId\<close>, or \<open>sub\<close> when \<open>userId\<close> is missing or falsy, is
  that user's id, a text that is not blank; the header \<open>X-User-Id\<close> makes no difference then. A request
  with neither an authorization header nor a non-blank \<open>X-User-Id\<close> is refused as unauthorized.\<close>

theorem require_auth_exact:
  "(\<forall>a. req_header r ''authorization'' = Some a \<longrightarrow>
     (requireAuth verify secret r = Inr u \<longleftrightarrow> take 7 a = ''Bearer '' \<and> trim (drop 7 a) \<noteq> [] \<and> trim u \<noteq> [] \<and>
       (\<exists>s p. secret = Some s \<and> s \<noteq> [] \<and> verify (trim (drop 7 a)) s [''HS256''] = Inr (Some p) \<and>
         (jp_userId p = TextClaim u \<or> jp_userId p \<in> {NoClaim, TextClaim []} \<and> jp_sub p = TextClaim u)))) \<and>
   (req_header r ''authorization'' = None \<and> (\<forall>v. req_header r ''x-user-id'' = Some v \<longrightarrow> trim v = []) \<longrightarrow>
     requireAuth verify secret r = Inl (UnauthorizedError ''Unauthorized'' ''UNAUTHORIZED''))"
proof (cases "req_header r ''authorization''")
  case None
  then show ?thesis by (auto simp: requireAuth_def resolveRequestUserId_def split: option.splits)
next
  case (Some a)
  have "trim [] = []" by (simp add: trim_def)
  then have claims: "text_claim (first_claim c d) = Some u \<longleftrightarrow>
      trim u \<noteq> [] \<and> (c = TextClaim u \<or> c \<in> {NoClaim, TextClaim []} \<and> d = TextClaim u)" for c d
    by (cases "(c, d)" rule: first_claim.cases; cases d) auto
  show ?thesis
  proof (cases "take 7 a = ''Bearer '' \<and> trim (drop 7 a) \<noteq> [] \<and> (\<exists>s. secret = Some s \<and> s \<noteq> [])")
    case True
    then obtain s where s: "secret = Some s" "s \<noteq> []" by blast
    have "requireAuth verify secret r = Inr u \<longleftrightarrow>
        (\<exists>p. verify (trim (drop 7 a)) s [''HS256''] = Inr (Some p) \<and> text_claim (first_claim (jp_userId p) (jp_sub p)) = Some u)"
      using Some True s by (cases "verify (trim (drop 7 a)) s [''HS256'']")
        (auto simp: requireAuth_def resolveRequestUserId_def split: option.splits jwt_error.splits)
    with Some True s show ?thesis unfolding claims by auto
  next
    case False
    then show ?thesis using Some by (auto simp: requireAuth_def resolveRequestUserId_def split: option.splits)
  qed
qed

text \<open>Administrators have the key or a token: a request passes as an administrator only when its key header equals the configured, non-empty key, or its
  bearer token verifies under the secret and has the role \<open>admin\<close>.\<close>

theorem admin_auth_sound:
  assumes "adminAuth verify adminKey secret r = Inr actor"
  shows "(\<exists>k. k \<noteq> [] \<and> adminKey = Some k \<and> req_header r ''x-admin-api-key'' = Some k) \<or>
    (\<exists>a s p. req_header r ''Authorization'' = Some a \<and> take 7 a = ''Bearer '' \<and> secret = Some s \<and> s \<noteq> [] \<and>
       verify (drop 7 a) s [] = Inr (Some p) \<and> jp_role p = TextClaim ''admin'')"
proof -
  let ?key = "\<exists>k. k \<noteq> [] \<and> adminKey = Some k \<and> req_header r ''x-admin-api-key'' = Some k"
  have key: ?key if "req_header r ''x-admin-api-key'' = Some k" "adminKey = Some c" "k \<noteq> []" "timingSafeStringEqual k c = Inr True" for k c
  proof -
    have "utf8 k = utf8 c" using that(4) by (simp add: timingSafeStringEqual_def split: if_splits)
    then show ?thesis using that utf8_inj by blast
  qed
  show ?thesis
  proof (cases ?key)
    case False
    then have "timingSafeStringEqual k c \<noteq> Inr True" if "req_header r ''x-admin-api-key'' = Some k" "adminKey = Some c" "k \<noteq> []" for k c using key that by blast
    then show ?thesis using assms by (auto simp: adminAuth_def Let_def split: option.splits if_splits sum.splits bool.splits)
  qed simp
qed

section \<open>Examples\<close>

definition demo_request :: "(string, string) js_map \<Rightarrow> http_request" where
  "demo_request hs = \<lparr>rq_headers = hs, rq_ip = Some ''10.0.0.7'', rq_remoteAddress = None, rq_method = ''POST''\<rparr>"

definition demo_throttle :: LoginThrottleOptions where
  "demo_throttle = \<lparr>lt_windowMs = 1000, lt_maxRequests = 2, lt_trustProxy = False\<rparr>"

definition demo_allowlist :: IpAllowlistConfig where
  "demo_allowlist = \<lparr>allowedRanges = [''10.0.0.7''], al_trustProxy = False, al_proxyHeaders = DEFAULT_PROXY_HEADERS, al_enabled = True\<rparr>"

theorem address_not_spoofed_witness:
  "\<exists>check. createIpAllowlist (\<lambda>ip rs. ip \<in> set rs) demo_allowlist = Inr check \<and> check (demo_request [(''x-forwarded-for'', ''1.2.3.4'')]) = Pass"
proof -
  obtain check where c: "createIpAllowlist (\<lambda>ip rs. ip \<in> set rs) demo_allowlist = Inr check"
    by (simp add: createIpAllowlist_def demo_allowlist_def)
  have t: "\<not> al_trustProxy demo_allowlist" "\<not> lt_trustProxy demo_throttle" by (simp_all add: demo_allowlist_def demo_throttle_def)
  have v: "isValidIp ''10.0.0.7''" by code_simp
  have "check (demo_request [(''x-forwarded-for'', ''1.2.3.4'')]) = Pass"
    using address_not_spoofed [OF c t, where r = "demo_request [(''x-forwarded-for'', ''1.2.3.4'')]" and r' = "demo_request []" and now = 0 and m = "[]"] v
    by (auto simp: demo_request_def demo_allowlist_def)
  then show ?thesis using c by blast
qed

lemma demo_cors: "\<exists>hs. route_cors False (Some '' a, b ,'') (demo_request [(''origin'', ''b'')]) = CorsNext hs"
proof -
  have "case route_cors False (Some '' a, b ,'') (demo_request [(''origin'', ''b'')]) of CorsNext _ \<Rightarrow> True | _ \<Rightarrow> False" by code_simp
  then show ?thesis by (cases "route_cors False (Some '' a, b ,'') (demo_request [(''origin'', ''b'')])") simp_all
qed

theorem cors_exact_witness:
  "\<exists>hs. route_cors False (Some '' a, b ,'') (demo_request [(''origin'', ''b'')]) = CorsNext hs \<and> map_get hs ''Access-Control-Allow-Origin'' = Some ''b''"
proof -
  obtain hs where hs: "route_cors False (Some '' a, b ,'') (demo_request [(''origin'', ''b'')]) = CorsNext hs"
    using demo_cors by blast
  have o: "req_header (demo_request [(''origin'', ''b'')]) ''Origin'' = Some ''b''" "trim ''b'' = ''b''" by code_simp+
  show ?thesis using cors_exact [where raw = "Some '' a, b ,''" and credentials = False and r = "demo_request [(''origin'', ''b'')]"] hs o by simp
qed

theorem login_throttle_exact_witness:
  "answers_to ''a'' (attempts demo_throttle ((''a'', 0) # [(''b'', 1), (''a'', 2), (''a'', 999)]) []) = [True, True, False]"
  using login_throttle_exact [where m = "[]" and ip = "''a''" and t = 0 and opts = demo_throttle and es = "[(''b'', 1), (''a'', 2), (''a'', 999)]"]
  by (simp add: demo_throttle_def upt_rec del: attempts.simps)

theorem admin_auth_sound_witness:
  "adminAuth (\<lambda>_ _ _. Inl TokenInvalid) (Some ''k'') None (demo_request [(''x-admin-api-key'', ''k'')]) = Inr (TextClaim ''admin-api-key'') \<and>
   req_header (demo_request [(''x-admin-api-key'', ''k'')]) ''x-admin-api-key'' = Some ''k''"
proof -
  have a: "adminAuth (\<lambda>_ _ _. Inl TokenInvalid) (Some ''k'') None (demo_request [(''x-admin-api-key'', ''k'')]) = Inr (TextClaim ''admin-api-key'')" by code_simp
  show ?thesis using a admin_auth_sound [OF a] by simp
qed

theorem require_auth_exact_witness:
  "requireAuth (\<lambda>t s algs. Inr (Some \<lparr>jp_userId = NoClaim, jp_sub = TextClaim ''u'', jp_email = NoClaim, jp_role = NoClaim\<rparr>)) (Some ''s'')
     (demo_request [(''authorization'', ''Bearer t''), (''x-user-id'', ''victim'')]) = Inr ''u''"
proof -
  let ?r = "demo_request [(''authorization'', ''Bearer t''), (''x-user-id'', ''victim'')]"
  have "req_header ?r ''authorization'' = Some ''Bearer t''" "take 7 ''Bearer t'' = ''Bearer ''" "trim (drop 7 ''Bearer t'') = ''t''" "trim ''u'' = ''u''"
    by code_simp+
  then show ?thesis
    using require_auth_exact [of ?r "\<lambda>t s algs. Inr (Some \<lparr>jp_userId = NoClaim, jp_sub = TextClaim ''u'', jp_email = NoClaim, jp_role = NoClaim\<rparr>)" "Some ''s''" "''u''"]
    by simp
qed

text \<open>Anyone who sends no authorization header is taken for the user they name.\<close>

lemma user_header_trusted: "requireAuth verify secret (demo_request [(''x-user-id'', ''victim'')]) = Inr ''victim''"
proof -
  have "req_header (demo_request [(''x-user-id'', ''victim'')]) ''authorization'' = None" "req_header (demo_request [(''x-user-id'', ''victim'')]) ''x-user-id'' = Some ''victim''"
    "trim ''victim'' = ''victim''" by code_simp+
  then show ?thesis by (simp add: requireAuth_def resolveRequestUserId_def)
qed

end
