(* ===== verification/Anomalies.thy ===== *)
theory Anomalies
  imports UsagePg Lifecycle
begin

text \<open>
  Unusual traffic: the scan of five-minute windows per developer (\<^verbatim>\<open>services/anomalyService.ts\<close>) with its job
  (\<^verbatim>\<open>workers/anomalyDetector.ts\<close>), and the reports of unusual days per API (\<^verbatim>\<open>services/usageAnomalyDetector.ts\<close>,
  \<^verbatim>\<open>services/spikeDetector.ts\<close>) with their routes (\<^verbatim>\<open>routes/admin/usage/anomalies.ts\<close>, \<^verbatim>\<open>routes/admin/usage/spikeDetector.ts\<close>).

  Counts are whole numbers and means exact rationals; a standard deviation is a real number. The tables are those of the usage repository;
  every query sees the table at its own time and may fail. The session time zone of the database is UTC.
\<close>

section \<open>Windows of a developer\<close>

definition DEFAULT_BASELINE_WINDOWS :: int where
  "DEFAULT_BASELINE_WINDOWS = 12"

definition DEFAULT_WINDOW_MS :: int where
  "DEFAULT_WINDOW_MS = 5 * 60 * 1000"

definition DEFAULT_MULTIPLIER :: rat where
  "DEFAULT_MULTIPLIER = 5"

record WindowCount =
  wc_windowStart :: millis
  wc_calls :: int

record AnomalyDetectionConfig =
  ac_multiplier :: rat
  ac_baselineWindows :: int
  ac_windowMs :: int

text \<open>A ratio above a mean of zero is infinite, here \<open>None\<close>.\<close>

record UsageAnomalyFinding =
  af_developerId :: string
  af_windowStart :: millis
  af_currentCalls :: int
  af_baselineMean :: rat
  af_multiplier :: rat
  af_ratio :: "rat option"

definition round4 :: "rat \<Rightarrow> rat" where
  "round4 x = of_int \<lfloor>x * 10000 + 1 / 2\<rfloor> / 10000"

definition floorToWindowStart :: "millis \<Rightarrow> int \<Rightarrow> millis result" where
  "floorToWindowStart t w = (if w \<le> 0 then Inl (Error ''windowMs must be a positive integer'') else Inr (t div w * w))"

definition computeBaselineMean :: "int list \<Rightarrow> rat" where
  "computeBaselineMean counts = (if counts = [] then 0 else of_int (sum_list counts) / of_nat (length counts))"

definition validateDetectionConfig :: "AnomalyDetectionConfig \<Rightarrow> unit result" where
  "validateDetectionConfig c = (if ac_multiplier c \<le> 0 then Inl (Error ''multiplier must be a positive finite number'')
     else if ac_baselineWindows c \<le> 0 then Inl (Error ''baselineWindows must be a positive integer'')
     else if ac_windowMs c \<le> 0 then Inl (Error ''windowMs must be a positive integer'') else Inr ())"

definition isAnomalousTraffic :: "rat \<Rightarrow> int \<Rightarrow> rat \<Rightarrow> bool result" where
  "isAnomalousTraffic mean calls multiplier =
    (case validateDetectionConfig \<lparr>ac_multiplier = multiplier, ac_baselineWindows = 1, ac_windowMs = 1\<rparr> of Inl e \<Rightarrow> Inl e
     | Inr _ \<Rightarrow> if calls < 0 then Inl (Error ''currentCalls must be non-negative'')
         else if mean = 0 then Inr (calls > 0) else Inr (of_int calls > mean * multiplier))"

definition buildExpectedWindowStarts :: "millis \<Rightarrow> AnomalyDetectionConfig \<Rightarrow> millis list result" where
  "buildExpectedWindowStarts now c =
    (case validateDetectionConfig (c\<lparr>ac_multiplier := 1\<rparr>) of Inl e \<Rightarrow> Inl e
     | Inr _ \<Rightarrow> (case floorToWindowStart now (ac_windowMs c) of Inl e \<Rightarrow> Inl e
         | Inr current \<Rightarrow> Inr (map (\<lambda>i. current - ac_windowMs c - int i * ac_windowMs c) (rev [0 ..< Suc (nat (ac_baselineWindows c))]))))"

text \<open>The map of the counted windows keeps the last count of a window.\<close>

definition mergeWindowCounts :: "millis list \<Rightarrow> WindowCount list \<Rightarrow> WindowCount list" where
  "mergeWindowCounts starts actual = (let m = fold (\<lambda>w. map_set (wc_windowStart w) (wc_calls w)) actual [] in
     map (\<lambda>s. \<lparr>wc_windowStart = s, wc_calls = (case map_get m s of None \<Rightarrow> 0 | Some n \<Rightarrow> n)\<rparr>) starts)"

definition detectDeveloperAnomaly :: "string \<Rightarrow> WindowCount list \<Rightarrow> AnomalyDetectionConfig \<Rightarrow> UsageAnomalyFinding option result" where
  "detectDeveloperAnomaly d windows c = (case validateDetectionConfig c of Inl e \<Rightarrow> Inl e | Inr _ \<Rightarrow>
     if int (length windows) < ac_baselineWindows c + 1 then Inr None
     else (let sorted = sort_key wc_windowStart windows;
               mean = computeBaselineMean (map wc_calls (take (nat (ac_baselineWindows c)) sorted));
               current = last sorted in
       case isAnomalousTraffic mean (wc_calls current) (ac_multiplier c) of Inl e \<Rightarrow> Inl e
       | Inr False \<Rightarrow> Inr None
       | Inr True \<Rightarrow> Inr (Some \<lparr>af_developerId = d, af_windowStart = wc_windowStart current, af_currentCalls = wc_calls current,
           af_baselineMean = round4 mean, af_multiplier = ac_multiplier c,
           af_ratio = (if mean = 0 then None else Some (round4 (of_int (wc_calls current) / mean)))\<rparr>)))"

definition anomalyDedupKey :: "string \<Rightarrow> millis \<Rightarrow> string" where
  "anomalyDedupKey d s = d @ '':'' @ toISOString s"

record UsageAnomalyDetectedData =
  ad_windowStart :: string
  ad_windowEnd :: string
  ad_currentCalls :: int
  ad_baselineMean :: rat
  ad_multiplier :: rat
  ad_ratio :: "rat option"
  ad_windowMs :: int

definition toAnomalyEventData :: "UsageAnomalyFinding \<Rightarrow> int \<Rightarrow> UsageAnomalyDetectedData" where
  "toAnomalyEventData f w = \<lparr>ad_windowStart = toISOString (af_windowStart f), ad_windowEnd = toISOString (af_windowStart f + w),
     ad_currentCalls = af_currentCalls f, ad_baselineMean = af_baselineMean f, ad_multiplier = af_multiplier f, ad_ratio = af_ratio f, ad_windowMs = w\<rparr>"

section \<open>Queries and the memory of emitted windows\<close>

definition fetchActiveDeveloperIds :: "usage_row list \<Rightarrow> millis \<Rightarrow> string list" where
  "fetchActiveDeveloperIds rows since = remdups (map ur_developer_id (filter (\<lambda>r. since \<le> ur_created_at r \<and> ur_developer_id r \<noteq> []) rows))"

definition fetchDeveloperWindowCounts :: "usage_row list \<Rightarrow> string \<Rightarrow> millis \<Rightarrow> millis \<Rightarrow> int \<Rightarrow> WindowCount list" where
  "fetchDeveloperWindowCounts rows d from to w =
    (let starts = map (\<lambda>r. ur_created_at r div w * w) (filter (\<lambda>r. ur_developer_id r = d \<and> from \<le> ur_created_at r \<and> ur_created_at r < to) rows) in
     map (\<lambda>s. \<lparr>wc_windowStart = s, wc_calls = int (count_list starts s)\<rparr>) (sort (remdups starts)))"

type_synonym anomaly_dedup = "(string, millis) js_map"

definition anomaly_has :: "string \<Rightarrow> millis \<Rightarrow> anomaly_dedup \<Rightarrow> bool \<times> anomaly_dedup" where
  "anomaly_has k now m = (case map_get m k of None \<Rightarrow> (False, m)
     | Some expiry \<Rightarrow> if now > expiry then (False, map_delete k m) else (True, m))"

definition anomaly_set :: "int \<Rightarrow> string \<Rightarrow> millis \<Rightarrow> anomaly_dedup \<Rightarrow> anomaly_dedup" where
  "anomaly_set w k now m = map_set k (now + w) m"

section \<open>The scan\<close>

text \<open>What a scan meets: the time it starts, the time when it consults the memory for a developer, the table when it lists the developers and when
  it counts for one, and which queries fail.\<close>

record scan_input =
  sc_now :: millis
  sc_clock :: "string \<Rightarrow> millis"
  sc_listed :: "usage_row list"
  sc_rows :: "string \<Rightarrow> usage_row list"
  sc_list_fails :: bool
  sc_count_fails :: "string \<Rightarrow> bool"

record AnomalyScanResult =
  sr_developersScanned :: nat
  sr_anomaliesDetected :: nat
  sr_emitted :: "UsageAnomalyFinding list"

definition scan_developer :: "AnomalyDetectionConfig \<Rightarrow> int \<Rightarrow> scan_input \<Rightarrow> millis list \<Rightarrow> string \<Rightarrow> AnomalyScanResult \<Rightarrow> anomaly_dedup \<Rightarrow>
    (AnomalyScanResult \<times> anomaly_dedup) result" where
  "scan_developer c dw i starts d r m =
    (if sc_count_fails i d then Inr (r, m)
     else (case detectDeveloperAnomaly d (mergeWindowCounts starts
         (fetchDeveloperWindowCounts (sc_rows i d) d (hd starts) (last starts + ac_windowMs c) (ac_windowMs c))) c of
       Inl e \<Rightarrow> Inl e
     | Inr None \<Rightarrow> Inr (r, m)
     | Inr (Some f) \<Rightarrow> (let r1 = r\<lparr>sr_anomaliesDetected := sr_anomaliesDetected r + 1\<rparr>; k = anomalyDedupKey d (af_windowStart f) in
         case anomaly_has k (sc_clock i d) m of
           (True, m1) \<Rightarrow> Inr (r1, m1)
         | (False, m1) \<Rightarrow> Inr (r1\<lparr>sr_emitted := sr_emitted r1 @ [f]\<rparr>, anomaly_set dw k (sc_clock i d) m1))))"

fun scan_developers :: "AnomalyDetectionConfig \<Rightarrow> int \<Rightarrow> scan_input \<Rightarrow> millis list \<Rightarrow> string list \<Rightarrow> AnomalyScanResult \<Rightarrow> anomaly_dedup \<Rightarrow>
    (AnomalyScanResult \<times> anomaly_dedup) result" where
  "scan_developers c dw i starts [] r m = Inr (r, m)"
| "scan_developers c dw i starts (d # ds) r m = (case scan_developer c dw i starts d r m of Inl e \<Rightarrow> Inl e
     | Inr (r', m') \<Rightarrow> scan_developers c dw i starts ds r' m')"

definition runAnomalyScan :: "AnomalyDetectionConfig \<Rightarrow> int \<Rightarrow> scan_input \<Rightarrow> anomaly_dedup \<Rightarrow> (AnomalyScanResult \<times> anomaly_dedup) result" where
  "runAnomalyScan c dw i m =
    (case validateDetectionConfig c of Inl e \<Rightarrow> Inl e | Inr _ \<Rightarrow>
    (case buildExpectedWindowStarts (sc_now i) c of Inl e \<Rightarrow> Inl e | Inr starts \<Rightarrow>
     if sc_list_fails i then Inr (\<lparr>sr_developersScanned = 0, sr_anomaliesDetected = 0, sr_emitted = []\<rparr>, m)
     else (let ds = fetchActiveDeveloperIds (sc_listed i) (hd starts) in
       scan_developers c dw i starts ds \<lparr>sr_developersScanned = length ds, sr_anomaliesDetected = 0, sr_emitted = []\<rparr> m)))"

definition anomalyDetectorJob :: job_kind where
  "anomalyDetectorJob = \<lparr>jk_immediate = True, jk_drains = True\<rparr>"

section \<open>What a scan compares\<close>

definition calls_in :: "usage_row list \<Rightarrow> string \<Rightarrow> millis \<Rightarrow> millis \<Rightarrow> int" where
  "calls_in rows d a b = int (length (filter (\<lambda>r. ur_developer_id r = d \<and> a \<le> ur_created_at r \<and> ur_created_at r < b) rows))"

definition last_window :: "AnomalyDetectionConfig \<Rightarrow> millis \<Rightarrow> millis" where
  "last_window c now = (now div ac_windowMs c - 1) * ac_windowMs c"

definition unusual :: "AnomalyDetectionConfig \<Rightarrow> millis \<Rightarrow> usage_row list \<Rightarrow> string \<Rightarrow> bool" where
  "unusual c now rows d = (let s = last_window c now; current = calls_in rows d s (s + ac_windowMs c);
       base = calls_in rows d (s - ac_baselineWindows c * ac_windowMs c) s in
     if base = 0 then 0 < current else of_int base * ac_multiplier c < of_int current * of_int (ac_baselineWindows c))"

lemma calls_split: "a \<le> b \<Longrightarrow> b \<le> e \<Longrightarrow> calls_in rows d a e = calls_in rows d a b + calls_in rows d b e"
  by (induction rows) (auto simp: calls_in_def)

lemma calls_empty: "calls_in rows d a a = 0"
  by (auto simp: calls_in_def filter_empty_conv)

lemma calls_nonneg: "0 \<le> calls_in rows d a b"
  by (simp add: calls_in_def)

lemma calls_consecutive: "0 < w \<Longrightarrow> (\<Sum>i\<leftarrow>rev [0 ..< n]. calls_in rows d (s - int i * w - w) (s - int i * w)) = calls_in rows d (s - int n * w) s"
proof (induction n)
  case (Suc n)
  have "s - int (Suc n) * w \<le> s - int n * w" "s - int n * w \<le> s" using Suc.prems by (simp_all add: algebra_simps)
  from calls_split [OF this, of rows d] show ?case using Suc by (simp add: algebra_simps)
qed (simp add: calls_empty)

lemma window_floor: "0 < w \<Longrightarrow> t div w * w = k * w \<longleftrightarrow> k * w \<le> t \<and> t < k * w + (w :: int)"
proof
  assume w: "0 < w" and "t div w * w = k * w"
  then have "t div w = k" by simp
  then show "k * w \<le> t \<and> t < k * w + w" using w by (metis add.commute div_mult_mod_eq le_add_same_cancel1 pos_mod_bound pos_mod_sign add_strict_left_mono mult.commute)
next
  assume w: "0 < w" and t: "k * w \<le> t \<and> t < k * w + w"
  have "t div w = k" using w t by (intro int_div_pos_eq [where r = "t - k * w"]) (simp_all add: algebra_simps)
  then show "t div w * w = k * w" by simp
qed

lemma fold_window_map: "map_get (fold (\<lambda>w. map_set (wc_windowStart w) (wc_calls w)) (map (\<lambda>s. \<lparr>wc_windowStart = s, wc_calls = f s\<rparr>) ks) m) x =
    (if x \<in> set ks then Some (f x) else map_get m x)"
  by (induction ks arbitrary: m) (auto simp: jsmap)

lemma merged_count:
  assumes "0 < w" "from \<le> k * w" "k * w + w \<le> to"
  shows "(case map_get (fold (\<lambda>w. map_set (wc_windowStart w) (wc_calls w)) (fetchDeveloperWindowCounts rows d from to w) []) (k * w) of None \<Rightarrow> 0 | Some n \<Rightarrow> n) =
    calls_in rows d (k * w) (k * w + w)"
proof -
  let ?rows = "filter (\<lambda>r. ur_developer_id r = d \<and> from \<le> ur_created_at r \<and> ur_created_at r < to) rows"
  let ?starts = "map (\<lambda>r. ur_created_at r div w * w) ?rows"
  have "count_list ?starts (k * w) = length (filter (\<lambda>r. ur_created_at r div w * w = k * w) ?rows)"
    by (induction rows) auto
  also have "filter (\<lambda>r. ur_created_at r div w * w = k * w) ?rows = filter (\<lambda>r. ur_developer_id r = d \<and> k * w \<le> ur_created_at r \<and> ur_created_at r < k * w + w) rows"
    using assms window_floor [OF assms(1)] by (auto simp: filter_filter intro!: filter_cong)
  finally have c: "int (count_list ?starts (k * w)) = calls_in rows d (k * w) (k * w + w)" by (simp add: calls_in_def)
  moreover have "k * w \<notin> set ?starts \<Longrightarrow> count_list ?starts (k * w) = 0" by (simp add: count_notin)
  ultimately show ?thesis unfolding fetchDeveloperWindowCounts_def Let_def fold_window_map by auto
qed

definition finding_of :: "AnomalyDetectionConfig \<Rightarrow> millis \<Rightarrow> usage_row list \<Rightarrow> string \<Rightarrow> UsageAnomalyFinding" where
  "finding_of c now rows d = (let s = last_window c now; current = calls_in rows d s (s + ac_windowMs c);
       mean = of_int (calls_in rows d (s - ac_baselineWindows c * ac_windowMs c) s) / of_int (ac_baselineWindows c) in
     \<lparr>af_developerId = d, af_windowStart = s, af_currentCalls = current, af_baselineMean = round4 mean, af_multiplier = ac_multiplier c,
      af_ratio = (if mean = 0 then None else Some (round4 (of_int current / mean)))\<rparr>)"

definition expected_starts :: "AnomalyDetectionConfig \<Rightarrow> millis \<Rightarrow> millis list" where
  "expected_starts c now = map (\<lambda>i. last_window c now - int i * ac_windowMs c) (rev [0 ..< Suc (nat (ac_baselineWindows c))])"

lemma valid_config: "validateDetectionConfig c = Inr u \<longleftrightarrow> 0 < ac_multiplier c \<and> 0 < ac_baselineWindows c \<and> 0 < ac_windowMs c"
  by (auto simp: validateDetectionConfig_def)

lemma starts_last: "expected_starts c now = map (\<lambda>i. last_window c now - int i * ac_windowMs c) (rev [1 ..< Suc (nat (ac_baselineWindows c))]) @ [last_window c now]"
  by (simp add: expected_starts_def upt_conv_Cons [of 0 "Suc (nat (ac_baselineWindows c))"] del: upt_Suc)

lemma starts_sorted: "0 < ac_windowMs c \<Longrightarrow> sorted (expected_starts c now)"
proof -
  have "sorted (map (\<lambda>i. s - int i * w) (rev [0 ..< n]))" if "0 < w" for s w :: int and n
    using that by (induction n) (auto intro!: mult_right_mono)
  then show "0 < ac_windowMs c \<Longrightarrow> sorted (expected_starts c now)" unfolding expected_starts_def .
qed

lemma expected_windows:
  assumes "validateDetectionConfig c = Inr ()"
  shows "buildExpectedWindowStarts now c = Inr (expected_starts c now)"
    "hd (expected_starts c now) = last_window c now - ac_baselineWindows c * ac_windowMs c" "last (expected_starts c now) = last_window c now"
proof -
  have v: "validateDetectionConfig (c\<lparr>ac_multiplier := 1\<rparr>) = Inr ()" "0 < ac_windowMs c" "0 < ac_baselineWindows c" using assms by (auto simp: valid_config)
  then show "buildExpectedWindowStarts now c = Inr (expected_starts c now)"
    by (simp add: buildExpectedWindowStarts_def floorToWindowStart_def expected_starts_def last_window_def algebra_simps)
  show "hd (expected_starts c now) = last_window c now - ac_baselineWindows c * ac_windowMs c" using v by (simp add: expected_starts_def)
  show "last (expected_starts c now) = last_window c now" by (simp add: starts_last)
qed

lemma merged_windows:
  assumes "validateDetectionConfig c = Inr ()"
  shows "mergeWindowCounts (expected_starts c now)
      (fetchDeveloperWindowCounts rows d (hd (expected_starts c now)) (last (expected_starts c now) + ac_windowMs c) (ac_windowMs c)) =
    map (\<lambda>x. \<lparr>wc_windowStart = x, wc_calls = calls_in rows d x (x + ac_windowMs c)\<rparr>) (expected_starts c now)"
proof -
  let ?w = "ac_windowMs c" and ?q = "now div ac_windowMs c"
  have v: "0 < ?w" "0 < ac_baselineWindows c" using assms by (auto simp: valid_config)
  have "\<exists>k. x = k * ?w \<and> hd (expected_starts c now) \<le> k * ?w \<and> k * ?w + ?w \<le> last (expected_starts c now) + ?w" if "x \<in> set (expected_starts c now)" for x
  proof -
    from that obtain i where i: "x = last_window c now - int i * ?w" "i < Suc (nat (ac_baselineWindows c))"
      unfolding expected_starts_def set_map set_rev set_upt by (metis (no_types, lifting) imageE atLeastLessThan_iff)
    have "x = (?q - 1 - int i) * ?w" using i by (simp add: last_window_def algebra_simps)
    moreover have "int i * ?w \<le> ac_baselineWindows c * ?w" using i v by (intro mult_right_mono) auto
    moreover have "0 \<le> int i * ?w" using v by simp
    ultimately show ?thesis using i unfolding expected_windows [OF assms] by (intro exI [of _ "?q - 1 - int i"]) auto
  qed
  then show ?thesis unfolding mergeWindowCounts_def Let_def using merged_count [OF v(1)] by (fastforce intro!: map_cong)
qed

lemma detect_exact:
  assumes "validateDetectionConfig c = Inr ()"
  shows "detectDeveloperAnomaly d (mergeWindowCounts (expected_starts c now)
      (fetchDeveloperWindowCounts rows d (hd (expected_starts c now)) (last (expected_starts c now) + ac_windowMs c) (ac_windowMs c))) c =
    Inr (if unusual c now rows d then Some (finding_of c now rows d) else None)"
proof -
  let ?w = "ac_windowMs c" and ?n = "nat (ac_baselineWindows c)" and ?s = "last_window c now"
  let ?f = "\<lambda>x. \<lparr>wc_windowStart = x, wc_calls = calls_in rows d x (x + ?w)\<rparr>"
  let ?ws = "map ?f (expected_starts c now)"
  have v: "0 < ac_multiplier c" "0 < ac_baselineWindows c" "0 < ?w" using assms by (auto simp: valid_config)
  note e = starts_last [of c now]
  have st: "sort_key wc_windowStart ?ws = ?ws" using starts_sorted [OF v(3), of now] by (intro sort_key_id_if_sorted) (simp add: o_def)
  have base: "sum_list (map wc_calls (take ?n ?ws)) = calls_in rows d (?s - ac_baselineWindows c * ?w) ?s"
  proof -
    have "map wc_calls (take ?n ?ws) = map (\<lambda>i. calls_in rows d (?s - int i * ?w - ?w) (?s - int i * ?w)) (rev [0 ..< ?n])"
      unfolding e by (simp add: rev_map [symmetric] map_Suc_upt [symmetric] o_def algebra_simps del: upt_Suc)
    then show ?thesis using calls_consecutive [OF v(3), of rows d ?s ?n] v by simp
  qed
  have l: "length ?ws = Suc ?n" "last ?ws = ?f ?s" unfolding e by simp_all
  have mean: "computeBaselineMean (map wc_calls (take ?n ?ws)) = of_int (calls_in rows d (?s - ac_baselineWindows c * ?w) ?s) / of_int (ac_baselineWindows c)"
    using l v base by (auto simp: computeBaselineMean_def min_def of_nat_nat)
  show ?thesis unfolding merged_windows [OF assms] detectDeveloperAnomaly_def assms Let_def st mean l(2)
    using v l(1) calls_nonneg [of rows d ?s "?s + ?w"]
    by (auto simp: isAnomalousTraffic_def validateDetectionConfig_def unusual_def finding_of_def Let_def field_simps of_nat_nat split: bool.splits)
qed

section \<open>Scans\<close>

definition live :: "anomaly_dedup \<Rightarrow> string \<Rightarrow> millis \<Rightarrow> bool" where
  "live m k t = (case map_get m k of None \<Rightarrow> False | Some e \<Rightarrow> t \<le> e)"

definition detected :: "AnomalyDetectionConfig \<Rightarrow> scan_input \<Rightarrow> string \<Rightarrow> bool" where
  "detected c i d \<longleftrightarrow> \<not> sc_count_fails i d \<and> unusual c (sc_now i) (sc_rows i d) d"

definition scan_key :: "AnomalyDetectionConfig \<Rightarrow> scan_input \<Rightarrow> string \<Rightarrow> string" where
  "scan_key c i d = anomalyDedupKey d (last_window c (sc_now i))"

definition reported :: "AnomalyDetectionConfig \<Rightarrow> scan_input \<Rightarrow> anomaly_dedup \<Rightarrow> string \<Rightarrow> bool" where
  "reported c i m d \<longleftrightarrow> detected c i d \<and> \<not> live m (scan_key c i d) (sc_clock i d)"

lemma scan_one:
  assumes "validateDetectionConfig c = Inr ()"
  shows "\<exists>m'. scan_developer c dw i (expected_starts c (sc_now i)) d r m =
      Inr (r\<lparr>sr_anomaliesDetected := sr_anomaliesDetected r + (if detected c i d then 1 else 0),
             sr_emitted := sr_emitted r @ (if reported c i m d then [finding_of c (sc_now i) (sc_rows i d) d] else [])\<rparr>, m') \<and>
    (\<forall>k. map_get m' k = (if k = scan_key c i d \<and> reported c i m d then Some (sc_clock i d + dw) else map_get m k))"
proof -
  have k: "anomalyDedupKey d (af_windowStart (finding_of c (sc_now i) (sc_rows i d) d)) = scan_key c i d" by (simp add: finding_of_def scan_key_def Let_def)
  show ?thesis
  proof (cases "detected c i d")
    case True
    then have "\<not> sc_count_fails i d" "unusual c (sc_now i) (sc_rows i d) d" by (simp_all add: detected_def)
    with True show ?thesis
      by (auto simp: scan_developer_def detect_exact [OF assms] k reported_def live_def anomaly_has_def anomaly_set_def jsmap Let_def split: option.splits)
  next
    case False
    then show ?thesis by (auto simp: scan_developer_def detect_exact [OF assms] detected_def reported_def)
  qed
qed

lemma key_inj: "scan_key c i d = scan_key c i d' \<longleftrightarrow> d = d'"
  by (simp add: scan_key_def anomalyDedupKey_def)

lemma scan_many:
  assumes "validateDetectionConfig c = Inr ()" "distinct ds"
  shows "\<exists>m'. scan_developers c dw i (expected_starts c (sc_now i)) ds r m =
      Inr (r\<lparr>sr_anomaliesDetected := sr_anomaliesDetected r + length (filter (detected c i) ds),
             sr_emitted := sr_emitted r @ map (\<lambda>d. finding_of c (sc_now i) (sc_rows i d) d) (filter (reported c i m) ds)\<rparr>, m') \<and>
    (\<forall>d \<in> set ds. reported c i m d \<longrightarrow> map_get m' (scan_key c i d) = Some (sc_clock i d + dw)) \<and>
    (\<forall>k. k \<notin> scan_key c i ` set (filter (reported c i m) ds) \<longrightarrow> map_get m' k = map_get m k)"
  using assms(2)
proof (induction ds arbitrary: r m)
  case (Cons d ds)
  let ?r = "r\<lparr>sr_anomaliesDetected := sr_anomaliesDetected r + (if detected c i d then 1 else 0),
      sr_emitted := sr_emitted r @ (if reported c i m d then [finding_of c (sc_now i) (sc_rows i d) d] else [])\<rparr>"
  obtain m1 where m1: "scan_developer c dw i (expected_starts c (sc_now i)) d r m = Inr (?r, m1)"
    "\<And>k. map_get m1 k = (if k = scan_key c i d \<and> reported c i m d then Some (sc_clock i d + dw) else map_get m k)"
    using scan_one [OF assms(1)] by metis
  have d: "d \<notin> set ds" "distinct ds" using Cons.prems by simp_all
  have same: "reported c i m1 x = reported c i m x" if "x \<in> set ds" for x
    using that d m1(2) [of "scan_key c i x"] by (auto simp: reported_def live_def key_inj)
  then have fs: "filter (reported c i m1) ds = filter (reported c i m) ds" by (intro filter_cong) simp_all
  obtain m2 where m2: "scan_developers c dw i (expected_starts c (sc_now i)) ds ?r m1 =
      Inr (?r\<lparr>sr_anomaliesDetected := sr_anomaliesDetected ?r + length (filter (detected c i) ds),
             sr_emitted := sr_emitted ?r @ map (\<lambda>d. finding_of c (sc_now i) (sc_rows i d) d) (filter (reported c i m) ds)\<rparr>, m2)"
    "\<And>x. x \<in> set ds \<Longrightarrow> reported c i m1 x \<Longrightarrow> map_get m2 (scan_key c i x) = Some (sc_clock i x + dw)"
    "\<And>k. k \<notin> scan_key c i ` set (filter (reported c i m) ds) \<Longrightarrow> map_get m2 k = map_get m1 k"
    using Cons.IH [OF d(2), of ?r m1] unfolding fs by auto
  have "scan_key c i d \<notin> scan_key c i ` set (filter (reported c i m) ds)" using d by (auto simp: key_inj)
  then have "map_get m2 (scan_key c i d) = map_get m1 (scan_key c i d)" by (rule m2(3))
  then have got: "\<forall>x \<in> set (d # ds). reported c i m x \<longrightarrow> map_get m2 (scan_key c i x) = Some (sc_clock i x + dw)"
    using m1(2) m2(2) same by auto
  have rest: "map_get m2 k = map_get m k" if "k \<notin> scan_key c i ` set (filter (reported c i m) (d # ds))" for k
  proof -
    have "k \<notin> scan_key c i ` set (filter (reported c i m) ds)" "\<not> (k = scan_key c i d \<and> reported c i m d)" using that by auto
    then show ?thesis using m1(2) [of k] m2(3) [of k] by auto
  qed
  show ?case using m1(1) m2(1) got rest by (intro exI [of _ m2]) auto
qed simp

lemma scan_result:
  assumes "validateDetectionConfig c = Inr ()" "\<not> sc_list_fails i"
  shows "\<exists>m'. (let ds = fetchActiveDeveloperIds (sc_listed i) (last_window c (sc_now i) - ac_baselineWindows c * ac_windowMs c) in
      runAnomalyScan c dw i m = Inr (\<lparr>sr_developersScanned = length ds, sr_anomaliesDetected = length (filter (detected c i) ds),
         sr_emitted = map (\<lambda>d. finding_of c (sc_now i) (sc_rows i d) d) (filter (reported c i m) ds)\<rparr>, m') \<and>
      (\<forall>d \<in> set ds. reported c i m d \<longrightarrow> map_get m' (scan_key c i d) = Some (sc_clock i d + dw)) \<and>
      (\<forall>k. k \<notin> scan_key c i ` set (filter (reported c i m) ds) \<longrightarrow> map_get m' k = map_get m k))"
proof -
  let ?ds = "fetchActiveDeveloperIds (sc_listed i) (last_window c (sc_now i) - ac_baselineWindows c * ac_windowMs c)"
  have "distinct ?ds" by (simp add: fetchActiveDeveloperIds_def)
  from scan_many [OF assms(1) this, of dw i "\<lparr>sr_developersScanned = length ?ds, sr_anomaliesDetected = 0, sr_emitted = []\<rparr>" m]
  show ?thesis using assms by (auto simp: runAnomalyScan_def expected_windows Let_def)
qed

text \<open>A scan reports exactly the developers with unusual traffic. With a valid configuration, the developers it emits an event for are those with usage since
  the oldest window whose counts could be read, whose calls in the last complete window exceed the mean of the windows before it times the
  multiplier (any call, when there were none before), and whose window is not remembered as emitted; each once, with the number of
  calls in that window.\<close>

theorem anomaly_scan_exact:
  assumes "validateDetectionConfig c = Inr ()" "\<not> sc_list_fails i"
  shows "\<exists>r m'. runAnomalyScan c dw i m = Inr (r, m') \<and> distinct (map af_developerId (sr_emitted r)) \<and>
    (\<forall>d. d \<in> af_developerId ` set (sr_emitted r) \<longleftrightarrow>
      (let s = (sc_now i div ac_windowMs c - 1) * ac_windowMs c; n = ac_baselineWindows c; current = calls_in (sc_rows i d) d s (s + ac_windowMs c);
           base = calls_in (sc_rows i d) d (s - n * ac_windowMs c) s in
       d \<noteq> [] \<and> (\<exists>x \<in> set (sc_listed i). ur_developer_id x = d \<and> s - n * ac_windowMs c \<le> ur_created_at x) \<and> \<not> sc_count_fails i d \<and>
       (if base = 0 then 0 < current else of_int current > of_int base / of_int n * ac_multiplier c) \<and>
       \<not> live m (anomalyDedupKey d s) (sc_clock i d))) \<and>
    (\<forall>f \<in> set (sr_emitted r). af_windowStart f = (sc_now i div ac_windowMs c - 1) * ac_windowMs c \<and>
       af_currentCalls f = calls_in (sc_rows i (af_developerId f)) (af_developerId f) (af_windowStart f) (af_windowStart f + ac_windowMs c))"
proof -
  let ?s = "last_window c (sc_now i)" and ?n = "ac_baselineWindows c"
  let ?ds = "fetchActiveDeveloperIds (sc_listed i) (?s - ?n * ac_windowMs c)"
  have n: "0 < ?n" using assms(1) by (simp add: valid_config)
  obtain m' where r: "runAnomalyScan c dw i m = Inr (\<lparr>sr_developersScanned = length ?ds, sr_anomaliesDetected = length (filter (detected c i) ?ds),
         sr_emitted = map (\<lambda>d. finding_of c (sc_now i) (sc_rows i d) d) (filter (reported c i m) ?ds)\<rparr>, m')"
    using scan_result [OF assms, of dw m] by (auto simp: Let_def)
  have ids: "map af_developerId (map (\<lambda>d. finding_of c (sc_now i) (sc_rows i d) d) xs) = xs" for xs
    by (simp add: o_def finding_of_def Let_def)
  have active: "d \<in> set ?ds \<longleftrightarrow> d \<noteq> [] \<and> (\<exists>x \<in> set (sc_listed i). ur_developer_id x = d \<and> ?s - ?n * ac_windowMs c \<le> ur_created_at x)" for d
    by (auto simp: fetchActiveDeveloperIds_def)
  have un: "unusual c (sc_now i) rows d \<longleftrightarrow> (let current = calls_in rows d ?s (?s + ac_windowMs c); base = calls_in rows d (?s - ?n * ac_windowMs c) ?s in
      if base = 0 then 0 < current else of_int current > of_int base / of_int ?n * ac_multiplier c)" for rows d
    using n by (simp add: unusual_def Let_def field_simps)
  let ?fs = "map (\<lambda>d. finding_of c (sc_now i) (sc_rows i d) d) (filter (reported c i m) ?ds)"
  have set: "d \<in> af_developerId ` set ?fs \<longleftrightarrow> d \<in> set ?ds \<and> reported c i m d" for d
    using arg_cong [OF ids [of "filter (reported c i m) ?ds"], of set] by (metis (no_types, lifting) filter_set set_map mem_Collect_eq set_filter)
  have dist: "distinct (map af_developerId ?fs)" unfolding ids by (simp add: fetchActiveDeveloperIds_def)
  have rep: "d \<in> af_developerId ` set ?fs \<longleftrightarrow>
      (let s = ?s; n = ?n; current = calls_in (sc_rows i d) d s (s + ac_windowMs c); base = calls_in (sc_rows i d) d (s - n * ac_windowMs c) s in
       d \<noteq> [] \<and> (\<exists>x \<in> set (sc_listed i). ur_developer_id x = d \<and> s - n * ac_windowMs c \<le> ur_created_at x) \<and> \<not> sc_count_fails i d \<and>
       (if base = 0 then 0 < current else of_int current > of_int base / of_int n * ac_multiplier c) \<and>
       \<not> live m (anomalyDedupKey d s) (sc_clock i d))" for d
    unfolding set active reported_def detected_def scan_key_def un Let_def by blast
  have each: "af_windowStart f = ?s \<and> af_currentCalls f = calls_in (sc_rows i (af_developerId f)) (af_developerId f) (af_windowStart f) (af_windowStart f + ac_windowMs c)"
    if "f \<in> set ?fs" for f using that by (auto simp: finding_of_def Let_def)
  let ?r = "\<lparr>sr_developersScanned = length ?ds, sr_anomaliesDetected = length (filter (detected c i) ?ds), sr_emitted = ?fs\<rparr>"
  have e: "sr_emitted ?r = ?fs" by simp
  show ?thesis unfolding last_window_def [symmetric]
  proof (intro exI conjI)
    show "runAnomalyScan c dw i m = Inr (?r, m')" by (rule r)
  qed (unfold e, rule dist, rule allI, rule rep, rule ballI, rule each)
qed

fun scans :: "AnomalyDetectionConfig \<Rightarrow> int \<Rightarrow> scan_input list \<Rightarrow> anomaly_dedup \<Rightarrow> (string \<times> millis) list" where
  "scans c dw [] m = []"
| "scans c dw (i # is) m = (case runAnomalyScan c dw i m of Inl e \<Rightarrow> scans c dw is m
     | Inr (r, m') \<Rightarrow> map (\<lambda>f. (af_developerId f, af_windowStart f)) (sr_emitted r) @ scans c dw is m')"

text \<open>Scans follow each other, and each consults the memory within \<open>lag\<close> milliseconds.\<close>

definition timely :: "int \<Rightarrow> scan_input list \<Rightarrow> bool" where
  "timely lag is \<longleftrightarrow> (\<forall>i \<in> set is. \<forall>d. sc_now i \<le> sc_clock i d \<and> sc_clock i d \<le> sc_now i + lag) \<and>
     sorted_wrt (\<lambda>i j. \<forall>d. sc_clock i d \<le> sc_now j) is"

lemma window_time:
  assumes "0 < ac_windowMs c"
  shows "last_window c now + ac_windowMs c \<le> now" "now < last_window c now + 2 * ac_windowMs c"
proof -
  have "now div ac_windowMs c * ac_windowMs c \<le> now" "now < now div ac_windowMs c * ac_windowMs c + ac_windowMs c"
    using window_floor [OF assms, of now "now div ac_windowMs c"] by simp_all
  then show "last_window c now + ac_windowMs c \<le> now" "now < last_window c now + 2 * ac_windowMs c" by (simp_all add: last_window_def algebra_simps)
qed

text \<open>What the memory holds of the windows already emitted, while the scans to come start after them.\<close>

definition remembered_windows :: "AnomalyDetectionConfig \<Rightarrow> int \<Rightarrow> (string \<times> millis) set \<Rightarrow> anomaly_dedup \<Rightarrow> scan_input list \<Rightarrow> bool" where
  "remembered_windows c dw P m is \<longleftrightarrow> (\<forall>(d, s) \<in> P. (\<exists>e. map_get m (anomalyDedupKey d s) = Some e \<and> s + ac_windowMs c + dw \<le> e) \<and>
     (\<forall>i \<in> set is. s + ac_windowMs c \<le> sc_now i))"

lemma remembered_step:
  assumes r: "remembered_windows c dw P m (i # is)" and w: "0 < ac_windowMs c"
    and clock: "\<And>d. sc_now i \<le> sc_clock i d" "\<And>j d. j \<in> set is \<Longrightarrow> sc_clock i d \<le> sc_now j"
    and new: "\<And>d. d \<in> D \<Longrightarrow> map_get m' (scan_key c i d) = Some (sc_clock i d + dw)"
    and old: "\<And>k. k \<notin> scan_key c i ` D \<Longrightarrow> map_get m' k = map_get m k"
  shows "remembered_windows c dw ((\<lambda>d. (d, last_window c (sc_now i))) ` D \<union> P) m' is"
proof -
  let ?w = "ac_windowMs c" and ?s = "last_window c (sc_now i)"
  have a: "(\<exists>e. map_get m' (anomalyDedupKey d ?s) = Some e \<and> ?s + ?w + dw \<le> e) \<and> (\<forall>j \<in> set is. ?s + ?w \<le> sc_now j)" if "d \<in> D" for d
    using new [OF that] window_time(1) [OF w, of "sc_now i"] clock(1) [of d] clock(2) [of _ d] by (fastforce simp: scan_key_def)
  have b: "(\<exists>e. map_get m' (anomalyDedupKey d s) = Some e \<and> s + ?w + dw \<le> e) \<and> (\<forall>j \<in> set is. s + ?w \<le> sc_now j)" if "(d, s) \<in> P" for d s
  proof -
    have p: "\<exists>e. map_get m (anomalyDedupKey d s) = Some e \<and> s + ?w + dw \<le> e" "s + ?w \<le> sc_now i" "\<forall>j \<in> set is. s + ?w \<le> sc_now j"
      using r that by (auto simp: remembered_windows_def)
    show ?thesis
    proof (cases "anomalyDedupKey d s \<in> scan_key c i ` D")
      case True
      then obtain x where x: "x \<in> D" "anomalyDedupKey d s = scan_key c i x" by blast
      then show ?thesis using new [OF x(1)] p(2,3) clock(1) [of x] by auto
    qed (use old p in auto)
  qed
  show ?thesis using a b by (auto simp: remembered_windows_def)
qed

lemma scans_distinct:
  assumes "validateDetectionConfig c = Inr ()" "ac_windowMs c + lag \<le> dw + 1"
  shows "timely lag is \<Longrightarrow> remembered_windows c dw P m is \<Longrightarrow> distinct (scans c dw is m) \<and> set (scans c dw is m) \<inter> P = {}"
proof (induction "is" arbitrary: m P)
  case (Cons i "is")
  let ?s = "last_window c (sc_now i)"
  have w: "0 < ac_windowMs c" using assms(1) by (simp add: valid_config)
  have tl: "timely lag is" and now: "\<And>d. sc_now i \<le> sc_clock i d" "\<And>d. sc_clock i d \<le> sc_now i + lag"
    and later: "\<And>j d. j \<in> set is \<Longrightarrow> sc_clock i d \<le> sc_now j" using Cons.prems(1) by (auto simp: timely_def)
  show ?case
  proof (cases "sc_list_fails i")
    case True
    then have "runAnomalyScan c dw i m = Inr (\<lparr>sr_developersScanned = 0, sr_anomaliesDetected = 0, sr_emitted = []\<rparr>, m)"
      by (simp add: runAnomalyScan_def assms(1) expected_windows)
    moreover have "remembered_windows c dw P m is" using Cons.prems(2) by (auto simp: remembered_windows_def)
    ultimately show ?thesis using Cons.IH [OF tl] by simp
  next
    case False
    define ds where "ds = filter (reported c i m) (fetchActiveDeveloperIds (sc_listed i) (?s - ac_baselineWindows c * ac_windowMs c))"
    obtain m' n k where run: "runAnomalyScan c dw i m = Inr (\<lparr>sr_developersScanned = n, sr_anomaliesDetected = k,
         sr_emitted = map (\<lambda>d. finding_of c (sc_now i) (sc_rows i d) d) ds\<rparr>, m')"
      and new: "\<And>d. d \<in> set ds \<Longrightarrow> map_get m' (scan_key c i d) = Some (sc_clock i d + dw)"
      and old: "\<And>k. k \<notin> scan_key c i ` set ds \<Longrightarrow> map_get m' k = map_get m k"
      using scan_result [OF assms(1) False, of dw m] unfolding Let_def ds_def by fastforce
    have step: "scans c dw (i # is) m = map (\<lambda>d. (d, ?s)) ds @ scans c dw is m'" by (simp add: run o_def finding_of_def Let_def)
    have fresh: "(d, ?s) \<notin> P" if "d \<in> set ds" for d
    proof
      assume "(d, ?s) \<in> P"
      then obtain e where e: "map_get m (scan_key c i d) = Some e" "?s + ac_windowMs c + dw \<le> e"
        using Cons.prems(2) by (auto simp: remembered_windows_def scan_key_def)
      have "sc_clock i d \<le> e" using now(2) [of d] window_time(2) [OF w, of "sc_now i"] e(2) assms(2) by linarith
      then show False using that e(1) by (auto simp: ds_def reported_def live_def)
    qed
    note rem = remembered_step [OF Cons.prems(2) w now(1) later new old]
    have "distinct (map (\<lambda>d. (d, ?s)) ds)" by (simp add: distinct_map inj_on_def ds_def fetchActiveDeveloperIds_def)
    then show ?thesis using Cons.IH [OF tl rem] fresh unfolding step by auto
  qed
qed simp

text \<open>An unusual window is reported once. Over any number of scans that follow each other, with any table, failing queries and any number of scans per
  window, no event is emitted twice for the same developer and window, provided the memory lasts as long as a window and a scan
  does not straddle its end.\<close>

theorem anomaly_reported_once:
  assumes "validateDetectionConfig c = Inr ()" "timely lag is" "ac_windowMs c + lag \<le> dw + 1"
  shows "distinct (scans c dw is [])"
  using scans_distinct [OF assms(1,3,2), of "{}" "[]"] by (simp add: remembered_windows_def)

section \<open>Unusual days of an API\<close>

record DailyUsagePoint =
  dp_apiId :: string
  dp_day :: string
  dp_calls :: int
  dp_revenue :: string

datatype AnomalyType = Spike | Drop

record UsageAnomaly =
  ua_apiId :: string
  ua_day :: string
  ua_type :: AnomalyType
  ua_calls :: int
  ua_revenue :: string
  ua_baselineMean :: real
  ua_stdDev :: real
  ua_zScore :: real

record DetectOptions =
  do_threshold :: real
  do_minDataPoints :: nat
  do_limit :: nat

definition round4_real :: "real \<Rightarrow> real" where
  "round4_real x = of_int \<lfloor>x * 10000 + 1 / 2\<rfloor> / 10000"

definition group_by_api :: "DailyUsagePoint list \<Rightarrow> (string, DailyUsagePoint list) js_map" where
  "group_by_api series = fold (\<lambda>p m. map_set (dp_apiId p) ((case map_get m (dp_apiId p) of None \<Rightarrow> [] | Some b \<Rightarrow> b) @ [p]) m) series []"

definition mean_of :: "real list \<Rightarrow> real" where
  "mean_of xs = sum_list xs / length xs"

definition variance_of :: "real list \<Rightarrow> real" where
  "variance_of xs = sum_list (map (\<lambda>x. (x - mean_of xs)\<^sup>2) xs) / length xs"

definition counts_of :: "DailyUsagePoint list \<Rightarrow> real list" where
  "counts_of ps = map (\<lambda>p. of_int (dp_calls p)) ps"

definition zScore :: "DailyUsagePoint list \<Rightarrow> DailyUsagePoint \<Rightarrow> real" where
  "zScore ps p = (of_int (dp_calls p) - mean_of (counts_of ps)) / sqrt (variance_of (counts_of ps))"

definition score_series :: "DetectOptions \<Rightarrow> DailyUsagePoint list \<Rightarrow> UsageAnomaly list" where
  "score_series opts ps = (if length ps < do_minDataPoints opts \<or> sqrt (variance_of (counts_of ps)) = 0 then []
     else map (\<lambda>p. \<lparr>ua_apiId = dp_apiId p, ua_day = dp_day p, ua_type = (if zScore ps p > 0 then Spike else Drop), ua_calls = dp_calls p,
         ua_revenue = dp_revenue p, ua_baselineMean = round4_real (mean_of (counts_of ps)), ua_stdDev = round4_real (sqrt (variance_of (counts_of ps))),
         ua_zScore = round4_real (zScore ps p)\<rparr>)
       (filter (\<lambda>p. \<not> \<bar>zScore ps p\<bar> < do_threshold opts) ps))"

definition detectUsageAnomalies :: "DailyUsagePoint list \<Rightarrow> DetectOptions \<Rightarrow> UsageAnomaly list \<times> nat" where
  "detectUsageAnomalies series opts = (let groups = map_values (group_by_api series) in
     (take (do_limit opts) (sort_key (\<lambda>a. - \<bar>ua_zScore a\<bar>) (concat (map (score_series opts) groups))),
      length (filter (\<lambda>ps. \<not> length ps < do_minDataPoints opts) groups)))"

record DetectedSpike =
  ds_apiId :: string
  ds_day :: string
  ds_calls :: int
  ds_revenue :: string
  ds_baselineMean :: real
  ds_stdDev :: real
  ds_zScore :: real
  ds_percentageChange :: real

definition spike_series :: "DetectOptions \<Rightarrow> DailyUsagePoint list \<Rightarrow> DetectedSpike list" where
  "spike_series opts ps = (let mean = mean_of (counts_of ps) in if length ps < do_minDataPoints opts \<or> sqrt (variance_of (counts_of ps)) = 0 then []
     else map (\<lambda>p. \<lparr>ds_apiId = dp_apiId p, ds_day = dp_day p, ds_calls = dp_calls p, ds_revenue = dp_revenue p, ds_baselineMean = round4_real mean,
         ds_stdDev = round4_real (sqrt (variance_of (counts_of ps))), ds_zScore = round4_real (zScore ps p),
         ds_percentageChange = (if mean = 0 then 0 else round4_real ((of_int (dp_calls p) - mean) / mean * 100))\<rparr>)
       (filter (\<lambda>p. \<not> zScore ps p < do_threshold opts) ps))"

definition detectSpikes :: "DailyUsagePoint list \<Rightarrow> DetectOptions \<Rightarrow> DetectedSpike list \<times> nat" where
  "detectSpikes series opts = (let groups = map_values (group_by_api series) in
     (take (do_limit opts) (sort_key (\<lambda>a. - \<bar>ds_zScore a\<bar>) (concat (map (spike_series opts) groups))),
      length (filter (\<lambda>ps. \<not> length ps < do_minDataPoints opts) groups)))"

text \<open>The query of the routes: events of the window grouped by API and day, ordered by API and day. The order of the API ids is the collation of the
  database, a parameter.\<close>

definition daily_usage :: "(string list \<Rightarrow> string list) \<Rightarrow> nat \<Rightarrow> usage_row list \<Rightarrow> millis \<Rightarrow> millis \<Rightarrow> string option \<Rightarrow> DailyUsagePoint list" where
  "daily_usage collate scale rows from to api =
    (let rs = filter (\<lambda>r. from \<le> ur_created_at r \<and> ur_created_at r \<le> to \<and> (case api of None \<Rightarrow> True | Some a \<Rightarrow> ur_api_id r = a)) rows in
     concat (map (\<lambda>a. let as = filter (\<lambda>r. ur_api_id r = a) rs in
         map (\<lambda>d. let g = filter (\<lambda>r. day_of (ur_created_at r) = d) as in
             \<lparr>dp_apiId = a, dp_day = iso_day d, dp_calls = int (length g), dp_revenue = numeric_text scale (sum_list (map ur_amount g))\<rparr>)
           (sort (remdups (map (\<lambda>r. day_of (ur_created_at r)) as))))
       (collate (remdups (map ur_api_id rs)))))"

text \<open>A query parameter is missing, given once or repeated. \<open>Date\<close> and \<open>Number\<close> read a text as a date and a finite number.\<close>

datatype query_field = Missing | Single string | Repeated

record report_query =
  rq_from :: query_field
  rq_to :: query_field
  rq_threshold :: query_field
  rq_limit :: query_field
  rq_apiId :: query_field

record parsed_query =
  pq_from :: "millis option"
  pq_to :: "millis option"
  pq_threshold :: "rat option"
  pq_limit :: "rat option"
  pq_apiId :: "string option"

definition optional_field :: "(string \<Rightarrow> 'a option) \<Rightarrow> query_field \<Rightarrow> 'a option option" where
  "optional_field f q = (case q of Missing \<Rightarrow> Some None | Repeated \<Rightarrow> None | Single v \<Rightarrow> map_option Some (f v))"

definition in_range :: "(string \<Rightarrow> rat option) \<Rightarrow> rat \<Rightarrow> rat \<Rightarrow> bool \<Rightarrow> string \<Rightarrow> rat option" where
  "in_range toNumber lo hi whole v = (case toNumber v of None \<Rightarrow> None
     | Some n \<Rightarrow> if (whole \<longrightarrow> of_int \<lfloor>n\<rfloor> = n) \<and> lo \<le> n \<and> n \<le> hi then Some n else None)"

definition usageAnomaliesQuerySchema :: "(string \<Rightarrow> millis option) \<Rightarrow> (string \<Rightarrow> rat option) \<Rightarrow> report_query \<Rightarrow> parsed_query option" where
  "usageAnomaliesQuerySchema toDate toNumber q =
    (case (optional_field toDate (rq_from q), optional_field toDate (rq_to q), optional_field (in_range toNumber 1 10 False) (rq_threshold q),
           optional_field (in_range toNumber 1 1000 True) (rq_limit q), optional_field (\<lambda>v. if trim v = [] then None else Some (trim v)) (rq_apiId q)) of
       (Some f, Some t, Some h, Some l, Some a) \<Rightarrow> Some \<lparr>pq_from = f, pq_to = t, pq_threshold = h, pq_limit = l, pq_apiId = a\<rparr>
     | _ \<Rightarrow> None)"

definition DEFAULT_REPORT_WINDOW_MS :: int where
  "DEFAULT_REPORT_WINDOW_MS = 30 * 24 * 60 * 60 * 1000"

definition MIN_DATA_POINTS :: nat where
  "MIN_DATA_POINTS = 3"

datatype report_pool = NoPool | FailingPool | Pool "usage_row list"

text \<open>Window, threshold and limit of a report, and its daily series, or the error.\<close>

definition report_series :: "(string list \<Rightarrow> string list) \<Rightarrow> nat \<Rightarrow> millis \<Rightarrow> parsed_query \<Rightarrow> report_pool \<Rightarrow> (DailyUsagePoint list \<times> DetectOptions) result" where
  "report_series collate scale now p pool =
    (let from = (case pq_from p of Some t \<Rightarrow> t | None \<Rightarrow> now - DEFAULT_REPORT_WINDOW_MS); to = (case pq_to p of Some t \<Rightarrow> t | None \<Rightarrow> now) in
     if from > to then Inl (BadRequestError ''from must be before or equal to to'' ''BAD_REQUEST'')
     else (case pool of NoPool \<Rightarrow> Inl (InternalServerError ''Database pool not available'' ''INTERNAL_SERVER_ERROR'')
       | FailingPool \<Rightarrow> Inl (InternalServerError ''Internal server error'' ''INTERNAL_SERVER_ERROR'')
       | Pool rows \<Rightarrow> Inr (daily_usage collate scale rows from to (pq_apiId p),
           \<lparr>do_threshold = of_rat (case pq_threshold p of Some h \<Rightarrow> h | None \<Rightarrow> 3), do_minDataPoints = MIN_DATA_POINTS,
            do_limit = nat \<lfloor>case pq_limit p of Some l \<Rightarrow> l | None \<Rightarrow> 100\<rfloor>\<rparr>)))"

definition anomalies_route :: "(string \<Rightarrow> millis option) \<Rightarrow> (string \<Rightarrow> rat option) \<Rightarrow> (string list \<Rightarrow> string list) \<Rightarrow> nat \<Rightarrow> millis \<Rightarrow> report_query \<Rightarrow> report_pool \<Rightarrow>
    (UsageAnomaly list \<times> nat) result" where
  "anomalies_route toDate toNumber collate scale now q pool =
    (case usageAnomaliesQuerySchema toDate toNumber q of None \<Rightarrow> Inl (BadRequestError ''Request validation failed'' ''VALIDATION_ERROR'')
     | Some p \<Rightarrow> (case report_series collate scale now p pool of Inl e \<Rightarrow> Inl e | Inr (series, opts) \<Rightarrow> Inr (detectUsageAnomalies series opts)))"

definition spike_route :: "(string \<Rightarrow> millis option) \<Rightarrow> (string \<Rightarrow> rat option) \<Rightarrow> (string list \<Rightarrow> string list) \<Rightarrow> nat \<Rightarrow> millis \<Rightarrow> report_query \<Rightarrow> report_pool \<Rightarrow>
    (DetectedSpike list \<times> nat) result" where
  "spike_route toDate toNumber collate scale now q pool =
    (case usageAnomaliesQuerySchema toDate toNumber q of None \<Rightarrow> Inl (BadRequestError ''Request validation failed'' ''VALIDATION_ERROR'')
     | Some p \<Rightarrow> (case report_series collate scale now p pool of Inl e \<Rightarrow> Inl e | Inr (series, opts) \<Rightarrow> Inr (detectSpikes series opts)))"

text \<open>The older route reads its parameters by hand and names the first wrong one.\<close>

definition spike_detector_query :: "(string \<Rightarrow> millis option) \<Rightarrow> (string \<Rightarrow> rat option) \<Rightarrow> report_query \<Rightarrow> parsed_query result" where
  "spike_detector_query toDate toNumber q =
    (let bad = (\<lambda>m. Inl (BadRequestError m ''BAD_REQUEST'')) in
     case optional_field toDate (rq_from q) of None \<Rightarrow> bad (''Invalid '' @ [CHR 0x22] @ ''from'' @ [CHR 0x22] @ '' date'') | Some f \<Rightarrow>
     (case optional_field toDate (rq_to q) of None \<Rightarrow> bad (''Invalid '' @ [CHR 0x22] @ ''to'' @ [CHR 0x22] @ '' date'') | Some t \<Rightarrow>
     (case optional_field (in_range toNumber 1 10 False) (rq_threshold q) of None \<Rightarrow> bad ''threshold must be a number between 1 and 10'' | Some h \<Rightarrow>
     (case optional_field (in_range toNumber 1 1000 True) (rq_limit q) of None \<Rightarrow> bad ''limit must be an integer between 1 and 1000'' | Some l \<Rightarrow>
     (case rq_apiId q of Repeated \<Rightarrow> bad ''apiId must be a single string value''
      | a \<Rightarrow> Inr \<lparr>pq_from = f, pq_to = t, pq_threshold = h, pq_limit = l, pq_apiId = (case a of Single v \<Rightarrow> if v = [] then None else Some v | _ \<Rightarrow> None)\<rparr>)))))"

definition spike_detector_route :: "(string \<Rightarrow> millis option) \<Rightarrow> (string \<Rightarrow> rat option) \<Rightarrow> (string list \<Rightarrow> string list) \<Rightarrow> nat \<Rightarrow> millis \<Rightarrow> report_query \<Rightarrow> report_pool \<Rightarrow>
    (DetectedSpike list \<times> nat) result" where
  "spike_detector_route toDate toNumber collate scale now q pool =
    (case spike_detector_query toDate toNumber q of Inl e \<Rightarrow> Inl e
     | Inr p \<Rightarrow> (case report_series collate scale now p pool of Inl e \<Rightarrow> Inl e | Inr (series, opts) \<Rightarrow> Inr (detectSpikes series opts)))"

section \<open>How far a day can lie from the mean\<close>

lemma square_of_sum: "(sum_list xs)\<^sup>2 \<le> real (length xs) * sum_list (map (\<lambda>x. x\<^sup>2) xs)"
proof (induction xs)
  case (Cons x xs)
  let ?n = "real (length xs)" and ?S = "sum_list xs" and ?Q = "sum_list (map (\<lambda>x. x\<^sup>2) xs)"
  have "2 * x * ?S \<le> ?n * x\<^sup>2 + ?Q"
  proof (cases "xs = []")
    case False
    then have n: "0 < ?n" by simp
    have "0 \<le> (?n * x - ?S)\<^sup>2" by simp
    also have "\<dots> = ?n * (?n * x\<^sup>2) - ?n * (2 * x * ?S) + ?S\<^sup>2" by (simp add: power2_eq_square algebra_simps)
    also have "\<dots> \<le> ?n * (?n * x\<^sup>2) - ?n * (2 * x * ?S) + ?n * ?Q" using Cons.IH by simp
    also have "\<dots> = ?n * (?n * x\<^sup>2 + ?Q - 2 * x * ?S)" by (simp add: algebra_simps)
    finally show ?thesis using n by (simp add: zero_le_mult_iff)
  qed simp
  then show ?case using Cons.IH by (simp add: power2_eq_square algebra_simps)
qed simp

lemma deviations_cancel: "xs \<noteq> [] \<Longrightarrow> sum_list (map (\<lambda>x. x - mean_of xs) xs) = 0"
  by (simp add: sum_list_subtractf sum_list_triv mean_of_def)

lemma deviation_bound:
  assumes "x \<in> set xs"
  shows "(x - mean_of xs)\<^sup>2 \<le> (real (length xs) - 1) * variance_of xs"
proof -
  obtain ys zs where xs: "xs = ys @ x # zs" using assms by (meson split_list)
  define m where "m = mean_of xs"
  let ?d = "x - m" and ?rest = "map (\<lambda>y. y - m) (ys @ zs)" and ?n = "real (length xs)"
  let ?S = "sum_list (map (\<lambda>y. (y - m)\<^sup>2) xs)"
  have "sum_list (map (\<lambda>y. y - m) xs) = 0" unfolding m_def using assms by (intro deviations_cancel) auto
  then have "sum_list ?rest = - ?d" by (simp add: xs)
  moreover have "sum_list (map (\<lambda>y. y\<^sup>2) ?rest) = ?S - ?d\<^sup>2" by (simp add: xs o_def)
  moreover have "real (length ?rest) = ?n - 1" by (simp add: xs)
  ultimately have "?d\<^sup>2 \<le> (?n - 1) * (?S - ?d\<^sup>2)" using square_of_sum [of ?rest] by (simp add: power2_commute [of m x])
  then have "?n * ?d\<^sup>2 \<le> (?n - 1) * ?S" by (simp add: algebra_simps)
  moreover have "0 < ?n" by (simp add: xs)
  ultimately show ?thesis unfolding variance_of_def m_def [symmetric] by (simp add: field_simps)
qed

lemma zScore_bound:
  assumes "p \<in> set ps" "sqrt (variance_of (counts_of ps)) \<noteq> 0" "h \<le> \<bar>zScore ps p\<bar>" "0 \<le> h"
  shows "h\<^sup>2 \<le> real (length ps) - 1"
proof -
  let ?v = "variance_of (counts_of ps)"
  have v: "0 < ?v" using assms(2) by (auto simp: variance_of_def intro!: divide_nonneg_nonneg sum_list_nonneg simp: order_less_le)
  have "h\<^sup>2 \<le> (zScore ps p)\<^sup>2" using assms(3,4) by (metis power2_abs power_mono)
  also have "\<dots> = (of_int (dp_calls p) - mean_of (counts_of ps))\<^sup>2 / ?v" using v by (simp add: zScore_def power_divide)
  also have "\<dots> \<le> (real (length (counts_of ps)) - 1) * ?v / ?v"
    using v assms(1) by (intro divide_right_mono deviation_bound) (auto simp: counts_of_def)
  finally show ?thesis using v by (simp add: counts_of_def)
qed

section \<open>Reports\<close>

lemma group_fold: "map_get (fold (\<lambda>p m. map_set (dp_apiId p) ((case map_get m (dp_apiId p) of None \<Rightarrow> [] | Some b \<Rightarrow> b) @ [p]) m) series m) a =
    (let ps = filter (\<lambda>p. dp_apiId p = a) series in if ps = [] then map_get m a else Some ((case map_get m a of None \<Rightarrow> [] | Some b \<Rightarrow> b) @ ps))"
  by (induction series arbitrary: m) (auto simp: jsmap Let_def split: option.splits)

lemma group_wf: "wf_map m \<Longrightarrow> wf_map (fold (\<lambda>p m. map_set (dp_apiId p) ((case map_get m (dp_apiId p) of None \<Rightarrow> [] | Some b \<Rightarrow> b) @ [p]) m) series m)"
  by (induction series arbitrary: m) simp_all

lemma group_values:
  assumes "ps \<in> set (map_values (group_by_api series))"
  shows "\<exists>a. ps = filter (\<lambda>p. dp_apiId p = a) series \<and> ps \<noteq> []"
proof -
  from assms obtain a where "(a, ps) \<in> set (group_by_api series)" by auto
  then have "map_get (group_by_api series) a = Some ps" using group_wf [of "[]" series] by (simp add: wf_map_get_iff group_by_api_def)
  then show ?thesis by (auto simp: group_by_api_def group_fold Let_def split: if_splits)
qed

lemma anomaly_point:
  assumes "x \<in> set (fst (detectUsageAnomalies series opts))"
  shows "\<exists>p \<in> set series. let ps = filter (\<lambda>q. dp_apiId q = dp_apiId p) series in
    ua_apiId x = dp_apiId p \<and> ua_day x = dp_day p \<and> ua_calls x = dp_calls p \<and> do_minDataPoints opts \<le> length ps \<and>
    sqrt (variance_of (counts_of ps)) \<noteq> 0 \<and> do_threshold opts \<le> \<bar>zScore ps p\<bar>"
proof -
  have "set (take n (sort_key f xs)) \<subseteq> set xs" for n xs and f :: "UsageAnomaly \<Rightarrow> real" by (metis set_sort set_take_subset)
  then have "x \<in> set (concat (map (score_series opts) (map_values (group_by_api series))))" using assms unfolding detectUsageAnomalies_def Let_def fst_conv by blast
  then obtain ps where ps: "ps \<in> set (map_values (group_by_api series))" "x \<in> set (score_series opts ps)" unfolding set_concat set_map [of "score_series opts"] by blast
  obtain a where a: "ps = filter (\<lambda>p. dp_apiId p = a) series" using group_values [OF ps(1)] by blast
  from ps(2) obtain p where p: "p \<in> set ps" "ua_apiId x = dp_apiId p" "ua_day x = dp_day p" "ua_calls x = dp_calls p" "do_threshold opts \<le> \<bar>zScore ps p\<bar>"
    "do_minDataPoints opts \<le> length ps" "sqrt (variance_of (counts_of ps)) \<noteq> 0"
    by (auto simp: score_series_def not_less split: if_splits)
  have "ps = filter (\<lambda>q. dp_apiId q = dp_apiId p) series" "p \<in> set series" using a p(1) by auto
  then show ?thesis using p unfolding Let_def by metis
qed

definition calls_on :: "usage_row list \<Rightarrow> millis \<Rightarrow> millis \<Rightarrow> string \<Rightarrow> int \<Rightarrow> nat" where
  "calls_on rows from to a d = length (filter (\<lambda>r. ur_api_id r = a \<and> from \<le> ur_created_at r \<and> ur_created_at r \<le> to \<and> day_of (ur_created_at r) = d) rows)"

definition active_days :: "usage_row list \<Rightarrow> millis \<Rightarrow> millis \<Rightarrow> string \<Rightarrow> int set" where
  "active_days rows from to a = {d. calls_on rows from to a d \<noteq> 0}"

definition day_point :: "nat \<Rightarrow> usage_row list \<Rightarrow> millis \<Rightarrow> millis \<Rightarrow> string \<Rightarrow> int \<Rightarrow> DailyUsagePoint" where
  "day_point scale rows from to a d = \<lparr>dp_apiId = a, dp_day = iso_day d, dp_calls = int (calls_on rows from to a d),
        dp_revenue = numeric_text scale (sum_list (map ur_amount (filter (\<lambda>r. ur_api_id r = a \<and> from \<le> ur_created_at r \<and> ur_created_at r \<le> to \<and> day_of (ur_created_at r) = d) rows)))\<rparr>"

lemma days_of_api:
  assumes "\<And>xs. mset (collate xs) = mset xs"
  shows "\<exists>days. filter (\<lambda>p. dp_apiId p = a) (daily_usage collate scale rows from to api) =
      map (day_point scale rows from to a) days \<and>
      distinct days \<and> (set days = active_days rows from to a \<or> days = [])"
proof -
  define rs where "rs = filter (\<lambda>r. from \<le> ur_created_at r \<and> ur_created_at r \<le> to \<and> (case api of None \<Rightarrow> True | Some a \<Rightarrow> ur_api_id r = a)) rows"
  define days where "days = (\<lambda>b. sort (remdups (map (\<lambda>r. day_of (ur_created_at r)) (filter (\<lambda>r. ur_api_id r = b) rs))))"
  define point where "point = (\<lambda>b d. let g = filter (\<lambda>r. day_of (ur_created_at r) = d) (filter (\<lambda>r. ur_api_id r = b) rs) in
      \<lparr>dp_apiId = b, dp_day = iso_day d, dp_calls = int (length g), dp_revenue = numeric_text scale (sum_list (map ur_amount g))\<rparr>)"
  let ?bs = "collate (remdups (map ur_api_id rs))"
  have usage: "daily_usage collate scale rows from to api = concat (map (\<lambda>b. map (point b) (days b)) ?bs)"
    by (simp add: daily_usage_def rs_def days_def point_def Let_def)
  have bs: "distinct ?bs" "set ?bs = ur_api_id ` set rs" by (metis assms distinct_remdups mset_eq_imp_distinct_iff, metis assms mset_eq_setD set_map set_remdups)
  have one: "filter (\<lambda>p. dp_apiId p = a) (map (point b) (days b)) = (if b = a then map (point b) (days b) else [])" for b
    by (auto simp: point_def Let_def filter_empty_conv)
  have "filter (\<lambda>p. dp_apiId p = a) (concat (map (\<lambda>b. map (point b) (days b)) bs)) = (if a \<in> set bs then map (point a) (days a) else [])" if "distinct bs" for bs
    using that by (induction bs) (auto simp: one)
  then have f: "filter (\<lambda>p. dp_apiId p = a) (daily_usage collate scale rows from to api) = (if a \<in> set ?bs then map (point a) (days a) else [])"
    unfolding usage using bs(1) by blast
  show ?thesis
  proof (cases "a \<in> set ?bs")
    case True
    then have "a \<in> ur_api_id ` set rs" using bs(2) by simp
    then have here: "filter (\<lambda>r. ur_api_id r = a) rs = filter (\<lambda>r. ur_api_id r = a \<and> from \<le> ur_created_at r \<and> ur_created_at r \<le> to) rows"
      unfolding rs_def by (auto simp: filter_filter split: option.splits intro!: filter_cong)
    have "point a = day_point scale rows from to a"
      unfolding point_def here by (simp add: day_point_def calls_on_def filter_filter Let_def conj_ac fun_eq_iff)
    moreover have "set (days a) = active_days rows from to a" unfolding days_def here by (auto simp: active_days_def calls_on_def filter_empty_conv)
    ultimately show ?thesis using True f by (intro exI [of _ "days a"]) (simp add: days_def)
  qed (use f in simp)
qed

text \<open>The window and the threshold of a report.\<close>

definition report_window :: "millis \<Rightarrow> parsed_query \<Rightarrow> millis \<times> millis" where
  "report_window now p = ((case pq_from p of Some t \<Rightarrow> t | None \<Rightarrow> now - DEFAULT_REPORT_WINDOW_MS), (case pq_to p of Some t \<Rightarrow> t | None \<Rightarrow> now))"

text \<open>What the report of unusual days can show: a reported day is a day of its API within the window with at least one call, and its count is the number of
  calls on that day; and the API had calls on more days of the window than the square of the threshold, so that with
  the default threshold of three no API with fewer than ten active days is ever reported, whatever its traffic, and
  a day without calls never is.\<close>

theorem reported_days:
  assumes "\<And>xs. mset (collate xs) = mset xs" "usageAnomaliesQuerySchema toDate toNumber q = Some p"
    "anomalies_route toDate toNumber collate scale now q (Pool rows) = Inr (found, analyzed)" "x \<in> set found"
  shows "let (from, to) = report_window now p; h = (case pq_threshold p of Some h \<Rightarrow> h | None \<Rightarrow> 3) in
    (\<exists>d. ua_day x = iso_day d \<and> ua_calls x = int (calls_on rows from to (ua_apiId x) d) \<and> 0 < ua_calls x) \<and>
    h\<^sup>2 + 1 \<le> of_nat (card (active_days rows from to (ua_apiId x)))"
proof -
  obtain lo hi where w: "report_window now p = (lo, hi)" by (cases "report_window now p")
  define h :: rat where "h = (case pq_threshold p of Some h \<Rightarrow> h | None \<Rightarrow> 3)"
  define series where "series = daily_usage collate scale rows lo hi (pq_apiId p)"
  define opts where "opts = \<lparr>do_threshold = of_rat h, do_minDataPoints = MIN_DATA_POINTS, do_limit = nat \<lfloor>case pq_limit p of Some l \<Rightarrow> l | None \<Rightarrow> 100\<rfloor>\<rparr>"
  have h: "1 \<le> h" using assms(2) by (auto simp: usageAnomaliesQuerySchema_def optional_field_def in_range_def h_def split: option.splits query_field.splits if_splits)
  have "detectUsageAnomalies series opts = (found, analyzed)" using assms(2,3) w
    by (auto simp: anomalies_route_def report_series_def report_window_def series_def opts_def h_def split: if_splits)
  then have "x \<in> set (fst (detectUsageAnomalies series opts))" using assms(4) by simp
  from anomaly_point [OF this] obtain pt where pt: "pt \<in> set series" "ua_apiId x = dp_apiId pt" "ua_day x = dp_day pt" "ua_calls x = dp_calls pt"
    "sqrt (variance_of (counts_of (filter (\<lambda>q. dp_apiId q = dp_apiId pt) series))) \<noteq> 0"
    "of_rat h \<le> \<bar>zScore (filter (\<lambda>q. dp_apiId q = dp_apiId pt) series) pt\<bar>" by (auto simp: Let_def opts_def)
  let ?a = "dp_apiId pt"
  obtain days where days: "filter (\<lambda>q. dp_apiId q = ?a) series = map (day_point scale rows lo hi ?a) days"
    "distinct days" "set days = active_days rows lo hi ?a \<or> days = []" using days_of_api [OF assms(1)] unfolding series_def by meson
  have mem: "pt \<in> set (filter (\<lambda>q. dp_apiId q = ?a) series)" using pt(1) by simp
  then obtain d where d: "d \<in> set days" "pt = day_point scale rows lo hi ?a d" unfolding days(1) set_map by blast
  have pd: "dp_day pt = iso_day d" "dp_calls pt = int (calls_on rows lo hi ?a d)" by (subst d(2), simp add: day_point_def)+
  have act: "set days = active_days rows lo hi ?a" using days(3) d(1) by auto
  have "(of_rat h)\<^sup>2 \<le> real (length days) - 1" using zScore_bound [OF mem pt(5,6)] h by (simp add: days(1))
  also have "length days = card (active_days rows lo hi ?a)" using days(2) act distinct_card by metis
  finally have "of_rat (h\<^sup>2 + 1) \<le> (of_rat (of_nat (card (active_days rows lo hi ?a))) :: real)" by (simp add: of_rat_add of_rat_power)
  then have "h\<^sup>2 + 1 \<le> of_nat (card (active_days rows lo hi ?a))" by (simp only: of_rat_less_eq)
  moreover have "0 < calls_on rows lo hi ?a d" using d(1) act by (simp add: active_days_def)
  ultimately show ?thesis using pt(2,3,4) pd unfolding w h_def by auto
qed

text \<open>What a spike and an anomaly have in common.\<close>

definition spike_as_anomaly :: "DetectedSpike \<Rightarrow> UsageAnomaly" where
  "spike_as_anomaly s = \<lparr>ua_apiId = ds_apiId s, ua_day = ds_day s, ua_type = Spike, ua_calls = ds_calls s, ua_revenue = ds_revenue s,
     ua_baselineMean = ds_baselineMean s, ua_stdDev = ds_stdDev s, ua_zScore = ds_zScore s\<rparr>"

lemma spikes_of_series:
  assumes "0 < do_threshold opts"
  shows "map spike_as_anomaly (spike_series opts ps) = filter (\<lambda>a. ua_type a = Spike) (score_series opts ps)"
proof -
  define A where "A = (\<lambda>p. \<lparr>ua_apiId = dp_apiId p, ua_day = dp_day p, ua_type = (if zScore ps p > 0 then Spike else Drop), ua_calls = dp_calls p,
         ua_revenue = dp_revenue p, ua_baselineMean = round4_real (mean_of (counts_of ps)), ua_stdDev = round4_real (sqrt (variance_of (counts_of ps))),
         ua_zScore = round4_real (zScore ps p)\<rparr>)"
  have type: "ua_type (A p) = Spike \<longleftrightarrow> 0 < zScore ps p" for p by (simp add: A_def)
  let ?high = "filter (\<lambda>p. \<not> zScore ps p < do_threshold opts) ps"
  have "?high = filter (\<lambda>p. 0 < zScore ps p) (filter (\<lambda>p. \<not> \<bar>zScore ps p\<bar> < do_threshold opts) ps)"
    unfolding filter_filter using assms by (intro filter_cong) auto
  moreover have "map spike_as_anomaly (spike_series opts ps) = (if length ps < do_minDataPoints opts \<or> sqrt (variance_of (counts_of ps)) = 0 then [] else map A ?high)"
    using assms by (auto simp: spike_series_def Let_def A_def spike_as_anomaly_def)
  moreover have "filter (\<lambda>a. ua_type a = Spike) (score_series opts ps) = (if length ps < do_minDataPoints opts \<or> sqrt (variance_of (counts_of ps)) = 0 then []
      else map A (filter (\<lambda>p. 0 < zScore ps p) (filter (\<lambda>p. \<not> \<bar>zScore ps p\<bar> < do_threshold opts) ps)))"
    unfolding score_series_def A_def [symmetric] by (simp add: filter_map o_def type del: filter_filter)
  ultimately show ?thesis by presburger
qed

lemma map_sort_by: "map g (sort_key (\<lambda>x. f (g x)) xs) = sort_key f (map g xs)"
proof -
  have "map g (insort_key (\<lambda>x. f (g x)) x xs) = insort_key f (g x) (map g xs)" for x xs by (induction xs) simp_all
  then show ?thesis by (induction xs) simp_all
qed

lemma sum_map_set:
  "wf_map m \<Longrightarrow> sum_list (map f (map_values (map_set k v m))) + (case map_get m k of None \<Rightarrow> 0 | Some b \<Rightarrow> f b) = sum_list (map f (map_values m)) + (f v :: nat)"
  by (induction m) (auto split: option.splits)

lemma group_total: "sum_list (map length (map_values (group_by_api series))) = length series"
proof -
  have "wf_map m \<Longrightarrow> sum_list (map length (map_values (fold (\<lambda>p m. map_set (dp_apiId p) ((case map_get m (dp_apiId p) of None \<Rightarrow> [] | Some b \<Rightarrow> b) @ [p]) m) series m))) =
      sum_list (map length (map_values m)) + length series" for m
  proof (induction series arbitrary: m)
    case (Cons p series)
    then show ?case using sum_map_set [OF Cons.prems, of length "dp_apiId p" "(case map_get m (dp_apiId p) of None \<Rightarrow> [] | Some b \<Rightarrow> b) @ [p]"]
      by (cases "map_get m (dp_apiId p)") simp_all
  qed simp
  from this [of "[]"] show ?thesis by (simp add: group_by_api_def)
qed

lemma scores_total: "length (concat (map (score_series opts) (map_values (group_by_api series)))) \<le> length series"
proof -
  have "length (score_series opts ps) \<le> length ps" for ps by (simp add: score_series_def)
  then have "length (concat (map (score_series opts) pss)) \<le> sum_list (map length pss)" for pss by (induction pss) (auto intro: add_mono)
  then show ?thesis using group_total [of series] by metis
qed

text \<open>The two detectors agree: with a positive threshold and a limit that no report exceeds, the spikes are exactly the anomalies above the mean, in the same
  order and with the same figures, and both count the same series.\<close>

theorem spikes_are_anomalies:
  assumes "0 < do_threshold opts" "length series \<le> do_limit opts"
  shows "map spike_as_anomaly (fst (detectSpikes series opts)) = filter (\<lambda>a. ua_type a = Spike) (fst (detectUsageAnomalies series opts)) \<and>
    snd (detectSpikes series opts) = snd (detectUsageAnomalies series opts)"
proof -
  let ?gs = "map_values (group_by_api series)"
  let ?cs = "concat (map (score_series opts) ?gs)" and ?ss = "concat (map (spike_series opts) ?gs)"
  have m: "map spike_as_anomaly ?ss = filter (\<lambda>a. ua_type a = Spike) ?cs"
    by (induction ?gs) (simp_all add: map_concat filter_concat o_def spikes_of_series [OF assms(1)])
  have l: "length ?cs \<le> do_limit opts" using scores_total assms(2) le_trans by blast
  moreover have "length ?ss \<le> length ?cs" using arg_cong [OF m, of length] length_filter_le le_trans by (metis length_map)
  ultimately have t: "take (do_limit opts) (sort_key f ?cs) = sort_key f ?cs" "take (do_limit opts) (sort_key g ?ss) = sort_key g ?ss"
    for f :: "UsageAnomaly \<Rightarrow> real" and g :: "DetectedSpike \<Rightarrow> real" by (simp_all only: take_all_iff length_sort)
  have z: "ds_zScore = (\<lambda>x. ua_zScore (spike_as_anomaly x))" by (simp add: spike_as_anomaly_def fun_eq_iff)
  show ?thesis unfolding detectSpikes_def detectUsageAnomalies_def Let_def fst_conv snd_conv t filter_sort m [symmetric] z
    using map_sort_by [of spike_as_anomaly "\<lambda>a. - \<bar>ua_zScore a\<bar>" ?ss] by simp
qed

section \<open>Examples\<close>

definition demo_event :: "string \<Rightarrow> string \<Rightarrow> millis \<Rightarrow> usage_row" where
  "demo_event d a t = \<lparr>ur_id = t, ur_user_id = ''u'', ur_api_id = a, ur_endpoint_id = ''e'', ur_api_key_id = ''k'', ur_developer_id = d, ur_amount = 1,
     ur_request_id = show_int t, ur_stellar_tx_hash = None, ur_created_at = t\<rparr>"

definition demo_config :: AnomalyDetectionConfig where
  "demo_config = \<lparr>ac_multiplier = 5, ac_baselineWindows = 2, ac_windowMs = 1000\<rparr>"

definition demo_scan :: "millis \<Rightarrow> scan_input" where
  "demo_scan t = (let rows = [demo_event ''d'' ''a'' 2500, demo_event ''d'' ''a'' 3100] in
     \<lparr>sc_now = t, sc_clock = (\<lambda>_. t), sc_listed = rows, sc_rows = (\<lambda>_. rows), sc_list_fails = False, sc_count_fails = (\<lambda>_. False)\<rparr>)"

lemma demo_valid: "validateDetectionConfig demo_config = Inr ()"
  by (simp add: demo_config_def validateDetectionConfig_def)

theorem anomaly_scan_exact_witness:
  "\<exists>r m'. runAnomalyScan demo_config 1000 (demo_scan 3200) [] = Inr (r, m') \<and> ''d'' \<in> af_developerId ` set (sr_emitted r)"
proof -
  have "\<not> sc_list_fails (demo_scan 3200)" by (simp add: demo_scan_def Let_def)
  from anomaly_scan_exact [OF demo_valid this, of 1000 "[]"] obtain r m' where
    r: "runAnomalyScan demo_config 1000 (demo_scan 3200) [] = Inr (r, m')" and
    e: "''d'' \<in> af_developerId ` set (sr_emitted r) \<longleftrightarrow>
      (let s = (sc_now (demo_scan 3200) div ac_windowMs demo_config - 1) * ac_windowMs demo_config; n = ac_baselineWindows demo_config;
           current = calls_in (sc_rows (demo_scan 3200) ''d'') ''d'' s (s + ac_windowMs demo_config);
           base = calls_in (sc_rows (demo_scan 3200) ''d'') ''d'' (s - n * ac_windowMs demo_config) s in
       ''d'' \<noteq> [] \<and> (\<exists>x \<in> set (sc_listed (demo_scan 3200)). ur_developer_id x = ''d'' \<and> s - n * ac_windowMs demo_config \<le> ur_created_at x) \<and> \<not> sc_count_fails (demo_scan 3200) ''d'' \<and>
       (if base = 0 then 0 < current else of_int current > of_int base / of_int n * ac_multiplier demo_config) \<and>
       \<not> live [] (anomalyDedupKey ''d'' s) (sc_clock (demo_scan 3200) ''d''))" by blast
  have "''d'' \<in> af_developerId ` set (sr_emitted r)"
    unfolding e by (simp add: demo_scan_def demo_config_def calls_in_def demo_event_def live_def Let_def)
  then show ?thesis using r by blast
qed

theorem anomaly_reported_once_witness: "distinct (scans demo_config 1000 [demo_scan 3200, demo_scan 3900] [])"
proof -
  have "timely 0 [demo_scan 3200, demo_scan 3900]" by (simp add: timely_def demo_scan_def Let_def)
  from anomaly_reported_once [OF demo_valid this, of 1000] show ?thesis by (simp add: demo_config_def del: scans.simps)
qed

definition demo_rows :: "usage_row list" where
  "demo_rows = map (demo_event ''d'' ''a'') [0, DAY_MS, 2 * DAY_MS, 2 * DAY_MS + 1, 2 * DAY_MS + 2, 2 * DAY_MS + 3]"

definition demo_series :: "DailyUsagePoint list" where
  "demo_series = daily_usage id 0 demo_rows 0 (3 * DAY_MS) None"

definition demo_query :: report_query where
  "demo_query = \<lparr>rq_from = Single ''f'', rq_to = Single ''t'', rq_threshold = Single ''1'', rq_limit = Missing, rq_apiId = Missing\<rparr>"

definition demo_date :: "string \<Rightarrow> millis option" where
  "demo_date s = (if s = ''f'' then Some 0 else Some (3 * DAY_MS))"

definition demo_number :: "string \<Rightarrow> rat option" where
  "demo_number s = (if s = ''1'' then Some 1 else None)"

lemma demo_series_points: "demo_series = [\<lparr>dp_apiId = ''a'', dp_day = iso_day 0, dp_calls = 1, dp_revenue = numeric_text 0 1\<rparr>,
    \<lparr>dp_apiId = ''a'', dp_day = iso_day 1, dp_calls = 1, dp_revenue = numeric_text 0 1\<rparr>, \<lparr>dp_apiId = ''a'', dp_day = iso_day 2, dp_calls = 4, dp_revenue = numeric_text 0 4\<rparr>]"
  by (simp add: demo_series_def daily_usage_def demo_rows_def demo_event_def day_of_def DAY_MS_def Let_def)

lemma demo_scores: "\<exists>x. score_series \<lparr>do_threshold = 1, do_minDataPoints = 3, do_limit = 100\<rparr> demo_series = [x]"
proof -
  have c: "counts_of demo_series = [1, 1, 4]" by (simp add: demo_series_points counts_of_def)
  have m: "mean_of [1, 1, 4 :: real] = 2" by (simp add: mean_of_def)
  have v: "variance_of [1, 1, 4 :: real] = 2" by (simp add: variance_of_def m power2_eq_square)
  have "1 / sqrt 2 < 1" "1 \<le> 2 / sqrt 2" by (simp_all add: real_div_sqrt)
  then show ?thesis by (simp add: score_series_def zScore_def c m v) (simp add: demo_series_points)
qed

theorem reported_days_witness:
  "\<exists>found analyzed x d. anomalies_route demo_date demo_number id 0 0 demo_query (Pool demo_rows) = Inr (found, analyzed) \<and> x \<in> set found \<and>
    ua_day x = iso_day d \<and> ua_calls x = int (calls_on demo_rows 0 (3 * DAY_MS) (ua_apiId x) d)"
proof -
  let ?p = "\<lparr>pq_from = Some 0, pq_to = Some (3 * DAY_MS), pq_threshold = Some 1, pq_limit = None, pq_apiId = None\<rparr>"
  let ?o = "\<lparr>do_threshold = 1, do_minDataPoints = 3, do_limit = 100\<rparr> :: DetectOptions"
  have p: "usageAnomaliesQuerySchema demo_date demo_number demo_query = Some ?p"
    by (simp add: usageAnomaliesQuerySchema_def demo_query_def demo_date_def demo_number_def optional_field_def in_range_def)
  have g: "map_values (group_by_api demo_series) = [demo_series]" by (simp add: group_by_api_def demo_series_points)
  obtain x where "score_series ?o demo_series = [x]" using demo_scores by blast
  then have x: "fst (detectUsageAnomalies demo_series ?o) = [x]" by (simp add: detectUsageAnomalies_def g)
  have r: "anomalies_route demo_date demo_number id 0 0 demo_query (Pool demo_rows) = Inr ([x], snd (detectUsageAnomalies demo_series ?o))"
    using x by (simp add: anomalies_route_def p report_series_def demo_series_def DAY_MS_def MIN_DATA_POINTS_def prod_eq_iff)
  have w: "report_window 0 ?p = (0, 3 * DAY_MS)" by (simp add: report_window_def)
  from reported_days [OF _ p r] obtain d where "ua_day x = iso_day d" "ua_calls x = int (calls_on demo_rows 0 (3 * DAY_MS) (ua_apiId x) d)"
    by (auto simp: w)
  then show ?thesis using r by fastforce
qed

theorem spikes_are_anomalies_witness:
  "map spike_as_anomaly (fst (detectSpikes demo_series \<lparr>do_threshold = 1, do_minDataPoints = 3, do_limit = 100\<rparr>)) =
   filter (\<lambda>a. ua_type a = Spike) (fst (detectUsageAnomalies demo_series \<lparr>do_threshold = 1, do_minDataPoints = 3, do_limit = 100\<rparr>))"
  using spikes_are_anomalies [of "\<lparr>do_threshold = 1, do_minDataPoints = 3, do_limit = 100\<rparr>" demo_series] by (simp add: demo_series_points)

end
