(* ===== verification/Spec2Isabelle.thy ===== *)
theory Spec2Isabelle
  imports Semaphore CircuitBreaker RateLimiter Usdc Credits Billing TtlCache Dispute Quota UsageStore Settlement
    ApiKeys Registry Headers Proxy Gateway
    Idempotency RefreshTokens Webhooks SigningKeys UsageAnalytics UsagePg ApiCatalog
    Reconciliation Invoices MonthlyInvoiceJob QuotaNotifier Lifecycle Slo Subscriptions Access Anomalies
begin

text \<open>
  \<^bold>\<open>Callora backend: a verification development\<close>

  The program is the backend of an API marketplace. A consumer calls a developer's API through the backend with an
  API key; each call is checked, limited, forwarded, metered and paid for from prepaid USDC; developers are
  paid in settlement batches, informed by webhooks, and see their usage. The theories follow this flow. File
  names are relative to \<^verbatim>\<open>src/src/\<close>.

  \<^bold>\<open>Parts and how they interact.\<close>

  A request enters through the semaphores (\<open>Semaphore\<close>) and rate limiters (\<open>RateLimiter\<close>), its key is checked
  (\<open>ApiKeys\<close>), its target comes from the registry (\<open>Registry\<close>), and one of the two routers forwards it
  (\<open>Proxy\<close>, \<open>Gateway\<close>, with \<open>Headers\<close>) behind a circuit breaker (\<open>CircuitBreaker\<close>). A delivered response is recorded in the
  usage store (\<open>UsageStore\<close>) and charged. The billing service (\<open>Billing\<close>) charges on the Soroban ledger in three
  phases; the credits table (\<open>Credits\<close>) keeps prepaid balances. Usage events in Postgres (\<open>UsagePg\<close>) are indexed
  into the revenue ledger and summarised (\<open>UsageAnalytics\<close>, \<open>Calendar\<close>); settlement batches (\<open>Settlement\<close>) pay developers and are
  reconciled with the chain. The catalogue of APIs (\<open>ApiCatalog\<close>) is listed through cursors (\<open>Cursors\<close>, \<open>Paging\<close>) and a cache
  (\<open>TtlCache\<close>). Webhooks (\<open>Webhooks\<close>, \<open>SigningKeys\<close>) tell developers about events. Mutating requests can be made
  idempotent (\<open>Idempotency\<close>); sessions live on refresh tokens (\<open>RefreshTokens\<close>); disputes (\<open>Dispute\<close>) and quota requests
  (\<open>Quota\<close>) are decided by administrators. Developers subscribe to APIs (\<open>Subscriptions\<close>), and requests pass the access checks
  of \<open>Access\<close>. Jobs in the background reconcile the books (\<open>Reconciliation\<close>), issue monthly invoices (\<open>Invoices\<close>, \<open>MonthlyInvoiceJob\<close>),
  tell developers about their quota (\<open>QuotaNotifier\<close>) and look for unusual traffic (\<open>Anomalies\<close>) and missed service levels (\<open>Slo\<close>); the shutdown
  handler (\<open>Lifecycle\<close>) stops them before the database is closed.

  \<^bold>\<open>Theories, sources, state and operations.\<close>

  \<^item> \<open>Prelude\<close>: values of the language (maps as association lists, decimal printing and reading, string operations, UTF-8,
    \<open>BigInt\<close> division) and the errors of \<^verbatim>\<open>errors/index.ts\<close>, with the shared lemmas (collections \<open>jsmap\<close>, \<open>sums\<close>).
  \<^item> \<open>Semaphore\<close>: \<^verbatim>\<open>utils/developerSemaphore.ts\<close>, \<^verbatim>\<open>utils/keySemaphore.ts\<close> and their middlewares. The state is the map of slots with
    queues and armed timers; \<open>slot_step\<close> is every interleaving of entering, leaving and timers. Lemmas: the bound on active
    requests, first-come first-served order, no lost waiter, for both semaphores through the locale \<open>slot_semaphore\<close>.
  \<^item> \<open>CircuitBreaker\<close>: \<^verbatim>\<open>lib/circuitBreaker.ts\<close>. \<open>admit\<close> and \<open>settle\<close> are \<open>execute\<close> before and after its operation. Lemmas: the state machine,
    opening exactly at the threshold, both stores agree (locales \<open>breaker_store\<close>, \<open>breaker_store_pair\<close>).
  \<^item> \<open>RateLimiter\<close>: \<^verbatim>\<open>services/rateLimiter.ts\<close>, \<^verbatim>\<open>middleware/rateLimit.ts\<close>. Lemmas: exact answers of the fixed window, a bound over any interval,
    the budget of the token bucket, Postgres refines memory (locale \<open>window_store\<close>).
  \<^item> \<open>Usdc\<close>, \<open>Credits\<close>, \<open>Billing\<close>: \<^verbatim>\<open>services/billing.ts\<close>, \<^verbatim>\<open>repositories/creditsRepository.ts\<close>, \<^verbatim>\<open>routes/billing/deduct/bulk.ts\<close>. Lemmas: round trips of
    amounts (locale \<open>money_codec\<close>), conservation of credits (\<open>credit_ledger\<close>), at most one charge and at most one usage event per request id,
    replays return the first result, bulk deductions charge exactly the new requests.
  \<^item> \<open>TtlCache\<close>: \<^verbatim>\<open>lib/listingsCache.ts\<close>, \<^verbatim>\<open>services/quotasCacheWarm.ts\<close>, \<^verbatim>\<open>services/refundsCacheWarm.ts\<close>; the contract of a cache is the locale \<open>ttl_cache\<close>.
  \<^item> \<open>Dispute\<close>: \<^verbatim>\<open>services/disputeService.ts\<close>. \<open>Quota\<close>: \<^verbatim>\<open>services/quotaService.ts\<close>. Decisions are final, bulk decisions are all or nothing.
  \<^item> \<open>UsageStore\<close>: \<^verbatim>\<open>services/usageStore.ts\<close>. \<open>Settlement\<close>: \<^verbatim>\<open>services/settlementStore.ts\<close>, \<^verbatim>\<open>lib/retry.ts\<close>, \<^verbatim>\<open>services/revenueSettlementService.ts\<close>; the contract of a
    store is the locale \<open>settlement_store\<close>. Lemmas: a batch pays what it marks as settled, reconciliation follows the chain's verdicts.
  \<^item> \<open>Paging\<close>: sorting and the contract \<open>cursor_pages\<close> of cursor pagination, interpreted for the listings of API keys, registry entries, refresh
    tokens, usage events and the catalogue.
  \<^item> \<open>ApiKeys\<close>: \<^verbatim>\<open>repositories/apiKeyRepository.ts\<close>, \<^verbatim>\<open>services/tokenRevocation.ts\<close>, \<^verbatim>\<open>middleware/gatewayApiKeyAuth.ts\<close>. Lemmas: which key is accepted,
    for both key sources (locale \<open>key_source\<close>).
  \<^item> \<open>Registry\<close>: \<^verbatim>\<open>data/apiRegistry.ts\<close>, \<^verbatim>\<open>lib/upstreamTarget.ts\<close>. Lemma: which targets pass the check.
  \<^item> \<open>Headers\<close>, \<open>Proxy\<close>, \<open>Gateway\<close>: \<^verbatim>\<open>lib/hopByHop.ts\<close>, \<^verbatim>\<open>middleware/requestId.ts\<close>, \<^verbatim>\<open>routes/proxyRoutes.ts\<close>, \<^verbatim>\<open>services/billingService.ts\<close>,
    \<^verbatim>\<open>routes/gatewayRoutes.ts\<close>. The work after a response is split into steps that interleave; the look-up and the insert of a recording
    are two of them. Lemmas: nothing is forwarded or charged without passing the checks, recorded usage and charges account for each other,
    which gateway requests are served and what they cost (locales \<open>billing_service\<close>, \<open>usage_recorder\<close>, \<open>metered_proxy\<close>).
  \<^item> \<open>Idempotency\<close>: \<^verbatim>\<open>middleware/idempotency.ts\<close>, \<^verbatim>\<open>services/idempotencySweeper.ts\<close> as interleaving database steps of numbered requests.
    Lemma: a claimed key runs its request once.
  \<^item> \<open>RefreshTokens\<close>: \<^verbatim>\<open>services/refreshTokenService.ts\<close>, \<^verbatim>\<open>repositories/refreshTokenRepository.ts\<close>, \<^verbatim>\<open>controllers/authController.ts\<close>.
  \<^item> \<open>Webhooks\<close>: \<^verbatim>\<open>webhooks/\<close>, \<^verbatim>\<open>services/webhookRetry.ts\<close>, \<^verbatim>\<open>services/webhookMonitor.ts\<close>, \<^verbatim>\<open>routes/webhooks.ts\<close>, \<^verbatim>\<open>events/event.emitter.ts\<close>. Lemmas: every stored
    subscription keeps its type, what a dispatch attempts and records, which deliveries are accepted, the grace window of a rotated secret.
  \<^item> \<open>SigningKeys\<close>: \<^verbatim>\<open>services/webhookSigner.ts\<close> over its store interface (locale \<open>signing_key_store\<close>): which keys a history of rotations leaves valid.
  \<^item> \<open>Calendar\<close>, \<open>UsageAnalytics\<close>: the UTC calendar, \<^verbatim>\<open>repositories/usageEventsRepository.ts\<close>, \<^verbatim>\<open>services/developerAnalytics.ts\<close>, \<^verbatim>\<open>routes/developers/me/usage.ts\<close>.
  \<^item> \<open>UsagePg\<close>: \<^verbatim>\<open>repositories/usageEventsRepository.pg.ts\<close>, \<^verbatim>\<open>services/revenueLedgerIndexer.ts\<close>. Lemmas: one row per request id, the database
    aggregates like the in-memory repository, a run of the indexer indexes every event.
  \<^item> \<open>Cursors\<close>: \<^verbatim>\<open>lib/pagination.ts\<close>. \<open>ApiCatalog\<close>: \<^verbatim>\<open>repositories/apiRepository.ts\<close>, \<^verbatim>\<open>routes/apis.ts\<close>. Lemmas: deleted APIs are out of sight, the
    cached listing is the listing of the current tables except for what the warm-up stored and for edited profiles, walking its pages is
    complete, the two repositories agree.
  \<^item> \<open>Reconciliation\<close>: \<^verbatim>\<open>services/billingReconciliationJob.ts\<close>, \<^verbatim>\<open>services/settlementReconciliationJob.ts\<close>. Lemmas: after a run of the indexer the
    books balance when the ledger column has no decimals, and the run fails when it has; which settlements are reported.
  \<^item> \<open>Invoices\<close>, \<open>MonthlyInvoiceJob\<close>: \<^verbatim>\<open>services/InvoiceService.ts\<close>, \<^verbatim>\<open>workers/monthlyInvoiceJob.ts\<close>. Lemmas: what a run invoices, and how the job gets stuck.
  \<^item> \<open>QuotaNotifier\<close>: \<^verbatim>\<open>services/quotaNotifier.ts\<close>. Lemma: no alert twice, for both notification stores (locales \<open>notification_store\<close>, \<open>working_store\<close>).
  \<^item> \<open>Lifecycle\<close>: \<^verbatim>\<open>lifecycle/shutdown.ts\<close> and the interval jobs, as reactions to events in any order. Lemmas: the order of the phases, the exact count of
    requests in flight, draining jobs end before the database closes.
  \<^item> \<open>Slo\<close>: \<^verbatim>\<open>services/sloService.ts\<close>, \<^verbatim>\<open>workers/sloAlertRecorder.ts\<close>, \<^verbatim>\<open>workers/sloAlertJob.ts\<close>. Lemmas: what the window reports, alerts are spaced.
  \<^item> \<open>Subscriptions\<close>: \<^verbatim>\<open>repositories/subscriptionRepository.ts\<close>, \<^verbatim>\<open>routes/subscriptionRoutes.ts\<close>, each route cut into its checks and its write. Lemmas: the table stays
    consistent and users stay apart under interleaving.
  \<^item> \<open>Access\<close>: \<^verbatim>\<open>lib/clientIp.ts\<close>, \<^verbatim>\<open>middleware/ipAllowlist.ts\<close>, \<^verbatim>\<open>loginThrottle.ts\<close>, \<^verbatim>\<open>cors.ts\<close>, \<^verbatim>\<open>requireAuth.ts\<close> and \<^verbatim>\<open>adminAuth.ts\<close>.
  \<^item> \<open>Anomalies\<close>: \<^verbatim>\<open>services/anomalyService.ts\<close>, \<^verbatim>\<open>services/usageAnomalyDetector.ts\<close>, \<^verbatim>\<open>services/spikeDetector.ts\<close>, their job and admin routes. Lemmas: which developers
    a scan reports, no window is reported twice, spikes are the anomalies above the mean.

  \<^bold>\<open>Bounds and fuel.\<close> Loops over data are structural. The retry loops of billing, settlement and webhooks count their attempts, so
  their recursion is on the number of attempts left. The indexer's loop \<open>run_batches\<close> runs until a short batch; it takes fuel, and the
  liveness theorem of \<open>UsagePg\<close> shows that any fuel above the number of events reaches the end. \<open>walk_pages\<close> follows cursors with fuel; more than the length of the
  listing is enough. Times are integers of milliseconds; numbers of the language are exact, which holds for integers
  up to \<open>2^53\<close>; amounts of money are integers of units or exact rationals.

  \<^bold>\<open>Not modelled.\<close> The Express wiring, logging, tracing and metrics; schema validation by a third-party library except where a component
  depends on its outcome; the environment configuration; Stellar transaction building, which calls the Stellar SDK; the GraphQL, export,
  forecast and audit routes and the routes of administrators that only call a service modelled above. Failures of the database are modelled where the code reacts to them (billing, settlement, idempotency) and excluded elsewhere.
\<close>

end
